(* ===== verification/KadPrelude.thy ===== *)
theory KadPrelude
  imports Main "HOL-Library.Word" "HOL-Library.List_Lexorder"
begin

unbundle bit_operations_syntax

section \<open>Shared types, collections and lemmas\<close>

text \<open>
  Names for the machine integers of the C++ code, casts to the signed 16-bit
  accumulator of \<open>KadNodeId.h\<close>, and the lemmas on lists, words and numbers in base 256
  that more than one component needs. The collections:
  \<^item> \<open>id_simps\<close>: what the operations of an identifier do to its size and its value;
  \<^item> \<open>xl_simps\<close>: the laws of the list container, for a container that satisfies them;
  \<^item> \<open>store_simps\<close>: reading the contact store after an allocation or an update.
\<close>

named_theorems id_simps
named_theorems xl_simps
named_theorems store_simps

type_synonym u8 = "8 word"
type_synonym u16 = "16 word"
type_synonym u32 = "32 word"
type_synonym u64 = "64 word"

subsection \<open>Signed 16-bit casts\<close>

text \<open>\<open>static_cast<int16_t>\<close> of an \<open>int\<close>: the value modulo \<open>2 ^ 16\<close>, read as two's complement.\<close>

definition cast_i16 :: "int \<Rightarrow> int" where
  "cast_i16 x = (x + 2 ^ 15) mod 2 ^ 16 - 2 ^ 15"

lemma cast_i16_id: "- (2 ^ 15) \<le> x \<Longrightarrow> x < 2 ^ 15 \<Longrightarrow> cast_i16 x = x"
  by (simp add: cast_i16_def)

text \<open>\<open>static_cast<uint8_t>\<close> of an \<open>int\<close>: the low eight bits.\<close>

definition cast_u8 :: "int \<Rightarrow> u8" where
  "cast_u8 x = word_of_int x"

lemma uint_cast_u8: "uint (cast_u8 x) = x mod 256"
  by (simp add: cast_u8_def uint_word_of_int)

lemma unat_u8_less [simp]: "unat (b :: u8) < 256"
  using unsigned_less [where w = b] by simp

lemma uint_u8_bounds: "0 \<le> uint (b :: u8)" "uint b < 256"
  using unsigned_less [where w = b] by simp_all

subsection \<open>Byte lists as numbers in base 256\<close>

text \<open>The number a big-endian array of bytes stands for.\<close>

fun be_val :: "u8 list \<Rightarrow> nat" where
  "be_val [] = 0"
| "be_val (b # bs) = unat b * 256 ^ length bs + be_val bs"

lemma be_val_less: "be_val bs < 256 ^ length bs"
proof (induction bs)
  case Nil
  then show ?case by simp
next
  case (Cons b bs)
  have "unat b * 256 ^ length bs + be_val bs < unat b * 256 ^ length bs + 256 ^ length bs"
    using Cons.IH by simp
  also have "\<dots> = (unat b + 1) * 256 ^ length bs"
    by (simp add: algebra_simps)
  also have "\<dots> \<le> 256 * 256 ^ length bs"
    using unat_u8_less [of b] by (intro mult_le_mono1) linarith
  finally show ?case by simp
qed

lemma be_val_append: "be_val (xs @ ys) = be_val xs * 256 ^ length ys + be_val ys"
  by (induction xs) (simp_all add: algebra_simps power_add)

lemma be_val_replicate_0 [simp]: "be_val (replicate n 0) = 0"
  by (induction n) simp_all

lemma be_val_eq_0_iff: "be_val xs = 0 \<longleftrightarrow> (\<forall>b \<in> set xs. b = 0)"
  by (induction xs) (auto simp: unat_eq_0)

lemma base_less_iff:
  fixes a b x y m :: nat
  assumes "x < m" "y < m"
  shows "a * m + x < b * m + y \<longleftrightarrow> a < b \<or> (a = b \<and> x < y)"
proof (cases a b rule: linorder_cases)
  case less
  then have "a * m + m \<le> b * m"
    using mult_le_mono1 [of "Suc a" b m] by simp
  with less assms show ?thesis by simp
next
  case equal
  then show ?thesis by simp
next
  case greater
  then have "b * m + m \<le> a * m"
    using mult_le_mono1 [of "Suc b" a m] by simp
  with greater assms show ?thesis by simp
qed

lemma be_val_less_iff:
  assumes "length xs = length ys"
  shows "be_val xs < be_val ys \<longleftrightarrow> xs < ys"
  using assms
proof (induction xs ys rule: list_induct2)
  case Nil
  then show ?case by simp
next
  case (Cons x xs y ys)
  have "be_val (x # xs) < be_val (y # ys) \<longleftrightarrow>
    unat x < unat y \<or> (unat x = unat y \<and> be_val xs < be_val ys)"
    using base_less_iff [of "be_val xs" "256 ^ length xs" "be_val ys" "unat x" "unat y"]
      be_val_less [of xs] be_val_less [of ys] Cons.hyps by simp
  with Cons.IH show ?case by (auto simp: word_less_nat_alt word_unat_eq_iff)
qed

lemma be_val_inj:
  assumes "length xs = length ys" "be_val xs = be_val ys"
  shows "xs = ys"
  using assms by (metis be_val_less_iff less_irrefl linorder_neqE)

lemma bit_add_high:
  fixes a v :: nat
  assumes "v < 2 ^ n"
  shows "bit (a * 2 ^ n + v) k = (if k < n then bit v k else bit a (k - n))"
proof -
  have m: "(a * 2 ^ n + v) mod 2 ^ n = v" and d: "(a * 2 ^ n + v) div 2 ^ n = a"
    using assms by simp_all
  have lo: "bit (a * 2 ^ n + v) k = bit v k" if "k < n"
    using m that bit_take_bit_iff [of n "a * 2 ^ n + v" k] by (simp add: take_bit_eq_mod)
  have hi: "bit (a * 2 ^ n + v) k = bit a (k - n)" if "n \<le> k"
    using d that by (metis bit_iff_odd_drop_bit drop_bit_drop_bit drop_bit_eq_div le_add_diff_inverse2)
  from lo hi show ?thesis by (cases "k < n") simp_all
qed

lemma pow256: "(256 :: nat) ^ n = 2 ^ (8 * n)"
  by (simp add: power_mult)

text \<open>Bit \<open>k\<close> of the number is a bit of one byte, counted from the last byte.\<close>

lemma bit_be_val:
  "bit (be_val xs) k \<longleftrightarrow>
    k < 8 * length xs \<and> bit (xs ! (length xs - 1 - k div 8)) (k mod 8)"
proof (induction xs)
  case Nil
  then show ?case by simp
next
  case (Cons b bs)
  let ?n = "8 * length bs"
  have split: "bit (be_val (b # bs)) k =
    (if k < ?n then bit (be_val bs) k else bit (unat b) (k - ?n))"
    using bit_add_high [of "be_val bs" ?n "unat b" k] be_val_less [of bs]
    by (simp add: pow256)
  show ?case
  proof (cases "k < ?n")
    case True
    then have "length bs - k div 8 = Suc (length bs - 1 - k div 8)"
      by (simp add: Suc_diff_Suc div_less_iff_less_mult mult.commute)
    with True split Cons.IH show ?thesis by simp
  next
    case False
    then have ge: "?n \<le> k" by simp
    show ?thesis
    proof (cases "k < ?n + 8")
      case True
      with ge have "k div 8 = length bs" "k mod 8 = k - ?n"
        by (simp_all add: div_nat_eqI modulo_nat_def)
      with True ge split show ?thesis by (simp add: bit_unsigned_iff)
    next
      case no: False
      with ge have "\<not> bit (unat b) (k - ?n)"
        using bit_imp_le_length [of b "k - ?n"] by (auto simp: bit_unsigned_iff)
      with no split ge show ?thesis by simp
    qed
  qed
qed

lemma be_val_xor:
  assumes "length xs = length ys"
  shows "be_val (map2 (XOR) xs ys) = be_val xs XOR be_val ys"
proof (rule bit_eqI)
  fix k
  have "length xs - 1 - k div 8 < length xs" if "k < 8 * length xs"
    using that by (cases xs) auto
  then show "bit (be_val (map2 (XOR) xs ys)) k = bit (be_val xs XOR be_val ys) k"
    using assms by (auto simp: bit_be_val bit_xor_iff)
qed

lemma be_val_or:
  assumes "length xs = length ys"
  shows "be_val (map2 (OR) xs ys) = be_val xs OR be_val ys"
proof (rule bit_eqI)
  fix k
  have "length xs - 1 - k div 8 < length xs" if "k < 8 * length xs"
    using that by (cases xs) auto
  then show "bit (be_val (map2 (OR) xs ys)) k = bit (be_val xs OR be_val ys) k"
    using assms by (auto simp: bit_be_val bit_or_iff)
qed

lemma be_val_take: "be_val (take k xs) = be_val xs div 256 ^ (length xs - k)"
proof -
  have "be_val xs = be_val (take k xs) * 256 ^ length (drop k xs) + be_val (drop k xs)"
    using be_val_append [of "take k xs" "drop k xs"] by simp
  then show ?thesis
    using be_val_less [of "drop k xs"] by simp
qed

lemma be_val_drop: "be_val (drop k xs) = be_val xs mod 256 ^ (length xs - k)"
proof -
  have "be_val xs = be_val (take k xs) * 256 ^ length (drop k xs) + be_val (drop k xs)"
    using be_val_append [of "take k xs" "drop k xs"] by simp
  then show ?thesis
    using be_val_less [of "drop k xs"] by simp
qed

subsection \<open>Halving an interval of numbers\<close>

text \<open>One more leading bit of a number: the step from a node's range to a child's.\<close>

lemma div_pow2_step:
  fixes x :: nat
  shows "x div 2 ^ k = 2 * (x div 2 ^ Suc k) + of_bool (bit x k)"
proof -
  have "x div 2 ^ k = 2 * (x div 2 ^ k div 2) + x div 2 ^ k mod 2"
    by simp
  also have "x div 2 ^ k div 2 = x div 2 ^ Suc k"
    by (simp flip: div_mult2_eq add: mult.commute)
  also have "x div 2 ^ k mod 2 = of_bool (bit x k)"
    by (simp add: bit_iff_odd mod_2_eq_odd)
  finally show ?thesis .
qed

subsection \<open>Lists updated by index\<close>

lemma take_update_same [simp]: "take i (xs[i := v]) = take i xs"
  by (metis list_update_beyond length_take min.cobounded2 take_update_swap)

lemma drop_update_same:
  assumes "i < length xs"
  shows "drop i (xs[i := v]) = v # drop (Suc i) xs"
  using assms by (metis Cons_nth_drop_Suc drop_update_cancel length_list_update lessI nth_list_update_eq)

end
