(* ===== verification/KadConfig.thy ===== *)
theory KadConfig
  imports KadPrelude
begin

section \<open>Compile-time configuration\<close>

text \<open>
  The constants of \<open>src/KadConfig.h.in\<close>. Times are in milliseconds. They are abbreviations,
  so that the components' definitions compute with the numbers the preprocessor puts there.
\<close>

abbreviation (input) KADEMLIA_ID_BITS :: nat where "KADEMLIA_ID_BITS \<equiv> 160"
abbreviation (input) KADEMLIA_ID_SIZE :: nat where "KADEMLIA_ID_SIZE \<equiv> 20"
abbreviation (input) KADEMLIA_REFRESH :: nat where "KADEMLIA_REFRESH \<equiv> 900000"
abbreviation (input) KADEMLIA_TIMEOUT_RESPONSE :: nat where "KADEMLIA_TIMEOUT_RESPONSE \<equiv> 500"
abbreviation (input) KADEMLIA_ALPHA :: int where "KADEMLIA_ALPHA \<equiv> 3"
abbreviation (input) KADEMLIA_B :: nat where "KADEMLIA_B \<equiv> 2"
abbreviation (input) KADEMLIA_RT_BASE :: nat where "KADEMLIA_RT_BASE \<equiv> 3"
abbreviation (input) KADEMLIA_BUCKET_SIZE :: nat where "KADEMLIA_BUCKET_SIZE \<equiv> 16"
abbreviation (input) KADEMLIA_CACHE_SIZE :: nat where "KADEMLIA_CACHE_SIZE \<equiv> 8"
abbreviation (input) KADEMLIA_STALE :: u32 where "KADEMLIA_STALE \<equiv> 3"

end
