(* ===== verification/KadNodeId.thy ===== *)
theory KadNodeId
  imports KadConfig
begin

section \<open>Identifiers\<close>

text \<open>
  \<open>TKadId<ID_SIZE>\<close> of \<open>src/KadNodeId.h\<close>: an array \<open>mData\<close> of \<open>ID_SIZE\<close> bytes, most
  significant byte first. \<open>SIZE\<close> is the length of the array, so the operations that read
  an existing identifier take it from there and the generators take it as an argument.
  This theory has the generators, the comparison and bitwise operators, the access to
  single bits and the XOR metric; arithmetic and text are in \<open>KadIdArith\<close> and \<open>KadIdText\<close>.

  A failed \<open>X_ASSERT(bit < BIT_SIZE)\<close> is the value \<open>None\<close>. The byte order of the constructor
  from a number is the little-endian one its comment names.
\<close>

datatype kad_id = TKadId (mData: "u8 list")

definition id_ok :: "nat \<Rightarrow> kad_id \<Rightarrow> bool" where
  "id_ok n a \<longleftrightarrow> length (mData a) = n"

definition id_val :: "kad_id \<Rightarrow> nat" where
  "id_val a = be_val (mData a)"

lemma id_val_less: "id_ok n a \<Longrightarrow> id_val a < 2 ^ (8 * n)"
  using be_val_less [of "mData a"] by (simp add: id_ok_def id_val_def pow256)

lemma id_val_inj: "id_ok n a \<Longrightarrow> id_ok n b \<Longrightarrow> id_val a = id_val b \<Longrightarrow> a = b"
  by (metis be_val_inj id_ok_def id_val_def kad_id.expand)

text \<open>Identifiers are ordered by their bytes, so that the library's orders apply to them.\<close>

instantiation kad_id :: linorder
begin

definition less_eq_kad_id :: "kad_id \<Rightarrow> kad_id \<Rightarrow> bool" where
  "less_eq_kad_id a b \<longleftrightarrow> mData a \<le> mData b"

definition less_kad_id :: "kad_id \<Rightarrow> kad_id \<Rightarrow> bool" where
  "less_kad_id a b \<longleftrightarrow> mData a < mData b"

instance
  by standard (auto simp: less_eq_kad_id_def less_kad_id_def kad_id.expand)

end

lemma id_less_val_iff: "id_ok n a \<Longrightarrow> id_ok n b \<Longrightarrow> a < b \<longleftrightarrow> id_val a < id_val b"
  by (simp add: less_kad_id_def id_ok_def id_val_def be_val_less_iff)

subsection \<open>Generators\<close>

definition Clear :: "nat \<Rightarrow> kad_id" where
  "Clear n = TKadId (replicate n 0)"

text \<open>\<open>numBytes[i]\<close>: the bytes of the number in memory, least significant first.\<close>

definition numByte :: "u64 \<Rightarrow> nat \<Rightarrow> u8" where
  "numByte num i = ucast (drop_bit (8 * i) num)"

definition FromNum :: "nat \<Rightarrow> u64 \<Rightarrow> kad_id" where
  "FromNum n num =
     TKadId (foldl (\<lambda>d i. d[n - 1 - i := numByte num i]) (mData (Clear n)) [0..<min n 8])"

definition IsZero :: "kad_id \<Rightarrow> bool" where
  "IsZero a \<longleftrightarrow> list_all (\<lambda>b. b = 0) (mData a)"

subsection \<open>Comparison and bitwise operators\<close>

text \<open>\<open>memcmp\<close> of the C library: the sign of the first difference, as unsigned bytes.\<close>

fun memcmp :: "u8 list \<Rightarrow> u8 list \<Rightarrow> int" where
  "memcmp (x # xs) (y # ys) = (if x = y then memcmp xs ys else if x < y then -1 else 1)"
| "memcmp _ _ = 0"

definition id_eq :: "kad_id \<Rightarrow> kad_id \<Rightarrow> bool" where
  "id_eq a b \<longleftrightarrow> memcmp (mData a) (mData b) = 0"

definition id_neq :: "kad_id \<Rightarrow> kad_id \<Rightarrow> bool" where
  "id_neq a b \<longleftrightarrow> memcmp (mData a) (mData b) \<noteq> 0"

definition id_ge :: "kad_id \<Rightarrow> kad_id \<Rightarrow> bool" where
  "id_ge a b \<longleftrightarrow> memcmp (mData a) (mData b) \<ge> 0"

definition id_le :: "kad_id \<Rightarrow> kad_id \<Rightarrow> bool" where
  "id_le a b \<longleftrightarrow> memcmp (mData a) (mData b) \<le> 0"

definition id_gt :: "kad_id \<Rightarrow> kad_id \<Rightarrow> bool" where
  "id_gt a b \<longleftrightarrow> memcmp (mData a) (mData b) > 0"

definition id_lt :: "kad_id \<Rightarrow> kad_id \<Rightarrow> bool" where
  "id_lt a b \<longleftrightarrow> memcmp (mData a) (mData b) < 0"

definition id_not :: "kad_id \<Rightarrow> kad_id" where
  "id_not a = TKadId (map (\<lambda>b. NOT b) (mData a))"

definition id_xor :: "kad_id \<Rightarrow> kad_id \<Rightarrow> kad_id" where
  "id_xor a b = TKadId (map2 (XOR) (mData a) (mData b))"

definition id_or :: "kad_id \<Rightarrow> kad_id \<Rightarrow> kad_id" where
  "id_or a b = TKadId (map2 (OR) (mData a) (mData b))"

definition id_and :: "kad_id \<Rightarrow> kad_id \<Rightarrow> kad_id" where
  "id_and a b = TKadId (map2 (AND) (mData a) (mData b))"

subsection \<open>Single bits\<close>

text \<open>Conversion of an \<open>int\<close> argument to an \<open>unsigned\<close> parameter.\<close>

definition to_unsigned :: "int \<Rightarrow> nat" where
  "to_unsigned x = nat (x mod 2 ^ 32)"

definition BIT_SIZE :: "kad_id \<Rightarrow> nat" where
  "BIT_SIZE a = 8 * length (mData a)"

definition GetBit :: "kad_id \<Rightarrow> nat \<Rightarrow> bool option" where
  "GetBit a k =
     (if k < BIT_SIZE a
      then (let i = k div 8; shift = 7 - k mod 8
            in Some (drop_bit shift (mData a ! i) AND 1 \<noteq> 0))
      else None)"

definition SetBit :: "kad_id \<Rightarrow> nat \<Rightarrow> bool \<Rightarrow> kad_id option" where
  "SetBit a k v =
     (if k < BIT_SIZE a
      then (let i = k div 8; shift = 7 - k mod 8;
                b = mData a ! i OR push_bit shift 1;
                b' = (if v then b else b XOR push_bit shift 1)
            in Some (TKadId ((mData a)[i := b'])))
      else None)"

fun SetBits_loop :: "kad_id \<Rightarrow> nat list \<Rightarrow> bool \<Rightarrow> kad_id option" where
  "SetBits_loop a [] v = Some a"
| "SetBits_loop a (i # is) v =
     (case SetBit a i v of None \<Rightarrow> None | Some a' \<Rightarrow> SetBits_loop a' is v)"

definition SetBits :: "kad_id \<Rightarrow> nat \<Rightarrow> nat \<Rightarrow> bool \<Rightarrow> kad_id option" where
  "SetBits a k qty v = SetBits_loop a [k..<to_unsigned (int k + int qty)] v"

definition SwapBit :: "kad_id \<Rightarrow> nat \<Rightarrow> kad_id option" where
  "SwapBit a k =
     (if k < BIT_SIZE a
      then (let i = k div 8; shift = 7 - k mod 8; b = mData a ! i
            in Some (TKadId ((mData a)
                 [i := (if drop_bit shift b AND 1 \<noteq> 0
                        then (b OR push_bit shift 1) XOR push_bit shift 1
                        else b OR push_bit shift 1)])))
      else None)"

definition PowerOfTwo :: "nat \<Rightarrow> int \<Rightarrow> kad_id option" where
  "PowerOfTwo n pw = SetBit (Clear n) (to_unsigned (8 * int n - 1 - pw)) True"

subsection \<open>The XOR metric\<close>

text \<open>The inner loop of \<open>DistanceTo\<close>: \<open>b\<close> from 7 down to 0 until \<open>t >= (1 << b)\<close>.\<close>

fun top_bit :: "u8 \<Rightarrow> nat \<Rightarrow> nat option" where
  "top_bit t 0 = None"
| "top_bit t (Suc b) = (if 2 ^ b \<le> unat t then Some b else top_bit t b)"

fun DistanceTo_loop :: "u8 list \<Rightarrow> u8 list \<Rightarrow> nat" where
  "DistanceTo_loop (x # xs) (y # ys) =
     (let t = x XOR y in
      if t \<noteq> 0
      then (let bit = length xs * 8
            in case top_bit t 8 of Some b \<Rightarrow> bit + b + 1 | None \<Rightarrow> bit)
      else DistanceTo_loop xs ys)"
| "DistanceTo_loop _ _ = 0"

definition DistanceTo :: "kad_id \<Rightarrow> kad_id \<Rightarrow> nat" where
  "DistanceTo a b = DistanceTo_loop (mData a) (mData b)"

definition Closer :: "kad_id \<Rightarrow> kad_id \<Rightarrow> kad_id \<Rightarrow> bool" where
  "Closer a to_id than_id \<longleftrightarrow> id_lt (id_xor a to_id) (id_xor a than_id)"

subsection \<open>Comparison is comparison of numbers\<close>

lemma memcmp_neg_iff: "length xs = length ys \<Longrightarrow> memcmp xs ys < 0 \<longleftrightarrow> xs < ys"
  by (induction xs ys rule: list_induct2) auto

lemma memcmp_pos_iff: "length xs = length ys \<Longrightarrow> memcmp xs ys > 0 \<longleftrightarrow> ys < xs"
  by (induction xs ys rule: list_induct2) auto

lemma memcmp_0_iff: "length xs = length ys \<Longrightarrow> memcmp xs ys = 0 \<longleftrightarrow> xs = ys"
  by (induction xs ys rule: list_induct2) auto

lemma id_eq_iff: "id_ok n a \<Longrightarrow> id_ok n b \<Longrightarrow> id_eq a b \<longleftrightarrow> a = b"
  by (metis id_eq_def id_ok_def kad_id.expand memcmp_0_iff)

lemma id_lt_iff: "id_ok n a \<Longrightarrow> id_ok n b \<Longrightarrow> id_lt a b \<longleftrightarrow> a < b"
  by (simp add: id_lt_def id_ok_def memcmp_neg_iff less_kad_id_def)

lemma id_gt_iff: "id_ok n a \<Longrightarrow> id_ok n b \<Longrightarrow> id_gt a b \<longleftrightarrow> b < a"
  by (simp add: id_gt_def id_ok_def memcmp_pos_iff less_kad_id_def)

lemma id_le_iff: "id_ok n a \<Longrightarrow> id_ok n b \<Longrightarrow> id_le a b \<longleftrightarrow> a \<le> b"
  using id_gt_iff [of n a b] by (auto simp: id_le_def id_gt_def not_less)

lemma id_ge_iff: "id_ok n a \<Longrightarrow> id_ok n b \<Longrightarrow> id_ge a b \<longleftrightarrow> b \<le> a"
  using id_lt_iff [of n a b] by (auto simp: id_ge_def id_lt_def not_less)

lemma id_neq_iff: "id_ok n a \<Longrightarrow> id_ok n b \<Longrightarrow> id_neq a b \<longleftrightarrow> a \<noteq> b"
  using id_eq_iff [of n a b] by (simp add: id_neq_def id_eq_def)

lemmas id_cmp_iffs = id_eq_iff id_neq_iff id_lt_iff id_gt_iff id_le_iff id_ge_iff

lemma IsZero_iff: "IsZero a \<longleftrightarrow> id_val a = 0"
  by (simp add: IsZero_def id_val_def be_val_eq_0_iff list_all_iff)

subsection \<open>Sizes\<close>

lemma id_ok_intros [simp, intro]:
  "id_ok n (Clear n)"
  "id_ok n a \<Longrightarrow> id_ok n (id_not a)"
  "id_ok n a \<Longrightarrow> id_ok n b \<Longrightarrow> id_ok n (id_xor a b)"
  "id_ok n a \<Longrightarrow> id_ok n b \<Longrightarrow> id_ok n (id_or a b)"
  "id_ok n a \<Longrightarrow> id_ok n b \<Longrightarrow> id_ok n (id_and a b)"
  by (simp_all add: id_ok_def Clear_def id_not_def id_xor_def id_or_def id_and_def)

lemma BIT_SIZE_ok: "id_ok n a \<Longrightarrow> BIT_SIZE a = 8 * n"
  by (simp add: BIT_SIZE_def id_ok_def)

lemma Clear_val [id_simps]: "id_val (Clear n) = 0"
  by (simp add: id_val_def Clear_def)

subsection \<open>Exclusive or\<close>

lemma id_xor_val [id_simps]:
  "id_ok n a \<Longrightarrow> id_ok n b \<Longrightarrow> id_val (id_xor a b) = id_val a XOR id_val b"
  by (simp add: id_val_def id_xor_def id_ok_def be_val_xor)

lemma id_or_val [id_simps]:
  "id_ok n a \<Longrightarrow> id_ok n b \<Longrightarrow> id_val (id_or a b) = id_val a OR id_val b"
  by (simp add: id_val_def id_or_def id_ok_def be_val_or)

lemma id_xor_commute: "id_xor a b = id_xor b a"
proof -
  have "map2 (XOR) xs ys = map2 (XOR) ys xs" for xs ys :: "u8 list"
    by (induction xs ys rule: list_induct2') (simp_all add: xor.commute)
  then show ?thesis by (simp add: id_xor_def)
qed

lemma id_xor_cancel:
  assumes "id_ok n a" "id_ok n b"
  shows "id_xor a (id_xor a b) = b"
  by (rule id_val_inj [of n]) (use assms in \<open>simp_all add: id_simps flip: xor.assoc\<close>)

lemma id_xor_eq_0_iff:
  assumes "id_ok n a" "id_ok n b"
  shows "id_val (id_xor a b) = 0 \<longleftrightarrow> a = b"
proof -
  have "id_val a XOR id_val b = 0 \<longleftrightarrow> id_val a = id_val b"
    by (metis xor.assoc xor.left_neutral xor_self_eq)
  with assms show ?thesis
    by (auto simp: id_simps dest: id_val_inj)
qed

lemma Closer_iff:
  assumes "id_ok n a" "id_ok n x" "id_ok n y"
  shows "Closer a x y \<longleftrightarrow> id_val a XOR id_val x < id_val a XOR id_val y"
  using assms by (simp add: Closer_def id_lt_iff [of n] id_less_val_iff [of n] id_simps)

subsection \<open>A number as an identifier\<close>

lemma FromNum_nth:
  assumes "m \<le> n" "j < n"
  shows "foldl (\<lambda>d i. d[n - 1 - i := numByte num i]) (replicate n 0) [0..<m] ! j =
    (if n - 1 - j < m then numByte num (n - 1 - j) else 0)"
proof -
  have len: "length (foldl (\<lambda>d i. d[n - 1 - i := numByte num i]) (replicate n 0) [0..<k]) = n" for k
    by (induction k) simp_all
  from assms(1) show ?thesis
  proof (induction m)
    case 0
    with assms(2) show ?case by simp
  next
    case (Suc m)
    with assms(2) len show ?case by (auto simp: nth_list_update)
  qed
qed

lemma FromNum_ok [simp, intro]: "id_ok n (FromNum n num)"
proof -
  have "length (foldl (\<lambda>d i. d[n - 1 - i := numByte num i]) (replicate n 0) [0..<k]) = n" for k
    by (induction k) simp_all
  then show ?thesis by (simp add: id_ok_def FromNum_def Clear_def)
qed

lemma bit_numByte: "m < 8 \<Longrightarrow> bit (numByte num i) m \<longleftrightarrow> bit num (8 * i + m)"
  by (simp add: numByte_def bit_ucast_iff bit_drop_bit_eq)

lemma FromNum_val [id_simps]: "id_val (FromNum n num) = unat num mod 256 ^ n"
proof (rule bit_eqI)
  fix k
  let ?d = "mData (FromNum n num)"
  have len: "length ?d = n"
    using FromNum_ok [of n num] by (simp add: id_ok_def)
  show "bit (id_val (FromNum n num)) k = bit (unat num mod 256 ^ n) k"
  proof (cases "k < 8 * n")
    case True
    then have kn: "k div 8 < n" by auto
    have nth: "?d ! (n - 1 - k div 8) = (if k div 8 < 8 then numByte num (k div 8) else 0)"
      using kn FromNum_nth [of "min n 8" n "n - 1 - k div 8" num]
      by (simp add: FromNum_def Clear_def)
    have "bit (id_val (FromNum n num)) k \<longleftrightarrow> bit (?d ! (n - 1 - k div 8)) (k mod 8)"
      using True len by (simp add: id_val_def bit_be_val)
    also have "\<dots> \<longleftrightarrow> bit num k"
      using nth bit_numByte [of "k mod 8" num "k div 8"] bit_imp_le_length [of num k] by auto
    also have "\<dots> \<longleftrightarrow> bit (take_bit (8 * n) (unat num)) k"
      using True by (simp add: bit_take_bit_iff bit_unsigned_iff)
    finally show ?thesis by (simp add: take_bit_eq_mod pow256)
  next
    case False
    then have "\<not> bit (id_val (FromNum n num)) k" "\<not> bit (take_bit (8 * n) (unat num)) k"
      using len by (simp_all add: id_val_def bit_be_val bit_take_bit_iff)
    then show ?thesis by (simp add: take_bit_eq_mod pow256)
  qed
qed

subsection \<open>Single bits of the number\<close>

lemma and_1_bit: "drop_bit s b AND 1 \<noteq> 0 \<longleftrightarrow> bit (b :: u8) s"
  by (simp add: and_one_eq mod_2_eq_odd bit_iff_odd_drop_bit)

lemma GetBit_eq:
  "GetBit a k = (if k < BIT_SIZE a then Some (bit (mData a ! (k div 8)) (7 - k mod 8)) else None)"
  by (simp add: GetBit_def and_1_bit)

lemma GetBit_val:
  assumes "id_ok n a" "k < 8 * n"
  shows "GetBit a k = Some (bit (id_val a) (8 * n - 1 - k))"
proof -
  let ?q = "k div 8" and ?r = "k mod 8"
  have k: "k = 8 * ?q + ?r" "?r < 8" and q: "?q < n"
    using assms(2) by auto
  then have e: "8 * n - 1 - k = 8 * (n - 1 - ?q) + (7 - ?r)"
    by linarith
  have "(8 * (n - 1 - ?q) + (7 - ?r)) div 8 = n - 1 - ?q"
    "(8 * (n - 1 - ?q) + (7 - ?r)) mod 8 = 7 - ?r"
    by (simp_all only: div_mult_self4 mod_mult_self4) simp_all
  then have "(8 * n - 1 - k) div 8 = n - 1 - ?q" and 2: "(8 * n - 1 - k) mod 8 = 7 - ?r"
    by (simp_all only: e)
  with q have 1: "n - 1 - (8 * n - 1 - k) div 8 = ?q"
    by simp
  have "bit (id_val a) (8 * n - 1 - k) \<longleftrightarrow> bit (mData a ! (k div 8)) (7 - k mod 8)"
    using assms 1 2 by (simp add: id_val_def bit_be_val id_ok_def)
  with assms show ?thesis by (simp add: GetBit_eq BIT_SIZE_ok)
qed

lemma id_eqI_bits:
  assumes "id_ok n a" "id_ok n b" "\<And>k. k < 8 * n \<Longrightarrow> GetBit a k = GetBit b k"
  shows "a = b"
proof -
  have "bit (id_val a) k = bit (id_val b) k" for k
  proof (cases "k < 8 * n")
    case True
    then have "8 * n - 1 - (8 * n - 1 - k) = k" "8 * n - 1 - k < 8 * n" by simp_all
    with assms show ?thesis
      by (metis GetBit_val option.inject)
  next
    case False
    with assms show ?thesis by (simp add: id_val_def bit_be_val id_ok_def)
  qed
  then have "id_val a = id_val b" by (simp add: bit_eq_iff)
  with assms show ?thesis by (blast intro: id_val_inj)
qed

lemma SetBit_ok: "id_ok n a \<Longrightarrow> SetBit a k v = Some a' \<Longrightarrow> id_ok n a'"
  by (auto simp: SetBit_def id_ok_def Let_def split: if_splits)

lemma SetBit_None_iff: "SetBit a k v = None \<longleftrightarrow> BIT_SIZE a \<le> k"
  by (simp add: SetBit_def Let_def)

lemma div_mod_8_eq:
  assumes "j div 8 = k div 8" "7 - j mod 8 = 7 - k mod (8::nat)"
  shows "j = k"
proof -
  have "j mod 8 < 8" "k mod 8 < 8" by simp_all
  with assms(2) have "j mod 8 = k mod 8" by linarith
  with assms(1) show ?thesis by (metis div_mult_mod_eq)
qed

lemma bit_pow2: "bit ((2 :: u8) ^ s) m \<longleftrightarrow> m = s \<and> m < 8"
  by (auto simp: bit_exp_iff)

lemma SetBit_GetBit:
  assumes "SetBit a k v = Some a'" "j < BIT_SIZE a"
  shows "GetBit a' j = Some (if j = k then v else the (GetBit a j))"
proof -
  have k: "k div 8 < length (mData a)" "j div 8 < length (mData a)"
    using assms by (auto simp: SetBit_def BIT_SIZE_def split: if_splits)
  have m: "7 - j mod 8 < 8" by simp
  from assms k show ?thesis
    using div_mod_8_eq [of j k] m
    by (auto simp: SetBit_def GetBit_eq BIT_SIZE_def Let_def nth_list_update bit_or_iff
        bit_xor_iff bit_pow2 split: if_splits)
qed

lemma SwapBit_GetBit:
  assumes "SwapBit a k = Some a'" "j < BIT_SIZE a"
  shows "GetBit a' j = Some (if j = k then \<not> the (GetBit a j) else the (GetBit a j))"
proof -
  have k: "k div 8 < length (mData a)" "j div 8 < length (mData a)"
    using assms by (auto simp: SwapBit_def BIT_SIZE_def split: if_splits)
  have m: "7 - j mod 8 < 8" by simp
  from assms k show ?thesis
    using div_mod_8_eq [of j k] m
    by (auto simp: SwapBit_def GetBit_eq BIT_SIZE_def Let_def nth_list_update bit_or_iff
        bit_xor_iff bit_pow2 and_1_bit split: if_splits)
qed

lemma SetBits_loop_spec:
  assumes "id_ok n a" "\<forall>i \<in> set is. i < 8 * n"
  shows "\<exists>a'. SetBits_loop a is v = Some a' \<and> id_ok n a' \<and>
    (\<forall>j < 8 * n. GetBit a' j = Some (if j \<in> set is then v else the (GetBit a j)))"
  using assms
proof (induction "is" arbitrary: a)
  case Nil
  then show ?case by (auto simp: GetBit_eq BIT_SIZE_ok)
next
  case (Cons i js)
  from Cons.prems obtain a1 where a1: "SetBit a i v = Some a1"
    by (cases "SetBit a i v") (auto simp: SetBit_None_iff BIT_SIZE_ok)
  have ok1: "id_ok n a1"
    using a1 Cons.prems(1) by (rule SetBit_ok [rotated])
  have g1: "GetBit a1 j = Some (if j = i then v else the (GetBit a j))" if "j < 8 * n" for j
    using SetBit_GetBit [OF a1, of j] that Cons.prems(1) by (simp add: BIT_SIZE_ok)
  from Cons.IH [OF ok1] Cons.prems(2) a1 g1 show ?case by auto
qed

end
