(* ===== verification/KadIdMetric.thy ===== *)
theory KadIdMetric
  imports KadNodeId
begin

section \<open>Powers of two, distances and the XOR metric\<close>

text \<open>
  What \<open>PowerOfTwo\<close>, \<open>SetBits\<close>, \<open>DistanceTo\<close> and \<open>Closer\<close> of \<open>src/KadNodeId.h\<close> compute, in
  terms of the number an identifier stands for, and the interface \<open>xor_space\<close> that the
  routing table and the node lookup rely on.
\<close>

subsection \<open>Powers of two and runs of bits\<close>

lemma id_val_bit:
  assumes "id_ok n a"
  shows "bit (id_val a) i \<longleftrightarrow> i < 8 * n \<and> GetBit a (8 * n - 1 - i) = Some True"
proof (cases "i < 8 * n")
  case True
  then have "8 * n - 1 - (8 * n - 1 - i) = i" "8 * n - 1 - i < 8 * n" by simp_all
  with True GetBit_val [OF assms, of "8 * n - 1 - i"] show ?thesis by simp
next
  case False
  with assms show ?thesis by (simp add: id_val_def bit_be_val id_ok_def)
qed

lemma PowerOfTwo_spec:
  assumes "0 \<le> pw" "pw < 8 * int n" "8 * n \<le> 2 ^ 32"
  shows "\<exists>a. PowerOfTwo n pw = Some a \<and> id_ok n a \<and> id_val a = 2 ^ nat pw"
proof -
  let ?k = "8 * n - 1 - nat pw"
  have k: "to_unsigned (8 * int n - 1 - pw) = ?k"
    using assms by (simp add: to_unsigned_def nat_diff_distrib' nat_mod_distrib nat_mult_distrib)
  have kn: "?k < 8 * n" using assms by simp
  then obtain a where a: "SetBit (Clear n) ?k True = Some a"
    by (cases "SetBit (Clear n) ?k True") (auto simp: SetBit_None_iff BIT_SIZE_ok [of n])
  have ok: "id_ok n a" using SetBit_ok [OF _ a] by blast
  have g: "GetBit a j = Some (j = ?k)" if "j < 8 * n" for j
  proof -
    have "GetBit (Clear n) j = Some False"
      using that GetBit_val [of n "Clear n" j] by (simp add: Clear_val)
    with SetBit_GetBit [OF a, of j] that show ?thesis
      by (simp add: BIT_SIZE_ok [of n])
  qed
  have "id_val a = 2 ^ nat pw"
  proof (rule bit_eqI)
    fix i
    have "8 * n - 1 - i = ?k \<longleftrightarrow> i = nat pw" if "i < 8 * n"
      using that assms by auto
    then show "bit (id_val a) i = bit (2 ^ nat pw :: nat) i"
      using ok g [of "8 * n - 1 - i"] assms by (auto simp: id_val_bit bit_exp_iff)
  qed
  with a k ok show ?thesis by (simp add: PowerOfTwo_def)
qed

lemma PowerOfTwo_val:
  assumes "PowerOfTwo n pw = Some a" "0 \<le> pw" "pw < 8 * int n" "8 * n \<le> 2 ^ 32"
  shows "id_ok n a" "id_val a = 2 ^ nat pw"
  using PowerOfTwo_spec [OF assms(2-4)] assms(1) by auto

text \<open>\<open>SetBits(0, d, false)\<close> keeps the low bits of the number and clears the \<open>d\<close> high ones.\<close>

lemma SetBits_clear_high:
  assumes "id_ok n a" "d \<le> 8 * n" "8 * n < 2 ^ 32"
  shows "\<exists>a'. SetBits a 0 d False = Some a' \<and> id_ok n a' \<and>
    id_val a' = id_val a mod 2 ^ (8 * n - d)"
proof -
  have q: "to_unsigned (int 0 + int d) = d"
    using assms by (simp add: to_unsigned_def nat_mod_distrib)
  obtain a' where a': "SetBits_loop a [0..<d] False = Some a'" "id_ok n a'"
    "\<forall>j < 8 * n. GetBit a' j = Some (if j \<in> set [0..<d] then False else the (GetBit a j))"
    using SetBits_loop_spec [OF assms(1), of "[0..<d]" False] assms(2) by auto
  have "id_val a' = id_val a mod 2 ^ (8 * n - d)"
  proof (rule bit_eqI)
    fix i
    have "bit (id_val a') i \<longleftrightarrow> i < 8 * n - d \<and> bit (id_val a) i"
    proof (cases "i < 8 * n")
      case True
      with a'(3) have "GetBit a' (8 * n - 1 - i) =
        Some (if 8 * n - 1 - i < d then False else the (GetBit a (8 * n - 1 - i)))"
        by simp
      moreover have "8 * n - 1 - i < d \<longleftrightarrow> \<not> i < 8 * n - d"
        using True assms(2) by linarith
      ultimately show ?thesis
        using True assms(1) a'(2) by (auto simp: id_val_bit [of n] GetBit_eq BIT_SIZE_ok [of n])
    next
      case False
      with a'(2) show ?thesis by (simp add: id_val_bit [of n])
    qed
    then show "bit (id_val a') i = bit (id_val a mod 2 ^ (8 * n - d)) i"
      by (simp add: bit_take_bit_iff flip: take_bit_eq_mod)
  qed
  with a' q show ?thesis by (auto simp: SetBits_def)
qed

subsection \<open>The bucket index\<close>

lemma top_bit_Some:
  "top_bit t m = Some b \<Longrightarrow> b < m \<and> 2 ^ b \<le> unat t \<and> (\<forall>c. b < c \<and> c < m \<longrightarrow> unat t < 2 ^ c)"
  by (induction m) (auto split: if_splits simp: less_Suc_eq)

lemma top_bit_8:
  assumes "t \<noteq> (0 :: u8)"
  shows "\<exists>b. top_bit t 8 = Some b \<and> b < 8 \<and> 2 ^ b \<le> unat t \<and> unat t < 2 ^ Suc b"
proof -
  have "top_bit t m \<noteq> None" if "0 < m" for m
    using that assms
    by (induction m rule: nat_induct_non_zero) (auto simp: unat_gt_0 word_neq_0_conv Suc_le_eq)
  then obtain b where b: "top_bit t 8 = Some b"
    by fastforce
  have "unat t < 2 ^ Suc b"
  proof (cases "b = 7")
    case True
    then show ?thesis using unat_u8_less [of t] by simp
  next
    case False
    with top_bit_Some [OF b] show ?thesis by auto
  qed
  with top_bit_Some [OF b] b show ?thesis by blast
qed

lemma DistanceTo_loop_spec:
  assumes "length xs = length ys"
  defines "x \<equiv> be_val (map2 (XOR) xs ys)"
  shows "x < 2 ^ DistanceTo_loop xs ys \<and> (x \<noteq> 0 \<longrightarrow> 2 ^ (DistanceTo_loop xs ys - 1) \<le> x) \<and>
    (DistanceTo_loop xs ys = 0 \<longleftrightarrow> x = 0) \<and> DistanceTo_loop xs ys \<le> 8 * length xs"
  using assms(1) unfolding x_def
proof (induction xs ys rule: list_induct2)
  case Nil
  then show ?case by simp
next
  case (Cons u us v vs)
  let ?t = "u XOR v" and ?r = "be_val (map2 (XOR) us vs)" and ?l = "length us"
  show ?case
  proof (cases "?t = 0")
    case True
    with Cons show ?thesis by simp
  next
    case False
    then obtain b where b: "top_bit ?t 8 = Some b" "b < 8" "2 ^ b \<le> unat ?t" "unat ?t < 2 ^ Suc b"
      using top_bit_8 by blast
    have r: "?r < 2 ^ (8 * ?l)"
      using be_val_less [of "map2 (XOR) us vs"] Cons.hyps by (simp add: pow256)
    have val: "be_val (map2 (XOR) (u # us) (v # vs)) = unat ?t * 2 ^ (8 * ?l) + ?r"
      using Cons.hyps by (simp add: pow256)
    have D: "DistanceTo_loop (u # us) (v # vs) = 8 * ?l + b + 1"
      using False b(1) by (simp add: Let_def)
    have "2 ^ (8 * ?l + b) \<le> unat ?t * 2 ^ (8 * ?l)"
      using b(3) by (simp add: power_add mult.commute)
    moreover have "(unat ?t + 1) * 2 ^ (8 * ?l) \<le> 2 ^ Suc b * 2 ^ (8 * ?l)"
      using b(4) by (intro mult_le_mono1) simp
    moreover have "(2 :: nat) ^ Suc b * 2 ^ (8 * ?l) = 2 ^ (8 * ?l + b + 1)"
      by (simp add: power_add)
    moreover have "unat ?t \<noteq> 0"
      using False by (simp add: unat_eq_0)
    ultimately show ?thesis
      using r b(2) unfolding val D by (auto simp: algebra_simps)
  qed
qed

lemma DistanceTo_bounds:
  assumes "id_ok n a" "id_ok n b"
  shows "id_val a XOR id_val b < 2 ^ DistanceTo a b"
    and "a \<noteq> b \<Longrightarrow> 2 ^ (DistanceTo a b - 1) \<le> id_val a XOR id_val b"
    and "DistanceTo a b = 0 \<longleftrightarrow> a = b"
    and "DistanceTo a b \<le> 8 * n"
  using assms DistanceTo_loop_spec [of "mData a" "mData b"] id_xor_eq_0_iff [OF assms]
  by (auto simp: DistanceTo_def id_ok_def id_val_def id_xor_def be_val_xor)

subsection \<open>The metric\<close>

lemma xor_le_plus: "(x :: nat) XOR y \<le> x + y"
proof (induction x arbitrary: y rule: less_induct)
  case (less x)
  show ?case
  proof (cases "x = 0")
    case True
    then show ?thesis by simp
  next
    case False
    then have ih: "x div 2 XOR y div 2 \<le> x div 2 + y div 2"
      by (intro less.IH) simp
    have "x XOR y = of_bool (odd x \<noteq> odd y) + 2 * (x div 2 XOR y div 2)"
      by (rule xor_rec)
    also have "\<dots> \<le> of_bool (odd x \<noteq> odd y) + 2 * (x div 2) + 2 * (y div 2)"
      using ih by simp
    also have "\<dots> \<le> x + y"
      by (cases "odd x"; cases "odd y") (auto elim!: oddE evenE)
    finally show ?thesis .
  qed
qed

text \<open>
  What a client of the identifiers may use: a distance on a set of points that is zero
  only on the diagonal, symmetric, satisfies the triangle inequality, and determines the
  second point from the first and the distance.
\<close>

locale xor_space =
  fixes pt :: "'p \<Rightarrow> bool"
    and dist :: "'p \<Rightarrow> 'p \<Rightarrow> nat"
    and nearer :: "'p \<Rightarrow> 'p \<Rightarrow> 'p \<Rightarrow> bool"
  assumes dist_0: "pt a \<Longrightarrow> pt b \<Longrightarrow> dist a b = 0 \<longleftrightarrow> a = b"
    and dist_sym: "dist a b = dist b a"
    and dist_triangle: "dist a c \<le> dist a b + dist b c"
    and dist_unique: "pt a \<Longrightarrow> pt b \<Longrightarrow> pt c \<Longrightarrow> dist a b = dist a c \<Longrightarrow> b = c"
    and nearer_dist: "pt k \<Longrightarrow> pt a \<Longrightarrow> pt b \<Longrightarrow> nearer k a b \<longleftrightarrow> dist k a < dist k b"
begin

lemma nearer_irrefl: "pt k \<Longrightarrow> pt a \<Longrightarrow> \<not> nearer k a a"
  by (simp add: nearer_dist)

lemma nearer_trans:
  "pt k \<Longrightarrow> pt a \<Longrightarrow> pt b \<Longrightarrow> pt c \<Longrightarrow> nearer k a b \<Longrightarrow> nearer k b c \<Longrightarrow> nearer k a c"
  by (simp add: nearer_dist)

lemma nearer_total:
  "pt k \<Longrightarrow> pt a \<Longrightarrow> pt b \<Longrightarrow> a \<noteq> b \<Longrightarrow> nearer k a b \<or> nearer k b a"
  using dist_unique [of k a b] nearer_dist [of k a b] nearer_dist [of k b a] nat_neq_iff by blast

lemma nearest_self: "pt k \<Longrightarrow> pt a \<Longrightarrow> a \<noteq> k \<Longrightarrow> nearer k k a"
  using dist_0 [of k a] dist_0 [of k k] by (auto simp: nearer_dist)

lemma sorted_distinct_points:
  assumes "pt k" "\<forall>a \<in> set l. pt a" "sorted_wrt (nearer k) l"
  shows "distinct l"
  using assms by (induction l) (auto simp: nearer_dist)

end

interpretation idsp: xor_space "id_ok n" "\<lambda>a b. id_val a XOR id_val b" Closer
proof unfold_locales
  fix a b c k
  show "id_ok n a \<Longrightarrow> id_ok n b \<Longrightarrow> (id_val a XOR id_val b = 0) = (a = b)"
    using id_xor_eq_0_iff [of n a b] by (simp add: id_xor_val)
  show "id_val a XOR id_val b = id_val b XOR id_val a"
    by (rule xor.commute)
  have "(id_val a XOR id_val b) XOR (id_val b XOR id_val c) = id_val a XOR id_val c"
    by (simp add: xor.assoc) (simp add: xor.assoc [symmetric])
  then show "id_val a XOR id_val c \<le> (id_val a XOR id_val b) + (id_val b XOR id_val c)"
    using xor_le_plus [of "id_val a XOR id_val b" "id_val b XOR id_val c"] by simp
  show "b = c" if "id_ok n a" "id_ok n b" "id_ok n c"
    "id_val a XOR id_val b = id_val a XOR id_val c"
  proof (rule id_val_inj [OF that(2,3)])
    have "id_val a XOR (id_val a XOR id_val b) = id_val a XOR (id_val a XOR id_val c)"
      using that(4) by simp
    then show "id_val b = id_val c"
      by (simp add: xor.assoc [symmetric])
  qed
  show "id_ok n k \<Longrightarrow> id_ok n a \<Longrightarrow> id_ok n b \<Longrightarrow>
    Closer k a b = (id_val k XOR id_val a < id_val k XOR id_val b)"
    by (rule Closer_iff)
qed

end
