(* ===== verification/KadIdArith.thy ===== *)
theory KadIdArith
  imports KadNodeId
begin

section \<open>Arithmetic on identifiers\<close>

text \<open>
  \<open>Add\<close>, \<open>Sub\<close>, \<open>Shl\<close> and \<open>Mul\<close> of \<open>src/KadNodeId.h\<close>, with their loops from the last
  byte to the first and their 16-bit accumulators. \<open>Add\<close> and \<open>Sub\<close> are addition and
  subtraction modulo \<open>2 ^ BIT_SIZE\<close>. \<open>Shl\<close> takes the whole-byte part of the shift from
  \<open>bitsof(iShifted)\<close>, which is 16 and not 8: it shifts by the amount asked for only up to
  8 bits. \<open>Mul\<close> addresses its scratch matrix at negative columns. \<open>Div\<close> and \<open>Shr\<close> are
  \<open>X_FATAL("Not implemented")\<close> in the source.
\<close>

subsection \<open>Addition and subtraction\<close>

text \<open>The loop body for \<open>iIndex = i\<close>; the loop runs from \<open>SIZE - 1\<close> to \<open>0\<close>.\<close>

fun Add_loop :: "nat \<Rightarrow> int \<Rightarrow> u8 list \<Rightarrow> u8 list \<Rightarrow> u8 list" where
  "Add_loop 0 iSum d u = d"
| "Add_loop (Suc i) iSum d u =
     (let iSum1 = cast_i16 (iSum + uint (d ! i) + uint (u ! i));
          d1 = d[i := cast_u8 iSum1];
          iSum2 = cast_i16 (iSum1 div 2 ^ 8)
      in Add_loop i iSum2 d1 u)"

definition Add :: "kad_id \<Rightarrow> kad_id \<Rightarrow> kad_id" where
  "Add a uValue =
     (if IsZero uValue then a
      else TKadId (Add_loop (length (mData a)) 0 (mData a) (mData uValue)))"

fun Sub_loop :: "nat \<Rightarrow> int \<Rightarrow> u8 list \<Rightarrow> u8 list \<Rightarrow> u8 list" where
  "Sub_loop 0 iSum d u = d"
| "Sub_loop (Suc i) iSum d u =
     (let iSum1 = cast_i16 (iSum + uint (d ! i) - uint (u ! i));
          d1 = d[i := cast_u8 iSum1];
          iSum2 = cast_i16 (iSum1 div 2 ^ 8)
      in Sub_loop i iSum2 d1 u)"

definition Sub :: "kad_id \<Rightarrow> kad_id \<Rightarrow> kad_id" where
  "Sub a uValue =
     (if IsZero uValue then a
      else TKadId (Sub_loop (length (mData a)) 0 (mData a) (mData uValue)))"

text \<open>
  Both loops are one scheme: a digit and a carry from each pair of bytes. The scheme is
  stated once, over the integer \<open>s x y\<close> a pair contributes.
\<close>

fun carry_loop :: "(u8 \<Rightarrow> u8 \<Rightarrow> int) \<Rightarrow> nat \<Rightarrow> int \<Rightarrow> u8 list \<Rightarrow> u8 list \<Rightarrow> u8 list" where
  "carry_loop s 0 c d u = d"
| "carry_loop s (Suc i) c d u =
     (let c1 = cast_i16 (c + s (d ! i) (u ! i))
      in carry_loop s i (cast_i16 (c1 div 2 ^ 8)) (d[i := cast_u8 c1]) u)"

lemma Add_loop_carry: "Add_loop i c d u = carry_loop (\<lambda>x y. uint x + uint y) i c d u"
  by (induction i arbitrary: c d) (simp_all add: Let_def add.assoc)

lemma Sub_loop_carry: "Sub_loop i c d u = carry_loop (\<lambda>x y. uint x - uint y) i c d u"
  by (induction i arbitrary: c d) (simp_all add: Let_def add_diff_eq)

text \<open>The number the first \<open>i\<close> pairs contribute.\<close>

fun pair_val :: "(u8 \<Rightarrow> u8 \<Rightarrow> int) \<Rightarrow> nat \<Rightarrow> u8 list \<Rightarrow> u8 list \<Rightarrow> int" where
  "pair_val s 0 d u = 0"
| "pair_val s (Suc i) d u = 256 * pair_val s i d u + s (d ! i) (u ! i)"

lemma pair_val_cong:
  "(\<And>j. j < i \<Longrightarrow> d ! j = d' ! j) \<Longrightarrow> pair_val s i d u = pair_val s i d' u"
  by (induction i) simp_all

lemma carry_loop_spec:
  assumes "i \<le> length d" "- 2 \<le> c" "c \<le> 2"
    and s: "\<And>x y. - 255 \<le> s x y \<and> s x y \<le> 510"
  shows "\<exists>r. carry_loop s i c d u = r @ drop i d \<and> length r = i \<and>
    int (be_val r) = (pair_val s i d u + c) mod 256 ^ i"
  using assms(1-3)
proof (induction i arbitrary: c d)
  case 0
  then show ?case by simp
next
  case (Suc i)
  let ?e = "c + s (d ! i) (u ! i)"
  let ?d = "d[i := cast_u8 ?e]"
  have e: "cast_i16 ?e = ?e"
    using Suc.prems s [of "d ! i" "u ! i"] by (intro cast_i16_id) auto
  have q: "- 2 \<le> ?e div 256" "?e div 256 \<le> 2"
    using Suc.prems s [of "d ! i" "u ! i"] by auto
  then have q': "cast_i16 (?e div 256) = ?e div 256"
    by (intro cast_i16_id) auto
  obtain r where r: "carry_loop s i (?e div 256) ?d u = r @ drop i ?d" "length r = i"
    "int (be_val r) = (pair_val s i ?d u + ?e div 256) mod 256 ^ i"
    using Suc.IH [of ?d "?e div 256"] Suc.prems q by auto
  have pv: "pair_val s i ?d u = pair_val s i d u"
    by (rule pair_val_cong) simp
  let ?P = "pair_val s i d u"
  have "carry_loop s (Suc i) c d u = (r @ [cast_u8 ?e]) @ drop (Suc i) d"
    using r(1) Suc.prems(1) by (simp add: e q' Let_def drop_update_same)
  moreover have "int (be_val (r @ [cast_u8 ?e])) = (pair_val s (Suc i) d u + c) mod 256 ^ Suc i"
  proof -
    have "int (be_val (r @ [cast_u8 ?e])) = 256 * int (be_val r) + ?e mod 256"
      by (simp add: be_val_append uint_cast_u8)
    also have "\<dots> = 256 * ((?P + ?e div 256) mod 256 ^ i) + ?e mod 256"
      using r(3) pv by simp
    also have "\<dots> = (256 * ?P + ?e) mod 256 ^ Suc i"
    proof -
      have "(256 * ?P + ?e) div 256 = ?P + ?e div 256" "(256 * ?P + ?e) mod 256 = ?e mod 256"
        by simp_all
      then show ?thesis
        using zmod_zmult2_eq [of "256 ^ i" "256 * ?P + ?e" 256] by simp
    qed
    finally show ?thesis by (simp add: ac_simps)
  qed
  ultimately show ?case
    using r(2) by (intro exI [of _ "r @ [cast_u8 ?e]"]) simp
qed

lemma be_val_take_Suc:
  "i < length d \<Longrightarrow> be_val (take (Suc i) d) = 256 * be_val (take i d) + unat (d ! i)"
  by (simp add: take_Suc_conv_app_nth be_val_append)

lemma pair_val_add:
  "i \<le> length d \<Longrightarrow> i \<le> length u \<Longrightarrow>
    pair_val (\<lambda>x y. uint x + uint y) i d u = int (be_val (take i d)) + int (be_val (take i u))"
  by (induction i) (simp_all add: be_val_take_Suc)

lemma pair_val_sub:
  "i \<le> length d \<Longrightarrow> i \<le> length u \<Longrightarrow>
    pair_val (\<lambda>x y. uint x - uint y) i d u = int (be_val (take i d)) - int (be_val (take i u))"
  by (induction i) (simp_all add: be_val_take_Suc)

lemma u8_sum_bounds: "- 255 \<le> uint (x :: u8) + uint (y :: u8) \<and> uint x + uint y \<le> 510"
  using uint_u8_bounds [of x] uint_u8_bounds [of y] by linarith

lemma u8_diff_bounds: "- 255 \<le> uint (x :: u8) - uint (y :: u8) \<and> uint x - uint y \<le> 510"
  using uint_u8_bounds [of x] uint_u8_bounds [of y] by linarith

lemma Add_spec:
  assumes "id_ok n a" "id_ok n b"
  shows "id_ok n (Add a b)" "id_val (Add a b) = (id_val a + id_val b) mod 256 ^ n"
proof -
  have len: "length (mData a) = n" "length (mData b) = n"
    using assms by (simp_all add: id_ok_def)
  obtain r where r: "Add_loop n 0 (mData a) (mData b) = r" "length r = n"
    "int (be_val r) = (int (be_val (mData a)) + int (be_val (mData b))) mod 256 ^ n"
    using carry_loop_spec [of n "mData a" 0 "\<lambda>x y. uint x + uint y" "mData b"] len u8_sum_bounds
      pair_val_add [of n "mData a" "mData b"]
    by (auto simp: Add_loop_carry)
  have "be_val r = (be_val (mData a) + be_val (mData b)) mod 256 ^ n"
    using r(3) by (simp flip: of_nat_add of_nat_power add: zmod_int [symmetric])
      (metis (mono_tags, lifting) of_nat_add of_nat_eq_iff of_nat_mod of_nat_numeral of_nat_power)
  with r assms len show "id_ok n (Add a b)" "id_val (Add a b) = (id_val a + id_val b) mod 256 ^ n"
    using be_val_less [of "mData a"]
    by (auto simp: Add_def id_ok_def id_val_def IsZero_iff)
qed

lemma Sub_spec:
  assumes "id_ok n a" "id_ok n b"
  shows "id_ok n (Sub a b)"
    "int (id_val (Sub a b)) = (int (id_val a) - int (id_val b)) mod 256 ^ n"
proof -
  have len: "length (mData a) = n" "length (mData b) = n"
    using assms by (simp_all add: id_ok_def)
  obtain r where r: "Sub_loop n 0 (mData a) (mData b) = r" "length r = n"
    "int (be_val r) = (int (be_val (mData a)) - int (be_val (mData b))) mod 256 ^ n"
    using carry_loop_spec [of n "mData a" 0 "\<lambda>x y. uint x - uint y" "mData b"] len u8_diff_bounds
      pair_val_sub [of n "mData a" "mData b"]
    by (auto simp: Sub_loop_carry)
  have "int (be_val (mData a)) < 256 ^ n"
    using be_val_less [of "mData a"] len by (simp flip: of_nat_less_iff)
  with r assms len show "id_ok n (Sub a b)"
    "int (id_val (Sub a b)) = (int (id_val a) - int (id_val b)) mod 256 ^ n"
    by (auto simp: Sub_def id_ok_def id_val_def IsZero_iff)
qed

subsection \<open>Left shift\<close>

text \<open>
  The loop body for \<open>iIndex = i\<close>; the loop runs from \<open>SIZE - 1\<close> down to \<open>iIndexShift\<close>.
  \<open>iShifted\<close> is a \<open>uint16_t\<close>: what is stored in it is reduced modulo \<open>2 ^ 16\<close>.
\<close>

fun Shl_loop :: "nat \<Rightarrow> nat \<Rightarrow> u8 list \<Rightarrow> nat \<Rightarrow> nat \<Rightarrow> u8 list \<Rightarrow> u8 list" where
  "Shl_loop iIndexShift uBitsMod d 0 iShifted res = res"
| "Shl_loop iIndexShift uBitsMod d (Suc i) iShifted res =
     (if iIndexShift \<le> i
      then (let iShifted1 = (iShifted + unat (d ! i) * 2 ^ uBitsMod) mod 2 ^ 16;
                res1 = res[i - iIndexShift := of_nat iShifted1]
            in Shl_loop iIndexShift uBitsMod d i (iShifted1 div 2 ^ 8) res1)
      else res)"

definition Shl :: "kad_id \<Rightarrow> nat \<Rightarrow> kad_id" where
  "Shl a uBits =
     (let n = length (mData a) in
      if uBits = 0 \<or> IsZero a then a
      else if BIT_SIZE a \<le> uBits then Clear n
      else TKadId (Shl_loop (uBits div 16) (uBits mod 16) (mData a) n 0 (mData (Clear n))))"

lemma unat_of_nat_u8: "unat (of_nat x :: u8) = x mod 256"
  by (simp add: unat_of_nat)

lemma Shl_loop_spec:
  assumes "sh \<le> i" "i \<le> length d" "length d \<le> length res" "m \<le> 8" "acc < 256"
  shows "\<exists>r. Shl_loop sh m d i acc res = r @ drop (i - sh) res \<and> length r = i - sh \<and>
    be_val r = (be_val (drop sh (take i d)) * 2 ^ m + acc) mod 256 ^ (i - sh)"
  using assms
proof (induction i arbitrary: acc res)
  case 0
  then show ?case by simp
next
  case (Suc i)
  show ?case
  proof (cases "sh \<le> i")
    case False
    with Suc.prems have sh: "sh = Suc i" by simp
    then show ?thesis by simp
  next
    case True
    let ?x = "acc + unat (d ! i) * 2 ^ m"
    let ?res = "res[i - sh := of_nat ?x]"
    let ?D = "be_val (drop sh (take i d))"
    have "unat (d ! i) \<le> 255"
      using unat_u8_less [of "d ! i"] by linarith
    then have "unat (d ! i) * 2 ^ m \<le> 255 * 2 ^ 8"
      using Suc.prems(4) by (intro mult_le_mono power_increasing) simp_all
    with Suc.prems(5) have x: "?x < 2 ^ 16" "?x div 256 < 256" by simp_all
    obtain r where r: "Shl_loop sh m d i (?x div 256) ?res = r @ drop (i - sh) ?res"
      "length r = i - sh" "be_val r = (?D * 2 ^ m + ?x div 256) mod 256 ^ (i - sh)"
      using Suc.IH [of ?res "?x div 256"] True Suc.prems x by auto
    have il: "i - sh < length res" using Suc.prems by simp
    have "Shl_loop sh m d (Suc i) acc res = (r @ [of_nat ?x]) @ drop (Suc i - sh) res"
      using True r(1) x il by (simp add: Let_def drop_update_same Suc_diff_le)
    moreover have "be_val (r @ [of_nat ?x]) =
      (be_val (drop sh (take (Suc i) d)) * 2 ^ m + acc) mod 256 ^ (Suc i - sh)"
    proof -
      have dt: "drop sh (take (Suc i) d) = drop sh (take i d) @ [d ! i]"
        using True Suc.prems(2) by (simp add: take_Suc_conv_app_nth)
      have "be_val (r @ [of_nat ?x]) =
        256 * ((?D * 2 ^ m + ?x div 256) mod 256 ^ (i - sh)) + ?x mod 256"
        using r(3) by (simp add: be_val_append unat_of_nat_u8 del: of_nat_add of_nat_mult)
      also have "\<dots> = (256 * (?D * 2 ^ m) + ?x) mod 256 ^ Suc (i - sh)"
      proof -
        have "(256 * (?D * 2 ^ m) + ?x) div 256 = ?D * 2 ^ m + ?x div 256"
          "(256 * (?D * 2 ^ m) + ?x) mod 256 = ?x mod 256"
          by simp_all
        then show ?thesis
          using mod_mult2_eq [of "256 * (?D * 2 ^ m) + ?x" 256 "256 ^ (i - sh)"] by simp
      qed
      also have "256 * (?D * 2 ^ m) + ?x = be_val (drop sh (take (Suc i) d)) * 2 ^ m + acc"
        unfolding dt by (simp add: be_val_append algebra_simps)
      finally show ?thesis using True by (simp add: Suc_diff_le)
    qed
    ultimately show ?thesis
      using r(2) True by (intro exI [of _ "r @ [of_nat ?x]"]) (simp add: Suc_diff_le)
  qed
qed

lemma Shl_ok: "id_ok n a \<Longrightarrow> id_ok n (Shl a k)"
proof -
  have len: "length (Shl_loop sh m d i acc res) = length res" for sh m d i acc res
    by (induction i arbitrary: acc res) (simp_all add: Let_def)
  assume "id_ok n a"
  then show ?thesis by (simp add: Shl_def id_ok_def Clear_def Let_def len)
qed

lemma Shl_spec:
  assumes "id_ok n a" "k < 8 * n" "k mod 16 \<le> 8"
  shows "id_val (Shl a k) = id_val a * 2 ^ (8 * (k div 16) + k mod 16) mod 2 ^ (8 * n)"
proof (cases "k = 0 \<or> IsZero a")
  case True
  with assms show ?thesis
    using id_val_less [OF assms(1)] by (auto simp: Shl_def IsZero_iff)
next
  case False
  let ?sh = "k div 16" and ?m = "k mod 16" and ?d = "mData a"
  have len: "length ?d = n" using assms(1) by (simp add: id_ok_def)
  have sh: "?sh \<le> n" using assms(2) by simp
  obtain r where r: "Shl_loop ?sh ?m ?d n 0 (replicate n 0) = r @ drop (n - ?sh) (replicate n 0)"
    "length r = n - ?sh" "be_val r = (be_val (drop ?sh ?d) * 2 ^ ?m) mod 256 ^ (n - ?sh)"
    using Shl_loop_spec [of ?sh n ?d "replicate n 0" ?m 0] len sh assms(3) by auto
  have "be_val r = (be_val ?d * 2 ^ ?m) mod 256 ^ (n - ?sh)"
    using r(3) len by (simp add: be_val_drop mod_mult_left_eq)
  moreover have "id_val (Shl a k) = be_val r * 256 ^ ?sh"
    using False assms r(1) len sh by (simp add: Shl_def id_val_def Clear_def BIT_SIZE_def Let_def be_val_append)
  ultimately have "id_val (Shl a k) = (be_val ?d * 2 ^ ?m * 256 ^ ?sh) mod (256 ^ (n - ?sh) * 256 ^ ?sh)"
    by (simp add: mult_mod_left)
  also have "(256 :: nat) ^ (n - ?sh) * 256 ^ ?sh = 2 ^ (8 * n)"
    using sh by (simp add: pow256 flip: power_add)
  also have "be_val ?d * 2 ^ ?m * 256 ^ ?sh = id_val a * 2 ^ (8 * ?sh + ?m)"
    by (simp add: id_val_def pow256 power_add mult.commute mult.left_commute)
  finally show ?thesis .
qed

subsection \<open>Multiplication\<close>

text \<open>
  The scratch matrix has \<open>2 * SIZE + 1\<close> rows of \<open>2 * SIZE\<close> bytes. The column written in the
  first pair of loops is \<open>j - (SIZE-1-i)\<close>; a negative one lies outside the row, which the
  model reports as \<open>None\<close>.
\<close>

definition mat_write :: "u8 list list \<Rightarrow> nat \<Rightarrow> int \<Rightarrow> u8 \<Rightarrow> u8 list list option" where
  "mat_write mat i col v = (if 0 \<le> col then Some (mat[i := (mat ! i)[nat col := v]]) else None)"

text \<open>One store of a carry: the byte, and the carry left over.\<close>

definition Mul_carry :: "int \<Rightarrow> u8 \<times> int" where
  "Mul_carry carry =
     (if carry < 256 then (cast_u8 carry, 0) else (cast_u8 (carry mod 256), carry div 256))"

fun Mul_row :: "u8 list \<Rightarrow> u8 list \<Rightarrow> nat \<Rightarrow> nat \<Rightarrow> int \<Rightarrow> u8 list list \<Rightarrow> (int \<times> u8 list list) option" where
  "Mul_row d u i 0 carry mat = Some (carry, mat)"
| "Mul_row d u i (Suc j) carry mat =
     (let carry1 = cast_i16 (carry + uint (d ! i) * uint (u ! j));
          (b, carry2) = Mul_carry carry1
      in case mat_write mat i (int j - (int (length d) - 1 - int i)) b of
           None \<Rightarrow> None
         | Some mat1 \<Rightarrow> Mul_row d u i j carry2 mat1)"

fun Mul_rows :: "u8 list \<Rightarrow> u8 list \<Rightarrow> nat \<Rightarrow> int \<Rightarrow> u8 list list \<Rightarrow> (int \<times> u8 list list) option" where
  "Mul_rows d u 0 carry mat = Some (carry, mat)"
| "Mul_rows d u (Suc i) carry mat =
     (case Mul_row d u i (length d) carry mat of
        None \<Rightarrow> None
      | Some (carry1, mat1) \<Rightarrow> Mul_rows d u i carry1 mat1)"

fun Mul_sum_row :: "nat \<Rightarrow> nat \<Rightarrow> int \<Rightarrow> u8 list list \<Rightarrow> int \<times> u8 list list" where
  "Mul_sum_row i 0 carry mat = (carry, mat)"
| "Mul_sum_row i (Suc j) carry mat =
     (let carry1 = cast_i16 (carry + uint (mat ! i ! j) + uint (mat ! (i - 1) ! j));
          (b, carry2) = Mul_carry carry1
      in Mul_sum_row i j carry2 (mat[i := (mat ! i)[j := b]]))"

definition Mul :: "kad_id \<Rightarrow> kad_id \<Rightarrow> kad_id option" where
  "Mul a uValue =
     (let n = length (mData a); mat0 = replicate (2 * n + 1) (replicate (2 * n) 0)
      in case Mul_rows (mData a) (mData uValue) n 0 mat0 of
           None \<Rightarrow> None
         | Some (carry, mat) \<Rightarrow>
             (let (_, mat1) = foldl (\<lambda>(c, m) i. Mul_sum_row i n c m) (carry, mat) [1..<n + 1]
              in Some (TKadId (map (\<lambda>i. mat1 ! n ! i) [0..<n]))))"

lemma Mul_row_negative:
  "Suc i < length d \<Longrightarrow> 0 < j \<Longrightarrow> Mul_row d u i j carry mat = None"
proof (induction j arbitrary: carry mat)
  case 0
  then show ?case by simp
next
  case (Suc j)
  show ?case
  proof (cases j)
    case 0
    with Suc.prems show ?thesis
      by (auto simp: mat_write_def Let_def split: prod.splits option.splits)
  next
    case (Suc j')
    with Suc.IH Suc.prems show ?thesis
      by (auto simp: Let_def split: prod.splits option.splits)
  qed
qed

lemma Mul_rows_negative:
  assumes "2 \<le> length d"
  shows "Mul_rows d u (length d) carry mat = None"
proof -
  obtain k where k: "length d = Suc (Suc k)"
    using assms by (cases "length d") (auto simp: not_less_eq_eq numeral_2_eq_2 Suc_le_eq gr0_conv_Suc)
  then show ?thesis
    using Mul_row_negative [of k d "length d"] by (auto split: option.splits)
qed

end
