(* ===== verification/XPlat.thy ===== *)
theory XPlat
  imports KadPrelude
begin

section \<open>The platform library the program is built on\<close>

text \<open>
  \<open>XList\<close>, \<open>XString\<close> and the rest of \<open>xplat\<close> are a separate repository (a git submodule
  whose directory is empty here), so they are parameters: the definitions of the other
  theories take a record of the container's operations as an argument, and the theorems
  name what they rely on as a hypothesis (\<open>xlist_ok\<close>, \<open>xstring_ok\<close>).

  An \<open>XList<T>\<close> value is represented by the sequence that a traversal
  \<open>for (it = l.First(); it != l.End(); ++it)\<close> visits, an iterator by the position it stands
  at, \<open>End()\<close> by \<open>None\<close>. \<open>Count()\<close> is the length of that sequence, and \<open>Remove(it)\<close> returns
  the element it takes out. What each operation does to
  the sequence is the parameter.
\<close>

record 'a xlist =
  Append :: "'a list \<Rightarrow> 'a \<Rightarrow> 'a list"
  AppendAll :: "'a list \<Rightarrow> 'a list \<Rightarrow> 'a list"
  RemoveAt :: "'a list \<Rightarrow> nat \<Rightarrow> 'a \<times> 'a list"
  PopFront :: "'a list \<Rightarrow> 'a list"
  PopBack :: "'a list \<Rightarrow> 'a list"
  InsertBefore :: "'a list \<Rightarrow> nat \<Rightarrow> 'a \<Rightarrow> 'a list"
  Assign :: "'a list \<Rightarrow> nat \<Rightarrow> 'a \<Rightarrow> 'a list"
  FindAfter :: "'a list \<Rightarrow> nat \<Rightarrow> ('a \<Rightarrow> bool) \<Rightarrow> nat option"

text \<open>
  What the code relies on: a list keeps its elements in the order of insertion, positions
  are only used where they are valid, and \<open>FindAfter(First(), x)\<close> finds the first match.
\<close>

fun first_match :: "('a \<Rightarrow> bool) \<Rightarrow> 'a list \<Rightarrow> nat option" where
  "first_match p [] = None"
| "first_match p (x # xs) = (if p x then Some 0 else map_option Suc (first_match p xs))"

definition xlist_ok :: "'a xlist \<Rightarrow> bool" where
  "xlist_ok X \<longleftrightarrow>
     (\<forall>l a. Append X l a = l @ [a]) \<and>
     (\<forall>l m. AppendAll X l m = l @ m) \<and>
     (\<forall>l i. i < length l \<longrightarrow> RemoveAt X l i = (l ! i, take i l @ drop (Suc i) l)) \<and>
     (\<forall>l. l \<noteq> [] \<longrightarrow> PopFront X l = tl l) \<and>
     (\<forall>l. l \<noteq> [] \<longrightarrow> PopBack X l = butlast l) \<and>
     (\<forall>l i a. i < length l \<longrightarrow> InsertBefore X l i a = take i l @ a # drop i l) \<and>
     (\<forall>l i a. i < length l \<longrightarrow> Assign X l i a = l[i := a]) \<and>
     (\<forall>l p. FindAfter X l 0 p = first_match p l)"

text \<open>A list container that meets the laws, for the closed instances.\<close>

definition list_container :: "'a xlist" where
  "list_container =
     \<lparr>Append = (\<lambda>l a. l @ [a]), AppendAll = (\<lambda>l m. l @ m),
      RemoveAt = (\<lambda>l i. (l ! i, take i l @ drop (Suc i) l)),
      PopFront = tl, PopBack = butlast,
      InsertBefore = (\<lambda>l i a. take i l @ a # drop i l),
      Assign = (\<lambda>l i a. l[i := a]),
      FindAfter = (\<lambda>l i p. map_option (\<lambda>j. i + j) (first_match p (drop i l)))\<rparr>"

lemma list_container_ok [simp]: "xlist_ok list_container"
  unfolding xlist_ok_def list_container_def
  by (simp add: map_option_case split: option.splits)

lemma xl_laws [xl_simps]:
  assumes "xlist_ok X"
  shows "Append X l a = l @ [a]"
    and "AppendAll X l m = l @ m"
    and "i < length l \<Longrightarrow> RemoveAt X l i = (l ! i, take i l @ drop (Suc i) l)"
    and "l \<noteq> [] \<Longrightarrow> PopFront X l = tl l"
    and "l \<noteq> [] \<Longrightarrow> PopBack X l = butlast l"
    and "i < length l \<Longrightarrow> InsertBefore X l i a = take i l @ a # drop i l"
    and "i < length l \<Longrightarrow> Assign X l i a = l[i := a]"
    and "FindAfter X l 0 p = first_match p l"
  using assms by (simp_all add: xlist_ok_def)

lemma first_match_Some:
  "first_match p l = Some i \<longleftrightarrow> i < length l \<and> p (l ! i) \<and> (\<forall>j < i. \<not> p (l ! j))"
proof (induction l arbitrary: i)
  case Nil
  then show ?case by simp
next
  case (Cons x l)
  then show ?case
    by (cases i) (auto simp: less_Suc_eq_0_disj)
qed

lemma first_match_None: "first_match p l = None \<longleftrightarrow> (\<forall>x \<in> set l. \<not> p x)"
  by (induction l) auto

lemma first_match_SomeD:
  assumes "first_match p l = Some i"
  shows "i < length l" "p (l ! i)"
  using assms by (simp_all add: first_match_Some)

lemma set_remove_at: "set (take i l @ drop (Suc i) l) \<subseteq> set l"
  by (auto dest: in_set_takeD in_set_dropD)

lemma remove_at_split:
  assumes "i < length l"
  shows "l = take i l @ l ! i # drop (Suc i) l"
  using assms by (simp add: id_take_nth_drop)

lemma set_move_to_back:
  assumes "i < length l"
  shows "set (take i l @ drop (Suc i) l @ [l ! i]) = set l"
  by (subst (4) remove_at_split [OF assms]) (simp add: insert_commute Un_commute)

lemma distinct_remove_at:
  assumes "distinct l" "i < length l"
  shows "distinct (take i l @ drop (Suc i) l)" "l ! i \<notin> set (take i l @ drop (Suc i) l)"
    "set (take i l @ drop (Suc i) l) = set l - {l ! i}"
proof -
  have d: "distinct (take i l @ l ! i # drop (Suc i) l)"
    using assms remove_at_split [OF assms(2)] by simp
  then show "distinct (take i l @ drop (Suc i) l)" "l ! i \<notin> set (take i l @ drop (Suc i) l)"
    by auto
  have "set l = set (take i l @ l ! i # drop (Suc i) l)"
    using remove_at_split [OF assms(2)] by simp
  with d show "set (take i l @ drop (Suc i) l) = set l - {l ! i}"
    by auto
qed

subsection \<open>Formatting\<close>

text \<open>\<open>XString::Format("%02x", b)\<close> and \<open>operator +=\<close>, as used to print an identifier.\<close>

record xstring =
  Format02x :: "u8 \<Rightarrow> string"
  StrCat :: "string \<Rightarrow> string \<Rightarrow> string"

definition hex_digit :: "nat \<Rightarrow> char" where
  "hex_digit n = (if n < 10 then char_of (48 + n) else char_of (87 + n))"

definition hex2 :: "u8 \<Rightarrow> string" where
  "hex2 b = [hex_digit (unat b div 16), hex_digit (unat b mod 16)]"

definition xstring_ok :: "xstring \<Rightarrow> bool" where
  "xstring_ok S \<longleftrightarrow> (\<forall>b. Format02x S b = hex2 b) \<and> (\<forall>s t. StrCat S s t = s @ t)"

definition plain_xstring :: xstring where
  "plain_xstring = \<lparr>Format02x = hex2, StrCat = (@)\<rparr>"

lemma plain_xstring_ok [simp]: "xstring_ok plain_xstring"
  by (simp add: xstring_ok_def plain_xstring_def)

end
