(* ===== verification/KadIdText.thy ===== *)
theory KadIdText
  imports KadNodeId XPlat
begin

section \<open>Identifiers as text\<close>

text \<open>
  The constructor from a string and \<open>ToString\<close> of \<open>src/KadNodeId.h\<close> (built without
  \<open>KADEMLIA_DBG_BIN_ID\<close>), and \<open>FromHash\<close> of \<open>src/KadNodeId.cpp\<close>. \<open>scan_hex w\<close> is the C
  library's \<open>sscanf(s, "%wx", &u)\<close>: it skips white space, then reads at most \<open>w\<close> characters
  of an optional sign, an optional \<open>0x\<close> and hexadecimal digits; \<open>None\<close> when it does not
  return 1. The hash functions are parameters: they belong to the Crypto++ library.
\<close>

definition isspace :: "char \<Rightarrow> bool" where
  "isspace c \<longleftrightarrow> (let n = (of_char c :: nat) in n = 32 \<or> (9 \<le> n \<and> n \<le> 13))"

definition xdigit :: "char \<Rightarrow> nat option" where
  "xdigit c = (let n = (of_char c :: nat) in
     if 48 \<le> n \<and> n \<le> 57 then Some (n - 48)
     else if 65 \<le> n \<and> n \<le> 70 then Some (n - 55)
     else if 97 \<le> n \<and> n \<le> 102 then Some (n - 87)
     else None)"

fun xdigits :: "nat \<Rightarrow> nat \<Rightarrow> string \<Rightarrow> nat option" where
  "xdigits k acc [] = (if k = 0 then None else Some acc)"
| "xdigits k acc (c # cs) =
     (case xdigit c of None \<Rightarrow> (if k = 0 then None else Some acc)
      | Some v \<Rightarrow> xdigits (Suc k) (16 * acc + v) cs)"

fun strip_0x :: "string \<Rightarrow> string" where
  "strip_0x (z # x # cs) = (if z = CHR ''0'' \<and> (x = CHR ''x'' \<or> x = CHR ''X'') then cs else z # x # cs)"
| "strip_0x cs = cs"

definition scan_hex :: "nat \<Rightarrow> string \<Rightarrow> u32 option" where
  "scan_hex w s =
     (case take w (dropWhile isspace s) of
        [] \<Rightarrow> None
      | c # cs \<Rightarrow>
          if c = CHR ''-'' then map_option (\<lambda>v. - of_nat v) (xdigits 0 0 (strip_0x cs))
          else if c = CHR ''+'' then map_option of_nat (xdigits 0 0 (strip_0x cs))
          else map_option of_nat (xdigits 0 0 (strip_0x (c # cs))))"

text \<open>
  The loop over \<open>i\<close> from \<open>SIZE - 1\<close> to \<open>0\<close>; \<open>pos\<close> is \<open>strBuff - str\<close>. Each call of \<open>sscanf\<close>
  sees the string from its position to its end.
\<close>

fun FromStr_loop :: "string \<Rightarrow> nat \<Rightarrow> nat \<Rightarrow> u8 list \<Rightarrow> u8 list" where
  "FromStr_loop str 0 pos d = d"
| "FromStr_loop str (Suc i) pos d =
     (case (if 2 \<le> pos then scan_hex 2 (drop (pos - 2) str) else None) of
        Some u \<Rightarrow> FromStr_loop str i (pos - 2) (d[i := ucast (u AND 255)])
      | None \<Rightarrow>
          (case (if 2 \<le> pos then scan_hex 1 (drop (pos - 1) str) else None) of
             Some u \<Rightarrow> d[i := ucast (u AND 255)]
           | None \<Rightarrow>
               (case (if pos = 1 then scan_hex 1 (drop (pos - 1) str) else None) of
                  Some u \<Rightarrow> d[i := ucast (u AND 255)]
                | None \<Rightarrow> d)))"

definition FromStr :: "nat \<Rightarrow> string \<Rightarrow> kad_id" where
  "FromStr n str = TKadId (FromStr_loop str n (length str) (mData (Clear n)))"

definition ToString :: "xstring \<Rightarrow> kad_id \<Rightarrow> string" where
  "ToString S a = foldl (\<lambda>result b. StrCat S result (Format02x S b)) [] (mData a)"

subsection \<open>Printing and reading back\<close>

lemma xdigit_hex_digit:
  assumes "n < 16"
  shows "xdigit (hex_digit n) = Some n" "\<not> isspace (hex_digit n)"
    "hex_digit n \<noteq> CHR ''x''" "hex_digit n \<noteq> CHR ''X''" "hex_digit n \<noteq> CHR ''-''"
    "hex_digit n \<noteq> CHR ''+''"
proof -
  have c: "(of_char (hex_digit n) :: nat) = (if n < 10 then 48 + n else 87 + n)"
    using assms by (simp add: hex_digit_def)
  show "xdigit (hex_digit n) = Some n" "\<not> isspace (hex_digit n)"
    using assms by (simp_all add: xdigit_def isspace_def Let_def c)
  have "hex_digit n \<noteq> ch" if "(of_char ch :: nat) \<in> {43, 45, 88, 120}" for ch
    using that assms c by (auto split: if_splits)
  then show "hex_digit n \<noteq> CHR ''x''" "hex_digit n \<noteq> CHR ''X''" "hex_digit n \<noteq> CHR ''-''"
    "hex_digit n \<noteq> CHR ''+''"
    by simp_all
qed

lemma scan_hex2: "scan_hex 2 (hex2 b @ s) = Some (of_nat (unat b))"
proof -
  have h: "unat b div 16 < 16" "unat b mod 16 < 16"
    by (simp_all add: less_mult_imp_div_less)
  have "16 * (unat b div 16) + unat b mod 16 = unat b"
    by simp
  then show ?thesis
    using xdigit_hex_digit [OF h(1)] xdigit_hex_digit [OF h(2)]
    by (simp add: scan_hex_def hex2_def)
qed

lemma byte_of_scan: "ucast ((ucast (b :: u8) :: u32) AND 255) = b"
proof -
  have "(255 :: u32) = mask 8" by (simp add: mask_eq_exp_minus_1)
  then have "(ucast b :: u32) AND 255 = take_bit 8 (ucast b)"
    by (simp add: take_bit_eq_mask)
  then show ?thesis
    by (auto intro!: bit_word_eqI simp: bit_ucast_iff bit_take_bit_iff)
qed

lemma FromStr_loop_hex:
  assumes "length bs = i" "i \<le> length d"
  shows "FromStr_loop (concat (map hex2 bs) @ s) i (2 * i) d = bs @ drop i d"
  using assms
proof (induction bs arbitrary: i d s rule: rev_induct)
  case Nil
  then show ?case by simp
next
  case (snoc b bs)
  then obtain j where j: "i = Suc j" "length bs = j" by auto
  have len: "length (concat (map hex2 bs)) = 2 * j"
    using j(2) by (induction bs arbitrary: j) (auto simp: hex2_def)
  have "FromStr_loop (concat (map hex2 (bs @ [b])) @ s) i (2 * i) d =
    FromStr_loop (concat (map hex2 bs) @ (hex2 b @ s)) j (2 * j) (d[j := b])"
    using j len by (simp add: scan_hex2 byte_of_scan)
  also have "\<dots> = bs @ drop j (d[j := b])"
    using snoc.IH [OF j(2)] snoc.prems j by simp
  also have "\<dots> = (bs @ [b]) @ drop i d"
    using snoc.prems j by (simp add: drop_update_same)
  finally show ?case .
qed

lemma ToString_eq:
  assumes "xstring_ok S"
  shows "ToString S a = concat (map hex2 (mData a))"
proof -
  have "foldl (\<lambda>r b. StrCat S r (Format02x S b)) acc bs = acc @ concat (map hex2 bs)" for acc bs
    using assms by (induction bs arbitrary: acc) (auto simp: xstring_ok_def)
  then show ?thesis by (simp add: ToString_def)
qed

lemma FromStr_ToString:
  assumes "xstring_ok S" "id_ok n a"
  shows "FromStr n (ToString S a) = a"
proof -
  have len: "length (concat (map hex2 bs)) = 2 * length bs" for bs
    by (induction bs) (auto simp: hex2_def)
  have "FromStr_loop (concat (map hex2 (mData a)) @ []) n (2 * n) (replicate n 0) =
    mData a @ drop n (replicate n 0)"
    using assms(2) by (intro FromStr_loop_hex) (simp_all add: id_ok_def)
  with assms show ?thesis
    by (simp add: FromStr_def ToString_eq Clear_def id_ok_def len)
qed

lemma FromStr_ok [simp]: "id_ok n (FromStr n str)"
proof -
  have "length (FromStr_loop str i pos d) = length d" for i pos d
    by (induction i arbitrary: pos d) (auto split: option.splits)
  then show ?thesis by (simp add: FromStr_def id_ok_def Clear_def)
qed

subsection \<open>Identifiers from a hash\<close>

text \<open>
  The specialisations for 64, 48, 32, 28 and 20 bytes store the digest of the hash of that
  size (\<open>digest\<close>). The general template folds the 32 bytes of SHA-256 into \<open>32 / N\<close>
  identifiers: \<open>ids\<close> has room for \<open>N * (32 / N)\<close> bytes, and a digest that does not fit is an
  out-of-bounds write, the value \<open>None\<close>.
\<close>

definition FromHash_exact :: "(u8 list \<Rightarrow> u8 list) \<Rightarrow> u8 list \<Rightarrow> kad_id" where
  "FromHash_exact digest data = TKadId (digest data)"

definition FromHash_fold :: "(u8 list \<Rightarrow> u8 list) \<Rightarrow> nat \<Rightarrow> u8 list \<Rightarrow> kad_id option" where
  "FromHash_fold sha256 n data =
     (let ids = sha256 data; k = 32 div n in
      if length ids \<le> n * k
      then Some (foldl (\<lambda>r i. id_xor r (TKadId (take n (drop (n * i) ids)))) (Clear n) [0..<k])
      else None)"

lemma FromHash_fold_ok:
  assumes "\<And>x. length (sha256 x) = 32" "n dvd 32"
  shows "\<exists>a. FromHash_fold sha256 n data = Some a \<and> id_ok n a"
proof -
  have n: "n * (32 div n) = 32" using assms(2) by simp
  have "id_ok n (foldl (\<lambda>r i. id_xor r (TKadId (take n (drop (n * i) (sha256 data))))) (Clear n) [0..<k])"
    if "k \<le> 32 div n" for k
    using that
  proof (induction k)
    case 0
    then show ?case by simp
  next
    case (Suc k)
    then have "n * Suc k \<le> n * (32 div n)" by (intro mult_le_mono2) simp
    then have "n * k + n \<le> 32" using n by simp
    with Suc assms(1) show ?case by (auto simp: id_ok_def id_xor_def)
  qed
  with n assms(1) show ?thesis by (simp add: FromHash_fold_def Let_def)
qed

lemma FromHash_fold_overflow:
  assumes "\<And>x. length (sha256 x) = 32" "\<not> n dvd 32"
  shows "FromHash_fold sha256 n data = None"
proof -
  have "n * (32 div n) \<noteq> 32" using assms(2) by (metis dvd_triv_left)
  then have "\<not> 32 \<le> n * (32 div n)"
    using times_div_less_eq_dividend [of n 32] by linarith
  with assms(1) show ?thesis by (simp add: FromHash_fold_def Let_def)
qed

end
