(* ===== verification/IdProps.thy ===== *)
theory IdProps
  imports KadIdMetric KadIdArith KadIdText
begin

section \<open>Properties of identifiers\<close>

text \<open>
  What \<open>TKadId\<close> promises: its operators are those of numbers below \<open>2 ^ (8 * SIZE)\<close> and of
  the XOR metric, and text and bits give back what was put in. The last ones state where
  shifting, multiplying and hashing leave that specification.
\<close>

definition id_a :: kad_id where "id_a = TKadId [1, 255, 0, 7]"
definition id_b :: kad_id where "id_b = TKadId [1, 254, 3, 9]"
definition id_c :: kad_id where "id_c = TKadId [128, 0, 0, 255]"

text \<open>The six comparison operators compare the 8n-bit numbers.\<close>

theorem id_order_numeric:
  assumes "id_ok n a" "id_ok n b"
  shows "(id_eq a b \<longleftrightarrow> id_val a = id_val b) \<and> (id_neq a b \<longleftrightarrow> id_val a \<noteq> id_val b) \<and>
    (id_lt a b \<longleftrightarrow> id_val a < id_val b) \<and> (id_le a b \<longleftrightarrow> id_val a \<le> id_val b) \<and>
    (id_gt a b \<longleftrightarrow> id_val b < id_val a) \<and> (id_ge a b \<longleftrightarrow> id_val b \<le> id_val a)"
  using assms id_val_inj [OF assms] id_less_val_iff [OF assms] id_less_val_iff [OF assms(2,1)]
  by (auto simp: id_cmp_iffs [OF assms] not_less [symmetric])

lemma id_order_numeric_witness: "id_gt id_a id_b \<and> id_val id_b < id_val id_a"
proof -
  have "id_ok 4 id_a" "id_ok 4 id_b" by (simp_all add: id_ok_def id_a_def id_b_def)
  from id_order_numeric [OF this] show ?thesis
    by (simp add: id_val_def id_a_def id_b_def)
qed

text \<open>
  C22: \<open>Closer\<close> orders by the XOR distance, which is a metric (zero only on equal
  identifiers, symmetric, triangle inequality) and unidirectional: no two identifiers are
  equally far from a third.
\<close>

theorem closer_metric:
  assumes "id_ok n k" "id_ok n a" "id_ok n b"
  shows "(Closer k a b \<longleftrightarrow> id_val (id_xor k a) < id_val (id_xor k b)) \<and>
    (id_val (id_xor a b) = 0 \<longleftrightarrow> a = b) \<and> id_val (id_xor a b) = id_val (id_xor b a) \<and>
    id_val (id_xor k b) \<le> id_val (id_xor k a) + id_val (id_xor a b) \<and>
    (a \<noteq> b \<longleftrightarrow> Closer k a b \<or> Closer k b a)"
proof (intro conjI)
  note d = id_xor_val [OF assms(1,2)] id_xor_val [OF assms(1,3)] id_xor_val [OF assms(2,3)]
    id_xor_val [OF assms(3,2)]
  show "Closer k a b \<longleftrightarrow> id_val (id_xor k a) < id_val (id_xor k b)"
    unfolding d by (rule idsp.nearer_dist [OF assms])
  show "id_val (id_xor a b) = 0 \<longleftrightarrow> a = b"
    unfolding d by (rule idsp.dist_0 [OF assms(2,3)])
  show "id_val (id_xor a b) = id_val (id_xor b a)"
    unfolding d by (rule idsp.dist_sym)
  show "id_val (id_xor k b) \<le> id_val (id_xor k a) + id_val (id_xor a b)"
    unfolding d by (rule idsp.dist_triangle)
  show "a \<noteq> b \<longleftrightarrow> Closer k a b \<or> Closer k b a"
    using idsp.nearer_total [OF assms] idsp.nearer_irrefl [OF assms(1,2)] by blast
qed

lemma closer_metric_witness: "Closer id_a id_b id_c \<and> id_val (id_xor id_a id_b) = 66318"
proof -
  have ok: "id_ok 4 id_a" "id_ok 4 id_b" "id_ok 4 id_c"
    by (simp_all add: id_ok_def id_a_def id_b_def id_c_def)
  have "id_val (id_xor id_a id_b) = 66318" "id_val (id_xor id_a id_c) = 2180972792"
    by (simp_all add: id_val_def id_xor_def id_a_def id_b_def id_c_def)
  with closer_metric [OF ok] show ?thesis by simp
qed

text \<open>\<open>Add\<close> and \<open>Sub\<close> are addition and subtraction modulo \<open>2 ^ (8 * n)\<close>.\<close>

theorem add_sub_modular:
  assumes "id_ok n a" "id_ok n b"
  shows "id_ok n (Add a b) \<and> id_val (Add a b) = (id_val a + id_val b) mod 2 ^ (8 * n) \<and>
    id_ok n (Sub a b) \<and> int (id_val (Sub a b)) = (int (id_val a) - int (id_val b)) mod 2 ^ (8 * n) \<and>
    Sub (Add a b) b = a"
proof -
  note add = Add_spec [OF assms]
  note sub = Sub_spec [OF assms]
  note sub2 = Sub_spec [OF add(1) assms(2)]
  have p: "(256 :: int) ^ n = 2 ^ (8 * n)" by (simp add: power_mult)
  have "int (id_val a) < 256 ^ n" using id_val_less [OF assms(1)] unfolding p by (metis of_nat_less_iff of_nat_numeral of_nat_power)
  then have "int (id_val (Sub (Add a b) b)) = int (id_val a)"
    by (simp add: sub2(2) add(2) zmod_int mod_diff_left_eq)
  then have "Sub (Add a b) b = a" using id_val_inj [OF sub2(1) assms(1)] by simp
  with add sub show ?thesis by (simp add: p pow256)
qed

lemma add_sub_modular_witness: "Sub (Add id_a id_b) id_b = id_a \<and> id_val (Add id_a id_c) = 33488903 + 2147483903"
proof -
  have ok: "id_ok 4 id_a" "id_ok 4 id_b" "id_ok 4 id_c"
    by (simp_all add: id_ok_def id_a_def id_b_def id_c_def)
  have "id_val id_a = 33488903" "id_val id_c = 2147483903"
    by (simp_all add: id_val_def id_a_def id_c_def)
  with add_sub_modular [OF ok(1,2)] add_sub_modular [OF ok(1,3)] show ?thesis by simp
qed

text \<open>
  C23: \<open>DistanceTo\<close> is the length of the XOR distance in bits: 0 on equal identifiers, else the
  \<open>d\<close> with \<open>2 ^ (d - 1) <= distance < 2 ^ d\<close>. (The comment above the function promises
  \<open>2 ^ d <= distance\<close>, which never holds.)
\<close>

theorem distanceTo_bit_length:
  assumes "id_ok n a" "id_ok n b"
  shows "id_val (id_xor a b) < 2 ^ DistanceTo a b \<and>
    (if a = b then DistanceTo a b = 0 else 2 ^ (DistanceTo a b - 1) \<le> id_val (id_xor a b)) \<and>
    DistanceTo a b \<le> 8 * n"
  using DistanceTo_bounds [OF assms] by (auto simp: id_xor_val [OF assms])

lemma distanceTo_bit_length_witness: "2 ^ 16 \<le> id_val (id_xor id_a id_b) \<and> id_val (id_xor id_a id_b) < 2 ^ 17"
proof -
  have "id_ok 4 id_a" "id_ok 4 id_b" by (simp_all add: id_ok_def id_a_def id_b_def)
  note b = distanceTo_bit_length [OF this]
  have "DistanceTo id_a id_b = 17" "id_a \<noteq> id_b" by (simp_all add: id_a_def id_b_def) code_simp
  with b show ?thesis by simp
qed

text \<open>
  Within the array, \<open>SetBit\<close>, \<open>SwapBit\<close> and \<open>SetBits\<close> change exactly the bits they
  name; at a bit outside it the assertion fails.
\<close>

theorem bit_update:
  assumes "id_ok n a"
  shows "(SetBit a k v = None \<longleftrightarrow> 8 * n \<le> k) \<and>
    (\<forall>a' j. SetBit a k v = Some a' \<longrightarrow> j < 8 * n \<longrightarrow>
       GetBit a' j = Some (if j = k then v else the (GetBit a j))) \<and>
    (\<forall>a' j. SwapBit a k = Some a' \<longrightarrow> j < 8 * n \<longrightarrow>
       GetBit a' j = Some (if j = k then \<not> the (GetBit a j) else the (GetBit a j))) \<and>
    (k + q \<le> 8 * n \<and> 8 * n < 2 ^ 32 \<longrightarrow> (\<exists>a'. SetBits a k q v = Some a' \<and> id_ok n a' \<and>
       (\<forall>j < 8 * n. GetBit a' j = Some (if k \<le> j \<and> j < k + q then v else the (GetBit a j)))))"
proof -
  have s: "\<exists>a'. SetBits a k q v = Some a' \<and> id_ok n a' \<and>
       (\<forall>j < 8 * n. GetBit a' j = Some (if k \<le> j \<and> j < k + q then v else the (GetBit a j)))"
    if "k + q \<le> 8 * n" "8 * n < 2 ^ 32"
  proof -
    have "k + q < 2 ^ 32" using that by linarith
    then have "to_unsigned (int (k + q)) = k + q"
      by (simp add: to_unsigned_def del: of_nat_add)
    moreover have "\<forall>i \<in> set [k..<k + q]. i < 8 * n" using that(1) by auto
    ultimately show ?thesis
      using SetBits_loop_spec [OF assms, of "[k..<k + q]" v] by (auto simp: SetBits_def)
  qed
  show ?thesis
    using s SetBit_GetBit [of a k v] SwapBit_GetBit [of a k]
    by (simp add: SetBit_None_iff BIT_SIZE_ok [OF assms])
qed

lemma bit_update_witness:
  "SetBit id_a 32 True = None \<and> GetBit (the (SetBit id_a 7 False)) 7 = Some False \<and>
   (\<exists>a'. SetBits id_a 4 8 False = Some a' \<and> GetBit a' 12 = Some True \<and> GetBit a' 11 = Some False)"
proof -
  have ok: "id_ok 4 id_a" by (simp add: id_ok_def id_a_def)
  have "SetBit id_a 7 False = Some (TKadId [0, 255, 0, 7])" "GetBit id_a 12 = Some True"
    unfolding id_a_def by code_simp+
  moreover have "SetBit id_a 32 True = None"
    using bit_update [OF ok, of 32 True 0] by simp
  moreover have "GetBit (TKadId [0, 255, 0, 7]) 7 = Some False"
    using bit_update [OF ok, of 7 False 0] calculation(1) by simp
  moreover obtain a' where a': "SetBits id_a 4 8 False = Some a'"
    "\<forall>j < 32. GetBit a' j = Some (if 4 \<le> j \<and> j < 12 then False else the (GetBit id_a j))"
    using bit_update [OF ok, of 4 False 8] by auto
  moreover have "GetBit a' 12 = Some True" "GetBit a' 11 = Some False"
    using a'(2) calculation(2) by simp_all
  ultimately show ?thesis by simp
qed

text \<open>
  C24: printing an identifier and reading the text back gives the identifier.
\<close>

theorem toString_fromStr:
  assumes "xstring_ok S" "id_ok n a"
  shows "FromStr n (ToString S a) = a \<and> length (ToString S a) = 2 * n"
proof -
  have "length (concat (map hex2 bs)) = 2 * length bs" for bs
    by (induction bs) (simp_all add: hex2_def)
  then show ?thesis
    using FromStr_ToString [OF assms] ToString_eq [OF assms(1)] assms(2) by (simp add: id_ok_def)
qed

lemma toString_fromStr_witness: "FromStr 4 (ToString plain_xstring id_a) = id_a"
proof -
  have ok: "id_ok 4 id_a" by (simp add: id_ok_def id_a_def)
  show ?thesis using toString_fromStr [OF plain_xstring_ok ok] by simp
qed

text \<open>
  \<open>Shl\<close> by \<open>k\<close> bits, \<open>k mod 16 <= 8\<close>, shifts by \<open>8 * (k div 16) + k mod 16\<close> bits: the byte
  distance is computed with the size of the 16-bit accumulator. It is a shift by \<open>k\<close> for
  \<open>k <= 8\<close>, and for no \<open>k\<close> from 16 on.
\<close>

theorem shl_value:
  assumes "id_ok n a" "k < 8 * n" "k mod 16 \<le> 8"
  shows "id_ok n (Shl a k) \<and>
    id_val (Shl a k) = id_val a * 2 ^ (8 * (k div 16) + k mod 16) mod 2 ^ (8 * n) \<and>
    (8 * (k div 16) + k mod 16 = k \<longleftrightarrow> k < 16)"
proof -
  have "8 * (k div 16) + k mod 16 = k \<longleftrightarrow> k div 16 = 0"
    using div_mult_mod_eq [of k 16] by linarith
  also have "\<dots> \<longleftrightarrow> k < 16" by (simp add: div_eq_0_iff)
  finally show ?thesis using Shl_spec [OF assms] Shl_ok [OF assms(1)] by simp
qed

lemma shl_value_witness: "id_val (Shl id_a 3) = 8 * id_val id_a \<and> id_val (Shl (TKadId [0, 0, 0, 1]) 16) = 2 ^ 8"
proof -
  have ok: "id_ok 4 id_a" "id_ok 4 (TKadId [0, 0, 0, 1])" by (simp_all add: id_ok_def id_a_def)
  from shl_value [OF ok(1), of 3] shl_value [OF ok(2), of 16] show ?thesis
    by (simp add: id_val_def id_a_def)
qed

text \<open>
  C26: \<open>Mul\<close> of identifiers of two or more bytes always writes before the start of a row of
  its matrix: it has no defined result.
\<close>

theorem mul_out_of_bounds:
  assumes "id_ok n a" "2 \<le> n"
  shows "Mul a b = None"
  using Mul_rows_negative [of "mData a"] assms by (simp add: Mul_def id_ok_def Let_def)

lemma mul_out_of_bounds_witness: "Mul id_a id_b = None"
proof -
  have ok: "id_ok 4 id_a" by (simp add: id_ok_def id_a_def)
  show ?thesis by (rule mul_out_of_bounds [OF ok]) simp
qed

end
