(* ===== verification/KadContact.thy ===== *)
theory KadContact
  imports KadNodeId
begin

section \<open>Contacts and the contact store\<close>

text \<open>
  \<open>KadContact\<close> of \<open>src/KadContact.h\<close>. Contacts are held by \<open>shared_ptr\<close> in several places at
  once (the routing table, the lists of a lookup, pending requests) and their failure
  counter is changed through any of the pointers, so they live in an explicit store: a
  pointer is a position of the store, allocation appends. \<open>'a\<close> is the type of network
  addresses.
\<close>

record 'a kad_contact =
  mId :: kad_id
  mAddrExt :: 'a
  mFailQty :: u32
  mRTT :: u32

definition KadContact :: "kad_id \<Rightarrow> 'a \<Rightarrow> 'a kad_contact" where
  "KadContact nid extr = \<lparr>mId = nid, mAddrExt = extr, mFailQty = 0, mRTT = 0\<rparr>"

definition IsStale :: "'a kad_contact \<Rightarrow> bool" where
  "IsStale c \<longleftrightarrow> KADEMLIA_STALE \<le> mFailQty c"

definition BecameStale :: "'a kad_contact \<Rightarrow> bool" where
  "BecameStale c \<longleftrightarrow> mFailQty c = KADEMLIA_STALE"

type_synonym cptr = nat
type_synonym 'a cstore = "'a kad_contact list"

text \<open>\<open>KadContactPtr node(new KadContact(id, addr))\<close>.\<close>

definition NewContact :: "'a cstore \<Rightarrow> kad_id \<Rightarrow> 'a \<Rightarrow> cptr \<times> 'a cstore" where
  "NewContact st nid addr = (length st, st @ [KadContact nid addr])"

definition idof :: "'a cstore \<Rightarrow> cptr \<Rightarrow> kad_id" where
  "idof st p = mId (st ! p)"

text \<open>
  \<open>store_ext st st'\<close>: the contacts of \<open>st\<close> are still there with their identifiers; their
  counters may have changed and new contacts may have been allocated.
\<close>

definition store_ext :: "'a cstore \<Rightarrow> 'a cstore \<Rightarrow> bool" where
  "store_ext st st' \<longleftrightarrow> length st \<le> length st' \<and> (\<forall>p < length st. idof st' p = idof st p)"

lemma store_ext_refl [simp, intro]: "store_ext st st"
  by (simp add: store_ext_def)

lemma store_ext_trans [trans]: "store_ext a b \<Longrightarrow> store_ext b c \<Longrightarrow> store_ext a c"
  by (auto simp: store_ext_def)

lemma store_extD:
  assumes "store_ext st st'" "p < length st"
  shows "p < length st'" "idof st' p = idof st p"
  using assms by (auto simp: store_ext_def)

lemma store_ext_NewContact [simp]: "store_ext st (st @ [c])"
  by (simp add: store_ext_def idof_def nth_append)

lemma store_ext_update: "mId c = mId (st ! p) \<Longrightarrow> store_ext st (st[p := c])"
  by (cases "p < length st") (auto simp: store_ext_def idof_def nth_list_update)

lemma idof_simps [store_simps]:
  "p < length st \<Longrightarrow> idof (st @ [c]) p = idof st p"
  "idof (st @ [KadContact nid addr]) (length st) = nid"
  by (simp_all add: idof_def nth_append KadContact_def)

lemma stale_simps [store_simps]:
  "\<not> IsStale (KadContact nid addr)"
  by (simp add: IsStale_def KadContact_def)

end
