(* ===== verification/KadRtNode.thy ===== *)
theory KadRtNode
  imports KadContact KadIdMetric KadIdArith XPlat
begin

section \<open>The routing table\<close>

text \<open>
  \<open>TKadRtNode\<close> of \<open>src/KadRtNode.h\<close>: a binary tree over the distance to the local node. A node
  without children is a bucket of contacts with a replacement cache; a node with children
  has given its contacts to them (\<open>Split\<close> clears its lists), so it carries none. The lists
  hold pointers into the contact store, which is passed along; \<open>X\<close> is the list container.
  The depth is a plain number (it never exceeds 159, below), the index is the \<open>unsigned\<close> of
  the code. This theory has the operations; what they guarantee is in \<open>RtNodeSpec\<close>.
\<close>

datatype rtnode =
    Bucket (mDepth: nat) (mIndex: u32) (mLocalId: kad_id) (mContacts: "cptr list") (mCache: "cptr list")
  | Space (mDepth: nat) (mIndex: u32) (mLocalId: kad_id) (rtM0: rtnode) (rtM1: rtnode)

definition RtNode :: "kad_id \<Rightarrow> rtnode" where
  "RtNode local_id = Bucket 0 0 local_id [] []"

text \<open>\<open>d.GetBit(mDepth)\<close>: \<open>true\<close> selects \<open>m1\<close>, \<open>false\<close> selects \<open>m0\<close> as the closest child.\<close>

definition ClosestIs1 :: "kad_id \<Rightarrow> nat \<Rightarrow> bool" where
  "ClosestIs1 d depth = the (GetBit d depth)"

definition IsBucket :: "rtnode \<Rightarrow> bool" where
  "IsBucket t = (case t of Bucket _ _ _ _ _ \<Rightarrow> True | Space _ _ _ _ _ \<Rightarrow> False)"

subsection \<open>Splitting a bucket\<close>

definition IsSplittable :: "nat \<Rightarrow> u32 \<Rightarrow> cptr list \<Rightarrow> bool" where
  "IsSplittable depth idx contacts \<longleftrightarrow>
     depth < KADEMLIA_ID_BITS - 1 \<and>
     KADEMLIA_BUCKET_SIZE \<le> length contacts \<and>
     (depth < KADEMLIA_RT_BASE \<or>
      id_lt (FromNum KADEMLIA_ID_SIZE (ucast idx))
            (the (PowerOfTwo KADEMLIA_ID_SIZE (int (depth mod KADEMLIA_B)))))"

text \<open>The two loops of \<open>Split\<close>, over the contacts and over the cache of the bucket.\<close>

fun Split_contacts :: "cptr xlist \<Rightarrow> 'a cstore \<Rightarrow> kad_id \<Rightarrow> nat \<Rightarrow> cptr list \<Rightarrow>
    cptr list \<times> cptr list \<Rightarrow> cptr list \<times> cptr list" where
  "Split_contacts X st local_id depth [] (c0, c1) = (c0, c1)"
| "Split_contacts X st local_id depth (p # ps) (c0, c1) =
     Split_contacts X st local_id depth ps
       (if ClosestIs1 (id_xor local_id (idof st p)) depth
        then (c0, Append X c1 p) else (Append X c0 p, c1))"

definition Split_put :: "cptr xlist \<Rightarrow> cptr list \<Rightarrow> cptr list \<Rightarrow> cptr \<Rightarrow> cptr list \<times> cptr list" where
  "Split_put X c k p =
     (if length c < KADEMLIA_BUCKET_SIZE then (Append X c p, k)
      else if length k < KADEMLIA_CACHE_SIZE then (c, Append X k p)
      else (c, k))"

fun Split_cache :: "cptr xlist \<Rightarrow> 'a cstore \<Rightarrow> kad_id \<Rightarrow> nat \<Rightarrow> cptr list \<Rightarrow>
    (cptr list \<times> cptr list) \<times> (cptr list \<times> cptr list) \<Rightarrow>
    (cptr list \<times> cptr list) \<times> (cptr list \<times> cptr list)" where
  "Split_cache X st local_id depth [] n = n"
| "Split_cache X st local_id depth (p # ps) ((c0, k0), (c1, k1)) =
     Split_cache X st local_id depth ps
       (if ClosestIs1 (id_xor local_id (idof st p)) depth
        then ((c0, k0), Split_put X c1 k1 p) else (Split_put X c0 k0 p, (c1, k1)))"

text \<open>\<open>Split\<close> of a bucket: \<open>None\<close> when it returns \<open>false\<close>, else what the node has become.\<close>

definition Split :: "cptr xlist \<Rightarrow> 'a cstore \<Rightarrow> nat \<Rightarrow> u32 \<Rightarrow> kad_id \<Rightarrow> cptr list \<Rightarrow> cptr list \<Rightarrow>
    rtnode option" where
  "Split X st depth idx local_id contacts cache =
     (if \<not> IsSplittable depth idx contacts then None
      else
        (let (c0, c1) = Split_contacts X st local_id depth contacts ([], []);
             ((c0', k0), (c1', k1)) = Split_cache X st local_id depth cache ((c0, []), (c1, []))
         in Some (Space depth idx local_id
                   (Bucket (depth + 1) (push_bit 1 idx) local_id c0' k0)
                   (Bucket (depth + 1) (push_bit 1 idx + 1) local_id c1' k1))))"

subsection \<open>Looking up an identifier in a list\<close>

text \<open>The loop of \<open>FindNodeById\<close> from \<open>Last()\<close> backwards: \<open>None\<close> is \<open>End()\<close>.\<close>

fun FindNodeById_loop :: "'a cstore \<Rightarrow> cptr list \<Rightarrow> kad_id \<Rightarrow> nat \<Rightarrow> nat option" where
  "FindNodeById_loop st lst nid 0 = None"
| "FindNodeById_loop st lst nid (Suc i) =
     (if id_eq (idof st (lst ! i)) nid then Some i else FindNodeById_loop st lst nid i)"

definition FindNodeById :: "'a cstore \<Rightarrow> cptr list \<Rightarrow> kad_id \<Rightarrow> nat option" where
  "FindNodeById st lst nid = FindNodeById_loop st lst nid (length lst)"

subsection \<open>Adding a contact\<close>

text \<open>
  A full bucket that cannot be split keeps the contact in its cache, dropping the oldest.
  The result is the store, the node and the pointer returned.
\<close>

definition AddToCache :: "cptr xlist \<Rightarrow> 'a cstore \<Rightarrow> cptr list \<Rightarrow> kad_id \<Rightarrow> 'a \<Rightarrow>
    'a cstore \<times> cptr list \<times> cptr" where
  "AddToCache X st cache nid addr =
     (case FindNodeById st cache nid of
        Some c2 \<Rightarrow>
          (let node = cache ! c2; (removed, cache1) = RemoveAt X cache c2
           in (st, Append X cache1 removed, node))
      | None \<Rightarrow>
          (if length cache < KADEMLIA_CACHE_SIZE
           then (let (node, st1) = NewContact st nid addr in (st1, Append X cache node, node))
           else (let cache1 = PopFront X cache; (node, st1) = NewContact st nid addr
                 in (st1, Append X cache1 node, node))))"

text \<open>
  \<open>AddNode\<close> terminates because a successful \<open>Split\<close> increases the depth: \<open>rt_weight\<close> of
  the node it leaves is smaller than that of the bucket it took.
\<close>

fun rt_weight :: "rtnode \<Rightarrow> nat" where
  "rt_weight (Bucket d i l cs ca) = 2 * (KADEMLIA_ID_BITS - d)"
| "rt_weight (Space d i l n0 n1) = Suc (max (rt_weight n0) (rt_weight n1))"

lemma Split_weight:
  "Split X st d i l cs ca = Some n \<Longrightarrow> rt_weight n < rt_weight (Bucket d i l cs ca)"
  by (auto simp: Split_def IsSplittable_def Let_def split: if_splits prod.splits)

function AddNode :: "cptr xlist \<Rightarrow> 'a cstore \<Rightarrow> rtnode \<Rightarrow> kad_id \<Rightarrow> 'a \<Rightarrow> kad_id \<Rightarrow>
    'a cstore \<times> rtnode \<times> cptr" where
  "AddNode X st (Space d i l n0 n1) nid addr dist =
     (if ClosestIs1 dist d
      then (let (st1, n, node) = AddNode X st n1 nid addr dist in (st1, Space d i l n0 n, node))
      else (let (st1, n, node) = AddNode X st n0 nid addr dist in (st1, Space d i l n n1, node)))"
| "AddNode X st (Bucket d i l contacts cache) nid addr dist =
     (case FindNodeById st contacts nid of
        Some c \<Rightarrow>
          (let node = contacts ! c; (removed, contacts1) = RemoveAt X contacts c
           in (st, Bucket d i l (Append X contacts1 removed) cache, node))
      | None \<Rightarrow>
          (if length contacts < KADEMLIA_BUCKET_SIZE
           then (let (node, st1) = NewContact st nid addr
                 in (st1, Bucket d i l (Append X contacts node) cache, node))
           else
             (case Split X st d i l contacts cache of
                Some n \<Rightarrow> AddNode X st n nid addr dist
              | None \<Rightarrow>
                  (let (st1, cache1, node) = AddToCache X st cache nid addr
                   in (st1, Bucket d i l contacts cache1, node)))))"
  by pat_completeness auto
termination
proof (relation "measure (\<lambda>(X, st, t, nid, addr, dist). rt_weight t)")
qed (use Split_weight in auto)

subsection \<open>Removing and finding\<close>

fun RemoveNode :: "cptr xlist \<Rightarrow> 'a cstore \<Rightarrow> rtnode \<Rightarrow> kad_id \<Rightarrow> kad_id \<Rightarrow> rtnode \<times> bool" where
  "RemoveNode X st (Space d i l n0 n1) nid dist =
     (if ClosestIs1 dist d
      then (let (n, b) = RemoveNode X st n1 nid dist in (Space d i l n0 n, b))
      else (let (n, b) = RemoveNode X st n0 nid dist in (Space d i l n n1, b)))"
| "RemoveNode X st (Bucket d i l contacts cache) nid dist =
     (case FindNodeById st contacts nid of
        Some it \<Rightarrow> (Bucket d i l (snd (RemoveAt X contacts it)) cache, True)
      | None \<Rightarrow>
          (case FindNodeById st cache nid of
             Some it2 \<Rightarrow> (Bucket d i l contacts (snd (RemoveAt X cache it2)), True)
           | None \<Rightarrow> (Bucket d i l contacts cache, False)))"

fun FindNode_loop :: "'a cstore \<Rightarrow> cptr list \<Rightarrow> kad_id \<Rightarrow> cptr option" where
  "FindNode_loop st [] nid = None"
| "FindNode_loop st (p # ps) nid = (if id_eq (idof st p) nid then Some p else FindNode_loop st ps nid)"

fun FindNode :: "'a cstore \<Rightarrow> rtnode \<Rightarrow> kad_id \<Rightarrow> kad_id \<Rightarrow> cptr option" where
  "FindNode st (Space d i l n0 n1) nid dist =
     (if ClosestIs1 dist d then FindNode st n1 nid dist else FindNode st n0 nid dist)"
| "FindNode st (Bucket d i l contacts cache) nid dist = FindNode_loop st contacts nid"

text \<open>The loop over \<open>result\<close> in \<open>FindClosest\<close>: the first entry that is farther is replaced.\<close>

fun Replace_loop :: "cptr xlist \<Rightarrow> 'a cstore \<Rightarrow> kad_id \<Rightarrow> cptr \<Rightarrow> nat list \<Rightarrow> cptr list \<Rightarrow> cptr list" where
  "Replace_loop X st nid p [] result = result"
| "Replace_loop X st nid p (jt # jts) result =
     (if Closer nid (idof st p) (idof st (result ! jt)) then Assign X result jt p
      else Replace_loop X st nid p jts result)"

fun FindClosest_loop :: "cptr xlist \<Rightarrow> 'a cstore \<Rightarrow> kad_id \<Rightarrow> nat \<Rightarrow> cptr list \<Rightarrow> cptr list \<Rightarrow> cptr list" where
  "FindClosest_loop X st nid qty [] result = result"
| "FindClosest_loop X st nid qty (p # ps) result =
     FindClosest_loop X st nid qty ps
       (if \<not> IsStale (st ! p)
        then (if length result < qty then Append X result p
              else Replace_loop X st nid p [0..<length result] result)
        else result)"

fun FindClosest :: "cptr xlist \<Rightarrow> 'a cstore \<Rightarrow> rtnode \<Rightarrow> kad_id \<Rightarrow> kad_id \<Rightarrow> nat \<Rightarrow> cptr list" where
  "FindClosest X st (Space d i l n0 n1) nid dist qty =
     (if qty = 0 then []
      else
        (let (closest, farthest) = (if ClosestIs1 dist d
               then (FindClosest X st n1 nid dist, FindClosest X st n0 nid dist)
               else (FindClosest X st n0 nid dist, FindClosest X st n1 nid dist));
             result = closest qty
         in if length result < qty
            then AppendAll X result (farthest (qty - length result))
            else result))"
| "FindClosest X st (Bucket d i l contacts cache) nid dist qty =
     (if qty = 0 then [] else FindClosest_loop X st nid qty contacts [])"

subsection \<open>Statistics and listings\<close>

record rt_stats =
  n_contacts :: nat
  n_stale :: nat
  n_cached :: nat
  n_buckets :: nat
  n_spaces :: nat

fun GetStatsRec :: "'a cstore \<Rightarrow> rtnode \<Rightarrow> rt_stats \<Rightarrow> rt_stats" where
  "GetStatsRec st (Bucket d i l cs ca) s =
     s\<lparr>n_buckets := n_buckets s + 1, n_contacts := n_contacts s + length cs, n_cached := n_cached s + length ca,
       n_stale := n_stale s + length (filter (\<lambda>p. IsStale (st ! p)) cs)\<rparr>"
| "GetStatsRec st (Space d i l n0 n1) s =
     GetStatsRec st n1 (GetStatsRec st n0 (s\<lparr>n_spaces := n_spaces s + 1\<rparr>))"

definition GetStats :: "'a cstore \<Rightarrow> rtnode \<Rightarrow> rt_stats" where
  "GetStats st t = GetStatsRec st t \<lparr>n_contacts = 0, n_stale = 0, n_cached = 0, n_buckets = 0, n_spaces = 0\<rparr>"

fun CountContacts :: "rtnode \<Rightarrow> nat" where
  "CountContacts (Bucket d i l cs ca) = length cs"
| "CountContacts (Space d i l n0 n1) = CountContacts n0 + CountContacts n1"

fun GetContacts_loop :: "cptr xlist \<Rightarrow> 'a cstore \<Rightarrow> cptr list \<Rightarrow> cptr list \<Rightarrow> cptr list" where
  "GetContacts_loop X st [] result = result"
| "GetContacts_loop X st (p # ps) result =
     GetContacts_loop X st ps (if \<not> IsStale (st ! p) then Append X result p else result)"

fun GetContacts :: "cptr xlist \<Rightarrow> 'a cstore \<Rightarrow> rtnode \<Rightarrow> cptr list" where
  "GetContacts X st (Bucket d i l cs ca) = GetContacts_loop X st cs []"
| "GetContacts X st (Space d i l n0 n1) =
     AppendAll X (AppendAll X [] (GetContacts X st n0)) (GetContacts X st n1)"

text \<open>\<open>RandomId\<close>, with the value \<open>KadId::Random()\<close> returned as an argument.\<close>

definition RandomId :: "kad_id \<Rightarrow> rtnode \<Rightarrow> kad_id option" where
  "RandomId rnd t =
     (let prefix = Shl (FromNum KADEMLIA_ID_SIZE (ucast (mIndex t))) (KADEMLIA_ID_BITS - mDepth t)
      in case SetBits rnd 0 (mDepth t) False of
           None \<Rightarrow> None
         | Some rndId \<Rightarrow> Some (id_xor (id_or rndId prefix) (mLocalId t)))"

subsection \<open>The public operations\<close>

text \<open>The overloads without a distance, called on the root.\<close>

definition RtAdd :: "cptr xlist \<Rightarrow> 'a cstore \<Rightarrow> rtnode \<Rightarrow> kad_id \<Rightarrow> 'a \<Rightarrow> 'a cstore \<times> rtnode \<times> cptr" where
  "RtAdd X st t nid addr = AddNode X st t nid addr (id_xor nid (mLocalId t))"

definition RtRemove :: "cptr xlist \<Rightarrow> 'a cstore \<Rightarrow> rtnode \<Rightarrow> kad_id \<Rightarrow> rtnode \<times> bool" where
  "RtRemove X st t nid = RemoveNode X st t nid (id_xor nid (mLocalId t))"

definition RtFindClosest :: "cptr xlist \<Rightarrow> 'a cstore \<Rightarrow> rtnode \<Rightarrow> kad_id \<Rightarrow> nat \<Rightarrow> cptr list" where
  "RtFindClosest X st t nid qty = FindClosest X st t nid (id_xor nid (mLocalId t)) qty"

definition RtFind :: "'a cstore \<Rightarrow> rtnode \<Rightarrow> kad_id \<Rightarrow> cptr option" where
  "RtFind st t nid = FindNode st t nid (id_xor nid (mLocalId t))"

end
