(* ===== verification/RtNodeSpec.thy ===== *)
theory RtNodeSpec
  imports KadRtNode
begin

section \<open>What the routing table guarantees\<close>

text \<open>
  The invariant \<open>rt_wf\<close> of a node of \<open>KadRtNode\<close> and its preservation. A node at depth \<open>d\<close>
  with index \<open>i\<close> covers the identifiers whose distance to the local node starts with the
  \<open>d\<close>-bit number \<open>i\<close> (\<open>in_range\<close>); depth and index are those of its place in the tree, so
  the 32-bit index never wraps; a bucket holds at most 16 contacts and 8 cached ones; no
  identifier occurs twice among its contacts, nor in its cache; and the cache is used only
  where the node can never be split.
\<close>

subsection \<open>Ranges\<close>

definition can_split :: "nat \<Rightarrow> nat \<Rightarrow> bool" where
  "can_split depth idx \<longleftrightarrow>
     depth < KADEMLIA_ID_BITS - 1 \<and> (depth < KADEMLIA_RT_BASE \<or> idx < 2 ^ (depth mod KADEMLIA_B))"

definition in_range :: "kad_id \<Rightarrow> nat \<Rightarrow> nat \<Rightarrow> kad_id \<Rightarrow> bool" where
  "in_range l depth idx x \<longleftrightarrow>
     id_ok KADEMLIA_ID_SIZE x \<and> (id_val l XOR id_val x) div 2 ^ (KADEMLIA_ID_BITS - depth) = idx"

lemma IsSplittable_iff:
  "IsSplittable depth i cs \<longleftrightarrow> can_split depth (unat i) \<and> KADEMLIA_BUCKET_SIZE \<le> length cs"
proof -
  have "depth mod 2 < 160"
    by (rule less_trans [of _ 2]) simp_all
  then obtain a where a: "PowerOfTwo 20 (int (depth mod 2)) = Some a" "id_ok 20 a"
    "id_val a = 2 ^ (depth mod 2)"
    using PowerOfTwo_spec [of "int (depth mod 2)" 20] by auto
  have "unat i < 2 ^ 64" "unat i < 2 ^ 160"
    using unsigned_less [of i, where 'a = nat] by simp_all
  then have "id_val (FromNum 20 (ucast i)) = unat i"
    by (simp add: FromNum_val unsigned_ucast_eq take_bit_nat_eq_self)
  then have "id_lt (FromNum 20 (ucast i)) a \<longleftrightarrow> unat i < 2 ^ (depth mod 2)"
    using a(2,3) by (simp add: id_lt_iff [of 20] id_less_val_iff [of 20])
  with a(1) show ?thesis by (auto simp: IsSplittable_def can_split_def)
qed

lemma ClosestIs1_bit:
  assumes "id_ok 20 x" "depth < 160"
  shows "ClosestIs1 x depth \<longleftrightarrow> bit (id_val x) (159 - depth)"
  using GetBit_val [OF assms(1), of depth] assms(2) by (simp add: ClosestIs1_def)

lemma in_range_root: "id_ok 20 l \<Longrightarrow> id_ok 20 x \<Longrightarrow> in_range l 0 0 x"
  using id_val_less [of 20 "id_xor l x"] by (simp add: in_range_def id_xor_val [of 20])

lemma in_range_child:
  assumes "in_range l depth idx x" "id_ok 20 l" "depth < 160"
  shows "in_range l (Suc depth) (2 * idx + of_bool (ClosestIs1 (id_xor l x) depth)) x"
proof -
  have x: "id_ok 20 x" using assms(1) by (simp add: in_range_def)
  have k: "160 - Suc depth = 159 - depth" "Suc (159 - depth) = 160 - depth"
    using assms(3) by simp_all
  have "ClosestIs1 (id_xor l x) depth \<longleftrightarrow> bit (id_val l XOR id_val x) (159 - depth)"
    using ClosestIs1_bit [of "id_xor l x" depth] x assms(2,3) by (simp add: id_xor_val [of 20])
  with assms(1) x show ?thesis
    using div_pow2_step [of "id_val l XOR id_val x" "159 - depth"]
    by (simp add: in_range_def k)
qed

lemma in_range_child_iff:
  assumes "in_range l depth idx x" "id_ok 20 l" "depth < 160"
  shows "in_range l (Suc depth) (2 * idx) x \<longleftrightarrow> \<not> ClosestIs1 (id_xor l x) depth"
    and "in_range l (Suc depth) (Suc (2 * idx)) x \<longleftrightarrow> ClosestIs1 (id_xor l x) depth"
  using in_range_child [OF assms] by (auto simp: in_range_def of_bool_def split: if_splits)

text \<open>
  Of two identifiers in the range of a node, the one in the child that \<open>Closest\<close> selects for
  a key is nearer to the key, whether or not the key lies in the range itself.
\<close>

lemma closest_child_nearer:
  assumes x: "in_range l depth idx x" and y: "in_range l depth idx y"
    and ok: "id_ok 20 l" "id_ok 20 k" "depth < 160"
    and bx: "ClosestIs1 (id_xor l x) depth = ClosestIs1 (id_xor k l) depth"
    and b_y: "ClosestIs1 (id_xor l y) depth \<noteq> ClosestIs1 (id_xor k l) depth"
  shows "id_val k XOR id_val x < id_val k XOR id_val y"
proof -
  let ?m = "159 - depth"
  let ?A = "id_val k XOR id_val x" and ?B = "id_val k XOR id_val y"
  have okx: "id_ok 20 x" "id_ok 20 y" using x y by (simp_all add: in_range_def)
  have kl: "id_val k XOR id_val z = (id_val k XOR id_val l) XOR (id_val l XOR id_val z)" for z
    by (simp add: xor.assoc) (simp add: xor.assoc [symmetric])
  have "?A div 2 ^ Suc ?m = ?B div 2 ^ Suc ?m"
  proof -
    have "drop_bit (160 - depth) (id_val l XOR id_val x) = drop_bit (160 - depth) (id_val l XOR id_val y)"
      using x y by (simp add: in_range_def drop_bit_eq_div)
    then have "drop_bit (160 - depth) ?A = drop_bit (160 - depth) ?B"
      by (simp add: kl [of x] kl [of y] drop_bit_xor)
    moreover have "160 - depth = Suc ?m" using ok(3) by simp
    ultimately show ?thesis by (simp add: drop_bit_eq_div)
  qed
  moreover have "\<not> bit ?A ?m" "bit ?B ?m"
    using bx b_y ok okx by (auto simp: ClosestIs1_bit id_xor_val [of 20] bit_xor_iff)
  ultimately have "?A div 2 ^ ?m < ?B div 2 ^ ?m"
    using div_pow2_step [of ?A ?m] div_pow2_step [of ?B ?m] by simp
  then show ?thesis by (meson div_le_mono leD leI)
qed

subsection \<open>The invariant\<close>

definition entry_ok :: "'a cstore \<Rightarrow> kad_id \<Rightarrow> nat \<Rightarrow> nat \<Rightarrow> cptr \<Rightarrow> bool" where
  "entry_ok st l dep ix p \<longleftrightarrow> p < length st \<and> in_range l dep ix (idof st p)"

fun rt_wf :: "'a cstore \<Rightarrow> kad_id \<Rightarrow> nat \<Rightarrow> nat \<Rightarrow> rtnode \<Rightarrow> bool" where
  "rt_wf st l dep ix (Bucket d i l' cs ca) \<longleftrightarrow>
     d = dep \<and> unat i = ix \<and> l' = l \<and> dep < 160 \<and> ix < 8 \<and> ix < 2 ^ dep \<and>
     length cs \<le> KADEMLIA_BUCKET_SIZE \<and> length ca \<le> KADEMLIA_CACHE_SIZE \<and>
     (\<forall>p \<in> set cs. entry_ok st l dep ix p) \<and> (\<forall>p \<in> set ca. entry_ok st l dep ix p) \<and>
     distinct (map (idof st) cs) \<and> distinct (map (idof st) ca) \<and>
     (ca \<noteq> [] \<longrightarrow> \<not> can_split dep ix)"
| "rt_wf st l dep ix (Space d i l' n0 n1) \<longleftrightarrow>
     d = dep \<and> unat i = ix \<and> l' = l \<and> ix < 8 \<and> ix < 2 ^ dep \<and> can_split dep ix \<and>
     rt_wf st l (Suc dep) (2 * ix) n0 \<and> rt_wf st l (Suc dep) (Suc (2 * ix)) n1"

definition rt_inv :: "'a cstore \<Rightarrow> rtnode \<Rightarrow> bool" where
  "rt_inv st t \<longleftrightarrow> id_ok KADEMLIA_ID_SIZE (mLocalId t) \<and> rt_wf st (mLocalId t) 0 0 t"

fun rt_contacts :: "rtnode \<Rightarrow> cptr list" where
  "rt_contacts (Bucket d i l cs ca) = cs"
| "rt_contacts (Space d i l n0 n1) = rt_contacts n0 @ rt_contacts n1"

fun rt_cached :: "rtnode \<Rightarrow> cptr list" where
  "rt_cached (Bucket d i l cs ca) = ca"
| "rt_cached (Space d i l n0 n1) = rt_cached n0 @ rt_cached n1"

lemma rt_inv_init: "id_ok 20 l \<Longrightarrow> rt_inv st (RtNode l)"
  by (simp add: rt_inv_def RtNode_def)

lemma rt_wf_fields:
  "rt_wf st l dep ix t \<Longrightarrow> mDepth t = dep \<and> unat (mIndex t) = ix \<and> mLocalId t = l \<and> dep < 160"
  by (cases t) (auto simp: can_split_def)

text \<open>
  The bits of a distance that the table ever asks for: \<open>GetBit\<close> asserts that they exist.
\<close>

fun rt_depths :: "rtnode \<Rightarrow> nat list" where
  "rt_depths (Bucket d i l cs ca) = [d]"
| "rt_depths (Space d i l n0 n1) = d # rt_depths n0 @ rt_depths n1"

lemma rt_wf_depths: "rt_wf st l dep ix t \<Longrightarrow> \<forall>d \<in> set (rt_depths t). d < 160"
  by (induction t arbitrary: dep ix) (auto simp: can_split_def)

lemma entry_ok_ext: "store_ext st st' \<Longrightarrow> entry_ok st l dep ix p \<Longrightarrow> entry_ok st' l dep ix p"
  by (simp add: entry_ok_def store_extD)

lemma map_idof_ext:
  "store_ext st st' \<Longrightarrow> \<forall>p \<in> set ps. p < length st \<Longrightarrow> map (idof st') ps = map (idof st) ps"
  by (simp add: store_extD)

lemma rt_wf_ext: "store_ext st st' \<Longrightarrow> rt_wf st l dep ix t \<Longrightarrow> rt_wf st' l dep ix t"
proof (induction t arbitrary: dep ix)
  case (Bucket d i l' cs ca)
  have "distinct (map (idof st') ps) = distinct (map (idof st) ps)"
    if "\<forall>p \<in> set ps. entry_ok st l dep ix p" for ps
    by (rule arg_cong [where f = distinct], rule map_idof_ext [OF Bucket.prems(1)])
      (use that in \<open>simp add: entry_ok_def\<close>)
  with Bucket show ?case by (auto intro: entry_ok_ext)
next
  case (Space d i l' n0 n1)
  then show ?case by simp
qed

lemma rt_inv_ext: "store_ext st st' \<Longrightarrow> rt_inv st t \<Longrightarrow> rt_inv st' t"
  by (auto simp: rt_inv_def intro: rt_wf_ext)

lemma can_split_children:
  assumes "can_split dep ix" "ix < 8" "ix < 2 ^ dep"
  shows "Suc (2 * ix) < 8" "Suc (2 * ix) < 2 ^ Suc dep" "2 * ix < 2 ^ Suc dep" "Suc dep < 160"
proof -
  have "ix < 4"
  proof (cases "dep < 3")
    case True
    then have "dep = 0 \<or> dep = 1 \<or> dep = 2" by auto
    with assms(3) show ?thesis by auto
  next
    case False
    have "dep mod 2 = 0 \<or> dep mod 2 = 1" by auto
    with False assms(1) show ?thesis by (auto simp: can_split_def)
  qed
  with assms show "Suc (2 * ix) < 8" "Suc (2 * ix) < 2 ^ Suc dep" "2 * ix < 2 ^ Suc dep" "Suc dep < 160"
    by (auto simp: can_split_def)
qed

lemma child_index:
  assumes "unat (i :: u32) < 8"
  shows "unat (push_bit 1 i) = 2 * unat i" "unat (push_bit 1 i + 1) = Suc (2 * unat i)"
proof -
  have "push_bit 1 i = 2 * i" by (simp add: push_bit_eq_mult mult.commute)
  with assms show "unat (push_bit 1 i) = 2 * unat i" "unat (push_bit 1 i + 1) = Suc (2 * unat i)"
    by (simp_all add: unat_word_ariths)
qed

subsection \<open>Lists of contacts\<close>

lemma FindNodeById_loop_Some:
  "FindNodeById_loop st lst nid n = Some c \<Longrightarrow> c < n \<and> id_eq (idof st (lst ! c)) nid"
  by (induction n) (auto split: if_splits)

lemma FindNodeById_loop_None:
  "FindNodeById_loop st lst nid n = None \<longleftrightarrow> (\<forall>c < n. \<not> id_eq (idof st (lst ! c)) nid)"
  by (induction n) (auto simp: less_Suc_eq)

lemma FindNodeById_SomeD:
  assumes "FindNodeById st lst nid = Some c" "id_ok n nid" "\<forall>p \<in> set lst. id_ok n (idof st p)"
  shows "c < length lst" "idof st (lst ! c) = nid"
  using FindNodeById_loop_Some [of st lst nid "length lst" c] assms
  by (auto simp: FindNodeById_def id_eq_iff [of n])

lemma FindNodeById_NoneD:
  assumes "FindNodeById st lst nid = None" "id_ok n nid" "\<forall>p \<in> set lst. id_ok n (idof st p)"
  shows "nid \<notin> idof st ` set lst"
proof
  assume "nid \<in> idof st ` set lst"
  then obtain i where i: "i < length lst" "nid = idof st (lst ! i)"
    by (auto simp: in_set_conv_nth)
  with assms(1) have "\<not> id_eq nid nid"
    by (simp add: FindNodeById_def FindNodeById_loop_None)
  with assms(2) show False by (simp add: id_eq_iff [of n])
qed

lemma FindNodeById_Some_iff:
  assumes "id_ok n nid" "\<forall>p \<in> set lst. id_ok n (idof st p)"
  shows "(\<exists>c. FindNodeById st lst nid = Some c) \<longleftrightarrow> nid \<in> idof st ` set lst"
  using assms FindNodeById_NoneD [of st lst nid n] FindNodeById_SomeD [of st lst nid _ n]
  by (cases "FindNodeById st lst nid") (auto intro!: image_eqI nth_mem)

lemma entries_id_ok: "\<forall>p \<in> set ps. entry_ok st l dep ix p \<Longrightarrow> \<forall>p \<in> set ps. id_ok 20 (idof st p)"
  by (simp add: entry_ok_def in_range_def)

lemma distinct_map_move:
  assumes "distinct (map f l)" "i < length l"
  shows "distinct (map f (take i l @ drop (Suc i) l @ [l ! i]))"
proof -
  have "distinct (map f (take i l @ l ! i # drop (Suc i) l))"
    using assms by (simp flip: id_take_nth_drop)
  then show ?thesis by auto
qed

lemma distinct_map_remove:
  assumes "distinct (map f l)" "i < length l"
  shows "distinct (map f (take i l @ drop (Suc i) l))"
    and "f (l ! i) \<notin> f ` set (take i l @ drop (Suc i) l)"
proof -
  have "distinct (map f (take i l @ l ! i # drop (Suc i) l))"
    using assms by (simp flip: id_take_nth_drop)
  then show "distinct (map f (take i l @ drop (Suc i) l))"
    "f (l ! i) \<notin> f ` set (take i l @ drop (Suc i) l)" by auto
qed

subsection \<open>Splitting\<close>

lemma Split_contacts_eq:
  assumes "xlist_ok X"
  shows "Split_contacts X st l d ps (c0, c1) =
    (c0 @ filter (\<lambda>p. \<not> ClosestIs1 (id_xor l (idof st p)) d) ps,
     c1 @ filter (\<lambda>p. ClosestIs1 (id_xor l (idof st p)) d) ps)"
  using assms by (induction ps arbitrary: c0 c1) (simp_all add: xl_simps)

text \<open>
  The split of a well-formed full bucket: its cache is empty, so the second loop of \<open>Split\<close>
  has nothing to do, and the contacts are partitioned by their next distance bit.
\<close>

lemma Split_eq:
  assumes X: "xlist_ok X" and wf: "rt_wf st l dep ix (Bucket d i l' cs ca)"
    and full: "KADEMLIA_BUCKET_SIZE \<le> length cs"
  defines "b \<equiv> \<lambda>p. ClosestIs1 (id_xor l (idof st p)) dep"
  shows "Split X st d i l' cs ca =
    (if can_split dep ix
     then Some (Space d i l' (Bucket (Suc d) (push_bit 1 i) l' (filter (\<lambda>p. \<not> b p) cs) [])
                  (Bucket (Suc d) (push_bit 1 i + 1) l' (filter b cs) []))
     else None)"
  using assms by (auto simp: Split_def IsSplittable_iff Split_contacts_eq)

lemma Split_wf:
  assumes X: "xlist_ok X" and l: "id_ok 20 l" and wf: "rt_wf st l dep ix (Bucket d i l' cs ca)"
    and full: "KADEMLIA_BUCKET_SIZE \<le> length cs" and n: "Split X st d i l' cs ca = Some n"
  shows "rt_wf st l dep ix n" "set (rt_contacts n) = set cs" "rt_cached n = []" "ca = []"
proof -
  let ?b = "\<lambda>p. ClosestIs1 (id_xor l (idof st p)) dep"
  have c: "can_split dep ix" and neq: "n = Space d i l' (Bucket (Suc d) (push_bit 1 i) l' (filter (\<lambda>p. \<not> ?b p) cs) [])
      (Bucket (Suc d) (push_bit 1 i + 1) l' (filter ?b cs) [])"
    using Split_eq [OF X wf full] n by (auto split: if_splits)
  have f: "d = dep" "unat i = ix" "l' = l" "ix < 8" "ix < 2 ^ dep" "dep < 160"
    "length cs \<le> 16" "\<forall>p \<in> set cs. entry_ok st l dep ix p" "distinct (map (idof st) cs)"
    using wf by auto
  have "entry_ok st l (Suc dep) (2 * ix) p" if "p \<in> set cs" "\<not> ?b p" for p
    using f(6,8) that l by (auto simp: entry_ok_def in_range_child_iff)
  moreover have "entry_ok st l (Suc dep) (Suc (2 * ix)) p" if "p \<in> set cs" "?b p" for p
    using f(6,8) that l by (auto simp: entry_ok_def in_range_child_iff)
  moreover have "length (filter P cs) \<le> 16" for P
    using f(7) length_filter_le [of P cs] by linarith
  ultimately show "rt_wf st l dep ix n"
    using can_split_children [OF c f(4,5)] child_index [of i] f c
    by (simp add: neq distinct_map_filter)
  show "set (rt_contacts n) = set cs" "rt_cached n = []" "ca = []"
    using c wf by (auto simp: neq)
qed

subsection \<open>Adding a contact\<close>

text \<open>What one call of \<open>AddNode\<close> establishes.\<close>

definition add_post :: "'a cstore \<Rightarrow> rtnode \<Rightarrow> kad_id \<Rightarrow> kad_id \<Rightarrow> nat \<Rightarrow> nat \<Rightarrow>
    'a cstore \<times> rtnode \<times> cptr \<Rightarrow> bool" where
  "add_post st t nid l dep ix r \<longleftrightarrow>
     (case r of (st', t', p) \<Rightarrow>
       rt_wf st' l dep ix t' \<and> store_ext st st' \<and> p < length st' \<and> idof st' p = nid \<and>
       set (rt_contacts t) \<subseteq> set (rt_contacts t') \<and>
       set (rt_contacts t') \<subseteq> insert p (set (rt_contacts t)) \<and>
       (p \<in> set (rt_contacts t') \<or> p \<in> set (rt_cached t')) \<and>
       (nid \<in> idof st ` set (rt_contacts t) \<longrightarrow> st' = st \<and> p \<in> set (rt_contacts t)))"

lemma add_post_move:
  assumes X: "xlist_ok X" and wf: "rt_wf st l dep ix (Bucket d i l' cs ca)"
    and c: "c < length cs" "idof st (cs ! c) = nid"
  shows "add_post st (Bucket d i l' cs ca) nid l dep ix
    (st, Bucket d i l' (Append X (snd (RemoveAt X cs c)) (fst (RemoveAt X cs c))) ca, cs ! c)"
proof -
  have s: "set (take c cs @ drop (Suc c) cs @ [cs ! c]) = set cs"
    using c(1) by (rule set_move_to_back)
  have dm: "distinct (map (idof st) (take c cs @ drop (Suc c) cs @ [cs ! c]))"
    using wf c(1) by (intro distinct_map_move) auto
  have len: "length (take c cs @ drop (Suc c) cs @ [cs ! c]) = length cs"
    using c(1) by simp
  have e: "entry_ok st l dep ix (cs ! c)" using wf c(1) by simp
  show ?thesis
    unfolding add_post_def using X c wf s dm len e
    by (simp add: xl_simps entry_ok_def subset_insertI del: set_append length_append map_append)
qed

lemma add_post_new:
  assumes X: "xlist_ok X" and wf: "rt_wf st l dep ix (Bucket d i l' cs ca)"
    and nid: "in_range l dep ix nid" "nid \<notin> idof st ` set cs" and len: "length cs < 16"
  shows "add_post st (Bucket d i l' cs ca) nid l dep ix
    (st @ [KadContact nid addr], Bucket d i l' (Append X cs (length st)) ca, length st)"
proof -
  let ?st = "st @ [KadContact nid addr]"
  have wf': "rt_wf ?st l dep ix (Bucket d i l' cs ca)"
    by (rule rt_wf_ext [OF _ wf]) simp
  have "idof ?st p = idof st p" if "p \<in> set cs" for p
    using wf that by (auto simp: entry_ok_def store_simps)
  then have im: "idof ?st ` set cs = idof st ` set cs" by auto
  have e: "entry_ok ?st l dep ix (length st)"
    using nid by (simp add: entry_ok_def store_simps)
  show ?thesis
    unfolding add_post_def using X wf' nid len e im
    by (simp add: xl_simps store_simps subset_insertI)
qed

lemma AddToCache_spec:
  assumes X: "xlist_ok X" and wf: "rt_wf st l dep ix (Bucket d i l' cs ca)"
    and nid: "in_range l dep ix nid" and nc: "\<not> can_split dep ix"
    and r: "AddToCache X st ca nid addr = (st', ca', p)"
  shows "rt_wf st' l dep ix (Bucket d i l' cs ca') \<and> store_ext st st' \<and> p < length st' \<and>
    idof st' p = nid \<and> p \<in> set ca'"
proof -
  let ?st = "st @ [KadContact nid addr]"
  have okid: "id_ok 20 nid" using nid by (simp add: in_range_def)
  have okca: "\<forall>p \<in> set ca. id_ok 20 (idof st p)"
    using wf by (intro entries_id_ok) auto
  have new: "rt_wf ?st l dep ix (Bucket d i l' cs (ca1 @ [length st]))"
    if "set ca1 \<subseteq> set ca" "distinct (map (idof st) ca1)" "length ca1 < 8" "nid \<notin> idof st ` set ca" for ca1
  proof -
    have w: "rt_wf ?st l dep ix (Bucket d i l' cs ca)"
      by (rule rt_wf_ext [OF _ wf]) simp
    have same: "idof ?st p = idof st p" if "p \<in> set ca" for p
      using wf that by (auto simp: entry_ok_def store_simps)
    have "map (idof ?st) ca1 = map (idof st) ca1"
      using same that(1) by auto
    then have dm: "distinct (map (idof ?st) ca1)"
      using that(2) by (rule ssubst)
    have nin: "nid \<notin> idof ?st ` set ca1"
      using same that(1,4) by auto
    have e: "\<forall>p \<in> set ca1. entry_ok ?st l dep ix p" "entry_ok ?st l dep ix (length st)"
      using w that(1) nid by (auto simp: entry_ok_def store_simps)
    from w dm nin e that(3) nc show ?thesis
      by (simp add: store_simps)
  qed
  show ?thesis
  proof (cases "FindNodeById st ca nid")
    case (Some c)
    then have c: "c < length ca" "idof st (ca ! c) = nid"
      using FindNodeById_SomeD [OF _ okid okca] by blast+
    have s: "set (take c ca @ drop (Suc c) ca @ [ca ! c]) = set ca"
      using c(1) by (rule set_move_to_back)
    have dm: "distinct (map (idof st) (take c ca @ drop (Suc c) ca @ [ca ! c]))"
      using wf c(1) by (intro distinct_map_move) auto
    have len: "length (take c ca @ drop (Suc c) ca @ [ca ! c]) = length ca"
      using c(1) by simp
    have e: "entry_ok st l dep ix (ca ! c)" using wf c(1) by simp
    have p: "st' = st" "p = ca ! c" "ca' = take c ca @ drop (Suc c) ca @ [ca ! c]"
      using r Some X c(1) by (auto simp: AddToCache_def xl_simps)
    have "ca \<noteq> []" using c(1) by auto
    with p s dm len e c wf nc show ?thesis
      by (simp add: entry_ok_def del: set_append length_append map_append)
  next
    case None
    then have nin: "nid \<notin> idof st ` set ca"
      using FindNodeById_NoneD [OF _ okid okca] by blast
    show ?thesis
    proof (cases "length ca < 8")
      case True
      have p: "st' = ?st" "p = length st" "ca' = ca @ [length st]"
        using r None True X by (auto simp: AddToCache_def NewContact_def xl_simps)
      have "rt_wf ?st l dep ix (Bucket d i l' cs (ca @ [length st]))"
        using wf nin True by (intro new) auto
      with p show ?thesis by (simp add: store_simps)
    next
      case False
      then have ne: "ca \<noteq> []" "length (tl ca) < 8" using wf by auto
      have p: "st' = ?st" "p = length st" "ca' = tl ca @ [length st]"
        using r None False X ne by (auto simp: AddToCache_def NewContact_def xl_simps)
      have "distinct (map (idof st) (tl ca))"
        using wf by (simp add: map_tl distinct_tl)
      then have "rt_wf ?st l dep ix (Bucket d i l' cs (tl ca @ [length st]))"
        using nin ne by (intro new) (auto simp: list.set_sel(2))
      with p show ?thesis by (simp add: store_simps)
    qed
  qed
qed

lemma add_post_cache:
  assumes X: "xlist_ok X" and wf: "rt_wf st l dep ix (Bucket d i l' cs ca)"
    and nid: "in_range l dep ix nid" "nid \<notin> idof st ` set cs" and nc: "\<not> can_split dep ix"
    and r: "AddToCache X st ca nid addr = (st', ca', p)"
  shows "add_post st (Bucket d i l' cs ca) nid l dep ix (st', Bucket d i l' cs ca', p)"
  using AddToCache_spec [OF X wf nid(1) nc r] nid(2) by (auto simp: add_post_def)

lemma add_post_child:
  assumes r: "add_post st n nid l (Suc dep) ix' (st', n', p)"
    and wf: "rt_wf st l dep ix (Space d i l' n0 n1)"
    and other: "nid \<notin> idof st ` set (rt_contacts m)"
    and ch: "n = n0 \<and> m = n1 \<and> ix' = 2 * ix \<and> t' = Space d i l' n' n1 \<or>
             n = n1 \<and> m = n0 \<and> ix' = Suc (2 * ix) \<and> t' = Space d i l' n0 n'"
  shows "add_post st (Space d i l' n0 n1) nid l dep ix (st', t', p)"
proof -
  have ext: "store_ext st st'" using r by (simp add: add_post_def)
  have "rt_wf st' l (Suc dep) (2 * ix) n0" "rt_wf st' l (Suc dep) (Suc (2 * ix)) n1"
    using wf ext by (auto intro: rt_wf_ext)
  with r wf ch other show ?thesis
    by (elim disjE) (auto simp: add_post_def image_Un)
qed

lemma rt_wf_entries: "rt_wf st l dep ix t \<Longrightarrow> id_ok 20 l \<Longrightarrow> p \<in> set (rt_contacts t) \<Longrightarrow> entry_ok st l dep ix p"
proof (induction t arbitrary: dep ix)
  case (Bucket d i l' cs ca)
  then show ?case by auto
next
  case (Space d i l' n0 n1)
  have up: "entry_ok st l (Suc dep) ix' p \<Longrightarrow> ix' div 2 = ix \<Longrightarrow> dep < 160 \<Longrightarrow> entry_ok st l dep ix p" for ix'
  proof -
    assume e: "entry_ok st l (Suc dep) ix' p" and q: "ix' div 2 = ix" and "dep < 160"
    have "Suc (160 - Suc dep) = 160 - dep" using \<open>dep < 160\<close> by simp
    then have "x div 2 ^ (160 - dep) = x div 2 ^ (160 - Suc dep) div 2" for x :: nat
      by (metis div_exp_eq plus_1_eq_Suc power_one_right add.commute)
    with e q show ?thesis by (simp add: entry_ok_def in_range_def)
  qed
  have d: "dep < 160" using Space.prems(1) by (simp add: can_split_def)
  show ?case
  proof (cases "p \<in> set (rt_contacts n0)")
    case True
    then have "entry_ok st l (Suc dep) (2 * ix) p"
      using Space.IH(1) Space.prems by simp
    then show ?thesis by (rule up) (use d in simp_all)
  next
    case False
    then have "entry_ok st l (Suc dep) (Suc (2 * ix)) p"
      using Space.IH(2) Space.prems by simp
    then show ?thesis by (rule up) (use d in simp_all)
  qed
qed

lemma AddNode_post:
  assumes "xlist_ok X" "id_ok 20 l" "rt_wf st l dep ix t" "in_range l dep ix nid"
    "dist = id_xor nid l"
  shows "add_post st t nid l dep ix (AddNode X st t nid addr dist)"
  using assms
proof (induction X st t nid addr dist arbitrary: dep ix rule: AddNode.induct)
  case (1 X st d i l' n0 n1 nid addr dist)
  note X = "1.prems"(1) and l = "1.prems"(2) and wf = "1.prems"(3) and nr = "1.prems"(4)
  have f: "d = dep" "dep < 160" "rt_wf st l (Suc dep) (2 * ix) n0" "rt_wf st l (Suc dep) (Suc (2 * ix)) n1"
    using wf by (auto simp: can_split_def)
  have dist: "dist = id_xor l nid" using "1.prems"(5) by (simp add: id_xor_commute)
  have in0: "in_range l (Suc dep) (2 * ix) nid \<longleftrightarrow> \<not> ClosestIs1 dist dep"
    and in1: "in_range l (Suc dep) (Suc (2 * ix)) nid \<longleftrightarrow> ClosestIs1 dist dep"
    using in_range_child_iff [OF nr l f(2)] dist by simp_all
  have out: "nid \<notin> idof st ` set (rt_contacts n)" if "rt_wf st l (Suc dep) j n" "\<not> in_range l (Suc dep) j nid" for j n
    using rt_wf_entries [OF that(1) l] that(2) by (auto simp: entry_ok_def)
  show ?case
  proof (cases "ClosestIs1 dist d")
    case True
    obtain st' n p where r: "AddNode X st n1 nid addr dist = (st', n, p)"
      by (metis prod_cases3)
    have "add_post st n1 nid l (Suc dep) (Suc (2 * ix)) (st', n, p)"
      using "1.IH"(1) [OF True X l f(4)] in1 True f(1) "1.prems"(5) r by simp
    then have "add_post st (Space d i l' n0 n1) nid l dep ix (st', Space d i l' n0 n, p)"
      by (rule add_post_child [OF _ wf out [OF f(3)]]) (use in0 True f(1) in auto)
    with True r show ?thesis by simp
  next
    case False
    obtain st' n p where r: "AddNode X st n0 nid addr dist = (st', n, p)"
      by (metis prod_cases3)
    have "add_post st n0 nid l (Suc dep) (2 * ix) (st', n, p)"
      using "1.IH"(2) [OF False X l f(3)] in0 False f(1) "1.prems"(5) r by simp
    then have "add_post st (Space d i l' n0 n1) nid l dep ix (st', Space d i l' n n1, p)"
      by (rule add_post_child [OF _ wf out [OF f(4)]]) (use in1 False f(1) in auto)
    with False r show ?thesis by simp
  qed
next
  case (2 X st d i l' cs ca nid addr dist)
  note X = "2.prems"(1) and l = "2.prems"(2) and wf = "2.prems"(3) and nr = "2.prems"(4)
  have okid: "id_ok 20 nid" using nr by (simp add: in_range_def)
  have okcs: "\<forall>p \<in> set cs. id_ok 20 (idof st p)"
    using wf by (intro entries_id_ok) auto
  show ?case
  proof (cases "FindNodeById st cs nid")
    case (Some c)
    then have "c < length cs" "idof st (cs ! c) = nid"
      using FindNodeById_SomeD [OF _ okid okcs] by blast+
    from add_post_move [OF X wf this] Some show ?thesis
      by (cases "RemoveAt X cs c") (simp add: Let_def)
  next
    case None
    then have nin: "nid \<notin> idof st ` set cs"
      using FindNodeById_NoneD [OF _ okid okcs] by blast
    show ?thesis
    proof (cases "length cs < 16")
      case True
      with None add_post_new [OF X wf nr nin True] show ?thesis
        by (simp add: NewContact_def)
    next
      case False
      then have full: "16 \<le> length cs" by simp
      show ?thesis
      proof (cases "Split X st d i l' cs ca")
        case (Some n)
        note s = Split_wf [OF X l wf full Some]
        have "add_post st n nid l dep ix (AddNode X st n nid addr dist)"
          by (rule "2.IH" [OF None False Some X l s(1) nr "2.prems"(5)])
        then have "add_post st (Bucket d i l' cs ca) nid l dep ix (AddNode X st n nid addr dist)"
          using s(2) by (simp add: add_post_def)
        with None False Some show ?thesis by simp
      next
        case no: None
        then have nc: "\<not> can_split dep ix"
          using Split_eq [OF X wf full] by (auto split: if_splits)
        obtain st' ca' p where r: "AddToCache X st ca nid addr = (st', ca', p)"
          by (metis prod_cases3)
        from add_post_cache [OF X wf nr nin nc r] None False no r show ?thesis by simp
      qed
    qed
  qed
qed

end
