(* ===== verification/RtNodeQuery.thy ===== *)
theory RtNodeQuery
  imports RtNodeSpec
begin

section \<open>Queries and removal on the routing table\<close>

text \<open>
  For a well-formed node of \<open>KadRtNode\<close>: \<open>FindNode\<close> finds exactly the contact with the
  identifier, \<open>RemoveNode\<close> takes it out, \<open>FindClosest\<close> returns as many live contacts as asked
  for (or all there are) and exhausts nearer buckets before farther ones, and the counters of
  \<open>GetStats\<close> add up. The number of buckets is bounded by the shape that \<open>IsSplittable\<close> allows.
\<close>

subsection \<open>Distinct identifiers\<close>

lemma rt_wf_disjoint:
  assumes "rt_wf st l dep ix (Space d i l' n0 n1)" "id_ok 20 l"
    and "p \<in> set (rt_contacts n0)" "q \<in> set (rt_contacts n1)"
  shows "idof st p \<noteq> idof st q"
proof -
  have "entry_ok st l (Suc dep) (2 * ix) p" "entry_ok st l (Suc dep) (Suc (2 * ix)) q"
    using assms rt_wf_entries by auto
  then show ?thesis by (auto simp: entry_ok_def in_range_def)
qed

lemma rt_wf_distinct: "rt_wf st l dep ix t \<Longrightarrow> id_ok 20 l \<Longrightarrow> distinct (map (idof st) (rt_contacts t))"
proof (induction t arbitrary: dep ix)
  case (Bucket d i l' cs ca)
  then show ?case by simp
next
  case (Space d i l' n0 n1)
  have "idof st ` set (rt_contacts n0) \<inter> idof st ` set (rt_contacts n1) = {}"
    using rt_wf_disjoint [OF Space.prems] by auto
  moreover have "distinct (map (idof st) (rt_contacts n0))"
    by (rule Space.IH(1)) (use Space.prems in auto)
  moreover have "distinct (map (idof st) (rt_contacts n1))"
    by (rule Space.IH(2)) (use Space.prems in auto)
  ultimately show ?case by simp
qed

lemma rt_wf_distinct_ptrs: "rt_wf st l dep ix t \<Longrightarrow> id_ok 20 l \<Longrightarrow> distinct (rt_contacts t)"
  using rt_wf_distinct distinct_map by blast

lemma rt_wf_side:
  assumes wf: "rt_wf st l dep ix (Space d i l' n0 n1)" and l: "id_ok 20 l"
  shows "p \<in> set (rt_contacts n1) \<Longrightarrow> ClosestIs1 (id_xor l (idof st p)) d"
    and "p \<in> set (rt_contacts n0) \<Longrightarrow> \<not> ClosestIs1 (id_xor l (idof st p)) d"
proof -
  have f: "d = dep" "dep < 160" using wf by (auto simp: can_split_def)
  have e: "in_range l dep ix (idof st p)" if "p \<in> set (rt_contacts n0) \<union> set (rt_contacts n1)"
    using rt_wf_entries [OF wf l, of p] that by (auto simp: entry_ok_def)
  show "ClosestIs1 (id_xor l (idof st p)) d" if "p \<in> set (rt_contacts n1)"
    using rt_wf_entries [of st l "Suc dep" "Suc (2 * ix)" n1 p] in_range_child_iff(2) [OF e l f(2)]
      that wf l f(1) by (simp add: entry_ok_def)
  show "\<not> ClosestIs1 (id_xor l (idof st p)) d" if "p \<in> set (rt_contacts n0)"
    using rt_wf_entries [of st l "Suc dep" "2 * ix" n0 p] in_range_child_iff(1) [OF e l f(2)]
      that wf l f(1) by (simp add: entry_ok_def)
qed

subsection \<open>FindNode and RemoveNode\<close>

lemma FindNode_loop_Some:
  assumes "id_ok 20 nid" "\<forall>p \<in> set ps. id_ok 20 (idof st p)" "distinct (map (idof st) ps)"
  shows "FindNode_loop st ps nid = Some p \<longleftrightarrow> p \<in> set ps \<and> idof st p = nid"
  using assms by (induction ps) (auto simp: id_eq_iff [of 20])

lemma FindNode_iff:
  assumes "rt_wf st l dep ix t" "id_ok 20 l" "id_ok 20 nid" "dist = id_xor nid l"
  shows "FindNode st t nid dist = Some p \<longleftrightarrow> p \<in> set (rt_contacts t) \<and> idof st p = nid"
  using assms
proof (induction t arbitrary: dep ix)
  case (Bucket d i l' cs ca)
  then show ?case
    using entries_id_ok [of cs st l dep ix] by (simp add: FindNode_loop_Some)
next
  case (Space d i l' n0 n1)
  have x: "dist = id_xor l nid" using Space.prems(4) by (simp add: id_xor_commute)
  have side: "p \<in> set (rt_contacts n1) \<Longrightarrow> idof st p = nid \<Longrightarrow> ClosestIs1 dist d"
    "p \<in> set (rt_contacts n0) \<Longrightarrow> idof st p = nid \<Longrightarrow> \<not> ClosestIs1 dist d"
    using rt_wf_side [OF Space.prems(1,2), of p] x by auto
  have "FindNode st n0 nid dist = Some p \<longleftrightarrow> p \<in> set (rt_contacts n0) \<and> idof st p = nid"
    by (rule Space.IH(1)) (use Space.prems in auto)
  moreover have "FindNode st n1 nid dist = Some p \<longleftrightarrow> p \<in> set (rt_contacts n1) \<and> idof st p = nid"
    by (rule Space.IH(2)) (use Space.prems in auto)
  ultimately show ?case using side by auto
qed

lemma Bucket_remove_contact:
  assumes wf: "rt_wf st l dep ix (Bucket d i l' cs ca)" and c: "c < length cs"
  defines "r \<equiv> take c cs @ drop (Suc c) cs"
  shows "rt_wf st l dep ix (Bucket d i l' r ca)" "set r = {p \<in> set cs. idof st p \<noteq> idof st (cs ! c)}"
proof -
  have dm: "distinct (map (idof st) r)" and nin: "idof st (cs ! c) \<notin> idof st ` set r"
    unfolding r_def using wf c by (intro distinct_map_remove; simp)+
  have s: "set r = set cs - {cs ! c}"
    unfolding r_def using wf c by (intro distinct_remove_at) (auto simp: distinct_map)
  then show "set r = {p \<in> set cs. idof st p \<noteq> idof st (cs ! c)}"
    using nin by (auto simp: image_iff dest: not_sym)
  have "length r \<le> length cs" using c by (simp add: r_def)
  with s dm wf show "rt_wf st l dep ix (Bucket d i l' r ca)" by simp
qed

lemma Bucket_remove_cached:
  assumes wf: "rt_wf st l dep ix (Bucket d i l' cs ca)" and c: "c < length ca"
  shows "rt_wf st l dep ix (Bucket d i l' cs (take c ca @ drop (Suc c) ca))"
proof -
  let ?r = "take c ca @ drop (Suc c) ca"
  have "distinct (map (idof st) ?r)"
    using wf c by (intro distinct_map_remove; simp)
  moreover have "length ?r \<le> length ca" using c by simp
  moreover have "\<forall>p \<in> set ?r. entry_ok st l dep ix p"
    using set_remove_at [of c ca] wf by auto
  moreover have "ca \<noteq> []" using c by auto
  ultimately show ?thesis
    using wf by (simp del: set_append length_append map_append)
qed

lemma rt_wf_remove:
  assumes X: "xlist_ok X" and wf: "rt_wf st l dep ix t" and ok: "id_ok 20 l" "id_ok 20 nid"
    and dist: "dist = id_xor nid l" and r: "RemoveNode X st t nid dist = (t', b)"
  shows "rt_wf st l dep ix t' \<and> set (rt_contacts t') = {p \<in> set (rt_contacts t). idof st p \<noteq> nid} \<and>
    (nid \<in> idof st ` set (rt_contacts t) \<longrightarrow> b) \<and> (\<not> b \<longrightarrow> t' = t)"
  using wf r dist
proof (induction t arbitrary: dep ix t' b)
  case (Bucket d i l' cs ca)
  note wf = Bucket.prems(1)
  have okcs: "\<forall>p \<in> set cs. id_ok 20 (idof st p)" "\<forall>p \<in> set ca. id_ok 20 (idof st p)"
    using wf entries_id_ok [of cs st l dep ix] entries_id_ok [of ca st l dep ix] by simp_all
  show ?case
  proof (cases "FindNodeById st cs nid")
    case (Some c)
    then have c: "c < length cs" "idof st (cs ! c) = nid"
      using FindNodeById_SomeD [OF _ ok(2) okcs(1)] by blast+
    have t': "t' = Bucket d i l' (take c cs @ drop (Suc c) cs) ca" "b"
      using Bucket.prems(2) Some X c(1) by (auto simp: xl_simps)
    from Bucket_remove_contact [OF wf c(1)] c(2) t' show ?thesis
      by (simp del: rt_wf.simps set_append)
  next
    case None
    then have nin: "nid \<notin> idof st ` set cs"
      using FindNodeById_NoneD [OF _ ok(2) okcs(1)] by blast
    then have all: "{p \<in> set cs. idof st p \<noteq> nid} = set cs" by auto
    show ?thesis
    proof (cases "FindNodeById st ca nid")
      case (Some c)
      then have c: "c < length ca"
        using FindNodeById_SomeD [OF _ ok(2) okcs(2)] by blast
      have "t' = Bucket d i l' cs (take c ca @ drop (Suc c) ca)" "b"
        using Bucket.prems(2) None Some X c(1) by (auto simp: xl_simps)
      with Bucket_remove_cached [OF wf c] all nin show ?thesis
        by (simp del: rt_wf.simps set_append)
    next
      case no: None
      then have "t' = Bucket d i l' cs ca" "\<not> b"
        using Bucket.prems(2) None by auto
      with wf all nin show ?thesis by (simp del: rt_wf.simps)
    qed
  qed
next
  case (Space d i l' n0 n1)
  have x: "dist = id_xor l nid" using Space.prems(3) by (simp add: id_xor_commute)
  note side = rt_wf_side [OF Space.prems(1) ok(1)]
  have wf0: "rt_wf st l (Suc dep) (2 * ix) n0" and wf1: "rt_wf st l (Suc dep) (Suc (2 * ix)) n1"
    using Space.prems(1) by auto
  show ?case
  proof (cases "ClosestIs1 dist d")
    case True
    obtain n c where r: "RemoveNode X st n1 nid dist = (n, c)" by fastforce
    have t': "t' = Space d i l' n0 n" "b = c" using Space.prems(2) True r by simp_all
    have nin: "nid \<notin> idof st ` set (rt_contacts n0)" using side(2) True x by auto
    then have "{p \<in> set (rt_contacts n0). idof st p \<noteq> nid} = set (rt_contacts n0)" by auto
    moreover note Space.IH(2) [OF wf1 r Space.prems(3)]
    ultimately show ?thesis using Space.prems(1) nin unfolding t' by (auto simp: image_Un)
  next
    case False
    obtain n c where r: "RemoveNode X st n0 nid dist = (n, c)" by fastforce
    have t': "t' = Space d i l' n n1" "b = c" using Space.prems(2) False r by simp_all
    have nin: "nid \<notin> idof st ` set (rt_contacts n1)" using side(1) False x by auto
    then have "{p \<in> set (rt_contacts n1). idof st p \<noteq> nid} = set (rt_contacts n1)" by auto
    moreover note Space.IH(1) [OF wf0 r Space.prems(3)]
    ultimately show ?thesis using Space.prems(1) nin unfolding t' by (auto simp: image_Un)
  qed
qed

subsection \<open>FindClosest\<close>

definition live :: "'a cstore \<Rightarrow> cptr list \<Rightarrow> cptr list" where
  "live st ps = filter (\<lambda>p. \<not> IsStale (st ! p)) ps"

lemma Replace_loop_spec:
  assumes "xlist_ok X" "\<forall>j \<in> set jts. j < length res" "distinct res" "p \<notin> set res"
  shows "length (Replace_loop X st nid p jts res) = length res \<and>
    distinct (Replace_loop X st nid p jts res) \<and>
    set (Replace_loop X st nid p jts res) \<subseteq> insert p (set res)"
  using assms
proof (induction jts)
  case Nil
  then show ?case by auto
next
  case (Cons j jts)
  then show ?case
    using set_update_subset_insert [of res j p]
    by (auto simp: xl_simps distinct_list_update)
qed

lemma FindClosest_loop_spec:
  assumes X: "xlist_ok X" and "distinct (res @ ps)" "length res \<le> qty"
  shows "distinct (FindClosest_loop X st nid qty ps res) \<and>
    set (FindClosest_loop X st nid qty ps res) \<subseteq> set res \<union> set (live st ps) \<and>
    length (FindClosest_loop X st nid qty ps res) = min qty (length res + length (live st ps)) \<and>
    (length res + length (live st ps) \<le> qty \<longrightarrow>
       FindClosest_loop X st nid qty ps res = res @ live st ps)"
  using assms(2,3)
proof (induction ps arbitrary: res)
  case Nil
  then show ?case by (simp add: live_def)
next
  case (Cons p ps)
  show ?case
  proof (cases "IsStale (st ! p)")
    case True
    with Cons show ?thesis by (simp add: live_def)
  next
    case alive: False
    show ?thesis
    proof (cases "length res < qty")
      case True
      have "distinct ((res @ [p]) @ ps)" "length (res @ [p]) \<le> qty"
        using Cons.prems True by auto
      from Cons.IH [OF this] True alive X show ?thesis
        by (auto simp: xl_simps live_def)
    next
      case False
      let ?r = "Replace_loop X st nid p [0..<length res] res"
      have r: "length ?r = length res" "distinct ?r" "set ?r \<subseteq> insert p (set res)"
        using Replace_loop_spec [OF X, of "[0..<length res]" res p st nid] Cons.prems(1) by auto
      then have "distinct (?r @ ps)" "length ?r \<le> qty"
        using Cons.prems by auto
      from Cons.IH [OF this] r False alive Cons.prems(2) show ?thesis
        by (auto simp: live_def)
    qed
  qed
qed

text \<open>The part of the tree that is searched first, and the rest.\<close>

lemma FindClosest_Space:
  assumes "xlist_ok X" "0 < qty"
  shows "FindClosest X st (Space d i l n0 n1) nid dist qty =
    (let (c, f) = (if ClosestIs1 dist d then (n1, n0) else (n0, n1));
         res = FindClosest X st c nid dist qty
     in res @ (if length res < qty then FindClosest X st f nid dist (qty - length res) else []))"
  using assms by (cases "ClosestIs1 dist d") (simp_all add: Let_def xl_simps)

declare FindClosest.simps(1) [simp del]

lemma FindClosest_spec:
  assumes X: "xlist_ok X" and "rt_wf st l dep ix t" "id_ok 20 l"
  shows "distinct (FindClosest X st t nid dist qty) \<and>
    set (FindClosest X st t nid dist qty) \<subseteq> set (live st (rt_contacts t)) \<and>
    length (FindClosest X st t nid dist qty) = min qty (length (live st (rt_contacts t)))"
  using assms(2,3)
proof (induction t arbitrary: dep ix qty)
  case (Bucket d i l' cs ca)
  have "distinct cs" using rt_wf_distinct_ptrs [OF Bucket.prems] by simp
  then show ?case
    using FindClosest_loop_spec [OF X, of "[]" cs qty st nid] by simp
next
  case (Space d i l' n0 n1)
  have wf: "rt_wf st l (Suc dep) (2 * ix) n0" "rt_wf st l (Suc dep) (Suc (2 * ix)) n1"
    using Space.prems(1) by auto
  have dj: "set (rt_contacts n0) \<inter> set (rt_contacts n1) = {}"
    using rt_wf_disjoint [OF Space.prems] by auto
  show ?case
  proof (cases "qty = 0")
    case True
    then show ?thesis by (simp add: FindClosest.simps(1))
  next
    case False
    note IH0 = Space.IH(1) [OF wf(1) Space.prems(2)]
    note IH1 = Space.IH(2) [OF wf(2) Space.prems(2)]
    define c f where "c = (if ClosestIs1 dist d then n1 else n0)"
      and "f = (if ClosestIs1 dist d then n0 else n1)"
    define r1 where "r1 = FindClosest X st c nid dist qty"
    define r2 where "r2 = (if length r1 < qty then FindClosest X st f nid dist (qty - length r1) else [])"
    have eq: "FindClosest X st (Space d i l' n0 n1) nid dist qty = r1 @ r2"
      using FindClosest_Space [OF X, of qty st d i l' n0 n1 nid dist] False
      by (simp add: r1_def r2_def c_def f_def Let_def)
    let ?L = "\<lambda>n. live st (rt_contacts n)"
    have c: "distinct r1 \<and> set r1 \<subseteq> set (?L c) \<and> length r1 = min qty (length (?L c))"
      using IH0 IH1 by (simp add: r1_def c_def)
    have f: "distinct r2 \<and> set r2 \<subseteq> set (?L f) \<and> length r2 = min (qty - length r1) (length (?L f))"
      using IH0 IH1 by (simp add: r2_def f_def)
    have "set (?L c) \<inter> set (?L f) = {}"
      using dj by (auto simp: live_def c_def f_def)
    moreover have "set (?L (Space d i l' n0 n1)) = set (?L c) \<union> set (?L f)"
      "length (?L (Space d i l' n0 n1)) = length (?L c) + length (?L f)"
      by (auto simp: live_def c_def f_def)
    ultimately show ?thesis
      unfolding eq using c f by auto
  qed
qed

text \<open>Whether two contacts are in the same bucket.\<close>

fun same_bucket :: "rtnode \<Rightarrow> cptr \<Rightarrow> cptr \<Rightarrow> bool" where
  "same_bucket (Bucket d i l cs ca) x y \<longleftrightarrow> x \<in> set cs \<and> y \<in> set cs"
| "same_bucket (Space d i l n0 n1) x y \<longleftrightarrow> same_bucket n0 x y \<or> same_bucket n1 x y"

text \<open>
  A live contact that is left out is in the same bucket as, or farther away than, every
  contact that is returned.
\<close>

lemma FindClosest_nearer:
  assumes X: "xlist_ok X" and "rt_wf st l dep ix t" and ok: "id_ok 20 l" "id_ok 20 nid"
    and dist: "dist = id_xor nid l"
    and "x \<in> set (FindClosest X st t nid dist qty)"
    and "y \<in> set (live st (rt_contacts t))" "y \<notin> set (FindClosest X st t nid dist qty)"
  shows "same_bucket t x y \<or> id_val nid XOR id_val (idof st x) < id_val nid XOR id_val (idof st y)"
  using assms(2,6-)
proof (induction t arbitrary: dep ix qty)
  case (Bucket d i l' cs ca)
  then show ?case
    using FindClosest_spec [OF X Bucket.prems(1) ok(1), of nid dist qty] by (auto simp: live_def)
next
  case (Space d i l' n0 n1)
  note wf = Space.prems(1)
  have wf0: "rt_wf st l (Suc dep) (2 * ix) n0" and wf1: "rt_wf st l (Suc dep) (Suc (2 * ix)) n1"
    and d: "d = dep" "dep < 160"
    using wf by (auto simp: can_split_def)
  have q: "0 < qty" using Space.prems(2) by (auto simp: FindClosest.simps(1) split: if_splits)
  define c f where "c = (if ClosestIs1 dist d then n1 else n0)"
    and "f = (if ClosestIs1 dist d then n0 else n1)"
  define res where "res = FindClosest X st c nid dist qty"
  have eq: "FindClosest X st (Space d i l' n0 n1) nid dist qty =
      res @ (if length res < qty then FindClosest X st f nid dist (qty - length res) else [])"
    by (simp add: FindClosest_Space [OF X q] res_def c_def f_def Let_def)
  have cf: "set (rt_contacts c) \<union> set (rt_contacts f) = set (rt_contacts (Space d i l' n0 n1))"
    by (auto simp: c_def f_def)
  have wc: "\<exists>j. rt_wf st l (Suc dep) j c" and wff: "\<exists>j. rt_wf st l (Suc dep) j f"
    using wf0 wf1 by (auto simp: c_def f_def)
  have near: "id_val nid XOR id_val (idof st u) < id_val nid XOR id_val (idof st v)"
    if "u \<in> set (rt_contacts c)" "v \<in> set (rt_contacts f)" for u v
  proof (rule closest_child_nearer [where l = l and depth = dep and idx = ix])
    show "in_range l dep ix (idof st u)" "in_range l dep ix (idof st v)"
      using rt_wf_entries [OF wf ok(1)] that cf by (auto simp: entry_ok_def)
    show "ClosestIs1 (id_xor l (idof st u)) dep = ClosestIs1 (id_xor nid l) dep"
      "ClosestIs1 (id_xor l (idof st v)) dep \<noteq> ClosestIs1 (id_xor nid l) dep"
      using rt_wf_side [OF wf ok(1)] that dist d by (auto simp: c_def f_def split: if_splits)
  qed (use ok d in simp_all)
  have sb: "same_bucket c x y \<or> same_bucket f x y \<Longrightarrow> same_bucket (Space d i l' n0 n1) x y"
    by (auto simp: c_def f_def split: if_splits)
  have IHc: "same_bucket c x y \<or> id_val nid XOR id_val (idof st x) < id_val nid XOR id_val (idof st y)"
    if "x \<in> set res" "y \<in> set (live st (rt_contacts c))" "y \<notin> set res"
    using Space.IH wf0 wf1 that by (auto simp: res_def c_def split: if_splits)
  have IHf: "same_bucket f x y \<or> id_val nid XOR id_val (idof st x) < id_val nid XOR id_val (idof st y)"
    if "x \<in> set (FindClosest X st f nid dist k)" "y \<in> set (live st (rt_contacts f))"
      "y \<notin> set (FindClosest X st f nid dist k)" for k
    using Space.IH wf0 wf1 that by (auto simp: f_def split: if_splits)
  obtain j where wj: "rt_wf st l (Suc dep) j c" using wc by blast
  have rs: "set res \<subseteq> set (live st (rt_contacts c))" "length res = min qty (length (live st (rt_contacts c)))"
    "distinct res"
    using FindClosest_spec [OF X wj ok(1), of nid dist qty] by (simp_all add: res_def)
  have y: "y \<notin> set res" "y \<in> set (live st (rt_contacts c)) \<or> y \<in> set (live st (rt_contacts f))"
    using Space.prems(3,4) eq cf by (auto simp: live_def)
  show ?case
  proof (cases "x \<in> set res")
    case True
    show ?thesis
    proof (cases "y \<in> set (live st (rt_contacts c))")
      case True
      with IHc \<open>x \<in> set res\<close> y(1) sb show ?thesis by blast
    next
      case False
      with y(2) rs(1) True near show ?thesis by (auto simp: live_def)
    qed
  next
    case False
    then have lt: "length res < qty" and xf: "x \<in> set (FindClosest X st f nid dist (qty - length res))"
      using Space.prems(2) eq by (auto split: if_splits)
    from lt rs(2) have "length res = length (live st (rt_contacts c))" by simp
    then have "set res = set (live st (rt_contacts c))"
    proof -
      assume len: "length res = length (live st (rt_contacts c))"
      have "distinct (live st (rt_contacts c))"
        using rt_wf_distinct_ptrs [OF wj ok(1)] by (simp add: live_def)
      with len rs show ?thesis
        by (metis card_subset_eq distinct_card finite_set)
    qed
    with y have "y \<in> set (live st (rt_contacts f))" by blast
    with IHf xf Space.prems(4) eq lt sb show ?thesis by auto
  qed
qed

subsection \<open>Counters\<close>

fun rt_buckets :: "rtnode \<Rightarrow> nat" where
  "rt_buckets (Bucket d i l cs ca) = 1"
| "rt_buckets (Space d i l n0 n1) = rt_buckets n0 + rt_buckets n1"

lemma GetStatsRec_spec:
  "n_contacts (GetStatsRec st t s) = n_contacts s + length (rt_contacts t) \<and>
   n_cached (GetStatsRec st t s) = n_cached s + length (rt_cached t) \<and>
   n_stale (GetStatsRec st t s) + length (live st (rt_contacts t)) = n_stale s + length (rt_contacts t) \<and>
   n_buckets (GetStatsRec st t s) = n_buckets s + rt_buckets t \<and>
   n_spaces (GetStatsRec st t s) + 1 = n_spaces s + rt_buckets t"
proof (induction t arbitrary: s)
  case (Bucket d i l cs ca)
  have "length (filter (\<lambda>p. IsStale (st ! p)) cs) + length (live st cs) = length cs"
    using sum_length_filter_compl [of "\<lambda>p. IsStale (st ! p)" cs] by (simp add: live_def)
  then show ?case by simp
next
  case (Space d i l n0 n1)
  from Space.IH(1) [of "s\<lparr>n_spaces := n_spaces s + 1\<rparr>"]
    Space.IH(2) [of "GetStatsRec st n0 (s\<lparr>n_spaces := n_spaces s + 1\<rparr>)"]
  show ?case by (simp add: live_def)
qed

lemma CountContacts_eq: "CountContacts t = length (rt_contacts t)"
  by (induction t) simp_all

lemma GetContacts_eq:
  assumes "xlist_ok X"
  shows "GetContacts X st t = live st (rt_contacts t)"
proof (induction t)
  case (Bucket d i l cs ca)
  have "GetContacts_loop X st ps res = res @ live st ps" for ps res
    using assms by (induction ps arbitrary: res) (auto simp: xl_simps live_def)
  then show ?case by simp
next
  case (Space d i l n0 n1)
  with assms show ?case by (simp add: xl_simps live_def)
qed

subsection \<open>The shape of the tree\<close>

text \<open>The largest number of buckets below a node at a depth with an index.\<close>

function max_buckets :: "nat \<Rightarrow> nat \<Rightarrow> nat" where
  "max_buckets dep ix =
     (if can_split dep ix
      then max_buckets (Suc dep) (2 * ix) + max_buckets (Suc dep) (Suc (2 * ix)) else 1)"
  by pat_completeness auto
termination
  by (relation "measure (\<lambda>(dep, ix). 160 - dep)") (auto simp: can_split_def)

declare max_buckets.simps [simp del]

lemma max_buckets_pos: "1 \<le> max_buckets dep ix"
proof (induction dep ix rule: max_buckets.induct)
  case (1 dep ix)
  then show ?case by (subst max_buckets.simps) auto
qed

lemma rt_wf_buckets: "rt_wf st l dep ix t \<Longrightarrow> rt_buckets t \<le> max_buckets dep ix"
proof (induction t arbitrary: dep ix)
  case (Bucket d i l' cs ca)
  then show ?case using max_buckets_pos by simp
next
  case (Space d i l' n0 n1)
  then have "max_buckets dep ix = max_buckets (Suc dep) (2 * ix) + max_buckets (Suc dep) (Suc (2 * ix))"
    by (subst max_buckets.simps) simp
  moreover from Space have "rt_buckets n0 \<le> max_buckets (Suc dep) (2 * ix)"
    "rt_buckets n1 \<le> max_buckets (Suc dep) (Suc (2 * ix))" by auto
  ultimately show ?case by simp
qed

lemma rt_wf_count: "rt_wf st l dep ix t \<Longrightarrow> length (rt_contacts t) \<le> 16 * rt_buckets t"
  by (induction t arbitrary: dep ix) fastforce+

lemma max_buckets_root: "max_buckets 0 0 = 242"
  by code_simp

end
