(* ===== verification/RtTable.thy ===== *)
theory RtTable
  imports RtNodeQuery
begin

section \<open>The routing table as its clients see it\<close>

text \<open>
  \<open>KadOpMgr\<close> uses the routing table through \<open>AddNode\<close>, \<open>FindClosest\<close> and \<open>LocalId\<close> only. The
  locale \<open>contact_table\<close> states what it may rely on: adding gives a valid contact with the
  identifier asked for, never moves the local identifier and never drops a contact; a query
  gives at most as many different contacts as asked for, all from the table. The client
  lemmas hold for any such table; \<open>rt\<close> interprets the locale on \<open>KadRtNode\<close>.
\<close>

definition contact_ok :: "'a cstore \<Rightarrow> cptr \<Rightarrow> bool" where
  "contact_ok st p \<longleftrightarrow> p < length st \<and> id_ok KADEMLIA_ID_SIZE (idof st p)"

lemma contact_ok_ext: "store_ext st st' \<Longrightarrow> contact_ok st p \<Longrightarrow> contact_ok st' p"
  by (simp add: contact_ok_def store_extD)

text \<open>A series of additions, as a sequence of incoming messages causes it.\<close>

fun add_all :: "('a cstore \<Rightarrow> 't \<Rightarrow> kad_id \<Rightarrow> 'a \<Rightarrow> 'a cstore \<times> 't \<times> cptr) \<Rightarrow>
    'a cstore \<Rightarrow> 't \<Rightarrow> (kad_id \<times> 'a) list \<Rightarrow> 'a cstore \<times> 't" where
  "add_all add st t [] = (st, t)"
| "add_all add st t (x # xs) =
     (let (st1, t1, p) = add st t (fst x) (snd x) in add_all add st1 t1 xs)"

locale contact_table =
  fixes tinv :: "'a cstore \<Rightarrow> 't \<Rightarrow> bool"
    and local_id :: "'t \<Rightarrow> kad_id"
    and contacts :: "'t \<Rightarrow> cptr list"
    and add :: "'a cstore \<Rightarrow> 't \<Rightarrow> kad_id \<Rightarrow> 'a \<Rightarrow> 'a cstore \<times> 't \<times> cptr"
    and closest :: "'a cstore \<Rightarrow> 't \<Rightarrow> kad_id \<Rightarrow> nat \<Rightarrow> cptr list"
    and cap :: nat
  assumes inv_ext: "tinv st t \<Longrightarrow> store_ext st st' \<Longrightarrow> tinv st' t"
    and add_inv: "tinv st t \<Longrightarrow> id_ok KADEMLIA_ID_SIZE nid \<Longrightarrow> add st t nid addr = (st', t', p) \<Longrightarrow> tinv st' t'"
    and add_ext: "tinv st t \<Longrightarrow> id_ok KADEMLIA_ID_SIZE nid \<Longrightarrow> add st t nid addr = (st', t', p) \<Longrightarrow>
      store_ext st st' \<and> local_id t' = local_id t"
    and add_ptr: "tinv st t \<Longrightarrow> id_ok KADEMLIA_ID_SIZE nid \<Longrightarrow> add st t nid addr = (st', t', p) \<Longrightarrow>
      contact_ok st' p \<and> idof st' p = nid"
    and add_keeps: "tinv st t \<Longrightarrow> id_ok KADEMLIA_ID_SIZE nid \<Longrightarrow> add st t nid addr = (st', t', p) \<Longrightarrow>
      set (contacts t) \<subseteq> set (contacts t')"
    and contacts_inv: "tinv st t \<Longrightarrow> p \<in> set (contacts t) \<Longrightarrow> contact_ok st p"
    and contacts_ids: "tinv st t \<Longrightarrow> distinct (map (idof st) (contacts t))"
    and contacts_cap: "tinv st t \<Longrightarrow> length (contacts t) \<le> cap"
    and closest_contacts: "tinv st t \<Longrightarrow> set (closest st t nid qty) \<subseteq> set (contacts t)"
    and closest_distinct: "tinv st t \<Longrightarrow> distinct (closest st t nid qty)"
    and closest_length: "tinv st t \<Longrightarrow> length (closest st t nid qty) \<le> qty"
begin

lemma closest_ok: "tinv st t \<Longrightarrow> p \<in> set (closest st t nid qty) \<Longrightarrow> contact_ok st p"
  using closest_contacts contacts_inv by blast

lemma closest_ids: "tinv st t \<Longrightarrow> distinct (map (idof st) (closest st t nid qty))"
  using contacts_ids [of st t] closest_contacts [of st t nid qty] closest_distinct [of st t nid qty]
  by (auto simp: distinct_map intro: inj_on_subset)

lemma add_all_inv:
  assumes "tinv st t" "\<forall>x \<in> set xs. id_ok KADEMLIA_ID_SIZE (fst x)" "add_all add st t xs = (st', t')"
  shows "tinv st' t' \<and> store_ext st st' \<and> local_id t' = local_id t \<and> set (contacts t) \<subseteq> set (contacts t')"
  using assms
proof (induction xs arbitrary: st t)
  case (Cons x xs)
  obtain st1 t1 p where r: "add st t (fst x) (snd x) = (st1, t1, p)" by (metis prod_cases3)
  have x: "id_ok KADEMLIA_ID_SIZE (fst x)" using Cons.prems(2) by simp
  have "tinv st' t' \<and> store_ext st1 st' \<and> local_id t' = local_id t1 \<and> set (contacts t1) \<subseteq> set (contacts t')"
    by (rule Cons.IH [OF add_inv [OF Cons.prems(1) x r]]) (use Cons.prems r in auto)
  then show ?case
    using add_ext [OF Cons.prems(1) x r] add_keeps [OF Cons.prems(1) x r] store_ext_trans by fastforce
qed auto

lemma add_all_cap:
  assumes "tinv st t" "\<forall>x \<in> set xs. id_ok KADEMLIA_ID_SIZE (fst x)" "add_all add st t xs = (st', t')"
  shows "length (contacts t') \<le> cap \<and> distinct (map (idof st') (contacts t'))"
  using add_all_inv [OF assms] contacts_cap contacts_ids by blast

end

subsection \<open>The table of the program\<close>

definition rt_table_ok :: "cptr xlist \<Rightarrow> 'a cstore \<Rightarrow> rtnode \<Rightarrow> bool" where
  "rt_table_ok X st t \<longleftrightarrow> xlist_ok X \<and> rt_inv st t"

lemma RtAdd_post:
  assumes "rt_table_ok X st t" "id_ok 20 nid" "RtAdd X st t nid addr = (st', t', p)"
  shows "add_post st t nid (mLocalId t) 0 0 (st', t', p)"
  using assms AddNode_post [of X "mLocalId t" st 0 0 t nid "id_xor nid (mLocalId t)" addr]
  by (simp add: rt_table_ok_def rt_inv_def RtAdd_def in_range_root)

lemma RtAdd_local:
  assumes "rt_table_ok X st t" "id_ok 20 nid" "RtAdd X st t nid addr = (st', t', p)"
  shows "mLocalId t' = mLocalId t"
proof -
  have "rt_wf st' (mLocalId t) 0 0 t'" using RtAdd_post [OF assms] by (simp add: add_post_def)
  then show ?thesis using rt_wf_fields by blast
qed

lemma rt_count_le:
  assumes "rt_inv st t"
  shows "length (rt_contacts t) \<le> 3872"
proof -
  have wf: "rt_wf st (mLocalId t) 0 0 t" using assms by (simp add: rt_inv_def)
  have "rt_buckets t \<le> 242" using rt_wf_buckets [OF wf] max_buckets_root by simp
  with rt_wf_count [OF wf] show ?thesis by simp
qed

interpretation rt: contact_table "rt_table_ok X" mLocalId rt_contacts "RtAdd X" "RtFindClosest X" 3872
proof (unfold_locales, goal_cases)
  case 1
  then show ?case by (auto simp: rt_table_ok_def intro: rt_inv_ext)
next
  case (2 st t nid addr st' t' p)
  then show ?case
    using RtAdd_post [OF 2] RtAdd_local [OF 2] by (auto simp: rt_table_ok_def rt_inv_def add_post_def)
next
  case (3 st t nid addr st' t' p)
  then show ?case using RtAdd_post [OF 3] RtAdd_local [OF 3] by (simp add: add_post_def)
next
  case (4 st t nid addr st' t' p)
  then show ?case using RtAdd_post [OF 4] 4(2) by (simp add: add_post_def contact_ok_def)
next
  case (5 st t nid addr st' t' p)
  then show ?case using RtAdd_post [OF 5] by (simp add: add_post_def)
next
  case (6 st t p)
  then show ?case
    using rt_wf_entries [of st "mLocalId t" 0 0 t p]
    by (simp add: rt_table_ok_def rt_inv_def entry_ok_def contact_ok_def in_range_def)
next
  case (7 st t)
  then show ?case by (auto simp: rt_table_ok_def rt_inv_def intro: rt_wf_distinct)
next
  case (8 st t)
  then show ?case by (auto simp: rt_table_ok_def intro: rt_count_le)
next
  case (9 st t nid qty)
  then show ?case
    using FindClosest_spec [of X st "mLocalId t" 0 0 t nid "id_xor nid (mLocalId t)" qty]
    by (auto simp: rt_table_ok_def rt_inv_def RtFindClosest_def live_def)
next
  case (10 st t nid qty)
  then show ?case
    using FindClosest_spec [of X st "mLocalId t" 0 0 t nid "id_xor nid (mLocalId t)" qty]
    by (auto simp: rt_table_ok_def rt_inv_def RtFindClosest_def)
next
  case (11 st t nid qty)
  then show ?case
    using FindClosest_spec [of X st "mLocalId t" 0 0 t nid "id_xor nid (mLocalId t)" qty]
    by (auto simp: rt_table_ok_def rt_inv_def RtFindClosest_def)
qed

end
