(* ===== verification/RtProps.thy ===== *)
theory RtProps
  imports RtTable
begin

section \<open>Properties of the routing table\<close>

text \<open>
  What \<open>KadRtNode\<close> promises, on the operations its clients call, with a small table as the
  instance: local identifier 0 and contacts 2, 4 and 1.
\<close>

definition rt_l :: kad_id where "rt_l = TKadId (replicate 20 0)"
definition rt_id :: "u8 \<Rightarrow> kad_id" where "rt_id k = TKadId (replicate 19 0 @ [k])"
definition rt_demo :: "nat cstore \<times> rtnode" where
  "rt_demo = add_all (RtAdd list_container) [] (RtNode rt_l) [(rt_id 2, 0), (rt_id 4, 1), (rt_id 1, 2)]"

lemma rt_id_ok [simp]: "id_ok 20 rt_l" "id_ok 20 (rt_id k)"
  by (simp_all add: id_ok_def rt_l_def rt_id_def)

lemma rt_demo_eq: "rt_demo =
   ([KadContact (rt_id 2) 0, KadContact (rt_id 4) 1, KadContact (rt_id 1) 2],
    Bucket 0 0 rt_l [0, 1, 2] [])"
  unfolding rt_demo_def rt_id_def rt_l_def by code_simp

lemma rt_demo_inv: "rt_inv (fst rt_demo) (snd rt_demo)"
proof -
  have r: "add_all (RtAdd list_container) [] (RtNode rt_l) [(rt_id 2, 0), (rt_id 4, 1), (rt_id 1, 2)] =
      (fst rt_demo, snd rt_demo)"
    by (simp only: rt_demo_def prod.collapse)
  have "rt_table_ok list_container ([] :: nat cstore) (RtNode rt_l)"
    by (simp add: rt_table_ok_def rt_inv_init)
  from rt.add_all_inv [OF this _ r] show ?thesis by (simp add: rt_table_ok_def)
qed

text \<open>
  C11: adding an identifier keeps the table's invariant and its contacts, and returns a valid
  contact with that identifier, new or old, which the table holds; an identifier that is
  among the contacts gets its old contact, and nothing is allocated.
\<close>

theorem rtAdd_post:
  assumes "xlist_ok X" "rt_inv st t" "id_ok 20 nid" "RtAdd X st t nid addr = (st', t', p)"
  shows "rt_inv st' t' \<and> mLocalId t' = mLocalId t \<and> store_ext st st' \<and> p < length st' \<and> idof st' p = nid \<and>
    set (rt_contacts t) \<subseteq> set (rt_contacts t') \<and> set (rt_contacts t') \<subseteq> insert p (set (rt_contacts t)) \<and>
    (p \<in> set (rt_contacts t') \<or> p \<in> set (rt_cached t')) \<and>
    (nid \<in> idof st ` set (rt_contacts t) \<longrightarrow> st' = st \<and> p \<in> set (rt_contacts t))"
proof -
  have ok: "rt_table_ok X st t" using assms(1,2) by (simp add: rt_table_ok_def)
  show ?thesis
    using RtAdd_post [OF ok assms(3,4)] rt.add_inv [OF ok assms(3,4)] RtAdd_local [OF ok assms(3,4)]
    by (simp add: add_post_def rt_table_ok_def)
qed

lemma rtAdd_post_witness:
  "case RtAdd list_container (fst rt_demo) (snd rt_demo) (rt_id 4) 9 of
     (st', t', p) \<Rightarrow> rt_inv st' t' \<and> st' = fst rt_demo \<and> idof st' p = rt_id 4"
proof -
  obtain st' t' p where r: "RtAdd list_container (fst rt_demo) (snd rt_demo) (rt_id 4) 9 = (st', t', p)"
    by (metis prod_cases3)
  have "rt_id 4 \<in> idof (fst rt_demo) ` set (rt_contacts (snd rt_demo))"
    by (simp add: rt_demo_eq idof_def KadContact_def)
  with rtAdd_post [OF list_container_ok rt_demo_inv rt_id_ok(2) r] r show ?thesis by auto
qed

text \<open>
  C14: a table that starts empty holds at most 3872 contacts after any additions (242 buckets
  of 16), no identifier twice, and has lost none on the way.
\<close>

theorem rt_size_bound:
  assumes "xlist_ok X" "id_ok 20 l" "\<forall>x \<in> set (xs @ ys). id_ok 20 (fst x)"
    and "add_all (RtAdd X) [] (RtNode l) xs = (st, t)" "add_all (RtAdd X) st t ys = (st', t')"
  shows "length (rt_contacts t') \<le> 3872 \<and> distinct (map (idof st') (rt_contacts t')) \<and>
    set (rt_contacts t) \<subseteq> set (rt_contacts t')"
proof -
  have ok0: "rt_table_ok X [] (RtNode l)" using assms(1,2) by (simp add: rt_table_ok_def rt_inv_init)
  have ids: "\<forall>x \<in> set xs. id_ok 20 (fst x)" "\<forall>x \<in> set ys. id_ok 20 (fst x)" using assms(3) by auto
  have ok1: "rt_table_ok X st t" using rt.add_all_inv [OF ok0 ids(1) assms(4)] by simp
  show ?thesis using rt.add_all_cap [OF ok1 ids(2) assms(5)] rt.add_all_inv [OF ok1 ids(2) assms(5)] by simp
qed

lemma rt_size_bound_witness:
  "case add_all (RtAdd list_container) (fst rt_demo) (snd rt_demo) [(rt_id 7, 3)] of
     (st', t') \<Rightarrow> {0, 1, 2} \<subseteq> set (rt_contacts t') \<and> distinct (map (idof st') (rt_contacts t'))"
proof -
  obtain st' t' where r: "add_all (RtAdd list_container) (fst rt_demo) (snd rt_demo) [(rt_id 7, 3)] = (st', t')"
    by fastforce
  have d: "add_all (RtAdd list_container) [] (RtNode rt_l) [(rt_id 2, 0), (rt_id 4, 1), (rt_id 1, 2)] =
      (fst rt_demo, snd rt_demo)"
    by (simp only: rt_demo_def prod.collapse)
  from rt_size_bound [OF list_container_ok rt_id_ok(1) _ d r] r show ?thesis
    by (simp add: rt_demo_eq)
qed

text \<open>C12: \<open>FindNode\<close> finds exactly the contacts: the pointer whose identifier is the one asked for.\<close>

theorem rtFind_iff:
  assumes "rt_inv st t" "id_ok 20 nid"
  shows "(RtFind st t nid = Some p \<longleftrightarrow> p \<in> set (rt_contacts t) \<and> idof st p = nid) \<and>
    (RtFind st t nid = None \<longleftrightarrow> nid \<notin> idof st ` set (rt_contacts t))"
proof -
  have wf: "rt_wf st (mLocalId t) 0 0 t" "id_ok 20 (mLocalId t)" using assms(1) by (simp_all add: rt_inv_def)
  have e: "RtFind st t nid = Some q \<longleftrightarrow> q \<in> set (rt_contacts t) \<and> idof st q = nid" for q
    unfolding RtFind_def by (rule FindNode_iff [OF wf assms(2) refl])
  then show ?thesis by (metis (mono_tags, lifting) imageE imageI not_None_eq)
qed

lemma rtFind_iff_witness:
  "RtFind (fst rt_demo) (snd rt_demo) (rt_id 4) = Some 1 \<and> RtFind (fst rt_demo) (snd rt_demo) (rt_id 5) = None"
proof -
  have "idof (fst rt_demo) 1 = rt_id 4" "rt_id 5 \<notin> idof (fst rt_demo) ` set (rt_contacts (snd rt_demo))"
    by (simp_all add: rt_demo_eq idof_def KadContact_def rt_id_def)
  with rtFind_iff [OF rt_demo_inv rt_id_ok(2)] show ?thesis by (simp add: rt_demo_eq)
qed

text \<open>
  \<open>RemoveNode\<close> keeps the invariant, takes out exactly the contact with the identifier and
  reports it; when it returns \<open>false\<close> the table is unchanged.
\<close>

theorem rtRemove_post:
  assumes "xlist_ok X" "rt_inv st t" "id_ok 20 nid" "RtRemove X st t nid = (t', b)"
  shows "rt_inv st t' \<and> set (rt_contacts t') = {p \<in> set (rt_contacts t). idof st p \<noteq> nid} \<and>
    (nid \<in> idof st ` set (rt_contacts t) \<longrightarrow> b) \<and> (\<not> b \<longrightarrow> t' = t)"
proof -
  have wf: "rt_wf st (mLocalId t) 0 0 t" "id_ok 20 (mLocalId t)" using assms(2) by (simp_all add: rt_inv_def)
  note r = rt_wf_remove [OF assms(1) wf assms(3) refl assms(4) [unfolded RtRemove_def]]
  then have "mLocalId t' = mLocalId t" using rt_wf_fields by blast
  with r wf(2) show ?thesis by (simp add: rt_inv_def)
qed

lemma rtRemove_post_witness:
  "case RtRemove list_container (fst rt_demo) (snd rt_demo) (rt_id 4) of
     (t', b) \<Rightarrow> b \<and> set (rt_contacts t') = {0, 2}"
proof -
  obtain t' b where r: "RtRemove list_container (fst rt_demo) (snd rt_demo) (rt_id 4) = (t', b)" by fastforce
  have i: "idof (fst rt_demo) 0 = rt_id 2" "idof (fst rt_demo) 1 = rt_id 4" "idof (fst rt_demo) 2 = rt_id 1"
    by (simp_all add: rt_demo_eq idof_def KadContact_def)
  have n: "rt_id 2 \<noteq> rt_id 4" "rt_id 1 \<noteq> rt_id 4" by (simp_all add: rt_id_def)
  have c: "set (rt_contacts (snd rt_demo)) = {0, 1, 2}" by (simp add: rt_demo_eq)
  note post = rtRemove_post [OF list_container_ok rt_demo_inv rt_id_ok(2) r, unfolded c]
  have f: "{p \<in> {0, 1, 2 :: nat}. f p \<noteq> x} = {0, 2}" if "f 0 \<noteq> x" "f 1 = x" "f 2 \<noteq> x"
    for f and x :: kad_id
    using that by auto
  have "rt_id 4 \<in> idof (fst rt_demo) ` {0, 1, 2}" unfolding i(2) [symmetric] by blast
  then have "b" using post by blast
  moreover have "set (rt_contacts t') = {0, 2}"
    using post f [of "idof (fst rt_demo)" "rt_id 4"] unfolding i using n by simp
  ultimately show ?thesis unfolding r by simp
qed

text \<open>
  A query for the \<open>qty\<close> closest contacts gives different contacts that are not stale, and
  as many as asked for when the table has them.
\<close>

theorem rtFindClosest_size:
  assumes "xlist_ok X" "rt_inv st t"
  shows "distinct (RtFindClosest X st t nid qty) \<and>
    set (RtFindClosest X st t nid qty) \<subseteq> {p \<in> set (rt_contacts t). \<not> IsStale (st ! p)} \<and>
    length (RtFindClosest X st t nid qty) = min qty (length (filter (\<lambda>p. \<not> IsStale (st ! p)) (rt_contacts t)))"
  using FindClosest_spec [of X st "mLocalId t" 0 0 t nid "id_xor nid (mLocalId t)" qty] assms
  by (auto simp: rt_inv_def RtFindClosest_def live_def)

lemma rtFindClosest_size_witness:
  "length (RtFindClosest list_container (fst rt_demo) (snd rt_demo) rt_l 2) = 2"
  using rtFindClosest_size [OF list_container_ok rt_demo_inv, of rt_l 2]
  by (simp add: rt_demo_eq IsStale_def KadContact_def)

text \<open>
  C13: across buckets the query respects distance: a contact that is not stale and is left out
  is farther from the identifier than every contact returned from another bucket.
\<close>

theorem rtFindClosest_nearer:
  assumes "xlist_ok X" "rt_inv st t" "id_ok 20 nid"
    and "x \<in> set (RtFindClosest X st t nid qty)"
    and "y \<in> set (rt_contacts t)" "\<not> IsStale (st ! y)" "y \<notin> set (RtFindClosest X st t nid qty)"
    and "\<not> same_bucket t x y"
  shows "Closer nid (idof st x) (idof st y)"
proof -
  have wf: "rt_wf st (mLocalId t) 0 0 t" "id_ok 20 (mLocalId t)" using assms(2) by (simp_all add: rt_inv_def)
  have rt: "rt_table_ok X st t" using assms(1,2) by (simp add: rt_table_ok_def)
  have "contact_ok st x" "contact_ok st y"
    using rt.closest_ok [OF rt assms(4)] rt.contacts_inv [OF rt assms(5)] by simp_all
  then have ok: "id_ok 20 (idof st x)" "id_ok 20 (idof st y)" by (simp_all add: contact_ok_def)
  have "id_val nid XOR id_val (idof st x) < id_val nid XOR id_val (idof st y)"
    using FindClosest_nearer [OF assms(1) wf assms(3) refl, of x qty y] assms(4-8)
    by (simp add: RtFindClosest_def live_def)
  then show ?thesis by (simp add: Closer_iff [OF assms(3) ok])
qed

text \<open>A table with two buckets: nine contacts on each side of the first bit.\<close>

definition rt_two :: "nat cstore \<times> rtnode" where
  "rt_two = add_all (RtAdd list_container) [] (RtNode rt_l)
     (map (\<lambda>k. (rt_id k, 0)) [1, 2, 3, 4, 5, 6, 7, 8, 9] @
      map (\<lambda>k. (TKadId (128 # replicate 18 0 @ [k]), 1)) [1, 2, 3, 4, 5, 6, 7, 8, 9])"

lemma rtFindClosest_nearer_witness:
  "Closer rt_l (idof (fst rt_two) 0) (idof (fst rt_two) 9)"
proof -
  let ?xs = "map (\<lambda>k. (rt_id k, 0 :: nat)) [1, 2, 3, 4, 5, 6, 7, 8, 9] @
      map (\<lambda>k. (TKadId (128 # replicate 18 0 @ [k]), 1)) [1, 2, 3, 4, 5, 6, 7, 8, 9]"
  have r: "add_all (RtAdd list_container) [] (RtNode rt_l) ?xs = (fst rt_two, snd rt_two)"
    by (simp only: rt_two_def prod.collapse)
  have ids: "\<forall>x \<in> set ?xs. id_ok 20 (fst x)" by (simp add: id_ok_def rt_id_def)
  have "rt_table_ok list_container ([] :: nat cstore) (RtNode rt_l)"
    by (simp add: rt_table_ok_def rt_inv_init)
  from rt.add_all_inv [OF this ids r] have inv: "rt_inv (fst rt_two) (snd rt_two)"
    by (simp add: rt_table_ok_def)
  have "rt_contacts (snd rt_two) = [0, 1, 2, 3, 4, 5, 6, 7, 8, 9, 10, 11, 12, 13, 14, 15, 16, 17]"
    unfolding rt_two_def rt_id_def rt_l_def by code_simp
  moreover have "RtFindClosest list_container (fst rt_two) (snd rt_two) rt_l 3 = [0, 1, 2]"
    unfolding rt_two_def rt_id_def rt_l_def by code_simp
  moreover have "\<not> IsStale (fst rt_two ! 9) \<and> \<not> same_bucket (snd rt_two) 0 9"
    unfolding rt_two_def rt_id_def rt_l_def by code_simp
  ultimately show ?thesis
    using rtFindClosest_nearer [OF list_container_ok inv rt_id_ok(1), of 0 3 9] by simp
qed

lemma FindClosest_loop_fill:
  assumes X: "xlist_ok X"
  shows "\<forall>p \<in> set ps. \<not> IsStale (st ! p) \<Longrightarrow> length res + length ps \<le> qty \<Longrightarrow>
    FindClosest_loop X st nid qty (ps @ qs) res = FindClosest_loop X st nid qty qs (res @ ps)"
  using X by (induction ps arbitrary: res) (simp_all add: xl_simps)

text \<open>
  C25: within a bucket the query does not give the closest contacts, because the first contact
  that is farther than a new one is replaced, not the farthest. In every table that is one
  bucket, if its first contact is the second nearest and its last one the nearest, a query for
  all but one of them loses the second nearest and gives contacts that are all farther, the
  farthest of the bucket among them.
\<close>

theorem rtFindClosest_misses:
  assumes "xlist_ok X" "rt_inv st (Bucket d i l (x # ys @ [z]) cache)" "id_ok 20 nid"
    and "\<forall>p \<in> set (x # ys @ [z]). \<not> IsStale (st ! p)" "ys \<noteq> []"
    and "Closer nid (idof st z) (idof st x)" "\<forall>y \<in> set ys. Closer nid (idof st x) (idof st y)"
  shows "RtFindClosest X st (Bucket d i l (x # ys @ [z]) cache) nid (Suc (length ys)) = z # ys \<and>
    x \<notin> set (z # ys) \<and>
    (\<exists>y \<in> set ys. Closer nid (idof st x) (idof st y) \<and> (\<forall>q \<in> set (x # ys @ [z]). \<not> Closer nid (idof st y) (idof st q)))"
proof -
  have "FindClosest_loop X st nid (Suc (length ys)) ((x # ys) @ [z]) [] =
      FindClosest_loop X st nid (Suc (length ys)) [z] (x # ys)"
    using FindClosest_loop_fill [OF assms(1), of "x # ys" st "[]" "Suc (length ys)" nid "[z]"] assms(4) by simp
  moreover have "Replace_loop X st nid z [0..<Suc (length ys)] (x # ys) = z # ys"
    using assms(1,6) by (simp add: upt_conv_Cons xl_simps del: upt_Suc)
  ultimately have r: "RtFindClosest X st (Bucket d i l (x # ys @ [z]) cache) nid (Suc (length ys)) = z # ys"
    using assms(4) by (simp add: RtFindClosest_def del: upt_Suc)
  have ok: "id_ok 20 (idof st p)" if "p \<in> set (x # ys @ [z])" for p
    using assms(2) that by (auto simp: rt_inv_def entry_ok_def in_range_def)
  have d: "distinct (x # ys @ [z])" using assms(2) by (auto simp: rt_inv_def distinct_map)
  let ?D = "\<lambda>p. id_val nid XOR id_val (idof st p)"
  have C: "Closer nid (idof st p) (idof st q) \<longleftrightarrow> ?D p < ?D q" if "p \<in> set (x # ys @ [z])" "q \<in> set (x # ys @ [z])" for p q
    using Closer_iff [of 20 nid "idof st p" "idof st q"] ok that assms(3) by simp
  have "Max (?D ` set ys) \<in> ?D ` set ys" using assms(5) by (intro Max_in) simp_all
  then obtain y where y: "y \<in> set ys" "?D y = Max (?D ` set ys)" by auto
  then have "\<forall>q \<in> set ys. ?D q \<le> ?D y" by simp
  note y = y(1) this
  have "?D z < ?D x" "?D x < ?D y" using assms(6,7) C [of z x] C [of x y] y(1) by simp_all
  then have "\<not> Closer nid (idof st y) (idof st q)" if "q \<in> set (x # ys @ [z])" for q
    using C [of y q] y that by auto
  with r d y(1) assms(7) show ?thesis by auto
qed

lemma rtFindClosest_misses_witness:
  "map (idof (fst rt_demo)) (RtFindClosest list_container (fst rt_demo) (snd rt_demo) rt_l 2) =
     [rt_id 1, rt_id 4] \<and> Closer rt_l (rt_id 2) (rt_id 4)"
proof -
  have c: "Closer rt_l (rt_id 1) (rt_id 2)" "Closer rt_l (rt_id 2) (rt_id 4)"
    unfolding rt_id_def rt_l_def by code_simp+
  have i: "rt_inv (fst rt_demo) (Bucket 0 0 rt_l (0 # [1] @ [2]) [])"
    using rt_demo_inv by (simp add: rt_demo_eq)
  have n: "Suc (Suc 0) = 2" by simp
  from rtFindClosest_misses [OF list_container_ok i rt_id_ok(1)] c
  have "RtFindClosest list_container (fst rt_demo) (snd rt_demo) rt_l 2 = [2, 1]"
    by (simp add: rt_demo_eq IsStale_def KadContact_def idof_def n)
  then show ?thesis using c by (simp add: rt_demo_eq KadContact_def idof_def)
qed

text \<open>
  The statistics count the table: contacts, stale ones and cached ones, with one more
  bucket than inner nodes, and \<open>GetContacts\<close> lists the contacts that are not stale.
\<close>

theorem rt_statistics:
  assumes "xlist_ok X"
  shows "n_contacts (GetStats st t) = length (rt_contacts t) \<and> n_contacts (GetStats st t) = CountContacts t \<and>
   n_cached (GetStats st t) = length (rt_cached t) \<and>
   n_stale (GetStats st t) + length (GetContacts X st t) = CountContacts t \<and>
   n_buckets (GetStats st t) = n_spaces (GetStats st t) + 1"
  using GetStatsRec_spec [of st t "\<lparr>n_contacts = 0, n_stale = 0, n_cached = 0, n_buckets = 0, n_spaces = 0\<rparr>"]
    CountContacts_eq [of t] GetContacts_eq [OF assms, of st t]
  by (simp add: GetStats_def)

lemma rt_statistics_witness:
  "n_stale (GetStats (fst rt_demo) (snd rt_demo)) = 0 \<and>
   length (GetContacts list_container (fst rt_demo) (snd rt_demo)) = 3"
proof -
  have "GetStats (fst rt_demo) (snd rt_demo) =
      \<lparr>n_contacts = 3, n_stale = 0, n_cached = 0, n_buckets = 1, n_spaces = 0\<rparr>"
    unfolding rt_demo_def rt_id_def rt_l_def by code_simp
  with rt_statistics [OF list_container_ok, of "fst rt_demo" "snd rt_demo"] show ?thesis by simp
qed

end
