(* ===== verification/KadMsg.thy ===== *)
theory KadMsg
  imports KadContact
begin

section \<open>Messages\<close>

text \<open>
  The messages of \<open>src/KadMsg.h\<close> and their conversion to and from MessagePack objects.
  \<open>mp_obj\<close> is the object tree that the library hands out; what the library does with it (the
  code that \<open>MSGPACK_DEFINE\<close> expands to, integers, vectors, the byte format) is the parameter
  \<open>msgpack\<close>, and \<open>msgpack_ok\<close> names what the program relies on. A thrown \<open>type_error\<close> is
  \<open>None\<close>. What an object holds before it is filled is an argument where the source leaves it
  uninitialised.
\<close>

datatype mp_obj =
    MPNil
  | MPBool bool
  | MPPos u64
  | MPNeg int
  | MPDouble u64
  | MPRaw "u8 list"
  | MPArray "mp_obj list"
  | MPMap "(mp_obj \<times> mp_obj) list"

text \<open>
  \<open>mp_define\<close> packs the members of a \<open>MSGPACK_DEFINE\<close>; \<open>mp_members n\<close> gives, for each of \<open>n\<close>
  members, the object it is converted from, if there is one.
\<close>

record msgpack =
  mp_define :: "mp_obj list \<Rightarrow> mp_obj"
  mp_members :: "nat \<Rightarrow> mp_obj \<Rightarrow> mp_obj option list option"
  mp_uint :: "u64 \<Rightarrow> mp_obj"
  mp_conv_uint :: "nat \<Rightarrow> mp_obj \<Rightarrow> u64 option"
  mp_vector :: "mp_obj list \<Rightarrow> mp_obj"
  mp_conv_vector :: "mp_obj \<Rightarrow> mp_obj list option"
  mp_encode :: "mp_obj \<Rightarrow> u8 list"
  mp_decode :: "u8 list \<Rightarrow> mp_obj option"

definition array_members :: "nat \<Rightarrow> mp_obj list \<Rightarrow> mp_obj option list" where
  "array_members n os = map Some (take n os) @ replicate (n - length os) None"

definition msgpack_ok :: "msgpack \<Rightarrow> bool" where
  "msgpack_ok M \<longleftrightarrow>
     (\<forall>os. mp_define M os = MPArray os) \<and>
     (\<forall>n os. mp_members M n (MPArray os) = Some (array_members n os)) \<and>
     (\<forall>n ob. (\<nexists>os. ob = MPArray os) \<longrightarrow> mp_members M n ob = None) \<and>
     (\<forall>v. mp_uint M v = MPPos v) \<and>
     (\<forall>w v. unat v < 2 ^ w \<longrightarrow> mp_conv_uint M w (MPPos v) = Some v) \<and>
     (\<forall>w ob v. mp_conv_uint M w ob = Some v \<longrightarrow> unat v < 2 ^ w) \<and>
     (\<forall>os. mp_vector M os = MPArray os \<and> mp_conv_vector M (MPArray os) = Some os)"

subsection \<open>Raw fields\<close>

text \<open>\<open>msgpack_unpack\<close> of \<open>MsgPackRaw<SIZE>\<close>: a wrong size leaves the bytes as they were.\<close>

definition MsgPackRaw_unpack :: "u8 list \<Rightarrow> mp_obj \<Rightarrow> u8 list option" where
  "MsgPackRaw_unpack old ob =
     (case ob of MPRaw bs \<Rightarrow> Some (if length bs \<noteq> length old then old else bs) | _ \<Rightarrow> None)"

definition MsgPackRaw_pack :: "u8 list \<Rightarrow> mp_obj" where
  "MsgPackRaw_pack bs = MPRaw bs"

text \<open>The same two methods of \<open>TKadId\<close>.\<close>

definition KadId_unpack :: "kad_id \<Rightarrow> mp_obj \<Rightarrow> kad_id option" where
  "KadId_unpack old ob =
     (case ob of
        MPRaw bs \<Rightarrow> Some (if length bs \<noteq> length (mData old) then old else TKadId bs)
      | _ \<Rightarrow> None)"

definition KadId_pack :: "kad_id \<Rightarrow> mp_obj" where
  "KadId_pack a = MPRaw (mData a)"

subsection \<open>Addresses\<close>

text \<open>
  A socket address by its family: IPv4 (port and four bytes), IPv6 (port, sixteen bytes, and
  the flow and scope fields, which the messages do not carry), or another family.
\<close>

datatype sock_addr =
    SockV4 u16 "u8 list"
  | SockV6 u16 "u8 list" "u8 list"
  | SockOther u16

definition sock_ok :: "sock_addr \<Rightarrow> bool" where
  "sock_ok a = (case a of SockV4 p b \<Rightarrow> length b = 4 | SockV6 p b r \<Rightarrow> length b = 16 | SockOther f \<Rightarrow> True)"

record kad_msg_addr =
  mFamily :: u8
  mPort :: u16
  mAddr :: "u8 list"

abbreviation (input) UNSPEC :: u8 where "UNSPEC \<equiv> 0"
abbreviation (input) IPv4 :: u8 where "IPv4 \<equiv> 1"
abbreviation (input) IPv6 :: u8 where "IPv6 \<equiv> 2"
abbreviation (input) AF_UNSPEC :: u16 where "AF_UNSPEC \<equiv> 0"

text \<open>\<open>KadMsgAddr(const XSockAddr&)\<close>: \<open>g\<close> is what the object holds before.\<close>

definition KadMsgAddr_of :: "kad_msg_addr \<Rightarrow> sock_addr \<Rightarrow> kad_msg_addr" where
  "KadMsgAddr_of g a =
     (case a of
        SockV4 port addr \<Rightarrow> g\<lparr>mFamily := IPv4, mPort := port, mAddr := addr @ drop (length addr) (mAddr g)\<rparr>
      | SockV6 port addr rest \<Rightarrow> g\<lparr>mFamily := IPv6, mPort := port, mAddr := addr @ drop (length addr) (mAddr g)\<rparr>
      | SockOther f \<Rightarrow> g\<lparr>mFamily := UNSPEC\<rparr>)"

text \<open>\<open>operator XSockAddr\<close>: \<open>rest\<close> is what the flow and scope fields of the result hold.\<close>

definition SockAddr_of :: "u8 list \<Rightarrow> kad_msg_addr \<Rightarrow> sock_addr" where
  "SockAddr_of rest m =
     (if mFamily m = IPv4 then SockV4 (mPort m) (take 4 (mAddr m))
      else if mFamily m = IPv6 then SockV6 (mPort m) (take 16 (mAddr m)) rest
      else SockOther AF_UNSPEC)"

definition conv_member :: "(mp_obj \<Rightarrow> 'b option) \<Rightarrow> 'b \<Rightarrow> mp_obj option \<Rightarrow> 'b option" where
  "conv_member f old m = (case m of None \<Rightarrow> Some old | Some ob \<Rightarrow> f ob)"

definition KadMsgAddr_pack :: "msgpack \<Rightarrow> kad_msg_addr \<Rightarrow> mp_obj" where
  "KadMsgAddr_pack M a =
     mp_define M [mp_uint M (ucast (mFamily a)), mp_uint M (ucast (mPort a)), MsgPackRaw_pack (mAddr a)]"

definition KadMsgAddr_unpack :: "msgpack \<Rightarrow> kad_msg_addr \<Rightarrow> mp_obj \<Rightarrow> kad_msg_addr option" where
  "KadMsgAddr_unpack M old ob =
     (case mp_members M 3 ob of
        Some [f, p, r] \<Rightarrow>
          (case conv_member (\<lambda>x. map_option ucast (mp_conv_uint M 8 x)) (mFamily old) f of
             None \<Rightarrow> None
           | Some f' \<Rightarrow>
               (case conv_member (\<lambda>x. map_option ucast (mp_conv_uint M 16 x)) (mPort old) p of
                  None \<Rightarrow> None
                | Some p' \<Rightarrow>
                    map_option (\<lambda>r'. \<lparr>mFamily = f', mPort = p', mAddr = r'\<rparr>)
                      (conv_member (MsgPackRaw_unpack (mAddr old)) (mAddr old) r)))
      | _ \<Rightarrow> None)"

subsection \<open>Contacts in messages\<close>

record kad_msg_contact =
  mcId :: kad_id
  mcAddr :: kad_msg_addr

definition KadMsgContact_of :: "kad_msg_addr \<Rightarrow> sock_addr kad_contact \<Rightarrow> kad_msg_contact" where
  "KadMsgContact_of g c = \<lparr>mcId = mId c, mcAddr = KadMsgAddr_of g (mAddrExt c)\<rparr>"

definition KadMsgContact_to :: "u8 list \<Rightarrow> kad_msg_contact \<Rightarrow> sock_addr kad_contact" where
  "KadMsgContact_to rest c = KadContact (mcId c) (SockAddr_of rest (mcAddr c))"

definition KadMsgContact_pack :: "msgpack \<Rightarrow> kad_msg_contact \<Rightarrow> mp_obj" where
  "KadMsgContact_pack M c = mp_define M [KadId_pack (mcId c), KadMsgAddr_pack M (mcAddr c)]"

definition KadMsgContact_unpack :: "msgpack \<Rightarrow> kad_msg_contact \<Rightarrow> mp_obj \<Rightarrow> kad_msg_contact option" where
  "KadMsgContact_unpack M old ob =
     (case mp_members M 2 ob of
        Some [i, a] \<Rightarrow>
          (case conv_member (KadId_unpack (mcId old)) (mcId old) i of
             None \<Rightarrow> None
           | Some i' \<Rightarrow>
               map_option (\<lambda>a'. \<lparr>mcId = i', mcAddr = a'\<rparr>)
                 (conv_member (KadMsgAddr_unpack M (mcAddr old)) (mcAddr old) a))
      | _ \<Rightarrow> None)"

subsection \<open>The message types\<close>

abbreviation (input) KAD_MSG_PING :: u32 where "KAD_MSG_PING \<equiv> 0"
abbreviation (input) KAD_MSG_PONG :: u32 where "KAD_MSG_PONG \<equiv> 1"
abbreviation (input) KAD_MSG_JOIN_RSP :: u32 where "KAD_MSG_JOIN_RSP \<equiv> 3"
abbreviation (input) KAD_MSG_FIND_REQ :: u32 where "KAD_MSG_FIND_REQ \<equiv> 4"
abbreviation (input) KAD_MSG_FIND_RSP :: u32 where "KAD_MSG_FIND_RSP \<equiv> 5"
abbreviation (input) KAD_MSG_STORE_REQ :: u32 where "KAD_MSG_STORE_REQ \<equiv> 6"
abbreviation (input) KAD_MSG_STORE_RSP :: u32 where "KAD_MSG_STORE_RSP \<equiv> 7"
abbreviation (input) KAD_MSG_REMOVE_REQ :: u32 where "KAD_MSG_REMOVE_REQ \<equiv> 8"
abbreviation (input) KAD_MSG_REMOVE_RSP :: u32 where "KAD_MSG_REMOVE_RSP \<equiv> 9"
abbreviation (input) KAD_MSG_QTY :: nat where "KAD_MSG_QTY \<equiv> 14"

record kad_msg =
  mMsgType :: u32
  mMsgId :: u64
  mSrcId :: kad_id

record kad_msg_find_req = kad_msg +
  mTargetId :: kad_id

record kad_msg_find_rsp = kad_msg +
  mRspContacts :: "kad_msg_contact list"

definition KadMsg_pack :: "msgpack \<Rightarrow> 'b kad_msg_scheme \<Rightarrow> mp_obj" where
  "KadMsg_pack M m =
     mp_define M [mp_uint M (ucast (mMsgType m)), mp_uint M (mMsgId m), KadId_pack (mSrcId m)]"

definition KadMsg_unpack :: "msgpack \<Rightarrow> kad_msg \<Rightarrow> mp_obj \<Rightarrow> kad_msg option" where
  "KadMsg_unpack M old ob =
     (case mp_members M 3 ob of
        Some [t, i, s] \<Rightarrow>
          (case conv_member (\<lambda>x. map_option ucast (mp_conv_uint M 32 x)) (mMsgType old) t of
             None \<Rightarrow> None
           | Some t' \<Rightarrow>
               (case conv_member (mp_conv_uint M 64) (mMsgId old) i of
                  None \<Rightarrow> None
                | Some i' \<Rightarrow>
                    map_option (\<lambda>s'. \<lparr>mMsgType = t', mMsgId = i', mSrcId = s'\<rparr>)
                      (conv_member (KadId_unpack (mSrcId old)) (mSrcId old) s)))
      | _ \<Rightarrow> None)"

definition KadMsgPing_pack :: "msgpack \<Rightarrow> kad_msg \<Rightarrow> mp_obj" where
  "KadMsgPing_pack M m = mp_define M [KadMsg_pack M m]"

definition KadMsgPong_pack :: "msgpack \<Rightarrow> kad_msg \<Rightarrow> mp_obj" where
  "KadMsgPong_pack M m = mp_define M [KadMsg_pack M m]"

definition KadMsgFindReq_pack :: "msgpack \<Rightarrow> kad_msg_find_req \<Rightarrow> mp_obj" where
  "KadMsgFindReq_pack M m = mp_define M [KadMsg_pack M m, KadId_pack (mTargetId m)]"

definition KadMsgFindReq_unpack :: "msgpack \<Rightarrow> kad_msg_find_req \<Rightarrow> mp_obj \<Rightarrow> kad_msg_find_req option" where
  "KadMsgFindReq_unpack M old ob =
     (case mp_members M 2 ob of
        Some [h, t] \<Rightarrow>
          (case conv_member (KadMsg_unpack M (kad_msg.truncate old)) (kad_msg.truncate old) h of
             None \<Rightarrow> None
           | Some h' \<Rightarrow>
               map_option (\<lambda>t'. kad_msg.extend h' (kad_msg_find_req.fields t'))
                 (conv_member (KadId_unpack (mTargetId old)) (mTargetId old) t))
      | _ \<Rightarrow> None)"

definition KadMsgFindRsp_pack :: "msgpack \<Rightarrow> kad_msg_find_rsp \<Rightarrow> mp_obj" where
  "KadMsgFindRsp_pack M m =
     mp_define M [KadMsg_pack M m, mp_vector M (map (KadMsgContact_pack M) (mRspContacts m))]"

text \<open>Converting the vector stops at the first element that throws; \<open>c0\<close> is a fresh element.\<close>

fun conv_all :: "('b \<Rightarrow> 'c option) \<Rightarrow> 'b list \<Rightarrow> 'c list option" where
  "conv_all f [] = Some []"
| "conv_all f (x # xs) =
     (case f x of None \<Rightarrow> None | Some y \<Rightarrow> map_option ((#) y) (conv_all f xs))"

definition KadMsgFindRsp_unpack ::
    "msgpack \<Rightarrow> kad_msg_contact \<Rightarrow> kad_msg_find_rsp \<Rightarrow> mp_obj \<Rightarrow> kad_msg_find_rsp option" where
  "KadMsgFindRsp_unpack M c0 old ob =
     (case mp_members M 2 ob of
        Some [h, cs] \<Rightarrow>
          (case conv_member (KadMsg_unpack M (kad_msg.truncate old)) (kad_msg.truncate old) h of
             None \<Rightarrow> None
           | Some h' \<Rightarrow>
               map_option (\<lambda>cs'. kad_msg.extend h' (kad_msg_find_rsp.fields cs'))
                 (conv_member
                    (\<lambda>x. case mp_conv_vector M x of None \<Rightarrow> None
                         | Some xs \<Rightarrow> conv_all (KadMsgContact_unpack M c0) xs)
                    (mRspContacts old) cs))
      | _ \<Rightarrow> None)"

text \<open>The constructor of a response from a list of contacts.\<close>

definition KadMsgFindRsp_of :: "kad_msg_addr \<Rightarrow> kad_msg \<Rightarrow> sock_addr cstore \<Rightarrow> cptr list \<Rightarrow> kad_msg_find_rsp" where
  "KadMsgFindRsp_of g h st lst =
     kad_msg.extend (h\<lparr>mMsgType := KAD_MSG_FIND_RSP\<rparr>)
       (kad_msg_find_rsp.fields (map (\<lambda>p. KadMsgContact_of g (st ! p)) lst))"

subsection \<open>Round trips\<close>

lemma SockAddr_roundtrip:
  assumes "sock_ok a" "\<And>p b r. a = SockV6 p b r \<Longrightarrow> r = rest"
  shows "SockAddr_of rest (KadMsgAddr_of g a) = (case a of SockOther f \<Rightarrow> SockOther AF_UNSPEC | _ \<Rightarrow> a)"
  using assms by (auto simp: SockAddr_of_def KadMsgAddr_of_def sock_ok_def split: sock_addr.splits)

lemma msgpack_laws:
  assumes "msgpack_ok M"
  shows "mp_define M os = MPArray os"
    and "mp_members M n (MPArray os) = Some (array_members n os)"
    and "mp_uint M v = MPPos v"
    and "unat v < 2 ^ w \<Longrightarrow> mp_conv_uint M w (MPPos v) = Some v"
    and "mp_vector M os = MPArray os" and "mp_conv_vector M (MPArray os) = Some os"
  using assms by (simp_all add: msgpack_ok_def)

lemma conv_uint_ucast:
  assumes "msgpack_ok M" "LENGTH('w::len) \<le> w" "w \<le> 64"
  shows "mp_conv_uint M w (MPPos (ucast (v :: 'w word))) = Some (ucast v)"
proof -
  have v: "unat v < 2 ^ k" if "LENGTH('w) \<le> k" for k
    using unsigned_less [of v, where 'a = nat] power_increasing [OF that, of "2 :: nat"]
    by (meson less_le_trans one_le_numeral)
  have "unat (ucast v :: u64) = unat v"
    using v [of 64] assms(2,3) by (simp add: unsigned_ucast_eq take_bit_nat_eq_self)
  also have "\<dots> < 2 ^ w"
    by (rule v [OF assms(2)])
  finally show ?thesis using assms(1) by (simp add: msgpack_laws)
qed

lemma ucast_ucast_up: "LENGTH('w::len) \<le> 64 \<Longrightarrow> ucast (ucast (v :: 'w word) :: u64) = v"
  by (auto intro!: bit_word_eqI simp: bit_ucast_iff)

lemma array_members_simps [simp]:
  "array_members 2 [a, b] = [Some a, Some b]" "array_members 3 [a, b, c] = [Some a, Some b, Some c]"
  by (simp_all add: array_members_def)

lemma KadId_roundtrip:
  "length (mData old) = length (mData a) \<Longrightarrow> KadId_unpack old (KadId_pack a) = Some a"
  by (simp add: KadId_unpack_def KadId_pack_def)

lemma KadMsgAddr_roundtrip:
  assumes "msgpack_ok M" "length (mAddr old) = length (mAddr a)"
  shows "KadMsgAddr_unpack M old (KadMsgAddr_pack M a) = Some a"
  using assms
  by (simp add: KadMsgAddr_unpack_def KadMsgAddr_pack_def msgpack_laws(1-3) conv_member_def
      conv_uint_ucast ucast_ucast_up MsgPackRaw_pack_def MsgPackRaw_unpack_def)

lemma KadMsgContact_roundtrip:
  assumes "msgpack_ok M" "length (mAddr (mcAddr old)) = length (mAddr (mcAddr c))"
    "length (mData (mcId old)) = length (mData (mcId c))"
  shows "KadMsgContact_unpack M old (KadMsgContact_pack M c) = Some c"
  using assms
  by (simp add: KadMsgContact_unpack_def KadMsgContact_pack_def msgpack_laws(1-3) conv_member_def
      KadId_roundtrip KadMsgAddr_roundtrip)

lemma KadMsg_roundtrip:
  assumes "msgpack_ok M" "length (mData (mSrcId old)) = length (mData (mSrcId m))"
  shows "KadMsg_unpack M old (KadMsg_pack M m) = Some (kad_msg.truncate m)"
proof -
  have "unat (mMsgId m) < 2 ^ 64"
    using unsigned_less [of "mMsgId m", where 'a = nat] by simp
  with assms show ?thesis
    by (simp add: KadMsg_unpack_def KadMsg_pack_def msgpack_laws conv_member_def conv_uint_ucast
        ucast_ucast_up KadId_roundtrip kad_msg.defs)
qed

lemma conv_all_map:
  "(\<And>x. x \<in> set xs \<Longrightarrow> f (g x) = Some x) \<Longrightarrow> conv_all f (map g xs) = Some xs"
  by (induction xs) simp_all

lemma KadMsgFindRsp_roundtrip:
  assumes "msgpack_ok M" "length (mData (mSrcId old)) = length (mData (mSrcId m))"
    "\<forall>c \<in> set (mRspContacts m). length (mAddr (mcAddr c0)) = length (mAddr (mcAddr c)) \<and>
       length (mData (mcId c0)) = length (mData (mcId c))"
  shows "KadMsgFindRsp_unpack M c0 old (KadMsgFindRsp_pack M m) = Some m"
proof -
  have "conv_all (KadMsgContact_unpack M c0) (map (KadMsgContact_pack M) (mRspContacts m)) =
    Some (mRspContacts m)"
    using assms by (intro conv_all_map) (simp add: KadMsgContact_roundtrip)
  with assms show ?thesis
    by (cases m) (simp add: KadMsgFindRsp_unpack_def KadMsgFindRsp_pack_def msgpack_laws
        conv_member_def KadMsg_roundtrip kad_msg.defs kad_msg_find_rsp.defs)
qed

lemma KadMsgFindReq_roundtrip:
  assumes "msgpack_ok M" "length (mData (mSrcId old)) = length (mData (mSrcId m))"
    "length (mData (mTargetId old)) = length (mData (mTargetId m))"
  shows "KadMsgFindReq_unpack M old (KadMsgFindReq_pack M m) = Some m"
  using assms
  by (cases m) (simp add: KadMsgFindReq_unpack_def KadMsgFindReq_pack_def msgpack_laws
      conv_member_def KadMsg_roundtrip KadId_roundtrip kad_msg.defs kad_msg_find_req.defs)

text \<open>A library that satisfies the laws, but for the byte format, which it takes as arguments.\<close>

definition plain_msgpack :: "(mp_obj \<Rightarrow> u8 list) \<Rightarrow> (u8 list \<Rightarrow> mp_obj option) \<Rightarrow> msgpack" where
  "plain_msgpack enc dec =
     \<lparr>mp_define = MPArray,
      mp_members = (\<lambda>n ob. case ob of MPArray os \<Rightarrow> Some (array_members n os) | _ \<Rightarrow> None),
      mp_uint = MPPos,
      mp_conv_uint = (\<lambda>w ob. case ob of MPPos v \<Rightarrow> if unat v < 2 ^ w then Some v else None | _ \<Rightarrow> None),
      mp_vector = MPArray,
      mp_conv_vector = (\<lambda>ob. case ob of MPArray os \<Rightarrow> Some os | _ \<Rightarrow> None),
      mp_encode = enc, mp_decode = dec\<rparr>"

lemma plain_msgpack_ok: "msgpack_ok (plain_msgpack enc dec)"
  by (auto simp: msgpack_ok_def plain_msgpack_def split: mp_obj.splits if_splits)

end
