(* ===== verification/MsgProps.thy ===== *)
theory MsgProps
  imports KadMsg
begin

section \<open>Messages survive the wire\<close>

text \<open>
  A \<open>codec\<close> is a pair of conversions to and from MessagePack objects that gives back what was
  packed. Such a pair is injective, and vectors of its values have the same law. All message
  types and their parts are codecs, for any library that satisfies \<open>msgpack_ok\<close>.
\<close>

locale codec =
  fixes ok :: "'m \<Rightarrow> bool"
    and pack :: "'m \<Rightarrow> mp_obj"
    and unpack :: "mp_obj \<Rightarrow> 'm option"
  assumes roundtrip: "ok a \<Longrightarrow> unpack (pack a) = Some a"
begin

lemma pack_inj: "ok a \<Longrightarrow> ok b \<Longrightarrow> pack a = pack b \<Longrightarrow> a = b"
  using roundtrip by (metis option.inject)

lemma vector_roundtrip: "\<forall>a \<in> set as. ok a \<Longrightarrow> conv_all unpack (map pack as) = Some as"
  by (rule conv_all_map) (simp add: roundtrip)

lemma vector_inj:
  "\<forall>a \<in> set as. ok a \<Longrightarrow> \<forall>b \<in> set bs. ok b \<Longrightarrow> map pack as = map pack bs \<Longrightarrow> as = bs"
  by (metis vector_roundtrip option.inject)

end

interpretation id_codec: codec "\<lambda>a. length (mData old) = length (mData a)" KadId_pack "KadId_unpack old"
  by unfold_locales (rule KadId_roundtrip)

interpretation addr_codec: codec "\<lambda>a. msgpack_ok M \<and> length (mAddr old) = length (mAddr a)"
  "KadMsgAddr_pack M" "KadMsgAddr_unpack M old"
  by unfold_locales (simp add: KadMsgAddr_roundtrip)

interpretation contact_codec: codec "\<lambda>c. msgpack_ok M \<and> length (mAddr (mcAddr old)) = length (mAddr (mcAddr c)) \<and>
    length (mData (mcId old)) = length (mData (mcId c))" "KadMsgContact_pack M" "KadMsgContact_unpack M old"
  by unfold_locales (simp add: KadMsgContact_roundtrip)

interpretation req_codec: codec "\<lambda>m. msgpack_ok M \<and> length (mData (mSrcId old)) = length (mData (mSrcId m)) \<and>
    length (mData (mTargetId old)) = length (mData (mTargetId m))" "KadMsgFindReq_pack M" "KadMsgFindReq_unpack M old"
  by unfold_locales (simp add: KadMsgFindReq_roundtrip)

interpretation rsp_codec: codec "\<lambda>m. msgpack_ok M \<and> length (mData (mSrcId old)) = length (mData (mSrcId m)) \<and>
    (\<forall>c \<in> set (mRspContacts m). length (mAddr (mcAddr c0)) = length (mAddr (mcAddr c)) \<and>
       length (mData (mcId c0)) = length (mData (mcId c)))" "KadMsgFindRsp_pack M" "KadMsgFindRsp_unpack M c0 old"
  by unfold_locales (simp add: KadMsgFindRsp_roundtrip)

text \<open>The laws of the library hold for the plain one, so the hypotheses can be met.\<close>

abbreviation (input) msg_lib :: msgpack where
  "msg_lib \<equiv> plain_msgpack (\<lambda>ob. []) (\<lambda>bs. None)"

definition msg_addr0 :: kad_msg_addr where
  "msg_addr0 = \<lparr>mFamily = 0, mPort = 0, mAddr = replicate 16 170\<rparr>"

definition msg_hdr :: "u32 \<Rightarrow> kad_msg" where
  "msg_hdr t = \<lparr>mMsgType = t, mMsgId = 77, mSrcId = TKadId (replicate 20 3)\<rparr>"

text \<open>
  C21: a \<open>FIND_RSP\<close> made from a list of contacts, packed, and unpacked by the receiver into
  fresh objects gives the same header and, in order, the identifiers and addresses of the
  contacts. (Of an IPv6 address the flow and scope fields are not sent.)
\<close>

theorem findRsp_end_to_end:
  assumes "msgpack_ok M" "length (mAddr g) = 16" "length (mAddr (mcAddr c0)) = 16"
    and "id_ok 20 (mcId c0)" "id_ok 20 (mSrcId (old :: kad_msg_find_rsp))" "id_ok 20 (mSrcId h)"
    and "\<forall>p \<in> set lst. id_ok 20 (idof st p) \<and> sock_ok (mAddrExt (st ! p)) \<and>
      (\<forall>p' b r. mAddrExt (st ! p) = SockV6 p' b r \<longrightarrow> r = rest) \<and>
      (\<forall>f. mAddrExt (st ! p) = SockOther f \<longrightarrow> f = 0)"
  shows "\<exists>r. KadMsgFindRsp_unpack M c0 old (KadMsgFindRsp_pack M (KadMsgFindRsp_of g h st lst)) = Some r \<and>
    kad_msg.truncate r = h\<lparr>mMsgType := KAD_MSG_FIND_RSP\<rparr> \<and> map mcId (mRspContacts r) = map (idof st) lst \<and>
    map (\<lambda>c. SockAddr_of rest (mcAddr c)) (mRspContacts r) = map (\<lambda>p. mAddrExt (st ! p)) lst"
proof -
  let ?m = "KadMsgFindRsp_of g h st lst"
  have cs: "mRspContacts ?m = map (\<lambda>p. KadMsgContact_of g (st ! p)) lst" "mSrcId ?m = mSrcId h"
    "kad_msg.truncate ?m = h\<lparr>mMsgType := 5\<rparr>"
    by (simp_all add: KadMsgFindRsp_of_def kad_msg.defs kad_msg_find_rsp.defs)
  have a: "length (mAddr (KadMsgAddr_of g s)) = 16" if "sock_ok s" for s
    using that assms(2) by (auto simp: KadMsgAddr_of_def sock_ok_def split: sock_addr.splits)
  have "KadMsgFindRsp_unpack M c0 old (KadMsgFindRsp_pack M ?m) = Some ?m"
    by (rule rsp_codec.roundtrip)
      (use assms a in \<open>auto simp: cs KadMsgContact_of_def id_ok_def idof_def\<close>)
  moreover have "map mcId (mRspContacts ?m) = map (idof st) lst"
    by (simp add: cs KadMsgContact_of_def idof_def)
  moreover have "SockAddr_of rest (KadMsgAddr_of g (mAddrExt (st ! p))) = mAddrExt (st ! p)"
    if "p \<in> set lst" for p
    using SockAddr_roundtrip [of "mAddrExt (st ! p)" rest g] assms(7) that
    by (auto split: sock_addr.splits)
  then have "map (\<lambda>c. SockAddr_of rest (mcAddr c)) (mRspContacts ?m) = map (\<lambda>p. mAddrExt (st ! p)) lst"
    by (simp add: cs KadMsgContact_of_def)
  ultimately show ?thesis using cs(3) by blast
qed

definition msg_store :: "sock_addr cstore" where
  "msg_store = [KadContact (TKadId (replicate 20 7)) (SockV4 4660 [192, 168, 0, 1]),
                KadContact (TKadId (replicate 20 9)) (SockV6 99 (replicate 16 1) [])]"

lemma findRsp_end_to_end_witness:
  "\<exists>r. KadMsgFindRsp_unpack msg_lib \<lparr>mcId = Clear 20, mcAddr = msg_addr0\<rparr>
        (kad_msg.extend (msg_hdr 0) (kad_msg_find_rsp.fields []))
        (KadMsgFindRsp_pack msg_lib (KadMsgFindRsp_of msg_addr0 (msg_hdr 0) msg_store [1, 0])) = Some r \<and>
     map (\<lambda>c. SockAddr_of [] (mcAddr c)) (mRspContacts r) =
       [SockV6 99 (replicate 16 1) [], SockV4 4660 [192, 168, 0, 1]]"
proof -
  let ?c0 = "\<lparr>mcId = Clear 20, mcAddr = msg_addr0\<rparr>"
    and ?old = "kad_msg.extend (msg_hdr 0) (kad_msg_find_rsp.fields [])"
  have "id_ok 20 (mcId ?c0)" "id_ok 20 (mSrcId ?old)" "id_ok 20 (mSrcId (msg_hdr 0))"
    by (simp_all add: msg_hdr_def kad_msg.defs kad_msg_find_rsp.defs id_ok_def Clear_def)
  moreover have "length (mAddr msg_addr0) = 16" "length (mAddr (mcAddr ?c0)) = 16"
    by (simp_all add: msg_addr0_def)
  moreover have "\<forall>p \<in> set [1, 0]. id_ok 20 (idof msg_store p) \<and> sock_ok (mAddrExt (msg_store ! p)) \<and>
      (\<forall>p' b r. mAddrExt (msg_store ! p) = SockV6 p' b r \<longrightarrow> r = []) \<and>
      (\<forall>f. mAddrExt (msg_store ! p) = SockOther f \<longrightarrow> f = 0)"
    by (simp add: msg_store_def idof_def KadContact_def id_ok_def sock_ok_def)
  ultimately show ?thesis
    using findRsp_end_to_end [OF plain_msgpack_ok, of msg_addr0 ?c0 ?old "msg_hdr 0" "[1, 0]" msg_store "[]"]
    by (fastforce simp: msg_store_def KadContact_def)
qed

text \<open>
  A \<open>FIND_REQ\<close> is unpacked to the request that was packed, and two requests with the same
  packed form are the same.
\<close>

theorem findReq_roundtrip:
  assumes "msgpack_ok M" "id_ok 20 (mSrcId old)" "id_ok 20 (mTargetId old)"
    and "id_ok 20 (mSrcId a)" "id_ok 20 (mTargetId a)" "id_ok 20 (mSrcId b)" "id_ok 20 (mTargetId b)"
  shows "KadMsgFindReq_unpack M old (KadMsgFindReq_pack M a) = Some a \<and>
    (KadMsgFindReq_pack M a = KadMsgFindReq_pack M b \<longleftrightarrow> a = b)"
proof -
  have ok: "msgpack_ok M \<and> length (mData (mSrcId old)) = length (mData (mSrcId c)) \<and>
      length (mData (mTargetId old)) = length (mData (mTargetId c))"
    if "id_ok 20 (mSrcId c)" "id_ok 20 (mTargetId c)" for c :: kad_msg_find_req
    using assms(1-3) that by (simp add: id_ok_def)
  show ?thesis
    using req_codec.roundtrip [OF ok [OF assms(4,5)]] req_codec.pack_inj [OF ok [OF assms(4,5)] ok [OF assms(6,7)]]
    by blast
qed

lemma findReq_roundtrip_witness:
  "KadMsgFindReq_unpack msg_lib (kad_msg.extend (msg_hdr 0) (kad_msg_find_req.fields (Clear 20)))
     (KadMsgFindReq_pack msg_lib (kad_msg.extend (msg_hdr 4) (kad_msg_find_req.fields (TKadId (replicate 20 9))))) =
   Some (kad_msg.extend (msg_hdr 4) (kad_msg_find_req.fields (TKadId (replicate 20 9))))"
  using findReq_roundtrip [OF plain_msgpack_ok,
      of "kad_msg.extend (msg_hdr 0) (kad_msg_find_req.fields (Clear 20))"
        "kad_msg.extend (msg_hdr 4) (kad_msg_find_req.fields (TKadId (replicate 20 9)))"
        "kad_msg.extend (msg_hdr 4) (kad_msg_find_req.fields (TKadId (replicate 20 9)))"]
  by (simp add: msg_hdr_def kad_msg.defs kad_msg_find_req.defs id_ok_def Clear_def)




end
