(* ===== verification/KadOpState.thy ===== *)
theory KadOpState
  imports KadRtNode KadMsg
begin

section \<open>The state of the operation manager\<close>

text \<open>
  The state of \<open>KadOpMgr\<close> in \<open>src/KadOpMgr.h\<close> and the operations that the node lookup and the
  message handlers share: looking up or adding a contact, the contact cache, sending.

  Objects that the code allocates and reaches through pointers live in heaps, and a pointer is
  a position: contacts, request trackers (\<open>ReqTracker\<close>) and lookups (\<open>KadIterativeFindOp\<close>). A
  tracker's handler delegate is bound to \<open>OnResponce\<close> of a lookup, so it is that lookup. What
  the program does to the outside (datagrams, timers, completed lookups) is appended to
  \<open>effects\<close>. Each handler runs under \<open>mLock\<close>, so it is one step.
\<close>

datatype find_handler = JoinFindComplete | JoinUpdateComplete | UserHandler nat | NoHandler

type_synonym tptr = nat
type_synonym fptr = nat

record find_op =
  mKey :: kad_id
  mList :: "cptr list"
  mBlock :: "cptr list"
  mPendingQty :: int
  mHandler :: find_handler

record req_tracker =
  mDst :: cptr
  mTrMsgId :: u64
  mTrOp :: fptr

datatype out_msg =
    OutPing kad_msg
  | OutPong kad_msg
  | OutFindReq kad_msg_find_req
  | OutFindRsp kad_msg_find_rsp

datatype effect =
    SendTo out_msg sock_addr
  | SetTimer tptr nat
  | CancelTimer tptr
  | FindDone fptr "cptr list"
  | SetPeriodicRefresh nat nat

record kad_stats =
  UdpReqTx :: u64
  UdpRspTx :: u64
  UdpReqRx :: u64
  UdpRspRx :: u64
  UdtTx :: u64
  UdtRx :: u64
  TcpTx :: u64
  TcpRx :: u64
  TcpAcc :: u64
  ContInRt :: u32
  ContCacheHit :: u32
  ContCacheMiss :: u32
  ReqSucc :: u32
  ReqFail :: u32
  RspUnkn :: u32
  MsgDropped :: u32

record op_mgr =
  mRoutingTable :: rtnode
  mContactHeap :: "sock_addr cstore"
  mFindHeap :: "find_op list"
  mTrackerHeap :: "req_tracker list"
  mOps :: "tptr list"
  mContactCache :: "cptr list"
  mStats :: kad_stats
  mEffects :: "effect list"
  mRandomQty :: nat

text \<open>
  What is not under \<open>src/\<close>: the containers, MessagePack, the sequence of values of \<open>random()\<close>,
  and what uninitialised parts of addresses hold.
\<close>

record kad_env =
  XC :: "cptr xlist"
  XT :: "tptr xlist"
  MP :: msgpack
  random_at :: "nat \<Rightarrow> u64"
  rest6 :: "u8 list"
  addr0 :: kad_msg_addr

text \<open>Ways a handler can fail: an exception of MessagePack, a null pointer, an assertion.\<close>

datatype kad_error = UnpackError | TypeError | NullDeref | AssertFailed

definition LocalId :: "op_mgr \<Rightarrow> kad_id" where
  "LocalId m = mLocalId (mRoutingTable m)"

definition Stats0 :: kad_stats where
  "Stats0 = \<lparr>UdpReqTx = 0, UdpRspTx = 0, UdpReqRx = 0, UdpRspRx = 0, UdtTx = 0,
     UdtRx = 0, TcpTx = 0, TcpRx = 0, TcpAcc = 0, ContInRt = 0, ContCacheHit = 0,
     ContCacheMiss = 0, ReqSucc = 0, ReqFail = 0, RspUnkn = 0, MsgDropped = 0\<rparr>"

definition KadOpMgr :: "kad_id \<Rightarrow> op_mgr" where
  "KadOpMgr local_id =
     \<lparr>mRoutingTable = RtNode local_id, mContactHeap = [], mFindHeap = [], mTrackerHeap = [], mOps = [],
      mContactCache = [], mStats = Stats0, mEffects = [], mRandomQty = 0\<rparr>"

subsection \<open>Contacts\<close>

text \<open>The loop of \<open>CheckInCache\<close>: the position of the first contact with the identifier.\<close>

fun CacheHit :: "'a cstore \<Rightarrow> cptr list \<Rightarrow> kad_id \<Rightarrow> nat option" where
  "CacheHit st [] nid = None"
| "CacheHit st (p # ps) nid =
     (if id_eq nid (idof st p) then Some 0 else map_option Suc (CacheHit st ps nid))"

text \<open>\<open>while (mContactCache.Count() > 64) mContactCache.PopFront()\<close>, with fuel for its turns.\<close>

fun TrimCache :: "nat \<Rightarrow> cptr xlist \<Rightarrow> cptr list \<Rightarrow> cptr list" where
  "TrimCache 0 X ca = ca"
| "TrimCache (Suc n) X ca = (if 64 < length ca then TrimCache n X (PopFront X ca) else ca)"

definition CheckInCache :: "kad_env \<Rightarrow> op_mgr \<Rightarrow> kad_id \<Rightarrow> sock_addr \<Rightarrow> op_mgr \<times> cptr" where
  "CheckInCache E m nid addr =
     (let ca = mContactCache m; X = XC E; s = mStats m in
      case CacheHit (mContactHeap m) ca nid of
        Some it \<Rightarrow>
          (let result = ca ! it;
               ca1 = (if it \<noteq> length ca - 1 then Append X (snd (RemoveAt X ca it)) result else ca)
           in (m\<lparr>mContactCache := ca1, mStats := s\<lparr>ContCacheHit := ContCacheHit s + 1\<rparr>\<rparr>, result))
      | None \<Rightarrow>
          (let (result, st1) = NewContact (mContactHeap m) nid addr;
               ca1 = Append X ca result
           in (m\<lparr>mContactHeap := st1, mContactCache := TrimCache (length ca1) X ca1,
                 mStats := s\<lparr>ContCacheMiss := ContCacheMiss s + 1\<rparr>\<rparr>, result)))"

text \<open>\<open>FindAddContact\<close>: \<open>None\<close> is the null pointer. \<open>AddNode\<close> never returns one.\<close>

definition FindAddContact :: "kad_env \<Rightarrow> op_mgr \<Rightarrow> kad_id \<Rightarrow> sock_addr \<Rightarrow> op_mgr \<times> cptr option" where
  "FindAddContact E m nid addr =
     (if id_eq nid (LocalId m) then (m, None)
      else
        (let (st1, t1, p) = RtAdd (XC E) (mContactHeap m) (mRoutingTable m) nid addr;
             m1 = m\<lparr>mContactHeap := st1, mRoutingTable := t1\<rparr>; rt = Some p
         in case rt of
              Some q \<Rightarrow> (m1\<lparr>mStats := (mStats m1)\<lparr>ContInRt := ContInRt (mStats m1) + 1\<rparr>\<rparr>, Some q)
            | None \<Rightarrow> (let (m2, cc) = CheckInCache E m1 nid addr in (m2, Some cc))))"

definition SetFailQty :: "op_mgr \<Rightarrow> cptr \<Rightarrow> u32 \<Rightarrow> op_mgr" where
  "SetFailQty m p q = m\<lparr>mContactHeap := (mContactHeap m)[p := (mContactHeap m ! p)\<lparr>mFailQty := q\<rparr>]\<rparr>"

subsection \<open>Sending\<close>

fun out_pack :: "msgpack \<Rightarrow> out_msg \<Rightarrow> mp_obj" where
  "out_pack M (OutPing m) = KadMsgPing_pack M m"
| "out_pack M (OutPong m) = KadMsgPong_pack M m"
| "out_pack M (OutFindReq m) = KadMsgFindReq_pack M m"
| "out_pack M (OutFindRsp m) = KadMsgFindRsp_pack M m"

fun out_stamp :: "kad_id \<Rightarrow> u64 \<Rightarrow> out_msg \<Rightarrow> out_msg" where
  "out_stamp src i (OutPing m) = OutPing (m\<lparr>mSrcId := src, mMsgId := i\<rparr>)"
| "out_stamp src i (OutPong m) = OutPong (m\<lparr>mSrcId := src, mMsgId := i\<rparr>)"
| "out_stamp src i (OutFindReq m) = OutFindReq (m\<lparr>mSrcId := src, mMsgId := i\<rparr>)"
| "out_stamp src i (OutFindRsp m) = OutFindRsp (m\<lparr>mSrcId := src, mMsgId := i\<rparr>)"

definition out_size :: "kad_env \<Rightarrow> out_msg \<Rightarrow> u64" where
  "out_size E s = of_nat (length (mp_encode (MP E) (out_pack (MP E) s)))"

definition emit :: "effect list \<Rightarrow> op_mgr \<Rightarrow> op_mgr" where
  "emit es m = m\<lparr>mEffects := mEffects m @ es\<rparr>"

text \<open>\<open>new ReqTracker(c, handler)\<close> and \<open>SendRequest(s, handler)\<close>.\<close>

definition NewTracker :: "kad_env \<Rightarrow> op_mgr \<Rightarrow> cptr \<Rightarrow> fptr \<Rightarrow> op_mgr \<times> tptr" where
  "NewTracker E m c f =
     (m\<lparr>mTrackerHeap := mTrackerHeap m @ [\<lparr>mDst = c, mTrMsgId = random_at E (mRandomQty m), mTrOp = f\<rparr>],
        mRandomQty := mRandomQty m + 1\<rparr>, length (mTrackerHeap m))"

definition SendRequest :: "kad_env \<Rightarrow> op_mgr \<Rightarrow> out_msg \<Rightarrow> tptr \<Rightarrow> op_mgr" where
  "SendRequest E m s h =
     (let t = mTrackerHeap m ! h;
          s1 = out_stamp (LocalId m) (mTrMsgId t) s;
          m1 = m\<lparr>mOps := Append (XT E) (mOps m) h\<rparr>;
          m2 = emit [SendTo s1 (mAddrExt (mContactHeap m ! mDst t)), SetTimer h KADEMLIA_TIMEOUT_RESPONSE] m1
      in m2\<lparr>mStats := (mStats m2)\<lparr>UdpReqTx := UdpReqTx (mStats m2) + out_size E s1\<rparr>\<rparr>)"

text \<open>The overload that sends to an address, without a tracker; it counts in \<open>UdpRspTx\<close>.\<close>

definition SendRequestAddr :: "kad_env \<Rightarrow> op_mgr \<Rightarrow> out_msg \<Rightarrow> sock_addr \<Rightarrow> op_mgr" where
  "SendRequestAddr E m s addr =
     (let s1 = out_stamp (LocalId m) 0 s; m1 = emit [SendTo s1 addr] m
      in m1\<lparr>mStats := (mStats m1)\<lparr>UdpRspTx := UdpRspTx (mStats m1) + out_size E s1\<rparr>\<rparr>)"

definition SendResponse :: "kad_env \<Rightarrow> op_mgr \<Rightarrow> out_msg \<Rightarrow> sock_addr \<Rightarrow> kad_msg \<Rightarrow> op_mgr" where
  "SendResponse E m s addr req =
     (let s1 = out_stamp (LocalId m) (mMsgId req) s; m1 = emit [SendTo s1 addr] m
      in m1\<lparr>mStats := (mStats m1)\<lparr>UdpRspTx := UdpRspTx (mStats m1) + out_size E s1\<rparr>\<rparr>)"

definition KadMsgHdr :: "u32 \<Rightarrow> kad_msg" where
  "KadMsgHdr t = \<lparr>mMsgType = t, mMsgId = 0, mSrcId = Clear KADEMLIA_ID_SIZE\<rparr>"

definition KadMsgFindReq_new :: "kad_id \<Rightarrow> kad_msg_find_req" where
  "KadMsgFindReq_new nid = kad_msg.extend (KadMsgHdr KAD_MSG_FIND_REQ) (kad_msg_find_req.fields nid)"

end
