(* ===== verification/KadLookup.thy ===== *)
theory KadLookup
  imports KadOpState
begin

section \<open>The iterative node lookup\<close>

text \<open>
  \<open>KadIterativeFindOp\<close> of \<open>src/KadOpMgr.h\<close>. A lookup keeps the contacts it knows nearest to its
  key (\<open>mList\<close>), those it must not ask again (\<open>mBlock\<close>) and the number of requests in flight.
  Its methods change the manager's state, which is passed along; the lookup is \<open>mFindHeap m ! f\<close>.
\<close>

definition find_upd :: "fptr \<Rightarrow> (find_op \<Rightarrow> find_op) \<Rightarrow> op_mgr \<Rightarrow> op_mgr" where
  "find_upd f u m = m\<lparr>mFindHeap := (mFindHeap m)[f := u (mFindHeap m ! f)]\<rparr>"

subsection \<open>Insertion by distance\<close>

text \<open>Where the loop of \<open>Insert\<close> stops.\<close>

datatype insert_scan = Existing | At nat | AtEnd

fun Insert_loop :: "'a cstore \<Rightarrow> kad_id \<Rightarrow> kad_id \<Rightarrow> cptr list \<Rightarrow> insert_scan" where
  "Insert_loop st key cid [] = AtEnd"
| "Insert_loop st key cid (p # ps) =
     (if id_eq cid (idof st p) then Existing
      else if Closer key cid (idof st p) then At 0
      else (case Insert_loop st key cid ps of At i \<Rightarrow> At (Suc i) | r \<Rightarrow> r))"

definition Insert :: "cptr xlist \<Rightarrow> 'a cstore \<Rightarrow> kad_id \<Rightarrow> cptr \<Rightarrow> cptr list \<Rightarrow> cptr list \<times> bool" where
  "Insert X st key c lst =
     (case Insert_loop st key (idof st c) lst of
        Existing \<Rightarrow> (lst, False)
      | AtEnd \<Rightarrow>
          (if length lst < KADEMLIA_BUCKET_SIZE then (Append X lst c, True) else (lst, False))
      | At it \<Rightarrow>
          (if length lst < KADEMLIA_BUCKET_SIZE then (InsertBefore X lst it c, True)
           else (PopBack X (InsertBefore X lst it c), True)))"

fun FindById :: "'a cstore \<Rightarrow> cptr list \<Rightarrow> kad_id \<Rightarrow> cptr option" where
  "FindById st [] nid = None"
| "FindById st (p # ps) nid = (if id_eq (idof st p) nid then Some p else FindById st ps nid)"

subsection \<open>Sending requests\<close>

text \<open>
  The two loops of \<open>Send\<close>: for each failure count below \<open>KADEMLIA_STALE\<close>, over the list. The
  flag is set once \<open>sent >= qty\<close> has returned from both.
\<close>

definition SendOne :: "kad_env \<Rightarrow> fptr \<Rightarrow> op_mgr \<Rightarrow> cptr \<Rightarrow> op_mgr" where
  "SendOne E f m c =
     (let m1 = find_upd f (\<lambda>r. r\<lparr>mBlock := Append (XC E) (mBlock r) c\<rparr>) m;
          findReq = KadMsgFindReq_new (mKey (mFindHeap m ! f));
          (m2, h) = NewTracker E m1 c f;
          m3 = SendRequest E m2 (OutFindReq findReq) h
      in find_upd f (\<lambda>r. r\<lparr>mPendingQty := mPendingQty r + 1\<rparr>) m3)"

fun Send_list :: "kad_env \<Rightarrow> fptr \<Rightarrow> int \<Rightarrow> u32 \<Rightarrow> cptr list \<Rightarrow> op_mgr \<times> int \<Rightarrow> (op_mgr \<times> int) \<times> bool" where
  "Send_list E f qty stale [] (m, sent) = ((m, sent), False)"
| "Send_list E f qty stale (c # cs) (m, sent) =
     (if stale = mFailQty (mContactHeap m ! c) \<and>
         FindAfter (XC E) (mBlock (mFindHeap m ! f)) 0 (\<lambda>x. x = c) = None
      then (let m1 = SendOne E f m c; sent1 = sent + 1
            in if qty \<le> sent1 then ((m1, sent1), True) else Send_list E f qty stale cs (m1, sent1))
      else Send_list E f qty stale cs (m, sent))"

fun Send_loop :: "kad_env \<Rightarrow> fptr \<Rightarrow> int \<Rightarrow> u32 list \<Rightarrow> op_mgr \<times> int \<Rightarrow> op_mgr \<times> int" where
  "Send_loop E f qty [] s = s"
| "Send_loop E f qty (stale # sts) s =
     (let (s1, returned) = Send_list E f qty stale (mList (mFindHeap (fst s) ! f)) s
      in if returned then s1 else Send_loop E f qty sts s1)"

definition Send :: "kad_env \<Rightarrow> fptr \<Rightarrow> int \<Rightarrow> op_mgr \<Rightarrow> kad_error + op_mgr \<times> int" where
  "Send E f qty m =
     (if \<not> 0 < qty then Inl AssertFailed
      else Inr (Send_loop E f qty (map of_nat [0..<unat KADEMLIA_STALE]) (m, 0)))"

subsection \<open>Completion\<close>

definition Complete :: "fptr \<Rightarrow> op_mgr \<Rightarrow> op_mgr" where
  "Complete f m =
     (let r = mFindHeap m ! f; m1 = emit [FindDone f (mList r)] m in
      case mHandler r of
        JoinFindComplete \<Rightarrow> emit [SetPeriodicRefresh 0 KADEMLIA_REFRESH] m1
      | JoinUpdateComplete \<Rightarrow> m1
      | UserHandler n \<Rightarrow> m1
      | NoHandler \<Rightarrow> m1)"

subsection \<open>Merging a response\<close>

definition MergeOne :: "kad_env \<Rightarrow> fptr \<Rightarrow> kad_msg_contact \<Rightarrow> op_mgr \<times> int \<Rightarrow> kad_error + op_mgr \<times> int" where
  "MergeOne E f i s =
     (let (m, insertQty) = s; nid = mcId i; r = mFindHeap m ! f; st = mContactHeap m in
      if \<not> IsZero nid \<and> id_neq nid (LocalId m) \<and>
         FindById st (mBlock r) nid = None \<and> FindById st (mList r) nid = None
      then
        (case FindAddContact E m nid (SockAddr_of (rest6 E) (mcAddr i)) of
           (m1, None) \<Rightarrow> Inl NullDeref
         | (m1, Some c) \<Rightarrow>
             (let r1 = mFindHeap m1 ! f;
                  (lst, inserted) = Insert (XC E) (mContactHeap m1) (mKey r1) c (mList r1);
                  m2 = find_upd f (\<lambda>x. x\<lparr>mList := lst\<rparr>) m1
              in Inr (m2, if inserted then insertQty + 1 else insertQty)))
      else Inr s)"

fun Merge :: "kad_env \<Rightarrow> fptr \<Rightarrow> kad_msg_contact list \<Rightarrow> op_mgr \<times> int \<Rightarrow> kad_error + op_mgr \<times> int" where
  "Merge E f [] s = Inr s"
| "Merge E f (i # is) s =
     (case MergeOne E f i s of Inl e \<Rightarrow> Inl e | Inr s1 \<Rightarrow> Merge E f is s1)"

text \<open>\<open>KadMsgFindRsp findRsp = rsp->convert()\<close>, with what the fresh objects hold.\<close>

definition ConvFindRsp :: "kad_env \<Rightarrow> mp_obj \<Rightarrow> kad_msg_find_rsp option" where
  "ConvFindRsp E ob =
     KadMsgFindRsp_unpack (MP E) \<lparr>mcId = Clear KADEMLIA_ID_SIZE, mcAddr = (addr0 E)\<lparr>mFamily := UNSPEC\<rparr>\<rparr>
       (kad_msg.extend (KadMsgHdr 0) (kad_msg_find_rsp.fields [])) ob"

subsection \<open>A response or a timeout\<close>

definition OnTimeoutOf :: "kad_env \<Rightarrow> fptr \<Rightarrow> cptr \<Rightarrow> nat \<Rightarrow> op_mgr \<Rightarrow> kad_error + op_mgr" where
  "OnTimeoutOf E f contact pending m =
     (let r = mFindHeap m ! f;
          m1 = (if IsStale (mContactHeap m ! contact)
                then (case FindAfter (XC E) (mList r) 0 (\<lambda>x. x = contact) of
                        Some n \<Rightarrow> find_upd f (\<lambda>x. x\<lparr>mList := snd (RemoveAt (XC E) (mList x) n)\<rparr>) m
                      | None \<Rightarrow> m)
                else find_upd f (\<lambda>x. x\<lparr>mBlock := snd (RemoveAt (XC E) (mBlock x) pending)\<rparr>) m)
      in case Send E f 1 m1 of
           Inl e \<Rightarrow> Inl e
         | Inr (m2, sentQty) \<Rightarrow>
             (if sentQty \<noteq> 0 then Inr m2
              else if mPendingQty (mFindHeap m2 ! f) = 0 then Inr (Complete f m2)
              else Inr m2))"

definition OnFindRsp :: "kad_env \<Rightarrow> fptr \<Rightarrow> mp_obj \<Rightarrow> op_mgr \<Rightarrow> kad_error + op_mgr" where
  "OnFindRsp E f ob m =
     (case ConvFindRsp E ob of
        None \<Rightarrow> Inl TypeError
      | Some findRsp \<Rightarrow>
          (case Merge E f (mRspContacts findRsp) (m, 0) of
             Inl e \<Rightarrow> Inl e
           | Inr (m1, insertQty) \<Rightarrow>
               (let pendingQty = mPendingQty (mFindHeap m1 ! f) in
                if insertQty \<noteq> 0
                then (if \<not> pendingQty \<le> KADEMLIA_ALPHA then Inl AssertFailed
                      else (case Send E f (KADEMLIA_ALPHA - pendingQty) m1 of
                              Inl e \<Rightarrow> Inl e
                            | Inr (m2, sentQty) \<Rightarrow> Inr m2))
                else if pendingQty = 0 then Inr (Complete f m1)
                else Inr m1)))"

definition OnResponce :: "kad_env \<Rightarrow> fptr \<Rightarrow> mp_obj option \<Rightarrow> cptr \<Rightarrow> op_mgr \<Rightarrow> kad_error + op_mgr" where
  "OnResponce E f rsp contact m =
     (case FindAfter (XC E) (mBlock (mFindHeap m ! f)) 0 (\<lambda>x. x = contact) of
        None \<Rightarrow> Inr m
      | Some pending \<Rightarrow>
          (let m1 = find_upd f (\<lambda>r. r\<lparr>mPendingQty := mPendingQty r - 1\<rparr>) m in
           case rsp of
             None \<Rightarrow> OnTimeoutOf E f contact pending m1
           | Some ob \<Rightarrow> OnFindRsp E f ob m1))"

subsection \<open>Starting a lookup\<close>

fun InsertAll :: "cptr xlist \<Rightarrow> 'a cstore \<Rightarrow> kad_id \<Rightarrow> cptr list \<Rightarrow> cptr list \<Rightarrow> cptr list" where
  "InsertAll X st key [] lst = lst"
| "InsertAll X st key (c # cs) lst = InsertAll X st key cs (fst (Insert X st key c lst))"

definition NewFind :: "kad_env \<Rightarrow> op_mgr \<Rightarrow> kad_id \<Rightarrow> find_handler \<Rightarrow> op_mgr \<times> fptr" where
  "NewFind E m key h =
     (let lst = RtFindClosest (XC E) (mContactHeap m) (mRoutingTable m) key KADEMLIA_BUCKET_SIZE;
          r = \<lparr>mKey = key, mList = InsertAll (XC E) (mContactHeap m) key lst [], mBlock = [],
               mPendingQty = 0, mHandler = h\<rparr>
      in (m\<lparr>mFindHeap := mFindHeap m @ [r]\<rparr>, length (mFindHeap m)))"

text \<open>\<open>Find\<close> allocates the lookup and calls its \<open>Start\<close>.\<close>

definition Find :: "kad_env \<Rightarrow> op_mgr \<Rightarrow> kad_id \<Rightarrow> find_handler \<Rightarrow> kad_error + op_mgr" where
  "Find E m key h =
     (let (m1, f) = NewFind E m key h in
      case Send E f KADEMLIA_ALPHA m1 of
        Inl e \<Rightarrow> Inl e
      | Inr (m2, sentQty) \<Rightarrow> Inr m2)"

end
