(* ===== verification/KadOpMgr.thy ===== *)
theory KadOpMgr
  imports KadLookup
begin

section \<open>The operation manager\<close>

text \<open>
  The message and timer handlers and the public operations of \<open>KadOpMgr\<close> in
  \<open>src/KadOpMgr.h\<close>. Each handler takes the manager's state and returns the new one, or the
  error that leaves it. \<open>kad_step\<close> is the machine: any handler may run next, on any input.
\<close>

subsection \<open>Responses and timeouts\<close>

text \<open>\<open>ReqTracker::OnTimeout\<close> and \<open>ReqTracker::OnResponse\<close>.\<close>

definition TrackerOnTimeout :: "kad_env \<Rightarrow> op_mgr \<Rightarrow> tptr \<Rightarrow> kad_error + op_mgr" where
  "TrackerOnTimeout E m h =
     (let t = mTrackerHeap m ! h;
          m1 = SetFailQty m (mDst t) (mFailQty (mContactHeap m ! mDst t) + 1)
      in OnResponce E (mTrOp t) None (mDst t) m1)"

definition TrackerOnResponse :: "kad_env \<Rightarrow> op_mgr \<Rightarrow> tptr \<Rightarrow> mp_obj \<Rightarrow> kad_error + op_mgr" where
  "TrackerOnResponse E m h rsp =
     (let t = mTrackerHeap m ! h; m1 = SetFailQty m (mDst t) 0
      in OnResponce E (mTrOp t) (Some rsp) (mDst t) m1)"

definition HandleResponse :: "kad_env \<Rightarrow> op_mgr \<Rightarrow> kad_msg \<Rightarrow> mp_obj \<Rightarrow> kad_error + op_mgr" where
  "HandleResponse E m hdr ob =
     (if mMsgId hdr = 0 then Inr m
      else
        (case FindAfter (XT E) (mOps m) 0 (\<lambda>h. mMsgId hdr = mTrMsgId (mTrackerHeap m ! h)) of
           Some t \<Rightarrow>
             (let handler = mOps m ! t;
                  m1 = m\<lparr>mStats := (mStats m)\<lparr>ReqSucc := ReqSucc (mStats m) + 1\<rparr>,
                         mOps := snd (RemoveAt (XT E) (mOps m) t)\<rparr>
              in TrackerOnResponse E (emit [CancelTimer handler] m1) handler ob)
         | None \<Rightarrow> Inr (m\<lparr>mStats := (mStats m)\<lparr>RspUnkn := RspUnkn (mStats m) + 1\<rparr>\<rparr>)))"

definition HandleTimeout :: "kad_env \<Rightarrow> op_mgr \<Rightarrow> tptr \<Rightarrow> kad_error + op_mgr" where
  "HandleTimeout E m handler =
     (case FindAfter (XT E) (mOps m) 0 (\<lambda>h. h = handler) of
        Some t \<Rightarrow>
          (let m1 = m\<lparr>mStats := (mStats m)\<lparr>ReqFail := ReqFail (mStats m) + 1\<rparr>,
                      mOps := snd (RemoveAt (XT E) (mOps m) t)\<rparr>
           in TrackerOnTimeout E m1 handler)
      | None \<Rightarrow> Inr m)"

subsection \<open>Receiving a datagram\<close>

text \<open>The sanity check: an array whose first item is a header of three fields with a known type.\<close>

definition SaneFormat :: "mp_obj \<Rightarrow> bool" where
  "SaneFormat ob =
     (case ob of
        MPArray (MPArray [MPPos t, i, s] # items) \<Rightarrow> unat t < KAD_MSG_QTY
      | _ \<Rightarrow> False)"

definition header_of :: "mp_obj \<Rightarrow> mp_obj" where
  "header_of ob = (case ob of MPArray (h # items) \<Rightarrow> h | _ \<Rightarrow> MPNil)"

definition ConvFindReq :: "kad_env \<Rightarrow> mp_obj \<Rightarrow> kad_msg_find_req option" where
  "ConvFindReq E ob =
     KadMsgFindReq_unpack (MP E)
       (kad_msg.extend (KadMsgHdr 0) (kad_msg_find_req.fields (Clear KADEMLIA_ID_SIZE))) ob"

definition CountReqRx :: "u64 \<Rightarrow> op_mgr \<Rightarrow> op_mgr" where
  "CountReqRx len m = m\<lparr>mStats := (mStats m)\<lparr>UdpReqRx := UdpReqRx (mStats m) + len\<rparr>\<rparr>"

definition CountRspRx :: "u64 \<Rightarrow> op_mgr \<Rightarrow> op_mgr" where
  "CountRspRx len m = m\<lparr>mStats := (mStats m)\<lparr>UdpRspRx := UdpRspRx (mStats m) + len\<rparr>\<rparr>"

definition CountDropped :: "op_mgr \<Rightarrow> op_mgr" where
  "CountDropped m = m\<lparr>mStats := (mStats m)\<lparr>MsgDropped := MsgDropped (mStats m) + 1\<rparr>\<rparr>"

text \<open>The \<open>switch\<close> on the message type.\<close>

definition Dispatch :: "kad_env \<Rightarrow> op_mgr \<Rightarrow> kad_msg \<Rightarrow> mp_obj \<Rightarrow> u64 \<Rightarrow> sock_addr \<Rightarrow> kad_error + op_mgr" where
  "Dispatch E m req ob len from =
     (if mMsgType req = KAD_MSG_PING then
        Inr (SendResponse E (CountReqRx len m) (OutPong (KadMsgHdr KAD_MSG_PONG)) from req)
      else if mMsgType req = KAD_MSG_FIND_REQ then
        (case ConvFindReq E ob of
           None \<Rightarrow> Inl TypeError
         | Some findReq \<Rightarrow>
             (let m1 = CountReqRx len m;
                  lst = RtFindClosest (XC E) (mContactHeap m1) (mRoutingTable m1) (mTargetId findReq)
                          KADEMLIA_BUCKET_SIZE;
                  findRsp = KadMsgFindRsp_of (addr0 E) (KadMsgHdr 0) (mContactHeap m1) lst
              in Inr (SendResponse E m1 (OutFindRsp findRsp) from req)))
      else if mMsgType req = KAD_MSG_STORE_REQ \<or> mMsgType req = KAD_MSG_REMOVE_REQ then
        Inr (CountReqRx len m)
      else if mMsgType req \<in> {KAD_MSG_PONG, KAD_MSG_JOIN_RSP, KAD_MSG_FIND_RSP, KAD_MSG_STORE_RSP,
                              KAD_MSG_REMOVE_RSP} then
        HandleResponse E (CountRspRx len m) req ob
      else Inr m)"

text \<open>
  \<open>RecieveCbk\<close>; \<open>dice\<close> is the value of \<open>RandRange(0,100)\<close> when it is called. It holds the lock while it finds or adds the
  sender's contact and releases it before the \<open>switch\<close>, which takes it again: \<open>RecieveHead\<close> is the part up to
  the release, with the message to dispatch, and other handlers may run between the two.
\<close>

definition RecieveHead :: "kad_env \<Rightarrow> op_mgr \<Rightarrow> u8 list \<Rightarrow> sock_addr \<Rightarrow> nat \<Rightarrow> kad_error + op_mgr \<times> (kad_msg \<times> mp_obj) option" where
  "RecieveHead E m buff from dice =
     (case mp_decode (MP E) buff of
        None \<Rightarrow> Inl UnpackError
      | Some ob \<Rightarrow>
          (if \<not> SaneFormat ob then Inr (CountDropped m, None)
           else if dice < 30 then Inr (m, None)
           else
             (case KadMsg_unpack (MP E) (KadMsgHdr 0) (header_of ob) of
                None \<Rightarrow> Inl TypeError
              | Some req \<Rightarrow>
                  (if id_eq (mSrcId req) (LocalId m) then Inr (CountDropped m, None)
                   else
                     (case FindAddContact E m (mSrcId req) from of
                        (m1, None) \<Rightarrow> Inl NullDeref
                      | (m1, Some contact) \<Rightarrow>
                          Inr (if IsStale (mContactHeap m1 ! contact) then SetFailQty m1 contact 0 else m1, Some (req, ob)))))))"

definition RecieveCbk :: "kad_env \<Rightarrow> op_mgr \<Rightarrow> u8 list \<Rightarrow> sock_addr \<Rightarrow> nat \<Rightarrow> kad_error + op_mgr" where
  "RecieveCbk E m buff from dice =
     (case RecieveHead E m buff from dice of
        Inl e \<Rightarrow> Inl e
      | Inr (m1, None) \<Rightarrow> Inr m1
      | Inr (m1, Some (req, ob)) \<Rightarrow> Dispatch E m1 req ob (of_nat (length buff)) from)"

subsection \<open>Public operations\<close>

definition OpFindClosest :: "kad_env \<Rightarrow> op_mgr \<Rightarrow> kad_id \<Rightarrow> nat \<Rightarrow> cptr list" where
  "OpFindClosest E m nid qty = RtFindClosest (XC E) (mContactHeap m) (mRoutingTable m) nid qty"

fun PingAll :: "kad_env \<Rightarrow> op_mgr \<Rightarrow> sock_addr list \<Rightarrow> op_mgr" where
  "PingAll E m [] = m"
| "PingAll E m (a # as) = PingAll E (SendRequestAddr E m (OutPing (KadMsgHdr KAD_MSG_PING)) a) as"

text \<open>
  \<open>Join\<close> pings the bootstrap nodes until the routing table has a contact, waiting longer
  each round, then looks up the local identifier. What the receiving thread does to the state
  during the waits of a round is an element of \<open>others\<close>; \<open>None\<close> means still waiting.
\<close>

definition NextDelay :: "nat \<Rightarrow> nat" where
  "NextDelay delay =
     (if delay < 30000 then (let d = 3 * delay div 2 in if 30000 < d then 30000 else d) else delay)"

fun Join_loop :: "kad_env \<Rightarrow> sock_addr list \<Rightarrow> op_mgr \<Rightarrow> nat \<Rightarrow> nat \<Rightarrow> (op_mgr \<Rightarrow> op_mgr) list \<Rightarrow>
    (op_mgr \<times> nat) option" where
  "Join_loop E bsp m cnt delay [] = (if cnt \<noteq> 0 then Some (m, delay) else None)"
| "Join_loop E bsp m cnt delay (other # others) =
     (if cnt \<noteq> 0 then Some (m, delay)
      else (let m1 = other (PingAll E m bsp)
            in Join_loop E bsp m1 (CountContacts (mRoutingTable m1)) (NextDelay delay) others))"

definition Join :: "kad_env \<Rightarrow> op_mgr \<Rightarrow> sock_addr list \<Rightarrow> (op_mgr \<Rightarrow> op_mgr) list \<Rightarrow>
    kad_error + op_mgr option" where
  "Join E m bsp others =
     (if length bsp = 0 then Inr (Some m)
      else (case Join_loop E bsp m (CountContacts (mRoutingTable m)) KADEMLIA_TIMEOUT_RESPONSE others of
              None \<Rightarrow> Inr None
            | Some (m1, d) \<Rightarrow>
                (case Find E m1 (LocalId m1) JoinFindComplete of
                   Inl e \<Rightarrow> Inl e | Inr m2 \<Rightarrow> Inr (Some m2))))"

text \<open>\<open>Leave\<close>: the addresses of the live contacts.\<close>

fun Leave_loop :: "sock_addr xlist \<Rightarrow> sock_addr cstore \<Rightarrow> cptr list \<Rightarrow> sock_addr list \<Rightarrow> sock_addr list" where
  "Leave_loop X st [] result = result"
| "Leave_loop X st (p # ps) result = Leave_loop X st ps (Append X result (mAddrExt (st ! p)))"

definition Leave :: "sock_addr xlist \<Rightarrow> kad_env \<Rightarrow> op_mgr \<Rightarrow> sock_addr list" where
  "Leave XA E m = Leave_loop XA (mContactHeap m) (GetContacts (XC E) (mContactHeap m) (mRoutingTable m)) []"

text \<open>
  \<open>RefreshAllBuckets\<close>: for \<open>i\<close> from 1 to 159 a lookup of an identifier made from the
  \<open>i\<close>-th of the random identifiers \<open>rnd\<close>. An out-of-range bit is a failed assertion.
\<close>

definition RefreshTarget :: "kad_id \<Rightarrow> kad_id \<Rightarrow> nat \<Rightarrow> kad_id option" where
  "RefreshTarget local_id rnd i =
     (case PowerOfTwo KADEMLIA_ID_SIZE (int i) of
        None \<Rightarrow> None
      | Some prefix \<Rightarrow>
          (case SetBits rnd 0 i False of
             None \<Rightarrow> None
           | Some rndId \<Rightarrow> Some (id_xor (id_or rndId prefix) local_id)))"

fun Refresh_loop :: "kad_env \<Rightarrow> (nat \<Rightarrow> kad_id) \<Rightarrow> nat list \<Rightarrow> op_mgr \<Rightarrow> kad_error + op_mgr" where
  "Refresh_loop E rnd [] m = Inr m"
| "Refresh_loop E rnd (i # is) m =
     (case RefreshTarget (LocalId m) (rnd i) i of
        None \<Rightarrow> Inl AssertFailed
      | Some target \<Rightarrow>
          (case Find E m target JoinUpdateComplete of
             Inl e \<Rightarrow> Inl e | Inr m1 \<Rightarrow> Refresh_loop E rnd is m1))"

definition RefreshAllBuckets :: "kad_env \<Rightarrow> (nat \<Rightarrow> kad_id) \<Rightarrow> op_mgr \<Rightarrow> kad_error + op_mgr" where
  "RefreshAllBuckets E rnd m = Refresh_loop E rnd [1..<KADEMLIA_ID_BITS] m"

subsection \<open>The machine\<close>

text \<open>
  A datagram is handled in one step (\<open>Receive\<close>), or in two, with other steps between them: \<open>Enter\<close> up to the release of
  the lock, and \<open>Switch\<close>, which may run for any message, whether it was entered before or not: the machine allows more than the
  code does.
\<close>

datatype kad_event =
    Receive "u8 list" sock_addr nat
  | Enter "u8 list" sock_addr nat
  | Switch kad_msg mp_obj u64 sock_addr
  | Timer tptr
  | Lookup kad_id find_handler
  | PingBsp "sock_addr list"

fun kad_handle :: "kad_env \<Rightarrow> kad_event \<Rightarrow> op_mgr \<Rightarrow> kad_error + op_mgr" where
  "kad_handle E (Receive buff from dice) m = RecieveCbk E m buff from dice"
| "kad_handle E (Enter buff from dice) m = (case RecieveHead E m buff from dice of Inl e \<Rightarrow> Inl e | Inr (m1, r) \<Rightarrow> Inr m1)"
| "kad_handle E (Switch req ob len from) m = Dispatch E m req ob len from"
| "kad_handle E (Timer h) m = HandleTimeout E m h"
| "kad_handle E (Lookup key h) m = Find E m key h"
| "kad_handle E (PingBsp as) m = Inr (PingAll E m as)"

inductive kad_step :: "kad_env \<Rightarrow> op_mgr \<Rightarrow> kad_event \<Rightarrow> op_mgr \<Rightarrow> bool" for E where
  handle: "kad_handle E ev m = Inr m' \<Longrightarrow> kad_step E m ev m'"

text \<open>Only identifiers of the right size are looked up.\<close>

fun event_ok :: "kad_event \<Rightarrow> bool" where
  "event_ok (Lookup key h) \<longleftrightarrow> id_ok KADEMLIA_ID_SIZE key"
| "event_ok _ \<longleftrightarrow> True"

inductive kad_reach :: "kad_env \<Rightarrow> kad_id \<Rightarrow> op_mgr \<Rightarrow> bool" for E l where
  init: "kad_reach E l (KadOpMgr l)"
| step: "kad_reach E l m \<Longrightarrow> event_ok ev \<Longrightarrow> kad_step E m ev m' \<Longrightarrow> kad_reach E l m'"

inductive_cases kad_stepE: "kad_step E m ev m'"

end
