(* ===== verification/LookupList.thy ===== *)
theory LookupList
  imports KadLookup RtNodeQuery
begin

section \<open>The list of a lookup holds the nearest contacts\<close>

text \<open>
  \<open>Insert\<close> keeps the list of a lookup strictly sorted by distance to the key and at most 16
  long; on the distances it computes the 16 smallest of the set of those already there and
  the new one (\<open>nearest\<close>), so a whole series of insertions keeps the 16 nearest of all.
\<close>

definition kdist :: "'a cstore \<Rightarrow> kad_id \<Rightarrow> cptr \<Rightarrow> nat" where
  "kdist st key p = id_val key XOR id_val (idof st p)"

definition nearest :: "nat \<Rightarrow> nat set \<Rightarrow> nat list" where
  "nearest k S = take k (sorted_list_of_set S)"

subsection \<open>The nearest of a set\<close>

lemma strict_sorted_unique:
  assumes "sorted_wrt (<) l" "set l = (S :: nat set)"
  shows "sorted_list_of_set S = l"
  using assms by (metis sorted_list_of_set.idem_if_sorted_distinct strict_sorted_iff)

lemma sorted_insert_at:
  assumes "sorted_wrt (<) (D :: nat list)" "d \<notin> set D"
  shows "sorted_wrt (<) (takeWhile (\<lambda>x. x < d) D @ d # dropWhile (\<lambda>x. x < d) D)"
  using assms
proof (induction D)
  case (Cons x D)
  show ?case
  proof (cases "x < d")
    case True
    have s: "set (takeWhile (\<lambda>x. x < d) D @ d # dropWhile (\<lambda>x. x < d) D) = insert d (set D)"
      by (metis Un_insert_right list.simps(15) set_append takeWhile_dropWhile_id)
    have "\<forall>y \<in> insert d (set D). x < y" using Cons.prems True by auto
    with s Cons True show ?thesis by (simp del: set_append)
  qed (use Cons.prems in auto)
qed simp

lemma nearest_insert_list:
  assumes "sorted_wrt (<) (D :: nat list)" "d \<notin> set D"
  shows "nearest k (insert d (set D)) = take k (takeWhile (\<lambda>x. x < d) D @ d # dropWhile (\<lambda>x. x < d) D)"
proof -
  have "set (takeWhile (\<lambda>x. x < d) D @ d # dropWhile (\<lambda>x. x < d) D) = insert d (set D)"
    by (metis Un_insert_right list.simps(15) set_append takeWhile_dropWhile_id)
  then show ?thesis
    unfolding nearest_def using strict_sorted_unique [OF sorted_insert_at [OF assms]] by simp
qed

lemma nearest_sorted: "sorted_wrt (<) (nearest k S)"
  unfolding nearest_def by (rule sorted_wrt_take) simp

lemma nearest_length: "length (nearest k S) \<le> k"
  by (simp add: nearest_def)

lemma nearest_of_sorted:
  "sorted_wrt (<) l \<Longrightarrow> length l \<le> k \<Longrightarrow> nearest k (set l) = l"
  by (simp add: nearest_def strict_sorted_unique)

text \<open>Keeping only the nearest so far loses nothing.\<close>

lemma take_insert_take:
  assumes "sorted_wrt (<) (D :: nat list)"
  shows "take k (takeWhile (\<lambda>x. x < d) (take k D) @ d # dropWhile (\<lambda>x. x < d) (take k D)) =
    take k (takeWhile (\<lambda>x. x < d) D @ d # dropWhile (\<lambda>x. x < d) D)"
  using assms
proof (induction D arbitrary: k)
  case (Cons x D)
  note IH = Cons.IH
  have s: "sorted_wrt (<) D" using Cons.prems by simp
  show ?case
  proof (cases k)
    case (Suc j)
    show ?thesis
    proof (cases "x < d")
      case True
      then show ?thesis using IH [OF s, of j] Suc by (simp del: take_append)
    next
      case False
      then show ?thesis using Suc by (simp add: take_Cons' min_def)
    qed
  qed simp
qed simp

lemma nearest_insert_nearest:
  assumes "finite S"
  shows "nearest k (insert d (set (nearest k S))) = nearest k (insert d S)"
proof -
  obtain D where D: "sorted_wrt (<) D" "set D = S" "sorted_list_of_set S = D"
    using assms by (metis set_sorted_list_of_set strict_sorted_list_of_set)
  have n: "nearest k S = take k D" using D(3) by (simp add: nearest_def)
  have sk: "sorted_wrt (<) (take k D)" by (rule sorted_wrt_take [OF D(1)])
  consider "d \<in> set (take k D)" | "d \<notin> set (take k D)" "d \<in> S" | "d \<notin> S"
    by blast
  then show ?thesis
  proof cases
    case 1
    then have "d \<in> S" using D(2) by (metis in_set_takeD)
    with 1 have "insert d (set (take k D)) = set (take k D)" "insert d S = S" by blast+
    then show ?thesis using nearest_of_sorted [OF sk, of k] n by simp
  next
    case 2
    then obtain i where i: "i < length D" "D ! i = d" using D(2) by (metis in_set_conv_nth)
    have "k \<le> i"
      using 2(1) i by (metis in_set_conv_nth length_take min_less_iff_conj not_le nth_take)
    have lt: "\<forall>x \<in> set (take k D). x < d"
      using sorted_wrt_nth_less [OF D(1)] i \<open>k \<le> i\<close> by (auto simp: in_set_conv_nth)
    have tw: "takeWhile (\<lambda>x. x < d) (take k D) = take k D" using lt by simp
    have "nearest k (insert d (set (take k D))) = take k D"
      unfolding nearest_insert_list [OF sk 2(1)] tw using i(1) \<open>k \<le> i\<close> by simp
    moreover have "insert d S = S" using 2(2) by blast
    ultimately show ?thesis using n by simp
  next
    case 3
    have d: "d \<notin> set (take k D)" "d \<notin> set D" using 3 D(2) by (metis in_set_takeD)+
    show ?thesis
      using nearest_insert_list [OF sk d(1), of k] nearest_insert_list [OF D(1) d(2), of k]
        take_insert_take [OF D(1), of k d] n D(2) by (simp del: take_append)
  qed
qed

subsection \<open>One insertion\<close>

lemma Insert_loop_spec:
  assumes "id_ok n key" "id_ok n (idof st c)" "\<forall>p \<in> set lst. id_ok n (idof st p)"
    and "sorted_wrt (<) (map (kdist st key) lst)"
  shows "Insert_loop st key (idof st c) lst =
    (if kdist st key c \<in> set (map (kdist st key) lst) then Existing
     else let i = length (takeWhile (\<lambda>x. x < kdist st key c) (map (kdist st key) lst))
          in if i = length lst then AtEnd else At i)"
  using assms(3,4)
proof (induction lst)
  case (Cons p ps)
  have p: "id_ok n (idof st p)" using Cons.prems by simp
  have eq: "id_eq (idof st c) (idof st p) \<longleftrightarrow> kdist st key c = kdist st key p"
    using assms(1,2) p idsp.dist_unique [of n key "idof st c" "idof st p"]
    by (auto simp: id_cmp_iffs [of n] kdist_def)
  have lt: "Closer key (idof st c) (idof st p) \<longleftrightarrow> kdist st key c < kdist st key p"
    using assms(1,2) p by (simp add: Closer_iff [of n] kdist_def)
  show ?case
    using Cons eq lt by (auto simp: Let_def)
qed simp

lemma Insert_spec:
  assumes X: "xlist_ok X" and ok: "id_ok n key" "id_ok n (idof st c)" "\<forall>p \<in> set lst. id_ok n (idof st p)"
    and s: "sorted_wrt (<) (map (kdist st key) lst)" and len: "length lst \<le> KADEMLIA_BUCKET_SIZE"
    and r: "Insert X st key c lst = (lst', b)"
  shows "map (kdist st key) lst' = nearest KADEMLIA_BUCKET_SIZE (insert (kdist st key c) (kdist st key ` set lst))"
    and "b \<longleftrightarrow> lst' \<noteq> lst" and "set lst' \<subseteq> insert c (set lst)"
proof -
  let ?D = "map (kdist st key) lst" and ?d = "kdist st key c"
  define i where "i = length (takeWhile (\<lambda>x. x < ?d) ?D)"
  have il: "i \<le> length lst" using length_takeWhile_le [of "\<lambda>x. x < ?d" ?D] by (simp add: i_def)
  have loop: "Insert_loop st key (idof st c) lst =
      (if ?d \<in> set ?D then Existing else if i = length lst then AtEnd else At i)"
    using Insert_loop_spec [OF ok s] by (simp add: i_def Let_def)
  have pos: "nearest 16 (insert ?d (set ?D)) = take 16 (take i ?D @ ?d # drop i ?D)" if "?d \<notin> set ?D"
    unfolding nearest_insert_list [OF s that]
    by (simp only: i_def takeWhile_eq_take [symmetric] dropWhile_eq_drop [symmetric])
  consider "?d \<in> set ?D" | "?d \<notin> set ?D" "i = length lst" | "?d \<notin> set ?D" "i < length lst"
    using il by linarith
  then have "map (kdist st key) lst' = nearest 16 (insert ?d (set ?D)) \<and> (b \<longleftrightarrow> lst' \<noteq> lst) \<and>
      set lst' \<subseteq> insert c (set lst)"
  proof cases
    case 1
    then have "lst' = lst" "b = False" using r loop by (auto simp: Insert_def)
    moreover have "insert ?d (set ?D) = set ?D" using 1 by blast
    ultimately show ?thesis using nearest_of_sorted [OF s, of 16] len by auto
  next
    case 2
    show ?thesis
      unfolding pos [OF 2(1)] using r loop 2 len X by (auto simp: Insert_def xl_simps split: if_splits)
  next
    case 3
    have ne: "lst ! i \<noteq> c" using 3 by (metis image_eqI nth_mem set_map)
    define l1 where "l1 = take i lst @ c # drop i lst"
    have l1: "map (kdist st key) l1 = take i ?D @ ?d # drop i ?D" "length l1 = Suc (length lst)"
      "l1 ! i = c" "set l1 = insert c (set lst)" "l1 \<noteq> []"
      using 3(2) unfolding l1_def
      by (simp_all add: take_map drop_map nth_append) (metis Un_insert_right append_take_drop_id set_append)
    have res: "(lst', b) = (if length lst < 16 then l1 else butlast l1, True)"
      using r loop 3 l1(5) by (auto simp: Insert_def xl_laws [OF X] l1_def)
    show ?thesis
    proof (cases "length lst < 16")
      case True
      then show ?thesis
        unfolding pos [OF 3(1)] l1(1) [symmetric] using res l1(2,4) by auto
    next
      case False
      have b: "butlast l1 = take 16 l1" using False l1(2) len by (simp add: butlast_conv_take)
      have "take 16 l1 ! i = c" using l1(3) 3(2) len by simp
      with ne have "take 16 l1 \<noteq> lst" by auto
      then show ?thesis
        unfolding pos [OF 3(1)] l1(1) [symmetric] using res b False l1(4)
        by (auto simp: take_map dest: in_set_takeD)
    qed
  qed
  then show "map (kdist st key) lst' = nearest 16 (insert ?d (kdist st key ` set lst))"
    "b \<longleftrightarrow> lst' \<noteq> lst" "set lst' \<subseteq> insert c (set lst)"
    by simp_all
qed

text \<open>What the list of a lookup satisfies, and a whole series of insertions.\<close>

definition list_ok :: "'a cstore \<Rightarrow> kad_id \<Rightarrow> cptr list \<Rightarrow> bool" where
  "list_ok st key lst \<longleftrightarrow>
     (\<forall>p \<in> set lst. p < length st \<and> id_ok KADEMLIA_ID_SIZE (idof st p)) \<and>
     sorted_wrt (<) (map (kdist st key) lst) \<and> length lst \<le> KADEMLIA_BUCKET_SIZE"

lemma list_ok_Nil [simp]: "list_ok st key []"
  by (simp add: list_ok_def)

lemma list_ok_Insert:
  assumes "xlist_ok X" "id_ok 20 key" "c < length st" "id_ok 20 (idof st c)" "list_ok st key lst"
    and "Insert X st key c lst = (lst', b)"
  shows "list_ok st key lst'"
proof -
  have "map (kdist st key) lst' = nearest 16 (insert (kdist st key c) (kdist st key ` set lst))"
    "set lst' \<subseteq> insert c (set lst)"
    using Insert_spec [OF assms(1,2,4) _ _ _ assms(6)] assms(5) by (auto simp: list_ok_def)
  moreover from this(1) have "length lst' \<le> 16"
    using nearest_length by (metis length_map)
  ultimately show ?thesis
    using assms(3-5) nearest_sorted by (auto simp: list_ok_def)
qed

lemma InsertAll_spec:
  assumes X: "xlist_ok X" and ok: "id_ok 20 key"
    and "\<forall>p \<in> set cs. p < length st \<and> id_ok 20 (idof st p)" "list_ok st key lst"
  shows "list_ok st key (InsertAll X st key cs lst) \<and>
    map (kdist st key) (InsertAll X st key cs lst) =
      nearest KADEMLIA_BUCKET_SIZE (kdist st key ` (set lst \<union> set cs)) \<and>
    set (InsertAll X st key cs lst) \<subseteq> set lst \<union> set cs"
  using assms(3,4)
proof (induction cs arbitrary: lst)
  case Nil
  then show ?case using nearest_of_sorted [of "map (kdist st key) lst" 16] by (simp add: list_ok_def)
next
  case (Cons c cs)
  obtain l1 b where r: "Insert X st key c lst = (l1, b)" by fastforce
  have c: "c < length st" "id_ok 20 (idof st c)" using Cons.prems(1) by simp_all
  have ok1: "list_ok st key l1" by (rule list_ok_Insert [OF X ok c Cons.prems(2) r])
  have D1: "map (kdist st key) l1 = nearest 16 (insert (kdist st key c) (kdist st key ` set lst))"
    "set l1 \<subseteq> insert c (set lst)"
    using Insert_spec [OF X ok c(2) _ _ _ r] Cons.prems(2) by (auto simp: list_ok_def)
  have un: "nearest 16 (S \<union> set (nearest 16 T)) = nearest 16 (S \<union> T)" if "finite S" "finite T" for S T
    using that(1)
  proof induction
    case empty
    show ?case using nearest_of_sorted [OF nearest_sorted nearest_length] by simp
  next
    case (insert x S)
    then show ?case
      using nearest_insert_nearest [of "S \<union> set (nearest 16 T)" 16 x]
        nearest_insert_nearest [of "S \<union> T" 16 x] that(2) by simp
  qed
  have "map (kdist st key) (InsertAll X st key cs l1) =
      nearest 16 (kdist st key ` set cs \<union> set (nearest 16 (insert (kdist st key c) (kdist st key ` set lst))))"
    using Cons.IH [OF _ ok1] Cons.prems(1) D1(1)
    by (simp add: image_Un Un_commute) (metis list.set_map)
  also have "\<dots> = nearest 16 (kdist st key ` (set lst \<union> set (c # cs)))"
    by (simp add: un image_Un Un_commute)
  finally show ?case
    using Cons.IH [OF _ ok1] Cons.prems(1) D1(2) r by auto
qed

end
