(* ===== verification/OpMgrInv.thy ===== *)
theory OpMgrInv
  imports KadOpMgr LookupList RtTable
begin

section \<open>The invariant of the operation manager\<close>

text \<open>
  \<open>mgr_inv\<close> relates the requests in flight (\<open>mOps\<close>) to the lookups: a lookup's pending count
  is the number of its requests in flight, at most \<open>KADEMLIA_ALPHA\<close>; their contacts are
  different and all in its block list. \<open>mgr_ok d\<close> is the same while a handler runs, when the
  count of lookup \<open>f\<close> is still \<open>d f\<close> too high. Every handler keeps the invariant, and so none
  reaches a failed assertion or a null pointer.
\<close>

definition requests :: "op_mgr \<Rightarrow> fptr \<Rightarrow> cptr list" where
  "requests m f =
     map (\<lambda>h. mDst (mTrackerHeap m ! h)) (filter (\<lambda>h. mTrOp (mTrackerHeap m ! h) = f) (mOps m))"

text \<open>The lookups that have completed, in order.\<close>

fun done_of :: "effect list \<Rightarrow> fptr list" where
  "done_of [] = []"
| "done_of (FindDone f l # es) = f # done_of es"
| "done_of (e # es) = done_of es"

definition finished :: "op_mgr \<Rightarrow> fptr list" where
  "finished m = done_of (mEffects m)"

lemma done_of_append [simp]: "done_of (es @ es') = done_of es @ done_of es'"
  by (induction es rule: done_of.induct) simp_all

definition find_ok :: "'a cstore \<Rightarrow> int \<Rightarrow> cptr list \<Rightarrow> find_op \<Rightarrow> bool" where
  "find_ok st d reqs r \<longleftrightarrow>
     id_ok KADEMLIA_ID_SIZE (mKey r) \<and> list_ok st (mKey r) (mList r) \<and>
     (\<forall>p \<in> set (mBlock r). contact_ok st p) \<and> distinct (mBlock r) \<and>
     distinct reqs \<and> set reqs \<subseteq> set (mBlock r) \<and>
     mPendingQty r = int (length reqs) + d \<and> mPendingQty r \<le> KADEMLIA_ALPHA"

definition env_ok :: "kad_env \<Rightarrow> bool" where
  "env_ok E \<longleftrightarrow> xlist_ok (XC E) \<and> xlist_ok (XT E)"

definition mgr_ok :: "kad_env \<Rightarrow> (fptr \<Rightarrow> int) \<Rightarrow> op_mgr \<Rightarrow> bool" where
  "mgr_ok E d m \<longleftrightarrow>
     env_ok E \<and> rt_table_ok (XC E) (mContactHeap m) (mRoutingTable m) \<and>
     distinct (mOps m) \<and> (\<forall>h \<in> set (mOps m). h < length (mTrackerHeap m)) \<and>
     (\<forall>t \<in> set (mTrackerHeap m). mTrOp t < length (mFindHeap m) \<and> contact_ok (mContactHeap m) (mDst t)) \<and>
     (\<forall>f < length (mFindHeap m). find_ok (mContactHeap m) (d f) (requests m f) (mFindHeap m ! f)) \<and>
     mContactCache m = [] \<and> distinct (finished m) \<and>
     (\<forall>f \<in> set (finished m). f < length (mFindHeap m) \<and> requests m f = [] \<and> d f = 0)"

abbreviation (input) mgr_inv :: "kad_env \<Rightarrow> op_mgr \<Rightarrow> bool" where
  "mgr_inv E m \<equiv> mgr_ok E (\<lambda>f. 0) m"

lemma mgr_okD:
  assumes "mgr_ok E d m"
  shows "xlist_ok (XC E)" "xlist_ok (XT E)" "rt_table_ok (XC E) (mContactHeap m) (mRoutingTable m)"
    "f < length (mFindHeap m) \<Longrightarrow> find_ok (mContactHeap m) (d f) (requests m f) (mFindHeap m ! f)"
    "mContactCache m = []"
  using assms by (simp_all add: mgr_ok_def env_ok_def)

subsection \<open>What does not matter\<close>

lemma requests_cong:
  "mTrackerHeap m' = mTrackerHeap m \<Longrightarrow> mOps m' = mOps m \<Longrightarrow> requests m' f = requests m f"
  by (simp add: requests_def)

lemma mgr_ok_irrelevant [simp]:
  "mgr_ok E d (m\<lparr>mStats := s\<rparr>) = mgr_ok E d m"
  "mgr_ok E d (m\<lparr>mRandomQty := n\<rparr>) = mgr_ok E d m"
  "done_of es = [] \<Longrightarrow> mgr_ok E d (emit es m) = mgr_ok E d m"
  by (simp_all add: mgr_ok_def requests_def emit_def finished_def)

lemma mgr_ok_counters [simp]:
  "mgr_ok E d (CountReqRx n m) = mgr_ok E d m"
  "mgr_ok E d (CountRspRx n m) = mgr_ok E d m"
  "mgr_ok E d (CountDropped m) = mgr_ok E d m"
  "mgr_ok E d (SendRequestAddr E m s addr) = mgr_ok E d m"
  "mgr_ok E d (SendResponse E m s addr r) = mgr_ok E d m"
  by (simp_all add: CountReqRx_def CountRspRx_def CountDropped_def SendRequestAddr_def
      SendResponse_def Let_def)

lemma Complete_fields:
  "mContactHeap (Complete f m) = mContactHeap m" "mRoutingTable (Complete f m) = mRoutingTable m"
  "mFindHeap (Complete f m) = mFindHeap m" "mTrackerHeap (Complete f m) = mTrackerHeap m"
  "mOps (Complete f m) = mOps m" "mContactCache (Complete f m) = mContactCache m"
  "LocalId (Complete f m) = LocalId m" "requests (Complete f m) g = requests m g"
  "finished (Complete f m) = finished m @ [f]"
  by (simp_all add: Complete_def emit_def LocalId_def requests_def finished_def Let_def split: find_handler.split)

lemma mgr_ok_Complete:
  assumes "mgr_inv E m" "f < length (mFindHeap m)" "mPendingQty (mFindHeap m ! f) = 0" "f \<notin> set (finished m)"
  shows "mgr_inv E (Complete f m)"
proof -
  have "requests m f = []" using mgr_okD(4) [OF assms(1,2)] assms(3) by (simp add: find_ok_def)
  then show ?thesis using assms by (simp add: mgr_ok_def Complete_fields)
qed

lemma kdist_ext: "store_ext st st' \<Longrightarrow> p < length st \<Longrightarrow> kdist st' key p = kdist st key p"
  by (simp add: kdist_def store_extD)

lemma list_ok_ext:
  assumes "store_ext st st'" "list_ok st key lst"
  shows "list_ok st' key lst"
proof -
  have "map (kdist st' key) lst = map (kdist st key) lst"
    using assms kdist_ext [OF assms(1)] by (simp add: list_ok_def)
  then have "sorted_wrt (<) (map (kdist st' key) lst)"
    using assms(2) by (simp only: list_ok_def)
  then show ?thesis using assms by (simp add: list_ok_def store_extD)
qed

lemma find_ok_ext: "store_ext st st' \<Longrightarrow> find_ok st d rs r \<Longrightarrow> find_ok st' d rs r"
  by (auto simp: find_ok_def intro: list_ok_ext contact_ok_ext)

text \<open>Changing the contact heap and the table, with what \<open>store_ext\<close> allows.\<close>

lemma mgr_ok_ext:
  assumes "mgr_ok E d m" "store_ext (mContactHeap m) st" "rt_table_ok (XC E) st t"
  shows "mgr_ok E d (m\<lparr>mContactHeap := st, mRoutingTable := t\<rparr>)"
  using assms find_ok_ext [OF assms(2)] contact_ok_ext [OF assms(2)]
  by (auto simp: mgr_ok_def requests_def finished_def)

lemma mgr_ok_heap:
  assumes "mgr_ok E d m" "store_ext (mContactHeap m) st"
  shows "mgr_ok E d (m\<lparr>mContactHeap := st\<rparr>)"
  using mgr_ok_ext [OF assms(1,2), of "mRoutingTable m"] rt.inv_ext [OF mgr_okD(3) [OF assms(1)] assms(2)]
  by simp

lemma mgr_ok_SetFailQty: "mgr_ok E d m \<Longrightarrow> mgr_ok E d (SetFailQty m p q)"
  unfolding SetFailQty_def by (rule mgr_ok_heap) (simp_all add: store_ext_update)

lemma SetFailQty_simps [simp]:
  "mFindHeap (SetFailQty m p q) = mFindHeap m" "mTrackerHeap (SetFailQty m p q) = mTrackerHeap m"
  "mOps (SetFailQty m p q) = mOps m" "requests (SetFailQty m p q) f = requests m f"
  "LocalId (SetFailQty m p q) = LocalId m" "mRoutingTable (SetFailQty m p q) = mRoutingTable m"
  "finished (SetFailQty m p q) = finished m" "mEffects (SetFailQty m p q) = mEffects m"
  by (simp_all add: SetFailQty_def requests_def LocalId_def finished_def)

subsection \<open>Finding or adding a contact\<close>

lemma FindAddContact_ok:
  assumes m: "mgr_ok E d m" and nid: "id_ok 20 nid" "nid \<noteq> LocalId m"
  obtains m1 p where "FindAddContact E m nid addr = (m1, Some p)" "mgr_ok E d m1"
    "contact_ok (mContactHeap m1) p" "idof (mContactHeap m1) p = nid" "LocalId m1 = LocalId m"
    "mFindHeap m1 = mFindHeap m" "mOps m1 = mOps m" "mTrackerHeap m1 = mTrackerHeap m"
    "store_ext (mContactHeap m) (mContactHeap m1)"
    "mEffects m1 = mEffects m"
proof -
  let ?st = "mContactHeap m" and ?t = "mRoutingTable m"
  obtain st1 t1 p where r: "RtAdd (XC E) ?st ?t nid addr = (st1, t1, p)" by (metis prod_cases3)
  note rt = mgr_okD(3) [OF m]
  have l: "id_ok 20 (LocalId m)" using rt by (simp add: rt_table_ok_def rt_inv_def LocalId_def)
  note add = rt.add_inv [OF rt nid(1) r] rt.add_ext [OF rt nid(1) r] rt.add_ptr [OF rt nid(1) r]
  let ?m1 = "m\<lparr>mContactHeap := st1, mRoutingTable := t1\<rparr>"
  have "FindAddContact E m nid addr =
      (?m1\<lparr>mStats := (mStats ?m1)\<lparr>ContInRt := ContInRt (mStats ?m1) + 1\<rparr>\<rparr>, Some p)"
    using nid l r by (simp add: FindAddContact_def id_cmp_iffs [of 20])
  moreover have "mgr_ok E d ?m1" using mgr_ok_ext [OF m] add by simp
  ultimately show ?thesis using add that by (simp add: LocalId_def)
qed

subsection \<open>Sending\<close>

text \<open>What sending leaves alone: contacts, table and what every lookup knows.\<close>

definition send_frame :: "op_mgr \<Rightarrow> op_mgr \<Rightarrow> bool" where
  "send_frame m m' \<longleftrightarrow>
     mContactHeap m' = mContactHeap m \<and> mRoutingTable m' = mRoutingTable m \<and>
     map mKey (mFindHeap m') = map mKey (mFindHeap m) \<and> map mList (mFindHeap m') = map mList (mFindHeap m) \<and>
     map mHandler (mFindHeap m') = map mHandler (mFindHeap m) \<and> finished m' = finished m"

lemma send_frame_refl [simp]: "send_frame m m"
  by (simp add: send_frame_def)

lemma send_frame_trans: "send_frame a b \<Longrightarrow> send_frame b c \<Longrightarrow> send_frame a c"
  by (simp add: send_frame_def)

lemma send_frameD:
  assumes "send_frame m m'"
  shows "mContactHeap m' = mContactHeap m" "mRoutingTable m' = mRoutingTable m"
    "length (mFindHeap m') = length (mFindHeap m)" "LocalId m' = LocalId m"
    "finished m' = finished m"
    "f < length (mFindHeap m) \<Longrightarrow> mList (mFindHeap m' ! f) = mList (mFindHeap m ! f)"
proof -
  show len: "length (mFindHeap m') = length (mFindHeap m)"
    using assms map_eq_imp_length_eq unfolding send_frame_def by blast
  show "mList (mFindHeap m' ! f) = mList (mFindHeap m ! f)" if "f < length (mFindHeap m)"
    using assms len that unfolding send_frame_def by (metis nth_map)
qed (use assms in \<open>simp_all add: send_frame_def LocalId_def\<close>)

lemma map_update_same: "g r = g (l ! i) \<Longrightarrow> map g (l[i := r]) = map g l"
  by (metis list_update_id map_update)

lemma requests_append:
  assumes "\<forall>h \<in> set (mOps m). h < length (mTrackerHeap m)"
    and "mTrackerHeap m' = mTrackerHeap m @ [t]" "mOps m' = mOps m @ [length (mTrackerHeap m)]"
  shows "requests m' f = requests m f @ (if mTrOp t = f then [mDst t] else [])"
proof -
  have "filter (\<lambda>h. mTrOp ((mTrackerHeap m @ [t]) ! h) = f) (mOps m) =
      filter (\<lambda>h. mTrOp (mTrackerHeap m ! h) = f) (mOps m)"
    using assms(1) by (intro filter_cong) (auto simp: nth_append)
  moreover have "map (\<lambda>h. mDst ((mTrackerHeap m @ [t]) ! h)) (filter P (mOps m)) =
      map (\<lambda>h. mDst (mTrackerHeap m ! h)) (filter P (mOps m))" for P
    using assms(1) by (intro map_cong) (auto simp: nth_append)
  ultimately show ?thesis
    using assms(2,3) by (simp add: requests_def)
qed

lemma SendOne_fields:
  assumes "xlist_ok (XC E)" "xlist_ok (XT E)" "f < length (mFindHeap m)"
  defines "t \<equiv> \<lambda>c. \<lparr>mDst = c, mTrMsgId = random_at E (mRandomQty m), mTrOp = f\<rparr>"
  shows "mTrackerHeap (SendOne E f m c) = mTrackerHeap m @ [t c]"
    and "mOps (SendOne E f m c) = mOps m @ [length (mTrackerHeap m)]"
    and "mFindHeap (SendOne E f m c) = (mFindHeap m)[f := (mFindHeap m ! f)
           \<lparr>mBlock := mBlock (mFindHeap m ! f) @ [c], mPendingQty := mPendingQty (mFindHeap m ! f) + 1\<rparr>]"
    and "mContactHeap (SendOne E f m c) = mContactHeap m"
    and "mRoutingTable (SendOne E f m c) = mRoutingTable m"
    and "mContactCache (SendOne E f m c) = mContactCache m"
    and "finished (SendOne E f m c) = finished m"
  using assms
  by (simp_all add: finished_def SendOne_def NewTracker_def SendRequest_def find_upd_def emit_def Let_def xl_simps)

lemma SendOne_frame:
  assumes "xlist_ok (XC E)" "xlist_ok (XT E)" "f < length (mFindHeap m)"
  shows "send_frame m (SendOne E f m c)"
  using SendOne_fields [OF assms] by (simp add: send_frame_def map_update_same)

lemma SendOne_ok:
  assumes m: "mgr_ok E d m" and f: "f < length (mFindHeap m)"
    and c: "contact_ok (mContactHeap m) c" "c \<notin> set (mBlock (mFindHeap m ! f))"
    and p: "mPendingQty (mFindHeap m ! f) < KADEMLIA_ALPHA" and nf: "f \<notin> set (finished m)"
  shows "mgr_ok E d (SendOne E f m c)"
    and "mPendingQty (mFindHeap (SendOne E f m c) ! f) = mPendingQty (mFindHeap m ! f) + 1"
    and "g \<noteq> f \<Longrightarrow> requests (SendOne E f m c) g = requests m g"
proof -
  note fl = SendOne_fields [OF mgr_okD(1,2) [OF m] f, of c]
  have ops: "\<forall>h \<in> set (mOps m). h < length (mTrackerHeap m)" using m by (simp add: mgr_ok_def)
  have rq: "requests (SendOne E f m c) g = requests m g @ (if f = g then [c] else [])" for g
    using requests_append [OF ops fl(1,2), of g] by simp
  have "find_ok (mContactHeap m) (d g) (requests (SendOne E f m c) g) (mFindHeap (SendOne E f m c) ! g)"
    if g: "g < length (mFindHeap m)" for g
    using mgr_okD(4) [OF m g] f c p g unfolding fl(3) rq by (auto simp: find_ok_def nth_list_update)
  moreover have "length (mTrackerHeap m) \<notin> set (mOps m)" using ops by auto
  ultimately show "mgr_ok E d (SendOne E f m c)"
    using m f c(1) nf unfolding mgr_ok_def fl by (auto simp: less_Suc_eq rq)
  show "mPendingQty (mFindHeap (SendOne E f m c) ! f) = mPendingQty (mFindHeap m ! f) + 1"
    using f unfolding fl(3) by simp
  show "requests (SendOne E f m c) g = requests m g" if "g \<noteq> f"
    using rq [of g] that by simp
qed

text \<open>A call of \<open>Send\<close> sends at most \<open>qty\<close> requests, each counted as pending.\<close>

definition send_post :: "kad_env \<Rightarrow> (fptr \<Rightarrow> int) \<Rightarrow> fptr \<Rightarrow> op_mgr \<Rightarrow> int \<Rightarrow> op_mgr \<times> int \<Rightarrow> bool" where
  "send_post E d f m qty r \<longleftrightarrow>
     (case r of (m', sent) \<Rightarrow>
       mgr_ok E d m' \<and> send_frame m m' \<and> 0 \<le> sent \<and> sent \<le> qty \<and>
       mPendingQty (mFindHeap m' ! f) = mPendingQty (mFindHeap m ! f) + sent \<and>
       (\<forall>g. g \<noteq> f \<longrightarrow> requests m' g = requests m g))"

lemma Send_list_ok:
  assumes "f < length (mFindHeap m0)" "0 < qty" "mPendingQty (mFindHeap m0 ! f) + qty \<le> KADEMLIA_ALPHA"
    and nf: "f \<notin> set (finished m0)"
    and "\<forall>c \<in> set cs. contact_ok (mContactHeap m0) c" "send_post E d f m0 qty (m, sent)" "sent < qty"
    and "Send_list E f qty stale cs (m, sent) = ((m', sent'), b)"
  shows "send_post E d f m0 qty (m', sent') \<and> (\<not> b \<longrightarrow> sent' < qty)"
  using assms(5-8)
proof (induction cs arbitrary: m sent)
  case Nil
  then show ?case by simp
next
  case (Cons c cs)
  note post = Cons.prems(2) [unfolded send_post_def prod.case]
  have fr: "send_frame m0 m" and ok: "mgr_ok E d m" using post by simp_all
  have f: "f < length (mFindHeap m)" using send_frameD(3) [OF fr] assms(1) by simp
  have cok: "\<forall>c \<in> set cs. contact_ok (mContactHeap m0) c" using Cons.prems(1) by simp
  show ?case
  proof (cases "stale = mFailQty (mContactHeap m ! c) \<and>
      FindAfter (XC E) (mBlock (mFindHeap m ! f)) 0 (\<lambda>x. x = c) = None")
    case True
    have nb: "c \<notin> set (mBlock (mFindHeap m ! f))"
      using True mgr_okD(1) [OF ok] by (auto simp: xl_laws first_match_None)
    have c: "contact_ok (mContactHeap m) c" using Cons.prems(1) send_frameD(1) [OF fr] by simp
    have p: "mPendingQty (mFindHeap m ! f) < 3" using post assms(3) Cons.prems(3) by simp
    have nf1: "f \<notin> set (finished m)" using nf send_frameD(5) [OF fr] by simp
    note one = SendOne_ok [OF ok f c nb p nf1]
    have post1: "send_post E d f m0 qty (SendOne E f m c, sent + 1)"
      using one post Cons.prems(3) send_frame_trans [OF fr SendOne_frame [OF mgr_okD(1,2) [OF ok] f]]
      by (simp add: send_post_def)
    show ?thesis
    proof (cases "qty \<le> sent + 1")
      case True2: True
      then show ?thesis using Cons.prems(4) True post1 by (simp add: Let_def)
    next
      case False
      then show ?thesis
        using Cons.IH [OF cok post1] Cons.prems(4) True by (simp add: Let_def)
    qed
  next
    case False
    then have "Send_list E f qty stale cs (m, sent) = ((m', sent'), b)"
      using Cons.prems(4) by (auto split: if_splits)
    then show ?thesis by (rule Cons.IH [OF cok Cons.prems(2,3)])
  qed
qed

lemma Send_loop_ok:
  assumes f: "f < length (mFindHeap m0)" and q: "0 < qty"
    and p: "mPendingQty (mFindHeap m0 ! f) + qty \<le> KADEMLIA_ALPHA" and ok: "mgr_ok E d m0"
    and nf: "f \<notin> set (finished m0)" and "send_post E d f m0 qty (m, sent)" "sent < qty"
    and "Send_loop E f qty sts (m, sent) = r"
  shows "send_post E d f m0 qty r"
  using assms(6-8)
proof (induction sts arbitrary: m sent)
  case Nil
  then show ?case by simp
next
  case (Cons s sts)
  have fr: "send_frame m0 m" using Cons.prems(1) by (simp add: send_post_def)
  obtain m1 sent1 b where r: "Send_list E f qty s (mList (mFindHeap m ! f)) (m, sent) = ((m1, sent1), b)"
    by (metis prod_cases3 surj_pair)
  have "\<forall>c \<in> set (mList (mFindHeap m ! f)). contact_ok (mContactHeap m0) c"
    using mgr_okD(4) [OF ok f] send_frameD(6) [OF fr f] by (simp add: find_ok_def list_ok_def contact_ok_def)
  from Send_list_ok [OF f q p nf this Cons.prems(1,2) r]
  have post1: "send_post E d f m0 qty (m1, sent1)" "\<not> b \<longrightarrow> sent1 < qty" by simp_all
  show ?case
  proof (cases b)
    case True
    then show ?thesis using Cons.prems(3) r post1(1) by (simp add: Let_def)
  next
    case False
    then show ?thesis using Cons.IH [OF post1(1)] post1(2) Cons.prems(3) r by (simp add: Let_def)
  qed
qed

lemma Send_ok:
  assumes "mgr_ok E d m" "f < length (mFindHeap m)" "0 < qty"
    and "mPendingQty (mFindHeap m ! f) + qty \<le> KADEMLIA_ALPHA" "f \<notin> set (finished m)"
  obtains m' sent where "Send E f qty m = Inr (m', sent)" "send_post E d f m qty (m', sent)"
proof -
  have "send_post E d f m qty (m, 0)" using assms by (simp add: send_post_def)
  from Send_loop_ok [OF assms(2-4,1,5) this assms(3)] have
    "send_post E d f m qty (Send_loop E f qty (map of_nat [0..<unat (3 :: u32)]) (m, 0))"
    by simp
  then show ?thesis using that assms(3) unfolding Send_def by (metis surj_pair)
qed

subsection \<open>Identifiers in messages have the right size\<close>

lemma KadId_unpack_ok: "id_ok n old \<Longrightarrow> KadId_unpack old ob = Some a \<Longrightarrow> id_ok n a"
  by (auto simp: KadId_unpack_def id_ok_def split: mp_obj.splits if_splits)

lemma conv_KadId_ok:
  "id_ok n old \<Longrightarrow> conv_member (KadId_unpack old) old ob = Some a \<Longrightarrow> id_ok n a"
  by (auto simp: conv_member_def intro: KadId_unpack_ok split: option.splits)

lemma KadMsg_unpack_ok: "id_ok n (mSrcId old) \<Longrightarrow> KadMsg_unpack M old ob = Some r \<Longrightarrow> id_ok n (mSrcId r)"
  by (auto simp: KadMsg_unpack_def intro: conv_KadId_ok split: option.splits list.splits)

lemma KadMsgContact_unpack_ok:
  "id_ok n (mcId old) \<Longrightarrow> KadMsgContact_unpack M old ob = Some r \<Longrightarrow> id_ok n (mcId r)"
  by (auto simp: KadMsgContact_unpack_def intro: conv_KadId_ok split: option.splits list.splits)

lemma conv_all_in: "conv_all f xs = Some ys \<Longrightarrow> y \<in> set ys \<Longrightarrow> \<exists>x \<in> set xs. f x = Some y"
  by (induction xs arbitrary: ys) (auto split: option.splits)

lemma ConvFindRsp_ok:
  assumes "ConvFindRsp E ob = Some r" "c \<in> set (mRspContacts r)"
  shows "id_ok 20 (mcId c)"
proof -
  let ?c0 = "\<lparr>mcId = Clear 20, mcAddr = (addr0 E)\<lparr>mFamily := 0\<rparr>\<rparr>"
  obtain xs where "conv_all (KadMsgContact_unpack (MP E) ?c0) xs = Some (mRspContacts r)"
    using assms by (auto simp: ConvFindRsp_def KadMsgFindRsp_unpack_def conv_member_def kad_msg.defs
        kad_msg_find_rsp.defs split: option.splits list.splits)
  from conv_all_in [OF this assms(2)] show ?thesis
    using KadMsgContact_unpack_ok [of 20 ?c0] by fastforce
qed

subsection \<open>Changing one lookup\<close>

lemma find_upd_simps [simp]:
  "mContactHeap (find_upd f u m) = mContactHeap m" "mRoutingTable (find_upd f u m) = mRoutingTable m"
  "mTrackerHeap (find_upd f u m) = mTrackerHeap m" "mOps (find_upd f u m) = mOps m"
  "requests (find_upd f u m) g = requests m g" "LocalId (find_upd f u m) = LocalId m"
  "finished (find_upd f u m) = finished m"
  "length (mFindHeap (find_upd f u m)) = length (mFindHeap m)"
  "f < length (mFindHeap m) \<Longrightarrow> mFindHeap (find_upd f u m) ! f = u (mFindHeap m ! f)"
  by (simp_all add: find_upd_def requests_def LocalId_def finished_def)

lemma mgr_ok_find_upd:
  assumes m: "mgr_ok E d m"
    and u: "f < length (mFindHeap m) \<Longrightarrow> find_ok (mContactHeap m) (d' f) (requests m f) (u (mFindHeap m ! f))"
    and d: "\<And>g. g \<noteq> f \<Longrightarrow> d' g = d g" "d f = 0 \<Longrightarrow> d' f = 0"
  shows "mgr_ok E d' (find_upd f u m)"
proof -
  have "find_ok (mContactHeap m) (d' g) (requests m g) (mFindHeap (find_upd f u m) ! g)"
    if "g < length (mFindHeap m)" for g
    using mgr_okD(4) [OF m that] u d(1) [of g] that
    by (cases "g = f") (simp_all add: find_upd_def)
  moreover have "\<forall>g \<in> set (finished m). d' g = 0"
    using m d unfolding mgr_ok_def by metis
  ultimately show ?thesis
    using m by (simp add: mgr_ok_def requests_cong [of "find_upd f u m" m]) (simp add: find_upd_def)
qed

subsection \<open>Merging a response\<close>

lemma MergeOne_ok:
  assumes m: "mgr_ok E d m" and f: "f < length (mFindHeap m)" and i: "id_ok 20 (mcId i)" and n: "0 \<le> n"
  obtains m' n' where "MergeOne E f i (m, n) = Inr (m', n')" "mgr_ok E d m'" "0 \<le> n'"
    "LocalId m' = LocalId m" "length (mFindHeap m') = length (mFindHeap m)"
    "mPendingQty (mFindHeap m' ! f) = mPendingQty (mFindHeap m ! f)"
    "finished m' = finished m" "\<And>g. requests m' g = requests m g"
proof (cases "\<not> IsZero (mcId i) \<and> id_neq (mcId i) (LocalId m) \<and>
    FindById (mContactHeap m) (mBlock (mFindHeap m ! f)) (mcId i) = None \<and>
    FindById (mContactHeap m) (mList (mFindHeap m ! f)) (mcId i) = None")
  case False
  then have "MergeOne E f i (m, n) = Inr (m, n)" by (auto simp: MergeOne_def Let_def)
  then show ?thesis using that m n by simp
next
  case True
  have l: "id_ok 20 (LocalId m)"
    using mgr_okD(3) [OF m] by (simp add: rt_table_ok_def rt_inv_def LocalId_def)
  have nl: "mcId i \<noteq> LocalId m" using True i l by (simp add: id_cmp_iffs [of 20])
  obtain m1 p where r: "FindAddContact E m (mcId i) (SockAddr_of (rest6 E) (mcAddr i)) = (m1, Some p)"
    and m1: "mgr_ok E d m1" "contact_ok (mContactHeap m1) p" "LocalId m1 = LocalId m"
    "mFindHeap m1 = mFindHeap m" "mEffects m1 = mEffects m" "mOps m1 = mOps m"
    "mTrackerHeap m1 = mTrackerHeap m"
    using FindAddContact_ok [OF m i nl] by metis
  let ?r = "mFindHeap m ! f"
  obtain lst b where ins: "Insert (XC E) (mContactHeap m1) (mKey ?r) p (mList ?r) = (lst, b)"
    by fastforce
  have fo: "find_ok (mContactHeap m1) (d f) (requests m1 f) ?r" using mgr_okD(4) [OF m1(1), of f] f m1(4) by simp
  have "list_ok (mContactHeap m1) (mKey ?r) lst"
    by (rule list_ok_Insert [OF mgr_okD(1) [OF m] _ _ _ _ ins])
      (use fo m1(2) in \<open>simp_all add: find_ok_def contact_ok_def\<close>)
  then have "mgr_ok E d (find_upd f (\<lambda>x. x\<lparr>mList := lst\<rparr>) m1)"
    by (intro mgr_ok_find_upd [OF m1(1)]) (use fo m1(4) in \<open>simp_all add: find_ok_def\<close>)
  moreover have "MergeOne E f i (m, n) =
      Inr (find_upd f (\<lambda>x. x\<lparr>mList := lst\<rparr>) m1, if b then n + 1 else n)"
    using True r ins m1(4) by (simp add: MergeOne_def Let_def)
  moreover have "finished m1 = finished m" using m1(5) by (simp add: finished_def)
  moreover have "requests m1 g = requests m g" for g using m1(6,7) by (simp add: requests_def)
  ultimately show ?thesis using that f m1(3,4) n by simp
qed

lemma Merge_ok:
  assumes "mgr_ok E d m" "f < length (mFindHeap m)" "\<forall>i \<in> set is. id_ok 20 (mcId i)" "0 \<le> n"
  shows "\<exists>m' n'. Merge E f is (m, n) = Inr (m', n') \<and> mgr_ok E d m' \<and> 0 \<le> n' \<and>
    LocalId m' = LocalId m \<and> length (mFindHeap m') = length (mFindHeap m) \<and>
    mPendingQty (mFindHeap m' ! f) = mPendingQty (mFindHeap m ! f) \<and>
    finished m' = finished m \<and> (\<forall>g. requests m' g = requests m g)"
  using assms
proof (induction "is" arbitrary: m n)
  case (Cons i "is")
  have i: "id_ok 20 (mcId i)" "\<forall>i \<in> set is. id_ok 20 (mcId i)" using Cons.prems(3) by simp_all
  from MergeOne_ok [OF Cons.prems(1,2) i(1) Cons.prems(4)]
  obtain m1 n1 where m1: "MergeOne E f i (m, n) = Inr (m1, n1)" "mgr_ok E d m1" "0 \<le> n1"
    "LocalId m1 = LocalId m" "length (mFindHeap m1) = length (mFindHeap m)"
    "mPendingQty (mFindHeap m1 ! f) = mPendingQty (mFindHeap m ! f)"
    "finished m1 = finished m" "\<And>g. requests m1 g = requests m g" by blast
  have "f < length (mFindHeap m1)" using m1(5) Cons.prems(2) by simp
  from Cons.IH [OF m1(2) this i(2) m1(3)] m1 show ?case by simp
qed simp

subsection \<open>A response or a timeout\<close>

text \<open>
  A handler's result: it keeps the invariant or throws the exception of a malformed
  datagram. A null pointer or a failed assertion is no such result.
\<close>

definition returns :: "('r \<Rightarrow> bool) \<Rightarrow> kad_error + 'r \<Rightarrow> bool" where
  "returns P r \<longleftrightarrow> (case r of Inr m \<Rightarrow> P m | Inl e \<Rightarrow> e = UnpackError \<or> e = TypeError)"

lemma returns_simps [simp]: "returns P (Inr m) = P m" "returns P (Inl TypeError)" "returns P (Inl UnpackError)"
  by (simp_all add: returns_def)

text \<open>What a handler of lookup \<open>f\<close> leaves of the others.\<close>

definition op_post :: "kad_env \<Rightarrow> fptr \<Rightarrow> op_mgr \<Rightarrow> op_mgr \<Rightarrow> bool" where
  "op_post E f m m' \<longleftrightarrow>
     mgr_inv E m' \<and> LocalId m' = LocalId m \<and> length (mFindHeap m') = length (mFindHeap m) \<and>
     (\<forall>g. g \<noteq> f \<longrightarrow> requests m' g = requests m g \<and> (g \<in> set (finished m') \<longleftrightarrow> g \<in> set (finished m)))"

lemma find_ok_list_remove:
  assumes "list_ok st key l" "n < length l"
  shows "list_ok st key (take n l @ drop (Suc n) l)"
proof -
  have "sorted_wrt (<) (map (kdist st key) (take n l @ l ! n # drop (Suc n) l))"
    using assms remove_at_split [OF assms(2)] by (simp add: list_ok_def)
  then have "sorted_wrt (<) (map (kdist st key) (take n l @ drop (Suc n) l))"
    by (simp add: sorted_wrt_append)
  moreover have "set (take n l @ drop (Suc n) l) \<subseteq> set l" by (rule set_remove_at)
  moreover have "length (take n l @ drop (Suc n) l) \<le> length l" by simp
  ultimately show ?thesis
    using assms(1) unfolding list_ok_def by (meson order_trans subsetD)
qed

lemma OnTimeoutOf_ok:
  assumes m: "mgr_inv E m" and f: "f < length (mFindHeap m)"
    and c: "n < length (mBlock (mFindHeap m ! f))" "mBlock (mFindHeap m ! f) ! n = contact"
      "contact \<notin> set (requests m f)"
    and p: "mPendingQty (mFindHeap m ! f) < KADEMLIA_ALPHA" and nf: "f \<notin> set (finished m)"
  shows "\<exists>m'. OnTimeoutOf E f contact n m = Inr m' \<and> op_post E f m m'"
proof -
  let ?r = "mFindHeap m ! f" and ?X = "XC E"
  define m1 where "m1 = (if IsStale (mContactHeap m ! contact)
    then (case FindAfter ?X (mList ?r) 0 (\<lambda>x. x = contact) of
            Some n \<Rightarrow> find_upd f (\<lambda>x. x\<lparr>mList := snd (RemoveAt ?X (mList x) n)\<rparr>) m
          | None \<Rightarrow> m)
    else find_upd f (\<lambda>x. x\<lparr>mBlock := snd (RemoveAt ?X (mBlock x) n)\<rparr>) m)"
  note X = mgr_okD(1) [OF m]
  have fo: "find_ok (mContactHeap m) 0 (requests m f) ?r" using mgr_okD(4) [OF m f] by simp
  have rm: "find_ok (mContactHeap m) 0 (requests m f) (?r\<lparr>mList := take i (mList ?r) @ drop (Suc i) (mList ?r)\<rparr>)"
    if "i < length (mList ?r)" for i
    using fo find_ok_list_remove [of "mContactHeap m" "mKey ?r", OF _ that] by (simp add: find_ok_def)
  have bl: "find_ok (mContactHeap m) 0 (requests m f) (?r\<lparr>mBlock := take n (mBlock ?r) @ drop (Suc n) (mBlock ?r)\<rparr>)"
    using fo c distinct_remove_at [of "mBlock ?r" n] unfolding find_ok_def
    by (simp del: set_append distinct_append) blast
  have "mgr_inv E m1 \<and> LocalId m1 = LocalId m \<and> length (mFindHeap m1) = length (mFindHeap m) \<and>
      mPendingQty (mFindHeap m1 ! f) = mPendingQty ?r \<and> finished m1 = finished m \<and>
      (\<forall>g. requests m1 g = requests m g)"
    using m f rm bl c(1) unfolding m1_def
    by (auto simp: xl_laws [OF X] first_match_Some split: option.splits intro!: mgr_ok_find_upd [OF m])
  then have m1: "mgr_inv E m1" "LocalId m1 = LocalId m" "f < length (mFindHeap m1)"
    "mPendingQty (mFindHeap m1 ! f) + 1 \<le> KADEMLIA_ALPHA" "f \<notin> set (finished m1)"
    "finished m1 = finished m" "\<And>g. requests m1 g = requests m g"
    "length (mFindHeap m1) = length (mFindHeap m)"
    using f p nf by simp_all
  obtain m2 sent where s: "Send E f 1 m1 = Inr (m2, sent)" "send_post E (\<lambda>f. 0) f m1 1 (m2, sent)"
    using Send_ok [OF m1(1,3) _ m1(4,5)] by auto
  have "OnTimeoutOf E f contact n m = Inr (if sent \<noteq> 0 then m2
      else if mPendingQty (mFindHeap m2 ! f) = 0 then Complete f m2 else m2)"
    using s(1) unfolding OnTimeoutOf_def m1_def [symmetric] Let_def by simp
  moreover have m2: "mgr_inv E m2" "send_frame m1 m2" "\<And>g. g \<noteq> f \<Longrightarrow> requests m2 g = requests m1 g"
    using s(2) by (simp_all add: send_post_def)
  moreover have "LocalId m2 = LocalId m" "finished m2 = finished m" "length (mFindHeap m2) = length (mFindHeap m)"
    using m1 send_frameD(3-5) [OF m2(2)] by simp_all
  ultimately show ?thesis using mgr_ok_Complete [of E m2 f] f nf m1(7) by (simp add: op_post_def Complete_fields)
qed

lemma OnFindRsp_ok:
  assumes m: "mgr_inv E m" and f: "f < length (mFindHeap m)"
    and p: "mPendingQty (mFindHeap m ! f) < KADEMLIA_ALPHA" and nf: "f \<notin> set (finished m)"
  shows "returns (op_post E f m) (OnFindRsp E f ob m)"
proof (cases "ConvFindRsp E ob")
  case None
  then show ?thesis by (simp add: OnFindRsp_def)
next
  case (Some rsp)
  then have "\<forall>i \<in> set (mRspContacts rsp). id_ok 20 (mcId i)" using ConvFindRsp_ok by blast
  from Merge_ok [OF m f this, of 0] obtain m1 n where
    mg: "Merge E f (mRspContacts rsp) (m, 0) = Inr (m1, n)" "0 \<le> n" and
    m1: "mgr_inv E m1" "LocalId m1 = LocalId m" "length (mFindHeap m1) = length (mFindHeap m)"
    "mPendingQty (mFindHeap m1 ! f) = mPendingQty (mFindHeap m ! f)" "finished m1 = finished m"
    "\<And>g. requests m1 g = requests m g" by auto
  let ?p = "mPendingQty (mFindHeap m1 ! f)"
  have f1: "f < length (mFindHeap m1)" using f m1(3) by simp
  show ?thesis
  proof (cases "n = 0")
    case True
    then show ?thesis using Some mg(1) m1 f1 nf mgr_ok_Complete [of E m1 f]
      by (simp add: OnFindRsp_def Let_def Complete_fields op_post_def)
  next
    case False
    obtain m2 sent where s: "Send E f (3 - ?p) m1 = Inr (m2, sent)" "send_post E (\<lambda>f. 0) f m1 (3 - ?p) (m2, sent)"
      using Send_ok [OF m1(1) f1, of "3 - ?p"] p m1(4,5) nf by auto
    then have m2: "mgr_inv E m2" "send_frame m1 m2" "\<And>g. g \<noteq> f \<Longrightarrow> requests m2 g = requests m1 g"
      by (simp_all add: send_post_def)
    have "op_post E f m m2" using m1 m2 send_frameD(3-5) [OF m2(2)] by (simp add: op_post_def)
    then show ?thesis using Some mg(1) False s(1) p m1(4) by (simp add: OnFindRsp_def Let_def)
  qed
qed

text \<open>\<open>OnResponce\<close> of a lookup one of whose requests has just left \<open>mOps\<close>.\<close>

lemma OnResponce_ok:
  assumes m: "mgr_ok E ((\<lambda>f. 0)(f := 1)) m" and f: "f < length (mFindHeap m)"
    and c: "contact \<in> set (mBlock (mFindHeap m ! f))" "contact \<notin> set (requests m f)"
  shows "returns (op_post E f m) (OnResponce E f rsp contact m)"
    and "rsp = None \<Longrightarrow> \<exists>m'. OnResponce E f rsp contact m = Inr m'"
proof -
  let ?r = "mFindHeap m ! f"
  let ?m1 = "find_upd f (\<lambda>r. r\<lparr>mPendingQty := mPendingQty r - 1\<rparr>) m"
  obtain n where n: "first_match (\<lambda>x. x = contact) (mBlock ?r) = Some n"
    using c(1) first_match_None [of "\<lambda>x. x = contact" "mBlock ?r"]
    by (cases "first_match (\<lambda>x. x = contact) (mBlock ?r)") auto
  have fo: "find_ok (mContactHeap m) 1 (requests m f) ?r" using mgr_okD(4) [OF m f] by simp
  have m1: "mgr_inv E ?m1"
    by (rule mgr_ok_find_upd [OF m]) (use fo in \<open>simp_all add: find_ok_def\<close>)
  have p: "mPendingQty (mFindHeap ?m1 ! f) < 3" using fo f by (simp add: find_ok_def)
  have nf: "f \<notin> set (finished ?m1)" using m by (auto simp: mgr_ok_def)
  have o: "OnResponce E f rsp contact m =
      (case rsp of None \<Rightarrow> OnTimeoutOf E f contact n ?m1 | Some ob \<Rightarrow> OnFindRsp E f ob ?m1)"
    using n mgr_okD(1) [OF m] by (simp add: OnResponce_def Let_def xl_laws)
  have t: "\<exists>m'. OnTimeoutOf E f contact n ?m1 = Inr m' \<and> op_post E f ?m1 m'"
    by (rule OnTimeoutOf_ok [OF m1 _ _ _ _ p nf]) (use f n c first_match_SomeD [OF n] in simp_all)
  have "op_post E f ?m1 = op_post E f m" by (simp add: op_post_def fun_eq_iff)
  then show "returns (op_post E f m) (OnResponce E f rsp contact m)"
    unfolding o using t OnFindRsp_ok [OF m1 _ p nf] f by (cases rsp) auto
  show "\<exists>m'. OnResponce E f rsp contact m = Inr m'" if "rsp = None"
    unfolding o using t that by auto
qed

subsection \<open>The handlers\<close>

text \<open>
  What every handler ensures, and how it follows from \<open>op_post\<close>. A lookup without requests in
  flight stays so, and does not complete any more.
\<close>

definition handler_post :: "kad_env \<Rightarrow> op_mgr \<Rightarrow> op_mgr \<Rightarrow> bool" where
  "handler_post E m m' \<longleftrightarrow>
     mgr_inv E m' \<and> LocalId m' = LocalId m \<and> length (mFindHeap m) \<le> length (mFindHeap m') \<and>
     (\<forall>g < length (mFindHeap m). requests m g = [] \<longrightarrow>
        requests m' g = [] \<and> (g \<in> set (finished m') \<longleftrightarrow> g \<in> set (finished m)))"

lemma op_post_handler_post:
  assumes "op_post E f m1 m'" "LocalId m1 = LocalId m" "mFindHeap m1 = mFindHeap m"
    "finished m1 = finished m" "requests m f \<noteq> []" "\<And>g. requests m g = [] \<Longrightarrow> requests m1 g = []"
  shows "handler_post E m m'"
proof -
  have "requests m' g = [] \<and> (g \<in> set (finished m') \<longleftrightarrow> g \<in> set (finished m))" if "requests m g = []" for g
  proof -
    have "g \<noteq> f" using that assms(5) by blast
    then show ?thesis using assms(1,4) assms(6) [OF that] by (simp add: op_post_def)
  qed
  then show ?thesis using assms(1-3) by (simp add: op_post_def handler_post_def)
qed

lemma remove_tracker:
  assumes m: "mgr_inv E m" and t: "t < length (mOps m)"
  defines "k \<equiv> mTrackerHeap m ! (mOps m ! t)"
  defines "m1 \<equiv> m\<lparr>mOps := take t (mOps m) @ drop (Suc t) (mOps m)\<rparr>"
  shows "mgr_ok E ((\<lambda>f. 0)(mTrOp k := 1)) m1" "mTrOp k < length (mFindHeap m)"
    "mDst k \<in> set (mBlock (mFindHeap m ! mTrOp k))" "mDst k \<notin> set (requests m1 (mTrOp k))"
    "requests m (mTrOp k) \<noteq> []" "requests m g = [] \<Longrightarrow> requests m1 g = []"
proof -
  let ?a = "take t (mOps m)" and ?b = "drop (Suc t) (mOps m)"
  define part where "part f l = map (\<lambda>h. mDst (mTrackerHeap m ! h))
    (filter (\<lambda>h. mTrOp (mTrackerHeap m ! h) = f) l)" for f l
  have part: "part f (x @ y) = part f x @ part f y" for f x y by (simp add: part_def)
  have "mOps m = ?a @ mOps m ! t # ?b" using t by (rule remove_at_split)
  then have "requests m f = part f (?a @ mOps m ! t # ?b)" for f
    by (simp add: requests_def part_def)
  then have rq: "requests m f = part f ?a @ (if mTrOp k = f then [mDst k] else []) @ part f ?b" for f
    by (simp add: part_def k_def)
  have rq1: "requests m1 f = part f ?a @ part f ?b" for f
    by (simp add: requests_def m1_def part_def)
  have len: "mOps m ! t < length (mTrackerHeap m)" using m t by (simp add: mgr_ok_def)
  then show f: "mTrOp k < length (mFindHeap m)" using m by (simp add: mgr_ok_def k_def)
  note fo = mgr_okD(4) [OF m f]
  show "requests m (mTrOp k) \<noteq> []" by (simp add: rq)
  show "requests m g = [] \<Longrightarrow> requests m1 g = []" for g by (simp add: rq rq1)
  show "mDst k \<in> set (mBlock (mFindHeap m ! mTrOp k))" "mDst k \<notin> set (requests m1 (mTrOp k))"
    using fo by (auto simp: find_ok_def rq rq1)
  have fin: "find_ok (mContactHeap m) (((\<lambda>f. 0)(mTrOp k := 1)) g) (requests m1 g) (mFindHeap m ! g)"
    if "g < length (mFindHeap m)" for g
    using mgr_okD(4) [OF m that] by (cases "g = mTrOp k") (simp_all add: find_ok_def rq rq1)
  have "distinct (mOps m)" using m by (simp add: mgr_ok_def)
  then have "distinct (?a @ ?b)" by (rule distinct_remove_at(1)) (rule t)
  moreover have "set (?a @ ?b) \<subseteq> set (mOps m)" by (rule set_remove_at)
  moreover have "mTrOp k \<notin> set (finished m)" using m rq by (auto simp: mgr_ok_def)
  moreover have "requests m g = [] \<Longrightarrow> requests m1 g = []" for g by (simp add: rq rq1)
  moreover have "m1 = m\<lparr>mOps := ?a @ ?b\<rparr>" "finished m1 = finished m" by (simp_all add: m1_def finished_def)
  ultimately show "mgr_ok E ((\<lambda>f. 0)(mTrOp k := 1)) m1"
    using m fin unfolding mgr_ok_def by (simp del: distinct_append set_append) (metis subsetD)
qed

lemma mgr_upd_swap: "m\<lparr>mOps := l, mStats := s\<rparr> = m\<lparr>mStats := s, mOps := l\<rparr>"
  by (rule op_mgr.equality) simp_all

lemma HandleTimeout_ok:
  assumes m: "mgr_inv E m"
  shows "\<exists>m'. HandleTimeout E m h = Inr m' \<and> handler_post E m m'"
proof (cases "first_match (\<lambda>x. x = h) (mOps m)")
  case None
  then show ?thesis using m by (simp add: HandleTimeout_def handler_post_def xl_laws [OF mgr_okD(2) [OF m]])
next
  case (Some t)
  note t = first_match_SomeD [OF Some]
  let ?k = "mTrackerHeap m ! h"
  define m1 where "m1 = m\<lparr>mOps := take t (mOps m) @ drop (Suc t) (mOps m)\<rparr>"
  note rt = remove_tracker [OF m t(1), folded m1_def, unfolded t(2)]
  define m2 where "m2 = SetFailQty (m1\<lparr>mStats := (mStats m)\<lparr>ReqFail := ReqFail (mStats m) + 1\<rparr>\<rparr>)
    (mDst ?k) (mFailQty (mContactHeap m ! mDst ?k) + 1)"
  have e: "HandleTimeout E m h = OnResponce E (mTrOp ?k) None (mDst ?k) m2"
    using Some t(1) by (simp add: HandleTimeout_def TrackerOnTimeout_def m2_def m1_def Let_def
        mgr_upd_swap xl_laws [OF mgr_okD(2) [OF m]])
  have m2: "mgr_ok E ((\<lambda>f. 0)(mTrOp ?k := 1)) m2"
    unfolding m2_def by (rule mgr_ok_SetFailQty) (simp add: rt(1))
  have s: "mFindHeap m2 = mFindHeap m" "requests m2 f = requests m1 f" "LocalId m2 = LocalId m"
    "finished m2 = finished m" for f
    by (simp_all add: m2_def m1_def requests_def LocalId_def finished_def)
  have hp: "handler_post E m m'" if "op_post E (mTrOp ?k) m2 m'" for m'
    by (rule op_post_handler_post [OF that]) (use s rt(5,6) in simp_all)
  note r = OnResponce_ok [OF m2, unfolded s, OF rt(2-4)]
  from r(2) obtain m' where "OnResponce E (mTrOp ?k) None (mDst ?k) m2 = Inr m'" by blast
  with r(1) [of None] e hp show ?thesis by simp
qed

lemma HandleResponse_ok:
  assumes m: "mgr_inv E m"
  shows "returns (handler_post E m) (HandleResponse E m hdr ob)"
proof (cases "first_match (\<lambda>h. mMsgId hdr = mTrMsgId (mTrackerHeap m ! h)) (mOps m)")
  case None
  then show ?thesis using m
    by (simp add: HandleResponse_def handler_post_def requests_def finished_def LocalId_def xl_laws [OF mgr_okD(2) [OF m]])
next
  case (Some t)
  note t = first_match_SomeD(1) [OF Some]
  let ?k = "mTrackerHeap m ! (mOps m ! t)"
  define m1 where "m1 = m\<lparr>mOps := take t (mOps m) @ drop (Suc t) (mOps m)\<rparr>"
  note rt = remove_tracker [OF m t, folded m1_def]
  define m2 where "m2 = SetFailQty (emit [CancelTimer (mOps m ! t)]
      (m1\<lparr>mStats := (mStats m)\<lparr>ReqSucc := ReqSucc (mStats m) + 1\<rparr>\<rparr>)) (mDst ?k) 0"
  have e: "HandleResponse E m hdr ob =
      (if mMsgId hdr = 0 then Inr m else OnResponce E (mTrOp ?k) (Some ob) (mDst ?k) m2)"
    using Some t by (simp add: HandleResponse_def TrackerOnResponse_def m2_def m1_def Let_def emit_def
        mgr_upd_swap xl_laws [OF mgr_okD(2) [OF m]])
  have m2: "mgr_ok E ((\<lambda>f. 0)(mTrOp ?k := 1)) m2"
    unfolding m2_def by (rule mgr_ok_SetFailQty) (simp add: rt(1))
  have s: "mFindHeap m2 = mFindHeap m" "requests m2 f = requests m1 f" "LocalId m2 = LocalId m"
    "finished m2 = finished m" for f
    by (simp_all add: m2_def m1_def requests_def LocalId_def emit_def finished_def)
  have hp: "handler_post E m m'" if "op_post E (mTrOp ?k) m2 m'" for m'
    by (rule op_post_handler_post [OF that]) (use s rt(5,6) in simp_all)
  have "handler_post E m m" using m by (simp add: handler_post_def)
  then show ?thesis
    using OnResponce_ok(1) [OF m2, unfolded s, OF rt(2-4), of "Some ob"] hp unfolding e
    by (auto simp: returns_def split: sum.splits)
qed

lemma Find_ok:
  assumes m: "mgr_inv E m" and key: "id_ok 20 key"
  shows "\<exists>m'. Find E m key h = Inr m' \<and> handler_post E m m' \<and>
    length (mFindHeap m') = Suc (length (mFindHeap m))"
proof -
  let ?st = "mContactHeap m" and ?X = "XC E"
  let ?cs = "RtFindClosest ?X ?st (mRoutingTable m) key 16"
  let ?r = "\<lparr>mKey = key, mList = InsertAll ?X ?st key ?cs [], mBlock = [], mPendingQty = 0, mHandler = h\<rparr>"
  let ?m1 = "m\<lparr>mFindHeap := mFindHeap m @ [?r]\<rparr>" and ?f = "length (mFindHeap m)"
  have "\<forall>p \<in> set ?cs. p < length ?st \<and> id_ok 20 (idof ?st p)"
    using rt.closest_ok [OF mgr_okD(3) [OF m]] by (simp add: contact_ok_def)
  then have lst: "list_ok ?st key (mList ?r)"
    using InsertAll_spec [OF mgr_okD(1) [OF m] key, of ?cs ?st "[]"] by simp
  have rq: "requests m ?f = []"
  proof -
    have "mTrOp (mTrackerHeap m ! x) < ?f" if "x \<in> set (mOps m)" for x
      using m that nth_mem unfolding mgr_ok_def by blast
    then have "\<forall>x \<in> set (mOps m). mTrOp (mTrackerHeap m ! x) \<noteq> ?f" by (simp add: less_imp_neq)
    then show ?thesis by (simp add: requests_def filter_empty_conv)
  qed
  have nf: "?f \<notin> set (finished ?m1)" using m by (auto simp: mgr_ok_def finished_def)
  have "find_ok ?st 0 (requests m g) ((mFindHeap m @ [?r]) ! g)" if "g < Suc ?f" for g
    using mgr_okD(4) [OF m, of g] lst key rq that by (auto simp: nth_append find_ok_def less_Suc_eq)
  then have m1: "mgr_inv E ?m1" using m by (auto simp: mgr_ok_def requests_def finished_def less_Suc_eq)
  obtain m2 sent where s: "Send E ?f 3 ?m1 = Inr (m2, sent)" "send_post E (\<lambda>f. 0) ?f ?m1 3 (m2, sent)"
    using Send_ok [OF m1, of ?f 3] nf by auto
  then have m2: "mgr_inv E m2" "send_frame ?m1 m2" "\<And>g. g \<noteq> ?f \<Longrightarrow> requests m2 g = requests ?m1 g"
    by (simp_all add: send_post_def)
  then have "handler_post E m m2" "length (mFindHeap m2) = Suc ?f"
    using send_frameD(3-5) [OF m2(2)] by (simp_all add: handler_post_def LocalId_def requests_def finished_def)
  then show ?thesis using s(1) by (simp add: Find_def NewFind_def Let_def)
qed

lemma LocalId_simps [simp]:
  "LocalId (CountReqRx n m) = LocalId m" "LocalId (CountRspRx n m) = LocalId m"
  "LocalId (CountDropped m) = LocalId m" "LocalId (SendRequestAddr E m s addr) = LocalId m"
  "LocalId (SendResponse E m s addr r) = LocalId m"
  by (simp_all add: CountReqRx_def CountRspRx_def CountDropped_def SendRequestAddr_def
      SendResponse_def LocalId_def emit_def Let_def)

lemma counter_simps:
  "mFindHeap (CountReqRx n m) = mFindHeap m" "mFindHeap (CountRspRx n m) = mFindHeap m"
  "mFindHeap (CountDropped m) = mFindHeap m" "mFindHeap (SendRequestAddr E m s addr) = mFindHeap m"
  "mFindHeap (SendResponse E m s addr r) = mFindHeap m"
  "requests (CountReqRx n m) g = requests m g" "requests (CountRspRx n m) g = requests m g"
  "requests (CountDropped m) g = requests m g" "requests (SendRequestAddr E m s addr) g = requests m g"
  "requests (SendResponse E m s addr r) g = requests m g"
  "finished (CountReqRx n m) = finished m" "finished (CountRspRx n m) = finished m"
  "finished (CountDropped m) = finished m" "finished (SendRequestAddr E m s addr) = finished m"
  "finished (SendResponse E m s addr r) = finished m"
  "mContactHeap (CountReqRx n m) = mContactHeap m" "mRoutingTable (CountReqRx n m) = mRoutingTable m"
  "mContactHeap (SendResponse E m s addr r) = mContactHeap m"
  "mRoutingTable (SendResponse E m s addr r) = mRoutingTable m"
  "mOps (CountReqRx n m) = mOps m" "mOps (SendResponse E m s addr r) = mOps m"
  "mTrackerHeap (CountReqRx n m) = mTrackerHeap m" "mTrackerHeap (SendResponse E m s addr r) = mTrackerHeap m"
  by (simp_all add: CountReqRx_def CountRspRx_def CountDropped_def SendRequestAddr_def
      SendResponse_def requests_def finished_def emit_def Let_def)

lemma Dispatch_ok:
  assumes m: "mgr_inv E m"
  shows "returns (handler_post E m) (Dispatch E m req ob len from)"
proof -
  have same: "handler_post E m m1 = (mgr_inv E m1 \<and> LocalId m1 = LocalId m)"
    if "mFindHeap m1 = mFindHeap m" "\<And>g. requests m1 g = requests m g" "finished m1 = finished m" for m1
    using that by (simp add: handler_post_def)
  have "handler_post E (CountRspRx len m) = handler_post E m"
    by (simp add: handler_post_def fun_eq_iff counter_simps)
  then show ?thesis
    using m HandleResponse_ok [of E "CountRspRx len m" req ob]
    by (simp add: Dispatch_def Let_def same counter_simps split: option.split)
qed

lemma RecieveHead_ok:
  assumes m: "mgr_inv E m"
  shows "returns (\<lambda>r. handler_post E m (fst r)) (RecieveHead E m buff from dice)"
proof (cases "mp_decode (MP E) buff")
  case None
  then show ?thesis by (simp add: RecieveHead_def)
next
  case (Some ob)
  let ?req = "KadMsg_unpack (MP E) (KadMsgHdr 0) (header_of ob)"
  have l: "id_ok 20 (LocalId m)"
    using mgr_okD(3) [OF m] by (simp add: rt_table_ok_def rt_inv_def LocalId_def)
  have drop: "handler_post E m (CountDropped m)" "handler_post E m m"
    using m by (simp_all add: handler_post_def counter_simps)
  consider "\<not> SaneFormat ob \<or> dice < 30" | "SaneFormat ob" "\<not> dice < 30" "?req = None"
    | r where "SaneFormat ob" "\<not> dice < 30" "?req = Some r" by fastforce
  then show ?thesis
  proof cases
    case (3 r)
    have i: "id_ok 20 (mSrcId r)"
      by (rule KadMsg_unpack_ok [OF _ 3(3)]) (simp add: KadMsgHdr_def)
    show ?thesis
    proof (cases "mSrcId r = LocalId m")
      case True
      then show ?thesis using Some 3 drop i by (simp add: RecieveHead_def id_cmp_iffs [of 20])
    next
      case False
      obtain m1 p where a: "FindAddContact E m (mSrcId r) from = (m1, Some p)" "mgr_ok E (\<lambda>f. 0) m1"
        "LocalId m1 = LocalId m" "mFindHeap m1 = mFindHeap m" "mOps m1 = mOps m"
        "mTrackerHeap m1 = mTrackerHeap m" "mEffects m1 = mEffects m"
        using FindAddContact_ok [OF m i False] by metis
      define m2 where "m2 = (if IsStale (mContactHeap m1 ! p) then SetFailQty m1 p 0 else m1)"
      have "mgr_inv E m2" using a(2) by (simp add: m2_def mgr_ok_SetFailQty)
      moreover have "LocalId m2 = LocalId m" "mFindHeap m2 = mFindHeap m" "finished m2 = finished m"
        "requests m2 g = requests m g" for g
        using a(3-) by (simp_all add: m2_def requests_def) (simp_all add: finished_def)
      ultimately have "handler_post E m m2" by (simp add: handler_post_def)
      moreover have "RecieveHead E m buff from dice = Inr (m2, Some (r, ob))"
        using Some 3 i l False a(1) by (simp add: RecieveHead_def id_cmp_iffs [of 20] m2_def)
      ultimately show ?thesis by simp
    qed
  qed (use Some drop in \<open>auto simp: RecieveHead_def\<close>)
qed

lemma handler_post_trans: "handler_post E a b \<Longrightarrow> handler_post E b c \<Longrightarrow> handler_post E a c"
  by (auto simp: handler_post_def)

lemma handler_post_inv: "handler_post E a b \<Longrightarrow> mgr_inv E b"
  by (simp add: handler_post_def)

lemma RecieveCbk_ok:
  assumes m: "mgr_inv E m"
  shows "returns (handler_post E m) (RecieveCbk E m buff from dice)"
proof (cases "RecieveHead E m buff from dice")
  case (Inl e)
  then show ?thesis using RecieveHead_ok [OF m, of buff "from" dice] by (simp add: RecieveCbk_def returns_def)
next
  case (Inr r)
  obtain m1 q where r: "r = (m1, q)" by fastforce
  have p: "handler_post E m m1" using RecieveHead_ok [OF m, of buff "from" dice] Inr r by simp
  show ?thesis
  proof (cases q)
    case (Some d)
    obtain req ob where d: "d = (req, ob)" by fastforce
    have "returns (handler_post E m) (Dispatch E m1 req ob (of_nat (length buff)) from)"
      using Dispatch_ok [OF handler_post_inv [OF p], of req ob "of_nat (length buff)" "from"] handler_post_trans [OF p]
      by (auto simp: returns_def split: sum.splits)
    then show ?thesis using Inr r Some d by (simp add: RecieveCbk_def)
  qed (use Inr r p in \<open>simp add: RecieveCbk_def\<close>)
qed

lemma PingAll_ok: "mgr_inv E m \<Longrightarrow> handler_post E m (PingAll E m as)"
proof (induction "as" arbitrary: m)
  case (Cons a "as")
  then have "handler_post E (SendRequestAddr E m (OutPing (KadMsgHdr 0)) a) (PingAll E m (a # as))" by simp
  then show ?case by (simp add: handler_post_def counter_simps)
qed (simp add: handler_post_def)

lemma kad_handle_ok:
  assumes "mgr_inv E m" "event_ok ev"
  shows "returns (handler_post E m) (kad_handle E ev m)"
proof (cases ev)
  case (Receive buff addr dice)
  then show ?thesis using RecieveCbk_ok [OF assms(1)] by simp
next
  case (Enter buff addr dice)
  then show ?thesis using RecieveHead_ok [OF assms(1), of buff addr dice] by (auto simp: returns_def split: sum.splits)
next
  case (Switch req ob len addr)
  then show ?thesis using Dispatch_ok [OF assms(1)] by simp
next
  case (Timer h)
  then show ?thesis using HandleTimeout_ok [OF assms(1), of h] by auto
next
  case (Lookup key h)
  then show ?thesis using Find_ok [OF assms(1), of key h] assms(2) by auto
next
  case (PingBsp as)
  then show ?thesis using PingAll_ok [OF assms(1)] by simp
qed

lemma KadOpMgr_ok: "env_ok E \<Longrightarrow> id_ok 20 l \<Longrightarrow> mgr_inv E (KadOpMgr l)"
  by (simp add: mgr_ok_def KadOpMgr_def env_ok_def rt_table_ok_def rt_inv_init finished_def)

lemma reach_ok:
  assumes "env_ok E" "id_ok 20 l" "kad_reach E l m"
  shows "mgr_inv E m \<and> LocalId m = l"
  using assms(3)
proof induction
  case init
  then show ?case using KadOpMgr_ok [OF assms(1,2)] by (simp add: LocalId_def KadOpMgr_def RtNode_def)
next
  case (step m ev m')
  then show ?case using kad_handle_ok [of E m ev] by (auto simp: handler_post_def elim!: kad_stepE)
qed

end
