(* ===== verification/OpMgrDemo.thy ===== *)
theory OpMgrDemo
  imports OpMgrInv
begin

section \<open>A small run of the operation manager\<close>

text \<open>
  A concrete environment and a run of the machine in it, for the closed instances of the
  properties: a ping from contact 1, the start of a lookup, and its first response, which
  names contact 2.
\<close>

definition demo_l :: kad_id where "demo_l = TKadId (replicate 20 0)"
definition demo_id :: "u8 \<Rightarrow> kad_id" where "demo_id k = TKadId (replicate 19 0 @ [k])"
definition demo_key :: kad_id where "demo_key = TKadId (replicate 19 0 @ [2])"
definition demo_addr :: sock_addr where "demo_addr = SockV4 80 [10, 0, 0, 1]"

definition demo_dec :: "u8 list \<Rightarrow> mp_obj option" where
  "demo_dec bs =
     (if bs = [1] then Some (MPArray [MPArray [MPPos 0, MPPos 7, KadId_pack (demo_id 1)]])
      else if bs = [2] then Some (MPArray [MPArray [MPPos 5, MPPos 42, KadId_pack (demo_id 1)],
        MPArray [MPArray [KadId_pack (demo_id 2), MPArray [MPPos 1, MPPos 90, MPRaw (replicate 16 5)]]]])
      else if bs = [3] then Some MPNil
      else None)"

definition demo_mp :: msgpack where
  "demo_mp = plain_msgpack (\<lambda>ob. [0, 0]) demo_dec"

definition demo_env :: kad_env where
  "demo_env = \<lparr>XC = list_container, XT = list_container, MP = demo_mp,
     random_at = (\<lambda>n. 42), rest6 = [], addr0 = \<lparr>mFamily = 0, mPort = 0, mAddr = replicate 16 0\<rparr>\<rparr>"

lemma demo_env_ok [simp]: "env_ok demo_env"
  by (simp add: env_ok_def demo_env_def)

lemma demo_ids [simp]: "id_ok 20 demo_l" "id_ok 20 (demo_id k)" "id_ok 20 demo_key"
  by (simp_all add: id_ok_def demo_l_def demo_id_def demo_key_def)

text \<open>Running a list of events; a failing one leaves the state as it is.\<close>

definition run_event :: "kad_env \<Rightarrow> kad_event \<Rightarrow> op_mgr \<Rightarrow> op_mgr" where
  "run_event E ev m = (case kad_handle E ev m of Inr m' \<Rightarrow> m' | Inl e \<Rightarrow> m)"

lemma reach_run:
  assumes "kad_reach E l m" "\<forall>ev \<in> set evs. event_ok ev"
  shows "kad_reach E l (fold (run_event E) evs m)"
  using assms
proof (induction evs arbitrary: m)
  case (Cons ev evs)
  have "kad_reach E l (run_event E ev m)"
  proof (cases "kad_handle E ev m")
    case (Inl e)
    then show ?thesis using Cons.prems(1) by (simp add: run_event_def)
  next
    case (Inr m')
    then have s: "kad_step E m ev m'" by (rule kad_step.handle)
    have "event_ok ev" using Cons.prems(2) by simp
    from kad_reach.step [OF Cons.prems(1) this s] show ?thesis using Inr by (simp add: run_event_def)
  qed
  then show ?case using Cons by simp
qed simp

subsection \<open>The run, step by step\<close>

lemma demo_proj [simp]:
  "XC demo_env = list_container" "XT demo_env = list_container" "MP demo_env = demo_mp"
  "random_at demo_env n = 42" "mp_decode demo_mp = demo_dec"
  "mp_members demo_mp n (MPArray os) = Some (array_members n os)"
  "mp_conv_uint demo_mp w (MPPos v) = (if unat v < 2 ^ w then Some v else None)"
  by (simp_all add: demo_env_def demo_mp_def plain_msgpack_def)

lemmas demo_list = xl_laws [OF list_container_ok]

lemma demo_neq [simp]: "demo_id 1 \<noteq> demo_l"
proof
  assume "demo_id 1 = demo_l"
  then have "replicate 19 (0 :: u8) @ [1] = replicate 20 0" by (simp add: demo_id_def demo_l_def)
  then have "last (replicate 19 (0 :: u8) @ [1]) = last (replicate 20 0)" by (rule arg_cong)
  then show False by simp
qed

lemma demo_decode: "demo_dec [1] = Some (MPArray [MPArray [MPPos 0, MPPos 7, KadId_pack (demo_id 1)]])"
  "demo_dec [3] = Some MPNil"
  by (simp_all add: demo_dec_def)

lemma demo_header:
  assumes "unat t < 14"
  shows "KadMsg_unpack demo_mp (KadMsgHdr 0) (MPArray [MPPos t, MPPos i, KadId_pack (demo_id k)]) =
    Some \<lparr>mMsgType = ucast t, mMsgId = i, mSrcId = demo_id k\<rparr>"
proof -
  have "unat t < 2 ^ 32" "unat i < 2 ^ 64"
    using assms unsigned_less [of i, where 'a = nat] by simp_all
  then show ?thesis
    by (simp add: KadMsg_unpack_def conv_member_def KadId_unpack_def KadId_pack_def KadMsgHdr_def
        Clear_def demo_id_def)
qed

definition demo_m1 :: op_mgr where
  "demo_m1 = run_event demo_env (Receive [1] demo_addr 50) (KadOpMgr demo_l)"

lemma demo_m1_fields:
  "mRoutingTable demo_m1 = Bucket 0 0 demo_l [0] []" "mContactHeap demo_m1 = [KadContact (demo_id 1) demo_addr]"
  "mFindHeap demo_m1 = []" "mOps demo_m1 = []" "mTrackerHeap demo_m1 = []" "done_of (mEffects demo_m1) = []"
  by (simp_all add: demo_m1_def run_event_def RecieveCbk_def RecieveHead_def demo_decode SaneFormat_def header_of_def
      demo_header LocalId_def KadOpMgr_def RtNode_def id_cmp_iffs [of 20] FindAddContact_def RtAdd_def
      FindNodeById_def NewContact_def demo_list IsStale_def KadContact_def Dispatch_def counter_simps)
    (simp add: SendResponse_def emit_def Let_def CountReqRx_def)

definition demo_m :: op_mgr where
  "demo_m = run_event demo_env (Lookup demo_key (UserHandler 1)) demo_m1"

lemma demo_reach: "kad_reach demo_env demo_l demo_m"
proof -
  have "demo_m = fold (run_event demo_env) [Receive [1] demo_addr 50, Lookup demo_key (UserHandler 1)] (KadOpMgr demo_l)"
    by (simp add: demo_m_def demo_m1_def)
  moreover have "kad_reach demo_env demo_l
      (fold (run_event demo_env) [Receive [1] demo_addr 50, Lookup demo_key (UserHandler 1)] (KadOpMgr demo_l))"
    by (rule reach_run [OF kad_reach.init]) simp
  ultimately show ?thesis by simp
qed

lemma demo_m_fields:
  "requests demo_m 0 = [0]" "length (mFindHeap demo_m) = 1" "finished demo_m = []" "mOps demo_m = [0]"
  "mRoutingTable demo_m = Bucket 0 0 demo_l [0] []"
  by (simp_all add: demo_m_def run_event_def Find_def NewFind_def Send_def demo_m1_fields RtFindClosest_def
      IsStale_def KadContact_def demo_list Insert_def SendOne_def find_upd_def NewTracker_def
      SendRequest_def emit_def Let_def upt_conv_Cons requests_def finished_def)

end
