(* ===== verification/OpMgrStats.thy ===== *)
theory OpMgrStats
  imports OpMgrInv
begin

section \<open>The count of dropped messages\<close>

text \<open>Only the sanity check of \<open>RecieveCbk\<close> counts a message as dropped: what it dispatches never does.\<close>

abbreviation (input) dropped :: "op_mgr \<Rightarrow> u32" where
  "dropped m \<equiv> MsgDropped (mStats m)"

lemma dropped_simps [simp]:
  "dropped (emit es m) = dropped m" "dropped (find_upd f u m) = dropped m" "dropped (SetFailQty m p q) = dropped m"
  "dropped (CountReqRx n m) = dropped m" "dropped (CountRspRx n m) = dropped m" "dropped (SendResponse E m s addr r) = dropped m"
  "dropped (SendOne E f m c) = dropped m" "dropped (Complete f m) = dropped m"
  by (simp_all add: emit_def find_upd_def SetFailQty_def CountReqRx_def CountRspRx_def SendResponse_def SendOne_def NewTracker_def
      SendRequest_def Complete_def Let_def split: find_handler.split)

lemma dropped_FindAddContact: "FindAddContact E m nid addr = (m1, p) \<Longrightarrow> dropped m1 = dropped m"
  by (auto simp: FindAddContact_def Let_def split: if_splits prod.splits)

lemma dropped_Send_list: "dropped (fst (fst (Send_list E f qty stale cs s))) = dropped (fst s)"
  by (induction E f qty stale cs s rule: Send_list.induct) (auto simp: Let_def)

lemma dropped_Send_loop: "dropped (fst (Send_loop E f qty sts s)) = dropped (fst s)"
proof (induction sts arbitrary: s)
  case (Cons stale sts)
  show ?case using Cons.IH dropped_Send_list [of E f qty stale "mList (mFindHeap (fst s) ! f)" s]
    by (cases "Send_list E f qty stale (mList (mFindHeap (fst s) ! f)) s") (simp add: Let_def)
qed simp

lemma dropped_Send: "Send E f qty m = Inr r \<Longrightarrow> dropped (fst r) = dropped m"
  using dropped_Send_loop [of E f qty _ "(m, 0)"] by (auto simp: Send_def split: if_splits)

lemma dropped_MergeOne: "MergeOne E f i s = Inr s' \<Longrightarrow> dropped (fst s') = dropped (fst s)"
  by (auto simp: MergeOne_def Let_def dest: dropped_FindAddContact split: if_splits prod.splits option.splits)

lemma dropped_Merge: "Merge E f is s = Inr s' \<Longrightarrow> dropped (fst s') = dropped (fst s)"
  by (induction "is" arbitrary: s) (auto dest: dropped_MergeOne split: sum.splits)

lemma dropped_OnTimeoutOf: "OnTimeoutOf E f c p m = Inr m' \<Longrightarrow> dropped m' = dropped m"
  by (auto simp: OnTimeoutOf_def Let_def dest!: dropped_Send split: sum.splits prod.splits if_splits option.splits)

lemma dropped_OnFindRsp: "OnFindRsp E f ob m = Inr m' \<Longrightarrow> dropped m' = dropped m"
  by (auto simp: OnFindRsp_def Let_def dest!: dropped_Send dropped_Merge split: sum.splits prod.splits if_splits option.splits)

lemma dropped_OnResponce: "OnResponce E f rsp c m = Inr m' \<Longrightarrow> dropped m' = dropped m"
  by (auto simp: OnResponce_def Let_def dest!: dropped_OnTimeoutOf dropped_OnFindRsp split: option.splits)

lemma dropped_Dispatch: "Dispatch E m req ob len from = Inr m' \<Longrightarrow> dropped m' = dropped m"
  by (auto simp: Dispatch_def HandleResponse_def TrackerOnResponse_def Let_def dest!: dropped_OnResponce split: if_splits option.splits)

text \<open>A lookup on a table without a live contact starts with an empty list and sends nothing.\<close>

lemma Send_nil: "mList (mFindHeap m ! f) = [] \<Longrightarrow> Send E f 3 m = Inr (m, 0)"
proof -
  assume e: "mList (mFindHeap m ! f) = []"
  have "Send_loop E f 3 sts (m, 0) = (m, 0)" for sts
    by (induction sts) (simp_all add: e)
  then show ?thesis by (simp add: Send_def)
qed

lemma Find_no_contact:
  assumes m: "mgr_inv E m" and s: "\<forall>p \<in> set (rt_contacts (mRoutingTable m)). IsStale (mContactHeap m ! p)"
  obtains m1 where "Find E m key h = Inr m1" "length (mFindHeap m1) = Suc (length (mFindHeap m))"
    "mEffects m1 = mEffects m" "requests m1 (length (mFindHeap m)) = []" "finished m1 = finished m"
    "length (mFindHeap m) \<notin> set (finished m)"
proof -
  let ?f = "length (mFindHeap m)" and ?t = "mRoutingTable m" and ?st = "mContactHeap m"
  define cs where "cs = RtFindClosest (XC E) ?st ?t key 16"
  have rt: "rt_wf ?st (mLocalId ?t) 0 0 ?t" "id_ok 20 (mLocalId ?t)"
    using mgr_okD(3) [OF m] by (simp_all add: rt_table_ok_def rt_inv_def)
  have "live ?st (rt_contacts ?t) = []" using s by (simp add: live_def filter_empty_conv)
  then have cs: "cs = []"
    using FindClosest_spec [OF mgr_okD(1) [OF m] rt, of key "id_xor key (mLocalId ?t)" 16]
    by (simp add: cs_def RtFindClosest_def)
  define r where "r = \<lparr>mKey = key, mList = [], mBlock = [], mPendingQty = 0, mHandler = h\<rparr>"
  define m1 where "m1 = m\<lparr>mFindHeap := mFindHeap m @ [r]\<rparr>"
  have n: "NewFind E m key h = (m1, ?f)" using cs by (simp add: NewFind_def cs_def r_def m1_def Let_def)
  have "mList (mFindHeap m1 ! ?f) = []" by (simp add: m1_def r_def)
  from Send_nil [OF this, of E] have F: "Find E m key h = Inr m1" by (simp add: Find_def n)
  have "mTrOp (mTrackerHeap m ! x) < ?f" if "x \<in> set (mOps m)" for x
    using m that nth_mem unfolding mgr_ok_def by blast
  then have "\<forall>x \<in> set (mOps m). mTrOp (mTrackerHeap m ! x) \<noteq> ?f" by (simp add: less_imp_neq)
  then have q: "requests m1 ?f = []" by (simp add: requests_def filter_empty_conv m1_def)
  have e: "mEffects m1 = mEffects m" and l: "length (mFindHeap m1) = Suc ?f" by (simp_all add: m1_def)
  have fi: "finished m1 = finished m" by (simp add: finished_def e)
  have "?f \<notin> set (finished m)" using m by (auto simp: mgr_ok_def)
  from that [OF F l e q fi this] show thesis .
qed

text \<open>What the sanity check refuses, condition by condition.\<close>

lemma SaneFormatD:
  assumes S: "SaneFormat ob"
  shows "\<exists>t i s items. ob = MPArray (MPArray [MPPos t, i, s] # items) \<and> unat t < 14"
proof -
  obtain xs where 1: "ob = MPArray xs" using S by (cases ob) (simp_all add: SaneFormat_def)
  obtain h items where 2: "xs = h # items" using S 1 by (cases xs) (simp_all add: SaneFormat_def)
  obtain hs where 3: "h = MPArray hs" using S 1 2 by (cases h) (simp_all add: SaneFormat_def)
  obtain a r where 4: "hs = a # r" using S 1 2 3 by (cases hs) (simp_all add: SaneFormat_def)
  obtain t where 5: "a = MPPos t" using S 1 2 3 4 by (cases a) (simp_all add: SaneFormat_def)
  obtain i r1 where 6: "r = i # r1" using S 1 2 3 4 5 by (cases r) (simp_all add: SaneFormat_def)
  obtain s r2 where 7: "r1 = s # r2" using S 1 2 3 4 5 6 by (cases r1) (simp_all add: SaneFormat_def)
  have "r2 = []" using S 1 2 3 4 5 6 7 by (cases r2) (simp_all add: SaneFormat_def)
  with S 1 2 3 4 5 6 7 show ?thesis by (simp add: SaneFormat_def)
qed

text \<open>The conditions under which a message is refused, as numbers and shapes.\<close>

definition bad_format :: "mp_obj \<Rightarrow> bool" where
  "bad_format ob \<longleftrightarrow> (\<forall>xs. ob = MPArray xs \<longrightarrow> xs = [] \<or>
     (\<forall>hs. hd xs = MPArray hs \<longrightarrow> length hs \<noteq> 3 \<or> (\<forall>t. hd hs = MPPos t \<longrightarrow> 14 \<le> unat t)))"

lemma SaneFormat_iff: "SaneFormat ob \<longleftrightarrow> \<not> bad_format ob"
proof
  assume "SaneFormat ob"
  from SaneFormatD [OF this] show "\<not> bad_format ob" by (auto simp: bad_format_def)
next
  assume "\<not> bad_format ob"
  then obtain xs hs t where o: "ob = MPArray xs" "xs \<noteq> []" "hd xs = MPArray hs" "length hs = 3" "hd hs = MPPos t" "unat t < 14"
    by (auto simp: bad_format_def not_le)
  then obtain b c where "hs = [MPPos t, b, c]" by (auto simp: numeral_3_eq_3 length_Suc_conv)
  with o show "SaneFormat ob" by (cases xs) (simp_all add: SaneFormat_def)
qed

end
