(* ===== verification/OpMgrProps.thy ===== *)
theory OpMgrProps
  imports OpMgrDemo OpMgrStats
begin

section \<open>Properties of the operation manager\<close>

text \<open>
  What \<open>KadOpMgr\<close> promises on every state that its handlers can reach, in any order and on
  any input.
\<close>

text \<open>
  C1: in every reachable state the routing table is well-formed, and for each lookup its list
  is sorted by distance and at most 16 long, its pending count is the number of its requests
  in flight, at most 3, and these go to different contacts, all of them blocked.
\<close>

theorem reach_invariant:
  assumes "env_ok E" "id_ok 20 l" "kad_reach E l m"
  shows "LocalId m = l \<and> rt_inv (mContactHeap m) (mRoutingTable m) \<and>
    (\<forall>f < length (mFindHeap m).
       list_ok (mContactHeap m) (mKey (mFindHeap m ! f)) (mList (mFindHeap m ! f)) \<and>
       distinct (mBlock (mFindHeap m ! f)) \<and>
       mPendingQty (mFindHeap m ! f) = int (length (requests m f)) \<and>
       mPendingQty (mFindHeap m ! f) \<le> KADEMLIA_ALPHA \<and>
       distinct (requests m f) \<and> set (requests m f) \<subseteq> set (mBlock (mFindHeap m ! f)))"
proof -
  have m: "mgr_inv E m" "LocalId m = l" using reach_ok [OF assms] by simp_all
  have "\<forall>f < length (mFindHeap m). find_ok (mContactHeap m) 0 (requests m f) (mFindHeap m ! f)"
    using mgr_okD(4) [OF m(1)] by simp
  with m(2) mgr_okD(3) [OF m(1)] show ?thesis
    unfolding rt_table_ok_def find_ok_def by (metis add.right_neutral)
qed

lemma reach_invariant_witness: "mPendingQty (mFindHeap demo_m ! 0) = 1"
  using reach_invariant [OF demo_env_ok demo_ids(1) demo_reach] demo_m_fields by auto

text \<open>
  C2: no handler ever fails an assertion or follows a null pointer. A timer, a lookup or a
  ping always returns; a datagram can only make MessagePack throw. The assertion of \<open>GetBit\<close>
  cannot fail either: the routing table asks for no bit that an identifier does not have.
\<close>

theorem no_internal_failure:
  assumes "env_ok E" "id_ok 20 l" "kad_reach E l m" "event_ok ev"
  shows "kad_handle E ev m \<noteq> Inl AssertFailed \<and> kad_handle E ev m \<noteq> Inl NullDeref \<and>
    (case ev of Timer h \<Rightarrow> \<exists>m'. kad_handle E ev m = Inr m'
       | Lookup key h \<Rightarrow> \<exists>m'. kad_handle E ev m = Inr m'
       | PingBsp as \<Rightarrow> \<exists>m'. kad_handle E ev m = Inr m'
       | _ \<Rightarrow> \<forall>e. kad_handle E ev m = Inl e \<longrightarrow> e = UnpackError \<or> e = TypeError) \<and>
    (\<forall>d \<in> set (rt_depths (mRoutingTable m)). \<forall>x. id_ok 20 x \<longrightarrow> GetBit x d \<noteq> None)"
proof -
  have m: "mgr_inv E m" using reach_ok [OF assms(1-3)] by simp
  have r: "kad_handle E ev m \<noteq> Inl AssertFailed \<and> kad_handle E ev m \<noteq> Inl NullDeref"
    using kad_handle_ok [OF m assms(4)] by (auto simp: returns_def split: sum.splits)
  have "e = UnpackError \<or> e = TypeError" if "kad_handle E ev m = Inl e" for e
    using r that by (cases e) simp_all
  moreover have "\<exists>m'. kad_handle E (Timer h) m = Inr m'" for h
    using HandleTimeout_ok [OF m, of h] by auto
  moreover have "\<exists>m'. kad_handle E ev m = Inr m'" if "ev = Lookup key h" for key h
    using Find_ok [OF m, of key h] assms(4) that by auto
  moreover have "GetBit x d \<noteq> None" if "d \<in> set (rt_depths (mRoutingTable m))" "id_ok 20 x" for d x
  proof -
    have "rt_wf (mContactHeap m) (mLocalId (mRoutingTable m)) 0 0 (mRoutingTable m)"
      using mgr_okD(3) [OF m] by (simp add: rt_table_ok_def rt_inv_def)
    from rt_wf_depths [OF this] that show ?thesis by (simp add: GetBit_eq BIT_SIZE_ok [of 20])
  qed
  ultimately show ?thesis using r by (cases ev) simp_all
qed

lemma no_internal_failure_witness:
  "(\<exists>m'. kad_handle demo_env (Timer 0) demo_m = Inr m') \<and> GetBit demo_key 0 \<noteq> None"
  using no_internal_failure [OF demo_env_ok demo_ids(1) demo_reach, of "Timer 0"] by (simp add: demo_m_fields)

text \<open>
  C3: a lookup completes at most once, and when it has completed it has no request in flight.
\<close>

theorem completes_once:
  assumes "env_ok E" "id_ok 20 l" "kad_reach E l m"
  shows "distinct (finished m) \<and> (\<forall>f \<in> set (finished m). requests m f = [])"
  using reach_ok [OF assms] by (simp add: mgr_ok_def)

lemma completes_once_witness: "0 \<notin> set (finished demo_m)"
proof
  assume "0 \<in> set (finished demo_m)"
  then have "requests demo_m 0 = []"
    using completes_once [OF demo_env_ok demo_ids(1) demo_reach] by blast
  then show False by (simp add: demo_m_fields)
qed

text \<open>The steps that can follow, in any number.\<close>

definition kad_next :: "kad_env \<Rightarrow> op_mgr \<Rightarrow> op_mgr \<Rightarrow> bool" where
  "kad_next E m m' \<longleftrightarrow> (\<exists>ev. event_ok ev \<and> kad_step E m ev m')"

lemma quiet_stays:
  assumes "mgr_inv E m" "f < length (mFindHeap m)" "requests m f = []" "f \<notin> set (finished m)"
    and "(kad_next E)\<^sup>*\<^sup>* m m'"
  shows "requests m' f = [] \<and> f \<notin> set (finished m')"
proof -
  have "mgr_inv E m' \<and> f < length (mFindHeap m') \<and> requests m' f = [] \<and> f \<notin> set (finished m')"
    using assms(5)
  proof induction
    case base
    then show ?case using assms(1-4) by simp
  next
    case (step m1 m2)
    then obtain ev where "event_ok ev" "kad_handle E ev m1 = Inr m2"
      by (auto simp: kad_next_def elim: kad_stepE)
    then have "handler_post E m1 m2" using kad_handle_ok [of E m1 ev] step.IH by simp
    with step.IH show ?case by (auto simp: handler_post_def)
  qed
  then show ?thesis by simp
qed

text \<open>
  C16: a lookup that has no request in flight and has not completed never completes, whatever
  happens later: only an answer or a timeout of one of its own requests could do it. A lookup
  started while the table holds no contact, or only stale ones, is such a lookup from its
  start: it sends nothing, and no later event ever completes it.
\<close>

theorem quiet_lookup_hangs:
  assumes "env_ok E" "id_ok 20 l" "kad_reach E l m"
  shows "(\<forall>f m'. f < length (mFindHeap m) \<and> requests m f = [] \<and> f \<notin> set (finished m) \<and>
       (kad_next E)\<^sup>*\<^sup>* m m' \<longrightarrow> requests m' f = [] \<and> f \<notin> set (finished m')) \<and>
    (\<forall>key h. id_ok 20 key \<and> (\<forall>p \<in> set (rt_contacts (mRoutingTable m)). IsStale (mContactHeap m ! p)) \<longrightarrow>
       (\<exists>m1. Find E m key h = Inr m1 \<and> length (mFindHeap m1) = Suc (length (mFindHeap m)) \<and>
          mEffects m1 = mEffects m \<and>
          (\<forall>m'. (kad_next E)\<^sup>*\<^sup>* m1 m' \<longrightarrow> requests m' (length (mFindHeap m)) = [] \<and>
             length (mFindHeap m) \<notin> set (finished m'))))"
proof -
  have m: "mgr_inv E m" using reach_ok [OF assms] by simp
  have "\<exists>m1. Find E m key h = Inr m1 \<and> length (mFindHeap m1) = Suc (length (mFindHeap m)) \<and>
      mEffects m1 = mEffects m \<and> (\<forall>m'. (kad_next E)\<^sup>*\<^sup>* m1 m' \<longrightarrow>
        requests m' (length (mFindHeap m)) = [] \<and> length (mFindHeap m) \<notin> set (finished m'))"
    if key: "id_ok 20 key" and stale: "\<forall>p \<in> set (rt_contacts (mRoutingTable m)). IsStale (mContactHeap m ! p)" for key h
  proof -
    obtain m1 where f: "Find E m key h = Inr m1" "length (mFindHeap m1) = Suc (length (mFindHeap m))"
      "mEffects m1 = mEffects m" "requests m1 (length (mFindHeap m)) = []" "finished m1 = finished m"
      "length (mFindHeap m) \<notin> set (finished m)" by (rule Find_no_contact [OF m stale])
    have "mgr_inv E m1" using Find_ok [OF m key, of h] f(1) handler_post_inv by auto
    then have "requests m' (length (mFindHeap m)) = [] \<and> length (mFindHeap m) \<notin> set (finished m')"
      if "(kad_next E)\<^sup>*\<^sup>* m1 m'" for m'
      by (rule quiet_stays) (use f that in simp_all)
    then show ?thesis by (intro exI [of _ m1] conjI allI impI f(1-3)) (simp_all add: f)
  qed
  then have B: "\<forall>key h. id_ok 20 key \<and> (\<forall>p \<in> set (rt_contacts (mRoutingTable m)). IsStale (mContactHeap m ! p)) \<longrightarrow>
      (\<exists>m1. Find E m key h = Inr m1 \<and> length (mFindHeap m1) = Suc (length (mFindHeap m)) \<and>
        mEffects m1 = mEffects m \<and> (\<forall>m'. (kad_next E)\<^sup>*\<^sup>* m1 m' \<longrightarrow>
          requests m' (length (mFindHeap m)) = [] \<and> length (mFindHeap m) \<notin> set (finished m')))"
    by (intro allI impI) (elim conjE, simp only:)
  have "requests m' f = [] \<and> f \<notin> set (finished m')"
    if "f < length (mFindHeap m) \<and> requests m f = [] \<and> f \<notin> set (finished m) \<and> (kad_next E)\<^sup>*\<^sup>* m m'" for f m'
    by (rule quiet_stays [OF m]) (use that in simp_all)
  then have "\<forall>f m'. f < length (mFindHeap m) \<and> requests m f = [] \<and> f \<notin> set (finished m) \<and>
      (kad_next E)\<^sup>*\<^sup>* m m' \<longrightarrow> requests m' f = [] \<and> f \<notin> set (finished m')" by (intro allI impI)
  from conjI [OF this B] show ?thesis .
qed

lemma quiet_lookup_hangs_witness:
  "\<exists>m. Find demo_env (KadOpMgr demo_l) demo_key (UserHandler 1) = Inr m \<and> mEffects m = [] \<and>
     (\<forall>m'. (kad_next demo_env)\<^sup>*\<^sup>* m m' \<longrightarrow> 0 \<notin> set (finished m'))"
proof -
  have e: "rt_contacts (mRoutingTable (KadOpMgr demo_l)) = []" "mFindHeap (KadOpMgr demo_l) = []"
    "mEffects (KadOpMgr demo_l) = []"
    by (simp_all add: KadOpMgr_def RtNode_def)
  then have s: "\<forall>p \<in> set (rt_contacts (mRoutingTable (KadOpMgr demo_l))).
      IsStale (mContactHeap (KadOpMgr demo_l) ! p)" by simp
  from quiet_lookup_hangs [OF demo_env_ok demo_ids(1) kad_reach.init, THEN conjunct2, THEN spec [of _ demo_key],
      THEN spec [of _ "UserHandler 1"], THEN mp, OF conjI [OF demo_ids(3) s]]
  show ?thesis by (elim exE) (simp add: e)
qed

text \<open>
  C15: the list a lookup starts with is, by distance to the key, the 16 nearest of the
  contacts that the routing table returned, without duplicates.
\<close>

theorem lookup_start_nearest:
  assumes "mgr_inv E m" "id_ok 20 key" "NewFind E m key h = (m', f)"
  defines "cs \<equiv> RtFindClosest (XC E) (mContactHeap m) (mRoutingTable m) key KADEMLIA_BUCKET_SIZE"
    and "dist \<equiv> \<lambda>p. id_val key XOR id_val (idof (mContactHeap m) p)"
  shows "map dist (mList (mFindHeap m' ! f)) = take 16 (sorted_list_of_set (dist ` set cs)) \<and>
    set (mList (mFindHeap m' ! f)) = set cs"
proof -
  have X: "xlist_ok (XC E)" by (rule mgr_okD(1) [OF assms(1)])
  have rt: "rt_table_ok (XC E) (mContactHeap m) (mRoutingTable m)" by (rule mgr_okD(3) [OF assms(1)])
  have ok: "\<forall>p \<in> set cs. p < length (mContactHeap m) \<and> id_ok 20 (idof (mContactHeap m) p)"
    using rt.closest_ok [OF rt] by (simp add: cs_def contact_ok_def)
  have d: "dist = kdist (mContactHeap m) key" by (simp add: dist_def kdist_def fun_eq_iff)
  let ?l = "InsertAll (XC E) (mContactHeap m) key cs []"
  have l: "mList (mFindHeap m' ! f) = ?l" using assms(3) by (auto simp: NewFind_def cs_def Let_def)
  note r = InsertAll_spec [OF X assms(2) ok list_ok_Nil]
  have inj: "inj_on dist (set cs)"
  proof (rule inj_onI)
    fix p q assume pq: "p \<in> set cs" "q \<in> set cs" "dist p = dist q"
    then have "idof (mContactHeap m) p = idof (mContactHeap m) q"
      using ok assms(2) idsp.dist_unique unfolding dist_def by blast
    with pq(1,2) show "p = q"
      using rt.closest_ids [OF rt, of key 16] unfolding cs_def distinct_map inj_on_def by blast
  qed
  have len: "length cs \<le> 16" unfolding cs_def by (rule rt.closest_length [OF rt])
  have "card (dist ` set cs) \<le> 16"
    using len card_image_le [of "set cs" dist] card_length [of cs] by simp
  then have "set (map dist ?l) = dist ` set cs"
    using r by (simp add: d nearest_def length_sorted_list_of_set)
  moreover have "set ?l \<subseteq> set cs" using r by simp
  ultimately have "set ?l = set cs"
    using inj by (metis inj_on_image_eq_iff order_refl set_map)
  then show ?thesis using r unfolding l by (simp add: d nearest_def)
qed

lemma lookup_start_nearest_witness:
  "set (mList (mFindHeap (fst (NewFind demo_env demo_m demo_l NoHandler)) ! 1)) = {0}"
proof -
  have m: "mgr_inv demo_env demo_m" using reach_ok [OF demo_env_ok demo_ids(1) demo_reach] by simp
  have st: "mContactHeap demo_m = [KadContact (demo_id 1) demo_addr]"
    by (simp add: demo_m_def run_event_def Find_def NewFind_def Send_def demo_m1_fields RtFindClosest_def
      IsStale_def KadContact_def demo_list Insert_def SendOne_def find_upd_def NewTracker_def
      SendRequest_def emit_def Let_def upt_conv_Cons)
  have n: "NewFind demo_env demo_m demo_l NoHandler = (fst (NewFind demo_env demo_m demo_l NoHandler), 1)"
    by (simp add: NewFind_def Let_def demo_m_fields)
  have "RtFindClosest list_container (mContactHeap demo_m) (mRoutingTable demo_m) demo_l 16 = [0]"
    by (simp add: st demo_m_fields RtFindClosest_def IsStale_def KadContact_def demo_list)
  with lookup_start_nearest [OF m demo_ids(1) n] show ?thesis by simp
qed

text \<open>
  C4: inserting a contact into a lookup's list gives, by distance, the 16 smallest of the old
  distances and the new one, and returns whether the list has changed.
\<close>

theorem insert_keeps_nearest:
  assumes "xlist_ok X" "id_ok 20 key" "id_ok 20 (idof st c)" "list_ok st key lst"
    and "Insert X st key c lst = (lst', b)"
  shows "map (kdist st key) lst' =
      take 16 (sorted_list_of_set (insert (kdist st key c) (kdist st key ` set lst))) \<and>
    (b \<longleftrightarrow> lst' \<noteq> lst) \<and> set lst' \<subseteq> insert c (set lst)"
  using Insert_spec [OF assms(1-3) _ _ _ assms(5)] assms(4) by (simp add: list_ok_def nearest_def)

lemma insert_keeps_nearest_witness:
  "case Insert list_container [KadContact (demo_id 1) (), KadContact (demo_id 2) ()] demo_l 1 [0] of
     (lst', b) \<Rightarrow> set lst' \<subseteq> {0, 1}"
proof -
  let ?st = "[KadContact (demo_id 1) (), KadContact (demo_id 2) ()]"
  obtain lst' b where r: "Insert list_container ?st demo_l 1 [0] = (lst', b)" by fastforce
  have "list_ok ?st demo_l [0]" "id_ok 20 (idof ?st 1)"
    by (simp_all add: list_ok_def idof_def KadContact_def)
  from insert_keeps_nearest [OF list_container_ok demo_ids(1) this(2,1) r] r show ?thesis by auto
qed

text \<open>
  C18: what the checks at the entry do with a datagram. One that MessagePack cannot decode
  throws. One that is no message (no array, an empty one, no header array of exactly three
  fields, a first field that is no positive integer or is at least 14) changes nothing but the
  count of dropped messages, which grows by one. Of the others, those for which the draw is
  below 30 are lost without a trace; of the rest, a header that does not convert throws, one
  whose sender claims the local identifier is counted as dropped and changes nothing else, and
  every other message leaves the count as it is, whatever its dispatch does.
\<close>

theorem malformed_dropped:
  assumes "env_ok E" "id_ok 20 l" "kad_reach E l m"
  shows "case mp_decode (MP E) buff of
      None \<Rightarrow> RecieveCbk E m buff addr dice = Inl UnpackError
    | Some ob \<Rightarrow>
        (if bad_format ob
         then RecieveCbk E m buff addr dice = Inr (m\<lparr>mStats := (mStats m)\<lparr>MsgDropped := MsgDropped (mStats m) + 1\<rparr>\<rparr>)
         else if dice < 30 then RecieveCbk E m buff addr dice = Inr m
         else (case KadMsg_unpack (MP E) (KadMsgHdr 0) (header_of ob) of
             None \<Rightarrow> RecieveCbk E m buff addr dice = Inl TypeError
           | Some req \<Rightarrow>
               (if mSrcId req = l
                then RecieveCbk E m buff addr dice = Inr (m\<lparr>mStats := (mStats m)\<lparr>MsgDropped := MsgDropped (mStats m) + 1\<rparr>\<rparr>)
                else \<forall>m'. RecieveCbk E m buff addr dice = Inr m' \<longrightarrow>
                  MsgDropped (mStats m') = MsgDropped (mStats m))))"
proof (cases "mp_decode (MP E) buff")
  case None
  then show ?thesis by (simp add: RecieveCbk_def RecieveHead_def)
next
  case ob: (Some ob)
  let ?req = "KadMsg_unpack (MP E) (KadMsgHdr 0) (header_of ob)"
  have m: "LocalId m = l" using reach_ok [OF assms] by simp
  consider "bad_format ob \<or> dice < 30 \<or> ?req = None" | r where "\<not> bad_format ob" "\<not> dice < 30" "?req = Some r"
    by fastforce
  then show ?thesis
  proof cases
    case 1
    then show ?thesis
      using ob by (auto simp: RecieveCbk_def RecieveHead_def CountDropped_def SaneFormat_iff)
  next
    case (2 r)
    have eq: "id_eq (mSrcId r) (LocalId m) \<longleftrightarrow> mSrcId r = l"
      using KadMsg_unpack_ok [OF _ 2(3)] assms(2) m by (simp add: KadMsgHdr_def id_cmp_iffs [of 20])
    have same: "MsgDropped (mStats m') = MsgDropped (mStats m)"
      if r: "RecieveCbk E m buff addr dice = Inr m'" and ne: "mSrcId r \<noteq> l" for m'
    proof -
      obtain m1 p where a: "FindAddContact E m (mSrcId r) addr = (m1, p)" by fastforce
      then obtain c where p: "p = Some c"
        using r ob 2 ne eq by (cases p) (simp_all add: RecieveCbk_def RecieveHead_def SaneFormat_iff)
      let ?m2 = "if IsStale (mContactHeap m1 ! c) then SetFailQty m1 c 0 else m1"
      have "Dispatch E ?m2 r ob (of_nat (length buff)) addr = Inr m'"
        using r ob 2 ne eq a p by (simp add: RecieveCbk_def RecieveHead_def SaneFormat_iff)
      from dropped_Dispatch [OF this] dropped_FindAddContact [OF a] show ?thesis
        by (simp split: if_splits)
    qed
    show ?thesis
    proof (cases "mSrcId r = l")
      case True
      then show ?thesis
        using ob 2 eq by (simp add: RecieveCbk_def RecieveHead_def CountDropped_def SaneFormat_iff)
    next
      case False
      have "\<forall>m'. RecieveCbk E m buff addr dice = Inr m' \<longrightarrow> MsgDropped (mStats m') = MsgDropped (mStats m)"
        using same False by blast
      with False ob 2 show ?thesis by (simp only: option.case if_False simp_thms)
    qed
  qed
qed

lemma malformed_dropped_witness:
  "(\<exists>m'. RecieveCbk demo_env demo_m [3] demo_addr 0 = Inr m' \<and> mRoutingTable m' = mRoutingTable demo_m) \<and>
   RecieveCbk demo_env demo_m [4] demo_addr 0 = Inl UnpackError \<and>
   RecieveCbk demo_env demo_m [1] demo_addr 29 = Inr demo_m"
proof -
  have d: "mp_decode (MP demo_env) [3] = Some MPNil" "mp_decode (MP demo_env) [4] = None"
    "mp_decode (MP demo_env) [1] = Some (MPArray [MPArray [MPPos 0, MPPos 7, KadId_pack (demo_id 1)]])"
    unfolding demo_proj by (simp_all add: demo_dec_def)
  have b: "bad_format MPNil" "\<not> bad_format (MPArray [MPArray [MPPos 0, MPPos 7, KadId_pack (demo_id 1)]])"
    by (simp_all add: bad_format_def)
  note w = malformed_dropped [OF demo_env_ok demo_ids(1) demo_reach]
  have "RecieveCbk demo_env demo_m [4] demo_addr 0 = Inl UnpackError"
    using w [of "[4]" demo_addr 0] unfolding d by simp
  moreover have "RecieveCbk demo_env demo_m [3] demo_addr 0 =
      Inr (demo_m\<lparr>mStats := (mStats demo_m)\<lparr>MsgDropped := MsgDropped (mStats demo_m) + 1\<rparr>\<rparr>)"
    using w [of "[3]" demo_addr 0] b(1) unfolding d by simp
  moreover have "RecieveCbk demo_env demo_m [1] demo_addr 29 = Inr demo_m"
    using w [of "[1]" demo_addr 29] b(2) unfolding d by simp
  ultimately show ?thesis by simp
qed

text \<open>
  C17: an answer is matched to a request by its message number alone: with number 0 it is
  ignored, with one that no request in flight has it is only counted, and otherwise it takes
  exactly one request out of \<open>mOps\<close> before the lookup sees it.
\<close>

theorem response_matching:
  assumes "xlist_ok (XT E)"
  shows "(mMsgId hdr = 0 \<longrightarrow> HandleResponse E m hdr ob = Inr m) \<and>
    (mMsgId hdr \<noteq> 0 \<and> (\<forall>h \<in> set (mOps m). mTrMsgId (mTrackerHeap m ! h) \<noteq> mMsgId hdr) \<longrightarrow>
       HandleResponse E m hdr ob = Inr (m\<lparr>mStats := (mStats m)\<lparr>RspUnkn := RspUnkn (mStats m) + 1\<rparr>\<rparr>)) \<and>
    (mMsgId hdr \<noteq> 0 \<and> (\<exists>h \<in> set (mOps m). mTrMsgId (mTrackerHeap m ! h) = mMsgId hdr) \<longrightarrow>
       (\<exists>t < length (mOps m). mTrMsgId (mTrackerHeap m ! (mOps m ! t)) = mMsgId hdr \<and>
          HandleResponse E m hdr ob = TrackerOnResponse E
            (emit [CancelTimer (mOps m ! t)]
               (m\<lparr>mStats := (mStats m)\<lparr>ReqSucc := ReqSucc (mStats m) + 1\<rparr>,
                  mOps := take t (mOps m) @ drop (Suc t) (mOps m)\<rparr>)) (mOps m ! t) ob))"
proof (cases "first_match (\<lambda>h. mMsgId hdr = mTrMsgId (mTrackerHeap m ! h)) (mOps m)")
  case None
  then show ?thesis
    using first_match_None [of "\<lambda>h. mMsgId hdr = mTrMsgId (mTrackerHeap m ! h)" "mOps m"]
    by (auto simp: HandleResponse_def xl_laws [OF assms])
next
  case (Some t)
  note t = first_match_SomeD [OF Some]
  have "\<exists>h \<in> set (mOps m). mTrMsgId (mTrackerHeap m ! h) = mMsgId hdr" using t nth_mem by metis
  with Some t show ?thesis
    by (auto simp: HandleResponse_def Let_def xl_laws [OF assms] intro!: exI [of _ t])
qed

lemma response_matching_witness:
  "HandleResponse demo_env demo_m \<lparr>mMsgType = 5, mMsgId = 7, mSrcId = demo_id 1\<rparr> MPNil =
     Inr (demo_m\<lparr>mStats := (mStats demo_m)\<lparr>RspUnkn := RspUnkn (mStats demo_m) + 1\<rparr>\<rparr>)"
proof -
  have "mTrMsgId (mTrackerHeap demo_m ! 0) = 42"
    by (simp add: demo_m_def run_event_def Find_def NewFind_def Send_def demo_m1_fields RtFindClosest_def
      IsStale_def KadContact_def demo_list Insert_def SendOne_def find_upd_def NewTracker_def
      SendRequest_def emit_def Let_def upt_conv_Cons)
  moreover have "xlist_ok (XT demo_env)" by simp
  ultimately show ?thesis
    using response_matching [of demo_env "\<lparr>mMsgType = 5, mMsgId = 7, mSrcId = demo_id 1\<rparr>" demo_m MPNil]
    by (simp add: demo_m_fields)
qed

text \<open>
  C20: the target of the \<open>i\<close>-th refresh lookup lies at distance
  \<open>(rnd mod 2 ^ (160 - i)) OR 2 ^ i\<close> from the local identifier.
\<close>

theorem refresh_target:
  assumes "id_ok 20 l" "id_ok 20 rnd" "i < KADEMLIA_ID_BITS"
  shows "\<exists>t. RefreshTarget l rnd i = Some t \<and> id_ok 20 t \<and>
    id_val (id_xor t l) = (id_val rnd mod 2 ^ (160 - i)) OR 2 ^ i"
proof -
  obtain p where p: "PowerOfTwo 20 (int i) = Some p" "id_ok 20 p" "id_val p = 2 ^ i"
    using PowerOfTwo_spec [of "int i" 20] assms(3) by auto
  obtain r where r: "SetBits rnd 0 i False = Some r" "id_ok 20 r" "id_val r = id_val rnd mod 2 ^ (160 - i)"
    using SetBits_clear_high [OF assms(2), of i] assms(3) by auto
  let ?t = "id_xor (id_or r p) l"
  have "id_xor ?t l = id_or r p"
    using id_xor_cancel [of 20 l "id_or r p"] assms(1) p r by (simp add: id_xor_commute)
  then have "id_val (id_xor ?t l) = (id_val rnd mod 2 ^ (160 - i)) OR 2 ^ i"
    using p r by (simp add: id_or_val [of 20])
  then show ?thesis using p r assms(1) by (simp add: RefreshTarget_def)
qed

lemma refresh_target_witness:
  "\<exists>t. RefreshTarget demo_l (demo_id 255) 100 = Some t \<and> id_val (id_xor t demo_l) = 255 OR 2 ^ 100"
proof -
  have "id_val (demo_id 255) = 255" by (simp add: id_val_def demo_id_def be_val_append)
  moreover have "(255 :: nat) mod 2 ^ 60 = 255" by simp
  ultimately show ?thesis using refresh_target [OF demo_ids(1,2), of 100 255] by auto
qed

text \<open>
  C19: refreshing the buckets always returns: it starts 159 lookups, keeps the invariant and
  no assertion fails, whatever the random identifiers are.
\<close>

theorem refresh_returns:
  assumes "mgr_inv E m" "\<forall>i. id_ok 20 (rnd i)"
  shows "\<exists>m'. RefreshAllBuckets E rnd m = Inr m' \<and> mgr_inv E m' \<and> LocalId m' = LocalId m \<and>
    length (mFindHeap m') = length (mFindHeap m) + 159"
proof -
  have loop: "\<exists>m'. Refresh_loop E rnd is m = Inr m' \<and> mgr_inv E m' \<and> LocalId m' = LocalId m \<and>
      length (mFindHeap m') = length (mFindHeap m) + length is"
    if "mgr_inv E m" "\<forall>i \<in> set is. i < 160" for "is" m
    using that
  proof (induction "is" arbitrary: m)
    case (Cons i "is")
    have l: "id_ok 20 (LocalId m)"
      using mgr_okD(3) [OF Cons.prems(1)] by (simp add: rt_table_ok_def rt_inv_def LocalId_def)
    have i: "i < 160" "\<forall>i \<in> set is. i < 160" using Cons.prems(2) by simp_all
    obtain p where p: "PowerOfTwo 20 (int i) = Some p" "id_ok 20 p"
      using PowerOfTwo_spec [of "int i" 20] i(1) by auto
    obtain r where r: "SetBits (rnd i) 0 i False = Some r" "id_ok 20 r"
      using SetBits_clear_high [of 20 "rnd i" i] assms(2) i(1) by auto
    have t: "RefreshTarget (LocalId m) (rnd i) i = Some (id_xor (id_or r p) (LocalId m))"
      "id_ok 20 (id_xor (id_or r p) (LocalId m))"
      using p r l by (simp_all add: RefreshTarget_def)
    obtain m1 where m1: "Find E m (id_xor (id_or r p) (LocalId m)) JoinUpdateComplete = Inr m1"
      "handler_post E m m1" "length (mFindHeap m1) = Suc (length (mFindHeap m))"
      using Find_ok [OF Cons.prems(1) t(2)] by blast
    then show ?case
      using Cons.IH [OF _ i(2), of m1] t(1) by (auto simp: handler_post_def)
  qed simp
  show ?thesis using loop [OF assms(1), of "[1..<160]"] by (simp add: RefreshAllBuckets_def)
qed

lemma refresh_returns_witness:
  "\<exists>m'. RefreshAllBuckets demo_env (\<lambda>i. demo_key) demo_m = Inr m' \<and> length (mFindHeap m') = 160"
proof -
  have m: "mgr_inv demo_env demo_m" using reach_ok [OF demo_env_ok demo_ids(1) demo_reach] by simp
  from refresh_returns [OF m, of "\<lambda>i. demo_key"] show ?thesis by (auto simp: demo_m_fields)
qed

text \<open>
  \<open>Join\<close> waits exactly as long as the table is empty: it stops after the first round that
  leaves a contact, and after \<open>k\<close> rounds its delay is \<open>NextDelay\<close> applied \<open>k\<close> times, never
  more than 30 seconds.
\<close>

theorem join_rounds:
  fixes others :: "(op_mgr \<Rightarrow> op_mgr) list"
  assumes "st = (\<lambda>k. fold (\<lambda>other m. other (PingAll E m bsp)) (take k others) m)"
  shows "case Join_loop E bsp m (CountContacts (mRoutingTable m)) KADEMLIA_TIMEOUT_RESPONSE others of
      None \<Rightarrow> \<forall>k \<le> length others. CountContacts (mRoutingTable (st k)) = 0
    | Some (m', d) \<Rightarrow> \<exists>k \<le> length others. m' = st k \<and> CountContacts (mRoutingTable m') \<noteq> 0 \<and>
        (\<forall>j < k. CountContacts (mRoutingTable (st j)) = 0) \<and> d = (NextDelay ^^ k) 500 \<and> d \<le> 30000"
proof -
  have le: "(NextDelay ^^ k) 500 \<le> 30000" for k
    by (induction k) (simp_all add: NextDelay_def Let_def)
  have gen: "case Join_loop E bsp m (CountContacts (mRoutingTable m)) d others of
      None \<Rightarrow> \<forall>k \<le> length others.
        CountContacts (mRoutingTable (fold (\<lambda>other m. other (PingAll E m bsp)) (take k others) m)) = 0
    | Some (m', d') \<Rightarrow> \<exists>k \<le> length others.
        m' = fold (\<lambda>other m. other (PingAll E m bsp)) (take k others) m \<and>
        CountContacts (mRoutingTable m') \<noteq> 0 \<and>
        (\<forall>j < k. CountContacts (mRoutingTable (fold (\<lambda>other m. other (PingAll E m bsp)) (take j others) m)) = 0) \<and>
        d' = (NextDelay ^^ k) d" for d
  proof (induction others arbitrary: m d)
    case Nil
    then show ?case by simp
  next
    case (Cons other others)
    show ?case
    proof (cases "CountContacts (mRoutingTable m) = 0")
      case True
      note IH = Cons.IH [of "other (PingAll E m bsp)" "NextDelay d"]
      show ?thesis
      proof (cases "Join_loop E bsp (other (PingAll E m bsp))
          (CountContacts (mRoutingTable (other (PingAll E m bsp)))) (NextDelay d) others")
        case None
        then show ?thesis using IH True by (auto simp: Let_def take_Cons' split: if_splits)
      next
        case (Some r)
        obtain m' d' where r: "r = (m', d')" by fastforce
        obtain k where k: "k \<le> length others"
          "m' = fold (\<lambda>other m. other (PingAll E m bsp)) (take k others) (other (PingAll E m bsp))"
          "CountContacts (mRoutingTable m') \<noteq> 0"
          "\<forall>j < k. CountContacts (mRoutingTable (fold (\<lambda>other m. other (PingAll E m bsp)) (take j others)
             (other (PingAll E m bsp)))) = 0" "d' = (NextDelay ^^ k) (NextDelay d)"
          using IH Some r by auto
        show ?thesis
          using Some r True k
          by (intro option.case_eq_if [THEN iffD2])
            (auto simp: Let_def funpow_swap1 take_Cons' intro!: exI [of _ "Suc k"])
      qed
    next
      case False
      then show ?thesis by (auto intro!: exI [of _ 0])
    qed
  qed
  show ?thesis
    using gen [of 500] le unfolding assms by (auto split: option.splits)
qed

lemma join_rounds_witness:
  "\<exists>m' d. Join_loop demo_env [] (KadOpMgr demo_l) 0 500 [\<lambda>m. demo_m1] = Some (m', d) \<and>
     d \<le> 30000 \<and> CountContacts (mRoutingTable m') \<noteq> 0"
proof -
  have c: "CountContacts (mRoutingTable (KadOpMgr demo_l)) = 0"
    by (simp add: KadOpMgr_def RtNode_def)
  have "Join_loop demo_env [] (KadOpMgr demo_l) 0 500 [\<lambda>m. demo_m1] = Some (demo_m1, NextDelay 500)"
    by (simp add: demo_m1_fields)
  then show ?thesis
    using join_rounds [OF refl, where E = demo_env and bsp = "[]" and m = "KadOpMgr demo_l" and
        others = "[\<lambda>m. demo_m1]"] c by auto
qed

text \<open>
  The contact cache gives a valid contact with the identifier asked for, which is now its
  last; it keeps the identifiers different and never holds more than 64.
\<close>

theorem contact_cache_bound:
  assumes "xlist_ok (XC E)" "id_ok 20 nid" "length (mContactCache m) \<le> 64"
    and "\<forall>p \<in> set (mContactCache m). contact_ok (mContactHeap m) p"
    and "distinct (map (idof (mContactHeap m)) (mContactCache m))"
    and "CheckInCache E m nid addr = (m', p)"
  shows "length (mContactCache m') \<le> 64 \<and> contact_ok (mContactHeap m') p \<and> idof (mContactHeap m') p = nid \<and>
    last (mContactCache m') = p \<and> distinct (map (idof (mContactHeap m')) (mContactCache m')) \<and>
    store_ext (mContactHeap m) (mContactHeap m')"
proof -
  let ?st = "mContactHeap m" and ?ca = "mContactCache m"
  have hit: "(case CacheHit ?st ca nid of None \<Rightarrow> nid \<notin> idof ?st ` set ca
      | Some i \<Rightarrow> i < length ca \<and> idof ?st (ca ! i) = nid)"
    if "\<forall>p \<in> set ca. contact_ok ?st p" for ca
    using that
  proof (induction ca)
    case (Cons q ca)
    then show ?case
      using assms(2) by (auto simp: contact_ok_def id_cmp_iffs [of 20] split: option.splits)
  qed simp
  show ?thesis
  proof (cases "CacheHit ?st ?ca nid")
    case (Some i)
    then have i: "i < length ?ca" "idof ?st (?ca ! i) = nid" using hit [OF assms(4)] by simp_all
    let ?ca1 = "take i ?ca @ drop (Suc i) ?ca @ [?ca ! i]"
    have m': "mContactHeap m' = ?st" "p = ?ca ! i" "mContactCache m' = (if i \<noteq> length ?ca - 1 then ?ca1 else ?ca)"
      using assms(6) Some i(1) by (auto simp: CheckInCache_def Let_def xl_laws [OF assms(1)])
    have "last ?ca = ?ca ! i" if "i = length ?ca - 1" using that i(1) by (subst last_conv_nth) auto
    moreover have "distinct (map (idof ?st) ?ca1)" by (rule distinct_map_move [OF assms(5) i(1)])
    moreover have "length ?ca1 = length ?ca" using i(1) by simp
    ultimately show ?thesis
      using assms(3-5) i unfolding m' by (auto simp: last_append simp del: map_append)
  next
    case None
    let ?st1 = "?st @ [KadContact nid addr]" and ?ca1 = "?ca @ [length ?st]"
    have n: "nid \<notin> idof ?st ` set ?ca" using hit [OF assms(4)] None by simp
    have c: "contact_ok ?st1 (length ?st)" "idof ?st1 (length ?st) = nid"
      using assms(2) by (simp_all add: contact_ok_def store_simps)
    have d: "map (idof ?st1) ?ca1 = map (idof ?st) ?ca @ [nid]"
      using assms(4) by (simp add: store_simps contact_ok_def)
    have stop: "TrimCache k (XC E) ca = ca" if "length ca \<le> 64" for k ca
      using that by (cases k) simp_all
    have tr: "TrimCache (Suc k) (XC E) ca = drop (length ca - 64) ca" if "length ca \<le> 65" for k ca
    proof (cases "64 < length ca")
      case True
      then have "ca \<noteq> []" "length ca - 64 = 1" "length (tl ca) \<le> 64" using that by auto
      with True show ?thesis by (simp add: stop xl_laws [OF assms(1)] drop_Suc)
    qed (simp add: stop)
    have m': "mContactHeap m' = ?st1" "p = length ?st" "mContactCache m' = drop (length ?ca1 - 64) ?ca1"
      using assms(3,6) None tr [of ?ca1 "length ?ca"]
      by (auto simp: CheckInCache_def Let_def NewContact_def xl_laws [OF assms(1)])
    have "map (idof ?st1) (drop k ?ca1) = drop k (map (idof ?st) ?ca @ [nid])" for k
      unfolding d [symmetric] by (rule drop_map [symmetric])
    moreover have "distinct (drop k (map (idof ?st) ?ca @ [nid]))" for k
      by (rule distinct_drop) (use assms(5) n in auto)
    moreover have "last (drop (length ?ca1 - 64) ?ca1) = length ?st" by (subst last_drop) simp_all
    ultimately show ?thesis using c unfolding m' by (simp del: drop_append)
  qed
qed

lemma contact_cache_bound_witness:
  "idof (mContactHeap (fst (CheckInCache demo_env demo_m (demo_id 9) demo_addr)))
     (snd (CheckInCache demo_env demo_m (demo_id 9) demo_addr)) = demo_id 9"
proof -
  have "mgr_inv demo_env demo_m" using reach_ok [OF demo_env_ok demo_ids(1) demo_reach] by simp
  then have "mContactCache demo_m = []" by (rule mgr_okD(5))
  then show ?thesis
    using contact_cache_bound [of demo_env "demo_id 9" demo_m demo_addr] by (simp add: prod_eq_iff)
qed

end
