(* ===== verification/UdtSeqNo.thy ===== *)
theory UdtSeqNo
  imports KadPrelude
begin

section \<open>UDT: sequence and message numbers\<close>

text \<open>
  \<open>CSeqNo\<close>, \<open>CAckNo\<close> and \<open>CMsgNo\<close> of \<open>udt4/include/udt/common.h\<close>: numbers that wrap at
  \<open>2 ^ 31\<close> (messages: \<open>2 ^ 29\<close>), with a comparison that holds while the two numbers are less
  than half the circle apart. They are \<open>int\<close> here; \<open>seq_ok\<close> and the bounds below say when
  the C \<open>int32_t\<close> arithmetic does not overflow.
\<close>

abbreviation (input) m_iSeqNoTH :: int where "m_iSeqNoTH \<equiv> 0x3FFFFFFF"
abbreviation (input) m_iMaxSeqNo :: int where "m_iMaxSeqNo \<equiv> 0x7FFFFFFF"
abbreviation (input) m_iMaxAckSeqNo :: int where "m_iMaxAckSeqNo \<equiv> 0x7FFFFFFF"
abbreviation (input) m_iMsgNoTH :: int where "m_iMsgNoTH \<equiv> 0xFFFFFFF"
abbreviation (input) m_iMaxMsgNo :: int where "m_iMaxMsgNo \<equiv> 0x1FFFFFFF"

definition seqcmp :: "int \<Rightarrow> int \<Rightarrow> int" where
  "seqcmp seq1 seq2 = (if abs (seq1 - seq2) < m_iSeqNoTH then seq1 - seq2 else seq2 - seq1)"

definition seqlen :: "int \<Rightarrow> int \<Rightarrow> int" where
  "seqlen seq1 seq2 = (if seq1 \<le> seq2 then seq2 - seq1 + 1 else seq2 - seq1 + m_iMaxSeqNo + 2)"

definition seqoff :: "int \<Rightarrow> int \<Rightarrow> int" where
  "seqoff seq1 seq2 =
     (if abs (seq1 - seq2) < m_iSeqNoTH then seq2 - seq1
      else if seq1 < seq2 then seq2 - seq1 - m_iMaxSeqNo - 1
      else seq2 - seq1 + m_iMaxSeqNo + 1)"

definition incseq :: "int \<Rightarrow> int" where
  "incseq s = (if s = m_iMaxSeqNo then 0 else s + 1)"

definition decseq :: "int \<Rightarrow> int" where
  "decseq s = (if s = 0 then m_iMaxSeqNo else s - 1)"

definition incseq_by :: "int \<Rightarrow> int \<Rightarrow> int" where
  "incseq_by s inc = (if m_iMaxSeqNo - s \<ge> inc then s + inc else s - m_iMaxSeqNo + inc - 1)"

definition incack :: "int \<Rightarrow> int" where
  "incack a = (if a = m_iMaxAckSeqNo then 0 else a + 1)"

definition msgcmp :: "int \<Rightarrow> int \<Rightarrow> int" where
  "msgcmp msgno1 msgno2 = (if abs (msgno1 - msgno2) < m_iMsgNoTH then msgno1 - msgno2 else msgno2 - msgno1)"

definition msglen :: "int \<Rightarrow> int \<Rightarrow> int" where
  "msglen msgno1 msgno2 = (if msgno1 \<le> msgno2 then msgno2 - msgno1 + 1 else msgno2 - msgno1 + m_iMaxMsgNo + 2)"

definition msgoff :: "int \<Rightarrow> int \<Rightarrow> int" where
  "msgoff msgno1 msgno2 =
     (if abs (msgno1 - msgno2) < m_iMsgNoTH then msgno2 - msgno1
      else if msgno1 < msgno2 then msgno2 - msgno1 - m_iMaxMsgNo - 1
      else msgno2 - msgno1 + m_iMaxMsgNo + 1)"

definition incmsg :: "int \<Rightarrow> int" where
  "incmsg msgno = (if msgno = m_iMaxMsgNo then 0 else msgno + 1)"

definition seq_ok :: "int \<Rightarrow> bool" where
  "seq_ok s \<longleftrightarrow> 0 \<le> s \<and> s \<le> m_iMaxSeqNo"

subsection \<open>The circle of \<open>2 ^ 31\<close> numbers\<close>

text \<open>\<open>wrap x\<close>: the number on the circle for an \<open>int\<close> that ran over the end by less than a turn.\<close>

definition wrap :: "int \<Rightarrow> int" where "wrap x = x mod 0x80000000"

lemma wrap_small: "0 \<le> x \<Longrightarrow> x < 0x80000000 \<Longrightarrow> wrap x = x"
  unfolding wrap_def by (rule mod_pos_pos_trivial)

lemma wrap_low: "- 0x80000000 \<le> x \<Longrightarrow> x < 0 \<Longrightarrow> wrap x = x + 0x80000000"
  using mod_add_self2 [of x "0x80000000"] mod_pos_pos_trivial [of "x + 0x80000000" "0x80000000"] unfolding wrap_def by linarith

lemma wrap_high: "0x80000000 \<le> x \<Longrightarrow> x < 0x100000000 \<Longrightarrow> wrap x = x - 0x80000000"
  using minus_mod_self2 [of x "0x80000000"] mod_pos_pos_trivial [of "x - 0x80000000" "0x80000000"] unfolding wrap_def by linarith

lemma wrap_cases:
  assumes "- 0x80000000 \<le> x" "x < 0x100000000"
  shows "wrap x = (if x < 0 then x + 0x80000000 else if x < 0x80000000 then x else x - 0x80000000)"
proof (cases "x < 0 \<or> 0x80000000 \<le> x")
  case True
  then show ?thesis using assms wrap_low [of x] wrap_high [of x] by (cases "x < 0") simp_all
next
  case False
  then show ?thesis using wrap_small [of x] by simp
qed

lemma wrap_disj:
  assumes "- 0x80000000 \<le> x" "x < 0x100000000"
  shows "x < 0 \<and> wrap x = x + 0x80000000 \<or> 0 \<le> x \<and> x < 0x80000000 \<and> wrap x = x \<or>
    0x80000000 \<le> x \<and> wrap x = x - 0x80000000"
  using wrap_cases [OF assms] by (cases "x < 0"; cases "x < 0x80000000") simp_all

lemma wrap_ok [simp]: "seq_ok (wrap x)"
  using pos_mod_bound [of "0x80000000" x] pos_mod_sign [of "0x80000000" x] by (simp add: seq_ok_def wrap_def)

lemma wrap_id: "seq_ok s \<Longrightarrow> wrap s = s"
  by (simp add: seq_ok_def wrap_small)

lemma wrap_nonneg [simp]: "0 \<le> wrap x" "wrap x \<noteq> -1" "-1 \<noteq> wrap x"
proof -
  show "0 \<le> wrap x" unfolding wrap_def by (rule pos_mod_sign) simp
  then show "wrap x \<noteq> -1" "-1 \<noteq> wrap x" by linarith+
qed

lemma wrap_add: "wrap (wrap x + k) = wrap (x + k)"
  by (simp add: wrap_def mod_add_left_eq)

lemma incseq_wrap: "seq_ok s \<Longrightarrow> incseq s = wrap (s + 1)"
  using wrap_disj [of "s + 1"] by (auto simp: incseq_def seq_ok_def)

lemma decseq_wrap: "seq_ok s \<Longrightarrow> decseq s = wrap (s - 1)"
  using wrap_disj [of "s - 1"] by (auto simp: decseq_def seq_ok_def)

lemma incseq_by_wrap:
  assumes "seq_ok s" "0 \<le> k" "k \<le> m_iMaxSeqNo"
  shows "incseq_by s k = wrap (s + k)"
proof -
  have "- 0x80000000 \<le> s + k" "s + k < 0x100000000" using assms by (simp_all add: seq_ok_def)
  from wrap_disj [OF this] show ?thesis
    using assms by (elim disjE conjE) (simp_all add: incseq_by_def seq_ok_def)
qed

text \<open>
  With \<open>s\<close> a number and \<open>k\<close> an offset of less than half the circle, the offset is
  what \<open>seqoff\<close> gives and \<open>seqcmp\<close> has its sign; \<open>seqlen\<close> counts from \<open>s\<close> on.
\<close>

lemma seq_range:
  assumes "seq_ok s" "abs k \<le> m_iMaxSeqNo"
  shows "- 0x80000000 \<le> s + k" "s + k < 0x100000000"
  using assms by (simp_all add: seq_ok_def abs_le_iff)

lemma seqoff_add:
  assumes "seq_ok s" "abs k < m_iSeqNoTH"
  shows "seqoff s (wrap (s + k)) = k"
proof -
  have "abs k \<le> m_iMaxSeqNo" using assms(2) by simp
  from wrap_disj [OF seq_range [OF assms(1) this]] show ?thesis
    using assms by (elim disjE conjE) (simp_all add: seqoff_def seq_ok_def abs_if split: if_splits)
qed

lemma seqcmp_add:
  assumes "seq_ok s" "abs k < m_iSeqNoTH"
  shows "sgn (seqcmp (wrap (s + k)) s) = sgn k"
proof -
  have "abs k \<le> m_iMaxSeqNo" using assms(2) by simp
  from wrap_disj [OF seq_range [OF assms(1) this]] show ?thesis
    using assms by (elim disjE conjE) (simp_all add: seqcmp_def seq_ok_def abs_if sgn_if split: if_splits)
qed

lemma seqlen_add:
  assumes "seq_ok s" "0 \<le> k" "k \<le> m_iMaxSeqNo"
  shows "seqlen s (wrap (s + k)) = k + 1"
proof -
  have "abs k \<le> m_iMaxSeqNo" using assms(2,3) by simp
  from wrap_disj [OF seq_range [OF assms(1) this]] show ?thesis
    using assms by (elim disjE conjE) (simp_all add: seqlen_def seq_ok_def)
qed

lemma incseq_ok [intro]: "seq_ok s \<Longrightarrow> seq_ok (incseq s)"
  by (simp add: incseq_wrap)

lemma decseq_incseq: "seq_ok s \<Longrightarrow> decseq (incseq s) = s"
  by (auto simp: decseq_def incseq_def seq_ok_def)

end
