(* ===== verification/UdtMem.thy ===== *)
theory UdtMem
  imports UdtSeqNo "HOL-Library.Monad_Syntax"
begin

section \<open>UDT: C arrays and integer division\<close>

text \<open>
  The UDT classes keep their data in C arrays indexed by \<open>int\<close>. An access outside an array,
  like a dereference of \<open>NULL\<close>, is undefined behaviour; the models of these classes are in
  the \<open>option\<close> monad, and \<open>None\<close> stands for undefined behaviour and for a loop that
  does not end. A theorem that an operation returns \<open>Some\<close> therefore says that it is memory
  safe and terminates. The collection \<open>udt_mem\<close> has the rules that discharge the bounds checks.
\<close>

named_theorems udt_mem

definition rd :: "'a list \<Rightarrow> int \<Rightarrow> 'a option" where
  "rd xs i = (if 0 \<le> i \<and> i < int (length xs) then Some (xs ! nat i) else None)"

definition wr :: "'a list \<Rightarrow> int \<Rightarrow> 'a \<Rightarrow> 'a list option" where
  "wr xs i v = (if 0 \<le> i \<and> i < int (length xs) then Some (xs[nat i := v]) else None)"

lemma rd_Some [udt_mem]: "0 \<le> i \<Longrightarrow> i < int (length xs) \<Longrightarrow> rd xs i = Some (xs ! nat i)"
  by (simp add: rd_def)

lemma wr_Some [udt_mem]: "0 \<le> i \<Longrightarrow> i < int (length xs) \<Longrightarrow> wr xs i v = Some (xs[nat i := v])"
  by (simp add: wr_def)

lemma rd_int [simp]: "rd xs (int k) = (if k < length xs then Some (xs ! k) else None)"
  by (simp add: rd_def)

lemma wr_int [simp]: "wr xs (int k) v = (if k < length xs then Some (xs[k := v]) else None)"
  by (simp add: wr_def)

lemma rd_eq_Some: "rd xs i = Some v \<longleftrightarrow> 0 \<le> i \<and> i < int (length xs) \<and> v = xs ! nat i"
  by (auto simp: rd_def)

lemma wr_eq_Some: "wr xs i v = Some ys \<longleftrightarrow> 0 \<le> i \<and> i < int (length xs) \<and> ys = xs[nat i := v]"
  by (auto simp: wr_def)

lemma rd_upd_other: "nat p \<noteq> nat q \<Longrightarrow> rd (xs[nat q := v]) p = rd xs p"
  by (simp add: rd_def)

lemma rd_upd_same: "0 \<le> q \<Longrightarrow> nat q < length xs \<Longrightarrow> rd (xs[nat q := v]) q = Some v"
  by (simp add: rd_def)

text \<open>The \<open>n\<close> bytes at an offset that a \<open>memcpy\<close> reads.\<close>

definition slice :: "u8 list \<Rightarrow> int \<Rightarrow> int \<Rightarrow> u8 list option" where
  "slice data off n =
     (if 0 \<le> off \<and> 0 \<le> n \<and> off + n \<le> int (length data) then Some (take (nat n) (drop (nat off) data)) else None)"

text \<open>The C operators \<open>/\<close> and \<open>%\<close> on \<open>int\<close> truncate towards zero.\<close>

definition cdiv :: "int \<Rightarrow> int \<Rightarrow> int" where
  "cdiv a b = sgn a * sgn b * (abs a div abs b)"

definition cmod :: "int \<Rightarrow> int \<Rightarrow> int" where
  "cmod a b = sgn a * (abs a mod abs b)"

lemma cmod_pos [simp]: "0 \<le> a \<Longrightarrow> 0 \<le> b \<Longrightarrow> cmod a b = a mod b"
  by (cases "a = 0") (simp_all add: cmod_def)

lemma cdiv_pos [simp]: "0 \<le> a \<Longrightarrow> 0 < b \<Longrightarrow> cdiv a b = a div b"
  by (cases "a = 0") (simp_all add: cdiv_def)

lemma mod_add_cancel: "(p + a) mod N = (p + b) mod N \<longleftrightarrow> a mod N = b mod N" for a b N p :: int
  by (simp add: mod_eq_dvd_iff)

lemma cmod_range: "0 \<le> a \<Longrightarrow> 0 < b \<Longrightarrow> 0 \<le> cmod a b \<and> cmod a b < b"
  by simp

lemma cmod_neg_out: "a < 0 \<Longrightarrow> cmod a b \<le> 0"
  by (cases "b = 0") (simp_all add: cmod_def)

text \<open>
  What an \<open>int\<close> of 32 bits holds after an operation whose result is \<open>x\<close>, where the code goes on with the value
  that wraps around.
\<close>

definition i32 :: "int \<Rightarrow> int" where
  "i32 x = signed_take_bit 31 x"

lemma i32_id [simp]: "- 2147483648 \<le> x \<Longrightarrow> x < 2147483648 \<Longrightarrow> i32 x = x"
  by (simp add: i32_def signed_take_bit_int_eq_self)

lemma i32_range: "- 2147483648 \<le> i32 x" "i32 x < 2147483648"
  using signed_take_bit_int_greater_eq_minus_exp [of 31 x] signed_take_bit_int_less_exp [of 31 x] by (simp_all add: i32_def)

subsection \<open>32-bit words\<close>

lemma top31: "(0x80000000 :: 32 word) = push_bit 31 1"
  by simp

lemma bit_top31: "bit (0x80000000 :: 32 word) n \<longleftrightarrow> n = 31"
  unfolding top31 bit_push_bit_iff by (auto simp: bit_1_iff)

lemma int_bit_bound:
  fixes t :: int
  assumes "0 \<le> t" "t < 2 ^ k" "bit t n"
  shows "n < k"
proof -
  have "take_bit k t = t" using assms by (simp add: take_bit_int_eq_self)
  then show ?thesis using assms(3) by (metis bit_take_bit_iff)
qed

end
