(* ===== verification/UdtRcvLossList.thy ===== *)
theory UdtRcvLossList
  imports UdtMem KadPrelude
begin

section \<open>UDT: the receiver's loss list\<close>

text \<open>
  \<open>CRcvLossList\<close> of \<open>udt4/src/list.cpp\<close>: like the sender's list, but doubly linked, with
  a tail, new numbers only after the old ones and removal of single numbers anywhere.
  Field names have \<open>r_\<close> for the \<open>m_\<close> of the source.
\<close>

record rcv_loss =
  r_piData1 :: "int list"
  r_piData2 :: "int list"
  r_piNext :: "int list"
  r_piPrior :: "int list"
  r_iHead :: int
  r_iTail :: int
  r_iLength :: int
  r_iSize :: int

definition CRcvLossList :: "int \<Rightarrow> int list \<Rightarrow> int list \<Rightarrow> rcv_loss" where
  "CRcvLossList siz uninit1 uninit2 =
     \<lparr>r_piData1 = replicate (nat siz) (-1), r_piData2 = replicate (nat siz) (-1), r_piNext = uninit1,
      r_piPrior = uninit2, r_iHead = -1, r_iTail = -1, r_iLength = 0, r_iSize = siz\<rparr>"

definition setData1 :: "int \<Rightarrow> int \<Rightarrow> rcv_loss \<Rightarrow> rcv_loss option" where
  "setData1 i v L = map_option (\<lambda>d. L\<lparr>r_piData1 := d\<rparr>) (wr (r_piData1 L) i v)"

definition setData2 :: "int \<Rightarrow> int \<Rightarrow> rcv_loss \<Rightarrow> rcv_loss option" where
  "setData2 i v L = map_option (\<lambda>d. L\<lparr>r_piData2 := d\<rparr>) (wr (r_piData2 L) i v)"

definition setNext :: "int \<Rightarrow> int \<Rightarrow> rcv_loss \<Rightarrow> rcv_loss option" where
  "setNext i v L = map_option (\<lambda>d. L\<lparr>r_piNext := d\<rparr>) (wr (r_piNext L) i v)"

definition setPrior :: "int \<Rightarrow> int \<Rightarrow> rcv_loss \<Rightarrow> rcv_loss option" where
  "setPrior i v L = map_option (\<lambda>d. L\<lparr>r_piPrior := d\<rparr>) (wr (r_piPrior L) i v)"

definition rcv_addLength :: "int \<Rightarrow> rcv_loss \<Rightarrow> rcv_loss" where
  "rcv_addLength k L = L\<lparr>r_iLength := r_iLength L + k\<rparr>"

subsection \<open>insert\<close>

definition setNode :: "int \<Rightarrow> int \<Rightarrow> int \<Rightarrow> rcv_loss \<Rightarrow> rcv_loss option" where
  "setNode i seqno1 seqno2 L =
     do { L \<leftarrow> setData1 i seqno1 L;
          if seqno2 \<noteq> seqno1 then setData2 i seqno2 L else Some L }"

definition rcv_insert :: "int \<Rightarrow> int \<Rightarrow> rcv_loss \<Rightarrow> rcv_loss option" where
  "rcv_insert seqno1 seqno2 L =
     (if r_iLength L = 0 then do {
        L \<leftarrow> setNode 0 seqno1 seqno2 (L\<lparr>r_iHead := 0, r_iTail := 0\<rparr>);
        L \<leftarrow> setNext 0 (-1) L;
        L \<leftarrow> setPrior 0 (-1) L;
        Some (rcv_addLength (seqlen seqno1 seqno2) L) }
      else do {
        h \<leftarrow> rd (r_piData1 L) (r_iHead L);
        let offset = seqoff h seqno1;
        let loc = cmod (r_iHead L + offset) (r_iSize L);
        e \<leftarrow> rd (r_piData2 L) (r_iTail L);
        L \<leftarrow> (if e \<noteq> -1 \<and> incseq e = seqno1 then setData2 (r_iTail L) seqno2 L
              else do {
                L \<leftarrow> setNode loc seqno1 seqno2 L;
                L \<leftarrow> setNext (r_iTail L) loc L;
                L \<leftarrow> setPrior loc (r_iTail L) L;
                L \<leftarrow> setNext loc (-1) L;
                Some (L\<lparr>r_iTail := loc\<rparr>) });
        Some (rcv_addLength (seqlen seqno1 seqno2) L) })"

subsection \<open>remove\<close>

text \<open>A node of one number is unlinked.\<close>

definition rcv_unlink :: "int \<Rightarrow> rcv_loss \<Rightarrow> rcv_loss option" where
  "rcv_unlink loc L =
     do { L \<leftarrow> (if r_iHead L = loc then do {
             n \<leftarrow> rd (r_piNext L) (r_iHead L);
             if n \<noteq> -1 then setPrior n (-1) (L\<lparr>r_iHead := n\<rparr>) else Some (L\<lparr>r_iHead := n\<rparr>) }
           else do {
             p \<leftarrow> rd (r_piPrior L) loc;
             n \<leftarrow> rd (r_piNext L) loc;
             L \<leftarrow> setNext p n L;
             if n \<noteq> -1 then setPrior n p L else Some (L\<lparr>r_iTail := p\<rparr>) });
          setData1 loc (-1) L }"

text \<open>The first number of a longer node is removed: the node moves to the next cell.\<close>

definition rcv_advance :: "int \<Rightarrow> rcv_loss \<Rightarrow> rcv_loss option" where
  "rcv_advance loc L =
     do { let i = cmod (loc + 1) (r_iSize L);
          a \<leftarrow> rd (r_piData1 L) loc;
          L \<leftarrow> setData1 i (incseq a) L;
          e \<leftarrow> rd (r_piData2 L) loc;
          a' \<leftarrow> rd (r_piData1 L) loc;
          L \<leftarrow> (if seqcmp e (incseq a') > 0 then setData2 i e L else Some L);
          L \<leftarrow> setData1 loc (-1) L;
          L \<leftarrow> setData2 loc (-1) L;
          n \<leftarrow> rd (r_piNext L) loc;
          L \<leftarrow> setNext i n L;
          p \<leftarrow> rd (r_piPrior L) loc;
          L \<leftarrow> setPrior i p L;
          L \<leftarrow> (if r_iHead L = loc then Some (L\<lparr>r_iHead := i\<rparr>)
                else do { q \<leftarrow> rd (r_piPrior L) i; setNext q i L });
          if r_iTail L = loc then Some (L\<lparr>r_iTail := i\<rparr>)
          else do { q \<leftarrow> rd (r_piNext L) i; setPrior q i L } }"

text \<open>The search backwards through the cells for the node that may contain the number.\<close>

partial_function (option) rcv_back :: "rcv_loss \<Rightarrow> int \<Rightarrow> int option" where
  "rcv_back L i =
     do { a \<leftarrow> rd (r_piData1 L) i;
          if a = -1 then rcv_back L (cmod (i - 1 + r_iSize L) (r_iSize L)) else Some i }"

text \<open>\<open>seqno\<close> is cut out of the node \<open>i\<close>, after its first number.\<close>

definition rcv_shorten :: "int \<Rightarrow> int \<Rightarrow> rcv_loss \<Rightarrow> rcv_loss option" where
  "rcv_shorten i seqno L =
     do { a \<leftarrow> rd (r_piData1 L) i;
          if seqno = incseq a then setData2 i (-1) L else setData2 i (decseq seqno) L }"

definition rcv_split :: "int \<Rightarrow> int \<Rightarrow> int \<Rightarrow> rcv_loss \<Rightarrow> rcv_loss option" where
  "rcv_split loc i seqno L =
     do { let loc = cmod (loc + 1) (r_iSize L);
          L \<leftarrow> setData1 loc (incseq seqno) L;
          e \<leftarrow> rd (r_piData2 L) i;
          L \<leftarrow> (if seqcmp e (incseq seqno) > 0 then setData2 loc e L else Some L);
          L \<leftarrow> rcv_shorten i seqno L;
          n \<leftarrow> rd (r_piNext L) i;
          L \<leftarrow> setNext loc n L;
          L \<leftarrow> setNext i loc L;
          L \<leftarrow> setPrior loc i L;
          if r_iTail L = i then Some (L\<lparr>r_iTail := loc\<rparr>)
          else do { q \<leftarrow> rd (r_piNext L) loc; setPrior q loc L } }"

definition rcv_remove :: "int \<Rightarrow> rcv_loss \<Rightarrow> (bool \<times> rcv_loss) option" where
  "rcv_remove seqno L =
     (if r_iLength L = 0 then Some (False, L)
      else do {
        h \<leftarrow> rd (r_piData1 L) (r_iHead L);
        let offset = seqoff h seqno;
        if offset < 0 then Some (False, L)
        else do {
          let loc = cmod (r_iHead L + offset) (r_iSize L);
          a \<leftarrow> rd (r_piData1 L) loc;
          if seqno = a then do {
            e \<leftarrow> rd (r_piData2 L) loc;
            L \<leftarrow> (if e = -1 then rcv_unlink loc L else rcv_advance loc L);
            Some (True, rcv_addLength (-1) L) }
          else do {
            i \<leftarrow> rcv_back L (cmod (loc - 1 + r_iSize L) (r_iSize L));
            e \<leftarrow> rd (r_piData2 L) i;
            if e = -1 \<or> seqcmp seqno e > 0 then Some (False, L)
            else do {
              L \<leftarrow> (if seqno = e then rcv_shorten i seqno L else rcv_split loc i seqno L);
              Some (True, rcv_addLength (-1) L) } } } })"

text \<open>\<open>remove(seqno1, seqno2)\<close>: one call per number; the result of each is ignored.\<close>

fun rcv_remove_each :: "int list \<Rightarrow> rcv_loss \<Rightarrow> rcv_loss option" where
  "rcv_remove_each [] L = Some L"
| "rcv_remove_each (i # is) L = do { (_, L1) \<leftarrow> rcv_remove i L; rcv_remove_each is L1 }"

definition rcv_remove_range :: "int \<Rightarrow> int \<Rightarrow> rcv_loss \<Rightarrow> (bool \<times> rcv_loss) option" where
  "rcv_remove_range seqno1 seqno2 L =
     map_option (Pair True)
       (if seqno1 \<le> seqno2 then rcv_remove_each [seqno1..seqno2] L
        else rcv_remove_each ([seqno1..m_iMaxSeqNo - 1] @ [0..seqno2]) L)"

subsection \<open>Reading\<close>

partial_function (option) rcv_find_from :: "rcv_loss \<Rightarrow> int \<Rightarrow> int \<Rightarrow> int \<Rightarrow> bool option" where
  "rcv_find_from L seqno1 seqno2 p =
     (if p = -1 then Some False
      else do {
        a \<leftarrow> rd (r_piData1 L) p;
        e \<leftarrow> rd (r_piData2 L) p;
        if seqcmp a seqno1 = 0 \<or> (seqcmp a seqno1 > 0 \<and> seqcmp a seqno2 \<le> 0) \<or>
           (seqcmp a seqno1 < 0 \<and> e \<noteq> -1 \<and> seqcmp e seqno1 \<ge> 0)
        then Some True
        else do { n \<leftarrow> rd (r_piNext L) p; rcv_find_from L seqno1 seqno2 n } })"

definition rcv_find :: "int \<Rightarrow> int \<Rightarrow> rcv_loss \<Rightarrow> bool option" where
  "rcv_find seqno1 seqno2 L =
     (if r_iLength L = 0 then Some False else rcv_find_from L seqno1 seqno2 (r_iHead L))"

definition rcv_getLossLength :: "rcv_loss \<Rightarrow> int" where
  "rcv_getLossLength L = r_iLength L"

definition getFirstLostSeq :: "rcv_loss \<Rightarrow> int option" where
  "getFirstLostSeq L = (if r_iLength L = 0 then Some (-1) else rd (r_piData1 L) (r_iHead L))"

text \<open>
  \<open>getLossArray\<close>: the report of the losses, a range as its first number with the top bit
  set (\<open>array[len] |= 0x80000000\<close>, on an \<open>int32_t\<close>) and its last number. The array is the
  list of the values written; \<open>len\<close> is its length.
\<close>

definition nak_flag :: "int \<Rightarrow> int" where
  "nak_flag a = sint ((word_of_int a :: 32 word) OR 0x80000000)"

partial_function (option) getLossArray_from :: "rcv_loss \<Rightarrow> int \<Rightarrow> int \<Rightarrow> int list \<Rightarrow> int list option" where
  "getLossArray_from L limit i array =
     (if int (length array) < limit - 1 \<and> i \<noteq> -1
      then do {
        a \<leftarrow> rd (r_piData1 L) i;
        e \<leftarrow> rd (r_piData2 L) i;
        n \<leftarrow> rd (r_piNext L) i;
        getLossArray_from L limit n (if e \<noteq> -1 then array @ [nak_flag a, e] else array @ [a]) }
      else Some array)"

definition getLossArray :: "int \<Rightarrow> rcv_loss \<Rightarrow> int list option" where
  "getLossArray limit L = getLossArray_from L limit (r_iHead L) []"

end
