(* ===== verification/UdtIntervals.thy ===== *)
theory UdtIntervals
  imports UdtMem
begin

section \<open>Intervals of sequence numbers in a ring of cells\<close>

text \<open>
  What the two loss lists share. The abstract state is a list of intervals \<open>(a, b)\<close> of
  \<^emph>\<open>unwrapped\<close> numbers (any \<open>int\<close>); the number on the wire is \<open>wrap a\<close>, and the interval
  lives in the cell \<open>(a + d) mod N\<close> of the arrays, \<open>d\<close> being fixed while the list is not
  empty. \<open>tab\<close> maps a cell to its interval, \<open>holds\<close> says that an array stores a function
  of that map, and \<open>chain\<close> that an array of links runs through given cells.
\<close>

type_synonym ivs = "(int \<times> int) list"

subsection \<open>Numbers less than half the circle apart\<close>

definition near :: "int \<Rightarrow> int \<Rightarrow> bool" where
  "near x y \<longleftrightarrow> abs (x - y) < m_iSeqNoTH"

lemma near_sym: "near x y \<Longrightarrow> near y x"
  by (simp add: near_def)

lemma wrap_shift: "wrap x = wrap (wrap y + (x - y))"
  by (simp add: wrap_add)

lemma seqcmp_wrap:
  assumes "near x y"
  shows "seqcmp (wrap x) (wrap y) < 0 \<longleftrightarrow> x < y" "seqcmp (wrap x) (wrap y) > 0 \<longleftrightarrow> x > y"
    "seqcmp (wrap x) (wrap y) \<le> 0 \<longleftrightarrow> x \<le> y" "seqcmp (wrap x) (wrap y) \<ge> 0 \<longleftrightarrow> x \<ge> y"
    "seqcmp (wrap x) (wrap y) = 0 \<longleftrightarrow> x = y"
proof -
  have s: "sgn (seqcmp (wrap x) (wrap y)) = sgn (x - y)"
    using seqcmp_add [of "wrap y" "x - y"] assms by (simp add: near_def wrap_shift [of x y])
  then show "seqcmp (wrap x) (wrap y) < 0 \<longleftrightarrow> x < y" "seqcmp (wrap x) (wrap y) > 0 \<longleftrightarrow> x > y"
    "seqcmp (wrap x) (wrap y) \<le> 0 \<longleftrightarrow> x \<le> y" "seqcmp (wrap x) (wrap y) \<ge> 0 \<longleftrightarrow> x \<ge> y"
    "seqcmp (wrap x) (wrap y) = 0 \<longleftrightarrow> x = y"
    by (auto simp: sgn_if split: if_splits)
qed

lemma seqoff_wrap: "near x y \<Longrightarrow> seqoff (wrap x) (wrap y) = y - x"
  using seqoff_add [of "wrap x" "y - x"] by (simp add: near_def wrap_shift [of y x] abs_minus_commute)

lemma wrap_eq_iff: "near x y \<Longrightarrow> wrap x = wrap y \<longleftrightarrow> x = y"
  using seqoff_wrap [of x y] seqoff_wrap [of x x] by (auto simp: near_def)

lemma incseq_wrap': "incseq (wrap x) = wrap (x + 1)"
  using incseq_wrap [of "wrap x"] by (simp add: wrap_add)

lemma decseq_wrap': "decseq (wrap x) = wrap (x - 1)"
  using decseq_wrap [of "wrap x"] wrap_add [of x "-1"] by simp

lemma seqlen_wrap:
  assumes "x \<le> y" "y - x \<le> m_iMaxSeqNo"
  shows "seqlen (wrap x) (wrap y) = y - x + 1"
  using seqlen_add [of "wrap x" "y - x"] assms by (simp add: wrap_shift [of y x])

subsection \<open>Cells\<close>

definition cell :: "int \<Rightarrow> int \<Rightarrow> int \<Rightarrow> int" where
  "cell N d u = (u + d) mod N"

lemma cell_range: "0 < N \<Longrightarrow> 0 \<le> cell N d u" "0 < N \<Longrightarrow> cell N d u < N"
  by (simp_all add: cell_def)

lemma cell_neq [simp]: "0 < N \<Longrightarrow> cell N d u \<noteq> -1"
  using cell_range(1) [of N d u] by linarith

lemma cell_inj:
  assumes "abs (u - v) < N"
  shows "cell N d u = cell N d v \<longleftrightarrow> u = v"
proof
  assume "cell N d u = cell N d v"
  then have "N dvd (u - v)" by (simp add: cell_def mod_eq_dvd_iff)
  then show "u = v" using assms zdvd_not_zless [of "abs (u - v)" N] by (cases "u = v") simp_all
qed simp

lemma cell_next: "0 < N \<Longrightarrow> cmod (cell N d u + 1) N = cell N d (u + 1)"
  by (simp add: cell_def mod_simps algebra_simps)

lemma cell_off:
  assumes "0 < N" "u - N \<le> v"
  shows "cmod (cell N d u + (v - u) + N) N = cell N d v"
proof -
  have "0 \<le> cell N d u + (v - u) + N" using cell_range(1) [of N d u] assms by linarith
  then have "cmod (cell N d u + (v - u) + N) N = ((u + d) mod N + (v - u)) mod N"
    using assms(1) by (simp add: cell_def)
  also have "\<dots> = cell N d v"
    unfolding cell_def mod_add_left_eq by (simp add: algebra_simps)
  finally show ?thesis .
qed

definition tab :: "int \<Rightarrow> int \<Rightarrow> ivs \<Rightarrow> int \<Rightarrow> (int \<times> int) option" where
  "tab N d us = map_of (map (\<lambda>(a, b). (cell N d a, (a, b))) us)"

lemma tab_Nil [simp]: "tab N d [] p = None"
  by (simp add: tab_def)

lemma tab_Cons: "tab N d ((a, b) # us) = (tab N d us)(cell N d a \<mapsto> (a, b))"
  by (simp add: tab_def)

lemma tab_append: "tab N d (us @ vs) = tab N d vs ++ tab N d us"
  by (simp add: tab_def)

lemma dom_tab: "tab N d us p = None \<longleftrightarrow> p \<notin> (cell N d \<circ> fst) ` set us"
  by (auto simp: tab_def map_of_eq_None_iff image_iff split: prod.splits)

lemma tab_mid:
  assumes "cell N d a \<notin> (cell N d \<circ> fst) ` set pre"
  shows "tab N d (pre @ (a, b) # post) = (tab N d (pre @ post))(cell N d a \<mapsto> (a, b))"
proof -
  have "tab N d pre (cell N d a) = None" using assms by (simp add: dom_tab)
  then show ?thesis by (auto simp: tab_append tab_Cons map_add_def fun_eq_iff split: option.split)
qed

lemma tab_del:
  assumes "cell N d a \<notin> (cell N d \<circ> fst) ` set (pre @ post)"
  shows "tab N d (pre @ post) = (tab N d (pre @ (a, b) # post))(cell N d a := None)"
proof -
  have "tab N d (pre @ post) (cell N d a) = None" using assms by (simp only: dom_tab) simp
  moreover have "cell N d a \<notin> (cell N d \<circ> fst) ` set pre" using assms by auto
  ultimately show ?thesis by (auto simp: tab_mid fun_eq_iff)
qed

subsection \<open>Arrays that store a function of the intervals\<close>

definition holds :: "int \<Rightarrow> int \<Rightarrow> ((int \<times> int) option \<Rightarrow> 'a) \<Rightarrow> 'a list \<Rightarrow> ivs \<Rightarrow> bool" where
  "holds N d f xs us \<longleftrightarrow> length xs = nat N \<and> (\<forall>p < nat N. xs ! p = f (tab N d us (int p)))"

definition first_of :: "(int \<times> int) option \<Rightarrow> int" where
  "first_of r = (case r of None \<Rightarrow> -1 | Some (a, b) \<Rightarrow> wrap a)"

definition last_of :: "(int \<times> int) option \<Rightarrow> int" where
  "last_of r = (case r of None \<Rightarrow> -1 | Some (a, b) \<Rightarrow> if a = b then -1 else wrap b)"

lemma first_of_simps [simp]: "first_of None = -1" "first_of (Some (a, b)) = wrap a"
  by (simp_all add: first_of_def)

lemma last_of_simps [simp]:
  "last_of None = -1" "last_of (Some (a, b)) = (if a = b then -1 else wrap b)"
  by (simp_all add: last_of_def)

lemma holds_length: "holds N d f xs us \<Longrightarrow> length xs = nat N"
  by (simp add: holds_def)

lemma holds_rd:
  assumes "holds N d f xs us" "0 < N"
  shows "rd xs (cell N d u) = Some (f (tab N d us (cell N d u)))"
  using assms cell_range [of N d u] by (simp add: holds_def rd_def)

lemma holds_wr:
  assumes "holds N d f xs us" "0 < N"
  shows "wr xs (cell N d u) v = Some (xs[nat (cell N d u) := v])"
  using assms cell_range [of N d u] by (simp add: holds_def wr_def)

lemma holds_fun_upd:
  assumes "holds N d f xs us" "0 < N" "tab N d vs = (tab N d us)(cell N d a := r)"
  shows "holds N d f (xs[nat (cell N d a) := f r]) vs"
  using assms cell_range [of N d a] by (auto simp: holds_def nth_list_update)

lemma holds_same:
  assumes "holds N d f xs us" "0 < N" "f (tab N d us (cell N d a)) = v"
  shows "xs[nat (cell N d a) := v] = xs"
  using assms cell_range [of N d a] by (intro list_update_same_conv [THEN iffD2]) (auto simp: holds_def)

subsection \<open>Links\<close>

fun chain :: "int list \<Rightarrow> int list \<Rightarrow> int \<Rightarrow> bool" where
  "chain nxt [] t \<longleftrightarrow> True"
| "chain nxt (p # ps) t \<longleftrightarrow> nxt ! nat p = (case ps of [] \<Rightarrow> t | q # _ \<Rightarrow> q) \<and> chain nxt ps t"

definition entry :: "int list \<Rightarrow> int \<Rightarrow> int" where
  "entry ps t = (case ps of [] \<Rightarrow> t | p # _ \<Rightarrow> p)"

lemma entry_simps [simp]: "entry [] t = t" "entry (p # ps) t = p"
  by (simp_all add: entry_def)

lemma chain_Cons [simp]: "chain nxt (p # ps) t \<longleftrightarrow> nxt ! nat p = entry ps t \<and> chain nxt ps t"
  by (simp add: entry_def)

declare chain.simps(2) [simp del]

lemma entry_append [simp]: "entry (ps @ qs) t = entry ps (entry qs t)"
  by (cases ps) simp_all

lemma chain_append [simp]: "chain nxt (ps @ qs) t \<longleftrightarrow> chain nxt ps (entry qs t) \<and> chain nxt qs t"
  by (induction ps) auto

lemma chain_upd:
  assumes "p \<notin> set ps" "0 \<le> p" "\<forall>q \<in> set ps. 0 \<le> q"
  shows "chain (nxt[nat p := v]) ps t \<longleftrightarrow> chain nxt ps t"
  using assms by (induction ps) (auto simp: nth_list_update nat_eq_iff)

subsection \<open>Lists of intervals\<close>

definition cells :: "int \<Rightarrow> int \<Rightarrow> ivs \<Rightarrow> int list" where
  "cells N d us = map (\<lambda>(a, b). cell N d a) us"

lemma cells_simps [simp]: "cells N d [] = []" "cells N d ((a, b) # us) = cell N d a # cells N d us"
  "cells N d (us @ vs) = cells N d us @ cells N d vs"
  by (simp_all add: cells_def)

lemma set_cells: "set (cells N d us) = (cell N d \<circ> fst) ` set us"
  by (auto simp: cells_def image_iff split: prod.splits) (force+)

definition iv_ok :: "int \<Rightarrow> ivs \<Rightarrow> bool" where
  "iv_ok N us \<longleftrightarrow> sorted_wrt (\<lambda>u v. fst u < fst v) us \<and>
     (\<forall>u \<in> set us. fst u \<le> snd u) \<and> (\<forall>u \<in> set us. \<forall>v \<in> set us. snd v - fst u < N)"

definition separate :: "ivs \<Rightarrow> bool" where
  "separate us \<longleftrightarrow> sorted_wrt (\<lambda>u v. snd u < fst v) us"

definition total :: "ivs \<Rightarrow> int" where
  "total us = (\<Sum>(a, b) \<leftarrow> us. b - a + 1)"

definition numbers :: "ivs \<Rightarrow> int set" where
  "numbers us = (\<Union>(a, b) \<in> set us. {a..b})"

lemma total_simps [simp]: "total [] = 0" "total ((a, b) # us) = b - a + 1 + total us"
  "total (us @ vs) = total us + total vs"
  by (simp_all add: total_def)

lemma numbers_simps [simp]: "numbers [] = {}" "numbers ((a, b) # us) = {a..b} \<union> numbers us"
  "numbers (us @ vs) = numbers us \<union> numbers vs"
  by (simp_all add: numbers_def)

lemma total_pos: "iv_ok N us \<Longrightarrow> us \<noteq> [] \<Longrightarrow> 0 < total us"
proof (induction us)
  case (Cons u us)
  then show ?case by (cases u; cases "us = []") (auto simp: iv_ok_def)
qed simp

lemma finite_numbers [simp]: "finite (numbers us)"
  by (auto simp: numbers_def)

lemma total_card:
  assumes "separate us" "\<forall>u \<in> set us. fst u \<le> snd u"
  shows "total us = int (card (numbers us))"
  using assms
proof (induction us)
  case (Cons u us)
  obtain a b where u: "u = (a, b)" by (cases u)
  have "{a..b} \<inter> numbers us = {}" using Cons.prems u by (force simp: separate_def numbers_def)
  then show ?case using Cons u by (simp add: card_Un_disjoint separate_def)
qed simp

lemma iv_okD:
  assumes "iv_ok N us" "(a, b) \<in> set us"
  shows "a \<le> b" "(c, e) \<in> set us \<Longrightarrow> e - a < N"
  using assms unfolding iv_ok_def by (metis fst_conv snd_conv)+

lemma iv_ok_subset:
  assumes "iv_ok N (pre @ u # post)"
  shows "iv_ok N (pre @ post)"
  using assms by (auto simp: iv_ok_def sorted_wrt_append)

text \<open>An interval split in two after \<open>x\<close>.\<close>

lemma iv_ok_split:
  assumes "iv_ok N (pre @ (a, b) # post)" "separate (pre @ (a, b) # post)" "a \<le> x" "x < b"
  shows "iv_ok N (pre @ (a, x) # (x + 1, b) # post)" "separate (pre @ (a, x) # (x + 1, b) # post)"
proof -
  let ?us = "pre @ (a, b) # post" and ?vs = "pre @ (a, x) # (x + 1, b) # post"
  have sub: "\<exists>u' \<in> set ?us. fst u' \<le> fst u \<and> snd u \<le> snd u'" if "u \<in> set ?vs" for u
    using that assms(3,4) by auto
  have w: "snd v - fst u < N" if uv: "u \<in> set ?vs" "v \<in> set ?vs" for u v
  proof -
    obtain u' where u': "u' \<in> set ?us" "fst u' \<le> fst u" using sub uv(1) by blast
    obtain v' where v': "v' \<in> set ?us" "snd v \<le> snd v'" using sub uv(2) by blast
    have "snd v' - fst u' < N" using assms(1) u'(1) v'(1) unfolding iv_ok_def by blast
    with u'(2) v'(2) show ?thesis by linarith
  qed
  have sep: "sorted_wrt (\<lambda>u v. snd u < fst v) ?vs"
    using assms(2-4) by (auto simp: separate_def sorted_wrt_append)
  have le: "fst u \<le> snd u" if "u \<in> set ?vs" for u
    using that assms(1,3,4) by (auto simp: iv_ok_def)
  have "sorted_wrt (\<lambda>u v. fst u < fst v) ?vs"
    by (rule sorted_wrt_mono_rel [OF _ sep]) (use le in force)
  then show "iv_ok N ?vs" using w le by (simp only: iv_ok_def) blast
  show "separate ?vs" using sep by (simp add: separate_def)
qed

lemma iv_start_notin:
  assumes "iv_ok N (pre @ (a, b) # post)" "0 < N"
  shows "cell N d a \<notin> (cell N d \<circ> fst) ` set (pre @ post)"
proof
  assume "cell N d a \<in> (cell N d \<circ> fst) ` set (pre @ post)"
  then obtain u where u: "u \<in> set (pre @ post)" "cell N d a = cell N d (fst u)" by auto
  have "fst u \<noteq> a" using assms u(1) by (auto simp: iv_ok_def sorted_wrt_append)
  moreover have "abs (a - fst u) < N"
  proof -
    have "snd u - a < N" "b - fst u < N" "a \<le> b" "fst u \<le> snd u"
      using assms u(1) by (auto simp: iv_ok_def)
    then show ?thesis by linarith
  qed
  ultimately show False using u(2) cell_inj [of a "fst u" N d] by simp
qed

subsection \<open>Facts on stored intervals\<close>

lemma iv_near:
  assumes "iv_ok N us" "N < m_iSeqNoTH" "(a, b) \<in> set us" "(c, e) \<in> set us"
  shows "near a c" "near a e" "near b c" "near b e" "near a (e + 1)" "near (e + 1) a" "near b (e + 1)"
proof -
  have "b - a < N" "b - c < N" "e - a < N" "e - c < N" "a \<le> b" "c \<le> e"
    using iv_okD [OF assms(1)] assms(3,4) by blast+
  then show "near a c" "near a e" "near b c" "near b e" "near a (e + 1)" "near (e + 1) a" "near b (e + 1)"
    using assms(2) by (simp_all add: near_def abs_less_iff)
qed

lemma iv_len:
  assumes "iv_ok N us" "N < m_iSeqNoTH" "(a, b) \<in> set us"
  shows "a \<le> b" "b - a \<le> m_iMaxSeqNo"
  using iv_okD [OF assms(1,3)] assms by fastforce+

lemma cell_notin:
  assumes "iv_ok N (pre @ (a, b) # post)" "0 < N"
  shows "cell N d a \<notin> set (cells N d pre)" "cell N d a \<notin> set (cells N d post)"
  using iv_start_notin [OF assms, of d] by (auto simp: set_cells)

lemma cells_nonneg: "0 < N \<Longrightarrow> \<forall>q \<in> set (cells N d us). 0 \<le> q"
  by (auto simp: set_cells cell_range)

lemma tab_here:
  assumes "iv_ok N (pre @ (a, b) # post)" "0 < N"
  shows "tab N d (pre @ (a, b) # post) (cell N d a) = Some (a, b)"
  using cell_notin [OF assms, of d] by (subst tab_mid) (auto simp: set_cells)

lemma separate_mid:
  assumes "separate (pre @ (a, b) # post)" "a \<le> b"
  shows "separate pre" "separate post" "\<forall>u \<in> set pre. snd u < a" "\<forall>u \<in> set post. a < fst u"
  using assms by (auto simp: separate_def sorted_wrt_append)

lemma split_at:
  assumes "iv_ok N us" "a1 \<le> x" "us = (a1, b1) # r"
  obtains pre a b post where "us = pre @ (a, b) # post" "a \<le> x" "\<forall>u \<in> set pre. fst u < a"
    "\<forall>u \<in> set post. x < fst u"
proof -
  let ?P = "\<lambda>u. fst u \<le> x"
  have "\<exists>u \<in> set us. ?P u" using assms by auto
  then obtain pre u post where s: "us = pre @ u # post" "?P u" "\<forall>v \<in> set post. \<not> ?P v"
    using split_list_last_prop [of us ?P] by blast
  moreover have "\<forall>v \<in> set pre. fst v < fst u"
    using assms(1) s(1) by (auto simp: iv_ok_def sorted_wrt_append)
  ultimately show thesis using that [of pre "fst u" "snd u" post] by force
qed

text \<open>\<open>fits N us x y\<close>: with a new interval, all numbers are still within one window of size \<open>N\<close>.\<close>

definition fits :: "int \<Rightarrow> ivs \<Rightarrow> int \<Rightarrow> int \<Rightarrow> bool" where
  "fits N us x y \<longleftrightarrow> x \<le> y \<and> y - x < N \<and> (\<forall>u \<in> set us. snd u - x < N \<and> y - fst u < N)"

lemma iv_ok_insert:
  assumes "iv_ok N (pre @ post)" "fits N (pre @ post) x y" "\<forall>u \<in> set pre. fst u < x" "\<forall>u \<in> set post. x < fst u"
  shows "iv_ok N (pre @ (x, y) # post)"
  using assms by (auto simp: iv_ok_def fits_def sorted_wrt_append)

lemma iv_ok_grow:
  assumes "iv_ok N (pre @ (a, b) # post)" "b \<le> y" "\<forall>u \<in> set (pre @ (a, b) # post). y - fst u < N"
  shows "iv_ok N (pre @ (a, y) # post)"
proof (rule iv_ok_insert [OF iv_ok_subset [OF assms(1)]])
  have ab: "a \<le> b" "\<forall>u \<in> set (pre @ post). snd u - a < N" using assms(1) by (auto simp: iv_ok_def)
  then show "fits N (pre @ post) a y" using assms(2,3) by (simp add: fits_def)
  show "\<forall>u \<in> set pre. fst u < a" "\<forall>u \<in> set post. a < fst u"
    using assms(1) by (auto simp: iv_ok_def sorted_wrt_append)
qed

lemma iv_ok_shrink:
  assumes "iv_ok N (pre @ (a, b) # post)" "a \<le> y" "y \<le> b"
  shows "iv_ok N (pre @ (a, y) # post)"
proof -
  have w: "snd v - fst u < N" if "u \<in> set (pre @ (a, b) # post)" "v \<in> set (pre @ (a, b) # post)" for u v
    using assms(1) that unfolding iv_ok_def by blast
  have "snd u - a < N" "y - fst u < N" if "u \<in> set (pre @ post)" for u
    using w [of "(a, b)" u] w [of u "(a, b)"] that assms(3) by auto
  moreover have "y - a < N" using iv_okD(2) [OF assms(1), of a b a b] assms(3) by simp
  ultimately have "fits N (pre @ post) a y" using assms(2) by (simp add: fits_def)
  then show ?thesis
    by (rule iv_ok_insert [OF iv_ok_subset [OF assms(1)]])
      (use assms(1) in \<open>auto simp: iv_ok_def sorted_wrt_append\<close>)
qed

lemma separate_shrink: "separate (pre @ (a, b) # post) \<Longrightarrow> y \<le> b \<Longrightarrow> separate (pre @ (a, y) # post)"
  by (auto simp: separate_def sorted_wrt_append)

lemma wrap_pair:
  assumes "x \<le> y" "y - x < N" "N < m_iSeqNoTH"
  shows "near x y" "wrap y = wrap x \<longleftrightarrow> x = y" "seqlen (wrap x) (wrap y) = y - x + 1"
proof -
  show "near x y" using assms by (simp add: near_def)
  then show "wrap y = wrap x \<longleftrightarrow> x = y" using wrap_eq_iff [of x y] by auto
  show "seqlen (wrap x) (wrap y) = y - x + 1" using assms by (intro seqlen_wrap) auto
qed

lemma tab_replace:
  assumes "iv_ok N (pre @ (a, b) # post)" "0 < N"
  shows "tab N d (pre @ (a, y) # post) = (tab N d (pre @ (a, b) # post))(cell N d a := Some (a, y))"
proof -
  have n: "cell N d a \<notin> (cell N d \<circ> fst) ` set pre" using cell_notin(1) [OF assms, of d] by (simp add: set_cells)
  show ?thesis by (simp add: tab_mid [OF n])
qed

lemma chain_head:
  assumes "chain nxt (cells N d (pre @ (a, b) # post)) t"
  shows "nxt ! nat (cell N d a) = entry (cells N d post) t"
  using assms by simp

lemma iv_cell_neq:
  assumes "iv_ok N us" "0 < N" "(a, b) \<in> set us" "a \<le> x" "x < b"
  shows "nat (cell N d a) \<noteq> nat (cell N d (x + 1))"
  using cell_inj [of a "x + 1" N d] cell_range [OF assms(2), of d a] cell_range [OF assms(2), of d "x + 1"]
    iv_okD(2) [OF assms(1,3), of a b] assms(3-5) by (auto simp: nat_eq_iff)

text \<open>A number that starts no interval, but is in the window, has a free cell.\<close>

lemma tab_free:
  assumes "iv_ok N us" "0 < N" "\<forall>u \<in> set us. abs (fst u - x) < N" "x \<notin> fst ` set us"
  shows "tab N d us (cell N d x) = None"
proof -
  have "cell N d x \<notin> (cell N d \<circ> fst) ` set us"
  proof
    assume "cell N d x \<in> (cell N d \<circ> fst) ` set us"
    then obtain u where "u \<in> set us" "cell N d (fst u) = cell N d x" by auto
    then show False using assms(3,4) cell_inj [of "fst u" x N d] by auto
  qed
  then show ?thesis by (simp add: dom_tab)
qed

lemma numbers_apart:
  assumes "separate (pre @ (a, b) # post)" "\<forall>u \<in> set (pre @ (a, b) # post). fst u \<le> snd u"
  shows "numbers pre \<inter> {a..b} = {}" "numbers post \<inter> {a..b} = {}"
    "n \<in> numbers pre \<Longrightarrow> n < a" "n \<in> numbers post \<Longrightarrow> b < n"
proof -
  have pre: "n < a" if "n \<in> numbers pre" for n
    using that assms(1) by (fastforce simp: separate_def sorted_wrt_append numbers_def)
  have post: "b < n" if "n \<in> numbers post" for n
    using that assms(1) by (fastforce simp: separate_def sorted_wrt_append numbers_def)
  show "numbers pre \<inter> {a..b} = {}" "numbers post \<inter> {a..b} = {}"
    "n \<in> numbers pre \<Longrightarrow> n < a" "n \<in> numbers post \<Longrightarrow> b < n"
    using pre post by force+
qed

end
