(* ===== verification/UdtRcvLossSpec.thy ===== *)
theory UdtRcvLossSpec
  imports UdtRcvLossList UdtIntervals
begin

section \<open>UDT: what the receiver's loss list stores\<close>

text \<open>
  \<open>rcv_rep d us L\<close>: the arrays of \<open>L\<close> hold the intervals \<open>us\<close>, linked in both directions
  (\<open>dchain\<close>). Insertion at the end and removal of a number keep it.
\<close>

definition dchain :: "int list \<Rightarrow> int list \<Rightarrow> int list \<Rightarrow> bool" where
  "dchain nxt prv ps \<longleftrightarrow> chain nxt ps (-1) \<and> chain prv (rev ps) (-1)"

definition rcv_rep :: "int \<Rightarrow> ivs \<Rightarrow> rcv_loss \<Rightarrow> bool" where
  "rcv_rep d us L \<longleftrightarrow> (let N = r_iSize L in
     0 < N \<and> N < m_iSeqNoTH \<and> length (r_piNext L) = nat N \<and> length (r_piPrior L) = nat N \<and>
     iv_ok N us \<and> separate us \<and>
     holds N d first_of (r_piData1 L) us \<and> holds N d last_of (r_piData2 L) us \<and>
     dchain (r_piNext L) (r_piPrior L) (cells N d us) \<and> r_iLength L = total us \<and>
     r_iHead L = entry (cells N d us) (-1) \<and> (us \<noteq> [] \<longrightarrow> r_iTail L = last (cells N d us)))"

lemma rcv_repD:
  assumes "rcv_rep d us L"
  shows "0 < r_iSize L" "r_iSize L < m_iSeqNoTH" "length (r_piNext L) = nat (r_iSize L)"
    "length (r_piPrior L) = nat (r_iSize L)" "iv_ok (r_iSize L) us" "separate us"
    "holds (r_iSize L) d first_of (r_piData1 L) us" "holds (r_iSize L) d last_of (r_piData2 L) us"
    "dchain (r_piNext L) (r_piPrior L) (cells (r_iSize L) d us)" "r_iLength L = total us"
    "r_iHead L = entry (cells (r_iSize L) d us) (-1)" "us \<noteq> [] \<Longrightarrow> r_iTail L = last (cells (r_iSize L) d us)"
  using assms by (simp_all add: rcv_rep_def Let_def)

lemma new_rcv_rep:
  assumes "0 < n" "n < m_iSeqNoTH" "length g = nat n" "length h = nat n"
  shows "rcv_rep d [] (CRcvLossList n g h)"
  using assms by (simp add: rcv_rep_def CRcvLossList_def iv_ok_def holds_def separate_def dchain_def)

lemma set_ok [udt_mem]:
  assumes "0 < N"
  shows "length (r_piData1 L) = nat N \<Longrightarrow> setData1 (cell N d u) v L =
      Some (L\<lparr>r_piData1 := (r_piData1 L)[nat (cell N d u) := v]\<rparr>)"
    "length (r_piData2 L) = nat N \<Longrightarrow> setData2 (cell N d u) v L =
      Some (L\<lparr>r_piData2 := (r_piData2 L)[nat (cell N d u) := v]\<rparr>)"
    "length (r_piNext L) = nat N \<Longrightarrow> setNext (cell N d u) v L =
      Some (L\<lparr>r_piNext := (r_piNext L)[nat (cell N d u) := v]\<rparr>)"
    "length (r_piPrior L) = nat N \<Longrightarrow> setPrior (cell N d u) v L =
      Some (L\<lparr>r_piPrior := (r_piPrior L)[nat (cell N d u) := v]\<rparr>)"
  using assms cell_range [of N d u] by (simp_all add: setData1_def setData2_def setNext_def setPrior_def wr_def)

lemma rcv_lengths:
  assumes "rcv_rep d us L"
  shows "length (r_piData1 L) = nat (r_iSize L)" "length (r_piData2 L) = nat (r_iSize L)"
    "length (r_piNext L) = nat (r_iSize L)" "length (r_piPrior L) = nat (r_iSize L)" "0 < r_iSize L"
  using rcv_repD [OF assms] holds_length by blast+

lemma rcv_node:
  assumes "rcv_rep d (pre @ (a, b) # post) L"
  shows "rd (r_piData1 L) (cell (r_iSize L) d a) = Some (wrap a)"
    "rd (r_piData2 L) (cell (r_iSize L) d a) = Some (if a = b then -1 else wrap b)"
    "rd (r_piNext L) (cell (r_iSize L) d a) = Some (entry (cells (r_iSize L) d post) (-1))"
    "rd (r_piPrior L) (cell (r_iSize L) d a) = Some (entry (rev (cells (r_iSize L) d pre)) (-1))"
proof -
  note D = rcv_repD [OF assms]
  note T = tab_here [OF D(5) D(1), of d]
  show "rd (r_piData1 L) (cell (r_iSize L) d a) = Some (wrap a)"
    using holds_rd [OF D(7) D(1)] T by simp
  show "rd (r_piData2 L) (cell (r_iSize L) d a) = Some (if a = b then -1 else wrap b)"
    using holds_rd [OF D(8) D(1)] T by simp
  show "rd (r_piNext L) (cell (r_iSize L) d a) = Some (entry (cells (r_iSize L) d post) (-1))"
    "rd (r_piPrior L) (cell (r_iSize L) d a) = Some (entry (rev (cells (r_iSize L) d pre)) (-1))"
    using D(1,3,4,9) cell_range [of "r_iSize L" d a] by (simp_all add: rd_def dchain_def)
qed

subsection \<open>Links in both directions\<close>

text \<open>
  A piece \<open>ps\<close> between \<open>xs\<close> and \<open>ys\<close> is replaced by \<open>qs\<close>: the links inside the new piece
  and the two across its ends must be set, the others stay.
\<close>

lemma chain_same:
  assumes "chain os ps t" "\<forall>p \<in> set ps. ns ! nat p = os ! nat p"
  shows "chain ns ps t"
  using assms by (induction ps) auto

lemma chain_cong:
  assumes "chain os ps t" "\<forall>p \<in> set (butlast ps). ns ! nat p = os ! nat p" "ps \<noteq> [] \<Longrightarrow> ns ! nat (last ps) = t'"
  shows "chain ns ps t'"
  using assms
proof (induction ps)
  case (Cons p ps)
  then show ?case by (cases ps) auto
qed simp

lemma chain_mid:
  assumes "chain os (xs @ ps @ ys) t" "\<forall>p \<in> set (butlast xs) \<union> set ys. ns ! nat p = os ! nat p"
    "xs \<noteq> [] \<Longrightarrow> ns ! nat (last xs) = entry (qs @ ys) t" "chain ns qs (entry ys t)"
  shows "chain ns (xs @ qs @ ys) t"
proof -
  have "chain os xs (entry (ps @ ys) t)" "chain os ys t" using assms(1) by simp_all
  then have "chain ns xs (entry (qs @ ys) t)" "chain ns ys t"
    using chain_cong [of os xs _ ns] chain_same [of os ys t ns] assms(2,3) by blast+
  then show ?thesis using assms(4) by simp
qed

lemma dchain_mid:
  assumes "dchain nxt prv (xs @ ps @ ys)"
    and "\<forall>p \<in> set (butlast xs) \<union> set ys. nxt' ! nat p = nxt ! nat p"
    and "\<forall>p \<in> set xs \<union> set (tl ys). prv' ! nat p = prv ! nat p"
    and "xs \<noteq> [] \<Longrightarrow> nxt' ! nat (last xs) = entry (qs @ ys) (-1)" "chain nxt' qs (entry ys (-1))"
    and "ys \<noteq> [] \<Longrightarrow> prv' ! nat (hd ys) = entry (rev qs @ rev xs) (-1)" "chain prv' (rev qs) (entry (rev xs) (-1))"
  shows "dchain nxt' prv' (xs @ qs @ ys)"
proof -
  have "chain nxt' (xs @ qs @ ys) (-1)"
    by (rule chain_mid [of nxt _ ps]) (use assms in \<open>simp_all add: dchain_def\<close>)
  moreover have "chain prv' (rev ys @ rev qs @ rev xs) (-1)"
  proof (rule chain_mid [of prv _ "rev ps"])
    show "chain prv (rev ys @ rev ps @ rev xs) (-1)" using assms(1) by (simp add: dchain_def)
    have "set (butlast (rev ys)) = set (tl ys)" by (cases ys) simp_all
    then show "\<forall>p \<in> set (butlast (rev ys)) \<union> set (rev xs). prv' ! nat p = prv ! nat p" using assms(3) by auto
    show "prv' ! nat (last (rev ys)) = entry (rev qs @ rev xs) (-1)" if "rev ys \<noteq> []"
      using that assms(6) by (simp add: last_rev)
  qed (use assms(7) in simp)
  ultimately show ?thesis by (simp add: dchain_def)
qed

lemma distinct_cells:
  assumes "iv_ok N us" "0 < N"
  shows "distinct (cells N d us)"
  using assms(1)
proof (induction us)
  case (Cons u us)
  obtain a b where u: "u = (a, b)" by (cases u)
  have "iv_ok N ([] @ us)" using iv_ok_subset [of N "[]" u us] Cons.prems by simp
  then show ?case using Cons.IH cell_notin(2) [of N "[]" a b us d] Cons.prems assms(2) u by simp
qed simp

lemma nth_upd_other: "0 \<le> p \<Longrightarrow> 0 \<le> q \<Longrightarrow> p \<noteq> q \<Longrightarrow> xs[nat q := v] ! nat p = xs ! nat p"
  by (simp add: nat_eq_iff)

lemma last_butlast: "distinct ps \<Longrightarrow> p \<in> set (butlast ps) \<Longrightarrow> p \<noteq> last ps"
  by (cases ps rule: rev_cases) auto

lemma entry_hd: "ps \<noteq> [] \<Longrightarrow> entry ps t = hd ps"
  by (cases ps) simp_all

lemma entry_rev: "ps \<noteq> [] \<Longrightarrow> entry (rev ps) t = last ps"
  by (cases ps rule: rev_cases) auto

subsection \<open>insert\<close>

lemma cell_fwd:
  assumes "0 < N" "u \<le> v"
  shows "cmod (cell N d u + (v - u)) N = cell N d v"
proof -
  have "0 \<le> cell N d u + (v - u)" using cell_range(1) [of N d u] assms by linarith
  then have "cmod (cell N d u + (v - u)) N = ((u + d) mod N + (v - u)) mod N"
    using assms(1) by (simp add: cell_def)
  also have "\<dots> = cell N d v"
    unfolding cell_def mod_add_left_eq by (simp add: algebra_simps)
  finally show ?thesis .
qed

lemma setNode_ok:
  assumes h1: "holds N d first_of (r_piData1 L) us" and h2: "holds N d last_of (r_piData2 L) us" and N: "0 < N" "N < m_iSeqNoTH"
    and xy: "x \<le> y" "y - x < N" and free: "tab N d us (cell N d x) = None"
  shows "setNode (cell N d x) (wrap x) (wrap y) L =
    Some (L\<lparr>r_piData1 := (r_piData1 L)[nat (cell N d x) := wrap x],
            r_piData2 := (r_piData2 L)[nat (cell N d x) := (if x = y then -1 else wrap y)]\<rparr>)"
proof -
  note W = wrap_pair [OF xy N(2)]
  have "(r_piData2 L)[nat (cell N d x) := -1] = r_piData2 L" using holds_same [OF h2 N(1), of x "-1"] free by simp
  then show ?thesis using W N holds_length [OF h1] holds_length [OF h2] by (auto simp: setNode_def set_ok)
qed

lemma rcv_append_rep:
  assumes R: "rcv_rep d us L" and ne: "us \<noteq> []" and f: "fits (r_iSize L) us x y" and lt: "\<forall>u \<in> set us. snd u < x"
  defines "N \<equiv> r_iSize L" and "c \<equiv> cell (r_iSize L) d x" and "t \<equiv> last (cells (r_iSize L) d us)"
  shows "rcv_rep d (us @ [(x, y)]) (L\<lparr>r_piData1 := (r_piData1 L)[nat c := wrap x],
      r_piData2 := (r_piData2 L)[nat c := (if x = y then -1 else wrap y)],
      r_piNext := (r_piNext L)[nat t := c, nat c := -1], r_piPrior := (r_piPrior L)[nat c := t],
      r_iTail := c, r_iLength := r_iLength L + (y - x + 1)\<rparr>)"
    and "tab N d us c = None"
proof -
  note D = rcv_repD [OF R, folded N_def]
  have c: "c = cell N d x" and tl: "t = last (cells N d us)" by (simp_all add: N_def c_def t_def)
  have le: "\<forall>u \<in> set us. fst u \<le> snd u" using D(5) by (simp add: iv_ok_def)
  have xy: "x \<le> y" using f by (simp add: fits_def)
  have starts: "\<forall>u \<in> set us. fst u < x" using lt le by force
  have iv: "iv_ok N (us @ (x, y) # [])" using iv_ok_insert [of N us "[]" x y] D(5) f starts by (simp add: N_def)
  have nc: "c \<notin> set (cells N d us)" using cell_notin(1) [OF iv D(1), of d] by (simp add: c)
  then show free: "tab N d us c = None" by (simp add: dom_tab set_cells)
  have tb: "tab N d (us @ [(x, y)]) = (tab N d us)(cell N d x := Some (x, y))"
    using tab_mid [of N d x us y "[]"] nc by (simp add: set_cells c)
  have sep: "separate (us @ [(x, y)])" using D(6) lt by (auto simp: separate_def sorted_wrt_append)
  let ?ps = "cells N d us"
  have psne: "?ps \<noteq> []" using ne by (simp add: cells_def)
  have rng: "0 \<le> q" "q < N" if "q \<in> set ?ps" for q
    using that cell_range [OF D(1)] by (auto simp: set_cells)
  have t_in: "t \<in> set ?ps" using psne by (simp add: tl)
  have cr: "0 \<le> c" "c < N" using cell_range [OF D(1), of d x] by (simp_all add: c)
  have tc: "nat t \<noteq> nat c" using t_in nc cr rng(1) [OF t_in] by (auto simp: nat_eq_iff)
  have dist: "distinct ?ps" by (rule distinct_cells [OF D(5,1)])
  let ?nx = "(r_piNext L)[nat t := c, nat c := -1]" and ?pr = "(r_piPrior L)[nat c := t]"
  have "dchain ?nx ?pr (?ps @ [c] @ [])"
  proof (rule dchain_mid [where ps = "[]"])
    show "dchain (r_piNext L) (r_piPrior L) (?ps @ [] @ [])" using D(9) by simp
    show "\<forall>p \<in> set (butlast ?ps) \<union> set []. ?nx ! nat p = r_piNext L ! nat p"
    proof
      fix p assume "p \<in> set (butlast ?ps) \<union> set []"
      then have "p \<in> set ?ps" "p \<noteq> t" using last_butlast [OF dist] tl by (auto dest: in_set_butlastD)
      moreover have "p \<noteq> c" using calculation(1) nc by auto
      ultimately show "?nx ! nat p = r_piNext L ! nat p"
        using rng cr t_in by (simp add: nth_upd_other)
    qed
    show "\<forall>p \<in> set ?ps \<union> set (tl []). ?pr ! nat p = r_piPrior L ! nat p"
    proof
      fix p assume p: "p \<in> set ?ps \<union> set (tl [])"
      then have "p \<noteq> c" using nc by auto
      then show "?pr ! nat p = r_piPrior L ! nat p" using p rng cr by (simp add: nth_upd_other)
    qed
  qed (use D(1,3,4) tc rng [OF t_in] cr psne in \<open>simp_all add: tl [symmetric] entry_rev\<close>)
  then have dc: "dchain ?nx ?pr (cells N d (us @ [(x, y)]))" by (simp add: c)
  show "rcv_rep d (us @ [(x, y)]) (L\<lparr>r_piData1 := (r_piData1 L)[nat c := wrap x],
      r_piData2 := (r_piData2 L)[nat c := (if x = y then -1 else wrap y)],
      r_piNext := ?nx, r_piPrior := ?pr, r_iTail := c, r_iLength := r_iLength L + (y - x + 1)\<rparr>)"
    using D dc sep iv ne holds_fun_upd [OF D(7) D(1) tb] holds_fun_upd [OF D(8) D(1) tb] psne
    by (simp add: rcv_rep_def Let_def c entry_hd flip: N_def)
qed

lemma rcv_grow_rep:
  assumes R: "rcv_rep d (pre @ [(a, b)]) L" and f: "\<forall>u \<in> set (pre @ [(a, b)]). y - fst u < r_iSize L" and lt: "b < y"
  shows "rcv_rep d (pre @ [(a, y)]) (L\<lparr>r_piData2 := (r_piData2 L)[nat (cell (r_iSize L) d a) := wrap y],
      r_iLength := r_iLength L + (y - b)\<rparr>)"
proof -
  let ?N = "r_iSize L"
  note D = rcv_repD [OF R]
  have iv: "iv_ok ?N (pre @ [(a, y)])" using iv_ok_grow [OF D(5)] f lt by simp
  note tb = tab_replace [OF D(5) D(1), of d y]
  have h1: "(r_piData1 L)[nat (cell ?N d a) := wrap a] = r_piData1 L"
    using holds_same [OF D(7) D(1), of a "wrap a"] tab_here [OF D(5) D(1), of d] by simp
  have ay: "a \<noteq> y" using iv_okD(1) [OF D(5), of a b] lt by simp
  have "separate (pre @ [(a, y)])" using D(6) by (auto simp: separate_def sorted_wrt_append)
  then show ?thesis
    using D iv ay h1 holds_fun_upd [OF D(7) D(1) tb] holds_fun_upd [OF D(8) D(1) tb]
    by (simp add: rcv_rep_def Let_def)
qed

lemma rcv_insert_rep:
  assumes R: "rcv_rep d us L" and f: "fits (r_iSize L) us x y" and lt: "\<forall>u \<in> set us. snd u < x"
  shows "\<exists>d' us' L'. rcv_insert (wrap x) (wrap y) L = Some L' \<and> rcv_rep d' us' L' \<and>
    numbers us' = numbers us \<union> {x..y} \<and> r_iSize L' = r_iSize L"
proof (cases us rule: rev_cases)
  case Nil
  let ?N = "r_iSize L"
  note D = rcv_repD [OF R [unfolded Nil]]
  have xy: "x \<le> y" "y - x < ?N" using f by (simp_all add: fits_def)
  have c0: "cell ?N (-x) x = 0" by (simp add: cell_def)
  have h: "holds ?N (-x) first_of (r_piData1 L) []" "holds ?N (-x) last_of (r_piData2 L) []"
    using D(7,8) by (simp_all add: holds_def)
  have tb: "tab ?N (-x) [(x, y)] = (tab ?N (-x) [])(cell ?N (-x) x := Some (x, y))" by (simp add: tab_Cons)
  let ?M = "L\<lparr>r_iHead := 0, r_iTail := 0, r_piData1 := (r_piData1 L)[0 := wrap x],
      r_piData2 := (r_piData2 L)[0 := (if x = y then -1 else wrap y)], r_piNext := (r_piNext L)[0 := -1],
      r_piPrior := (r_piPrior L)[0 := -1], r_iLength := y - x + 1\<rparr>"
  have put: "setNode 0 (wrap x) (wrap y) (L\<lparr>r_iHead := 0, r_iTail := 0\<rparr>) = Some (L\<lparr>r_iHead := 0, r_iTail := 0,
      r_piData1 := (r_piData1 L)[0 := wrap x], r_piData2 := (r_piData2 L)[0 := (if x = y then -1 else wrap y)]\<rparr>)"
    using setNode_ok [of ?N "-x" "L\<lparr>r_iHead := 0, r_iTail := 0\<rparr>" "[]" x y] h D(1,2) xy by (simp add: c0)
  have len: "r_iLength L = 0" using D(10) by simp
  have "rcv_insert (wrap x) (wrap y) L = Some ?M"
    using put len set_ok(3,4) [OF D(1), of _ "-x" x] D(3,4) wrap_pair(3) [OF xy D(2)]
    by (simp add: rcv_insert_def rcv_addLength_def c0)
  moreover have "rcv_rep (-x) [(x, y)] ?M"
    using D(1-4) xy holds_fun_upd [OF h(1) D(1) tb] holds_fun_upd [OF h(2) D(1) tb]
    by (simp add: rcv_rep_def iv_ok_def separate_def dchain_def c0)
  ultimately show ?thesis using Nil
    by (intro exI [of _ "-x"] exI [of _ "[(x, y)]"] exI [of _ ?M]) simp
next
  case (snoc pre u)
  obtain a b where us: "us = pre @ [(a, b)]" using snoc by (cases u) simp
  let ?N = "r_iSize L" let ?t = "cell ?N d a" and ?x = "cell ?N d x"
  have R1: "rcv_rep d (pre @ [(a, b)]) L" using R us by simp
  note D = rcv_repD [OF R1] and N = rcv_node [OF R1] and ln = rcv_lengths [OF R1]
  have xy: "x \<le> y" "y - x < ?N" using f by (simp_all add: fits_def)
  have tl: "r_iTail L = ?t" using D(12) by simp
  have ne: "r_iLength L \<noteq> 0" using total_pos [OF D(5)] D(10) by simp
  obtain a1 b1 r where h: "us = (a1, b1) # r" using us by (metis append_is_Nil_conv list.distinct(1) list.exhaust prod.exhaust)
  have R2: "rcv_rep d ([] @ (a1, b1) # r) L" using R h by simp
  have hd: "r_iHead L = cell ?N d a1" using rcv_repD(11) [OF R2] by simp
  have a1: "a1 \<le> b1" "b1 < x" "y - a1 < ?N" using iv_okD(1) [OF rcv_repD(5) [OF R2], of a1 b1] lt f h by (auto simp: fits_def)
  have off: "seqoff (wrap a1) (wrap x) = x - a1" using a1 xy D(2) by (intro seqoff_wrap) (simp add: near_def)
  have loc: "cmod (r_iHead L + (x - a1)) ?N = ?x" using cell_fwd [OF D(1), of a1 x] a1 hd by simp
  have ab: "a \<le> b" "b < x" "x - b < ?N" "y - b < ?N"
    using iv_okD(1) [OF D(5), of a b] lt f us xy by (auto simp: fits_def)
  have inc: "incseq (wrap b) = wrap x \<longleftrightarrow> x = b + 1"
    using wrap_eq_iff [of "b + 1" x] ab D(2) by (auto simp: incseq_wrap' near_def)
  have red: "rcv_insert (wrap x) (wrap y) L =
    do { L \<leftarrow> (if a \<noteq> b \<and> x = b + 1 then setData2 ?t (wrap y) L
      else do { L \<leftarrow> setNode ?x (wrap x) (wrap y) L; L \<leftarrow> setNext (r_iTail L) ?x L;
                L \<leftarrow> setPrior ?x (r_iTail L) L; L \<leftarrow> setNext ?x (-1) L; Some (L\<lparr>r_iTail := ?x\<rparr>) });
         Some (rcv_addLength (y - x + 1) L) }"
  proof -
    have g: "rd (r_piData1 L) (r_iHead L) = Some (wrap a1)" using rcv_node(1) [OF R2] hd by simp
    have e: "rd (r_piData2 L) ?t = Some (if a = b then -1 else wrap b)" by (rule N(2))
    have c: "((if a = b then -1 else wrap b) \<noteq> -1 \<and> incseq (if a = b then -1 else wrap b) = wrap x) = (a \<noteq> b \<and> x = b + 1)"
      using inc by simp
    show ?thesis
      by (simp only: rcv_insert_def if_not_P [OF ne] g e Option.bind.bind_lunit Let_def off loc c
          wrap_pair(3) [OF xy D(2)] tl)
  qed
  show ?thesis
  proof (cases "a \<noteq> b \<and> x = b + 1")
    case True
    have "rcv_insert (wrap x) (wrap y) L = Some (L\<lparr>r_piData2 := (r_piData2 L)[nat ?t := wrap y], r_iLength := r_iLength L + (y - b)\<rparr>)"
      using red True ln by (simp add: set_ok rcv_addLength_def)
    moreover have "rcv_rep d (pre @ [(a, y)]) (L\<lparr>r_piData2 := (r_piData2 L)[nat ?t := wrap y], r_iLength := r_iLength L + (y - b)\<rparr>)"
      using f us True xy by (intro rcv_grow_rep [OF R1]) (auto simp: fits_def)
    moreover have "{a..y} = {a..b} \<union> {x..y}" using True ab xy by auto
    ultimately show ?thesis using us by (intro exI [of _ d] exI [of _ "pre @ [(a, y)]"]) auto
  next
    case False
    have une: "us \<noteq> []" using us by simp
    note A = rcv_append_rep [OF R une f lt]
    have "setNode ?x (wrap x) (wrap y) L = Some (L\<lparr>r_piData1 := (r_piData1 L)[nat ?x := wrap x],
            r_piData2 := (r_piData2 L)[nat ?x := (if x = y then -1 else wrap y)]\<rparr>)"
      using setNode_ok [OF _ _ D(1,2) xy A(2)] rcv_repD(7,8) [OF R] by blast
    then have "rcv_insert (wrap x) (wrap y) L = Some (L\<lparr>r_piData1 := (r_piData1 L)[nat ?x := wrap x],
      r_piData2 := (r_piData2 L)[nat ?x := (if x = y then -1 else wrap y)],
      r_piNext := (r_piNext L)[nat ?t := ?x, nat ?x := -1], r_piPrior := (r_piPrior L)[nat ?x := ?t],
      r_iTail := ?x, r_iLength := r_iLength L + (y - x + 1)\<rparr>)"
      using red False ln tl by (simp add: set_ok rcv_addLength_def del: not_ex not_all)
    then show ?thesis using A(1) us by (intro exI [of _ d] exI [of _ "us @ [(x, y)]"]) auto
  qed
qed

end
