(* ===== verification/UdtRcvLossRemove.thy ===== *)
theory UdtRcvLossRemove
  imports UdtRcvLossSpec
begin

section \<open>UDT: removing a number from the receiver's loss list\<close>

text \<open>
  \<open>remove(seqno)\<close> takes one number out of the set: the node of the number is unlinked,
  moved, shortened or split. \<open>find\<close> is a test of the set, \<open>getLossArray\<close> a listing of it.
\<close>

definition in_range :: "nat \<Rightarrow> int list \<Rightarrow> bool" where
  "in_range n ps \<longleftrightarrow> (\<forall>p \<in> set ps. 0 \<le> p \<and> nat p < n)"

lemma nth_upd_if:
  assumes "in_range (length xs) [p, q]"
  shows "xs[nat q := v] ! nat p = (if p = q then v else xs ! nat p)"
  using assms by (auto simp: in_range_def nat_eq_iff nth_list_update)

lemma chain_upd_if:
  assumes "in_range (length xs) (q # ps)" "q \<notin> set ps"
  shows "chain (xs[nat q := v]) ps t = chain xs ps t"
  using assms by (intro chain_upd) (auto simp: in_range_def)

text \<open>The links across the ends of a replaced piece: the last of \<open>xs\<close> and the first of \<open>ys\<close>.\<close>

lemma relink:
  assumes dc: "dchain nxt prv (xs @ ps @ ys)" and dist: "distinct (xs @ qs @ ys)"
    and rng: "in_range (length nxt1) (xs @ qs @ ys)" "in_range (length prv1) (xs @ qs @ ys)"
    and same: "\<forall>p \<in> set xs \<union> set ys. nxt1 ! nat p = nxt ! nat p \<and> prv1 ! nat p = prv ! nat p"
    and q: "chain nxt1 qs (entry ys (-1))" "chain prv1 (rev qs) (entry (rev xs) (-1))"
  shows "dchain (if xs = [] then nxt1 else nxt1[nat (last xs) := entry (qs @ ys) (-1)])
    (if ys = [] then prv1 else prv1[nat (hd ys) := entry (rev qs @ rev xs) (-1)]) (xs @ qs @ ys)"
proof (rule dchain_mid [OF dc])
  let ?n = "if xs = [] then nxt1 else nxt1[nat (last xs) := entry (qs @ ys) (-1)]"
  let ?p = "if ys = [] then prv1 else prv1[nat (hd ys) := entry (rev qs @ rev xs) (-1)]"
  show "\<forall>p \<in> set (butlast xs) \<union> set ys. ?n ! nat p = nxt ! nat p"
  proof
    fix p assume p: "p \<in> set (butlast xs) \<union> set ys"
    then have "p \<in> set xs \<union> set ys" by (auto dest: in_set_butlastD)
    moreover have "xs \<noteq> [] \<Longrightarrow> p \<noteq> last xs" using p dist last_butlast [of xs p] last_in_set [of xs]
      by (simp only: distinct_append set_append Un_iff) blast
    ultimately show "?n ! nat p = nxt ! nat p"
      using same rng by (auto simp: nth_upd_if in_range_def)
  qed
  show "\<forall>p \<in> set xs \<union> set (tl ys). ?p ! nat p = prv ! nat p"
  proof
    fix p assume p: "p \<in> set xs \<union> set (tl ys)"
    then have "p \<in> set xs \<union> set ys" by (cases ys) auto
    moreover have "ys \<noteq> [] \<Longrightarrow> p \<noteq> hd ys" using p dist hd_in_set [of ys] by (cases ys) auto
    ultimately show "?p ! nat p = prv ! nat p"
      using same rng by (auto simp: nth_upd_if in_range_def)
  qed
  show "?n ! nat (last xs) = entry (qs @ ys) (-1)" if "xs \<noteq> []" using that rng by (simp add: in_range_def)
  show "?p ! nat (hd ys) = entry (rev qs @ rev xs) (-1)" if "ys \<noteq> []" using that rng by (simp add: in_range_def)
  have "last xs \<notin> set qs" if "xs \<noteq> []" using that dist by (auto dest: last_in_set)
  then show "chain ?n qs (entry ys (-1))" using q(1) rng by (auto simp: chain_upd_if in_range_def)
  have "hd ys \<notin> set qs" if "ys \<noteq> []" using that dist by (auto dest: hd_in_set)
  then show "chain ?p (rev qs) (entry (rev xs) (-1))" using q(2) rng by (auto simp: chain_upd_if in_range_def)
qed

lemma cells_in_range: "0 < N \<Longrightarrow> in_range (nat N) (cells N d us)"
  by (auto simp: in_range_def set_cells cell_range)

lemma rcv_rep_new:
  assumes "rcv_rep d us L" "iv_ok (r_iSize L) vs" "separate vs" "r_iSize L' = r_iSize L"
    "holds (r_iSize L) d first_of (r_piData1 L') vs" "holds (r_iSize L) d last_of (r_piData2 L') vs"
    "dchain (r_piNext L') (r_piPrior L') (cells (r_iSize L) d vs)" "r_iLength L' = total vs"
    "length (r_piNext L') = nat (r_iSize L)" "length (r_piPrior L') = nat (r_iSize L)"
    "r_iHead L' = entry (cells (r_iSize L) d vs) (-1)" "vs \<noteq> [] \<Longrightarrow> r_iTail L' = last (cells (r_iSize L) d vs)"
  shows "rcv_rep d vs L'"
  using assms by (simp add: rcv_rep_def Let_def)

subsection \<open>The four changes\<close>

lemma rcv_unlink_rep:
  assumes R: "rcv_rep d (pre @ (a, a) # post) L"
  shows "\<exists>L'. rcv_unlink (cell (r_iSize L) d a) L = Some L' \<and> rcv_rep d (pre @ post) (rcv_addLength (-1) L') \<and>
    r_iSize L' = r_iSize L"
proof -
  let ?N = "r_iSize L" let ?c = "cell ?N d a" and ?xs = "cells ?N d pre" and ?ys = "cells ?N d post"
  note D = rcv_repD [OF R] and N = rcv_node [OF R] and ln = rcv_lengths [OF R]
  have dist: "distinct (?xs @ ?c # ?ys)" using distinct_cells [OF D(5,1), of d] by simp
  have rng: "in_range (nat ?N) (?xs @ ?c # ?ys)" using cells_in_range [OF D(1), of d "pre @ (a, a) # post"] by simp
  let ?nx = "if ?xs = [] then r_piNext L else (r_piNext L)[nat (last ?xs) := entry ?ys (-1)]"
  let ?pr = "if ?ys = [] then r_piPrior L else (r_piPrior L)[nat (hd ?ys) := entry (rev ?xs) (-1)]"
  have dc: "dchain ?nx ?pr (?xs @ [] @ ?ys)"
    using relink [of "r_piNext L" "r_piPrior L" ?xs "[?c]" ?ys "[]" "r_piNext L" "r_piPrior L"] D(3,4,9) dist rng
    by (simp add: in_range_def cong: if_cong)
  have tb: "tab ?N d (pre @ post) = (tab ?N d (pre @ (a, a) # post))(?c := None)"
    by (rule tab_del [OF iv_start_notin [OF D(5,1)]])
  have d2: "(r_piData2 L)[nat ?c := -1] = r_piData2 L"
    using holds_same [OF D(8,1), of a "-1"] tab_here [OF D(5,1), of d] by simp
  have iv: "iv_ok ?N (pre @ post)" by (rule iv_ok_subset [OF D(5)])
  have sep: "separate (pre @ post)" using D(6) by (auto simp: separate_def sorted_wrt_append)
  let ?L = "L\<lparr>r_piData1 := (r_piData1 L)[nat ?c := -1], r_piNext := ?nx, r_piPrior := ?pr,
    r_iHead := entry (?xs @ ?ys) (-1), r_iTail := (if ?ys = [] then (if ?xs = [] then r_iTail L else last ?xs) else r_iTail L)\<rparr>"
  have "rcv_rep d (pre @ post) (rcv_addLength (-1) ?L)"
    by (rule rcv_rep_new [OF R iv sep])
      (use D dc holds_fun_upd [OF D(7,1) tb] holds_fun_upd [OF D(8,1) tb] d2 in \<open>auto simp: rcv_addLength_def cells_def\<close>)
  moreover have "rcv_unlink ?c L = Some ?L"
  proof (cases pre rule: rev_cases)
    case Nil
    then have h: "r_iHead L = ?c" using D(11) by simp
    show ?thesis
    proof (cases post)
      case Nil
      then show ?thesis using h N ln \<open>pre = []\<close> by (simp add: rcv_unlink_def set_ok)
    next
      case (Cons u post')
      then show ?thesis using h N ln D(1) \<open>pre = []\<close> D(12) by (cases u) (simp add: rcv_unlink_def set_ok)
    qed
  next
    case (snoc pre' w)
    obtain p q where w: "w = (p, q)" by (cases w)
    have h: "r_iHead L \<noteq> ?c" using D(11) dist snoc w by (cases pre') (auto simp: cells_def)
    show ?thesis
    proof (cases post)
      case Nil
      then show ?thesis using h N ln snoc w D(11) by (simp add: rcv_unlink_def set_ok)
    next
      case (Cons u post')
      then show ?thesis using h N ln D(1) snoc w D(11,12) by (cases u) (simp add: rcv_unlink_def set_ok)
    qed
  qed
  ultimately show ?thesis by auto
qed

text \<open>The tables after a split of \<open>(a, b)\<close> behind \<open>x\<close>, and after dropping its first part.\<close>

lemma split_tables:
  fixes d :: int
  assumes iv: "iv_ok N (pre @ (a, b) # post)" and sep: "separate (pre @ (a, b) # post)" and N: "0 < N" and x: "a \<le> x" "x < b"
  defines "c \<equiv> cell N d a" and "e \<equiv> cell N d (x + 1)"
  shows "tab N d (pre @ (a, b) # post) e = None" "c \<noteq> e"
    "distinct (cells N d pre @ [c, e] @ cells N d post)" "in_range (nat N) (cells N d pre @ [c, e] @ cells N d post)"
    "tab N d (pre @ (a, y) # (x + 1, b) # post) = (tab N d (pre @ (a, b) # post))(e := Some (x + 1, b), c := Some (a, y))"
    "tab N d (pre @ (x + 1, b) # post) = (tab N d (pre @ (a, b) # post))(e := Some (x + 1, b), c := None)"
proof -
  let ?vs = "pre @ (a, x) # (x + 1, b) # post"
  have iv2: "iv_ok N ?vs" by (rule iv_ok_split(1) [OF iv sep x])
  have dist: "distinct (cells N d ?vs)" by (rule distinct_cells [OF iv2 N])
  then show ds: "distinct (cells N d pre @ [c, e] @ cells N d post)" by (simp add: c_def e_def)
  then show ce: "c \<noteq> e" by auto
  show "in_range (nat N) (cells N d pre @ [c, e] @ cells N d post)"
    using cells_in_range [OF N, of d ?vs] by (simp add: c_def e_def)
  have ta: "tab N d (pre @ (a, z) # zs) = (tab N d (pre @ zs))(c \<mapsto> (a, z))" for z zs
    unfolding c_def by (rule tab_mid) (use ds in \<open>simp add: set_cells c_def\<close>)
  have tx: "tab N d (pre @ (x + 1, b) # post) = (tab N d (pre @ post))(e \<mapsto> (x + 1, b))"
    unfolding e_def by (rule tab_mid) (use ds in \<open>simp add: set_cells e_def\<close>)
  have ne: "tab N d (pre @ post) e = None" and nc: "tab N d (pre @ post) c = None"
    using ds by (auto simp: dom_tab set_cells)
  show "tab N d (pre @ (a, b) # post) e = None" using ne ce by (simp add: ta)
  show "tab N d (pre @ (a, y) # (x + 1, b) # post) = (tab N d (pre @ (a, b) # post))(e := Some (x + 1, b), c := Some (a, y))"
    using ce by (simp add: ta tx fun_upd_twist)
  show "tab N d (pre @ (x + 1, b) # post) = (tab N d (pre @ (a, b) # post))(e := Some (x + 1, b), c := None)"
    using ce nc by (simp add: ta tx fun_eq_iff)
qed

lemma holds_fun_upd2:
  assumes "holds N d f xs us" "0 < N" "tab N d vs = (tab N d us)(cell N d u := r, cell N d v := s)"
  shows "holds N d f (xs[nat (cell N d u) := f r, nat (cell N d v) := f s]) vs"
  using assms cell_range [of N d u] cell_range [of N d v]
  by (auto simp: holds_def nth_list_update)

lemma rcv_advance_rep:
  assumes R: "rcv_rep d (pre @ (a, b) # post) L" and lt: "a < b"
  shows "\<exists>L'. rcv_advance (cell (r_iSize L) d a) L = Some L' \<and> rcv_rep d (pre @ (a + 1, b) # post) (rcv_addLength (-1) L') \<and>
    r_iSize L' = r_iSize L"
proof -
  let ?N = "r_iSize L" let ?c = "cell ?N d a" and ?e = "cell ?N d (a + 1)"
  let ?xs = "cells ?N d pre" and ?ys = "cells ?N d post"
  note D = rcv_repD [OF R] and N = rcv_node [OF R] and ln = rcv_lengths [OF R]
  note S = split_tables [OF D(5,6,1) order_refl lt, of d]
  have ce: "nat ?c \<noteq> nat ?e" by (rule iv_cell_neq [OF D(5,1) _ order_refl lt]) simp
  let ?nx = "if ?xs = [] then (r_piNext L)[nat ?e := entry ?ys (-1)]
    else (r_piNext L)[nat ?e := entry ?ys (-1), nat (last ?xs) := ?e]"
  let ?pr = "if ?ys = [] then (r_piPrior L)[nat ?e := entry (rev ?xs) (-1)]
    else (r_piPrior L)[nat ?e := entry (rev ?xs) (-1), nat (hd ?ys) := ?e]"
  have dc: "dchain ?nx ?pr (?xs @ [?e] @ ?ys)"
    using relink [of "r_piNext L" "r_piPrior L" ?xs "[?c]" ?ys "[?e]"
        "(r_piNext L)[nat ?e := entry ?ys (-1)]" "(r_piPrior L)[nat ?e := entry (rev ?xs) (-1)]"] D(3,4,9) S(3,4)
    by (auto simp: in_range_def nth_upd_if cong: if_cong)
  have iv: "iv_ok ?N (pre @ (a + 1, b) # post)" and sep: "separate (pre @ (a + 1, b) # post)"
    using iv_ok_split [OF D(5,6) order_refl lt] iv_ok_subset [of ?N pre "(a, a)" "(a + 1, b) # post"]
    by (simp_all add: separate_def sorted_wrt_append)
  let ?L = "L\<lparr>r_piData1 := (r_piData1 L)[nat ?e := wrap (a + 1), nat ?c := -1],
    r_piData2 := (r_piData2 L)[nat ?e := (if a + 1 = b then -1 else wrap b), nat ?c := -1], r_piNext := ?nx, r_piPrior := ?pr,
    r_iHead := (if ?xs = [] then ?e else r_iHead L), r_iTail := (if ?ys = [] then ?e else r_iTail L)\<rparr>"
  have "rcv_rep d (pre @ (a + 1, b) # post) (rcv_addLength (-1) ?L)"
    by (rule rcv_rep_new [OF R iv sep])
      (use D dc holds_fun_upd2 [OF D(7,1) S(6)] holds_fun_upd2 [OF D(8,1) S(6)] in \<open>auto simp: rcv_addLength_def entry_hd\<close>)
  moreover have "rcv_advance ?c L = Some ?L"
  proof -
    have nyb: "near b (a + 1)" using iv_okD(2) [OF D(5), of a b a b] D(2) lt by (simp add: near_def)
    have d2: "(r_piData2 L)[nat ?e := -1] = r_piData2 L" using holds_same [OF D(8,1), of "a + 1" "-1"] S(1) by simp
    have er: "0 \<le> ?e" "nat ?e < nat ?N" using cell_range [OF D(1), of d "a + 1"] D(1) by simp_all
    have setd2: "(if seqcmp (wrap b) (wrap (a + 1)) > 0 then setData2 ?e (wrap b) L1 else Some L1) =
      Some (L1\<lparr>r_piData2 := (r_piData2 L)[nat ?e := (if a + 1 = b then -1 else wrap b)]\<rparr>)"
      if "r_piData2 L1 = r_piData2 L" for L1 :: rcv_loss
      using that seqcmp_wrap(2) [OF nyb] lt d2 ln D(1) by (auto simp: set_ok)
    have hd: "r_iHead L = ?c \<longleftrightarrow> pre = []"
      using D(11) S(3) by (cases pre) (auto simp: cells_def)
    have tl: "r_iTail L = ?c \<longleftrightarrow> post = []"
      using D(12) S(3) by (cases post rule: rev_cases) (auto simp: cells_def)
    note base = rcv_advance_def Let_def set_ok cell_next incseq_wrap' rd_upd_other [OF ce] rd_upd_same [OF er(1)] setd2
    show ?thesis
    proof (cases pre rule: rev_cases)
      case Nil
      then show ?thesis using N ln lt D(1) hd tl er ce
        by (cases post) (auto simp: base)
    next
      case (snoc pre' w)
      obtain p q where w: "w = (p, q)" by (cases w)
      have pe: "nat ?e \<noteq> nat (cell ?N d p)"
        using S(3) snoc w cell_range [OF D(1), of d p] er(1) by (auto simp: nat_eq_iff)
      show ?thesis using N ln lt D(1) hd tl er ce snoc w
        by (cases post) (auto simp: base rd_upd_other [OF pe])
    qed
  qed
  ultimately show ?thesis by auto
qed

lemma rcv_shorten_rep:
  assumes R: "rcv_rep d (pre @ (a, b) # post) L" and lt: "a < b"
  shows "\<exists>L'. rcv_shorten (cell (r_iSize L) d a) (wrap b) L = Some L' \<and>
    rcv_rep d (pre @ (a, b - 1) # post) (rcv_addLength (-1) L') \<and> r_iSize L' = r_iSize L"
proof -
  let ?N = "r_iSize L" let ?c = "cell ?N d a"
  note D = rcv_repD [OF R] and N = rcv_node [OF R] and ln = rcv_lengths [OF R]
  note tb = tab_replace [OF D(5,1), of d "b - 1"]
  have iv: "iv_ok ?N (pre @ (a, b - 1) # post)" by (rule iv_ok_shrink [OF D(5)]) (use lt in auto)
  have sep: "separate (pre @ (a, b - 1) # post)" by (rule separate_shrink [OF D(6)]) simp
  have h1: "(r_piData1 L)[nat ?c := wrap a] = r_piData1 L"
    using holds_same [OF D(7,1), of a "wrap a"] tab_here [OF D(5,1), of d] by simp
  let ?L = "L\<lparr>r_piData2 := (r_piData2 L)[nat ?c := (if a = b - 1 then -1 else wrap (b - 1))]\<rparr>"
  have eq: "wrap b = wrap (a + 1) \<longleftrightarrow> b = a + 1"
    using wrap_eq_iff [of b "a + 1"] iv_okD(2) [OF D(5), of a b a b] D(2) lt by (simp add: near_def)
  have "rcv_shorten ?c (wrap b) L = Some ?L"
    using N(1) ln eq by (auto simp: rcv_shorten_def incseq_wrap' decseq_wrap' set_ok)
  moreover have "rcv_rep d (pre @ (a, b - 1) # post) (rcv_addLength (-1) ?L)"
    by (rule rcv_rep_new [OF R iv sep])
      (use D h1 holds_fun_upd [OF D(7,1) tb] holds_fun_upd [OF D(8,1) tb] in \<open>auto simp: rcv_addLength_def\<close>)
  ultimately show ?thesis by auto
qed

lemma rcv_split_rep:
  assumes R: "rcv_rep d (pre @ (a, b) # post) L" and x: "a < x" "x < b"
  shows "\<exists>L'. rcv_split (cell (r_iSize L) d x) (cell (r_iSize L) d a) (wrap x) L = Some L' \<and>
    rcv_rep d (pre @ (a, x - 1) # (x + 1, b) # post) (rcv_addLength (-1) L') \<and> r_iSize L' = r_iSize L"
proof -
  let ?N = "r_iSize L" let ?c = "cell ?N d a" and ?e = "cell ?N d (x + 1)"
  let ?xs = "cells ?N d pre" and ?ys = "cells ?N d post" and ?vs = "pre @ (a, x - 1) # (x + 1, b) # post"
  have ax: "a \<le> x" using x by simp
  note D = rcv_repD [OF R] and N = rcv_node [OF R] and ln = rcv_lengths [OF R]
  note S = split_tables [OF D(5,6,1) ax x(2), of d]
  have ce: "nat ?c \<noteq> nat ?e" by (rule iv_cell_neq [OF D(5,1) _ ax x(2)]) simp
  let ?n1 = "(r_piNext L)[nat ?e := entry ?ys (-1), nat ?c := ?e]" and ?p1 = "(r_piPrior L)[nat ?e := ?c]"
  let ?pr = "if ?ys = [] then ?p1 else ?p1[nat (hd ?ys) := ?e]"
  have rng: "in_range (nat ?N) (?xs @ [?c, ?e] @ ?ys)" by (rule S(4))
  have same: "?n1 ! nat (last ?xs) = ?c" if "?xs \<noteq> []"
  proof -
    obtain zs z where z: "?xs = zs @ [z]" using \<open>?xs \<noteq> []\<close> by (cases ?xs rule: rev_cases) auto
    have "r_piNext L ! nat z = ?c" using D(9) z by (simp add: dchain_def)
    moreover have "z \<noteq> ?c" "z \<noteq> ?e" using S(3) z by auto
    ultimately show ?thesis using z rng D(3) by (auto simp: nth_upd_if in_range_def)
  qed
  have "dchain (if ?xs = [] then ?n1 else ?n1[nat (last ?xs) := entry ([?c, ?e] @ ?ys) (-1)])
    (if ?ys = [] then ?p1 else ?p1[nat (hd ?ys) := entry (rev [?c, ?e] @ rev ?xs) (-1)]) (?xs @ [?c, ?e] @ ?ys)"
  proof (rule relink [of "r_piNext L" "r_piPrior L" ?xs "[?c]" ?ys])
    show "dchain (r_piNext L) (r_piPrior L) (?xs @ [?c] @ ?ys)" using D(9) by simp
    show "distinct (?xs @ [?c, ?e] @ ?ys)" by (rule S(3))
    show "in_range (length ?n1) (?xs @ [?c, ?e] @ ?ys)" "in_range (length ?p1) (?xs @ [?c, ?e] @ ?ys)"
      using rng D(3,4) by simp_all
    show "\<forall>p \<in> set ?xs \<union> set ?ys. ?n1 ! nat p = r_piNext L ! nat p \<and> ?p1 ! nat p = r_piPrior L ! nat p"
      using rng S(3) D(3,4) by (auto simp: in_range_def nth_upd_if)
    show "chain ?n1 [?c, ?e] (entry ?ys (-1))"
      using rng S(2) D(3) by (simp add: in_range_def nth_upd_if)
    have "r_piPrior L ! nat ?c = entry (rev ?xs) (-1)" using D(9) by (simp add: dchain_def)
    then show "chain ?p1 (rev [?c, ?e]) (entry (rev ?xs) (-1))"
      using rng S(2) D(4) by (simp add: in_range_def nth_upd_if)
  qed
  moreover have "(if ?xs = [] then ?n1 else ?n1[nat (last ?xs) := entry ([?c, ?e] @ ?ys) (-1)]) = ?n1"
    using same list_update_id [of ?n1 "nat (last ?xs)"] by (cases "?xs = []") simp_all
  ultimately have dc: "dchain ?n1 ?pr (cells ?N d ?vs)" by (simp cong: if_cong)
  have iv: "iv_ok ?N ?vs" by (rule iv_ok_shrink [OF iv_ok_split(1) [OF D(5,6) ax x(2)]]) (use x in auto)
  have sep: "separate ?vs" by (rule separate_shrink [OF iv_ok_split(2) [OF D(5,6) ax x(2)]]) simp
  note tb = S(5) [of "x - 1"]
  have h1: "(r_piData1 L)[nat ?e := wrap (x + 1), nat ?c := wrap a] = (r_piData1 L)[nat ?e := wrap (x + 1)]"
    using holds_same [OF D(7,1), of a "wrap a"] tab_here [OF D(5,1), of d] ce by (simp add: list_update_swap)
  let ?L = "L\<lparr>r_piData1 := (r_piData1 L)[nat ?e := wrap (x + 1)],
    r_piData2 := (r_piData2 L)[nat ?e := (if x + 1 = b then -1 else wrap b), nat ?c := (if a = x - 1 then -1 else wrap (x - 1))],
    r_piNext := ?n1, r_piPrior := ?pr, r_iTail := (if ?ys = [] then ?e else r_iTail L)\<rparr>"
  have "rcv_rep d ?vs (rcv_addLength (-1) ?L)"
    by (rule rcv_rep_new [OF R iv sep])
      (use D dc h1 holds_fun_upd2 [OF D(7,1) tb] holds_fun_upd2 [OF D(8,1) tb] in \<open>auto simp: rcv_addLength_def\<close>)
  moreover have "rcv_split (cell ?N d x) ?c (wrap x) L = Some ?L"
  proof -
    have bnd: "b - a < ?N" using iv_okD(2) [OF D(5), of a b a b] by simp
    have nyb: "near b (x + 1)" "near x (a + 1)" using bnd D(2) x by (simp_all add: near_def)
    have d2: "(r_piData2 L)[nat ?e := -1] = r_piData2 L" using holds_same [OF D(8,1), of "x + 1" "-1"] S(1) by simp
    have er: "0 \<le> ?e" "nat ?e < nat ?N" using cell_range [OF D(1), of d "x + 1"] D(1) by simp_all
    have setd2: "(if seqcmp (wrap b) (wrap (x + 1)) > 0 then setData2 ?e (wrap b) L1 else Some L1) =
      Some (L1\<lparr>r_piData2 := (r_piData2 L)[nat ?e := (if x + 1 = b then -1 else wrap b)]\<rparr>)"
      if "r_piData2 L1 = r_piData2 L" for L1 :: rcv_loss
      using that seqcmp_wrap(2) [OF nyb(1)] x d2 ln D(1) by (auto simp: set_ok)
    have short: "rcv_shorten ?c (wrap x) L1 =
      Some (L1\<lparr>r_piData2 := (r_piData2 L1)[nat ?c := (if a = x - 1 then -1 else wrap (x - 1))]\<rparr>)"
      if "rd (r_piData1 L1) ?c = Some (wrap a)" "length (r_piData2 L1) = nat ?N" for L1
      using that wrap_eq_iff [OF nyb(2)] D(1) by (auto simp: rcv_shorten_def incseq_wrap' decseq_wrap' set_ok)
    have tl: "r_iTail L = ?c \<longleftrightarrow> post = []"
      using D(12) S(3) by (cases post rule: rev_cases) (auto simp: cells_def)
    note base = rcv_split_def Let_def set_ok cell_next incseq_wrap' rd_upd_other [OF ce] rd_upd_same [OF er(1)] setd2 short
      rd_upd_other [OF ce [symmetric]]
    show ?thesis using N ln x D(1) tl er ce by (cases post) (auto simp: base)
  qed
  ultimately show ?thesis by auto
qed

subsection \<open>remove\<close>

lemma rcv_back_ok:
  assumes R: "rcv_rep d us L" and us: "us = pre @ (a, b) # post" and post: "\<forall>u \<in> set post. v < fst u"
    and win: "\<forall>u \<in> set us. abs (fst u - v) < r_iSize L" and av: "a \<le> v"
  shows "rcv_back L (cell (r_iSize L) d v) = Some (cell (r_iSize L) d a)"
  using post win av
proof (induction "nat (v - a)" arbitrary: v)
  case 0
  then have "v = a" by simp
  then show ?case using rcv_node(1) [OF R [unfolded us]] by (subst rcv_back.simps) simp
next
  case (Suc n)
  let ?N = "r_iSize L"
  note D = rcv_repD [OF R]
  have av: "a < v" using Suc.hyps(2) by simp
  have "fst u < a" if "u \<in> set pre" for u using D(5) us that by (auto simp: iv_ok_def sorted_wrt_append)
  then have "v \<notin> fst ` set us" using us Suc.prems(1) av by force
  then have "tab ?N d us (cell ?N d v) = None" using tab_free [OF D(5,1)] Suc.prems(2) by blast
  then have free: "rd (r_piData1 L) (cell ?N d v) = Some (-1)" using holds_rd [OF D(7,1), of v] by simp
  have cm: "cmod (cell ?N d v - 1 + ?N) ?N = cell ?N d (v - 1)"
    using cell_off [of ?N v "v - 1" d] D(1) by (simp add: algebra_simps)
  have win: "\<forall>u \<in> set us. abs (fst u - (v - 1)) < ?N"
  proof
    fix u assume u: "u \<in> set us"
    have "fst u \<le> snd u" "a \<le> b" "snd u - a < ?N" "b - fst u < ?N"
      using D(5) u us iv_okD(2) [OF D(5), of a b "fst u" "snd u"] iv_okD(2) [OF D(5), of "fst u" "snd u" a b]
        iv_okD(1) [OF D(5), of a b] iv_okD(1) [OF D(5), of "fst u" "snd u"] by simp_all
    then show "abs (fst u - (v - 1)) < ?N" using av Suc.prems(2) u by fastforce
  qed
  have "rcv_back L (cell ?N d (v - 1)) = Some (cell ?N d a)"
  proof (rule Suc.hyps(1))
    show "n = nat (v - 1 - a)" using Suc.hyps(2) by simp
    show "\<forall>u \<in> set post. v - 1 < fst u" using Suc.prems(1) by fastforce
  qed (use win av in auto)
  then show ?case using free cm by (subst rcv_back.simps) simp
qed

lemma rcv_start_here:
  assumes "rcv_rep d us L" "\<forall>u \<in> set us. near (fst u) x"
  obtains v where "rd (r_piData1 L) (cell (r_iSize L) d x) = Some v" "wrap x = v \<longleftrightarrow> x \<in> fst ` set us"
proof -
  note D = rcv_repD [OF assms(1)]
  let ?r = "tab (r_iSize L) d us (cell (r_iSize L) d x)"
  have "wrap x = first_of ?r \<longleftrightarrow> x \<in> fst ` set us"
  proof
    assume w: "wrap x = first_of ?r"
    then obtain a b where r: "?r = Some (a, b)" by (cases ?r) auto
    then have in_us: "(a, b) \<in> set us" by (auto simp: tab_def dest!: map_of_SomeD)
    then have "near a x" using assms(2) by force
    with w r have "a = x" using wrap_eq_iff [of a x] by simp
    then show "x \<in> fst ` set us" using in_us by force
  next
    assume "x \<in> fst ` set us"
    then obtain b where "(x, b) \<in> set us" by force
    then obtain pre post where "us = pre @ (x, b) # post" by (meson split_list)
    then show "wrap x = first_of ?r" using tab_here [of _ pre x b post d] D(1,5) by simp
  qed
  then show thesis using that [OF holds_rd [OF D(7,1), of x]] by simp
qed

lemma rcv_remove_rep:
  assumes R: "rcv_rep d us L" and near: "us \<noteq> [] \<Longrightarrow> near (fst (hd us)) x \<and> x - fst (hd us) < r_iSize L"
  shows "\<exists>us' L'. rcv_remove (wrap x) L = Some (x \<in> numbers us, L') \<and> rcv_rep d us' L' \<and>
    numbers us' = numbers us - {x} \<and> r_iSize L' = r_iSize L"
proof (cases us)
  case Nil
  then show ?thesis using R rcv_repD(10) [OF R]
    by (intro exI [of _ "[]"] exI [of _ L]) (simp add: rcv_remove_def)
next
  case (Cons u r)
  obtain a1 b1 where us: "us = (a1, b1) # r" using Cons by (cases u) simp
  let ?N = "r_iSize L" let ?x = "cell ?N d x"
  have R0: "rcv_rep d ([] @ (a1, b1) # r) L" using R us by simp
  note D = rcv_repD [OF R] and nd = rcv_node [OF R0]
  have hd: "r_iHead L = cell ?N d a1" using D(11) us by simp
  have ne: "r_iLength L \<noteq> 0" using total_pos [OF D(5)] D(10) us by simp
  have nx: "near a1 x" "x - a1 < ?N" using near us by simp_all
  have h: "rd (r_piData1 L) (r_iHead L) = Some (wrap a1)" using nd(1) hd by simp
  note off = seqoff_wrap [OF nx(1)]
  have starts: "\<forall>u \<in> set us. a1 \<le> fst u \<and> fst u \<le> snd u \<and> snd u - a1 < ?N"
    using D(5) us by (auto simp: iv_ok_def)
  show ?thesis
  proof (cases "x < a1")
    case True
    then have "x \<notin> numbers us" using starts by (force simp: numbers_def)
    moreover have "rcv_remove (wrap x) L = Some (False, L)"
      using ne h off True by (simp add: rcv_remove_def Let_def)
    ultimately show ?thesis using R by auto
  next
    case False
    have nears: "\<forall>u \<in> set us. near (fst u) x" "\<forall>u \<in> set us. abs (fst u - x) < ?N"
      using starts False nx D(2) by (auto simp: near_def abs_less_iff; force)+
    have loc: "cmod (r_iHead L + (x - a1)) ?N = ?x" using cell_fwd [OF D(1)] False hd by simp
    obtain v where v: "rd (r_piData1 L) ?x = Some v" "wrap x = v \<longleftrightarrow> x \<in> fst ` set us"
      using rcv_start_here [OF R nears(1)] .
    have pos: "\<not> x - a1 < 0" using False by simp
    let ?at = "do { e \<leftarrow> rd (r_piData2 L) ?x;
            L \<leftarrow> (if e = -1 then rcv_unlink ?x L else rcv_advance ?x L);
            Some (True, rcv_addLength (-1) L) }"
    let ?in = "do { i \<leftarrow> rcv_back L (cmod (?x - 1 + ?N) ?N);
            e \<leftarrow> rd (r_piData2 L) i;
            if e = -1 \<or> seqcmp (wrap x) e > 0 then Some (False, L)
            else do {
              L \<leftarrow> (if wrap x = e then rcv_shorten i (wrap x) L else rcv_split ?x i (wrap x) L);
              Some (True, rcv_addLength (-1) L) } }"
    have red: "rcv_remove (wrap x) L = (if x \<in> fst ` set us then ?at else ?in)"
      by (simp only: rcv_remove_def if_not_P [OF ne] h Option.bind.bind_lunit Let_def off loc if_not_P [OF pos] v)
    have le: "\<forall>u \<in> set us. fst u \<le> snd u" using starts by blast
    show ?thesis
    proof (cases "x \<in> fst ` set us")
      case True
      then obtain b pre post where s: "us = pre @ (x, b) # post" by (metis imageE prod.collapse split_list)
      have R1: "rcv_rep d (pre @ (x, b) # post) L" using R s by simp
      note A = numbers_apart [OF D(6) [unfolded s] le [unfolded s]] and nd1 = rcv_node [OF R1]
      have xb: "x \<le> b" using le s by simp
      have in_us: "x \<in> numbers us" using s xb by simp
      show ?thesis
      proof (cases "x = b")
        case True
        obtain L1 where L1: "rcv_unlink ?x L = Some L1" "rcv_rep d (pre @ post) (rcv_addLength (-1) L1)" "r_iSize L1 = ?N"
          using rcv_unlink_rep [of d pre x post L] R1 True by auto
        have "numbers (pre @ post) = numbers us - {x}" using A(1,2) s True by auto
        then show ?thesis using red \<open>x \<in> fst ` set us\<close> nd1(2) True L1 in_us
          by (intro exI [of _ "pre @ post"] exI [of _ "rcv_addLength (-1) L1"]) (simp add: rcv_addLength_def)
      next
        case False
        obtain L1 where L1: "rcv_advance ?x L = Some L1" "rcv_rep d (pre @ (x + 1, b) # post) (rcv_addLength (-1) L1)"
          "r_iSize L1 = ?N"
          using rcv_advance_rep [OF R1] xb False by auto
        have "{x..b} - {x} = {x + 1..b}" by auto
        then have "numbers (pre @ (x + 1, b) # post) = numbers us - {x}" using A(1,2) s xb by auto
        then show ?thesis using red True nd1(2) False L1 in_us
          by (intro exI [of _ "pre @ (x + 1, b) # post"] exI [of _ "rcv_addLength (-1) L1"]) (simp add: rcv_addLength_def)
      qed
    next
      case False
      obtain pre a b post where s: "us = pre @ (a, b) # post" "a \<le> x" "\<forall>u \<in> set post. x < fst u"
        using split_at [OF D(5) _ us, of x] pos by (metis diff_less_0_iff_less not_less)
      have ax: "a < x" using False s by (cases "a = x") auto
      have R1: "rcv_rep d (pre @ (a, b) # post) L" using R s by simp
      note A = numbers_apart [OF D(6) [unfolded s(1)] le [unfolded s(1)]] and nd1 = rcv_node [OF R1]
      have ab: "a \<le> b" using le s by simp
      have cm: "cmod (?x - 1 + ?N) ?N = cell ?N d (x - 1)"
        using cell_off [of ?N x "x - 1" d] D(1) by (simp add: algebra_simps)
      have "rcv_back L (cell ?N d (x - 1)) = Some (cell ?N d a)"
      proof (rule rcv_back_ok [OF R s(1)])
        show "\<forall>u \<in> set post. x - 1 < fst u" using s(3) by fastforce
        show "\<forall>u \<in> set us. abs (fst u - (x - 1)) < ?N"
        proof
          fix u assume u: "u \<in> set us"
          then have "a1 \<le> fst u" "fst u \<le> snd u" "snd u - a1 < ?N" using starts by blast+
          moreover have "a1 \<le> a" using starts s(1) by auto
          ultimately show "abs (fst u - (x - 1)) < ?N" using nx(2) ax by (simp add: abs_less_iff)
        qed
      qed (use ax in auto)
      then have scan: "rcv_back L (cmod (?x - 1 + ?N) ?N) = Some (cell ?N d a)" using cm by simp
      have nxb: "near x b" using iv_okD(2) [OF D(5), of a1 b1 a b] starts nx pos s D(2) us by (auto simp: near_def abs_less_iff)
      note cmp = seqcmp_wrap(2) [OF nxb] and eq = wrap_eq_iff [OF nxb]
      have out: "x \<notin> numbers post" using s(3) le s(1) by (force simp: numbers_def)
      have out': "x \<notin> numbers pre" using A(3) [of x] ax by auto
      consider "b < x" | "b = x" | "x < b" by linarith
      then show ?thesis
      proof cases
        case 1
        then have "x \<notin> numbers us" using out out' s by simp
        moreover have "rcv_remove (wrap x) L = Some (False, L)"
          using red False scan nd1(2) cmp eq 1 by simp
        ultimately show ?thesis using R by auto
      next
        case 2
        obtain L1 where L1: "rcv_shorten (cell ?N d a) (wrap b) L = Some L1"
          "rcv_rep d (pre @ (a, b - 1) # post) (rcv_addLength (-1) L1)" "r_iSize L1 = ?N"
          using rcv_shorten_rep [OF R1] ax 2 by auto
        have "{a..b} - {b} = {a..b - 1}" by auto
        then have "numbers (pre @ (a, b - 1) # post) = numbers us - {x}" using out out' s(1) 2 by auto
        moreover have "rcv_remove (wrap x) L = Some (True, rcv_addLength (-1) L1)"
          using red False scan nd1(2) cmp 2 L1(1) ax by simp
        ultimately show ?thesis using L1 s(1) 2 ab
          by (intro exI [of _ "pre @ (a, b - 1) # post"] exI [of _ "rcv_addLength (-1) L1"]) (simp add: rcv_addLength_def)
      next
        case 3
        obtain L1 where L1: "rcv_split ?x (cell ?N d a) (wrap x) L = Some L1"
          "rcv_rep d (pre @ (a, x - 1) # (x + 1, b) # post) (rcv_addLength (-1) L1)" "r_iSize L1 = ?N"
          using rcv_split_rep [OF R1 ax 3] by auto
        have "{a..b} - {x} = {a..x - 1} \<union> {x + 1..b}" using ax 3 by auto
        then have "numbers (pre @ (a, x - 1) # (x + 1, b) # post) = numbers us - {x}" using out out' s(1) by auto
        moreover have "rcv_remove (wrap x) L = Some (True, rcv_addLength (-1) L1)"
          using red False scan nd1(2) cmp eq 3 L1(1) ax by simp
        ultimately show ?thesis using L1 s(1) 3 ax
          by (intro exI [of _ "pre @ (a, x - 1) # (x + 1, b) # post"] exI [of _ "rcv_addLength (-1) L1"])
            (simp add: rcv_addLength_def)
      qed
    qed
  qed
qed

end
