(* ===== verification/UdtSndLossList.thy ===== *)
theory UdtSndLossList
  imports UdtMem
begin

section \<open>UDT: the sender's loss list\<close>

text \<open>
  \<open>CSndLossList\<close> of \<open>udt4/src/list.cpp\<close>: the lost sequence numbers as intervals in three
  parallel arrays, an interval at the index its first number has relative to the head. The
  list is linked through \<open>m_piNext\<close>; \<open>-1\<close> marks an empty cell, an interval of one number
  and the end of the list. The mutex (\<open>CGuard\<close>) makes each operation one step.
\<close>

record snd_loss =
  m_piData1 :: "int list"
  m_piData2 :: "int list"
  m_piNext :: "int list"
  m_iHead :: int
  m_iLength :: int
  m_iSize :: int
  m_iLastInsertPos :: int

text \<open>\<open>new int [m_iSize]\<close> leaves \<open>m_piNext\<close> uninitialised: its contents are an argument.\<close>

definition CSndLossList :: "int \<Rightarrow> int list \<Rightarrow> snd_loss" where
  "CSndLossList siz uninit =
     \<lparr>m_piData1 = replicate (nat siz) (-1), m_piData2 = replicate (nat siz) (-1), m_piNext = uninit,
      m_iHead = -1, m_iLength = 0, m_iSize = siz, m_iLastInsertPos = -1\<rparr>"

definition putData1 :: "int \<Rightarrow> int \<Rightarrow> snd_loss \<Rightarrow> snd_loss option" where
  "putData1 i v L = map_option (\<lambda>d. L\<lparr>m_piData1 := d\<rparr>) (wr (m_piData1 L) i v)"

definition putData2 :: "int \<Rightarrow> int \<Rightarrow> snd_loss \<Rightarrow> snd_loss option" where
  "putData2 i v L = map_option (\<lambda>d. L\<lparr>m_piData2 := d\<rparr>) (wr (m_piData2 L) i v)"

definition putNext :: "int \<Rightarrow> int \<Rightarrow> snd_loss \<Rightarrow> snd_loss option" where
  "putNext i v L = map_option (\<lambda>d. L\<lparr>m_piNext := d\<rparr>) (wr (m_piNext L) i v)"

text \<open>\<open>m_piData1[i] = seqno1; if (seqno2 != seqno1) m_piData2[i] = seqno2;\<close>\<close>

definition putNode :: "int \<Rightarrow> int \<Rightarrow> int \<Rightarrow> snd_loss \<Rightarrow> snd_loss option" where
  "putNode i seqno1 seqno2 L =
     do { L \<leftarrow> putData1 i seqno1 L;
          if seqno2 \<noteq> seqno1 then putData2 i seqno2 L else Some L }"

definition addLength :: "int \<Rightarrow> snd_loss \<Rightarrow> snd_loss" where
  "addLength k L = L\<lparr>m_iLength := m_iLength L + k\<rparr>"

text \<open>\<open>if (m_iLastInsertPos == p) m_iLastInsertPos = -1;\<close>\<close>

definition snd_forget :: "int \<Rightarrow> snd_loss \<Rightarrow> snd_loss" where
  "snd_forget p L = (if m_iLastInsertPos L = p then L\<lparr>m_iLastInsertPos := -1\<rparr> else L)"

subsection \<open>insert\<close>

text \<open>The search for the last node before \<open>seqno\<close>, from node \<open>i\<close> on.\<close>

partial_function (option) snd_prior :: "snd_loss \<Rightarrow> int \<Rightarrow> int \<Rightarrow> int option" where
  "snd_prior L seqno i =
     do { n \<leftarrow> rd (m_piNext L) i;
          if n = -1 then Some i
          else do { d \<leftarrow> rd (m_piData1 L) n;
                    if seqcmp d seqno < 0 then snd_prior L seqno n else Some i } }"

text \<open>
  One round of the loop that merges node \<open>loc\<close> with the nodes after it: \<open>None\<close> when the
  loop ends. Then the loop.
\<close>

definition snd_merge :: "int \<Rightarrow> snd_loss \<Rightarrow> snd_loss option option" where
  "snd_merge loc L =
     do { i \<leftarrow> rd (m_piNext L) loc;
          e \<leftarrow> rd (m_piData2 L) loc;
          if i = -1 \<or> e = -1 then Some None
          else do {
            a \<leftarrow> rd (m_piData1 L) i;
            if seqcmp a (incseq e) \<le> 0 then do {
              b \<leftarrow> rd (m_piData2 L) i;
              L \<leftarrow> (if b \<noteq> -1 then
                       if seqcmp b e > 0
                       then putData2 loc b (if seqcmp e a \<ge> 0 then addLength (- seqlen a e) L else L)
                       else Some (addLength (- seqlen a b) L)
                     else if a = incseq e then putData2 loc a L
                     else Some (addLength (-1) L));
              L \<leftarrow> putData1 i (-1) L;
              L \<leftarrow> putData2 i (-1) L;
              n \<leftarrow> rd (m_piNext L) i;
              L \<leftarrow> putNext loc n L;
              Some (Some L) }
            else Some None } }"

partial_function (option) snd_coalesce :: "int \<Rightarrow> snd_loss \<Rightarrow> snd_loss option" where
  "snd_coalesce loc L =
     do { r \<leftarrow> snd_merge loc L;
          case r of None \<Rightarrow> Some L | Some L1 \<Rightarrow> snd_coalesce loc L1 }"

definition snd_insert_empty :: "int \<Rightarrow> int \<Rightarrow> snd_loss \<Rightarrow> snd_loss option" where
  "snd_insert_empty seqno1 seqno2 L =
     do { L \<leftarrow> putNode 0 seqno1 seqno2 (L\<lparr>m_iHead := 0\<rparr>);
          L \<leftarrow> putNext 0 (-1) L;
          Some (addLength (seqlen seqno1 seqno2) (L\<lparr>m_iLastInsertPos := 0\<rparr>)) }"

text \<open>
  The branches before the final loop. Each gives the node to merge from, or \<open>None\<close> for
  the early \<open>return 0\<close>.
\<close>

definition snd_insert_before :: "int \<Rightarrow> int \<Rightarrow> int \<Rightarrow> snd_loss \<Rightarrow> (int option \<times> snd_loss) option" where
  "snd_insert_before loc seqno1 seqno2 L =
     do { L \<leftarrow> putNode loc seqno1 seqno2 L;
          L \<leftarrow> putNext loc (m_iHead L) L;
          Some (Some loc, addLength (seqlen seqno1 seqno2) (L\<lparr>m_iHead := loc, m_iLastInsertPos := loc\<rparr>)) }"

definition snd_insert_same :: "int \<Rightarrow> int \<Rightarrow> int \<Rightarrow> snd_loss \<Rightarrow> (int option \<times> snd_loss) option" where
  "snd_insert_same loc seqno1 seqno2 L =
     do { e \<leftarrow> rd (m_piData2 L) loc;
          if e = -1 then
            if seqno2 \<noteq> seqno1
            then do { L \<leftarrow> putData2 loc seqno2 L;
                      Some (Some loc, addLength (seqlen seqno1 seqno2 - 1) L) }
            else Some (Some loc, L)
          else if seqcmp seqno2 e > 0
          then do { L \<leftarrow> putData2 loc seqno2 L;
                    Some (Some loc, addLength (seqlen e seqno2 - 1) L) }
          else Some (None, L) }"

definition snd_insert_new :: "int \<Rightarrow> int \<Rightarrow> int \<Rightarrow> snd_loss \<Rightarrow> (int option \<times> snd_loss) option" where
  "snd_insert_new loc seqno1 seqno2 L =
     do { fromLast \<leftarrow> (if m_iLastInsertPos L \<noteq> -1
                       then map_option (\<lambda>d. seqcmp d seqno1 < 0) (rd (m_piData1 L) (m_iLastInsertPos L))
                       else Some False);
          i \<leftarrow> snd_prior L seqno1 (if fromLast then m_iLastInsertPos L else m_iHead L);
          e \<leftarrow> rd (m_piData2 L) i;
          if e = -1 \<or> seqcmp e seqno1 < 0 then do {
            L \<leftarrow> putNode loc seqno1 seqno2 (L\<lparr>m_iLastInsertPos := loc\<rparr>);
            n \<leftarrow> rd (m_piNext L) i;
            L \<leftarrow> putNext loc n L;
            L \<leftarrow> putNext i loc L;
            Some (Some loc, addLength (seqlen seqno1 seqno2) L) }
          else if seqcmp e seqno2 < 0 then do {
            L \<leftarrow> putData2 i seqno2 (L\<lparr>m_iLastInsertPos := i\<rparr>);
            Some (Some i, addLength (seqlen e seqno2 - 1) L) }
          else Some (None, L\<lparr>m_iLastInsertPos := i\<rparr>) }"

definition snd_insert_head :: "int \<Rightarrow> int \<Rightarrow> int \<Rightarrow> snd_loss \<Rightarrow> (int option \<times> snd_loss) option" where
  "snd_insert_head loc seqno1 seqno2 L =
     do { let L = L\<lparr>m_iLastInsertPos := m_iHead L\<rparr>;
          if seqno2 \<noteq> seqno1 then do {
            e \<leftarrow> rd (m_piData2 L) loc;
            if e = -1 then do {
              L \<leftarrow> putData2 loc seqno2 L;
              Some (Some loc, addLength (seqlen seqno1 seqno2 - 1) L) }
            else if seqcmp seqno2 e > 0 then do {
              L \<leftarrow> putData2 loc seqno2 L;
              Some (Some loc, addLength (seqlen e seqno2 - 1) L) }
            else Some (None, L) }
          else Some (None, L) }"

definition snd_insert :: "int \<Rightarrow> int \<Rightarrow> snd_loss \<Rightarrow> (int \<times> snd_loss) option" where
  "snd_insert seqno1 seqno2 L =
     (if m_iLength L = 0
      then map_option (\<lambda>L. (m_iLength L, L)) (snd_insert_empty seqno1 seqno2 L)
      else do {
        h \<leftarrow> rd (m_piData1 L) (m_iHead L);
        let offset = seqoff h seqno1;
        let loc = cmod (m_iHead L + offset + m_iSize L) (m_iSize L);
        (r, L1) \<leftarrow>
          (if offset < 0 then snd_insert_before loc seqno1 seqno2 L
           else if offset > 0 then do {
             d \<leftarrow> rd (m_piData1 L) loc;
             if seqno1 = d then snd_insert_same loc seqno1 seqno2 (L\<lparr>m_iLastInsertPos := loc\<rparr>)
             else snd_insert_new loc seqno1 seqno2 L }
           else snd_insert_head loc seqno1 seqno2 L);
        case r of None \<Rightarrow> Some (0, L1)
        | Some p \<Rightarrow> map_option (\<lambda>L2. (m_iLength L2 - m_iLength L, L2)) (snd_coalesce p L1) })"

subsection \<open>remove\<close>

text \<open>The numbers after \<open>seqno\<close> of an interval that ends in \<open>e\<close> move to the node \<open>loc\<close>.\<close>

definition putRest :: "int \<Rightarrow> int \<Rightarrow> int \<Rightarrow> snd_loss \<Rightarrow> snd_loss option" where
  "putRest loc seqno e L =
     do { L \<leftarrow> putData1 loc (incseq seqno) L;
          if seqcmp e (incseq seqno) > 0 then putData2 loc e L else Some L }"

text \<open>The last loop of \<open>remove\<close>: it clears the nodes from \<open>h\<close> up to the new head.\<close>

partial_function (option) snd_clear :: "int \<Rightarrow> snd_loss \<Rightarrow> snd_loss option" where
  "snd_clear h L =
     (if h = m_iHead L then Some L
      else do {
        e \<leftarrow> rd (m_piData2 L) h;
        a \<leftarrow> rd (m_piData1 L) h;
        L \<leftarrow> (if e \<noteq> -1 then putData2 h (-1) (addLength (- seqlen a e) L)
                else Some (addLength (-1) L));
        L \<leftarrow> putData1 h (-1) L;
        let L = snd_forget h L;
        n \<leftarrow> rd (m_piNext L) h;
        snd_clear n L })"

definition snd_remove_head :: "int \<Rightarrow> int \<Rightarrow> snd_loss \<Rightarrow> snd_loss option" where
  "snd_remove_head loc seqno L =
     do { let loc = cmod (loc + 1) (m_iSize L);
          e \<leftarrow> rd (m_piData2 L) (m_iHead L);
          (loc, L) \<leftarrow>
            (if e = -1 then map_option (\<lambda>n. (n, L)) (rd (m_piNext L) (m_iHead L))
             else do {
               L \<leftarrow> putRest loc seqno e L;
               L \<leftarrow> putData2 (m_iHead L) (-1) L;
               n \<leftarrow> rd (m_piNext L) (m_iHead L);
               L \<leftarrow> putNext loc n L;
               Some (loc, L) });
          L \<leftarrow> putData1 (m_iHead L) (-1) L;
          let L = snd_forget (m_iHead L) L;
          Some (addLength (-1) (L\<lparr>m_iHead := loc\<rparr>)) }"

text \<open>The two ways \<open>remove\<close> sets the new head when \<open>seqno\<close> is past the old one.\<close>

definition snd_remove_at :: "int \<Rightarrow> int \<Rightarrow> snd_loss \<Rightarrow> snd_loss option" where
  "snd_remove_at temp seqno L =
     do { let loc = cmod (temp + 1) (m_iSize L);
          e \<leftarrow> rd (m_piData2 L) temp;
          if e = -1 then map_option (\<lambda>n. L\<lparr>m_iHead := n\<rparr>) (rd (m_piNext L) temp)
          else do {
            L \<leftarrow> putRest loc seqno e L;
            let L = L\<lparr>m_iHead := loc\<rparr>;
            n \<leftarrow> rd (m_piNext L) temp;
            L \<leftarrow> putNext loc n L;
            L \<leftarrow> putNext temp loc L;
            putData2 temp (-1) L } }"

definition snd_remove_inside :: "int \<Rightarrow> int \<Rightarrow> snd_loss \<Rightarrow> snd_loss option" where
  "snd_remove_inside loc seqno L =
     do { i \<leftarrow> snd_prior L seqno (m_iHead L);
          let loc = cmod (loc + 1) (m_iSize L);
          e \<leftarrow> rd (m_piData2 L) i;
          if e \<noteq> -1 \<and> seqcmp e seqno > 0 then do {
            L \<leftarrow> putRest loc seqno e L;
            L \<leftarrow> putData2 i seqno L;
            n \<leftarrow> rd (m_piNext L) i;
            L \<leftarrow> putNext loc n L;
            L \<leftarrow> putNext i loc L;
            Some (L\<lparr>m_iHead := loc\<rparr>) }
          else map_option (\<lambda>n. L\<lparr>m_iHead := n\<rparr>) (rd (m_piNext L) i) }"

definition snd_remove :: "int \<Rightarrow> snd_loss \<Rightarrow> snd_loss option" where
  "snd_remove seqno L =
     (if m_iLength L = 0 then Some L
      else do {
        h \<leftarrow> rd (m_piData1 L) (m_iHead L);
        let offset = seqoff h seqno;
        let loc = cmod (m_iHead L + offset + m_iSize L) (m_iSize L);
        if offset = 0 then snd_remove_head loc seqno L
        else if offset > 0 then do {
          d \<leftarrow> rd (m_piData1 L) loc;
          L1 \<leftarrow> (if seqno = d then snd_remove_at loc seqno L else snd_remove_inside loc seqno L);
          snd_clear (m_iHead L) L1 }
        else Some L })"

subsection \<open>Reading\<close>

definition snd_getLossLength :: "snd_loss \<Rightarrow> int" where
  "snd_getLossLength L = m_iLength L"

definition getLostSeq :: "snd_loss \<Rightarrow> (int \<times> snd_loss) option" where
  "getLostSeq L =
     (if m_iLength L = 0 then Some (-1, L)
      else do {
        let L = snd_forget (m_iHead L) L;
        seqno \<leftarrow> rd (m_piData1 L) (m_iHead L);
        e \<leftarrow> rd (m_piData2 L) (m_iHead L);
        L \<leftarrow>
          (if e = -1 then do {
             L \<leftarrow> putData1 (m_iHead L) (-1) L;
             n \<leftarrow> rd (m_piNext L) (m_iHead L);
             Some (L\<lparr>m_iHead := n\<rparr>) }
           else do {
             let loc = cmod (m_iHead L + 1) (m_iSize L);
             L \<leftarrow> putRest loc seqno e L;
             L \<leftarrow> putData1 (m_iHead L) (-1) L;
             L \<leftarrow> putData2 (m_iHead L) (-1) L;
             n \<leftarrow> rd (m_piNext L) (m_iHead L);
             L \<leftarrow> putNext loc n L;
             Some (L\<lparr>m_iHead := loc\<rparr>) });
        Some (seqno, addLength (-1) L) })"

end
