(* ===== verification/UdtSndLossSpec.thy ===== *)
theory UdtSndLossSpec
  imports UdtSndLossList UdtIntervals
begin

section \<open>UDT: what the sender's loss list stores\<close>

text \<open>
  \<open>snd_core d us L\<close>: the arrays of \<open>L\<close> hold the intervals \<open>us\<close>, linked in this order;
  \<open>snd_rep\<close> adds the head and that the intervals do not overlap. Every operation is shown
  to return (\<open>Some\<close>) and to act on \<open>us\<close> as it should; the properties rest on these lemmas.
\<close>

definition snd_core :: "int \<Rightarrow> ivs \<Rightarrow> snd_loss \<Rightarrow> bool" where
  "snd_core d us L \<longleftrightarrow> (let N = m_iSize L in
     0 < N \<and> N < m_iSeqNoTH \<and> length (m_piNext L) = nat N \<and> iv_ok N us \<and>
     holds N d first_of (m_piData1 L) us \<and> holds N d last_of (m_piData2 L) us \<and>
     chain (m_piNext L) (cells N d us) (-1) \<and> m_iLength L = total us \<and>
     (m_iLastInsertPos L = -1 \<or> m_iLastInsertPos L \<in> set (cells N d us)))"

definition snd_rep :: "int \<Rightarrow> ivs \<Rightarrow> snd_loss \<Rightarrow> bool" where
  "snd_rep d us L \<longleftrightarrow> snd_core d us L \<and> separate us \<and> m_iHead L = entry (cells (m_iSize L) d us) (-1)"

lemma snd_coreD:
  assumes "snd_core d us L"
  shows "0 < m_iSize L" "m_iSize L < m_iSeqNoTH" "length (m_piNext L) = nat (m_iSize L)"
    "iv_ok (m_iSize L) us" "holds (m_iSize L) d first_of (m_piData1 L) us"
    "holds (m_iSize L) d last_of (m_piData2 L) us" "chain (m_piNext L) (cells (m_iSize L) d us) (-1)"
    "m_iLength L = total us" "m_iLastInsertPos L = -1 \<or> m_iLastInsertPos L \<in> set (cells (m_iSize L) d us)"
  using assms by (simp_all add: snd_core_def Let_def)

lemma new_snd_rep:
  assumes "0 < n" "n < m_iSeqNoTH" "length g = nat n"
  shows "snd_rep d [] (CSndLossList n g)"
  using assms by (simp add: snd_rep_def snd_core_def CSndLossList_def iv_ok_def holds_def separate_def)

text \<open>Reading the node of an interval.\<close>

lemma snd_node:
  assumes "snd_core d (pre @ (a, b) # post) L"
  shows "rd (m_piData1 L) (cell (m_iSize L) d a) = Some (wrap a)"
    "rd (m_piData2 L) (cell (m_iSize L) d a) = Some (if a = b then -1 else wrap b)"
    "rd (m_piNext L) (cell (m_iSize L) d a) = Some (entry (cells (m_iSize L) d post) (-1))"
proof -
  note D = snd_coreD [OF assms]
  note T = tab_here [OF D(4) D(1), of d]
  show "rd (m_piData1 L) (cell (m_iSize L) d a) = Some (wrap a)"
    using holds_rd [OF D(5) D(1)] T by simp
  show "rd (m_piData2 L) (cell (m_iSize L) d a) = Some (if a = b then -1 else wrap b)"
    using holds_rd [OF D(6) D(1)] T by simp
  show "rd (m_piNext L) (cell (m_iSize L) d a) = Some (entry (cells (m_iSize L) d post) (-1))"
    using D(1,3,7) cell_range [of "m_iSize L" d a] by (simp add: rd_def)
qed

lemma put_ok [udt_mem]:
  assumes "0 < N"
  shows "length (m_piData1 L) = nat N \<Longrightarrow> putData1 (cell N d u) v L =
      Some (L\<lparr>m_piData1 := (m_piData1 L)[nat (cell N d u) := v]\<rparr>)"
    "length (m_piData2 L) = nat N \<Longrightarrow> putData2 (cell N d u) v L =
      Some (L\<lparr>m_piData2 := (m_piData2 L)[nat (cell N d u) := v]\<rparr>)"
    "length (m_piNext L) = nat N \<Longrightarrow> putNext (cell N d u) v L =
      Some (L\<lparr>m_piNext := (m_piNext L)[nat (cell N d u) := v]\<rparr>)"
  using assms cell_range [of N d u] by (simp_all add: putData1_def putData2_def putNext_def wr_def)

lemma snd_lengths:
  assumes "snd_core d us L"
  shows "length (m_piData1 L) = nat (m_iSize L)" "length (m_piData2 L) = nat (m_iSize L)"
    "length (m_piNext L) = nat (m_iSize L)" "0 < m_iSize L"
  using snd_coreD [OF assms] holds_length by blast+

subsection \<open>The three changes of the stored intervals\<close>

text \<open>Dropping the first interval: its cell is cleared, the links of the others stay.\<close>

lemma snd_core_drop:
  assumes "snd_core d ((a, b) # us) L"
  shows "snd_core d us
    (L\<lparr>m_piData1 := (m_piData1 L)[nat (cell (m_iSize L) d a) := -1],
       m_piData2 := (m_piData2 L)[nat (cell (m_iSize L) d a) := -1],
       m_iLength := m_iLength L - (b - a + 1),
       m_iLastInsertPos := (if m_iLastInsertPos L = cell (m_iSize L) d a then -1 else m_iLastInsertPos L)\<rparr>)"
proof -
  note D = snd_coreD [OF assms]
  have iv: "iv_ok (m_iSize L) ([] @ (a, b) # us)" using D(4) by simp
  have t: "tab (m_iSize L) d us = (tab (m_iSize L) d ((a, b) # us))(cell (m_iSize L) d a := None)"
    using tab_del [of "m_iSize L" d a "[]" us] iv_start_notin [OF iv D(1)] by simp
  have "iv_ok (m_iSize L) us" using iv_ok_subset [OF iv] by simp
  moreover have "holds (m_iSize L) d first_of ((m_piData1 L)[nat (cell (m_iSize L) d a) := -1]) us"
    using holds_fun_upd [OF D(5) D(1) t] by simp
  moreover have "holds (m_iSize L) d last_of ((m_piData2 L)[nat (cell (m_iSize L) d a) := -1]) us"
    using holds_fun_upd [OF D(6) D(1) t] by simp
  ultimately show ?thesis using D by (auto simp: snd_core_def)
qed

text \<open>Splitting an interval after the number \<open>x\<close>.\<close>

lemma snd_core_split:
  assumes "snd_core d (pre @ (a, b) # post) L" "separate (pre @ (a, b) # post)" "a \<le> x" "x < b"
  defines "N \<equiv> m_iSize L"
  shows "snd_core d (pre @ (a, x) # (x + 1, b) # post)
    (L\<lparr>m_piData1 := (m_piData1 L)[nat (cell N d (x + 1)) := wrap (x + 1)],
       m_piData2 := (m_piData2 L)[nat (cell N d (x + 1)) := (if x + 1 = b then -1 else wrap b),
          nat (cell N d a) := (if a = x then -1 else wrap x)],
       m_piNext := (m_piNext L)[nat (cell N d (x + 1)) := entry (cells N d post) (-1),
          nat (cell N d a) := cell N d (x + 1)]\<rparr>)"
    and "tab N d (pre @ (a, b) # post) (cell N d (x + 1)) = None"
    and "iv_ok N (pre @ (a, x) # (x + 1, b) # post)"
proof -
  let ?us = "pre @ (a, b) # post" and ?vs = "pre @ (a, x) # (x + 1, b) # post"
  let ?c = "cell N d a" and ?e = "cell N d (x + 1)"
  note D = snd_coreD [OF assms(1), folded N_def]
  have iv: "iv_ok N ?vs"
    using iv_ok_split(1) [OF D(4) assms(2-4)] .
  then show "iv_ok N ?vs" .
  have iv': "iv_ok N ((pre @ [(a, x)]) @ (x + 1, b) # post)" using iv by simp
  have na: "?c \<notin> set (cells N d pre)" "?c \<notin> set (cells N d post)" "?e \<noteq> ?c"
    and nx: "?e \<notin> set (cells N d pre)" "?e \<notin> set (cells N d post)"
    using cell_notin [OF iv' D(1), of d] cell_notin [OF iv D(1), of d] by auto
  have ta: "tab N d (pre @ (a, y) # zs) = (tab N d (pre @ zs))(?c \<mapsto> (a, y))" for y zs
    by (rule tab_mid) (use na in \<open>simp add: set_cells\<close>)
  have tx: "tab N d (pre @ (x + 1, b) # post) = (tab N d (pre @ post))(?e \<mapsto> (x + 1, b))"
    by (rule tab_mid) (use nx in \<open>simp add: set_cells\<close>)
  have "tab N d (pre @ post) ?e = None" using nx by (auto simp: dom_tab set_cells)
  then show free: "tab N d ?us ?e = None" using na(3) by (simp add: ta)
  let ?ws = "pre @ (a, x) # post"
  have t1: "tab N d ((pre @ [(a, x)]) @ (x + 1, b) # post) = (tab N d ?us)(?e := Some (x + 1, b), ?c := Some (a, x))"
    using na(3) by (simp add: ta tx fun_upd_twist)
  have h2: "holds N d last_of ((m_piData2 L)[nat ?e := last_of (Some (x + 1, b)), nat ?c := last_of (Some (a, x))]) ?vs"
  proof -
    have "holds N d last_of ((m_piData2 L)[nat ?e := last_of (Some (x + 1, b))]) (pre @ (a, b) # (x + 1, b) # post)"
      by (rule holds_fun_upd [OF D(6) D(1)]) (use na(3) in \<open>simp add: ta tx fun_upd_twist\<close>)
    then show ?thesis
      by (rule holds_fun_upd [OF _ D(1)]) (simp add: ta)
  qed
  have h1: "holds N d first_of ((m_piData1 L)[nat ?e := first_of (Some (x + 1, b))]) ?vs"
  proof -
    have "holds N d first_of ((m_piData1 L)[nat ?e := first_of (Some (x + 1, b))]) (pre @ (a, b) # (x + 1, b) # post)"
      by (rule holds_fun_upd [OF D(5) D(1)]) (use na(3) in \<open>simp add: ta tx fun_upd_twist\<close>)
    then have "holds N d first_of ((m_piData1 L)[nat ?e := first_of (Some (x + 1, b)), nat ?c := first_of (Some (a, x))]) ?vs"
      by (rule holds_fun_upd [OF _ D(1)]) (simp add: ta)
    moreover have "(m_piData1 L)[nat ?e := first_of (Some (x + 1, b)), nat ?c := first_of (Some (a, x))] =
      (m_piData1 L)[nat ?e := first_of (Some (x + 1, b))]"
      using holds_same [OF D(5) D(1), of a "wrap a"] na(3) cell_range [OF D(1), of d a] cell_range [OF D(1), of d "x + 1"]
      by (simp add: ta list_update_swap)
    ultimately show ?thesis by simp
  qed
  have "chain ((m_piNext L)[nat ?e := entry (cells N d post) (-1), nat ?c := ?e]) (cells N d ?vs) (-1)"
    using D(1,3,7) na nx cell_range [OF D(1), of d a] cell_range [OF D(1), of d "x + 1"]
      cells_nonneg [OF D(1), of d pre] cells_nonneg [OF D(1), of d post]
    by (simp add: chain_upd nth_list_update nat_eq_iff)
  then show "snd_core d ?vs
    (L\<lparr>m_piData1 := (m_piData1 L)[nat ?e := wrap (x + 1)],
       m_piData2 := (m_piData2 L)[nat ?e := (if x + 1 = b then -1 else wrap b), nat ?c := (if a = x then -1 else wrap x)],
       m_piNext := (m_piNext L)[nat ?e := entry (cells N d post) (-1), nat ?c := ?e]\<rparr>)"
    using D iv h1 h2 by (auto simp: snd_core_def N_def [symmetric])
qed

subsection \<open>getLostSeq\<close>

text \<open>
  \<open>putRest\<close> writes the second half of a split; the caller writes the first half and the links.
\<close>

lemma putRest_ok:
  assumes "snd_core d (pre @ (a, b) # post) L" "separate (pre @ (a, b) # post)" "a \<le> x" "x < b"
  defines "c \<equiv> cell (m_iSize L) d (x + 1)"
  shows "putRest c (wrap x) (wrap b) L =
    Some (L\<lparr>m_piData1 := (m_piData1 L)[nat c := wrap (x + 1)],
            m_piData2 := (m_piData2 L)[nat c := (if x + 1 = b then -1 else wrap b)]\<rparr>)"
proof -
  note D = snd_coreD [OF assms(1)] and S = snd_core_split(2) [OF assms(1-4), folded c_def]
  have "near b (x + 1)"
    using iv_okD(2) [OF D(4), of a b a b] D(2) assms(3,4) by (simp add: near_def)
  note cmp = seqcmp_wrap(2) [OF this]
  have "(m_piData2 L)[nat c := -1] = m_piData2 L"
    using holds_same [OF D(6) D(1), of "x + 1" "-1"] S by (simp add: c_def)
  then show ?thesis
    using assms(4) snd_lengths [OF assms(1)] cmp
    by (auto simp: putRest_def c_def incseq_wrap' put_ok)
qed

lemma snd_core_next:
  assumes "snd_core d us L" "p \<notin> set (cells (m_iSize L) d us)" "0 \<le> p"
  shows "snd_core d us (L\<lparr>m_piNext := (m_piNext L)[nat p := v]\<rparr>)"
  using assms cells_nonneg by (auto simp: snd_core_def Let_def chain_upd)

lemma snd_core_eq:
  assumes "snd_core d us L" "m_piData1 L' = m_piData1 L" "m_piData2 L' = m_piData2 L"
    "chain (m_piNext L') (cells (m_iSize L) d us) (-1)" "length (m_piNext L') = length (m_piNext L)"
    "m_iLength L' = m_iLength L" "m_iSize L' = m_iSize L" "m_iLastInsertPos L' = m_iLastInsertPos L"
  shows "snd_core d us L'"
  using assms by (simp add: snd_core_def Let_def)

fun pop_number :: "ivs \<Rightarrow> ivs" where
  "pop_number [] = []"
| "pop_number ((a, b) # us) = (if a = b then us else (a + 1, b) # us)"

lemma separate_tl: "separate (u # us) \<Longrightarrow> separate us"
  by (simp add: separate_def)

lemma separate_pop: "separate us \<Longrightarrow> separate (pop_number us)"
  by (cases us rule: pop_number.cases) (auto simp: separate_def)

text \<open>The first number is returned and taken off.\<close>

lemma snd_forget_fields [simp]:
  "m_piData1 (snd_forget p L) = m_piData1 L" "m_piData2 (snd_forget p L) = m_piData2 L"
  "m_piNext (snd_forget p L) = m_piNext L" "m_iSize (snd_forget p L) = m_iSize L"
  "m_iHead (snd_forget p L) = m_iHead L" "m_iLength (snd_forget p L) = m_iLength L"
  by (simp_all add: snd_forget_def)

lemma snd_core_forget: "snd_core d us L \<Longrightarrow> snd_core d us (snd_forget p L)"
  by (auto simp: snd_core_def snd_forget_def Let_def)

lemma snd_forget_last: "m_iLastInsertPos (snd_forget p L) = p \<Longrightarrow> p = -1"
  by (auto simp: snd_forget_def split: if_splits)

lemma snd_forget_pos: "m_iLastInsertPos (snd_forget p L) = (if m_iLastInsertPos L = p then -1 else m_iLastInsertPos L)"
  by (simp add: snd_forget_def)

text \<open>The first number gone: what the arrays must be, for an interval of one number and a longer one.\<close>

lemma snd_pop_single:
  assumes C: "snd_core d ((a, a) # us) L" and n: "n = m_iSize L" and c: "c = cell n d a"
    and L': "m_piData1 L' = (m_piData1 L)[nat c := -1]" "m_piData2 L' = m_piData2 L" "m_piNext L' = m_piNext L"
      "m_iLength L' = m_iLength L - 1" "m_iSize L' = n"
      "m_iLastInsertPos L' = (if m_iLastInsertPos L = c then -1 else m_iLastInsertPos L)"
  shows "snd_core d us L'"
proof -
  have C0: "snd_core d ([] @ (a, a) # us) L" using C by simp
  note D = snd_coreD [OF C0]
  have "(m_piData2 L)[nat c := -1] = m_piData2 L"
    using holds_same [OF D(6) D(1), of a "-1"] tab_here [OF D(4) D(1), of d] by (simp add: n c)
  then show ?thesis
    by (intro snd_core_eq [OF snd_core_drop [OF C]]) (use D(7) L' n c in auto)
qed

lemma snd_pop_multi:
  assumes C: "snd_core d ((a, b) # us) L" and sep: "separate ((a, b) # us)" and lt: "a < b"
    and n: "n = m_iSize L" and c: "c = cell n d a" and e: "e = cell n d (a + 1)"
    and L': "m_piData1 L' = (m_piData1 L)[nat e := wrap (a + 1), nat c := -1]"
      "m_piData2 L' = (m_piData2 L)[nat e := (if a + 1 = b then -1 else wrap b), nat c := -1]"
      "m_piNext L' = (m_piNext L)[nat e := entry (cells n d us) (-1)]"
      "m_iLength L' = m_iLength L - 1" "m_iSize L' = n"
      "m_iLastInsertPos L' = (if m_iLastInsertPos L = c then -1 else m_iLastInsertPos L)"
  shows "snd_core d ((a + 1, b) # us) L'"
proof -
  have C0: "snd_core d ([] @ (a, b) # us) L" and sep0: "separate ([] @ (a, b) # us)" using C sep by simp_all
  note D = snd_coreD [OF C0] and S = snd_core_split [OF C0 sep0 order_refl lt]
  have "chain ((m_piNext L)[nat e := entry (cells n d us) (-1)]) (cells n d ((a + 1, b) # us)) (-1)"
    using D(1,3,7) cell_notin(2) [of n "[(a, a)]" "a + 1" b us d] S(3) cells_nonneg [OF D(1), of d us]
      cell_range [OF D(1), of d "a + 1"] by (simp add: chain_upd n e)
  then show ?thesis
    by (intro snd_core_eq [OF snd_core_drop [OF S(1) [unfolded append_Nil]]]) (use L' n c e in auto)
qed

lemma getLostSeq_rep:
  assumes "snd_rep d ((a, b) # us) L"
  shows "\<exists>L'. getLostSeq L = Some (wrap a, L') \<and> snd_rep d (pop_number ((a, b) # us)) L' \<and> m_iSize L' = m_iSize L"
proof -
  let ?N = "m_iSize L" let ?c = "cell ?N d a" and ?e = "cell ?N d (a + 1)"
  let ?M = "snd_forget ?c L"
  have C0: "snd_core d ((a, b) # us) L" and sep: "separate ([] @ (a, b) # us)" and hd: "m_iHead L = ?c"
    using assms by (simp_all add: snd_rep_def)
  have C: "snd_core d ([] @ (a, b) # us) ?M" using snd_core_forget [OF C0] by simp
  note D = snd_coreD [OF C, unfolded snd_forget_fields]
  note N = snd_node [OF C, unfolded snd_forget_fields] and ln = snd_lengths [OF C, unfolded snd_forget_fields]
  note ab = iv_okD(1) [OF D(4), of a b]
  have ne: "m_iLength L \<noteq> 0" using total_pos [OF D(4)] D(8) by simp
  show ?thesis
  proof (cases "a = b")
    case True
    let ?L = "?M\<lparr>m_piData1 := (m_piData1 L)[nat ?c := -1], m_iHead := entry (cells ?N d us) (-1),
      m_iLength := m_iLength L - 1\<rparr>"
    have "getLostSeq L = Some (wrap a, ?L)"
      using True ne N ln by (simp add: getLostSeq_def hd put_ok addLength_def)
    moreover have "snd_core d us ?L"
      by (rule snd_pop_single [OF C0 [unfolded True] refl refl]) (simp_all add: True snd_forget_pos)
    ultimately show ?thesis using True sep by (auto simp: snd_rep_def separate_tl)
  next
    case False
    then have lt: "a < b" using ab by simp
    note P = putRest_ok [OF C sep order_refl lt, unfolded snd_forget_fields]
    let ?L = "?M\<lparr>m_piData1 := (m_piData1 L)[nat ?e := wrap (a + 1), nat ?c := -1],
       m_piData2 := (m_piData2 L)[nat ?e := (if a + 1 = b then -1 else wrap b), nat ?c := -1],
       m_piNext := (m_piNext L)[nat ?e := entry (cells ?N d us) (-1)], m_iHead := ?e,
       m_iLength := m_iLength L - 1\<rparr>"
    have e: "rd (m_piData2 L) ?c = Some (wrap b)" using N(2) False by simp
    have "getLostSeq L = Some (wrap a, ?L)"
      using ne N(1,3) e ln P iv_cell_neq [OF D(4,1) _ order_refl lt, of d]
      by (simp add: getLostSeq_def hd put_ok addLength_def cell_next Let_def)
    moreover have "snd_core d ((a + 1, b) # us) ?L"
      by (rule snd_pop_multi [OF C0 _ lt refl refl refl]) (use sep in \<open>simp_all add: snd_forget_pos\<close>)
    ultimately show ?thesis using False sep lt by (auto simp: snd_rep_def separate_def)
  qed
qed

end
