(* ===== verification/UdtSndLossRemove.thy ===== *)
theory UdtSndLossRemove
  imports UdtSndLossSpec
begin

section \<open>UDT: removing acknowledged numbers from the sender's loss list\<close>

text \<open>
  \<open>remove(seqno)\<close> drops every number up to \<open>seqno\<close>. The proof follows the code: find the
  last interval that starts at or before \<open>seqno\<close>, split it there if it goes on, make
  what follows the new head, and clear the nodes before it.
\<close>

lemma snd_prior_ok:
  assumes "snd_core d (pre @ mid @ (a, b) # post) L"
    and "\<forall>u \<in> set (pre @ mid @ (a, b) # post). near (fst u) x"
    and "\<forall>u \<in> set (mid @ [(a, b)]). fst u < x" "\<forall>u \<in> set post. x \<le> fst u"
  shows "snd_prior L (wrap x) (entry (cells (m_iSize L) d (mid @ (a, b) # post)) (-1)) = Some (cell (m_iSize L) d a)"
  using assms
proof (induction mid arbitrary: pre)
  case Nil
  have C: "snd_core d (pre @ (a, b) # post) L" using Nil.prems(1) by simp
  note N = snd_node [OF C] and D = snd_coreD [OF C]
  show ?case
  proof (cases post)
    case Nil
    then show ?thesis using N by (simp add: snd_prior.simps)
  next
    case (Cons u post')
    obtain c e where u: "u = (c, e)" by (cases u)
    have C': "snd_core d ((pre @ [(a, b)]) @ (c, e) # post') L" using C Cons u by simp
    have "near c x" "x \<le> c" using Nil.prems Cons u by auto
    then have "\<not> seqcmp (wrap c) (wrap x) < 0" using seqcmp_wrap(1) [of c x] by simp
    then show ?thesis
      using N snd_node(1) [OF C'] D(1) Cons u by (subst snd_prior.simps) simp
  qed
next
  case (Cons v mid)
  obtain c e where v: "v = (c, e)" by (cases v)
  have C: "snd_core d ((pre @ [(c, e)]) @ mid @ (a, b) # post) L" using Cons.prems(1) v by simp
  have C1: "snd_core d (pre @ (c, e) # mid @ (a, b) # post) L" using Cons.prems(1) v by simp
  have IH: "snd_prior L (wrap x) (entry (cells (m_iSize L) d (mid @ (a, b) # post)) (-1)) = Some (cell (m_iSize L) d a)"
    by (rule Cons.IH [OF C]) (use Cons.prems v in auto)
  obtain f g rest where n: "mid @ (a, b) # post = (f, g) # rest" and f: "near f x" "f < x"
    using Cons.prems by (cases mid) auto
  have C2: "snd_core d ((pre @ [(c, e)]) @ (f, g) # rest) L" using C n by simp
  have "seqcmp (wrap f) (wrap x) < 0" using seqcmp_wrap(1) [OF f(1)] f(2) by simp
  then show ?case
    using snd_node(3) [OF C1] snd_node(1) [OF C2] snd_coreD(1) [OF C] IH n v
    by (subst snd_prior.simps) simp
qed

lemma snd_clear_ok:
  assumes "snd_core d (pre @ post) L" "m_iHead L = entry (cells (m_iSize L) d post) (-1)"
  shows "\<exists>L'. snd_clear (entry (cells (m_iSize L) d (pre @ post)) (-1)) L = Some L' \<and>
    snd_core d post L' \<and> m_iHead L' = m_iHead L \<and> m_iSize L' = m_iSize L"
  using assms
proof (induction pre arbitrary: L)
  case Nil
  then show ?case by (subst snd_clear.simps) simp
next
  case (Cons u pre)
  obtain a b where u: "u = (a, b)" by (cases u)
  let ?c = "cell (m_iSize L) d a"
  have C: "snd_core d ([] @ (a, b) # pre @ post) L" using Cons.prems(1) u by simp
  note D = snd_coreD [OF C] and N = snd_node [OF C] and ln = snd_lengths [OF C]
  have ab: "a \<le> b" "b - a \<le> m_iMaxSeqNo" using iv_len [OF D(4,2)] by auto
  have neq: "?c \<noteq> m_iHead L"
    using cell_notin(2) [OF D(4) D(1), of d] Cons.prems(2) cell_neq [OF D(1), of d a]
    by (cases post) auto
  let ?L = "snd_forget ?c (L\<lparr>m_iLength := m_iLength L - (b - a + 1),
    m_piData2 := (m_piData2 L)[nat ?c := -1], m_piData1 := (m_piData1 L)[nat ?c := -1]\<rparr>)"
  have d2: "(m_piData2 L)[nat ?c := -1] = m_piData2 L" if "a = b"
    using holds_same [OF D(6) D(1), of a "-1"] tab_here [OF D(4) D(1), of d] that by simp
  have step: "snd_clear ?c L = snd_clear (entry (cells (m_iSize L) d (pre @ post)) (-1)) ?L"
  proof (cases "a = b")
    case True
    then have "?L = snd_forget ?c (L\<lparr>m_iLength := m_iLength L - 1, m_piData1 := (m_piData1 L)[nat ?c := -1]\<rparr>)"
      using d2 by simp
    then show ?thesis using True N ln neq
      by (subst snd_clear.simps) (simp add: put_ok addLength_def Let_def)
  next
    case False
    have "addLength (- seqlen (wrap a) (wrap b)) L = L\<lparr>m_iLength := m_iLength L - (b - a + 1)\<rparr>"
      using seqlen_wrap [OF ab] by (simp add: addLength_def)
    then show ?thesis using N ln neq False
      by (subst snd_clear.simps) (simp add: put_ok Let_def)
  qed
  have "snd_core d (pre @ post) ?L"
    by (rule snd_core_eq [OF snd_core_drop [OF C [unfolded append_Nil]]]) (use D(7) in \<open>auto simp: snd_forget_def\<close>)
  moreover have "m_iHead ?L = entry (cells (m_iSize ?L) d post) (-1)" using Cons.prems(2) by simp
  ultimately obtain L' where "snd_clear (entry (cells (m_iSize ?L) d (pre @ post)) (-1)) ?L = Some L'"
    "snd_core d post L'" "m_iHead L' = m_iHead ?L" "m_iSize L' = m_iSize ?L"
    using Cons.IH by blast
  then show ?case using step u by simp
qed

fun remove_upto :: "int \<Rightarrow> ivs \<Rightarrow> ivs" where
  "remove_upto x [] = []"
| "remove_upto x ((a, b) # us) =
     (if b \<le> x then remove_upto x us else if a \<le> x then (x + 1, b) # us else (a, b) # us)"

lemma remove_upto_append:
  "\<forall>u \<in> set us. snd u \<le> x \<Longrightarrow> remove_upto x (us @ vs) = remove_upto x vs"
  by (induction us) auto

lemma remove_upto_none: "\<forall>u \<in> set us. x < fst u \<Longrightarrow> \<forall>u \<in> set us. fst u \<le> snd u \<Longrightarrow> remove_upto x us = us"
  by (cases us) force+

lemma numbers_remove_upto:
  assumes "separate us" "\<forall>u \<in> set us. fst u \<le> snd u"
  shows "numbers (remove_upto x us) = {n \<in> numbers us. x < n}"
  using assms
proof (induction us)
  case (Cons u us)
  obtain a b where u: "u = (a, b)" by (cases u)
  have "x < n" if "n \<in> numbers us" "x < b" for n
    using that Cons.prems u by (force simp: separate_def numbers_def)
  then show ?case using Cons u by (auto simp: separate_def)
qed simp

text \<open>The two ways to find the new head agree: what is linked from it is what is left.\<close>

lemma snd_remove_cut:
  assumes C: "snd_core d (pre @ (a, b) # post) L" and sep: "separate (pre @ (a, b) # post)"
    and x: "a \<le> x" "x < b"
  defines "N \<equiv> m_iSize L"
  defines "L' \<equiv> L\<lparr>m_piData1 := (m_piData1 L)[nat (cell N d (x + 1)) := wrap (x + 1)],
       m_piData2 := (m_piData2 L)[nat (cell N d (x + 1)) := (if x + 1 = b then -1 else wrap b),
          nat (cell N d a) := (if a = x then -1 else wrap x)],
       m_piNext := (m_piNext L)[nat (cell N d (x + 1)) := entry (cells N d post) (-1),
          nat (cell N d a) := cell N d (x + 1)], m_iHead := cell N d (x + 1)\<rparr>"
  shows "a = x \<Longrightarrow> snd_remove_at (cell N d x) (wrap x) L = Some L'"
    and "snd_prior L (wrap x) (m_iHead L) = Some (cell N d a) \<Longrightarrow> a < x \<Longrightarrow>
      snd_remove_inside (cell N d x) (wrap x) L = Some L'"
    and "snd_core d ((pre @ [(a, x)]) @ (x + 1, b) # post) L'"
proof -
  note D = snd_coreD [OF C, folded N_def] and nd = snd_node [OF C, folded N_def] and ln = snd_lengths [OF C, folded N_def]
  note S = snd_core_split [OF C sep x, folded N_def] and P = putRest_ok [OF C sep x, folded N_def]
  have ab: "a \<noteq> b" using x by simp
  have ce: "cmod (cell N d x + 1) N = cell N d (x + 1)" by (rule cell_next [OF D(1)])
  have gt: "seqcmp (wrap b) (wrap x) > 0"
    using seqcmp_wrap(2) [of b x] x iv_okD(2) [OF D(4), of a b a b] D(2) by (simp add: near_def)
  have ne: "nat (cell N d a) \<noteq> nat (cell N d (x + 1))"
    by (rule iv_cell_neq [OF D(4,1) _ x]) simp
  have nx: "rd ((m_piNext L)) (cell N d a) = Some (entry (cells N d post) (-1))" by (rule nd(3))
  show "a = x \<Longrightarrow> snd_remove_at (cell N d x) (wrap x) L = Some L'"
    using nd ab ln P ce ne by (simp add: snd_remove_at_def Let_def put_ok L'_def flip: N_def)
  show "snd_prior L (wrap x) (m_iHead L) = Some (cell N d a) \<Longrightarrow> a < x \<Longrightarrow>
      snd_remove_inside (cell N d x) (wrap x) L = Some L'"
    using nd ab ln P ce ne gt by (simp add: snd_remove_inside_def Let_def put_ok L'_def flip: N_def)
  show "snd_core d ((pre @ [(a, x)]) @ (x + 1, b) # post) L'"
    using snd_core_eq [OF S(1), of L'] snd_coreD(7) [OF S(1)] by (simp add: L'_def N_def)
qed

lemma snd_remove_head_rep:
  assumes "snd_rep d ((a, b) # us) L"
  shows "\<exists>L'. snd_remove_head (cell (m_iSize L) d a) (wrap a) L = Some L' \<and>
    snd_rep d (pop_number ((a, b) # us)) L' \<and> m_iSize L' = m_iSize L"
proof -
  let ?N = "m_iSize L" let ?c = "cell ?N d a" and ?e = "cell ?N d (a + 1)"
  have C0: "snd_core d ((a, b) # us) L" and C: "snd_core d ([] @ (a, b) # us) L"
    and sep: "separate ([] @ (a, b) # us)" and hd: "m_iHead L = ?c"
    using assms by (simp_all add: snd_rep_def)
  note D = snd_coreD [OF C] and N = snd_node [OF C] and ln = snd_lengths [OF C]
  note ab = iv_okD(1) [OF D(4), of a b]
  show ?thesis
  proof (cases "a = b")
    case True
    let ?L = "addLength (-1) (snd_forget ?c (L\<lparr>m_piData1 := (m_piData1 L)[nat ?c := -1]\<rparr>)
      \<lparr>m_iHead := entry (cells ?N d us) (-1)\<rparr>)"
    have "snd_remove_head ?c (wrap a) L = Some ?L"
      using True N ln by (simp add: snd_remove_head_def hd put_ok Let_def)
    moreover have "snd_core d us ?L"
      by (rule snd_pop_single [OF C0 [unfolded True] refl refl]) (simp_all add: True snd_forget_pos addLength_def)
    ultimately show ?thesis using True sep by (auto simp: snd_rep_def separate_tl addLength_def)
  next
    case False
    then have lt: "a < b" using ab by simp
    note P = putRest_ok [OF C sep order_refl lt]
    let ?L = "addLength (-1) (snd_forget ?c (L\<lparr>m_piData2 := (m_piData2 L)[nat ?e := (if a + 1 = b then -1 else wrap b), nat ?c := -1],
       m_piNext := (m_piNext L)[nat ?e := entry (cells ?N d us) (-1)],
       m_piData1 := (m_piData1 L)[nat ?e := wrap (a + 1), nat ?c := -1]\<rparr>) \<lparr>m_iHead := ?e\<rparr>)"
    have e: "rd (m_piData2 L) ?c = Some (wrap b)" using N(2) False by simp
    have "snd_remove_head ?c (wrap a) L = Some ?L"
      using N(1,3) e ln P iv_cell_neq [OF D(4,1) _ order_refl lt, of d]
      by (simp add: snd_remove_head_def hd put_ok cell_next Let_def)
    moreover have "snd_core d ((a + 1, b) # us) ?L"
      by (rule snd_pop_multi [OF C0 _ lt refl refl refl])
        (use sep in \<open>simp_all add: snd_forget_pos addLength_def\<close>)
    ultimately show ?thesis using False sep lt by (auto simp: snd_rep_def separate_def addLength_def)
  qed
qed

text \<open>The number at the cell of \<open>x\<close> tells whether an interval starts at \<open>x\<close>.\<close>

lemma start_here:
  assumes "snd_core d us L" "\<forall>u \<in> set us. near (fst u) x"
  obtains v where "rd (m_piData1 L) (cell (m_iSize L) d x) = Some v" "wrap x = v \<longleftrightarrow> x \<in> fst ` set us"
proof -
  note D = snd_coreD [OF assms(1)]
  let ?r = "tab (m_iSize L) d us (cell (m_iSize L) d x)"
  have "wrap x = first_of ?r \<longleftrightarrow> x \<in> fst ` set us"
  proof
    assume w: "wrap x = first_of ?r"
    then obtain a b where r: "?r = Some (a, b)" by (cases ?r) auto
    then have in_us: "(a, b) \<in> set us" by (auto simp: tab_def dest!: map_of_SomeD)
    then have "near a x" using assms(2) by force
    with w r have "a = x" using wrap_eq_iff [of a x] by simp
    then show "x \<in> fst ` set us" using in_us by force
  next
    assume "x \<in> fst ` set us"
    then obtain b where "(x, b) \<in> set us" by force
    then obtain pre post where "us = pre @ (x, b) # post" by (meson split_list)
    then show "wrap x = first_of ?r" using tab_here [of _ pre x b post d] D(1,4) by simp
  qed
  then show thesis using that [OF holds_rd [OF D(5) D(1), of x]] by simp
qed

lemma snd_remove_rep:
  assumes R: "snd_rep d us L" and near: "us \<noteq> [] \<Longrightarrow> near (fst (hd us)) x"
  shows "\<exists>L'. snd_remove (wrap x) L = Some L' \<and> snd_rep d (remove_upto x us) L' \<and> m_iSize L' = m_iSize L"
proof (cases us)
  case Nil
  then show ?thesis using R by (auto simp: snd_remove_def snd_rep_def snd_core_def Let_def)
next
  case (Cons u r)
  obtain a1 b1 where us: "us = (a1, b1) # r" using Cons by (cases u) simp
  let ?N = "m_iSize L"
  have C: "snd_core d us L" and sep: "separate us" and hd: "m_iHead L = entry (cells ?N d us) (-1)"
    using R by (simp_all add: snd_rep_def)
  note D = snd_coreD [OF C]
  have C0: "snd_core d ([] @ (a1, b1) # r) L" using C us by simp
  note nd = snd_node [OF C0]
  have ne: "m_iLength L \<noteq> 0" using total_pos [OF D(4)] D(8) us by simp
  have nx: "near a1 x" using near us by simp
  note off = seqoff_wrap [OF nx]
  have le: "\<forall>u \<in> set us. fst u \<le> snd u" using D(4) by (simp add: iv_ok_def)
  have start: "\<forall>u \<in> set us. a1 \<le> fst u" using D(4) us by (auto simp: iv_ok_def)
  consider "x < a1" | "x = a1" | "a1 < x" by linarith
  then show ?thesis
  proof cases
    case 1
    then have "snd_remove (wrap x) L = Some L"
      using ne nd off hd us by (simp add: snd_remove_def Let_def)
    moreover have "remove_upto x us = us" using 1 start le by (intro remove_upto_none) auto
    ultimately show ?thesis using R by auto
  next
    case 2
    have "remove_upto a1 r = r"
      using le sep us by (intro remove_upto_none) (force simp: separate_def)+
    then have "remove_upto x us = pop_number us" using 2 us le by auto
    moreover have "snd_remove (wrap x) L = snd_remove_head (cell ?N d a1) (wrap a1) L"
      using ne nd off hd us 2 cell_off [of ?N a1 a1 d] D(1) by (simp add: snd_remove_def Let_def)
    ultimately show ?thesis using snd_remove_head_rep [of d a1 b1 r L] R us by auto
  next
    case 3
    obtain pre a b post where s: "us = pre @ (a, b) # post" "a \<le> x" "\<forall>u \<in> set pre. fst u < a"
      "\<forall>u \<in> set post. x < fst u"
      using split_at [OF D(4) _ us] 3 by (metis less_imp_le)
    have C1: "snd_core d (pre @ (a, b) # post) L" and sep1: "separate (pre @ (a, b) # post)" using C sep s by simp_all
    have nears: "\<forall>u \<in> set us. near (fst u) x"
    proof
      fix u assume u: "u \<in> set us"
      then have "snd u - a1 < ?N" using iv_okD(2) [OF D(4), of a1 b1 "fst u" "snd u"] us by simp
      moreover have "a1 \<le> fst u" "fst u \<le> snd u" using start le u by auto
      ultimately show "near (fst u) x" using nx 3 D(2) by (simp add: near_def abs_less_iff)
    qed
    obtain v where v: "rd (m_piData1 L) (cell ?N d x) = Some v" "wrap x = v \<longleftrightarrow> a = x"
    proof (rule start_here [OF C nears])
      fix v assume v: "rd (m_piData1 L) (cell ?N d x) = Some v" "wrap x = v \<longleftrightarrow> x \<in> fst ` set us"
      have "x \<in> fst ` set us \<longleftrightarrow> a = x" using s by force
      with v show thesis using that by simp
    qed
    have loc: "cmod (m_iHead L + (x - a1) + ?N) ?N = cell ?N d x"
      using cell_off [of ?N a1 x d] D(1) 3 hd us by simp
    have red: "snd_remove (wrap x) L =
      (if a = x then snd_remove_at (cell ?N d x) (wrap x) L else snd_remove_inside (cell ?N d x) (wrap x) L)
        \<bind> snd_clear (m_iHead L)"
      using ne nd(1) off hd us 3 loc v(1) by (simp add: snd_remove_def Let_def v(2))
    have prior: "snd_prior L (wrap x) (m_iHead L) = Some (cell ?N d a)" if "a < x"
    proof -
      have "\<forall>u \<in> set ([] @ pre @ (a, b) # post). near (fst u) x" using nears s(1) by simp
      moreover have "\<forall>u \<in> set (pre @ [(a, b)]). fst u < x" using s(3) that by fastforce
      moreover have "\<forall>u \<in> set post. x \<le> fst u" using s(4) by fastforce
      ultimately show ?thesis
        using snd_prior_ok [of d "[]" pre a b post L x] C1 hd s(1) by simp
    qed
    have pre: "\<forall>u \<in> set pre. snd u \<le> x"
      using sep1 s(2) by (force simp: separate_def sorted_wrt_append)
    show ?thesis
    proof (cases "x < b")
      case True
      note K = snd_remove_cut [OF C1 sep1 s(2) True]
      have "remove_upto x us = (x + 1, b) # post" using s(1) remove_upto_append [OF pre] True s(2) by simp
      moreover obtain L1 where stage: "(if a = x then snd_remove_at (cell ?N d x) (wrap x) L
          else snd_remove_inside (cell ?N d x) (wrap x) L) = Some L1"
        and C2: "snd_core d ((pre @ [(a, x)]) @ (x + 1, b) # post) L1"
        and L1: "m_iSize L1 = ?N" "m_iHead L1 = cell ?N d (x + 1)"
        using K prior s(2) by (cases "a = x") auto
      have "entry (cells ?N d ((pre @ [(a, x)]) @ (x + 1, b) # post)) (-1) = m_iHead L"
        using hd s(1) by simp
      then obtain L2 where "snd_clear (m_iHead L) L1 = Some L2" "snd_core d ((x + 1, b) # post) L2"
        "m_iHead L2 = m_iHead L1" "m_iSize L2 = m_iSize L1"
        using snd_clear_ok [OF C2] L1 by auto
      moreover have "separate ((x + 1, b) # post)" using sep1 by (auto simp: separate_def sorted_wrt_append)
      ultimately show ?thesis using red stage L1 by (auto simp: snd_rep_def)
    next
      case False
      let ?L = "L\<lparr>m_iHead := entry (cells ?N d post) (-1)\<rparr>"
      note nd1 = snd_node [OF C1]
      have ab: "a \<le> b" using iv_okD(1) [OF D(4), of a b] s(1) by simp
      have le_x: "a = x \<or> seqcmp (wrap b) (wrap x) \<le> 0"
        using seqcmp_wrap(3) [of b x] nears s(1,2) False ab 3 D(2) iv_okD(2) [OF D(4), of a1 b1 a b] us nx start
        by (auto simp: near_def abs_less_iff)
      have "remove_upto x us = post"
        using s remove_upto_append [OF pre] False remove_upto_none [of post x] le by auto
      moreover have stage: "(if a = x then snd_remove_at (cell ?N d x) (wrap x) L
          else snd_remove_inside (cell ?N d x) (wrap x) L) = Some ?L"
      proof (cases "a = x")
        case True
        then have "b = x" using False ab by simp
        with True show ?thesis using nd1 by (simp add: snd_remove_at_def Let_def)
      next
        case F: False
        then have "\<not> seqcmp (wrap b) (wrap x) > 0" using le_x by simp
        then show ?thesis using F prior s(2) nd1 by (simp add: snd_remove_inside_def Let_def)
      qed
      have C2: "snd_core d ((pre @ [(a, b)]) @ post) ?L"
        using C1 by (simp add: snd_core_def Let_def)
      have "entry (cells ?N d ((pre @ [(a, b)]) @ post)) (-1) = m_iHead L" using hd s(1) by simp
      then obtain L2 where "snd_clear (m_iHead L) ?L = Some L2" "snd_core d post L2"
        "m_iHead L2 = m_iHead ?L" "m_iSize L2 = m_iSize ?L"
        using snd_clear_ok [OF C2] by auto
      moreover have "separate post" using sep1 by (auto simp: separate_def sorted_wrt_append)
      ultimately show ?thesis using red stage by (auto simp: snd_rep_def)
    qed
  qed
qed

end
