(* ===== verification/UdtSndLossInsert.thy ===== *)
theory UdtSndLossInsert
  imports UdtSndLossRemove
begin

section \<open>UDT: inserting lost numbers into the sender's loss list\<close>

text \<open>
  \<open>insert(seqno1, seqno2)\<close> adds the numbers of an interval: as a new node, as a longer end
  of an existing one, or not at all; then the nodes it reaches are merged into it.
\<close>

subsection \<open>Changes of the stored intervals\<close>

lemma snd_core_new:
  assumes C: "snd_core d (pre @ post) L" and iv: "iv_ok (m_iSize L) (pre @ (x, y) # post)"
    and L': "m_piData1 L' = (m_piData1 L)[nat (cell (m_iSize L) d x) := wrap x]"
      "m_piData2 L' = (m_piData2 L)[nat (cell (m_iSize L) d x) := (if x = y then -1 else wrap y)]"
      "length (m_piNext L') = length (m_piNext L)" "chain (m_piNext L') (cells (m_iSize L) d (pre @ (x, y) # post)) (-1)"
      "m_iLength L' = m_iLength L + (y - x + 1)" "m_iSize L' = m_iSize L"
      "m_iLastInsertPos L' \<in> set (cells (m_iSize L) d (pre @ (x, y) # post))"
  shows "snd_core d (pre @ (x, y) # post) L'"
proof -
  note D = snd_coreD [OF C]
  have t: "tab (m_iSize L) d (pre @ (x, y) # post) = (tab (m_iSize L) d (pre @ post))(cell (m_iSize L) d x := Some (x, y))"
    using cell_notin(1) [OF iv D(1), of d] by (intro tab_mid) (simp add: set_cells)
  show ?thesis
    using L' D iv holds_fun_upd [OF D(5) D(1) t] holds_fun_upd [OF D(6) D(1) t]
    by (simp add: snd_core_def Let_def)
qed

lemma cells_replace: "cells N d (pre @ (a, y) # post) = cells N d (pre @ (a, b) # post)"
  by simp

lemma snd_core_grow:
  assumes C: "snd_core d (pre @ (a, b) # post) L" and iv: "iv_ok (m_iSize L) (pre @ (a, y) # post)"
    and L': "m_piData1 L' = m_piData1 L"
      "m_piData2 L' = (m_piData2 L)[nat (cell (m_iSize L) d a) := (if a = y then -1 else wrap y)]"
      "m_piNext L' = m_piNext L" "m_iLength L' = m_iLength L + (y - b)" "m_iSize L' = m_iSize L"
      "m_iLastInsertPos L' \<in> set (cells (m_iSize L) d (pre @ (a, b) # post))"
  shows "snd_core d (pre @ (a, y) # post) L'"
proof -
  note D = snd_coreD [OF C]
  note t = tab_replace [OF D(4) D(1), of d y]
  have "(m_piData1 L)[nat (cell (m_iSize L) d a) := wrap a] = m_piData1 L"
    using holds_same [OF D(5) D(1), of a "wrap a"] tab_here [OF D(4) D(1), of d] by simp
  then show ?thesis
    using L' D iv holds_fun_upd [OF D(5) D(1) t] holds_fun_upd [OF D(6) D(1) t]
    by (simp add: snd_core_def Let_def)
qed

lemma snd_core_delete:
  assumes C: "snd_core d (pre @ (a, b) # (c, e) # post) L"
    and L': "m_piData1 L' = (m_piData1 L)[nat (cell (m_iSize L) d c) := -1]"
      "m_piData2 L' = (m_piData2 L)[nat (cell (m_iSize L) d c) := -1]"
      "m_piNext L' = (m_piNext L)[nat (cell (m_iSize L) d a) := entry (cells (m_iSize L) d post) (-1)]"
      "m_iLength L' = m_iLength L - (e - c + 1)" "m_iSize L' = m_iSize L"
      "m_iLastInsertPos L' = cell (m_iSize L) d a"
  shows "snd_core d (pre @ (a, b) # post) L'"
proof -
  have C1: "snd_core d ((pre @ [(a, b)]) @ (c, e) # post) L" using C by simp
  note D = snd_coreD [OF C] and D1 = snd_coreD [OF C1]
  have iv: "iv_ok (m_iSize L) (pre @ (a, b) # post)" using iv_ok_subset [OF D1(4)] by simp
  have t: "tab (m_iSize L) d (pre @ (a, b) # post) =
      (tab (m_iSize L) d ((pre @ [(a, b)]) @ (c, e) # post))(cell (m_iSize L) d c := None)"
    using tab_del [OF iv_start_notin [OF D1(4) D(1)], of d e] by simp
  have "chain ((m_piNext L)[nat (cell (m_iSize L) d a) := entry (cells (m_iSize L) d post) (-1)])
      (cells (m_iSize L) d (pre @ (a, b) # post)) (-1)"
    using D(1,3,7) cell_notin [OF iv D(1), of d] cells_nonneg [OF D(1), of d pre] cells_nonneg [OF D(1), of d post]
      cell_range [OF D(1), of d a] by (simp add: chain_upd)
  then show ?thesis
    using L' D iv holds_fun_upd [OF D1(5) D(1) t] holds_fun_upd [OF D1(6) D(1) t]
    by (simp add: snd_core_def Let_def)
qed

subsection \<open>Merging\<close>

fun absorb :: "int \<Rightarrow> int \<Rightarrow> ivs \<Rightarrow> ivs" where
  "absorb a b [] = [(a, b)]"
| "absorb a b ((c, e) # us) = (if a \<noteq> b \<and> c \<le> b + 1 then absorb a (max b e) us else (a, b) # (c, e) # us)"

lemma absorb_length: "length (absorb a b us) \<le> Suc (length us)"
proof (induction a b us rule: absorb.induct)
  case (2 a b c e us)
  then show ?case by (cases "a \<noteq> b \<and> c \<le> b + 1") auto
qed simp

lemma absorb_props:
  assumes "separate us" "\<forall>u \<in> set us. fst u \<le> snd u \<and> a < fst u" "a \<le> b"
  shows "numbers (absorb a b us) = {a..b} \<union> numbers us" "separate (absorb a b us)"
    "\<exists>e vs. absorb a b us = (a, e) # vs" "\<forall>u \<in> set (absorb a b us). a \<le> fst u \<and> fst u \<le> snd u"
proof -
  have "numbers (absorb a b us) = {a..b} \<union> numbers us \<and> separate (absorb a b us) \<and>
    (\<exists>e vs. absorb a b us = (a, e) # vs) \<and> (\<forall>u \<in> set (absorb a b us). a \<le> fst u \<and> fst u \<le> snd u)"
    using assms
  proof (induction us arbitrary: b)
    case Nil
    then show ?case by (simp add: separate_def)
  next
    case (Cons u us)
    obtain c e where u: "u = (c, e)" by (cases u)
    show ?case
    proof (cases "a \<noteq> b \<and> c \<le> b + 1")
      case True
      have "numbers (absorb a (max b e) us) = {a..max b e} \<union> numbers us \<and> separate (absorb a (max b e) us) \<and>
        (\<exists>e' vs. absorb a (max b e) us = (a, e') # vs) \<and> (\<forall>u \<in> set (absorb a (max b e) us). a \<le> fst u \<and> fst u \<le> snd u)"
        using Cons.IH [of "max b e"] Cons.prems separate_tl by auto
      moreover have "{a..max b e} = {a..b} \<union> {c..e}" using True Cons.prems u by auto
      ultimately show ?thesis using True u by auto
    next
      case False
      then have "\<forall>v \<in> set (u # us). b < fst v"
        using Cons.prems u by (force simp: separate_def)
      then show ?thesis using False Cons.prems u by (auto simp: separate_def)
    qed
  qed
  then show "numbers (absorb a b us) = {a..b} \<union> numbers us" "separate (absorb a b us)"
    "\<exists>e vs. absorb a b us = (a, e) # vs" "\<forall>u \<in> set (absorb a b us). a \<le> fst u \<and> fst u \<le> snd u"
    by blast+
qed

lemma iv_ok_merge:
  assumes "iv_ok N (pre @ (a, b) # (c, e) # post)"
  shows "iv_ok N (pre @ (a, max b e) # (c, e) # post)"
proof -
  let ?us = "pre @ (a, b) # (c, e) # post" and ?vs = "pre @ (a, max b e) # (c, e) # post"
  have le: "a \<le> b" using iv_okD(1) [OF assms, of a b] by simp
  have fs: "fst ` set ?vs = fst ` set ?us" by simp
  have ss: "snd ` set ?vs \<subseteq> snd ` set ?us" by (auto simp: max_def)
  have "snd v - fst u < N" if uv: "u \<in> set ?vs" "v \<in> set ?vs" for u v
  proof -
    have "fst u \<in> fst ` set ?us" using uv(1) fs by blast
    then obtain u' where u': "u' \<in> set ?us" "fst u = fst u'" by (rule imageE)
    have "snd v \<in> snd ` set ?us" using uv(2) ss by blast
    then obtain v' where v': "v' \<in> set ?us" "snd v = snd v'" by (rule imageE)
    have "snd v' - fst u' < N" using assms u'(1) v'(1) unfolding iv_ok_def by blast
    then show ?thesis using u'(2) v'(2) by simp
  qed
  moreover have "sorted_wrt (\<lambda>u v. fst u < fst v) ?vs" using assms by (simp add: iv_ok_def sorted_wrt_append)
  moreover have "\<forall>u \<in> set ?vs. fst u \<le> snd u" using assms le by (simp add: iv_ok_def)
  ultimately show ?thesis unfolding iv_ok_def by blast
qed

lemma snd_merge_ok:
  assumes C: "snd_core d (pre @ (a, b) # (c, e) # post) L" and last: "m_iLastInsertPos L = cell (m_iSize L) d a"
    and m: "a \<noteq> b" "c \<le> b + 1"
  shows "\<exists>L'. snd_merge (cell (m_iSize L) d a) L = Some (Some L') \<and>
    snd_core d (pre @ (a, max b e) # post) L' \<and> m_iSize L' = m_iSize L \<and> m_iHead L' = m_iHead L \<and>
    m_iLastInsertPos L' = cell (m_iSize L) d a"
proof -
  let ?N = "m_iSize L" let ?a = "cell ?N d a" and ?c = "cell ?N d c"
  have C1: "snd_core d ((pre @ [(a, b)]) @ (c, e) # post) L" using C by simp
  note D = snd_coreD [OF C] and N = snd_node [OF C] and N1 = snd_node [OF C1] and ln = snd_lengths [OF C]
  have lts: "a \<le> b" "a < c" "c \<le> e" using D(4) by (auto simp: iv_ok_def sorted_wrt_append)
  have i: "(a, b) \<in> set (pre @ (a, b) # (c, e) # post)" "(c, e) \<in> set (pre @ (a, b) # (c, e) # post)" by simp_all
  note nr = iv_near [OF D(4,2) i] iv_near [OF D(4,2) i(2,1)]
  have ne: "nat ?c \<noteq> nat ?a"
    using cell_notin(1) [OF snd_coreD(4,1) [OF C1], of d] cell_range [OF D(1), of d a] cell_range [OF D(1), of d c]
    by (auto simp: nat_eq_iff)
  let ?len = "if e > b then (if c \<le> b then b - c + 1 else 0) else e - c + 1"
  let ?L = "L\<lparr>m_iLength := m_iLength L - ?len,
    m_piData2 := (m_piData2 L)[nat ?a := wrap (max b e)]\<rparr>"
  have grow: "snd_core d (pre @ (a, max b e) # (c, e) # post) (?L\<lparr>m_iLength := m_iLength L + (max b e - b)\<rparr>)"
    by (rule snd_core_grow [OF C iv_ok_merge [OF D(4)]]) (use last m lts in auto)
  let ?L' = "?L\<lparr>m_piData1 := (m_piData1 L)[nat ?c := -1], m_piData2 := (m_piData2 L)[nat ?a := wrap (max b e), nat ?c := -1],
    m_piNext := (m_piNext L)[nat ?a := entry (cells ?N d post) (-1)]\<rparr>"
  have "snd_core d (pre @ (a, max b e) # post) ?L'"
    by (rule snd_core_delete [OF grow]) (use last lts m(2) in auto)
  moreover have "snd_merge ?a L = Some (Some ?L')"
  proof -
    have inc: "incseq (wrap b) = wrap (b + 1)" by (rule incseq_wrap')
    have cmp: "seqcmp (wrap c) (wrap (b + 1)) \<le> 0" "seqcmp (wrap e) (wrap b) > 0 \<longleftrightarrow> e > b"
      "seqcmp (wrap b) (wrap c) \<ge> 0 \<longleftrightarrow> b \<ge> c" "wrap c = wrap (b + 1) \<longleftrightarrow> c = b + 1"
      using seqcmp_wrap(3) [of c "b + 1"] seqcmp_wrap(2) [of e b] seqcmp_wrap(4) [of b c] wrap_eq_iff [of c "b + 1"] nr m
      by simp_all
    have len: "seqlen (wrap c) (wrap b) = b - c + 1" if "c \<le> b"
      using seqlen_wrap [of c b] iv_okD(2) [OF D(4), of c e a b] D(2) that by simp
    have len': "seqlen (wrap c) (wrap e) = e - c + 1"
      using seqlen_wrap [of c e] iv_okD(2) [OF D(4), of c e c e] D(2) lts by simp
    have same: "(m_piData2 L)[nat ?a := wrap b] = m_piData2 L"
      using holds_same [OF D(6) D(1), of a "wrap b"] tab_here [OF D(4) D(1), of d] m by simp
    note facts = N(2,3) N1(1-3) m(1) cmp(1-3) ln ne
    consider "e > b" "c \<le> b" | "e > b" "\<not> c \<le> b" "c \<noteq> e" | "e > b" "\<not> c \<le> b" "e = c"
      | "e \<le> b" "c \<noteq> e" | "e \<le> b" "e = c" using m(2) by linarith
    then show ?thesis
    proof cases
      case 1 then show ?thesis using facts len by (simp add: snd_merge_def inc put_ok addLength_def max_def)
    next
      case 2 then show ?thesis using facts by (simp add: snd_merge_def inc put_ok addLength_def max_def)
    next
      case 3
      then have "c = b + 1" using m(2) by simp
      then have "wrap c = wrap (b + 1)" by simp
      with 3 show ?thesis using facts by (simp add: snd_merge_def inc put_ok addLength_def max_def)
    next
      case 4 then show ?thesis using facts len' by (simp add: snd_merge_def inc put_ok addLength_def max_def same)
    next
      case 5
      then have "wrap c \<noteq> wrap (b + 1)" using cmp(4) by simp
      with 5 show ?thesis using facts by (simp add: snd_merge_def inc put_ok addLength_def max_def same)
    qed
  qed
  ultimately show ?thesis using last by auto
qed

lemma snd_merge_stop:
  assumes C: "snd_core d (pre @ (a, b) # post) L" and m: "absorb a b post = (a, b) # post" "\<forall>u \<in> set post. a < fst u"
  shows "snd_merge (cell (m_iSize L) d a) L = Some None"
proof -
  note D = snd_coreD [OF C] and N = snd_node [OF C]
  show ?thesis
  proof (cases post)
    case Nil
    then show ?thesis using N by (simp add: snd_merge_def)
  next
    case (Cons u post')
    obtain c e where u: "u = (c, e)" by (cases u)
    show ?thesis
    proof (cases "a = b")
      case True
      then show ?thesis using N D(1) u Cons by (simp add: snd_merge_def)
    next
      case False
      have gt: "\<not> c \<le> b + 1"
      proof
        assume c: "c \<le> b + 1"
        then have "absorb a b post = absorb a (max b e) post'" using False Cons u by simp
        then show False using m(1) Cons u absorb_length [of a "max b e" post'] by simp
      qed
      have C1: "snd_core d ((pre @ [(a, b)]) @ (c, e) # post') L" using C Cons u by simp
      have i: "(a, b) \<in> set (pre @ (a, b) # post)" "(c, e) \<in> set (pre @ (a, b) # post)" using Cons u by simp_all
      have "near c (b + 1)" using iv_near [OF D(4,2) i(2,1)] by simp
      then have "\<not> seqcmp (wrap c) (incseq (wrap b)) \<le> 0" using gt seqcmp_wrap(3) [of c "b + 1"] by (simp add: incseq_wrap')
      then show ?thesis using N(2,3) snd_node(1) [OF C1] D(1) False Cons u by (simp add: snd_merge_def)
    qed
  qed
qed

lemma snd_coalesce_ok:
  assumes "snd_core d (pre @ (a, b) # post) L" "m_iLastInsertPos L = cell (m_iSize L) d a"
    "\<forall>u \<in> set post. a < fst u"
  shows "\<exists>L'. snd_coalesce (cell (m_iSize L) d a) L = Some L' \<and> snd_core d (pre @ absorb a b post) L' \<and>
    m_iSize L' = m_iSize L \<and> m_iHead L' = m_iHead L"
  using assms
proof (induction post arbitrary: b L)
  case Nil
  then have "snd_merge (cell (m_iSize L) d a) L = Some None" by (intro snd_merge_stop) auto
  then show ?case using Nil by (subst snd_coalesce.simps) simp
next
  case (Cons u post)
  obtain c e where u: "u = (c, e)" by (cases u)
  show ?case
  proof (cases "a \<noteq> b \<and> c \<le> b + 1")
    case True
    obtain L1 where L1: "snd_merge (cell (m_iSize L) d a) L = Some (Some L1)"
      "snd_core d (pre @ (a, max b e) # post) L1" "m_iSize L1 = m_iSize L" "m_iHead L1 = m_iHead L"
      "m_iLastInsertPos L1 = cell (m_iSize L) d a"
      using snd_merge_ok [of d pre a b c e post L] Cons.prems True u by auto
    obtain L2 where "snd_coalesce (cell (m_iSize L1) d a) L1 = Some L2" "snd_core d (pre @ absorb a (max b e) post) L2"
      "m_iSize L2 = m_iSize L1" "m_iHead L2 = m_iHead L1"
      using Cons.IH [OF L1(2)] L1 Cons.prems by auto
    then show ?thesis using True u L1 by (subst snd_coalesce.simps) simp
  next
    case False
    then have "absorb a b (u # post) = (a, b) # u # post" using u by auto
    moreover from this have "snd_merge (cell (m_iSize L) d a) L = Some None"
      using Cons.prems by (intro snd_merge_stop) auto
    ultimately show ?thesis using Cons.prems by (subst snd_coalesce.simps) simp
  qed
qed

subsection \<open>The branches of insert\<close>

text \<open>What a branch leaves: nothing to add, or the node to merge from and what is stored around it.\<close>

definition stage_ok :: "int \<Rightarrow> ivs \<Rightarrow> int \<Rightarrow> int \<Rightarrow> int \<Rightarrow> (int option \<times> snd_loss) option \<Rightarrow> bool" where
  "stage_ok d us x y N res \<longleftrightarrow> (\<exists>r L1. res = Some (r, L1) \<and> m_iSize L1 = N \<and>
     (case r of None \<Rightarrow> snd_rep d us L1 \<and> {x..y} \<subseteq> numbers us
      | Some p \<Rightarrow> \<exists>pre a b post. p = cell N d a \<and> snd_core d (pre @ (a, b) # post) L1 \<and>
          m_iHead L1 = entry (cells N d (pre @ (a, b) # post)) (-1) \<and> m_iLastInsertPos L1 = p \<and>
          separate pre \<and> separate post \<and> (\<forall>u \<in> set pre. snd u < a) \<and> (\<forall>u \<in> set post. a < fst u) \<and>
          numbers pre \<union> {a..b} \<union> numbers post = numbers us \<union> {x..y}))"

lemma stage_ok_None:
  assumes "snd_rep d us L1" "{x..y} \<subseteq> numbers us" "m_iSize L1 = N"
  shows "stage_ok d us x y N (Some (None, L1))"
  using assms by (simp add: stage_ok_def)

lemma stage_ok_Some:
  assumes "p = cell N d a" "snd_core d (pre @ (a, b) # post) L1" "m_iSize L1 = N"
    "m_iHead L1 = entry (cells N d (pre @ (a, b) # post)) (-1)" "m_iLastInsertPos L1 = p"
    "separate pre" "separate post" "\<forall>u \<in> set pre. snd u < a" "\<forall>u \<in> set post. a < fst u"
    "numbers pre \<union> {a..b} \<union> numbers post = numbers us \<union> {x..y}"
  shows "stage_ok d us x y N (Some (Some p, L1))"
  unfolding stage_ok_def option.case
  by (rule exI [of _ "Some p"], rule exI [of _ L1], unfold option.case, intro conjI refl assms(3),
      rule exI [of _ pre], rule exI [of _ a], rule exI [of _ b], rule exI [of _ post]) (intro conjI assms)

lemma putNode_ok:
  assumes C: "snd_core d us L" and xy: "x \<le> y" "y - x < m_iSize L" and free: "tab (m_iSize L) d us (cell (m_iSize L) d x) = None"
  shows "putNode (cell (m_iSize L) d x) (wrap x) (wrap y) L =
    Some (L\<lparr>m_piData1 := (m_piData1 L)[nat (cell (m_iSize L) d x) := wrap x],
            m_piData2 := (m_piData2 L)[nat (cell (m_iSize L) d x) := (if x = y then -1 else wrap y)]\<rparr>)"
proof -
  note D = snd_coreD [OF C] and W = wrap_pair [OF xy snd_coreD(2) [OF C]]
  have "(m_piData2 L)[nat (cell (m_iSize L) d x) := -1] = m_piData2 L"
    using holds_same [OF D(6) D(1), of x "-1"] free by simp
  then show ?thesis using W snd_lengths [OF C] by (auto simp: putNode_def put_ok)
qed

lemma snd_before_ok:
  assumes R: "snd_rep d us L" and f: "fits (m_iSize L) us x y" and lt: "\<forall>u \<in> set us. x < fst u"
  shows "stage_ok d us x y (m_iSize L) (snd_insert_before (cell (m_iSize L) d x) (wrap x) (wrap y) L)"
proof -
  let ?N = "m_iSize L" let ?x = "cell ?N d x"
  have C: "snd_core d us L" and sep: "separate us" and hd: "m_iHead L = entry (cells ?N d us) (-1)"
    using R by (simp_all add: snd_rep_def)
  note D = snd_coreD [OF C]
  have xy: "x \<le> y" "y - x < ?N" using f by (simp_all add: fits_def)
  have iv: "iv_ok ?N ([] @ (x, y) # us)" using iv_ok_insert [of ?N "[]" us x y] D(4) f lt by simp
  have notin: "?x \<notin> set (cells ?N d us)" using cell_notin [OF iv D(1), of d] by simp
  have free: "tab ?N d us ?x = None" using notin by (simp add: dom_tab set_cells)
  let ?L1 = "addLength (seqlen (wrap x) (wrap y)) (L\<lparr>m_piData1 := (m_piData1 L)[nat ?x := wrap x],
    m_piData2 := (m_piData2 L)[nat ?x := (if x = y then -1 else wrap y)], m_piNext := (m_piNext L)[nat ?x := m_iHead L],
    m_iHead := ?x, m_iLastInsertPos := ?x\<rparr>)"
  have run: "snd_insert_before ?x (wrap x) (wrap y) L = Some (Some ?x, ?L1)"
    using putNode_ok [OF C xy free] snd_lengths [OF C] by (simp add: snd_insert_before_def put_ok)
  have "chain ((m_piNext L)[nat ?x := m_iHead L]) (cells ?N d ([] @ (x, y) # us)) (-1)"
    using D(1,3,7) hd notin cells_nonneg [OF D(1), of d us] cell_range [OF D(1), of d x] by (simp add: chain_upd)
  then have "snd_core d ([] @ (x, y) # us) ?L1"
    using C wrap_pair(3) [OF xy D(2)] by (intro snd_core_new [OF _ iv]) (simp_all add: addLength_def)
  then show ?thesis
    unfolding run by (rule stage_ok_Some [OF refl]) (use sep lt in \<open>auto simp: addLength_def separate_def\<close>)
qed

lemma stage_grow:
  assumes R: "snd_rep d us L" and us: "us = pre @ (a, b) # post" and f: "fits (m_iSize L) us x y"
    and x: "a \<le> x" "x \<le> b" "b < y"
    and L1: "m_piData1 L1 = m_piData1 L" "m_piData2 L1 = (m_piData2 L)[nat (cell (m_iSize L) d a) := wrap y]"
      "m_piNext L1 = m_piNext L" "m_iLength L1 = m_iLength L + (y - b)" "m_iSize L1 = m_iSize L"
      "m_iHead L1 = m_iHead L" "m_iLastInsertPos L1 = cell (m_iSize L) d a"
  shows "stage_ok d us x y (m_iSize L) (Some (Some (cell (m_iSize L) d a), L1))"
proof -
  have C: "snd_core d (pre @ (a, b) # post) L" and sep: "separate (pre @ (a, b) # post)"
    and hd: "m_iHead L = entry (cells (m_iSize L) d (pre @ (a, b) # post)) (-1)"
    using R us by (simp_all add: snd_rep_def)
  note D = snd_coreD [OF C]
  have ab: "a \<le> b" using x by simp
  have "iv_ok (m_iSize L) (pre @ (a, y) # post)"
    using f us x(3) by (intro iv_ok_grow [OF D(4)]) (auto simp: fits_def)
  then have C1: "snd_core d (pre @ (a, y) # post) L1"
    by (rule snd_core_grow [OF C]) (use L1 x in auto)
  have "{a..y} = {a..b} \<union> {x..y}" using x by auto
  then show ?thesis
    by (intro stage_ok_Some [OF refl C1]) (use separate_mid [OF sep ab] L1 hd us in auto)
qed

lemma stage_same:
  assumes R: "snd_rep d us L" and us: "us = pre @ (x, b) # post" and f: "fits (m_iSize L) us x y"
  defines "p \<equiv> cell (m_iSize L) d x"
  shows "stage_ok d us x y (m_iSize L) (snd_insert_same p (wrap x) (wrap y) (L\<lparr>m_iLastInsertPos := p\<rparr>))"
    "us = (x, b) # post \<Longrightarrow> stage_ok d us x y (m_iSize L) (snd_insert_head p (wrap x) (wrap y) L)"
proof -
  let ?N = "m_iSize L" let ?L = "L\<lparr>m_iLastInsertPos := p\<rparr>"
  have C: "snd_core d (pre @ (x, b) # post) L" and sep: "separate (pre @ (x, b) # post)"
    and hd: "m_iHead L = entry (cells (m_iSize L) d (pre @ (x, b) # post)) (-1)"
    using R us by (simp_all add: snd_rep_def)
  note D = snd_coreD [OF C] and N = snd_node [OF C] and ln = snd_lengths [OF C]
  have xy: "x \<le> y" "y - x < ?N" using f by (simp_all add: fits_def)
  note W = wrap_pair [OF xy D(2)]
  have xb: "x \<le> b" "b - x < ?N" using iv_okD [OF D(4), of x b] by auto
  have nyb: "near y b" using xy xb D(2) by (simp add: near_def)
  have "wrap b \<noteq> -1" by simp
  note cmp = seqcmp_wrap(2) [OF nyb]
  have len: "seqlen (wrap b) (wrap y) = y - b + 1" if "b < y" using that xb xy D(2) by (intro seqlen_wrap) auto
  have R1: "snd_rep d us ?L" using R us by (simp add: snd_rep_def snd_core_def Let_def p_def)
  have keep: "stage_ok d us x y ?N (Some (None, ?L))" if "y \<le> b"
    by (rule stage_ok_None [OF R1]) (use that us in auto)
  have grow: "stage_ok d us x y ?N (Some (Some p, ?L\<lparr>m_piData2 := (m_piData2 L)[nat p := wrap y],
      m_iLength := m_iLength L + (y - b)\<rparr>))" if "b < y"
    unfolding p_def by (rule stage_grow [OF R us f]) (use that xb in auto)
  have whole: "stage_ok d us x y ?N (Some (Some p, ?L))" if "y = b" "x = b"
    using R1 us that xb separate_mid [OF sep xb(1)] hd
    by (intro stage_ok_Some [of p ?N d x pre b post]) (auto simp: snd_rep_def p_def)
  consider "b < y" "x = b" | "b < y" "x < b" | "y \<le> b" "x < b" | "y = b" "x = b" using xy xb by linarith
  note cases' = this
  show "stage_ok d us x y ?N (snd_insert_same p (wrap x) (wrap y) ?L)"
    using cases'
  proof cases
    case 1 then show ?thesis using grow N(2) ln W by (simp add: snd_insert_same_def put_ok addLength_def p_def)
  next
    case 2 then show ?thesis using grow N(2) ln W cmp len by (simp add: snd_insert_same_def put_ok addLength_def p_def)
  next
    case 3 then show ?thesis using keep N(2) ln W cmp by (simp add: snd_insert_same_def p_def)
  next
    case 4 then show ?thesis using whole N(2) by (simp add: snd_insert_same_def p_def)
  qed
  show "stage_ok d us x y ?N (snd_insert_head p (wrap x) (wrap y) L)" if h: "us = (x, b) # post"
  proof -
    have hp: "m_iHead L = p" using hd us h by (simp add: p_def)
    show ?thesis using cases'
    proof cases
      case 1 then show ?thesis using grow N(2) ln W hp by (simp add: snd_insert_head_def Let_def put_ok addLength_def p_def)
    next
      case 2 then show ?thesis using grow N(2) ln W cmp len hp by (simp add: snd_insert_head_def Let_def put_ok addLength_def p_def)
    next
      case 3 then show ?thesis using keep N(2) ln W cmp hp
        by (cases "x = y") (simp_all add: snd_insert_head_def Let_def p_def)
    next
      case 4 then show ?thesis using keep N(2) W hp by (simp add: snd_insert_head_def Let_def p_def)
    qed
  qed
qed

lemma snd_new_ok:
  assumes R: "snd_rep d us L" and f: "fits (m_iSize L) us x y" and us: "us = pre @ (a, b) # post"
    and x: "a < x" "\<forall>u \<in> set post. x < fst u"
  shows "stage_ok d us x y (m_iSize L) (snd_insert_new (cell (m_iSize L) d x) (wrap x) (wrap y) L)"
proof -
  let ?N = "m_iSize L" let ?a = "cell ?N d a" and ?x = "cell ?N d x"
  have C: "snd_core d (pre @ (a, b) # post) L" and sep: "separate (pre @ (a, b) # post)"
    and hd: "m_iHead L = entry (cells ?N d (pre @ (a, b) # post)) (-1)"
    using R us by (simp_all add: snd_rep_def)
  note D = snd_coreD [OF C] and N = snd_node [OF C] and ln = snd_lengths [OF C]
  have xy: "x \<le> y" "y - x < ?N" using f by (simp_all add: fits_def)
  note W = wrap_pair [OF xy D(2)]
  have ab: "a \<le> b" using iv_okD(1) [OF D(4), of a b] by simp
  note M = separate_mid [OF sep ab]
  have le: "\<forall>u \<in> set us. fst u \<le> snd u" using D(4) us by (simp add: iv_ok_def)
  have nears: "\<forall>u \<in> set us. near (fst u) x"
  proof
    fix u assume u: "u \<in> set us"
    then have "snd u - x < ?N" "y - fst u < ?N" "fst u \<le> snd u" using f le by (auto simp: fits_def)
    then show "near (fst u) x" using xy D(2) by (simp add: near_def abs_less_iff)
  qed
  have pre_lt: "\<forall>u \<in> set (pre @ [(a, b)]). fst u < x"
    using D(4) x(1) by (auto simp: iv_ok_def sorted_wrt_append)
  have search: "snd_prior L (wrap x) (entry (cells ?N d (mid @ (a, b) # post)) (-1)) = Some ?a"
    if "pre = pre' @ mid" for pre' mid
    using snd_prior_ok [of d pre' mid a b post L x] C nears us pre_lt x(2) that by (auto simp: le_less)
  obtain q where q: "(if m_iLastInsertPos L \<noteq> -1
       then map_option (\<lambda>d. seqcmp d (wrap x) < 0) (rd (m_piData1 L) (m_iLastInsertPos L)) else Some False) = Some q"
    and prior: "snd_prior L (wrap x) (if q then m_iLastInsertPos L else m_iHead L) = Some ?a"
  proof (cases "m_iLastInsertPos L = -1")
    case True
    then show ?thesis using that [of False] search [of "[]" pre] hd by simp
  next
    case False
    then have "m_iLastInsertPos L \<in> (cell ?N d \<circ> fst) ` set us" using D(9) us by (simp only: set_cells) simp
    then obtain u where u: "u \<in> set us" "m_iLastInsertPos L = cell ?N d (fst u)" by auto
    then obtain p1 e p2 where s: "us = p1 @ (fst u, e) # p2" by (metis prod.collapse split_list)
    have C1: "snd_core d (p1 @ (fst u, e) # p2) L" using C us s by simp
    have rdl: "rd (m_piData1 L) (m_iLastInsertPos L) = Some (wrap (fst u))" using snd_node(1) [OF C1] u(2) by simp
    have cmp: "seqcmp (wrap (fst u)) (wrap x) < 0 \<longleftrightarrow> fst u < x" using seqcmp_wrap(1) nears u(1) by blast
    show ?thesis
    proof (cases "fst u < x")
      case F: False
      then show ?thesis using that [of False] search [of "[]" pre] hd rdl False cmp by simp
    next
      case T: True
      then have "u \<in> set (pre @ [(a, b)])" using u(1) us x(2) by auto
      then obtain p1 mid where "pre @ [(a, b)] = p1 @ u # mid" by (meson split_list)
      then have "snd_prior L (wrap x) (cell ?N d (fst u)) = Some ?a"
      proof (cases mid rule: rev_cases)
        case Nil
        then show ?thesis using \<open>pre @ [(a, b)] = p1 @ u # mid\<close> search [of pre "[]"] by auto
      next
        case (snoc ms m)
        then have "pre = p1 @ u # ms" using \<open>pre @ [(a, b)] = p1 @ u # mid\<close> by simp
        then show ?thesis using search [of p1 "u # ms"] by (cases u) simp
      qed
      then show ?thesis using that [of True] rdl False cmp T u(2) by simp
    qed
  qed
  have nbx: "near b x" "near b y"
    using f us iv_okD(2) [OF D(4), of a b a b] xy x(1) ab D(2) by (auto simp: fits_def near_def abs_less_iff)
  note cx = seqcmp_wrap(1) [OF nbx(1)] and cy = seqcmp_wrap(1) [OF nbx(2)]
  consider "b < x" | "x \<le> b" "b < y" | "x \<le> b" "y \<le> b" by linarith
  then show ?thesis
  proof cases
    case 1
    let ?L0 = "L\<lparr>m_iLastInsertPos := ?x\<rparr>"
    have iv0: "iv_ok ?N ((pre @ [(a, b)]) @ (x, y) # post)"
      by (rule iv_ok_insert) (use D(4) f us pre_lt x(2) in auto)
    then have iv: "iv_ok ?N (pre @ (a, b) # (x, y) # post)" by simp
    note nx = cell_notin [OF iv0 D(1), of d] and na = cell_notin [OF iv D(1), of d]
    have free: "tab ?N d us ?x = None" using nx us by (auto simp: dom_tab set_cells)
    have ne: "nat ?x \<noteq> nat ?a"
      using nx cell_range [OF D(1), of d a] cell_range [OF D(1), of d x] by (auto simp: nat_eq_iff)
    let ?M = "L\<lparr>m_iLastInsertPos := ?x, m_piData1 := (m_piData1 L)[nat ?x := wrap x],
      m_piData2 := (m_piData2 L)[nat ?x := (if x = y then -1 else wrap y)],
      m_piNext := (m_piNext L)[nat ?x := entry (cells ?N d post) (-1), nat ?a := ?x],
      m_iLength := m_iLength L + (y - x + 1)\<rparr>"
    have put: "putNode ?x (wrap x) (wrap y) (L\<lparr>m_iLastInsertPos := ?x\<rparr>) =
      map_option (\<lambda>L. L\<lparr>m_iLastInsertPos := ?x\<rparr>) (putNode ?x (wrap x) (wrap y) L)"
      by (simp add: putNode_def putData1_def putData2_def wr_def)
    have "snd_insert_new ?x (wrap x) (wrap y) L = Some (Some ?x, ?M)"
      using q prior N(2,3) cx 1 put putNode_ok [OF C xy] free us ln W
      by (simp add: snd_insert_new_def put_ok addLength_def)
    moreover have ch: "chain (m_piNext ?M) (cells ?N d ((pre @ [(a, b)]) @ (x, y) # post)) (-1)"
      using D(1,3,7) nx na ne cells_nonneg [OF D(1), of d pre] cells_nonneg [OF D(1), of d post]
        cell_range [OF D(1), of d a] cell_range [OF D(1), of d x] by (simp add: chain_upd)
    have "snd_core d ((pre @ [(a, b)]) @ (x, y) # post) ?M"
      by (rule snd_core_new [OF _ iv0]) (use C ch in auto)
    then have "stage_ok d us x y ?N (Some (Some ?x, ?M))"
      by (rule stage_ok_Some [OF refl])
        (use M hd us 1 ab x sep in \<open>auto simp: separate_def sorted_wrt_append\<close>)
    ultimately show ?thesis by simp
  next
    case 2
    let ?M = "L\<lparr>m_iLastInsertPos := ?a, m_piData2 := (m_piData2 L)[nat ?a := wrap y],
      m_iLength := m_iLength L + (y - b)\<rparr>"
    have "b - a < ?N" "y - a < ?N" using iv_okD(2) [OF D(4), of a b a b] f us by (auto simp: fits_def)
    then have len: "seqlen (wrap b) (wrap y) = y - b + 1" using 2 ab D(2) by (intro seqlen_wrap) auto
    have "snd_insert_new ?x (wrap x) (wrap y) L = Some (Some ?a, ?M)"
      using q prior N(2,3) cx cy 2 ln x(1) len by (simp add: snd_insert_new_def put_ok addLength_def)
    then show ?thesis using stage_grow [OF R us f, of ?M] 2 x(1) by simp
  next
    case 3
    let ?M = "L\<lparr>m_iLastInsertPos := ?a\<rparr>"
    have "snd_insert_new ?x (wrap x) (wrap y) L = Some (None, ?M)"
      using q prior N(2,3) cx cy 3 ln x(1) by (simp add: snd_insert_new_def)
    moreover have "snd_rep d us ?M" using R us by (simp add: snd_rep_def snd_core_def Let_def)
    moreover have "{x..y} \<subseteq> {a..b}" using 3 x(1) by auto
    then have "{x..y} \<subseteq> numbers us" using us by auto
    ultimately show ?thesis using stage_ok_None [of d us ?M x y ?N] by simp
  qed
qed

subsection \<open>insert\<close>

lemma snd_stage_finish:
  assumes st: "stage_ok d us x y N res" and R: "snd_rep d us L" "m_iSize L = N"
  shows "\<exists>us' L'. (res \<bind> (\<lambda>(r, L1). case r of None \<Rightarrow> Some (0, L1)
        | Some p \<Rightarrow> map_option (\<lambda>L2. (m_iLength L2 - m_iLength L, L2)) (snd_coalesce p L1))) =
      Some (total us' - total us, L') \<and> snd_rep d us' L' \<and> numbers us' = numbers us \<union> {x..y} \<and> m_iSize L' = N"
proof -
  have len: "m_iLength L = total us" using R by (auto simp: snd_rep_def dest: snd_coreD(8))
  obtain r L1 where r: "res = Some (r, L1)" "m_iSize L1 = N" using st by (auto simp: stage_ok_def)
  show ?thesis
  proof (cases r)
    case None
    then have "snd_rep d us L1" "{x..y} \<subseteq> numbers us" using st r by (auto simp: stage_ok_def)
    then show ?thesis using None r by (intro exI [of _ us] exI [of _ L1]) auto
  next
    case (Some p)
    obtain pre a b post where p: "p = cell N d a" "snd_core d (pre @ (a, b) # post) L1"
      "m_iHead L1 = entry (cells N d (pre @ (a, b) # post)) (-1)" "m_iLastInsertPos L1 = p"
      "separate pre" "separate post" "\<forall>u \<in> set pre. snd u < a" "\<forall>u \<in> set post. a < fst u"
      "numbers pre \<union> {a..b} \<union> numbers post = numbers us \<union> {x..y}"
      using st r Some by (auto simp: stage_ok_def)
    note D = snd_coreD [OF p(2)]
    have ab: "a \<le> b" using iv_okD(1) [OF D(4), of a b] by simp
    have post: "\<forall>u \<in> set post. fst u \<le> snd u \<and> a < fst u" using D(4) p(8) by (simp add: iv_ok_def)
    note A = absorb_props [OF p(6) post ab]
    obtain L2 where L2: "snd_coalesce (cell N d a) L1 = Some L2" "snd_core d (pre @ absorb a b post) L2"
      "m_iSize L2 = N" "m_iHead L2 = m_iHead L1"
      using snd_coalesce_ok [OF p(2)] p(1,4,8) r(2) by auto
    have "separate (pre @ absorb a b post)"
      using p(5,7) A(2,4) by (fastforce simp: separate_def sorted_wrt_append)
    moreover have "m_iHead L2 = entry (cells N d (pre @ absorb a b post)) (-1)"
      using L2(4) p(3) A(3) by (cases pre) auto
    ultimately have "snd_rep d (pre @ absorb a b post) L2" using L2 by (simp add: snd_rep_def)
    moreover have "numbers (pre @ absorb a b post) = numbers us \<union> {x..y}" using A(1) p(9) by auto
    moreover have "m_iLength L2 = total (pre @ absorb a b post)" using snd_coreD(8) [OF L2(2)] .
    ultimately show ?thesis using r Some p(1) L2 len
      by (intro exI [of _ "pre @ absorb a b post"] exI [of _ L2]) simp
  qed
qed

lemma snd_insert_rep:
  assumes R: "snd_rep d us L" and f: "fits (m_iSize L) us x y"
  shows "\<exists>d' us' L'. snd_insert (wrap x) (wrap y) L = Some (total us' - total us, L') \<and> snd_rep d' us' L' \<and>
    numbers us' = numbers us \<union> {x..y} \<and> m_iSize L' = m_iSize L"
proof (cases us)
  case Nil
  let ?N = "m_iSize L"
  have C: "snd_core d [] L" using R Nil by (simp add: snd_rep_def)
  note D = snd_coreD [OF C]
  have xy: "x \<le> y" "y - x < ?N" using f by (simp_all add: fits_def)
  have c0: "cell ?N (-x) x = 0" by (simp add: cell_def)
  let ?L = "L\<lparr>m_iHead := 0\<rparr>"
  have C1: "snd_core (-x) ([] @ []) ?L"
    using C by (simp add: snd_core_def Let_def holds_def)
  have iv: "iv_ok ?N ([] @ (x, y) # [])" using xy by (simp add: iv_ok_def)
  have put: "putNode 0 (wrap x) (wrap y) ?L = Some (?L\<lparr>m_piData1 := (m_piData1 L)[0 := wrap x],
      m_piData2 := (m_piData2 L)[0 := (if x = y then -1 else wrap y)]\<rparr>)"
    using putNode_ok [of "-x" "[]" ?L x y] C1 xy by (simp add: c0)
  let ?M = "addLength (seqlen (wrap x) (wrap y)) (L\<lparr>m_iHead := 0, m_piData1 := (m_piData1 L)[0 := wrap x],
      m_piData2 := (m_piData2 L)[0 := (if x = y then -1 else wrap y)], m_piNext := (m_piNext L)[0 := -1], m_iLastInsertPos := 0\<rparr>)"
  have "snd_insert_empty (wrap x) (wrap y) L = Some ?M"
    using put put_ok(3) [OF D(1), of _ "-x" x "-1"] D(3) by (simp add: snd_insert_empty_def c0)
  moreover have "m_iLength L = 0" using D(8) by simp
  moreover have "snd_core (-x) ([] @ (x, y) # []) ?M"
    using D(1,3) wrap_pair(3) [OF xy D(2)] by (intro snd_core_new [OF C1]) (use iv in \<open>simp_all add: c0 addLength_def\<close>)
  then have "snd_rep (-x) [(x, y)] ?M" by (simp add: snd_rep_def separate_def c0 addLength_def)
  moreover have "m_iLength ?M = y - x + 1" using D(8) wrap_pair(3) [OF xy D(2)] by (simp add: addLength_def)
  ultimately show ?thesis using Nil
    by (intro exI [of _ "-x"] exI [of _ "[(x, y)]"] exI [of _ ?M]) (simp add: snd_insert_def addLength_def)
next
  case (Cons u r)
  obtain a1 b1 where us: "us = (a1, b1) # r" using Cons by (cases u) simp
  let ?N = "m_iSize L" let ?x = "cell ?N d x"
  have C: "snd_core d us L" and sep: "separate us" and hd: "m_iHead L = cell ?N d a1"
    using R us by (simp_all add: snd_rep_def)
  have C0: "snd_core d ([] @ (a1, b1) # r) L" using C us by simp
  note D = snd_coreD [OF C] and N = snd_node [OF C0]
  have ne: "m_iLength L \<noteq> 0" using total_pos [OF D(4)] D(8) us by simp
  have starts: "\<forall>u \<in> set us. a1 \<le> fst u \<and> fst u \<le> snd u" using D(4) us by (auto simp: iv_ok_def)
  have nears: "\<forall>u \<in> set us. near (fst u) x" "a1 - ?N \<le> x"
    using f starts D(2) us by (auto simp: fits_def near_def abs_less_iff; force)+
  define st where "st = (if x - a1 < 0 then snd_insert_before ?x (wrap x) (wrap y) L
     else if x - a1 > 0 then do {
       d \<leftarrow> rd (m_piData1 L) ?x;
       if wrap x = d then snd_insert_same ?x (wrap x) (wrap y) (L\<lparr>m_iLastInsertPos := ?x\<rparr>)
       else snd_insert_new ?x (wrap x) (wrap y) L }
     else snd_insert_head ?x (wrap x) (wrap y) L)"
  have off: "seqoff (wrap a1) (wrap x) = x - a1" using nears(1) us by (intro seqoff_wrap) simp
  have loc: "cmod (m_iHead L + (x - a1) + ?N) ?N = ?x" using cell_off [OF D(1) nears(2)] hd by simp
  have red: "snd_insert (wrap x) (wrap y) L = st \<bind> (\<lambda>(r, L1). case r of None \<Rightarrow> Some (0, L1)
        | Some p \<Rightarrow> map_option (\<lambda>L2. (m_iLength L2 - m_iLength L, L2)) (snd_coalesce p L1))"
  proof -
    have h: "rd (m_piData1 L) (m_iHead L) = Some (wrap a1)" using N(1) hd by simp
    show ?thesis
      by (simp only: snd_insert_def if_not_P [OF ne] h Option.bind.bind_lunit Let_def off loc st_def)
  qed
  consider "x < a1" | "x = a1" | "a1 < x" by linarith
  then have "stage_ok d us x y ?N st"
  proof cases
    case 1
    then have "\<forall>u \<in> set us. x < fst u" using starts by fastforce
    then show ?thesis using snd_before_ok [OF R f] 1 by (simp add: st_def)
  next
    case 2
    then show ?thesis using stage_same(2) [OF R _ f, of "[]" b1 r] us by (simp add: st_def)
  next
    case 3
    obtain v where v: "rd (m_piData1 L) ?x = Some v" "wrap x = v \<longleftrightarrow> x \<in> fst ` set us"
      using start_here [OF C nears(1)] .
    show ?thesis
    proof (cases "x \<in> fst ` set us")
      case True
      then obtain b pre post where "us = pre @ (x, b) # post" by (metis imageE prod.collapse split_list)
      then show ?thesis using stage_same(1) [OF R _ f] 3 v True by (simp add: st_def)
    next
      case False
      obtain pre a b post where s: "us = pre @ (a, b) # post" "a \<le> x" "\<forall>u \<in> set post. x < fst u"
        using split_at [OF D(4) _ us, of x] 3 by (metis less_imp_le)
      then have "a < x" using False by (cases "a = x") auto
      then show ?thesis using snd_new_ok [OF R f s(1) _ s(3)] 3 v False by (simp add: st_def)
    qed
  qed
  from snd_stage_finish [OF this R refl] show ?thesis using red by auto
qed

end
