(* ===== verification/UdtNak.thy ===== *)
theory UdtNak
  imports UdtRcvLossRemove UdtSndLossInsert
begin

section \<open>UDT: loss reports\<close>

text \<open>
  The negative acknowledgement: the receiver lists its losses (\<open>getLossArray\<close>, \<open>find\<close>), the
  sender decodes the list in \<open>CUDT::processCtrl\<close> (\<open>udt4/src/core.cpp\<close>, packet type 3) and
  inserts what it decodes into its own loss list.
\<close>

subsection \<open>Reading the receiver's list\<close>

lemma rcv_find_from_ok:
  assumes "rcv_rep d (pre @ us) L" "x \<le> y" "near x y"
    "\<forall>u \<in> set (pre @ us). near (fst u) x \<and> near (fst u) y \<and> near (snd u) x"
  shows "rcv_find_from L (wrap x) (wrap y) (entry (cells (r_iSize L) d us) (-1)) =
    Some (\<exists>n \<in> numbers us. x \<le> n \<and> n \<le> y)"
  using assms(1,4)
proof (induction us arbitrary: pre)
  case Nil
  then show ?case by (subst rcv_find_from.simps) simp
next
  case (Cons u us)
  obtain a b where u: "u = (a, b)" by (cases u)
  have R: "rcv_rep d (pre @ (a, b) # us) L" using Cons.prems u by simp
  note D = rcv_repD [OF R] and N = rcv_node [OF R]
  have ab: "a \<le> b" using iv_okD(1) [OF D(5), of a b] by simp
  have n: "near a x" "near a y" "near b x" using Cons.prems(2) u by simp_all
  note ca = seqcmp_wrap [OF n(1)] and cy = seqcmp_wrap(3) [OF n(2)] and cb = seqcmp_wrap(4) [OF n(3)]
  have IH: "rcv_find_from L (wrap x) (wrap y) (entry (cells (r_iSize L) d us) (-1)) = Some (\<exists>n \<in> numbers us. x \<le> n \<and> n \<le> y)"
    by (rule Cons.IH [of "pre @ [u]"]) (use Cons.prems in auto)
  have hit: "(\<exists>n \<in> {a..b}. x \<le> n \<and> n \<le> y) \<longleftrightarrow>
    a = x \<or> (a > x \<and> a \<le> y) \<or> (a < x \<and> a \<noteq> b \<and> b \<ge> x)"
  proof
    assume "a = x \<or> (a > x \<and> a \<le> y) \<or> (a < x \<and> a \<noteq> b \<and> b \<ge> x)"
    then show "\<exists>n \<in> {a..b}. x \<le> n \<and> n \<le> y" using ab assms(2)
      by (intro bexI [of _ "max a x"]) auto
  qed (use ab in force)
  let ?p = "cell (r_iSize L) d a"
  let ?e = "if a = b then -1 else wrap b"
  have test: "(seqcmp (wrap a) (wrap x) = 0 \<or> (seqcmp (wrap a) (wrap x) > 0 \<and> seqcmp (wrap a) (wrap y) \<le> 0) \<or>
           (seqcmp (wrap a) (wrap x) < 0 \<and> ?e \<noteq> -1 \<and> seqcmp ?e (wrap x) \<ge> 0)) \<longleftrightarrow>
    (\<exists>n \<in> {a..b}. x \<le> n \<and> n \<le> y)"
    using hit ca cy cb by auto
  have "rcv_find_from L (wrap x) (wrap y) ?p =
    (if \<exists>n \<in> {a..b}. x \<le> n \<and> n \<le> y then Some True
     else rcv_find_from L (wrap x) (wrap y) (entry (cells (r_iSize L) d us) (-1)))"
    using D(1) by (subst rcv_find_from.simps) (simp only: N Option.bind.bind_lunit test cell_neq if_False)
  then show ?case using IH u by auto
qed

lemma rcv_find_rep:
  assumes R: "rcv_rep d us L" and "x \<le> y" "near x y"
    "\<forall>u \<in> set us. near (fst u) x \<and> near (fst u) y \<and> near (snd u) x"
  shows "rcv_find (wrap x) (wrap y) L = Some (\<exists>n \<in> numbers us. x \<le> n \<and> n \<le> y)"
proof (cases "us = []")
  case True
  then show ?thesis using rcv_repD(10) [OF R] by (simp add: rcv_find_def)
next
  case False
  then have "r_iLength L \<noteq> 0" using total_pos [OF rcv_repD(5) [OF R]] rcv_repD(10) [OF R] by simp
  then show ?thesis using rcv_find_from_ok [of d "[]" us L x y] assms rcv_repD(11) [OF R] by (simp add: rcv_find_def)
qed

text \<open>The report of intervals, and the part of it that fits into \<open>limit\<close> values.\<close>

definition report_one :: "int \<times> int \<Rightarrow> int list" where
  "report_one u = (case u of (a, b) \<Rightarrow> if a = b then [wrap a] else [nak_flag (wrap a), wrap b])"

fun report :: "int \<Rightarrow> int list \<Rightarrow> ivs \<Rightarrow> int list" where
  "report limit acc [] = acc"
| "report limit acc (u # us) = (if int (length acc) < limit - 1 then report limit (acc @ report_one u) us else acc)"

lemma getLossArray_from_ok:
  assumes "rcv_rep d (pre @ us) L"
  shows "getLossArray_from L limit (entry (cells (r_iSize L) d us) (-1)) acc = Some (report limit acc us)"
  using assms
proof (induction us arbitrary: pre acc)
  case Nil
  then show ?case by (subst getLossArray_from.simps) simp
next
  case (Cons u us)
  obtain a b where u: "u = (a, b)" by (cases u)
  have R: "rcv_rep d (pre @ (a, b) # us) L" using Cons.prems u by simp
  have IH: "getLossArray_from L limit (entry (cells (r_iSize L) d us) (-1)) acc' = Some (report limit acc' us)" for acc'
    by (rule Cons.IH [of "pre @ [u]"]) (use Cons.prems in simp)
  show ?case using rcv_node [OF R] rcv_repD(1) [OF R] IH u
    by (subst getLossArray_from.simps) (simp add: report_one_def)
qed

lemma getLossArray_rep:
  assumes "rcv_rep d us L"
  shows "getLossArray limit L = Some (report limit [] us)"
  using getLossArray_from_ok [of d "[]" us L limit "[]"] assms rcv_repD(11) [OF assms]
  by (simp add: getLossArray_def)

lemma report_one_length: "length (report_one u) \<le> 2" "report_one u \<noteq> []"
  by (cases u; simp add: report_one_def)+

lemma report_length: "int (length acc) \<le> limit \<Longrightarrow> int (length (report limit acc us)) \<le> limit"
proof (induction us arbitrary: acc)
  case (Cons u us)
  show ?case
  proof (cases "int (length acc) < limit - 1")
    case True
    then have "int (length (acc @ report_one u)) \<le> limit" using report_one_length(1) [of u] by simp
    then show ?thesis using Cons.IH True by simp
  qed (use Cons.prems in simp)
qed simp

lemma report_all: "int (length acc) + 2 * int (length us) \<le> limit \<Longrightarrow>
    report limit acc us = acc @ concat (map report_one us)"
proof (induction us arbitrary: acc)
  case (Cons u us)
  then show ?case using report_one_length(1) [of u] by simp
qed simp

subsection \<open>Decoding the report\<close>

text \<open>\<open>losslist[i] & 0x80000000\<close> and \<open>losslist[i] & 0x7FFFFFFF\<close> on \<open>int32_t\<close> values.\<close>

definition nak_set :: "int \<Rightarrow> bool" where
  "nak_set x \<longleftrightarrow> (word_of_int x :: 32 word) AND 0x80000000 \<noteq> 0"

definition nak_mask :: "int \<Rightarrow> int" where
  "nak_mask x = sint ((word_of_int x :: 32 word) AND 0x7FFFFFFF)"

text \<open>
  The loop of \<open>processCtrl\<close> over the values of the packet: \<open>ack\<close> is \<open>m_iSndLastAck\<close>,
  \<open>sent\<close> is \<open>m_iSndCurrSeqNo\<close>, \<open>num\<close> what is added to the loss counters. The first component of
  the result is \<open>secure\<close>. A flagged last value makes the code read behind the packet: \<open>None\<close>.
\<close>

fun nak_loop :: "int \<Rightarrow> int \<Rightarrow> int list \<Rightarrow> int \<Rightarrow> snd_loss \<Rightarrow> (bool \<times> int \<times> snd_loss) option" where
  "nak_loop ack sent [] num L = Some (True, num, L)"
| "nak_loop ack sent (x # rest) num L =
     (if nak_set x then
        (case rest of [] \<Rightarrow> None
         | y # rest2 \<Rightarrow>
             if seqcmp (nak_mask x) y > 0 \<or> seqcmp y sent > 0 then Some (False, num, L)
             else do {
               (k, L1) \<leftarrow> (if seqcmp (nak_mask x) ack \<ge> 0 then snd_insert (nak_mask x) y L
                          else if seqcmp y ack \<ge> 0 then snd_insert ack y L
                          else Some (0, L));
               nak_loop ack sent rest2 (num + k) L1 })
      else if seqcmp x ack \<ge> 0 then
        (if seqcmp x sent > 0 then Some (False, num, L)
         else do { (k, L1) \<leftarrow> snd_insert x x L; nak_loop ack sent rest (num + k) L1 })
      else nak_loop ack sent rest num L)"

lemma mask31: "(0x7FFFFFFF :: 32 word) = mask 31" by (simp add: mask_eq_exp_minus_1)
lemma word31_bit:
  assumes "0 \<le> a" "a < 0x80000000"
  shows "bit (word_of_int a :: 32 word) n \<Longrightarrow> n < 31"
proof -
  assume b: "bit (word_of_int a :: 32 word) n"
  have "take_bit 31 a = a" using assms by (simp add: take_bit_int_eq_self)
  then have "bit a n \<longleftrightarrow> bit a n \<and> n < 31" by (metis bit_take_bit_iff)
  with b show "n < 31" by (simp add: bit_word_of_int_iff)
qed

lemma nak_codec:
  assumes "0 \<le> a" "a < 0x80000000"
  shows "nak_set (nak_flag a)" "nak_mask (nak_flag a) = a" "\<not> nak_set a"
proof -
  let ?w = "word_of_int a :: 32 word"
  note w = word31_bit [OF assms]
  have "(?w OR 0x80000000) AND 0x80000000 = (0x80000000 :: 32 word)"
    by (rule bit_word_eqI) (auto simp: bit_and_iff bit_or_iff)
  then show "nak_set (nak_flag a)" by (simp add: nak_set_def nak_flag_def)
  have "?w AND 0x80000000 = 0"
    by (rule bit_word_eqI, unfold bit_and_iff bit_top31) (use w in auto)
  then show "\<not> nak_set a" by (simp add: nak_set_def)
  have "(?w OR 0x80000000) AND 0x7FFFFFFF = ?w"
    by (rule bit_word_eqI, unfold bit_and_iff bit_or_iff bit_top31 mask31 bit_mask_iff) (use w in auto)
  then have "nak_mask (nak_flag a) = sint ?w" by (simp add: nak_mask_def nak_flag_def)
  also have "\<dots> = signed_take_bit 31 a" by (simp add: sint_sbintrunc')
  also have "\<dots> = a" using assms by (simp add: signed_take_bit_int_eq_self)
  finally show "nak_mask (nak_flag a) = a" .
qed
lemma wrap_less: "wrap x < 0x80000000"
  using wrap_ok [of x] by (simp add: seq_ok_def)

lemmas nak_wrap = nak_codec [OF wrap_nonneg(1) wrap_less]

lemma fits_window:
  assumes "iv_ok N vs" "\<forall>n \<in> numbers vs. lo \<le> n \<and> n \<le> hi" "hi - lo < N" "lo \<le> x" "x \<le> y" "y \<le> hi"
  shows "fits N vs x y"
proof -
  have "lo \<le> fst u \<and> snd u \<le> hi" if "u \<in> set vs" for u
  proof -
    have "fst u \<le> snd u" using assms(1) that by (simp add: iv_ok_def)
    then have "fst u \<in> numbers vs" "snd u \<in> numbers vs" using that by (auto simp: numbers_def intro!: bexI [of _ u])
    then show ?thesis using assms(2) by blast
  qed
  then show ?thesis using assms(3-6) by (force simp: fits_def)
qed

lemma nak_loop_ok:
  assumes "\<forall>(a, b) \<in> set us. a \<le> b \<and> b \<le> sent \<and> near a b \<and> near a ack \<and> near b ack \<and> near a sent \<and> near b sent"
    and "snd_rep d vs L" "\<forall>n \<in> numbers vs. lo \<le> n \<and> n \<le> sent" "lo \<le> ack" "sent - lo < m_iSize L"
  shows "\<exists>d' vs' L'. nak_loop (wrap ack) (wrap sent) (concat (map report_one us)) num L =
      Some (True, num + (total vs' - total vs), L') \<and> snd_rep d' vs' L' \<and>
      numbers vs' = numbers vs \<union> {n \<in> numbers us. ack \<le> n} \<and> m_iSize L' = m_iSize L"
  using assms
proof (induction us arbitrary: d vs L num)
  case Nil
  then show ?case by auto
next
  case (Cons u us)
  obtain a b where u: "u = (a, b)" by (cases u)
  have ab: "a \<le> b" "b \<le> sent" "near a b" "near a ack" "near b ack" "near a sent" "near b sent" using Cons.prems(1) u by auto
  have iv: "iv_ok (m_iSize L) vs" using Cons.prems(2) by (auto simp: snd_rep_def dest: snd_coreD(4))
  note cab = seqcmp_wrap(2) [OF ab(3)] and ca = seqcmp_wrap(4) [OF ab(4)] and cb = seqcmp_wrap(4) [OF ab(5)]
    and cc = seqcmp_wrap(2) [OF ab(7)]
  have step: "\<exists>d' vs' L'. nak_loop (wrap ack) (wrap sent) (report_one u @ rest) num L =
      nak_loop (wrap ack) (wrap sent) rest (num + (total vs' - total vs)) L' \<and> snd_rep d' vs' L' \<and>
      numbers vs' = numbers vs \<union> {n \<in> {a..b}. ack \<le> n} \<and> m_iSize L' = m_iSize L" for rest
  proof (cases "ack \<le> b")
    case True
    let ?x = "max a ack"
    have "fits (m_iSize L) vs ?x b" using fits_window [OF iv Cons.prems(3,5)] Cons.prems(4) ab True by simp
    from snd_insert_rep [OF Cons.prems(2) this] obtain d' vs' L' where I:
      "snd_insert (wrap ?x) (wrap b) L = Some (total vs' - total vs, L')" "snd_rep d' vs' L'"
      "numbers vs' = numbers vs \<union> {?x..b}" "m_iSize L' = m_iSize L" by blast
    have "{?x..b} = {n \<in> {a..b}. ack \<le> n}" by auto
    moreover have "nak_loop (wrap ack) (wrap sent) (report_one u @ rest) num L =
      nak_loop (wrap ack) (wrap sent) rest (num + (total vs' - total vs)) L'"
      using I(1) ab(1,2) cab ca cb cc True u
      by (cases "a = b") (auto simp: report_one_def nak_wrap max_def)
    ultimately show ?thesis using I by auto
  next
    case False
    have "nak_loop (wrap ack) (wrap sent) (report_one u @ rest) num L = nak_loop (wrap ack) (wrap sent) rest num L"
      using ab(1,2) cab ca cb cc False u by (cases "a = b") (auto simp: report_one_def nak_wrap)
    moreover have "{n \<in> {a..b}. ack \<le> n} = {}" using False by auto
    ultimately show ?thesis using Cons.prems(2) by (intro exI [of _ d] exI [of _ vs] exI [of _ L]) auto
  qed
  from step [of "concat (map report_one us)"] obtain d1 vs1 L1 where s:
    "nak_loop (wrap ack) (wrap sent) (report_one u @ concat (map report_one us)) num L =
      nak_loop (wrap ack) (wrap sent) (concat (map report_one us)) (num + (total vs1 - total vs)) L1"
    "snd_rep d1 vs1 L1" "numbers vs1 = numbers vs \<union> {n \<in> {a..b}. ack \<le> n}" "m_iSize L1 = m_iSize L" by blast
  have win: "\<forall>n \<in> numbers vs1. lo \<le> n \<and> n \<le> sent" using s(3) Cons.prems(3,4) ab by auto
  obtain d2 vs2 L2 where "nak_loop (wrap ack) (wrap sent) (concat (map report_one us)) (num + (total vs1 - total vs)) L1 =
      Some (True, num + (total vs1 - total vs) + (total vs2 - total vs1), L2)" "snd_rep d2 vs2 L2"
      "numbers vs2 = numbers vs1 \<union> {n \<in> numbers us. ack \<le> n}" "m_iSize L2 = m_iSize L1"
    using Cons.IH [of d1 vs1 L1 "num + (total vs1 - total vs)"] Cons.prems s win by auto
  then show ?case using s u by (intro exI [of _ d2] exI [of _ vs2] exI [of _ L2]) auto
qed

end
