(* ===== verification/UdtLossIface.thy ===== *)
theory UdtLossIface
  imports UdtNak
begin

section \<open>UDT: the loss lists as sets\<close>

text \<open>
  What the rest of the protocol relies on: a loss list stands for a finite set of numbers of an
  unbounded line (\<open>snd_lost\<close>, \<open>rcv_lost\<close>), whose images under \<open>wrap\<close> are the sequence numbers.
  The operations of the two lists restated over sets, and the contract the two lists share as
  the locale \<open>loss_list\<close>.
\<close>

definition snd_lost :: "snd_loss \<Rightarrow> int set \<Rightarrow> bool" where
  "snd_lost L S \<longleftrightarrow> (\<exists>d us. snd_rep d us L \<and> numbers us = S)"

definition rcv_lost :: "rcv_loss \<Rightarrow> int set \<Rightarrow> bool" where
  "rcv_lost L S \<longleftrightarrow> (\<exists>d us. rcv_rep d us L \<and> numbers us = S)"

text \<open>\<open>S\<close> and \<open>{x..y}\<close> together span less than the size of the list.\<close>

definition in_window :: "int \<Rightarrow> int set \<Rightarrow> int \<Rightarrow> int \<Rightarrow> bool" where
  "in_window N S x y \<longleftrightarrow> x \<le> y \<and> y - x < N \<and> (\<forall>n \<in> S. n - x < N \<and> y - n < N)"

subsection \<open>Sets and intervals\<close>

lemma ends_in_numbers:
  assumes "\<forall>u \<in> set us. fst u \<le> snd u" "u \<in> set us"
  shows "fst u \<in> numbers us" "snd u \<in> numbers us"
  using assms by (auto simp: numbers_def intro!: bexI [of _ u])

lemma fits_window_iff:
  assumes "iv_ok N us" "in_window N (numbers us) x y"
  shows "fits N us x y"
  using assms ends_in_numbers [of us] by (auto simp: fits_def in_window_def iv_ok_def)

lemma numbers_empty: "iv_ok N us \<Longrightarrow> numbers us = {} \<longleftrightarrow> us = []"
  using ends_in_numbers [of us "hd us"] by (cases us) (auto simp: iv_ok_def)

lemma numbers_Min:
  assumes "iv_ok N ((a, b) # us)"
  shows "Min (numbers ((a, b) # us)) = a"
proof (rule Min_eqI)
  have "\<forall>u \<in> set us. a < fst u" using assms by (auto simp: iv_ok_def)
  then show "a \<le> n" if "n \<in> numbers ((a, b) # us)" for n using that by (fastforce simp: numbers_def)
  show "a \<in> numbers ((a, b) # us)" using iv_okD(1) [OF assms, of a b] by simp
qed simp

lemma snd_lost_iv:
  assumes "snd_rep d us L"
  shows "iv_ok (m_iSize L) us" "separate us" "m_iLength L = int (card (numbers us))"
proof -
  show i: "iv_ok (m_iSize L) us" and s: "separate us"
    using assms by (auto simp: snd_rep_def dest: snd_coreD(4))
  have "m_iLength L = total us" using assms by (auto simp: snd_rep_def dest: snd_coreD(8))
  then show "m_iLength L = int (card (numbers us))" using total_card [OF s] i by (simp add: iv_ok_def)
qed

lemma rcv_lost_iv:
  assumes "rcv_rep d us L"
  shows "r_iLength L = int (card (numbers us))"
  using rcv_repD(10) [OF assms] total_card [OF rcv_repD(6) [OF assms]] rcv_repD(5) [OF assms]
  by (simp add: iv_ok_def)

subsection \<open>The sender's list\<close>

lemma snd_lost_new: "0 < n \<Longrightarrow> n < m_iSeqNoTH \<Longrightarrow> length g = nat n \<Longrightarrow> snd_lost (CSndLossList n g) {}"
  unfolding snd_lost_def using new_snd_rep [of n g 0] numbers_simps(1) by blast

lemma snd_lost_insert:
  assumes "snd_lost L S" "in_window (m_iSize L) S x y"
  shows "\<exists>L'. snd_insert (wrap x) (wrap y) L = Some (int (card (S \<union> {x..y})) - int (card S), L') \<and>
    snd_lost L' (S \<union> {x..y}) \<and> m_iSize L' = m_iSize L"
proof -
  obtain d us where R: "snd_rep d us L" and S: "numbers us = S" using assms(1) by (auto simp: snd_lost_def)
  have "fits (m_iSize L) us x y" using fits_window_iff [OF snd_lost_iv(1) [OF R]] assms(2) S by simp
  from snd_insert_rep [OF R this] obtain d' us' L' where I: "snd_insert (wrap x) (wrap y) L = Some (total us' - total us, L')"
    "snd_rep d' us' L'" "numbers us' = numbers us \<union> {x..y}" "m_iSize L' = m_iSize L" by blast
  have "total us' = int (card (numbers us'))" "total us = int (card (numbers us))"
    using snd_lost_iv(1,2) [OF R] snd_lost_iv(1,2) [OF I(2)] by (simp_all add: total_card iv_ok_def)
  then show ?thesis using I S by (auto simp: snd_lost_def)
qed

lemma snd_lost_remove:
  assumes "snd_lost L S" "S \<noteq> {} \<Longrightarrow> near (Min S) x"
  shows "\<exists>L'. snd_remove (wrap x) L = Some L' \<and> snd_lost L' {n \<in> S. x < n} \<and> m_iSize L' = m_iSize L"
proof -
  obtain d us where R: "snd_rep d us L" and S: "numbers us = S" using assms(1) by (auto simp: snd_lost_def)
  note iv = snd_lost_iv [OF R]
  have n: "near (fst (hd us)) x" if "us \<noteq> []"
    using that assms(2) S iv(1) numbers_empty [OF iv(1)] numbers_Min by (cases us) auto
  from snd_remove_rep [OF R] n obtain L' where "snd_remove (wrap x) L = Some L'"
    "snd_rep d (remove_upto x us) L'" "m_iSize L' = m_iSize L" by blast
  moreover have "numbers (remove_upto x us) = {n \<in> S. x < n}"
    using numbers_remove_upto [OF iv(2)] iv(1) S by (simp add: iv_ok_def)
  ultimately show ?thesis by (auto simp: snd_lost_def)
qed

lemma snd_lost_next:
  assumes "snd_lost L S"
  shows "S = {} \<Longrightarrow> getLostSeq L = Some (-1, L)"
    "S \<noteq> {} \<Longrightarrow> \<exists>L'. getLostSeq L = Some (wrap (Min S), L') \<and> snd_lost L' (S - {Min S}) \<and> m_iSize L' = m_iSize L"
proof -
  obtain d us where R: "snd_rep d us L" and S: "numbers us = S" using assms by (auto simp: snd_lost_def)
  note iv = snd_lost_iv [OF R]
  show "getLostSeq L = Some (-1, L)" if "S = {}" using iv(3) that S by (simp add: getLostSeq_def)
  assume "S \<noteq> {}"
  then obtain a b r where us: "us = (a, b) # r" using S by (cases us) auto
  have ab: "a \<le> b" using iv(1) us by (simp add: iv_ok_def)
  have m: "Min S = a" using numbers_Min iv(1) us S by blast
  have "numbers (pop_number us) = S - {a}"
  proof -
    have "a \<notin> numbers r" using iv(1) us by (force simp: iv_ok_def numbers_def)
    then show ?thesis using us ab S by (auto split: if_splits)
  qed
  then show "\<exists>L'. getLostSeq L = Some (wrap (Min S), L') \<and> snd_lost L' (S - {Min S}) \<and> m_iSize L' = m_iSize L"
    using getLostSeq_rep [of d a b r L] R us m by (fastforce simp: snd_lost_def)
qed

subsection \<open>The receiver's list\<close>

lemma rcv_lost_new:
  "0 < n \<Longrightarrow> n < m_iSeqNoTH \<Longrightarrow> length g = nat n \<Longrightarrow> length h = nat n \<Longrightarrow> rcv_lost (CRcvLossList n g h) {}"
  unfolding rcv_lost_def using new_rcv_rep [of n g h 0] numbers_simps(1) by blast

lemma rcv_lost_insert:
  assumes "rcv_lost L S" "in_window (r_iSize L) S x y" "\<forall>n \<in> S. n < x"
  shows "\<exists>L'. rcv_insert (wrap x) (wrap y) L = Some L' \<and> rcv_lost L' (S \<union> {x..y}) \<and> r_iSize L' = r_iSize L"
proof -
  obtain d us where R: "rcv_rep d us L" and S: "numbers us = S" using assms(1) by (auto simp: rcv_lost_def)
  note iv = rcv_repD(5) [OF R]
  have "fits (r_iSize L) us x y" using fits_window_iff [OF iv] assms(2) S by simp
  moreover have "\<forall>u \<in> set us. snd u < x" using ends_in_numbers(2) [of us] iv assms(3) S by (auto simp: iv_ok_def)
  ultimately show ?thesis using rcv_insert_rep [OF R] S by (fastforce simp: rcv_lost_def)
qed

lemma rcv_lost_remove:
  assumes "rcv_lost L S" "S \<noteq> {} \<Longrightarrow> near (Min S) x \<and> x - Min S < r_iSize L"
  shows "\<exists>L'. rcv_remove (wrap x) L = Some (x \<in> S, L') \<and> rcv_lost L' (S - {x}) \<and> r_iSize L' = r_iSize L"
proof -
  obtain d us where R: "rcv_rep d us L" and S: "numbers us = S" using assms(1) by (auto simp: rcv_lost_def)
  note iv = rcv_repD(5) [OF R]
  have n: "near (fst (hd us)) x \<and> x - fst (hd us) < r_iSize L" if "us \<noteq> []"
    using that assms(2) S iv numbers_empty [OF iv] numbers_Min by (cases us) auto
  then show ?thesis using rcv_remove_rep [OF R] S by (fastforce simp: rcv_lost_def)
qed

lemma rcv_lost_find:
  assumes "rcv_lost L S" "x \<le> y" "near x y" "\<forall>n \<in> S. near n x \<and> near n y"
  shows "rcv_find (wrap x) (wrap y) L = Some (\<exists>n \<in> S. x \<le> n \<and> n \<le> y)"
proof -
  obtain d us where R: "rcv_rep d us L" and S: "numbers us = S" using assms(1) by (auto simp: rcv_lost_def)
  have "\<forall>u \<in> set us. near (fst u) x \<and> near (fst u) y \<and> near (snd u) x"
    using assms(4) S ends_in_numbers [of us] rcv_repD(5) [OF R] by (auto simp: iv_ok_def)
  then show ?thesis using rcv_find_rep [OF R assms(2,3)] S by simp
qed

lemma rcv_lost_first:
  assumes "rcv_lost L S"
  shows "getFirstLostSeq L = Some (if S = {} then -1 else wrap (Min S))"
proof -
  obtain d us where R: "rcv_rep d us L" and S: "numbers us = S" using assms by (auto simp: rcv_lost_def)
  note iv = rcv_repD(5) [OF R]
  show ?thesis
  proof (cases us)
    case Nil
    then show ?thesis using rcv_lost_iv [OF R] S by (simp add: getFirstLostSeq_def)
  next
    case (Cons u r)
    obtain a b where u: "us = (a, b) # r" using Cons by (cases u) simp
    have "r_iLength L \<noteq> 0" using total_pos [OF iv] rcv_repD(10) [OF R] u by simp
    moreover have "S \<noteq> {}" using S u iv numbers_empty [OF iv] by simp
    ultimately show ?thesis
      using rcv_node(1) [of d "[]" a b r L] R u rcv_repD(11) [OF R] S numbers_Min [of "r_iSize L" a b r] iv
      by (simp add: getFirstLostSeq_def)
  qed
qed

subsection \<open>The contract both lists keep\<close>

fun insert_all :: "(int \<Rightarrow> int \<Rightarrow> 'l \<Rightarrow> 'l option) \<Rightarrow> ivs \<Rightarrow> 'l \<Rightarrow> 'l option" where
  "insert_all ins [] L = Some L"
| "insert_all ins ((x, y) # us) L = (case ins (wrap x) (wrap y) L of None \<Rightarrow> None | Some L' \<Rightarrow> insert_all ins us L')"

locale loss_list =
  fixes lost :: "'l \<Rightarrow> int set \<Rightarrow> bool"
    and cap :: "'l \<Rightarrow> int"
    and ins :: "int \<Rightarrow> int \<Rightarrow> 'l \<Rightarrow> 'l option"
    and len :: "'l \<Rightarrow> int"
  assumes ins_ok: "lost L S \<Longrightarrow> in_window (cap L) S x y \<Longrightarrow> \<forall>n \<in> S. n < x \<Longrightarrow>
      \<exists>L'. ins (wrap x) (wrap y) L = Some L' \<and> lost L' (S \<union> {x..y}) \<and> cap L' = cap L"
    and len_ok: "lost L S \<Longrightarrow> len L = int (card S)"
begin

lemma insert_all_ok:
  assumes "lost L S" "separate us" "\<forall>u \<in> set us. fst u \<le> snd u \<and> lo \<le> fst u \<and> snd u \<le> hi"
    "\<forall>n \<in> S. lo \<le> n \<and> (\<forall>u \<in> set us. n < fst u)" "hi - lo < cap L"
  shows "\<exists>L'. insert_all ins us L = Some L' \<and> lost L' (S \<union> numbers us) \<and> len L' = int (card (S \<union> numbers us))"
  using assms
proof (induction us arbitrary: L S)
  case Nil
  then show ?case by (simp add: len_ok)
next
  case (Cons u us)
  obtain x y where u: "u = (x, y)" by (cases u)
  have "in_window (cap L) S x y" using Cons.prems u by (fastforce simp: in_window_def)
  from ins_ok [OF Cons.prems(1) this] obtain L' where L': "ins (wrap x) (wrap y) L = Some L'"
    "lost L' (S \<union> {x..y})" "cap L' = cap L" using Cons.prems(4) u by auto
  have "\<forall>n \<in> S \<union> {x..y}. lo \<le> n \<and> (\<forall>u \<in> set us. n < fst u)"
    using Cons.prems u by (force simp: separate_def)
  from Cons.IH [OF L'(2) _ _ this] Cons.prems L'(3) u show ?case
    using L'(1) by (auto simp: separate_def Un_assoc)
qed

end

lemma snd_lost_length: "snd_lost L S \<Longrightarrow> snd_getLossLength L = int (card S)"
  using snd_lost_iv(3) by (auto simp: snd_lost_def snd_getLossLength_def)

lemma rcv_lost_length: "rcv_lost L S \<Longrightarrow> rcv_getLossLength L = int (card S)"
  using rcv_lost_iv by (auto simp: rcv_lost_def rcv_getLossLength_def)

interpretation snd_list: loss_list snd_lost m_iSize "\<lambda>x y L. map_option snd (snd_insert x y L)" snd_getLossLength
proof
  fix L :: snd_loss and S x y
  assume "snd_lost L S" "in_window (m_iSize L) S x y"
  then show "\<exists>L'. map_option snd (snd_insert (wrap x) (wrap y) L) = Some L' \<and> snd_lost L' (S \<union> {x..y}) \<and> m_iSize L' = m_iSize L"
    using snd_lost_insert by fastforce
qed (rule snd_lost_length)

interpretation rcv_list: loss_list rcv_lost r_iSize rcv_insert rcv_getLossLength
  by unfold_locales (auto intro: rcv_lost_insert rcv_lost_length)

end
