(* ===== verification/UdtWindow.thy ===== *)
theory UdtWindow
  imports KadPrelude UdtMem "HOL-Library.Monad_Syntax"
begin

section \<open>UDT: acknowledgement and time windows\<close>

text \<open>
  \<open>CACKWindow\<close> and \<open>CPktTimeWindow\<close> of \<open>udt4/src/window.cpp\<close>. The clock (\<open>CTimer::getTime()\<close>)
  is an argument \<open>now\<close>.
\<close>

subsection \<open>The window of sent acknowledgements\<close>

record ack_window =
  m_piACKSeqNo :: "int list"
  m_piACK :: "int list"
  m_pTimeStamp :: "u64 list"
  aw_iSize :: int
  aw_iHead :: int
  aw_iTail :: int

text \<open>The three arrays are uninitialised but for the first number: their contents are arguments.\<close>

definition CACKWindow :: "int \<Rightarrow> int list \<Rightarrow> int list \<Rightarrow> u64 list \<Rightarrow> ack_window option" where
  "CACKWindow siz u1 u2 u3 =
     do { s \<leftarrow> wr u1 0 (-1);
          Some \<lparr>m_piACKSeqNo = s, m_piACK = u2, m_pTimeStamp = u3, aw_iSize = siz, aw_iHead = 0, aw_iTail = 0\<rparr> }"

definition aw_store :: "u64 \<Rightarrow> int \<Rightarrow> int \<Rightarrow> ack_window \<Rightarrow> ack_window option" where
  "aw_store now seqno ack W =
     do { s \<leftarrow> wr (m_piACKSeqNo W) (aw_iHead W) seqno;
          a \<leftarrow> wr (m_piACK W) (aw_iHead W) ack;
          t \<leftarrow> wr (m_pTimeStamp W) (aw_iHead W) now;
          let h = cmod (aw_iHead W + 1) (aw_iSize W);
          let W = W\<lparr>m_piACKSeqNo := s, m_piACK := a, m_pTimeStamp := t, aw_iHead := h\<rparr>;
          Some (if h = aw_iTail W then W\<lparr>aw_iTail := cmod (aw_iTail W + 1) (aw_iSize W)\<rparr> else W) }"

text \<open>\<open>int(CTimer::getTime() - m_pTimeStamp[i])\<close>\<close>

definition elapsed :: "u64 \<Rightarrow> u64 \<Rightarrow> int" where
  "elapsed now t = sint (ucast (now - t) :: 32 word)"

text \<open>
  The loops of \<open>acknowledge\<close>: \<open>i\<close> runs up to \<open>n\<close>, reduced modulo the size in the second one.
  The result is the return value with the data acknowledgement (\<open>ack\<close>), and the window.
\<close>

function aw_loop1 :: "u64 \<Rightarrow> int \<Rightarrow> int \<Rightarrow> int \<Rightarrow> ack_window \<Rightarrow> ((int \<times> int) option \<times> ack_window) option" where
  "aw_loop1 now seqno i n W =
     (if i < n then do {
        s \<leftarrow> rd (m_piACKSeqNo W) i;
        if seqno = s then do {
          a \<leftarrow> rd (m_piACK W) i;
          t \<leftarrow> rd (m_pTimeStamp W) i;
          W1 \<leftarrow> (if i + 1 = aw_iHead W
                 then map_option (\<lambda>s. W\<lparr>m_piACKSeqNo := s, aw_iHead := 0, aw_iTail := 0\<rparr>) (wr (m_piACKSeqNo W) 0 (-1))
                 else Some (W\<lparr>aw_iTail := cmod (i + 1) (aw_iSize W)\<rparr>));
          Some (Some (elapsed now t, a), W1) }
        else aw_loop1 now seqno (i + 1) n W }
      else Some (None, W))"
  by pat_completeness auto
termination by (relation "measure (\<lambda>(_, _, i, n, _). nat (n - i))") auto

function aw_loop2 :: "u64 \<Rightarrow> int \<Rightarrow> int \<Rightarrow> int \<Rightarrow> ack_window \<Rightarrow> ((int \<times> int) option \<times> ack_window) option" where
  "aw_loop2 now seqno j n W =
     (if j < n then do {
        s \<leftarrow> rd (m_piACKSeqNo W) (cmod j (aw_iSize W));
        if seqno = s then do {
          let j = cmod j (aw_iSize W);
          a \<leftarrow> rd (m_piACK W) j;
          t \<leftarrow> rd (m_pTimeStamp W) j;
          W1 \<leftarrow> (if j = aw_iHead W
                 then map_option (\<lambda>s. W\<lparr>m_piACKSeqNo := s, aw_iHead := 0, aw_iTail := 0\<rparr>) (wr (m_piACKSeqNo W) 0 (-1))
                 else Some (W\<lparr>aw_iTail := cmod (j + 1) (aw_iSize W)\<rparr>));
          Some (Some (elapsed now t, a), W1) }
        else aw_loop2 now seqno (j + 1) n W }
      else Some (None, W))"
  by pat_completeness auto
termination by (relation "measure (\<lambda>(_, _, j, n, _). nat (n - j))") auto

declare aw_loop1.simps [simp del] aw_loop2.simps [simp del]

text \<open>\<open>None\<close> in the first component is the return value \<open>-1\<close>, which leaves \<open>ack\<close> unset.\<close>

definition aw_acknowledge :: "u64 \<Rightarrow> int \<Rightarrow> ack_window \<Rightarrow> ((int \<times> int) option \<times> ack_window) option" where
  "aw_acknowledge now seqno W =
     (if aw_iHead W \<ge> aw_iTail W then aw_loop1 now seqno (aw_iTail W) (aw_iHead W) W
      else aw_loop2 now seqno (aw_iTail W) (aw_iHead W + aw_iSize W) W)"

subsection \<open>Packet arrival intervals\<close>

record time_window =
  m_iAWSize :: nat
  m_piPktWindow :: "int list"
  m_iPktWindowPtr :: nat
  m_iPWSize :: nat
  m_piProbeWindow :: "int list"
  m_iProbeWindowPtr :: nat
  m_iLastSentTime :: int
  m_iMinPktSndInt :: int
  m_LastArrTime :: u64
  m_CurrArrTime :: u64
  m_ProbeTime :: u64

definition CPktTimeWindow :: "u64 \<Rightarrow> nat \<Rightarrow> nat \<Rightarrow> time_window" where
  "CPktTimeWindow now asize psize =
     \<lparr>m_iAWSize = asize, m_piPktWindow = replicate asize 1000000, m_iPktWindowPtr = 0,
      m_iPWSize = psize, m_piProbeWindow = replicate psize 1000, m_iProbeWindowPtr = 0,
      m_iLastSentTime = 0, m_iMinPktSndInt = 1000000, m_LastArrTime = now, m_CurrArrTime = 0, m_ProbeTime = 0\<rparr>"

definition getMinPktSndInt :: "time_window \<Rightarrow> int" where
  "getMinPktSndInt W = m_iMinPktSndInt W"

text \<open>
  The median: all but the last value of the window are copied, and \<open>nth_element\<close> puts the
  element of rank \<open>n / 2\<close> of the copy at this place. With a window of one or two there is no
  such element in the copy, and what is read is left over: \<open>None\<close>.
\<close>

definition median_of :: "nat \<Rightarrow> int list \<Rightarrow> int option" where
  "median_of n w = (if n div 2 < n - 1 then Some (sort (take (n - 1) w) ! (n div 2)) else None)"

text \<open>The values within a factor of eight of the median.\<close>

definition near_median :: "int \<Rightarrow> int list \<Rightarrow> int list" where
  "near_median m w = filter (\<lambda>p. p < i32 (push_bit 3 m) \<and> p > drop_bit 3 m) w"

text \<open>
  \<open>(int)ceil(1000000.0 / (sum / count))\<close>: \<open>sum / count\<close> is a division of ints, and the
  quotient of two integers below \<open>2 ^ 31\<close> is far enough from an integer for \<open>ceil\<close> to be exact.
\<close>

definition getPktRcvSpeed :: "time_window \<Rightarrow> int option" where
  "getPktRcvSpeed W =
     do { m \<leftarrow> median_of (m_iAWSize W) (m_piPktWindow W);
          let v = near_median m (m_piPktWindow W);
          let q = cdiv (i32 (sum_list v)) (int (length v));
          Some (if length v > m_iAWSize W div 2 then - ((- 1000000) div q) else 0) }"

text \<open>
  \<open>(int)ceil(1000000.0 / (double(sum) / double(count)))\<close> rounds twice; the rounding is
  the parameter \<open>ceil_quot\<close>. A sum of 0 makes the quotient infinite, and its conversion to
  \<open>int\<close> undefined: \<open>None\<close>.
\<close>

definition getBandwidth :: "(int \<Rightarrow> int \<Rightarrow> int) \<Rightarrow> time_window \<Rightarrow> int option" where
  "getBandwidth ceil_quot W =
     do { m \<leftarrow> median_of (m_iPWSize W) (m_piProbeWindow W);
          let v = near_median m (m_piProbeWindow W);
          let total = i32 (m + sum_list v);
          if total = 0 then None else Some (ceil_quot total (1 + int (length v))) }"

definition onPktSent :: "int \<Rightarrow> time_window \<Rightarrow> time_window" where
  "onPktSent currtime W =
     (let interval = currtime - m_iLastSentTime W;
          W = (if interval < m_iMinPktSndInt W \<and> interval > 0 then W\<lparr>m_iMinPktSndInt := interval\<rparr> else W)
      in W\<lparr>m_iLastSentTime := currtime\<rparr>)"

definition onPktArrival :: "u64 \<Rightarrow> time_window \<Rightarrow> time_window" where
  "onPktArrival now W =
     (let p = m_iPktWindowPtr W + 1 in
      W\<lparr>m_piPktWindow := (m_piPktWindow W)[m_iPktWindowPtr W := elapsed now (m_LastArrTime W)],
        m_iPktWindowPtr := (if p = m_iAWSize W then 0 else p), m_CurrArrTime := now, m_LastArrTime := now\<rparr>)"

definition probe1Arrival :: "u64 \<Rightarrow> time_window \<Rightarrow> time_window" where
  "probe1Arrival now W = W\<lparr>m_ProbeTime := now\<rparr>"

definition probe2Arrival :: "u64 \<Rightarrow> time_window \<Rightarrow> time_window" where
  "probe2Arrival now W =
     (let p = m_iProbeWindowPtr W + 1 in
      W\<lparr>m_piProbeWindow := (m_piProbeWindow W)[m_iProbeWindowPtr W := elapsed now (m_ProbeTime W)],
        m_iProbeWindowPtr := (if p = m_iPWSize W then 0 else p), m_CurrArrTime := now\<rparr>)"

end
