(* ===== verification/UdtAckWindow.thy ===== *)
theory UdtAckWindow
  imports UdtWindow
begin

section \<open>UDT: the acknowledgement window is a bounded queue\<close>

text \<open>
  The ring of \<open>CACKWindow\<close> as the list of its entries, the oldest first: \<open>store\<close> appends (and
  drops the oldest when the ring is full), \<open>acknowledge\<close> drops everything up to the entry
  that is acknowledged.
\<close>

type_synonym ack_entry = "int \<times> int \<times> u64"

definition slot :: "ack_window \<Rightarrow> int \<Rightarrow> ack_entry" where
  "slot W j = (let i = nat (j mod aw_iSize W) in (m_piACKSeqNo W ! i, m_piACK W ! i, m_pTimeStamp W ! i))"

definition aw_queue :: "ack_window \<Rightarrow> ack_entry list" where
  "aw_queue W = map (slot W) [aw_iTail W .. aw_iTail W + (aw_iHead W - aw_iTail W) mod aw_iSize W - 1]"

definition aw_ok :: "ack_window \<Rightarrow> bool" where
  "aw_ok W \<longleftrightarrow> 1 < aw_iSize W \<and> length (m_piACKSeqNo W) = nat (aw_iSize W) \<and>
     length (m_piACK W) = nat (aw_iSize W) \<and> length (m_pTimeStamp W) = nat (aw_iSize W) \<and>
     0 \<le> aw_iHead W \<and> aw_iHead W < aw_iSize W \<and> 0 \<le> aw_iTail W \<and> aw_iTail W < aw_iSize W"

lemma aw_okD:
  assumes "aw_ok W"
  shows "1 < aw_iSize W" "length (m_piACKSeqNo W) = nat (aw_iSize W)" "length (m_piACK W) = nat (aw_iSize W)"
    "length (m_pTimeStamp W) = nat (aw_iSize W)" "0 \<le> aw_iHead W" "aw_iHead W < aw_iSize W"
    "0 \<le> aw_iTail W" "aw_iTail W < aw_iSize W"
  using assms by (simp_all add: aw_ok_def)

lemma aw_queue_forward: "aw_ok W \<Longrightarrow> aw_iTail W \<le> aw_iHead W \<Longrightarrow> aw_queue W = map (slot W) [aw_iTail W .. aw_iHead W - 1]"
  by (simp add: aw_queue_def aw_ok_def)

lemma aw_queue_around:
  assumes "aw_ok W" "aw_iHead W < aw_iTail W"
  shows "aw_queue W = map (slot W) [aw_iTail W .. aw_iHead W + aw_iSize W - 1]"
proof -
  have "(aw_iHead W - aw_iTail W) mod aw_iSize W = aw_iHead W - aw_iTail W + aw_iSize W"
    using aw_okD [OF assms(1)] assms(2) by (subst mod_add_self2 [symmetric], intro mod_pos_pos_trivial) auto
  then show ?thesis by (simp add: aw_queue_def)
qed

text \<open>What acknowledging does to the queue.\<close>

definition ack_spec :: "u64 \<Rightarrow> int \<Rightarrow> ack_entry list \<Rightarrow> (int \<times> int) option \<times> ack_entry list" where
  "ack_spec now seqno q =
     (case dropWhile (\<lambda>(s, _). s \<noteq> seqno) q of [] \<Rightarrow> (None, q) | (s, a, t) # rest \<Rightarrow> (Some (elapsed now t, a), rest))"

lemma slot_rd:
  assumes "aw_ok W" "0 \<le> j"
  shows "rd (m_piACKSeqNo W) (j mod aw_iSize W) = Some (fst (slot W j))"
    "rd (m_piACK W) (j mod aw_iSize W) = Some (fst (snd (slot W j)))"
    "rd (m_pTimeStamp W) (j mod aw_iSize W) = Some (snd (snd (slot W j)))"
  using aw_okD [OF assms(1)] pos_mod_bound [of "aw_iSize W" j] by (simp_all add: rd_def slot_def Let_def)

lemma slot_cong:
  "m_piACKSeqNo W' = m_piACKSeqNo W \<Longrightarrow> m_piACK W' = m_piACK W \<Longrightarrow> m_pTimeStamp W' = m_pTimeStamp W \<Longrightarrow>
    aw_iSize W' = aw_iSize W \<Longrightarrow> slot W' j = slot W j"
  by (simp add: slot_def)

lemma aw_loop1_ok:
  assumes ok: "aw_ok W" and i: "aw_iTail W \<le> i" "i \<le> aw_iHead W"
    and skip: "\<forall>j \<in> {aw_iTail W ..< i}. fst (slot W j) \<noteq> seqno"
  shows "\<exists>r W'. aw_loop1 now seqno i (aw_iHead W) W = Some (r, W') \<and> aw_ok W' \<and> aw_iSize W' = aw_iSize W \<and>
    (r, aw_queue W') = ack_spec now seqno (aw_queue W)"
  using i skip
proof (induction "nat (aw_iHead W - i)" arbitrary: i)
  case 0
  then have i: "i = aw_iHead W" by simp
  have "aw_queue W = map (slot W) [aw_iTail W .. aw_iHead W - 1]"
    using aw_queue_forward [OF ok] 0 by simp
  then have "dropWhile (\<lambda>(s, _). s \<noteq> seqno) (aw_queue W) = []"
    using 0 i by (simp add: dropWhile_eq_Nil_conv case_prod_beta)
  then have "ack_spec now seqno (aw_queue W) = (None, aw_queue W)" by (simp only: ack_spec_def list.case)
  then show ?case using i ok by (subst aw_loop1.simps) simp
next
  case (Suc n)
  have lt: "i < aw_iHead W" using Suc.hyps(2) by simp
  note D = aw_okD [OF ok]
  have m: "i mod aw_iSize W = i" using Suc.prems lt D by simp
  note R = slot_rd [OF ok, of i, unfolded m]
  have q: "aw_queue W = map (slot W) [aw_iTail W .. i - 1] @ slot W i # map (slot W) [i + 1 .. aw_iHead W - 1]"
    using aw_queue_forward [OF ok] Suc.prems lt upto_split3 [of "aw_iTail W" i "aw_iHead W - 1"] by simp
  show ?case
  proof (cases "fst (slot W i) = seqno")
    case True
    have dw: "dropWhile (\<lambda>(s, _). s \<noteq> seqno) (aw_queue W) = slot W i # map (slot W) [i + 1 .. aw_iHead W - 1]"
      unfolding q by (subst dropWhile_append2) (use Suc.prems(3) True in \<open>auto simp: case_prod_beta\<close>)
    show ?thesis
    proof (cases "i + 1 = aw_iHead W")
      case last: True
      let ?W = "W\<lparr>m_piACKSeqNo := (m_piACKSeqNo W)[0 := -1], aw_iHead := 0, aw_iTail := 0\<rparr>"
      have "aw_loop1 now seqno i (aw_iHead W) W = Some (Some (elapsed now (snd (snd (slot W i))), fst (snd (slot W i))), ?W)"
        using R True lt last D(1,2) Suc.prems D by (subst aw_loop1.simps) (simp add: wr_def)
      moreover have "aw_ok ?W" "aw_queue ?W = []" using ok by (simp_all add: aw_ok_def aw_queue_def)
      ultimately show ?thesis using dw last by (auto simp: ack_spec_def case_prod_beta)
    next
      case more: False
      let ?W = "W\<lparr>aw_iTail := i + 1\<rparr>"
      have "(i + 1) mod aw_iSize W = i + 1" using lt more D Suc.prems by simp
      then have "aw_loop1 now seqno i (aw_iHead W) W = Some (Some (elapsed now (snd (snd (slot W i))), fst (snd (slot W i))), ?W)"
        using R True lt more D Suc.prems by (subst aw_loop1.simps) simp
      moreover have k: "aw_ok ?W" using ok lt more Suc.prems by (auto simp: aw_ok_def)
      moreover have "aw_queue ?W = map (slot W) [i + 1 .. aw_iHead W - 1]"
        using aw_queue_forward [OF k] lt by (simp add: slot_cong [of ?W W])
      ultimately show ?thesis using dw by (auto simp: ack_spec_def case_prod_beta)
    qed
  next
    case False
    have "\<forall>j \<in> {aw_iTail W ..< i + 1}. fst (slot W j) \<noteq> seqno"
    proof
      fix j assume "j \<in> {aw_iTail W ..< i + 1}"
      then show "fst (slot W j) \<noteq> seqno" using Suc.prems(3) False by (cases "j = i") auto
    qed
    then have "\<exists>r W'. aw_loop1 now seqno (i + 1) (aw_iHead W) W = Some (r, W') \<and> aw_ok W' \<and> aw_iSize W' = aw_iSize W \<and>
      (r, aw_queue W') = ack_spec now seqno (aw_queue W)"
      using Suc.hyps(1) [of "i + 1"] Suc.hyps(2) Suc.prems lt by simp
    then show ?thesis using R False lt Suc.prems D by (subst aw_loop1.simps) simp
  qed
qed

lemma aw_loop2_ok:
  assumes ok: "aw_ok W" and w: "aw_iHead W < aw_iTail W" and i: "aw_iTail W \<le> i" "i \<le> aw_iHead W + aw_iSize W"
    and skip: "\<forall>j \<in> {aw_iTail W ..< i}. fst (slot W j) \<noteq> seqno"
  shows "\<exists>r W'. aw_loop2 now seqno i (aw_iHead W + aw_iSize W) W = Some (r, W') \<and> aw_ok W' \<and> aw_iSize W' = aw_iSize W \<and>
    (r, aw_queue W') = ack_spec now seqno (aw_queue W)"
  using i skip
proof (induction "nat (aw_iHead W + aw_iSize W - i)" arbitrary: i)
  case 0
  then have i: "i = aw_iHead W + aw_iSize W" by simp
  have "dropWhile (\<lambda>(s, _). s \<noteq> seqno) (aw_queue W) = []"
    using 0 i aw_queue_around [OF ok w] by (simp add: dropWhile_eq_Nil_conv case_prod_beta)
  then have "ack_spec now seqno (aw_queue W) = (None, aw_queue W)" by (simp only: ack_spec_def list.case)
  then show ?case using i ok by (subst aw_loop2.simps) simp
next
  case (Suc n)
  let ?n = "aw_iHead W + aw_iSize W"
  have lt: "i < ?n" using Suc.hyps(2) by simp
  note D = aw_okD [OF ok]
  have pos: "0 \<le> i" "0 < aw_iSize W" using D Suc.prems(1) by simp_all
  have cm: "cmod i (aw_iSize W) = i mod aw_iSize W" using pos by simp
  note R = slot_rd [OF ok pos(1)]
  have q: "aw_queue W = map (slot W) [aw_iTail W .. i - 1] @ slot W i # map (slot W) [i + 1 .. ?n - 1]"
    using aw_queue_around [OF ok w] Suc.prems lt upto_split3 [of "aw_iTail W" i "?n - 1"] by simp
  show ?case
  proof (cases "fst (slot W i) = seqno")
    case True
    have dw: "dropWhile (\<lambda>(s, _). s \<noteq> seqno) (aw_queue W) = slot W i # map (slot W) [i + 1 .. ?n - 1]"
      unfolding q by (subst dropWhile_append2) (use Suc.prems(3) True in \<open>auto simp: case_prod_beta\<close>)
    have nh: "i mod aw_iSize W \<noteq> aw_iHead W"
    proof (cases "i < aw_iSize W")
      case True
      then show ?thesis using Suc.prems(1) w pos by simp
    next
      case False
      then have "i mod aw_iSize W = i - aw_iSize W"
        using lt D by (subst minus_mod_self2 [symmetric], intro mod_pos_pos_trivial) auto
      then show ?thesis using lt by simp
    qed
    define t where "t = (i + 1) mod aw_iSize W"
    have t: "cmod (cmod i (aw_iSize W) + 1) (aw_iSize W) = t"
      using pos pos_mod_sign [OF pos(2), of i] by (simp add: t_def mod_add_left_eq)
    have tr: "0 \<le> t" "t < aw_iSize W" using pos by (simp_all add: t_def)
    let ?W = "W\<lparr>aw_iTail := t\<rparr>"
    have run: "aw_loop2 now seqno i ?n W = Some (Some (elapsed now (snd (snd (slot W i))), fst (snd (slot W i))), ?W)"
      using R True lt nh t by (subst aw_loop2.simps) (simp add: Let_def cm)
    have k: "aw_ok ?W" using ok tr by (simp add: aw_ok_def)
    have sl: "slot ?W j = slot W j" for j by (rule slot_cong) simp_all
    have shift: "slot W (j + aw_iSize W) = slot W j" for j by (simp add: slot_def)
    have "aw_queue ?W = map (slot W) [i + 1 .. ?n - 1]"
    proof (cases "i + 1 < aw_iSize W")
      case True
      then have "t = i + 1" using pos by (simp add: t_def)
      then show ?thesis using aw_queue_around [OF k] Suc.prems(1) w sl by simp
    next
      case False
      then have tt: "t = i + 1 - aw_iSize W"
        unfolding t_def using lt D by (subst minus_mod_self2 [symmetric], intro mod_pos_pos_trivial) auto
      have "[i + 1 .. ?n - 1] = map (\<lambda>j. j + aw_iSize W) [t .. aw_iHead W - 1]"
        using tt by (intro nth_equalityI) auto
      then have "map (slot W) [i + 1 .. ?n - 1] = map (slot W) [t .. aw_iHead W - 1]"
        by (simp add: shift o_def)
      moreover have "t \<le> aw_iHead W" using tt lt by simp
      ultimately show ?thesis using aw_queue_forward [OF k] sl by simp
    qed
    then show ?thesis using run k dw by (auto simp: ack_spec_def case_prod_beta)
  next
    case False
    have "\<forall>j \<in> {aw_iTail W ..< i + 1}. fst (slot W j) \<noteq> seqno"
    proof
      fix j assume "j \<in> {aw_iTail W ..< i + 1}"
      then show "fst (slot W j) \<noteq> seqno" using Suc.prems(3) False by (cases "j = i") auto
    qed
    then have "\<exists>r W'. aw_loop2 now seqno (i + 1) ?n W = Some (r, W') \<and> aw_ok W' \<and> aw_iSize W' = aw_iSize W \<and>
      (r, aw_queue W') = ack_spec now seqno (aw_queue W)"
      using Suc.hyps(1) [of "i + 1"] Suc.hyps(2) Suc.prems lt by simp
    then show ?thesis using R False lt cm by (subst aw_loop2.simps) simp
  qed
qed

lemma aw_acknowledge_ok:
  assumes "aw_ok W"
  shows "\<exists>r W'. aw_acknowledge now seqno W = Some (r, W') \<and> aw_ok W' \<and> aw_iSize W' = aw_iSize W \<and>
    (r, aw_queue W') = ack_spec now seqno (aw_queue W)"
  using aw_loop1_ok [OF assms, of "aw_iTail W" seqno now] aw_loop2_ok [OF assms, of "aw_iTail W" seqno now] aw_okD [OF assms]
  by (cases "aw_iHead W \<ge> aw_iTail W") (auto simp: aw_acknowledge_def)

lemma new_ack_window:
  assumes "1 < n" "length u1 = nat n" "length u2 = nat n" "length u3 = nat n"
  shows "\<exists>W. CACKWindow n u1 u2 u3 = Some W \<and> aw_ok W \<and> aw_queue W = [] \<and> aw_iSize W = n"
  using assms by (simp add: CACKWindow_def wr_def aw_ok_def aw_queue_def)

lemma aw_queue_length: "aw_ok W \<Longrightarrow> int (length (aw_queue W)) = (aw_iHead W - aw_iTail W) mod aw_iSize W"
  by (simp add: aw_queue_def aw_ok_def)

lemma aw_store_ok:
  assumes ok: "aw_ok W"
  shows "\<exists>W'. aw_store now seqno ack W = Some W' \<and> aw_ok W' \<and> aw_iSize W' = aw_iSize W \<and>
    aw_queue W' = (if int (length (aw_queue W)) = aw_iSize W - 1 then tl (aw_queue W) else aw_queue W) @ [(seqno, ack, now)]"
proof -
  let ?N = "aw_iSize W" let ?H = "aw_iHead W" let ?T = "aw_iTail W"
  note D = aw_okD [OF ok]
  define l where "l = (?H - ?T) mod ?N"
  have l: "0 \<le> l" "l < ?N" "int (length (aw_queue W)) = l" using D aw_queue_length [OF ok] by (simp_all add: l_def)
  have Tl: "(?T + l) mod ?N = ?H" using D by (simp add: l_def mod_simps)
  let ?W1 = "W\<lparr>m_piACKSeqNo := (m_piACKSeqNo W)[nat ?H := seqno], m_piACK := (m_piACK W)[nat ?H := ack],
    m_pTimeStamp := (m_pTimeStamp W)[nat ?H := now], aw_iHead := (?H + 1) mod ?N\<rparr>"
  let ?W = "if (?H + 1) mod ?N = ?T then ?W1\<lparr>aw_iTail := (?T + 1) mod ?N\<rparr> else ?W1"
  have run: "aw_store now seqno ack W = Some ?W"
    using D by (simp add: aw_store_def wr_def Let_def)
  have full: "(?H + 1) mod ?N = ?T \<longleftrightarrow> l = ?N - 1"
  proof -
    have "(?H + 1) mod ?N = (?T + (l + 1)) mod ?N" using Tl by (metis add.assoc mod_add_left_eq)
    moreover have "?T = (?T + 0) mod ?N" using D by simp
    ultimately have "(?H + 1) mod ?N = ?T \<longleftrightarrow> (?T + (l + 1)) mod ?N = (?T + 0) mod ?N" by metis
    also have "\<dots> \<longleftrightarrow> (l + 1) mod ?N = 0" by (simp add: mod_eq_dvd_iff mod_eq_0_iff_dvd)
    also have "\<dots> \<longleftrightarrow> l = ?N - 1" using l D(1) by (cases "l + 1 = ?N") (auto simp: mod_pos_pos_trivial)
    finally show ?thesis .
  qed
  have old: "slot ?W1 (?T + k) = slot W (?T + k)" if "0 \<le> k" "k < l" for k
  proof -
    have "(?T + k) mod ?N \<noteq> (?T + l) mod ?N"
      using that l zdvd_not_zless [of "l - k" ?N] by (auto simp: mod_eq_dvd_iff dvd_diff_commute)
    then have "nat ((?T + k) mod ?N) \<noteq> nat ?H" using Tl D by (simp add: nat_eq_iff)
    then show ?thesis by (simp add: slot_def)
  qed
  have new: "slot ?W1 (?T + l) = (seqno, ack, now)" using Tl D by (simp add: slot_def)
  have q: "map (slot ?W1) [?T .. ?T + l] = aw_queue W @ [(seqno, ack, now)]"
  proof -
    have "[?T .. ?T + l] = [?T .. ?T + l - 1] @ [?T + l]" using l by (simp add: upto_rec2)
    moreover have "map (slot ?W1) [?T .. ?T + l - 1] = aw_queue W"
      unfolding aw_queue_def l_def [symmetric]
    proof (rule map_cong [OF refl])
      fix j assume "j \<in> set [?T .. ?T + l - 1]"
      then show "slot ?W1 j = slot W j" using old [of "j - ?T"] by simp
    qed
    ultimately show ?thesis using new by simp
  qed
  have sl: "slot (?W1\<lparr>aw_iTail := t\<rparr>) j = slot ?W1 j" for t j by (rule slot_cong) simp_all
  show ?thesis
  proof (cases "l = ?N - 1")
    case False
    have "((?H + 1) mod ?N - ?T) mod ?N = (?H + 1 - ?T) mod ?N" by (rule mod_diff_left_eq)
    also have "\<dots> = ((?H - ?T) mod ?N + 1) mod ?N" unfolding mod_add_left_eq by (simp add: algebra_simps)
    also have "\<dots> = l + 1" using l False by (simp flip: l_def)
    finally have "aw_queue ?W1 = map (slot ?W1) [?T .. ?T + l]" by (simp add: aw_queue_def)
    moreover have "aw_ok ?W1" using D by (simp add: aw_ok_def)
    ultimately show ?thesis using run full False l q by simp
  next
    case True
    let ?W2 = "?W1\<lparr>aw_iTail := (?T + 1) mod ?N\<rparr>"
    have h: "(?H + 1) mod ?N = ?T" using full True by simp
    define t where "t = (?T + 1) mod ?N"
    have "(?T - t) mod ?N = (- 1) mod ?N" unfolding t_def mod_diff_right_eq by simp
    also have "\<dots> = l" using True D(1) by (simp add: zmod_minus1)
    finally have "aw_queue ?W2 = map (slot ?W1) [t .. t + l - 1]"
      using h sl by (simp add: aw_queue_def t_def)
    also have "\<dots> = map (slot ?W1) [?T + 1 .. ?T + l]"
    proof (rule nth_equalityI)
      fix k assume k: "k < length (map (slot ?W1) [t .. t + l - 1])"
      then have "map (slot ?W1) [t .. t + l - 1] ! k = slot ?W1 (t + int k)" by simp
      also have "\<dots> = slot ?W1 (?T + 1 + int k)" by (simp add: slot_def t_def mod_add_left_eq)
      finally show "map (slot ?W1) [t .. t + l - 1] ! k = map (slot ?W1) [?T + 1 .. ?T + l] ! k"
        using k by simp
    qed simp
    also have "\<dots> = tl (map (slot ?W1) [?T .. ?T + l])" using l by (simp add: upto_rec1)
    also have "\<dots> = tl (aw_queue W) @ [(seqno, ack, now)]"
      using q l True D(1) by (cases "aw_queue W") auto
    finally have "aw_queue ?W2 = tl (aw_queue W) @ [(seqno, ack, now)]" .
    moreover have "aw_ok ?W2" using D by (simp add: aw_ok_def)
    ultimately show ?thesis using run h True l by simp
  qed
qed

end
