(* ===== verification/UdtPacket.thy ===== *)
theory UdtPacket
  imports KadPrelude UdtMem
begin

section \<open>UDT: packets\<close>

text \<open>
  \<open>CPacket\<close> and \<open>CHandShake\<close> of \<open>udt4/src/packet.cpp\<close>: four header words and a pointer with a
  length to the data. The data is a sequence of 32-bit values (control packets) or of
  bytes (data packets); a \<open>NULL\<close> pointer is \<open>None\<close>.
\<close>

datatype payload = Words "int list" | Bytes "u8 list"

record cpacket =
  m_nHeader :: "u32 list"
  iov_base :: "payload option"
  iov_len :: int

definition CPacket :: cpacket where
  "CPacket = \<lparr>m_nHeader = [0, 0, 0, 0], iov_base = None, iov_len = 0\<rparr>"

definition getLength :: "cpacket \<Rightarrow> int" where
  "getLength p = iov_len p"

definition setLength :: "int \<Rightarrow> cpacket \<Rightarrow> cpacket" where
  "setLength l p = p\<lparr>iov_len := l\<rparr>"

text \<open>The references \<open>m_iSeqNo\<close>, \<open>m_iMsgNo\<close>, \<open>m_iTimeStamp\<close> and \<open>m_iID\<close> to the header words.\<close>

definition hdr :: "nat \<Rightarrow> cpacket \<Rightarrow> int" where
  "hdr i p = sint (m_nHeader p ! i)"

definition set_hdr :: "nat \<Rightarrow> int \<Rightarrow> cpacket \<Rightarrow> cpacket" where
  "set_hdr i v p = p\<lparr>m_nHeader := (m_nHeader p)[i := word_of_int v]\<rparr>"

definition pad :: payload where
  "pad = Words [0]"

text \<open>
  \<open>pack\<close>: \<open>lparam\<close> is the \<open>int32_t\<close> it points to, \<open>rparam\<close> the data; the result is \<open>None\<close>
  where the code dereferences a \<open>NULL\<close> \<open>lparam\<close>.
\<close>

definition pack :: "int \<Rightarrow> int option \<Rightarrow> payload option \<Rightarrow> int \<Rightarrow> cpacket \<Rightarrow> cpacket option" where
  "pack pkttype lparam rparam siz p =
     (let p = p\<lparr>m_nHeader := (m_nHeader p)[0 := 0x80000000 OR word_of_int (pkttype * 2 ^ 16)]\<rparr>;
          ctl = (\<lambda>p. p\<lparr>iov_base := rparam, iov_len := siz\<rparr>);
          none = (\<lambda>p. p\<lparr>iov_base := Some pad, iov_len := 4\<rparr>)
      in if pkttype = 2 then
           Some (ctl (case lparam of None \<Rightarrow> p | Some l \<Rightarrow> set_hdr 1 l p))
         else if pkttype = 6 then map_option (\<lambda>l. none (set_hdr 1 l p)) lparam
         else if pkttype = 3 then Some (ctl p)
         else if pkttype = 4 then Some (none p)
         else if pkttype = 1 then Some (none p)
         else if pkttype = 0 then Some (ctl p)
         else if pkttype = 5 then Some (none p)
         else if pkttype = 7 then map_option (\<lambda>l. ctl (set_hdr 1 l p)) lparam
         else if pkttype = 8 then map_option (\<lambda>l. none (set_hdr 1 l p)) lparam
         else if pkttype = 32767 then
           map_option (\<lambda>l. (if rparam \<noteq> None then ctl else none)
               (p\<lparr>m_nHeader := (m_nHeader p)[0 := (m_nHeader p ! 0) OR word_of_int l]\<rparr>)) lparam
         else Some p)"

definition getFlag :: "cpacket \<Rightarrow> int" where
  "getFlag p = uint (drop_bit 31 (m_nHeader p ! 0))"

definition getType :: "cpacket \<Rightarrow> int" where
  "getType p = uint (drop_bit 16 (m_nHeader p ! 0) AND 0x7FFF)"

definition getExtendedType :: "cpacket \<Rightarrow> int" where
  "getExtendedType p = uint (m_nHeader p ! 0 AND 0xFFFF)"

definition getAckSeqNo :: "cpacket \<Rightarrow> int" where
  "getAckSeqNo p = sint (m_nHeader p ! 1)"

definition getMsgBoundary :: "cpacket \<Rightarrow> int" where
  "getMsgBoundary p = uint (drop_bit 30 (m_nHeader p ! 1))"

definition getMsgOrderFlag :: "cpacket \<Rightarrow> bool" where
  "getMsgOrderFlag p \<longleftrightarrow> drop_bit 29 (m_nHeader p ! 1) AND 1 = 1"

definition getMsgSeq :: "cpacket \<Rightarrow> int" where
  "getMsgSeq p = uint (m_nHeader p ! 1 AND 0x1FFFFFFF)"

text \<open>\<open>clone\<close> copies the header and as many bytes of the data as the length says.\<close>

definition clone :: "cpacket \<Rightarrow> cpacket option" where
  "clone p =
     (case iov_base p of
        Some (Bytes bs) \<Rightarrow>
          if 0 \<le> iov_len p \<and> iov_len p \<le> int (length bs)
          then Some \<lparr>m_nHeader = m_nHeader p, iov_base = Some (Bytes (take (nat (iov_len p)) bs)), iov_len = iov_len p\<rparr>
          else None
      | Some (Words ws) \<Rightarrow>
          if iov_len p = 4 * int (length ws)
          then Some \<lparr>m_nHeader = m_nHeader p, iov_base = Some (Words ws), iov_len = iov_len p\<rparr>
          else None
      | None \<Rightarrow> None)"

subsection \<open>The handshake\<close>

record chandshake =
  hs_iVersion :: u32
  hs_iType :: u32
  hs_iISN :: u32
  hs_iMSS :: u32
  hs_iFlightFlagSize :: u32
  hs_iReqType :: u32
  hs_iID :: u32
  hs_iCookie :: u32
  hs_piPeerIP :: "u32 list"

definition CHandShake :: chandshake where
  "CHandShake = \<lparr>hs_iVersion = 0, hs_iType = 0, hs_iISN = 0, hs_iMSS = 0, hs_iFlightFlagSize = 0,
     hs_iReqType = 0, hs_iID = 0, hs_iCookie = 0, hs_piPeerIP = [0, 0, 0, 0]\<rparr>"

definition hs_contentSize :: int where
  "hs_contentSize = 48"

text \<open>
  The buffer is its 32-bit cells; the results are the return value, the buffer and \<open>size\<close>.
  \<open>None\<close> where the buffer ends before its twelfth cell.
\<close>

definition hs_serialize :: "chandshake \<Rightarrow> u32 list \<Rightarrow> int \<Rightarrow> (int \<times> u32 list \<times> int) option" where
  "hs_serialize h buf siz =
     (if siz < hs_contentSize then Some (-1, buf, siz)
      else if length buf < 12 then None
      else Some (0,
        [hs_iVersion h, hs_iType h, hs_iISN h, hs_iMSS h, hs_iFlightFlagSize h, hs_iReqType h, hs_iID h, hs_iCookie h]
          @ hs_piPeerIP h @ drop 12 buf,
        hs_contentSize))"

definition hs_deserialize :: "chandshake \<Rightarrow> u32 list \<Rightarrow> int \<Rightarrow> (int \<times> chandshake) option" where
  "hs_deserialize h buf siz =
     (if siz < hs_contentSize then Some (-1, h)
      else if length buf < 12 then None
      else Some (0, \<lparr>hs_iVersion = buf ! 0, hs_iType = buf ! 1, hs_iISN = buf ! 2, hs_iMSS = buf ! 3,
        hs_iFlightFlagSize = buf ! 4, hs_iReqType = buf ! 5, hs_iID = buf ! 6, hs_iCookie = buf ! 7,
        hs_piPeerIP = [buf ! 8, buf ! 9, buf ! 10, buf ! 11]\<rparr>))"

lemma handshake_codec:
  assumes "48 \<le> siz" "12 \<le> length buf" "length (hs_piPeerIP h) = 4"
  shows "\<exists>buf'. hs_serialize h buf siz = Some (0, buf', 48) \<and> hs_deserialize h0 buf' 48 = Some (0, h) \<and>
    length buf' = length buf \<and> drop 12 buf' = drop 12 buf"
proof -
  obtain a b c d where ip: "hs_piPeerIP h = [a, b, c, d]"
    using assms(3) by (auto simp: length_Suc_conv numeral_eq_Suc)
  show ?thesis
    using assms(1,2) ip
    by (cases h) (simp add: hs_serialize_def hs_deserialize_def hs_contentSize_def)
qed

subsection \<open>Header fields\<close>

definition ctl_header :: "int \<Rightarrow> u32" where
  "ctl_header t = 0x80000000 OR word_of_int (t * 2 ^ 16)"

lemma ctl_header_bit:
  "n < 32 \<Longrightarrow> bit (ctl_header t) n \<longleftrightarrow> n = 31 \<or> (16 \<le> n \<and> bit t (n - 16))"
proof -
  have s: "t * 2 ^ 16 = push_bit 16 t" by (simp add: push_bit_eq_mult)
  assume "n < 32"
  then show "bit (ctl_header t) n \<longleftrightarrow> n = 31 \<or> (16 \<le> n \<and> bit t (n - 16))"
    unfolding ctl_header_def s bit_or_iff bit_top31 bit_word_of_int_iff bit_push_bit_iff by auto
qed

lemma ctl_header_fields:
  assumes "0 \<le> t" "t < 2 ^ 15"
  shows "drop_bit 31 (ctl_header t) = 1" "uint (drop_bit 16 (ctl_header t) AND 0x7FFF) = t"
proof -
  show "drop_bit 31 (ctl_header t) = 1"
    by (rule bit_word_eqI) (auto simp: bit_drop_bit_eq bit_1_iff ctl_header_bit dest: bit_imp_le_length)
  have m: "(0x7FFF :: u32) = mask 15" by (simp add: mask_eq_exp_minus_1)
  have tb: "\<not> bit t n" if "15 \<le> n" for n
    using int_bit_bound [OF assms] that by fastforce
  have "drop_bit 16 (ctl_header t) AND 0x7FFF = word_of_int t"
  proof (rule bit_word_eqI)
    fix n assume n: "n < LENGTH(32)"
    show "bit (drop_bit 16 (ctl_header t) AND 0x7FFF) n = bit (word_of_int t :: u32) n"
      unfolding m bit_and_iff bit_mask_iff bit_drop_bit_eq o_apply bit_word_of_int_iff
      using tb [of n] n ctl_header_bit [of "16 + n" t] by (cases "n < 15") auto
  qed
  then show "uint (drop_bit 16 (ctl_header t) AND 0x7FFF) = t"
    using assms by (simp add: uint_word_of_int)
qed

end
