(* ===== verification/UdtProps.thy ===== *)
theory UdtProps
  imports UdtLossIface UdtAckWindow UdtPacket
begin

section \<open>Properties of the transport's data structures\<close>

lemma length_numbers: "iv_ok N us \<Longrightarrow> separate us \<Longrightarrow> int (length us) \<le> int (card (numbers us))"
proof -
  assume i: "iv_ok N us" and s: "separate us"
  have "int (length us) \<le> total us" if "\<forall>u \<in> set us. fst u \<le> snd u" using that by (induction us) auto
  then show ?thesis using total_card [OF s] i by (simp add: iv_ok_def)
qed

subsection \<open>Sequence numbers\<close>

text \<open>
  C32: On the circle of two to the 31 sequence numbers, \<open>seqcmp\<close>, \<open>seqoff\<close> and \<open>seqlen\<close> read the
  signed distance of two numbers that are less than a quarter of the circle apart, whether or not the
  circle closes between them, and \<open>incseq\<close> and \<open>decseq\<close> step along it.
\<close>

theorem seqno_circle:
  assumes "seq_ok s" "abs k < m_iSeqNoTH"
  shows "seqoff s (wrap (s + k)) = k \<and> sgn (seqcmp (wrap (s + k)) s) = sgn k \<and>
    (0 \<le> k \<longrightarrow> seqlen s (wrap (s + k)) = k + 1 \<and> incseq_by s k = wrap (s + k)) \<and>
    incseq s = wrap (s + 1) \<and> decseq s = wrap (s - 1) \<and> seq_ok (incseq s) \<and> decseq (incseq s) = s"
proof -
  have "0 \<le> k \<Longrightarrow> seqlen s (wrap (s + k)) = k + 1 \<and> incseq_by s k = wrap (s + k)"
    using seqlen_add [OF assms(1), of k] incseq_by_wrap [OF assms(1), of k] assms(2) by simp
  then show ?thesis
    using assms seqoff_add [OF assms] seqcmp_add [OF assms] incseq_ok [OF assms(1)] decseq_incseq [OF assms(1)]
      incseq_wrap [OF assms(1)] decseq_wrap [OF assms(1)] by blast
qed

theorem seqno_circle_witness:
  "seqoff 2147483646 3 = 5 \<and> sgn (seqcmp 3 2147483646) = 1 \<and> seqlen 2147483646 3 = 6"
proof -
  have "wrap (2147483646 + 5) = 3" by (simp add: wrap_def)
  then show ?thesis using seqno_circle [of 2147483646 5] by (simp add: seq_ok_def)
qed

subsection \<open>Loss lists\<close>

text \<open>
  C28: The sender's loss list, an array of linked intervals, is a set of sequence numbers: \<open>insert\<close>
  is union and returns how many numbers are new, \<open>remove\<close> drops everything up to a number,
  \<open>getLostSeq\<close> takes out the smallest number, \<open>getLossLength\<close> is the cardinality. No access is out of
  bounds and every search returns.
\<close>

theorem snd_loss_list_is_set:
  assumes "snd_lost L S"
  shows "(in_window (m_iSize L) S x y \<longrightarrow>
      (\<exists>L'. snd_insert (wrap x) (wrap y) L = Some (int (card (S \<union> {x..y})) - int (card S), L') \<and>
        snd_lost L' (S \<union> {x..y}) \<and> m_iSize L' = m_iSize L)) \<and>
    ((S \<noteq> {} \<longrightarrow> near (Min S) z) \<longrightarrow>
      (\<exists>L'. snd_remove (wrap z) L = Some L' \<and> snd_lost L' {n \<in> S. z < n} \<and> m_iSize L' = m_iSize L)) \<and>
    (if S = {} then getLostSeq L = Some (-1, L)
     else \<exists>L'. getLostSeq L = Some (wrap (Min S), L') \<and> snd_lost L' (S - {Min S}) \<and> m_iSize L' = m_iSize L) \<and>
    snd_getLossLength L = int (card S)"
  using snd_lost_insert [OF assms] snd_lost_remove [OF assms] snd_lost_next [OF assms] snd_lost_length [OF assms]
  by simp

theorem snd_loss_list_is_set_witness:
  "\<exists>L1 L2 L3. snd_insert 2147483646 1 (CSndLossList 8 (replicate 8 0)) = Some (4, L1) \<and>
     snd_remove 0 L1 = Some L2 \<and> getLostSeq L2 = Some (1, L3) \<and> snd_getLossLength L3 = 0"
proof -
  let ?L = "CSndLossList 8 (replicate 8 0)"
  let ?a = "2147483646 :: int"
  have w: "wrap ?a = 2147483646" "wrap (?a + 3) = 1" "wrap (?a + 2) = 0" by (simp_all add: wrap_def)
  have s: "m_iSize ?L = 8" by (simp add: CSndLossList_def)
  have a: "snd_lost ?L {}" by (rule snd_lost_new) auto
  have "in_window (m_iSize ?L) {} ?a (?a + 3)" by (simp add: s in_window_def)
  then obtain L1 where 1: "snd_insert 2147483646 1 ?L = Some (4, L1)" "snd_lost L1 {?a..?a + 3}"
    using snd_loss_list_is_set [OF a, of ?a "?a + 3"] unfolding w by auto
  have m: "Min {?a..?a + 3} = ?a" by (rule Min_eqI) auto
  have n: "near (Min {?a..?a + 3}) (?a + 2)" unfolding m by (simp add: near_def)
  obtain L2 where 2: "snd_remove 0 L1 = Some L2" "snd_lost L2 {n \<in> {?a..?a + 3}. ?a + 2 < n}"
    using snd_loss_list_is_set [OF 1(2), of ?a ?a "?a + 2"] n unfolding w by blast
  have "{n \<in> {?a..?a + 3}. ?a + 2 < n} = {?a + 3}" by auto
  then have l2: "snd_lost L2 {?a + 3}" using 2(2) by simp
  obtain L3 where 3: "getLostSeq L2 = Some (1, L3)" "snd_lost L3 {}"
    using snd_loss_list_is_set [OF l2, of ?a ?a ?a] unfolding w(2) [symmetric] by auto
  then show ?thesis using 1 2 snd_loss_list_is_set [OF 3(2), of ?a ?a ?a] by auto
qed

text \<open>
  C29: The receiver's loss list is a set of sequence numbers, too: \<open>insert\<close> of numbers beyond
  those in the list is union, \<open>remove\<close> deletes one number and tells whether it was there, \<open>find\<close> tells
  whether a number of an interval is missing, \<open>getFirstLostSeq\<close> is the minimum.
\<close>

theorem rcv_loss_list_is_set:
  assumes "rcv_lost L S"
  shows "(in_window (r_iSize L) S x y \<and> (\<forall>n \<in> S. n < x) \<longrightarrow>
      (\<exists>L'. rcv_insert (wrap x) (wrap y) L = Some L' \<and> rcv_lost L' (S \<union> {x..y}) \<and> r_iSize L' = r_iSize L)) \<and>
    ((S \<noteq> {} \<longrightarrow> near (Min S) z \<and> z - Min S < r_iSize L) \<longrightarrow>
      (\<exists>L'. rcv_remove (wrap z) L = Some (z \<in> S, L') \<and> rcv_lost L' (S - {z}) \<and> r_iSize L' = r_iSize L)) \<and>
    (x \<le> y \<and> near x y \<and> (\<forall>n \<in> S. near n x \<and> near n y) \<longrightarrow>
      rcv_find (wrap x) (wrap y) L = Some (\<exists>n \<in> S. x \<le> n \<and> n \<le> y)) \<and>
    getFirstLostSeq L = Some (if S = {} then -1 else wrap (Min S)) \<and>
    rcv_getLossLength L = int (card S)"
  using rcv_lost_insert [OF assms] rcv_lost_remove [OF assms] rcv_lost_find [OF assms] rcv_lost_first [OF assms]
    rcv_lost_length [OF assms]
  by auto

theorem rcv_loss_list_is_set_witness:
  "\<exists>L1 L2. rcv_insert 2147483646 1 (CRcvLossList 8 (replicate 8 0) (replicate 8 0)) = Some L1 \<and>
     rcv_remove 0 L1 = Some (True, L2) \<and> getFirstLostSeq L2 = Some 2147483646 \<and> rcv_getLossLength L2 = 3"
proof -
  let ?L = "CRcvLossList 8 (replicate 8 0) (replicate 8 0)"
  let ?a = "2147483646 :: int"
  have w: "wrap ?a = 2147483646" "wrap (?a + 3) = 1" "wrap (?a + 2) = 0" by (simp_all add: wrap_def)
  have s: "r_iSize ?L = 8" by (simp add: CRcvLossList_def)
  have a: "rcv_lost ?L {}" by (rule rcv_lost_new) auto
  have "in_window (r_iSize ?L) {} ?a (?a + 3)" by (simp add: s in_window_def)
  then obtain L1 where 1: "rcv_insert 2147483646 1 ?L = Some L1" "rcv_lost L1 {?a..?a + 3}" "r_iSize L1 = 8"
    using rcv_loss_list_is_set [OF a, of ?a "?a + 3"] s unfolding w by auto
  have m: "Min {?a..?a + 3} = ?a" by (rule Min_eqI) auto
  have n: "near (Min {?a..?a + 3}) (?a + 2) \<and> ?a + 2 - Min {?a..?a + 3} < r_iSize L1"
    unfolding m 1(3) by (simp add: near_def)
  obtain L2 where 2: "rcv_remove 0 L1 = Some (?a + 2 \<in> {?a..?a + 3}, L2)" "rcv_lost L2 ({?a..?a + 3} - {?a + 2})"
    using rcv_loss_list_is_set [OF 1(2), of ?a ?a "?a + 2"] n unfolding w by blast
  have m2: "Min ({?a..?a + 3} - {?a + 2}) = ?a" by (rule Min_eqI) auto
  have "?a \<in> {?a..?a + 3} - {?a + 2}" by simp
  then have ne: "{?a..?a + 3} - {?a + 2} \<noteq> {}" by blast
  have c: "card ({?a..?a + 3} - {?a + 2}) = 3" by (subst card_Diff_singleton) auto
  show ?thesis using 1(1) 2(1) rcv_loss_list_is_set [OF 2(2), of ?a ?a ?a] ne w(1)
    unfolding m2 c by auto
qed

subsection \<open>The loss report\<close>

text \<open>
  C30: A loss report reaches the sender: what the receiver lists with \<open>getLossArray\<close>, decoded by
  the loop of \<open>processCtrl\<close>, adds to the sender's loss list exactly the receiver's missing numbers that
  are not acknowledged yet, and raises the loss counter by the number of new ones.
\<close>

theorem nak_end_to_end:
  assumes "rcv_lost R S" "snd_lost L T" "2 * int (card S) \<le> limit"
    "\<forall>n \<in> S. n \<le> sent \<and> near n ack \<and> near n sent"
    "\<forall>n \<in> T. lo \<le> n \<and> n \<le> sent" "lo \<le> ack" "sent - lo < m_iSize L"
  shows "\<exists>losses L'. getLossArray limit R = Some losses \<and>
    nak_loop (wrap ack) (wrap sent) losses num L =
      Some (True, num + (int (card (T \<union> {n \<in> S. ack \<le> n})) - int (card T)), L') \<and>
    snd_lost L' (T \<union> {n \<in> S. ack \<le> n})"
proof -
  obtain d us where R: "rcv_rep d us R" and S: "numbers us = S" using assms(1) by (auto simp: rcv_lost_def)
  obtain e vs where L: "snd_rep e vs L" and T: "numbers vs = T" using assms(2) by (auto simp: snd_lost_def)
  note iv = rcv_repD(5) [OF R]
  have n: "int (length us) \<le> int (card S)" using length_numbers [OF iv rcv_repD(6) [OF R]] S by simp
  have "getLossArray limit R = Some (concat (map report_one us))"
    using getLossArray_rep [OF R] report_all [of "[]" us limit] assms(3) n by simp
  moreover have "\<forall>(a, b) \<in> set us. a \<le> b \<and> b \<le> sent \<and> near a b \<and> near a ack \<and> near b ack \<and> near a sent \<and> near b sent"
  proof (clarify)
    fix a b assume m: "(a, b) \<in> set us"
    have "a \<in> S" "b \<in> S" "a \<le> b" using ends_in_numbers [of us "(a, b)"] m iv S by (auto simp: iv_ok_def)
    then show "a \<le> b \<and> b \<le> sent \<and> near a b \<and> near a ack \<and> near b ack \<and> near a sent \<and> near b sent"
      using assms(4) iv_near(2) [OF iv rcv_repD(2) [OF R] m m] by blast
  qed
  ultimately obtain e' vs' L' where N: "getLossArray limit R = Some (concat (map report_one us))"
    "nak_loop (wrap ack) (wrap sent) (concat (map report_one us)) num L = Some (True, num + (total vs' - total vs), L')"
    "snd_rep e' vs' L'" "numbers vs' = T \<union> {n \<in> S. ack \<le> n}"
    using nak_loop_ok [of us sent ack e vs L lo num] L S T assms(5-7) by auto
  have "total vs' = int (card (numbers vs'))" "total vs = int (card (numbers vs))"
    using snd_lost_iv [OF N(3)] snd_lost_iv [OF L] by (simp_all add: total_card iv_ok_def)
  then show ?thesis using N T by (intro exI [of _ "concat (map report_one us)"] exI [of _ L']) (auto simp: snd_lost_def)
qed

theorem nak_end_to_end_witness:
  "\<exists>R losses L'. rcv_insert 10 12 (CRcvLossList 8 (replicate 8 0) (replicate 8 0)) = Some R \<and>
     getLossArray 6 R = Some losses \<and>
     nak_loop 11 15 losses 0 (CSndLossList 16 (replicate 16 0)) = Some (True, 2, L') \<and> snd_lost L' {11, 12}"
proof -
  let ?R = "CRcvLossList 8 (replicate 8 0) (replicate 8 0)"
  let ?L = "CSndLossList 16 (replicate 16 0)"
  have w: "wrap 10 = 10" "wrap 11 = 11" "wrap 12 = 12" "wrap 15 = 15" by (simp_all add: wrap_def)
  have s: "m_iSize ?L = 16" "r_iSize ?R = 8" by (simp_all add: CSndLossList_def CRcvLossList_def)
  have r: "rcv_lost ?R {}" by (rule rcv_lost_new) auto
  have l: "snd_lost ?L {}" by (rule snd_lost_new) auto
  have "in_window (r_iSize ?R) {} 10 12" by (simp add: s in_window_def)
  then obtain R where R: "rcv_insert 10 12 ?R = Some R" "rcv_lost R {10..12}"
    using rcv_lost_insert [OF r, of 10 12] unfolding w by auto
  have near: "near 10 11" "near 11 11" "near 12 11" "near 10 15" "near 11 15" "near 12 15" by (simp_all add: near_def)
  have e: "{n \<in> {10..12}. 11 \<le> n} = {11, 12 :: int}" by auto
  have near': "\<forall>n \<in> {10..12}. n \<le> 15 \<and> near n 11 \<and> near n (15 :: int)"
  proof
    fix n :: int assume "n \<in> {10..12}"
    then have "n = 10 \<or> n = 11 \<or> n = 12" by auto
    then show "n \<le> 15 \<and> near n 11 \<and> near n 15" by (elim disjE) (simp_all add: near)
  qed
  show ?thesis
    using nak_end_to_end [OF R(2) l, of 6 15 11 11 0] R(1) near' s(1) unfolding w e by auto
qed

subsection \<open>Acknowledgements\<close>

text \<open>
  C31: The window of sent acknowledgements is a queue of the last \<open>m_iSize - 1\<close> of them: \<open>store\<close>
  appends and forgets the oldest when it is full, \<open>acknowledge\<close> returns the round trip time and the data
  acknowledgement of the oldest entry with the number and drops the queue up to it, or leaves it.
\<close>

theorem ack_window_is_queue:
  assumes "aw_ok W"
  shows "(\<exists>W'. aw_store now seqno ack W = Some W' \<and> aw_ok W' \<and> aw_iSize W' = aw_iSize W \<and>
      aw_queue W' = (if int (length (aw_queue W)) = aw_iSize W - 1 then tl (aw_queue W) else aw_queue W) @ [(seqno, ack, now)]) \<and>
    (\<exists>r W'. aw_acknowledge now seqno W = Some (r, W') \<and> aw_ok W' \<and> aw_iSize W' = aw_iSize W \<and>
      (r, aw_queue W') = ack_spec now seqno (aw_queue W))"
  using aw_store_ok [OF assms] aw_acknowledge_ok [OF assms] by blast

theorem ack_window_is_queue_witness:
  "\<exists>W W'. CACKWindow 4 [0, 0, 0, 0] [0, 0, 0, 0] [0, 0, 0, 0] = Some W \<and> aw_store 7 1 20 W = Some W' \<and>
     aw_queue W' = [(1, 20, 7)]"
proof -
  obtain W where W: "CACKWindow 4 [0, 0, 0, 0] [0, 0, 0, 0] [0, 0, 0, 0] = Some W" "aw_ok W" "aw_queue W = []" "aw_iSize W = 4"
    using new_ack_window [of 4 "[0, 0, 0, 0]" "[0, 0, 0, 0]" "[0, 0, 0, 0]"] by auto
  then show ?thesis using ack_window_is_queue [OF W(2), of 7 1 20] by auto
qed

subsection \<open>Packets\<close>

lemma packed_header:
  assumes "pack t lp rp siz p = Some q" "length (m_nHeader p) = 4" "t \<noteq> 32767"
  shows "m_nHeader q ! 0 = ctl_header t" "length (m_nHeader q) = 4"
    "t \<in> {2, 6, 7, 8} \<Longrightarrow> lp = Some l \<Longrightarrow> m_nHeader q ! 1 = word_of_int l"
  using assms by (auto simp: pack_def ctl_header_def Let_def set_hdr_def nth_list_update split: if_splits option.splits)

text \<open>
  A packed control packet is read back by the peer as a control packet of the type it was
  packed with, and carries the additional word; a handshake written into a large enough buffer is read
  back field by field.
\<close>

theorem packet_fields:
  assumes "pack t lp rp siz p = Some q" "length (m_nHeader p) = 4" "t \<in> {0..8}"
    and "48 \<le> n" "12 \<le> length buf" "length (hs_piPeerIP h) = 4"
  shows "getFlag q = 1 \<and> getType q = t \<and>
    (t \<in> {2, 6, 7, 8} \<and> lp = Some l \<and> -0x80000000 \<le> l \<and> l < 0x80000000 \<longrightarrow> getAckSeqNo q = l) \<and>
    (\<exists>buf'. hs_serialize h buf n = Some (0, buf', 48) \<and> hs_deserialize CHandShake buf' 48 = Some (0, h))"
proof -
  have t: "0 \<le> t" "t < 2 ^ 15" "t \<noteq> 32767" using assms(3) by auto
  note H = packed_header [OF assms(1,2) t(3)]
  have "getAckSeqNo q = l" if "t \<in> {2, 6, 7, 8}" "lp = Some l" "-0x80000000 \<le> l" "l < 0x80000000"
  proof -
    have "sint (word_of_int l :: 32 word) = signed_take_bit 31 l" by (simp add: sint_sbintrunc')
    also have "\<dots> = l" using that(3,4) by (simp add: signed_take_bit_int_eq_self)
    finally show ?thesis using H(3) [OF that(1,2)] by (simp add: getAckSeqNo_def)
  qed
  moreover have "getFlag q = 1" "getType q = t"
    using H(1) ctl_header_fields [OF t(1,2)] by (simp_all add: getFlag_def getType_def)
  ultimately show ?thesis using handshake_codec [OF assms(4-6), of CHandShake] by blast
qed

theorem packet_fields_witness:
  "\<exists>q. pack 2 (Some 5) (Some (Words [77])) 4 CPacket = Some q \<and> getFlag q = 1 \<and> getType q = 2 \<and> getAckSeqNo q = 5"
proof -
  obtain q where q: "pack 2 (Some 5) (Some (Words [77])) 4 CPacket = Some q" by (simp add: pack_def)
  have "length (m_nHeader CPacket) = 4" "length (hs_piPeerIP CHandShake) = 4" by (simp_all add: CPacket_def CHandShake_def)
  with packet_fields [OF q, of 48 "replicate 12 0" CHandShake 5] q show ?thesis by auto
qed

end
