(* ===== verification/UdtSndBuffer.thy ===== *)
theory UdtSndBuffer
  imports KadPrelude UdtMem
begin

section \<open>UDT: the sender's buffer\<close>

text \<open>
  \<open>CSndBuffer\<close> of \<open>udt4/src/buffer.cpp\<close>: a ring of blocks with three pointers into it, and
  physical buffers that the blocks point into. An address of a block is its index in
  \<open>sb_heap\<close>, in the order of allocation; a \<open>char*\<close> is a physical buffer, counted along its
  list, and an offset. \<open>None\<close> is undefined behaviour: an address or a copy out of bounds, a
  division by zero, and a loop that does not end. The mutex is left out, and \<open>new\<close> does not fail.

  What \<open>new\<close> leaves uninitialised is an argument: \<open>un p\<close> is what the block at address \<open>p\<close> holds when
  it is allocated, \<open>um k i\<close> the byte at offset \<open>i\<close> of the physical buffer \<open>k\<close>.
\<close>

subsection \<open>State\<close>

record block =
  b_pcData :: "nat \<times> int"
  b_iLength :: int
  b_iMsgNo :: u32
  b_OriginTime :: u64
  b_iTTL :: int
  b_pNext :: nat

record phys_buffer =
  p_pcData :: "u8 list"
  p_iSize :: int

record snd_buffer =
  sb_heap :: "block list"
  sb_pBlock :: nat
  sb_pFirstBlock :: nat
  sb_pCurrBlock :: nat
  sb_pLastBlock :: nat
  sb_pBuffer :: "phys_buffer list"
  sb_iNextMsgNo :: u32
  sb_iSize :: int
  sb_iMSS :: int
  sb_iCount :: int

type_synonym fresh_blocks = "nat \<Rightarrow> block"
type_synonym fresh_bytes = "nat \<Rightarrow> nat \<Rightarrow> u8"

text \<open>The block at an address, and an assignment to its fields.\<close>

definition deref :: "nat \<Rightarrow> snd_buffer \<Rightarrow> block option" where
  "deref p B = rd (sb_heap B) (int p)"

definition assign :: "nat \<Rightarrow> (block \<Rightarrow> block) \<Rightarrow> snd_buffer \<Rightarrow> snd_buffer option" where
  "assign p f B = do { b \<leftarrow> deref p B; Some (B\<lparr>sb_heap := (sb_heap B)[p := f b]\<rparr>) }"

text \<open>\<open>memcpy\<close> into a physical buffer.\<close>

definition copy_in :: "u8 list \<Rightarrow> nat \<times> int \<Rightarrow> snd_buffer \<Rightarrow> snd_buffer option" where
  "copy_in bs ptr B =
     (case ptr of (k, off) \<Rightarrow>
        if k < length (sb_pBuffer B) \<and> 0 \<le> off \<and> off + int (length bs) \<le> int (length (p_pcData (sb_pBuffer B ! k)))
        then (let m = p_pcData (sb_pBuffer B ! k); n = nat off in
          Some (B\<lparr>sb_pBuffer := (sb_pBuffer B)[k := (sb_pBuffer B ! k)\<lparr>p_pcData := take n m @ bs @ drop (n + length bs) m\<rparr>]\<rparr>))
        else None)"

subsection \<open>Construction and growth\<close>

text \<open>
  \<open>n\<close> new blocks from address \<open>base\<close> on, the last of which points to \<open>succ\<close>; the first \<open>siz\<close> of them get
  their part of the physical buffer \<open>k\<close>. The constructor clears the message number of all but the
  last block, \<open>increase\<close> of none.
\<close>

definition new_blocks :: "fresh_blocks \<Rightarrow> nat \<Rightarrow> nat \<Rightarrow> nat \<Rightarrow> nat \<Rightarrow> int \<Rightarrow> int \<Rightarrow> bool \<Rightarrow> block list" where
  "new_blocks un base n succ k siz mss clear =
     map (\<lambda>i. let b = un (base + i);
              b = (if Suc i < n then b\<lparr>b_pNext := base + Suc i\<rparr> else b\<lparr>b_pNext := succ\<rparr>);
              b = (if clear \<and> Suc i < n then b\<lparr>b_iMsgNo := 0\<rparr> else b)
          in if int i < siz then b\<lparr>b_pcData := (k, int i * mss)\<rparr> else b) [0..<n]"

definition new_bytes :: "fresh_bytes \<Rightarrow> nat \<Rightarrow> int \<Rightarrow> phys_buffer" where
  "new_bytes um k n = \<lparr>p_pcData = map (um k) [0..<nat n], p_iSize = 0\<rparr>"

definition CSndBuffer :: "fresh_blocks \<Rightarrow> fresh_bytes \<Rightarrow> int \<Rightarrow> int \<Rightarrow> snd_buffer" where
  "CSndBuffer un um siz mss =
     \<lparr>sb_heap = new_blocks un 0 (nat (max 1 siz)) 0 0 siz mss True,
      sb_pBlock = 0, sb_pFirstBlock = 0, sb_pCurrBlock = 0, sb_pLastBlock = 0,
      sb_pBuffer = [(new_bytes um 0 (siz * mss))\<lparr>p_iSize := siz\<rparr>],
      sb_iNextMsgNo = 1, sb_iSize = siz, sb_iMSS = mss, sb_iCount = 0\<rparr>"

definition sb_increase :: "fresh_blocks \<Rightarrow> fresh_bytes \<Rightarrow> snd_buffer \<Rightarrow> snd_buffer option" where
  "sb_increase un um B =
     do { pb \<leftarrow> rd (sb_pBuffer B) 0;
          let unitsize = p_iSize pb;
          let k = length (sb_pBuffer B);
          let B = B\<lparr>sb_pBuffer := sb_pBuffer B @ [(new_bytes um k (unitsize * sb_iMSS B))\<lparr>p_iSize := unitsize\<rparr>]\<rparr>;
          let nblk = length (sb_heap B);
          l \<leftarrow> deref (sb_pLastBlock B) B;
          let B = B\<lparr>sb_heap := sb_heap B @ new_blocks un nblk (nat (max 1 unitsize)) (b_pNext l) k unitsize (sb_iMSS B) False\<rparr>;
          B \<leftarrow> assign (sb_pLastBlock B) (b_pNext_update (\<lambda>_. nblk)) B;
          Some (B\<lparr>sb_iSize := sb_iSize B + unitsize\<rparr>) }"

text \<open>\<open>while (size + m_iCount >= m_iSize) increase();\<close>\<close>

partial_function (option) sb_reserve :: "fresh_blocks \<Rightarrow> fresh_bytes \<Rightarrow> int \<Rightarrow> snd_buffer \<Rightarrow> snd_buffer option" where
  "sb_reserve un um siz B =
     (if siz + sb_iCount B \<ge> sb_iSize B then do { B \<leftarrow> sb_increase un um B; sb_reserve un um siz B } else Some B)"

text \<open>\<open>len / m_iMSS\<close>, rounded up.\<close>

definition sb_blocks :: "int \<Rightarrow> int \<Rightarrow> int" where
  "sb_blocks len mss = (if cmod len mss \<noteq> 0 then cdiv len mss + 1 else cdiv len mss)"

subsection \<open>Adding data\<close>

definition pkt_msgno :: "u32 \<Rightarrow> u32 \<Rightarrow> int \<Rightarrow> int \<Rightarrow> u32" where
  "pkt_msgno msgno inorder i siz =
     (let m = msgno OR inorder;
          m = (if i = 0 then m OR 0x80000000 else m)
      in if i = siz - 1 then m OR 0x40000000 else m)"

text \<open>The loop of \<open>addBuffer\<close>: \<open>n\<close> iterations from \<open>i\<close> on, with the block pointer \<open>s\<close>.\<close>

fun sb_fill :: "u64 \<Rightarrow> u8 list \<Rightarrow> int \<Rightarrow> int \<Rightarrow> u32 \<Rightarrow> int \<Rightarrow> nat \<Rightarrow> int \<Rightarrow> nat \<Rightarrow> snd_buffer \<Rightarrow> (nat \<times> snd_buffer) option" where
  "sb_fill now data len ttl inorder siz 0 i s B = Some (s, B)"
| "sb_fill now data len ttl inorder siz (Suc n) i s B =
     do { let pktlen = (if len - i * sb_iMSS B > sb_iMSS B then sb_iMSS B else len - i * sb_iMSS B);
          bs \<leftarrow> slice data (i * sb_iMSS B) pktlen;
          b \<leftarrow> deref s B;
          B \<leftarrow> copy_in bs (b_pcData b) B;
          B \<leftarrow> assign s (\<lambda>b. b\<lparr>b_iLength := pktlen, b_iMsgNo := pkt_msgno (sb_iNextMsgNo B) inorder i siz,
                            b_OriginTime := now, b_iTTL := ttl\<rparr>) B;
          sb_fill now data len ttl inorder siz n (i + 1) (b_pNext b) B }"

definition next_msgno :: "u32 \<Rightarrow> u32" where
  "next_msgno m = (if m + 1 = 0x1FFFFFFF then 1 else m + 1)"

definition addBuffer :: "fresh_blocks \<Rightarrow> fresh_bytes \<Rightarrow> u64 \<Rightarrow> u8 list \<Rightarrow> int \<Rightarrow> int \<Rightarrow> bool \<Rightarrow> snd_buffer \<Rightarrow> snd_buffer option" where
  "addBuffer un um now data len ttl order B =
     (if sb_iMSS B = 0 then None
      else do {
        let siz = sb_blocks len (sb_iMSS B);
        B \<leftarrow> sb_reserve un um siz B;
        let inorder = (if order then 0x20000000 else 0);
        (s, B) \<leftarrow> sb_fill now data len ttl inorder siz (nat siz) 0 (sb_pLastBlock B) B;
        let B = B\<lparr>sb_pLastBlock := s\<rparr>;
        let B = B\<lparr>sb_iCount := sb_iCount B + siz\<rparr>;
        Some (B\<lparr>sb_iNextMsgNo := next_msgno (sb_iNextMsgNo B)\<rparr>) })"

text \<open>
  A file stream: what is left to read, and whether a read has failed. \<open>read\<close> of more than is
  left reads all of it and sets the end and fail bits.
\<close>

record fstream =
  f_rest :: "u8 list"
  f_fail :: bool

definition f_read :: "int \<Rightarrow> fstream \<Rightarrow> u8 list \<times> fstream" where
  "f_read n f = (take (nat n) (f_rest f), \<lparr>f_rest = drop (nat n) (f_rest f), f_fail = (length (f_rest f) < nat n)\<rparr>)"

fun sb_fill_file :: "int \<Rightarrow> int \<Rightarrow> nat \<Rightarrow> int \<Rightarrow> nat \<Rightarrow> int \<Rightarrow> fstream \<Rightarrow> snd_buffer \<Rightarrow> (nat \<times> int \<times> fstream \<times> snd_buffer) option" where
  "sb_fill_file len siz 0 i s tot ifs B = Some (s, tot, ifs, B)"
| "sb_fill_file len siz (Suc n) i s tot ifs B =
     (if f_fail ifs then Some (s, tot, ifs, B)
      else do {
        let pktlen = (if len - i * sb_iMSS B > sb_iMSS B then sb_iMSS B else len - i * sb_iMSS B);
        b \<leftarrow> deref s B;
        let (bs, ifs) = f_read pktlen ifs;
        B \<leftarrow> copy_in bs (b_pcData b) B;
        let pktlen = int (length bs);
        if pktlen \<le> 0 then Some (s, tot, ifs, B)
        else do {
          B \<leftarrow> assign s (\<lambda>b. b\<lparr>b_iMsgNo := pkt_msgno (sb_iNextMsgNo B) 0x20000000 i siz, b_iLength := pktlen, b_iTTL := -1\<rparr>) B;
          sb_fill_file len siz n (i + 1) (b_pNext b) (tot + pktlen) ifs B } })"

text \<open>The count grows by \<open>siz\<close>, however many blocks the loop filled.\<close>

definition addBufferFromFile :: "fresh_blocks \<Rightarrow> fresh_bytes \<Rightarrow> fstream \<Rightarrow> int \<Rightarrow> snd_buffer \<Rightarrow> (int \<times> fstream \<times> snd_buffer) option" where
  "addBufferFromFile un um ifs len B =
     (if sb_iMSS B = 0 then None
      else do {
        let siz = sb_blocks len (sb_iMSS B);
        B \<leftarrow> sb_reserve un um siz B;
        (s, tot, ifs, B) \<leftarrow> sb_fill_file len siz (nat siz) 0 (sb_pLastBlock B) 0 ifs B;
        let B = B\<lparr>sb_pLastBlock := s\<rparr>;
        let B = B\<lparr>sb_iCount := sb_iCount B + siz\<rparr>;
        Some (tot, ifs, B\<lparr>sb_iNextMsgNo := next_msgno (sb_iNextMsgNo B)\<rparr>) })"

subsection \<open>Reading and acknowledging\<close>

text \<open>
  \<open>readData\<close>: \<open>None\<close> inside is the return value 0, otherwise pointer, length and message number.
\<close>

definition readData :: "snd_buffer \<Rightarrow> (((nat \<times> int) \<times> int \<times> u32) option \<times> snd_buffer) option" where
  "readData B =
     (if sb_pCurrBlock B = sb_pLastBlock B then Some (None, B)
      else do {
        b \<leftarrow> deref (sb_pCurrBlock B) B;
        Some (Some (b_pcData b, b_iLength b, b_iMsgNo b), B\<lparr>sb_pCurrBlock := b_pNext b\<rparr>) })"

fun follow :: "nat \<Rightarrow> nat \<Rightarrow> snd_buffer \<Rightarrow> nat option" where
  "follow 0 p B = Some p"
| "follow (Suc n) p B = do { b \<leftarrow> deref p B; follow n (b_pNext b) B }"

text \<open>
  The loop that skips the rest of an expired message. It compares message numbers only; over a
  ring whose blocks all carry the number it does not end.
\<close>

partial_function (option) sb_skip :: "u32 \<Rightarrow> nat \<Rightarrow> bool \<Rightarrow> int \<Rightarrow> snd_buffer \<Rightarrow> (int \<times> snd_buffer) option" where
  "sb_skip msgno p move mlen B =
     do { b \<leftarrow> deref p B;
          if msgno = b_iMsgNo b AND 0x1FFFFFFF then do {
            let move = (if p = sb_pCurrBlock B then True else move);
            let p = b_pNext b;
            let B = (if move then B\<lparr>sb_pCurrBlock := p\<rparr> else B);
            sb_skip msgno p move (mlen + 1) B }
          else Some (mlen, B) }"

datatype read_result =
  Expired u32 int
| ReadAt "nat \<times> int" int u32

definition readDataAt :: "u64 \<Rightarrow> int \<Rightarrow> snd_buffer \<Rightarrow> (read_result \<times> snd_buffer) option" where
  "readDataAt now off B =
     do { p \<leftarrow> follow (nat off) (sb_pFirstBlock B) B;
          b \<leftarrow> deref p B;
          if b_iTTL b \<ge> 0 \<and> (now - b_OriginTime b) div 1000 > word_of_int (b_iTTL b) then do {
            let msgno = b_iMsgNo b AND 0x1FFFFFFF;
            (mlen, B) \<leftarrow> sb_skip msgno (b_pNext b) False 1 B;
            Some (Expired msgno mlen, B) }
          else Some (ReadAt (b_pcData b) (b_iLength b) (b_iMsgNo b), B) }"

definition sb_ackData :: "int \<Rightarrow> snd_buffer \<Rightarrow> snd_buffer option" where
  "sb_ackData off B =
     do { p \<leftarrow> follow (nat off) (sb_pFirstBlock B) B;
          let B = B\<lparr>sb_pFirstBlock := p\<rparr>;
          Some (B\<lparr>sb_iCount := sb_iCount B - off\<rparr>) }"

definition getCurrBufSize :: "snd_buffer \<Rightarrow> int" where
  "getCurrBufSize B = sb_iCount B"

end
