(* ===== verification/UdtSndBufferSpec.thy ===== *)
theory UdtSndBufferSpec
  imports UdtSndBuffer
begin

section \<open>UDT: the sender's buffer is a queue of packets\<close>

text \<open>
  \<open>sb_rep B ms1 ms2\<close>: the buffer holds the packets \<open>ms1\<close>, read but not acknowledged, and
  \<open>ms2\<close>, not read yet. \<open>addBuffer\<close> appends to \<open>ms2\<close>, \<open>readData\<close> moves a packet over, \<open>ackData\<close> drops from
  \<open>ms1\<close>.
\<close>

subsection \<open>Paths of blocks\<close>

fun path :: "block list \<Rightarrow> nat \<Rightarrow> nat list \<Rightarrow> nat \<Rightarrow> bool" where
  "path h p [] q \<longleftrightarrow> p = q"
| "path h p (x # xs) q \<longleftrightarrow> p = x \<and> x < length h \<and> path h (b_pNext (h ! x)) xs q"

lemma path_append [simp]: "path h p (xs @ ys) q \<longleftrightarrow> (\<exists>r. path h p xs r \<and> path h r ys q)"
  by (induction xs arbitrary: p) auto

lemma path_cong:
  assumes "path h p xs q" "length h \<le> length h'" "\<forall>x \<in> set xs. b_pNext (h' ! x) = b_pNext (h ! x)"
  shows "path h' p xs q"
  using assms by (induction xs arbitrary: p) auto

lemma path_less: "path h p xs q \<Longrightarrow> x \<in> set xs \<Longrightarrow> x < length h"
  by (induction xs arbitrary: p) auto

lemma path_hd: "path h p xs q \<Longrightarrow> xs \<noteq> [] \<Longrightarrow> xs = p # tl xs"
  by (cases xs) auto

lemma path_upt:
  assumes "\<forall>i < n. b + i < length h \<and> b_pNext (h ! (b + i)) = (if Suc i < n then b + Suc i else q)" "0 < n"
  shows "path h b [b..<b + n] q"
  using assms
proof (induction n arbitrary: b)
  case (Suc n)
  have 0: "b < length h" "b_pNext (h ! b) = (if 0 < n then Suc b else q)" using Suc.prems(1) by (auto dest: spec [of _ 0])
  show ?case
  proof (cases "n = 0")
    case True
    then show ?thesis using 0 by simp
  next
    case False
    have "path h (Suc b) [Suc b..<Suc b + n] q"
    proof (rule Suc.IH)
      show "\<forall>i < n. Suc b + i < length h \<and> b_pNext (h ! (Suc b + i)) = (if Suc i < n then Suc b + Suc i else q)"
        using Suc.prems(1) [rule_format, of "Suc _"] by auto
    qed (use False in simp)
    then show ?thesis using 0 False by (simp add: upt_conv_Cons)
  qed
qed simp

subsection \<open>The contents of blocks\<close>

type_synonym packet = "u8 list \<times> u32 \<times> u64 \<times> int"

definition bytes_at :: "phys_buffer list \<Rightarrow> nat \<times> int \<Rightarrow> nat \<Rightarrow> u8 list" where
  "bytes_at bufs ptr n = take n (drop (nat (snd ptr)) (p_pcData (bufs ! fst ptr)))"

definition ptr_ok :: "int \<Rightarrow> phys_buffer list \<Rightarrow> nat \<times> int \<Rightarrow> bool" where
  "ptr_ok mss bufs ptr \<longleftrightarrow> fst ptr < length bufs \<and> (\<exists>j. 0 \<le> j \<and> snd ptr = j * mss) \<and>
     snd ptr + mss \<le> int (length (p_pcData (bufs ! fst ptr)))"

definition block_has :: "phys_buffer list \<Rightarrow> block \<Rightarrow> packet \<Rightarrow> bool" where
  "block_has bufs b m = (case m of (bs, msgno, t, ttl) \<Rightarrow> b_iLength b = int (length bs) \<and> b_iMsgNo b = msgno \<and>
     b_OriginTime b = t \<and> b_iTTL b = ttl \<and> bytes_at bufs (b_pcData b) (length bs) = bs)"

lemma window_before:
  assumes "i + n \<le> l" "l \<le> length m"
  shows "take n (drop i (take l m @ ys)) = take n (drop i m)"
proof -
  have "take n (drop i (take l m @ ys)) = take n (drop i (take l m))" using assms by simp
  then show ?thesis using assms(1) by (simp add: drop_take)
qed

lemma copy_in_ok:
  assumes "ptr_ok mss (sb_pBuffer B) ptr" "int (length bs) \<le> mss" "0 < mss"
  obtains bufs where "copy_in bs ptr B = Some (B\<lparr>sb_pBuffer := bufs\<rparr>)" "length bufs = length (sb_pBuffer B)"
    "bytes_at bufs ptr (length bs) = bs"
    "\<forall>q. ptr_ok mss (sb_pBuffer B) q \<longrightarrow> ptr_ok mss bufs q \<and> (q \<noteq> ptr \<longrightarrow>
       (\<forall>n. int n \<le> mss \<longrightarrow> bytes_at bufs q n = bytes_at (sb_pBuffer B) q n))"
    "\<forall>i. p_iSize (bufs ! i) = p_iSize (sb_pBuffer B ! i)"
proof -
  obtain k off where ptr: "ptr = (k, off)" by (cases ptr)
  obtain j where k: "k < length (sb_pBuffer B)" and j: "0 \<le> j" "off = j * mss"
    and room: "off + mss \<le> int (length (p_pcData (sb_pBuffer B ! k)))"
    using assms(1) ptr by (auto simp: ptr_ok_def)
  have off: "0 \<le> off" using j assms(3) by simp
  let ?m = "p_pcData (sb_pBuffer B ! k)"
  let ?m' = "take (nat off) ?m @ bs @ drop (nat off + length bs) ?m"
  let ?b = "(sb_pBuffer B)[k := (sb_pBuffer B ! k)\<lparr>p_pcData := ?m'\<rparr>]"
  have l: "length ?m' = length ?m" using off room assms(2) by simp
  have n: "nat off \<le> length ?m" using off room assms(3) by linarith
  have other: "take n (drop (nat (j' * mss)) ?m') = take n (drop (nat (j' * mss)) ?m)"
    if "0 \<le> j'" "j' \<noteq> j" "int n \<le> mss" for j' n
  proof (cases "j' < j")
    case True
    then have "(j' + 1) * mss \<le> off" using j assms(3) by (simp add: mult_right_mono)
    then have "nat (j' * mss) + n \<le> nat off" using that(1,3) assms(3) off
      by (simp add: distrib_right nat_le_iff le_nat_iff)
    then show ?thesis using n by (rule window_before)
  next
    case False
    then have "(j + 1) * mss \<le> j' * mss" using that assms(3) by (intro mult_right_mono) auto
    then have "off + mss \<le> j' * mss" using j by (simp add: distrib_right)
    moreover have "int (nat off) = off" "int (nat (j' * mss)) = j' * mss" using off that(1) assms(3) by simp_all
    ultimately have ge: "nat off + length bs \<le> nat (j' * mss)" using assms(2) by linarith
    then have "drop (nat (j' * mss)) ?m' = drop (nat (j' * mss)) ?m" using n by simp
    then show ?thesis by simp
  qed
  show ?thesis
  proof
    show "copy_in bs ptr B = Some (B\<lparr>sb_pBuffer := ?b\<rparr>)"
      using k off room assms(2) ptr by (simp add: copy_in_def Let_def)
    show "bytes_at ?b ptr (length bs) = bs" using k n ptr by (simp add: bytes_at_def)
    show "\<forall>q. ptr_ok mss (sb_pBuffer B) q \<longrightarrow> ptr_ok mss ?b q \<and> (q \<noteq> ptr \<longrightarrow>
       (\<forall>n. int n \<le> mss \<longrightarrow> bytes_at ?b q n = bytes_at (sb_pBuffer B) q n))"
      using k l ptr j other by (auto simp: ptr_ok_def bytes_at_def nth_list_update)
    show "\<forall>i. p_iSize (?b ! i) = p_iSize (sb_pBuffer B ! i)"
      using k by (metis (no_types, lifting) nth_list_update_eq nth_list_update_neq phys_buffer.select_convs(2) phys_buffer.surjective phys_buffer.update_convs(1))
  qed simp
qed

subsection \<open>The buffer\<close>

definition sb_core :: "snd_buffer \<Rightarrow> nat \<Rightarrow> nat list \<Rightarrow> nat list \<Rightarrow> nat list \<Rightarrow> packet list \<Rightarrow> packet list \<Rightarrow> bool" where
  "sb_core B s us1 us2 fs ms1 ms2 \<longleftrightarrow> (let h = sb_heap B; bufs = sb_pBuffer B; mss = sb_iMSS B in
     0 < mss \<and> bufs \<noteq> [] \<and> 0 < p_iSize (bufs ! 0) \<and>
     path h (sb_pFirstBlock B) us1 (sb_pCurrBlock B) \<and> path h (sb_pCurrBlock B) us2 s \<and> path h s fs (sb_pFirstBlock B) \<and>
     distinct (us1 @ us2 @ fs) \<and>
     list_all2 (\<lambda>p. block_has bufs (h ! p)) us1 ms1 \<and> list_all2 (\<lambda>p. block_has bufs (h ! p)) us2 ms2 \<and>
     (\<forall>m \<in> set ms1 \<union> set ms2. int (length (fst m)) \<le> mss) \<and>
     (\<forall>p \<in> set (us1 @ us2 @ fs). ptr_ok mss bufs (b_pcData (h ! p))) \<and>
     inj_on (\<lambda>p. b_pcData (h ! p)) (set (us1 @ us2 @ fs)))"

definition sb_rep :: "snd_buffer \<Rightarrow> packet list \<Rightarrow> packet list \<Rightarrow> bool" where
  "sb_rep B ms1 ms2 \<longleftrightarrow> (\<exists>us1 us2 fs. sb_core B (sb_pLastBlock B) us1 us2 fs ms1 ms2 \<and> fs \<noteq> [] \<and>
     sb_iCount B = int (length ms1 + length ms2) \<and> sb_iSize B = int (length us1 + length us2 + length fs))"

lemma sb_coreD:
  assumes "sb_core B s us1 us2 fs ms1 ms2"
  shows "0 < sb_iMSS B" "sb_pBuffer B \<noteq> []" "0 < p_iSize (sb_pBuffer B ! 0)"
    "path (sb_heap B) (sb_pFirstBlock B) us1 (sb_pCurrBlock B)" "path (sb_heap B) (sb_pCurrBlock B) us2 s"
    "path (sb_heap B) s fs (sb_pFirstBlock B)" "distinct (us1 @ us2 @ fs)"
    "list_all2 (\<lambda>p. block_has (sb_pBuffer B) (sb_heap B ! p)) us1 ms1"
    "list_all2 (\<lambda>p. block_has (sb_pBuffer B) (sb_heap B ! p)) us2 ms2"
    "\<forall>m \<in> set ms1 \<union> set ms2. int (length (fst m)) \<le> sb_iMSS B"
    "\<forall>p \<in> set (us1 @ us2 @ fs). ptr_ok (sb_iMSS B) (sb_pBuffer B) (b_pcData (sb_heap B ! p))"
    "inj_on (\<lambda>p. b_pcData (sb_heap B ! p)) (set (us1 @ us2 @ fs))"
  using assms unfolding sb_core_def Let_def by blast+


lemma sb_coreI:
  assumes "0 < sb_iMSS B" "sb_pBuffer B \<noteq> []" "0 < p_iSize (sb_pBuffer B ! 0)"
    "path (sb_heap B) (sb_pFirstBlock B) us1 (sb_pCurrBlock B)" "path (sb_heap B) (sb_pCurrBlock B) us2 s"
    "path (sb_heap B) s fs (sb_pFirstBlock B)" "distinct (us1 @ us2 @ fs)"
    "list_all2 (\<lambda>p. block_has (sb_pBuffer B) (sb_heap B ! p)) us1 ms1"
    "list_all2 (\<lambda>p. block_has (sb_pBuffer B) (sb_heap B ! p)) us2 ms2"
    "\<forall>m \<in> set ms1 \<union> set ms2. int (length (fst m)) \<le> sb_iMSS B"
    "\<forall>p \<in> set (us1 @ us2 @ fs). ptr_ok (sb_iMSS B) (sb_pBuffer B) (b_pcData (sb_heap B ! p))"
    "inj_on (\<lambda>p. b_pcData (sb_heap B ! p)) (set (us1 @ us2 @ fs))"
  shows "sb_core B s us1 us2 fs ms1 ms2"
  using assms unfolding sb_core_def Let_def by blast

lemma new_blocks_nth:
  assumes "i < n" "int n \<le> siz"
  shows "b_pNext (new_blocks un base n succ k siz mss c ! i) = (if Suc i < n then base + Suc i else succ)"
    "b_pcData (new_blocks un base n succ k siz mss c ! i) = (k, int i * mss)"
  using assms by (simp_all add: new_blocks_def Let_def)

lemma new_blocks_length [simp]: "length (new_blocks un base n succ k siz mss c) = n"
  by (simp add: new_blocks_def)

lemma new_bytes_ok:
  assumes "0 < mss" "i < n" "int n = siz" "bufs ! k = (new_bytes um k (siz * mss))\<lparr>p_iSize := siz\<rparr>" "k < length bufs"
  shows "ptr_ok mss bufs (k, int i * mss)"
proof -
  have "int i * mss + mss = int (Suc i) * mss" by (simp add: distrib_right)
  also have "\<dots> \<le> siz * mss" using assms(1-3) by (intro mult_right_mono) auto
  finally show ?thesis using assms(4,5) by (auto simp: ptr_ok_def new_bytes_def intro!: exI [of _ "int i"])
qed

lemma new_snd_buffer:
  assumes "0 < siz" "0 < mss"
  shows "sb_rep (CSndBuffer un um siz mss) [] []"
proof -
  let ?B = "CSndBuffer un um siz mss" and ?n = "nat siz"
  have h: "sb_heap ?B = new_blocks un 0 ?n 0 0 siz mss True" using assms(1) by (simp add: CSndBuffer_def max_def)
  have "path (sb_heap ?B) 0 [0..<0 + ?n] 0"
    by (rule path_upt) (use assms in \<open>auto simp: h new_blocks_nth\<close>)
  then have p: "path (sb_heap ?B) 0 [0..<?n] 0" by simp
  have "sb_core ?B 0 [] [] [0..<?n] [] []"
  proof (rule sb_coreI)
    show "\<forall>p \<in> set ([] @ [] @ [0..<?n]). ptr_ok (sb_iMSS ?B) (sb_pBuffer ?B) (b_pcData (sb_heap ?B ! p))"
      using assms new_bytes_ok [of mss _ ?n siz "sb_pBuffer ?B" 0 um] by (auto simp: h new_blocks_nth) (auto simp: CSndBuffer_def)
    show "inj_on (\<lambda>p. b_pcData (sb_heap ?B ! p)) (set ([] @ [] @ [0..<?n]))"
      using assms by (auto simp: h new_blocks_nth inj_on_def)
    show "path (sb_heap ?B) 0 [0..<?n] (sb_pFirstBlock ?B)" using p by (simp add: CSndBuffer_def)
  qed (use assms p in \<open>auto simp: CSndBuffer_def\<close>)
  then show ?thesis using assms unfolding sb_rep_def
    by (intro exI [of _ "[]"] exI [of _ "[0..<?n]"]) (simp add: CSndBuffer_def)
qed

subsection \<open>Growing\<close>

lemma list_all2_cong_on:
  assumes "list_all2 P xs ys" "\<And>x y. x \<in> set xs \<Longrightarrow> y \<in> set ys \<Longrightarrow> P x y \<Longrightarrow> Q x y"
  shows "list_all2 Q xs ys"
  using assms by (auto simp: list_all2_conv_all_nth)

lemma increase_ok:
  assumes "sb_rep B ms1 ms2"
  shows "\<exists>B'. sb_increase un um B = Some B' \<and> sb_rep B' ms1 ms2 \<and> sb_iSize B' > sb_iSize B \<and> sb_iMSS B' = sb_iMSS B \<and>
    sb_iCount B' = sb_iCount B \<and> sb_iNextMsgNo B' = sb_iNextMsgNo B"
proof -
  obtain us1 us2 fs where C: "sb_core B (sb_pLastBlock B) us1 us2 fs ms1 ms2" and fs: "fs \<noteq> []"
    and sizes: "sb_iCount B = int (length ms1 + length ms2)" "sb_iSize B = int (length us1 + length us2 + length fs)"
    using assms by (auto simp: sb_rep_def)
  note D = sb_coreD [OF C]
  obtain gs where gs: "fs = sb_pLastBlock B # gs" using path_hd [OF D(6) fs] by blast
  let ?l = "sb_pLastBlock B" and ?h = "sb_heap B" and ?bufs = "sb_pBuffer B" and ?mss = "sb_iMSS B"
  let ?u = "p_iSize (?bufs ! 0)"
  let ?k = "length ?bufs" and ?n = "length ?h" and ?m = "nat ?u"
  have l: "?l < ?n" and rest: "path ?h (b_pNext (?h ! ?l)) gs (sb_pFirstBlock B)" using D(6) gs by auto
  let ?nb = "new_blocks un ?n ?m (b_pNext (?h ! ?l)) ?k ?u ?mss False"
  let ?h' = "(?h @ ?nb)[?l := (?h ! ?l)\<lparr>b_pNext := ?n\<rparr>]"
  let ?bufs' = "?bufs @ [(new_bytes um ?k (?u * ?mss))\<lparr>p_iSize := ?u\<rparr>]"
  let ?B' = "B\<lparr>sb_pBuffer := ?bufs', sb_heap := ?h', sb_iSize := sb_iSize B + ?u\<rparr>"
  have u: "max 1 ?u = ?u" using D(3) by simp
  have inc: "sb_increase un um B = Some ?B'"
    using D(2,3) l by (simp add: sb_increase_def deref_def assign_def Let_def rd_def nth_append)
  have less: "x < ?n" if "x \<in> set (us1 @ us2 @ fs)" for x
    using that path_less [OF D(4)] path_less [OF D(5)] path_less [OF D(6)] by auto
  have old: "?h' ! x = (if x = ?l then (?h ! ?l)\<lparr>b_pNext := ?n\<rparr> else ?h ! x)" if "x \<in> set (us1 @ us2 @ fs)" for x
    using less [OF that] by (auto simp: nth_list_update nth_append)
  have new: "?h' ! (?n + i) = ?nb ! i" if "i < ?m" for i using that l by (simp add: nth_append)
  have nmem: "?l \<notin> set us1" "?l \<notin> set us2" "?l \<notin> set gs" using D(7) gs by auto
  have keep: "path ?h' p xs q" if "path ?h p xs q" "set xs \<subseteq> set (us1 @ us2 @ fs)" "?l \<notin> set xs" for p xs q
    by (rule path_cong [OF that(1)]) (use that old in auto)
  have data: "b_pcData (?h' ! x) = b_pcData (?h ! x)" if "x \<in> set (us1 @ us2 @ fs)" for x using old [OF that] by simp
  have pn: "path ?h' ?n [?n..<?n + ?m] (b_pNext (?h ! ?l))"
  proof (rule path_upt)
    show "\<forall>i < ?m. ?n + i < length ?h' \<and> b_pNext (?h' ! (?n + i)) = (if Suc i < ?m then ?n + Suc i else b_pNext (?h ! ?l))"
      using new new_blocks_nth(1) [of _ ?m ?u] D(3) by simp
  qed (use D(3) in simp)
  have core: "sb_core ?B' ?l us1 us2 (?l # [?n..<?n + ?m] @ gs) ms1 ms2"
  proof (rule sb_coreI)
    show "path (sb_heap ?B') ?l (?l # [?n..<?n + ?m] @ gs) (sb_pFirstBlock ?B')"
      using pn keep [OF rest] gs nmem l by auto
    show "distinct (us1 @ us2 @ ?l # [?n..<?n + ?m] @ gs)" using D(7) gs less by force
    have P: "block_has ?bufs' (?h' ! x) m" if "x \<in> set (us1 @ us2)" "block_has ?bufs (?h ! x) m" for x m
    proof -
      have "?h' ! x = ?h ! x" using old [of x] that(1) nmem by auto
      moreover have "ptr_ok ?mss ?bufs (b_pcData (?h ! x))" using D(11) that(1) by auto
      ultimately show ?thesis using that(2) by (auto simp: block_has_def bytes_at_def nth_append ptr_ok_def split: prod.splits)
    qed
    show "list_all2 (\<lambda>p. block_has (sb_pBuffer ?B') (sb_heap ?B' ! p)) us1 ms1"
      using P by (auto intro: list_all2_cong_on [OF D(8)])
    show "list_all2 (\<lambda>p. block_has (sb_pBuffer ?B') (sb_heap ?B' ! p)) us2 ms2"
      using P by (auto intro: list_all2_cong_on [OF D(9)])
    have nptr: "b_pcData (?h' ! (?n + i)) = (?k, int i * ?mss)" if "i < ?m" for i
      using new [OF that] new_blocks_nth(2) [OF that, of ?u] D(3) by simp
    have mem: "x \<in> set (us1 @ us2 @ ?l # [?n..<?n + ?m] @ gs) \<longleftrightarrow>
      x \<in> set (us1 @ us2 @ fs) \<or> (\<exists>i < ?m. x = ?n + i)" for x
      using gs by (auto simp: le_iff_add)
    have old_ok: "ptr_ok ?mss ?bufs' (b_pcData (?h' ! x)) \<and> fst (b_pcData (?h' ! x)) < ?k" if "x \<in> set (us1 @ us2 @ fs)" for x
      using D(11) [rule_format, OF that] data [OF that] by (auto simp: ptr_ok_def nth_append)
    have new_ok: "ptr_ok ?mss ?bufs' (b_pcData (?h' ! (?n + i)))" if "i < ?m" for i
      unfolding nptr [OF that] by (rule new_bytes_ok [OF D(1) that]) (use D(3) in auto)
    show "\<forall>p \<in> set (us1 @ us2 @ ?l # [?n..<?n + ?m] @ gs). ptr_ok (sb_iMSS ?B') (sb_pBuffer ?B') (b_pcData (sb_heap ?B' ! p))"
    proof
      fix p assume "p \<in> set (us1 @ us2 @ ?l # [?n..<?n + ?m] @ gs)"
      then consider "p \<in> set (us1 @ us2 @ fs)" | i where "i < ?m" "p = ?n + i" using mem by blast
      then have "ptr_ok ?mss ?bufs' (b_pcData (?h' ! p))" using old_ok new_ok by cases blast+
      then show "ptr_ok (sb_iMSS ?B') (sb_pBuffer ?B') (b_pcData (sb_heap ?B' ! p))" by simp
    qed
    show "inj_on (\<lambda>p. b_pcData (sb_heap ?B' ! p)) (set (us1 @ us2 @ ?l # [?n..<?n + ?m] @ gs))"
    proof (rule inj_onI, unfold mem)
      fix x y
      assume x: "x \<in> set (us1 @ us2 @ fs) \<or> (\<exists>i < ?m. x = ?n + i)" and y: "y \<in> set (us1 @ us2 @ fs) \<or> (\<exists>i < ?m. y = ?n + i)"
        and "b_pcData (sb_heap ?B' ! x) = b_pcData (sb_heap ?B' ! y)"
      then have e: "b_pcData (?h' ! x) = b_pcData (?h' ! y)" by simp
      have "fst (b_pcData (?h' ! z)) = ?k \<longleftrightarrow> z \<notin> set (us1 @ us2 @ fs)" if "z \<in> set (us1 @ us2 @ fs) \<or> (\<exists>i < ?m. z = ?n + i)" for z
        using that old_ok [of z] less [of z] nptr by fastforce
      with x y e consider "x \<in> set (us1 @ us2 @ fs)" "y \<in> set (us1 @ us2 @ fs)"
        | i j where "i < ?m" "x = ?n + i" "j < ?m" "y = ?n + j" by metis
      then show "x = y"
      proof cases
        case 1
        then show ?thesis using e data inj_onD [OF D(12), of x y] by simp
      next
        case 2
        then show ?thesis using e nptr D(1) by simp
      qed
    qed
    show "0 < p_iSize (sb_pBuffer ?B' ! 0)" using D(2,3) by (simp add: nth_append)
  qed (use D(1,10) keep [OF D(4)] keep [OF D(5)] nmem in auto)
  have "sb_rep ?B' ms1 ms2"
    using core sizes gs D(3) unfolding sb_rep_def
    by (intro exI [of _ us1] exI [of _ us2] exI [of _ "?l # [?n..<?n + ?m] @ gs"]) simp
  then show ?thesis using inc D(3) by auto
qed


lemma reserve_ok:
  assumes "sb_rep B ms1 ms2"
  shows "\<exists>B'. sb_reserve un um siz B = Some B' \<and> sb_rep B' ms1 ms2 \<and> siz + sb_iCount B' < sb_iSize B' \<and>
    sb_iMSS B' = sb_iMSS B \<and> sb_iCount B' = sb_iCount B \<and> sb_iNextMsgNo B' = sb_iNextMsgNo B"
  using assms
proof (induction "nat (siz + sb_iCount B + 1 - sb_iSize B)" arbitrary: B rule: less_induct)
  case less
  show ?case
  proof (cases "siz + sb_iCount B \<ge> sb_iSize B")
    case False
    then show ?thesis using less.prems by (subst sb_reserve.simps) auto
  next
    case True
    obtain B1 where B1: "sb_increase un um B = Some B1" "sb_rep B1 ms1 ms2" "sb_iSize B1 > sb_iSize B"
      "sb_iMSS B1 = sb_iMSS B" "sb_iCount B1 = sb_iCount B" "sb_iNextMsgNo B1 = sb_iNextMsgNo B"
      using increase_ok [OF less.prems] by blast
    have "nat (siz + sb_iCount B1 + 1 - sb_iSize B1) < nat (siz + sb_iCount B + 1 - sb_iSize B)" using B1(3,5) True by simp
    from less.hyps [OF this B1(2)] show ?thesis using B1 True by (subst sb_reserve.simps) auto
  qed
qed

subsection \<open>Filling blocks\<close>

text \<open>The packets that \<open>addBuffer\<close> makes from \<open>data\<close>, from number \<open>i\<close> on.\<close>

definition packet_of :: "int \<Rightarrow> u8 list \<Rightarrow> u32 \<Rightarrow> u32 \<Rightarrow> int \<Rightarrow> u64 \<Rightarrow> int \<Rightarrow> int \<Rightarrow> packet" where
  "packet_of mss data msgno inorder siz now ttl i =
     (take (nat mss) (drop (nat (i * mss)) data), pkt_msgno msgno inorder i siz, now, ttl)"

lemma fill_step:
  assumes C: "sb_core B s us1 us2 (s # fs) ms1 ms2" and len: "int (length bs) \<le> sb_iMSS B"
    and f: "\<And>b. b_pNext (f b) = b_pNext b" "\<And>b. b_pcData (f b) = b_pcData b"
      "\<And>b. b_iLength (f b) = int (length bs)" "\<And>b. b_iMsgNo (f b) = msgno" "\<And>b. b_OriginTime (f b) = t" "\<And>b. b_iTTL (f b) = ttl"
  shows "\<exists>b B1 B2. deref s B = Some b \<and> copy_in bs (b_pcData b) B = Some B1 \<and> assign s f B1 = Some B2 \<and>
    (\<exists>bufs h. B1 = B\<lparr>sb_pBuffer := bufs\<rparr> \<and> B2 = B1\<lparr>sb_heap := h\<rparr>) \<and>
    sb_core B2 (b_pNext b) us1 (us2 @ [s]) fs ms1 (ms2 @ [(bs, msgno, t, ttl)])"
proof -
  note D = sb_coreD [OF C]
  let ?h = "sb_heap B" and ?mss = "sb_iMSS B"
  let ?b = "?h ! s"
  have s: "s < length ?h" using D(6) by simp
  have ok: "ptr_ok ?mss (sb_pBuffer B) (b_pcData ?b)" using D(11) by simp
  obtain bufs where cp: "copy_in bs (b_pcData ?b) B = Some (B\<lparr>sb_pBuffer := bufs\<rparr>)" "length bufs = length (sb_pBuffer B)"
    "bytes_at bufs (b_pcData ?b) (length bs) = bs"
    "\<forall>q. ptr_ok ?mss (sb_pBuffer B) q \<longrightarrow> ptr_ok ?mss bufs q \<and> (q \<noteq> b_pcData ?b \<longrightarrow>
       (\<forall>n. int n \<le> ?mss \<longrightarrow> bytes_at bufs q n = bytes_at (sb_pBuffer B) q n))"
    "\<forall>i. p_iSize (bufs ! i) = p_iSize (sb_pBuffer B ! i)"
    using copy_in_ok [OF ok len D(1)] by blast
  have ok': "ptr_ok ?mss bufs q" if "ptr_ok ?mss (sb_pBuffer B) q" for q using cp(4) that by blast
  let ?h' = "?h[s := f ?b]"
  let ?B2 = "B\<lparr>sb_pBuffer := bufs, sb_heap := ?h'\<rparr>"
  have nmem: "s \<notin> set us1" "s \<notin> set us2" "s \<notin> set fs" using D(7) by auto
  have nx: "b_pNext (?h' ! x) = b_pNext (?h ! x)" "b_pcData (?h' ! x) = b_pcData (?h ! x)" for x
    using s f(1,2) by (auto simp: nth_list_update)
  have keep: "path ?h' p xs q" if "path ?h p xs q" for p xs q by (rule path_cong [OF that]) (simp_all add: nx)
  have other: "block_has bufs (?h' ! x) m"
    if "x \<in> set (us1 @ us2)" "int (length (fst m)) \<le> ?mss" "block_has (sb_pBuffer B) (?h ! x) m" for x m
  proof -
    have x: "x \<noteq> s" using that(1) nmem by auto
    have "b_pcData (?h ! x) \<noteq> b_pcData ?b" using inj_onD [OF D(12), of x s] x that(1) by auto
    moreover have "ptr_ok ?mss (sb_pBuffer B) (b_pcData (?h ! x))" using D(11) that(1) by auto
    ultimately show ?thesis using that(2,3) x cp(4) [rule_format, of "b_pcData (?h ! x)"]
      by (auto simp: block_has_def split: prod.splits)
  qed
  have here: "block_has bufs (?h' ! s) (bs, msgno, t, ttl)" using s f cp(3) by (simp add: block_has_def)
  have core: "sb_core ?B2 (b_pNext ?b) us1 (us2 @ [s]) fs ms1 (ms2 @ [(bs, msgno, t, ttl)])"
  proof (rule sb_coreI)
    have "list_all2 (\<lambda>p. block_has bufs (?h' ! p)) us1 ms1" "list_all2 (\<lambda>p. block_has bufs (?h' ! p)) us2 ms2"
      by (rule list_all2_cong_on [OF D(8)] list_all2_cong_on [OF D(9)], rule other; use D(10) in auto)+
    then show "list_all2 (\<lambda>p. block_has (sb_pBuffer ?B2) (sb_heap ?B2 ! p)) us1 ms1"
      "list_all2 (\<lambda>p. block_has (sb_pBuffer ?B2) (sb_heap ?B2 ! p)) (us2 @ [s]) (ms2 @ [(bs, msgno, t, ttl)])"
      using here by (auto simp: list_all2_appendI)
    show "path (sb_heap ?B2) (sb_pFirstBlock ?B2) us1 (sb_pCurrBlock ?B2)" using keep [OF D(4)] by simp
    show "path (sb_heap ?B2) (sb_pCurrBlock ?B2) (us2 @ [s]) (b_pNext ?b)" using keep [OF D(5)] s f(1) by auto
    show "path (sb_heap ?B2) (b_pNext ?b) fs (sb_pFirstBlock ?B2)" using keep D(6) by auto
    show "0 < p_iSize (sb_pBuffer ?B2 ! 0)" using cp(5) D(3) by simp
    show "inj_on (\<lambda>p. b_pcData (sb_heap ?B2 ! p)) (set (us1 @ (us2 @ [s]) @ fs))" using D(12) by (simp add: nx insert_commute)
    show "\<forall>p \<in> set (us1 @ (us2 @ [s]) @ fs). ptr_ok (sb_iMSS ?B2) (sb_pBuffer ?B2) (b_pcData (sb_heap ?B2 ! p))"
      using D(11) ok' by (simp add: nx)
    show "\<forall>m \<in> set ms1 \<union> set (ms2 @ [(bs, msgno, t, ttl)]). int (length (fst m)) \<le> sb_iMSS ?B2" using D(10) len by auto
  qed (use D(1,2,7) cp(2) in auto)
  have "deref s B = Some ?b" "assign s f (B\<lparr>sb_pBuffer := bufs\<rparr>) = Some ?B2"
    using s by (simp_all add: deref_def assign_def)
  then show ?thesis using cp(1) core by (intro exI [of _ ?b] exI [of _ "B\<lparr>sb_pBuffer := bufs\<rparr>"] exI [of _ ?B2]) auto
qed


lemma block_slice:
  assumes "0 \<le> i" "i < sb_blocks (int (length data)) mss" "0 < mss"
  defines "n \<equiv> (if int (length data) - i * mss > mss then mss else int (length data) - i * mss)"
  shows "slice data (i * mss) n = Some (take (nat mss) (drop (nat (i * mss)) data))"
    "n = int (length (take (nat mss) (drop (nat (i * mss)) data)))" "n \<le> mss"
proof -
  have "i * mss < int (length data)"
  proof -
    have e: "int (length data) = int (length data) div mss * mss + int (length data) mod mss" by simp
    have m: "0 \<le> int (length data) mod mss" using assms(3) by simp
    have "i \<le> int (length data) div mss - 1 \<or> (i = int (length data) div mss \<and> int (length data) mod mss \<noteq> 0)"
      using assms(2,3) by (auto simp: sb_blocks_def split: if_splits)
    then show ?thesis
    proof
      assume "i \<le> int (length data) div mss - 1"
      then have "i * mss \<le> (int (length data) div mss - 1) * mss" using assms(3) by (intro mult_right_mono) auto
      then have "i * mss \<le> int (length data) div mss * mss - mss" by (simp add: left_diff_distrib)
      then show ?thesis using e m assms(3) by linarith
    next
      assume a: "i = int (length data) div mss \<and> int (length data) mod mss \<noteq> 0"
      then have "i * mss = int (length data) div mss * mss" by simp
      then show ?thesis using a e m by linarith
    qed
  qed
  moreover have "0 \<le> i * mss" using assms(1,3) by simp
  ultimately show "slice data (i * mss) n = Some (take (nat mss) (drop (nat (i * mss)) data))"
    "n = int (length (take (nat mss) (drop (nat (i * mss)) data)))" "n \<le> mss"
    using assms(3) by (auto simp: slice_def n_def min_def nat_diff_distrib)
qed

lemma fill_ok:
  assumes "sb_core B s us1 us2 fs ms1 ms2" "n < length fs" "int n = siz - i" "0 \<le> i"
    "siz = sb_blocks (int (length data)) (sb_iMSS B)"
  shows "\<exists>s' B' us2' fs'. sb_fill now data (int (length data)) ttl inorder siz n i s B = Some (s', B') \<and>
    sb_core B' s' us1 us2' fs' ms1 (ms2 @ map (packet_of (sb_iMSS B) data (sb_iNextMsgNo B) inorder siz now ttl) [i..siz - 1]) \<and>
    length us2' = length us2 + n \<and> length us2' + length fs' = length us2 + length fs \<and>
    (\<exists>bufs h. B' = B\<lparr>sb_pBuffer := bufs, sb_heap := h\<rparr>)"
  using assms
proof (induction n arbitrary: i s B us2 fs ms2)
  case 0
  have "\<exists>bufs h. B = B\<lparr>sb_pBuffer := bufs, sb_heap := h\<rparr>"
    by (intro exI [of _ "sb_pBuffer B"] exI [of _ "sb_heap B"]) simp
  then show ?case using 0 by (intro exI [of _ s] exI [of _ B] exI [of _ us2] exI [of _ fs]) simp
next
  case (Suc n)
  let ?mss = "sb_iMSS B" and ?p = "packet_of (sb_iMSS B) data (sb_iNextMsgNo B) inorder siz now ttl"
  note D = sb_coreD [OF Suc.prems(1)]
  obtain gs where fs: "fs = s # gs" using path_hd [OF D(6)] Suc.prems(2) by (cases fs) auto
  have i: "i < siz" using Suc.prems(3) by simp
  note S = block_slice [OF Suc.prems(4) i [unfolded Suc.prems(5)] D(1)]
  let ?bs = "take (nat ?mss) (drop (nat (i * ?mss)) data)"
  define pl where "pl = (if int (length data) - i * ?mss > ?mss then ?mss else int (length data) - i * ?mss)"
  have pl: "pl = int (length ?bs)" "slice data (i * ?mss) pl = Some ?bs" using S(1,2) by (simp_all add: pl_def)
  let ?f = "\<lambda>b. b\<lparr>b_iLength := pl, b_iMsgNo := pkt_msgno (sb_iNextMsgNo B) inorder i siz, b_OriginTime := now, b_iTTL := ttl\<rparr>"
  have "int (length ?bs) \<le> ?mss" using S(2,3) by simp
  from fill_step [OF Suc.prems(1) [unfolded fs] this, of ?f "pkt_msgno (sb_iNextMsgNo B) inorder i siz" now ttl]
  obtain b B1 B2 bufs h where st: "deref s B = Some b" "copy_in ?bs (b_pcData b) B = Some B1" "assign s ?f B1 = Some B2"
    "B1 = B\<lparr>sb_pBuffer := bufs\<rparr>" "B2 = B1\<lparr>sb_heap := h\<rparr>" "sb_core B2 (b_pNext b) us1 (us2 @ [s]) gs ms1 (ms2 @ [?p i])"
    unfolding packet_of_def using pl(1) by auto
  have same: "sb_iMSS B2 = ?mss" "sb_iNextMsgNo B2 = sb_iNextMsgNo B" "sb_iNextMsgNo B1 = sb_iNextMsgNo B" using st(4,5) by simp_all
  have cons: "[i..siz - 1] = i # [i + 1..siz - 1]" using i by (simp add: upto_rec1)
  have "sb_fill now data (int (length data)) ttl inorder siz (Suc n) i s B =
    sb_fill now data (int (length data)) ttl inorder siz n (i + 1) (b_pNext b) B2"
    unfolding sb_fill.simps Let_def pl_def [symmetric] pl(2) using st(1,2,3) same(3) by simp
  moreover have "\<exists>s' B' us2' fs'. sb_fill now data (int (length data)) ttl inorder siz n (i + 1) (b_pNext b) B2 = Some (s', B') \<and>
    sb_core B' s' us1 us2' fs' ms1 ((ms2 @ [?p i]) @ map ?p [i + 1..siz - 1]) \<and>
    length us2' = length (us2 @ [s]) + n \<and> length us2' + length fs' = length (us2 @ [s]) + length gs \<and>
    (\<exists>bufs h. B' = B2\<lparr>sb_pBuffer := bufs, sb_heap := h\<rparr>)"
    using Suc.IH [OF st(6), of "i + 1"] Suc.prems(2-5) fs same by simp
  ultimately show ?case using fs cons st(4,5) by fastforce
qed


subsection \<open>The operations on the queue\<close>

definition packets_of :: "int \<Rightarrow> u8 list \<Rightarrow> u32 \<Rightarrow> bool \<Rightarrow> u64 \<Rightarrow> int \<Rightarrow> packet list" where
  "packets_of mss data msgno order now ttl =
     (let siz = sb_blocks (int (length data)) mss
      in map (packet_of mss data msgno (if order then 0x20000000 else 0) siz now ttl) [0..siz - 1])"

lemma sb_blocks_nonneg: "0 \<le> len \<Longrightarrow> 0 < mss \<Longrightarrow> 0 \<le> sb_blocks len mss"
  by (simp add: sb_blocks_def pos_imp_zdiv_nonneg_iff)

lemma addBuffer_rep:
  assumes "sb_rep B ms1 ms2"
  shows "\<exists>B'. addBuffer un um now data (int (length data)) ttl order B = Some B' \<and>
    sb_rep B' ms1 (ms2 @ packets_of (sb_iMSS B) data (sb_iNextMsgNo B) order now ttl) \<and>
    sb_iMSS B' = sb_iMSS B \<and> sb_iNextMsgNo B' = next_msgno (sb_iNextMsgNo B)"
proof -
  let ?mss = "sb_iMSS B" let ?siz = "sb_blocks (int (length data)) ?mss"
  have mss: "0 < ?mss" using assms by (auto simp: sb_rep_def dest: sb_coreD(1))
  have siz: "0 \<le> ?siz" using sb_blocks_nonneg [OF _ mss] by simp
  obtain B1 where B1: "sb_reserve un um ?siz B = Some B1" "sb_rep B1 ms1 ms2" "?siz + sb_iCount B1 < sb_iSize B1"
    "sb_iMSS B1 = ?mss" "sb_iCount B1 = sb_iCount B" "sb_iNextMsgNo B1 = sb_iNextMsgNo B"
    using reserve_ok [OF assms] by blast
  obtain us1 us2 fs where C: "sb_core B1 (sb_pLastBlock B1) us1 us2 fs ms1 ms2"
    and sizes: "sb_iCount B1 = int (length ms1 + length ms2)" "sb_iSize B1 = int (length us1 + length us2 + length fs)"
    using B1(2) by (auto simp: sb_rep_def)
  have eq: "length us1 = length ms1" "length us2 = length ms2" using sb_coreD(8,9) [OF C] by (auto dest: list_all2_lengthD)
  define ob :: u32 where "ob = (if order then 0x20000000 else 0)"
  have pk: "packets_of ?mss data (sb_iNextMsgNo B) order now ttl = map (packet_of ?mss data (sb_iNextMsgNo B) ob ?siz now ttl) [0..?siz - 1]"
    by (simp only: packets_of_def Let_def ob_def)
  have room: "nat ?siz < length fs" using B1(3) sizes eq siz by simp
  have "\<exists>s' B' us2' fs'. sb_fill now data (int (length data)) ttl ob ?siz (nat ?siz) 0 (sb_pLastBlock B1) B1 = Some (s', B') \<and>
    sb_core B' s' us1 us2' fs' ms1 (ms2 @ packets_of ?mss data (sb_iNextMsgNo B) order now ttl) \<and>
    length us2' = length us2 + nat ?siz \<and> length us2' + length fs' = length us2 + length fs \<and>
    (\<exists>bufs h. B' = B1\<lparr>sb_pBuffer := bufs, sb_heap := h\<rparr>)"
  proof -
    have "int (nat ?siz) = ?siz - 0" "(0 :: int) \<le> 0" "?siz = sb_blocks (int (length data)) (sb_iMSS B1)"
      using siz B1(4) by simp_all
    from fill_ok [OF C room this, of now ttl ob] show ?thesis unfolding pk B1(4,6) .
  qed
  then obtain s' B' us2' fs' bufs h where F: "sb_fill now data (int (length data)) ttl ob ?siz (nat ?siz) 0 (sb_pLastBlock B1) B1 = Some (s', B')"
    "sb_core B' s' us1 us2' fs' ms1 (ms2 @ packets_of ?mss data (sb_iNextMsgNo B) order now ttl)"
    "length us2' = length us2 + nat ?siz" "length us2' + length fs' = length us2 + length fs"
    "B' = B1\<lparr>sb_pBuffer := bufs, sb_heap := h\<rparr>" by blast
  let ?R = "B'\<lparr>sb_pLastBlock := s', sb_iCount := sb_iCount B' + ?siz, sb_iNextMsgNo := next_msgno (sb_iNextMsgNo B')\<rparr>"
  have "addBuffer un um now data (int (length data)) ttl order B = Some ?R"
    unfolding addBuffer_def Let_def ob_def [symmetric] using mss B1(1) F(1) by simp
  moreover have "sb_rep ?R ms1 (ms2 @ packets_of ?mss data (sb_iNextMsgNo B) order now ttl)"
  proof -
    have "sb_core ?R s' us1 us2' fs' ms1 (ms2 @ packets_of ?mss data (sb_iNextMsgNo B) order now ttl)"
      using F(2) by (simp add: sb_core_def)
    moreover have "fs' \<noteq> []" using F(3,4) room by auto
    moreover have "length (packets_of ?mss data (sb_iNextMsgNo B) order now ttl) = nat ?siz" by (simp add: packets_of_def Let_def)
    ultimately show ?thesis using F(3-5) sizes siz eq unfolding sb_rep_def
      by (intro exI [of _ us1] exI [of _ us2'] exI [of _ fs']) simp
  qed
  ultimately show ?thesis using B1(4,6) F(5) by auto
qed

lemma readData_rep:
  assumes "sb_rep B ms1 ms2"
  shows "ms2 = [] \<Longrightarrow> readData B = Some (None, B)"
    "ms2 = m # r \<Longrightarrow> \<exists>ptr B'. readData B = Some (Some (ptr, int (length (fst m)), fst (snd m)), B') \<and>
       sb_pBuffer B' = sb_pBuffer B \<and> bytes_at (sb_pBuffer B) ptr (length (fst m)) = fst m \<and> sb_rep B' (ms1 @ [m]) r \<and>
       ptr_ok (sb_iMSS B) (sb_pBuffer B) ptr"
proof -
  obtain us1 us2 fs where C: "sb_core B (sb_pLastBlock B) us1 us2 fs ms1 ms2" and fs: "fs \<noteq> []"
    and sizes: "sb_iCount B = int (length ms1 + length ms2)" "sb_iSize B = int (length us1 + length us2 + length fs)"
    using assms by (auto simp: sb_rep_def)
  note D = sb_coreD [OF C]
  show "readData B = Some (None, B)" if "ms2 = []" using that D(5,9) by (simp add: readData_def)
  assume m: "ms2 = m # r"
  then obtain us where us: "us2 = sb_pCurrBlock B # us" using D(5,9) by (cases us2) auto
  let ?c = "sb_pCurrBlock B" and ?h = "sb_heap B"
  have hd: "?c < length ?h" and has: "block_has (sb_pBuffer B) (?h ! ?c) m"
    and p: "path ?h (b_pNext (?h ! ?c)) us (sb_pLastBlock B)" using D(5,9) us m by auto
  have "sb_pLastBlock B \<in> set fs" using path_hd [OF D(6) fs] by (metis list.set_intros(1))
  then have ne: "?c \<noteq> sb_pLastBlock B" using D(7) us by auto
  let ?B' = "B\<lparr>sb_pCurrBlock := b_pNext (?h ! ?c)\<rparr>"
  have "sb_core ?B' (sb_pLastBlock B) (us1 @ [?c]) us fs (ms1 @ [m]) r"
  proof (rule sb_coreI)
    show "list_all2 (\<lambda>p. block_has (sb_pBuffer ?B') (sb_heap ?B' ! p)) (us1 @ [?c]) (ms1 @ [m])"
      using D(8) has by (simp add: list_all2_appendI)
  qed (use D us m p hd in auto)
  then have "sb_rep ?B' (ms1 @ [m]) r" using sizes us m fs unfolding sb_rep_def
    by (intro exI [of _ "us1 @ [?c]"] exI [of _ us] exI [of _ fs]) simp
  then show "\<exists>ptr B'. readData B = Some (Some (ptr, int (length (fst m)), fst (snd m)), B') \<and>
      sb_pBuffer B' = sb_pBuffer B \<and> bytes_at (sb_pBuffer B) ptr (length (fst m)) = fst m \<and> sb_rep B' (ms1 @ [m]) r \<and>
      ptr_ok (sb_iMSS B) (sb_pBuffer B) ptr"
    using has ne hd D(11) us by (intro exI [of _ "b_pcData (?h ! ?c)"] exI [of _ ?B'])
      (auto simp: readData_def deref_def block_has_def split: prod.splits)
qed

text \<open>What a pointer of a block points to is there.\<close>

lemma ptr_ok_slice:
  assumes "ptr_ok mss bufs ptr" "0 < mss" "int n \<le> mss"
  shows "rd bufs (int (fst ptr)) = Some (bufs ! fst ptr)"
    "slice (p_pcData (bufs ! fst ptr)) (snd ptr) (int n) = Some (bytes_at bufs ptr n)"
proof -
  show "rd bufs (int (fst ptr)) = Some (bufs ! fst ptr)" using assms(1) by (simp add: ptr_ok_def)
  have "0 \<le> snd ptr" "snd ptr + int n \<le> int (length (p_pcData (bufs ! fst ptr)))"
    using assms by (auto simp: ptr_ok_def)
  then show "slice (p_pcData (bufs ! fst ptr)) (snd ptr) (int n) = Some (bytes_at bufs ptr n)"
    by (simp add: slice_def bytes_at_def)
qed

lemma follow_path: "path (sb_heap B) p (xs @ ys) q \<Longrightarrow> \<exists>r. follow (length xs) p B = Some r \<and>
    path (sb_heap B) p xs r \<and> path (sb_heap B) r ys q"
  by (induction xs arbitrary: p) (auto simp: deref_def)

lemma ackData_rep:
  assumes "sb_rep B ms1 ms2" "n \<le> length ms1"
  shows "\<exists>B'. sb_ackData (int n) B = Some B' \<and> sb_rep B' (drop n ms1) ms2"
proof -
  obtain us1 us2 fs where C: "sb_core B (sb_pLastBlock B) us1 us2 fs ms1 ms2" and fs: "fs \<noteq> []"
    and sizes: "sb_iCount B = int (length ms1 + length ms2)" "sb_iSize B = int (length us1 + length us2 + length fs)"
    using assms by (auto simp: sb_rep_def)
  note D = sb_coreD [OF C]
  have l: "length us1 = length ms1" using D(8) by (auto dest: list_all2_lengthD)
  have "path (sb_heap B) (sb_pFirstBlock B) (take n us1 @ drop n us1) (sb_pCurrBlock B)" using D(4) by simp
  from follow_path [OF this] obtain r where r: "follow n (sb_pFirstBlock B) B = Some r"
    "path (sb_heap B) (sb_pFirstBlock B) (take n us1) r" "path (sb_heap B) r (drop n us1) (sb_pCurrBlock B)"
    using assms(2) l by auto
  let ?B' = "B\<lparr>sb_pFirstBlock := r, sb_iCount := sb_iCount B - int n\<rparr>"
  have s: "set us1 = set (take n us1) \<union> set (drop n us1)" by (metis append_take_drop_id set_append)
  have "sb_core ?B' (sb_pLastBlock B) (drop n us1) us2 (fs @ take n us1) (drop n ms1) ms2"
  proof (rule sb_coreI)
    show "distinct (drop n us1 @ us2 @ fs @ take n us1)"
      using D(7) s by (auto dest: in_set_takeD in_set_dropD) (metis append_take_drop_id disjoint_iff distinct_append)
    show "list_all2 (\<lambda>p. block_has (sb_pBuffer ?B') (sb_heap ?B' ! p)) (drop n us1) (drop n ms1)"
      using D(8) by (simp add: list_all2_dropI)
    show "path (sb_heap ?B') (sb_pLastBlock B) (fs @ take n us1) (sb_pFirstBlock ?B')" using D(6) r(2) by auto
    show "\<forall>m \<in> set (drop n ms1) \<union> set ms2. int (length (fst m)) \<le> sb_iMSS ?B'"
      using D(10) by (auto dest: in_set_dropD)
    have "set (drop n us1 @ us2 @ fs @ take n us1) = set (us1 @ us2 @ fs)" using s by auto
    then show "\<forall>p \<in> set (drop n us1 @ us2 @ fs @ take n us1). ptr_ok (sb_iMSS ?B') (sb_pBuffer ?B') (b_pcData (sb_heap ?B' ! p))"
      "inj_on (\<lambda>p. b_pcData (sb_heap ?B' ! p)) (set (drop n us1 @ us2 @ fs @ take n us1))"
      using D(11,12) by simp_all
  qed (use D r in simp_all)
  then have "sb_rep ?B' (drop n ms1) ms2" using sizes fs assms(2) l unfolding sb_rep_def
    by (intro exI [of _ "drop n us1"] exI [of _ us2] exI [of _ "fs @ take n us1"]) simp
  then show ?thesis using r(1) by (simp add: sb_ackData_def)
qed

lemma list_all2_lookup: "list_all2 P xs ys \<Longrightarrow> n < length ys \<Longrightarrow> P (xs ! n) (ys ! n)"
  by (simp add: list_all2_conv_all_nth)

text \<open>A packet whose time to live, in milliseconds, is over; -1 stands for no limit.\<close>

definition expired_at :: "u64 \<Rightarrow> packet \<Rightarrow> bool" where
  "expired_at now m \<longleftrightarrow> snd (snd (snd m)) \<ge> 0 \<and> (now - fst (snd (snd m))) div 1000 > word_of_int (snd (snd (snd m)))"

lemma readDataAt_rep:
  assumes "sb_rep B ms1 ms2" "n < length (ms1 @ ms2)" "(ms1 @ ms2) ! n = (bs, msgno, t, ttl)"
    "\<not> (ttl \<ge> 0 \<and> (now - t) div 1000 > word_of_int ttl)"
  shows "\<exists>ptr. readDataAt now (int n) B = Some (ReadAt ptr (int (length bs)) msgno, B) \<and>
    bytes_at (sb_pBuffer B) ptr (length bs) = bs \<and> ptr_ok (sb_iMSS B) (sb_pBuffer B) ptr"
proof -
  obtain us1 us2 fs where C: "sb_core B (sb_pLastBlock B) us1 us2 fs ms1 ms2"
    using assms by (auto simp: sb_rep_def)
  note D = sb_coreD [OF C]
  let ?us = "us1 @ us2"
  have P: "list_all2 (\<lambda>p. block_has (sb_pBuffer B) (sb_heap B ! p)) ?us (ms1 @ ms2)"
    by (rule list_all2_appendI [OF D(8,9)])
  have l: "n < length ?us" using assms(2) list_all2_lengthD [OF P] by simp
  have "path (sb_heap B) (sb_pFirstBlock B) (take n ?us @ ?us ! n # drop (Suc n) ?us) (sb_pLastBlock B)"
    using D(4,5) id_take_nth_drop [OF l] by (metis path_append)
  from follow_path [OF this] obtain r where "follow (length (take n ?us)) (sb_pFirstBlock B) B = Some r"
    "path (sb_heap B) r (?us ! n # drop (Suc n) ?us) (sb_pLastBlock B)" by blast
  moreover have "length (take n ?us) = n" using l by simp
  ultimately have r: "follow n (sb_pFirstBlock B) B = Some r" "r = ?us ! n" "r < length (sb_heap B)"
    unfolding path.simps by metis+
  have "block_has (sb_pBuffer B) (sb_heap B ! r) (bs, msgno, t, ttl)"
    using list_all2_lookup [OF P assms(2)] assms(3) r(2) by simp
  moreover have "ptr_ok (sb_iMSS B) (sb_pBuffer B) (b_pcData (sb_heap B ! r))"
    using D(11) nth_mem [OF l] unfolding r(2) by auto
  ultimately show ?thesis using r(1,3) assms(4)
    by (intro exI [of _ "b_pcData (sb_heap B ! r)"]) (auto simp: readDataAt_def deref_def block_has_def)
qed

lemma getCurrBufSize_rep: "sb_rep B ms1 ms2 \<Longrightarrow> getCurrBufSize B = int (length (ms1 @ ms2))"
  by (auto simp: sb_rep_def getCurrBufSize_def)

text \<open>The packets of a message are its data, cut into pieces.\<close>

lemma sb_blocks_cover: "0 < mss \<Longrightarrow> 0 \<le> len \<Longrightarrow> len \<le> sb_blocks len mss * mss"
proof -
  assume a: "0 < mss" "0 \<le> len"
  have e: "len = len div mss * mss + len mod mss" by simp
  have m: "len mod mss < mss" using a by simp
  have "sb_blocks len mss = (if len mod mss \<noteq> 0 then len div mss + 1 else len div mss)" using a by (simp add: sb_blocks_def)
  then have "sb_blocks len mss * mss = len div mss * mss + (if len mod mss \<noteq> 0 then mss else 0)" by (simp add: distrib_right)
  moreover have "len mod mss \<le> (if len mod mss \<noteq> 0 then mss else 0)" using m by simp
  ultimately show ?thesis using e by linarith
qed

lemma concat_packets:
  assumes "0 < mss"
  shows "concat (map fst (packets_of mss data msgno order now ttl)) = data"
proof -
  let ?s = "sb_blocks (int (length data)) mss"
  let ?c = "\<lambda>i. take (nat mss) (drop (nat (i * mss)) data)"
  have "concat (map ?c [i..?s - 1]) = drop (nat (i * mss)) data" if "0 \<le> i" "i \<le> ?s" for i
    using that
  proof (induction "nat (?s - i)" arbitrary: i)
    case 0
    then have "i = ?s" by simp
    then show ?case using sb_blocks_cover [of mss "int (length data)"] assms by (simp add: nat_le_iff)
  next
    case (Suc n)
    have IH: "concat (map ?c [i + 1..?s - 1]) = drop (nat ((i + 1) * mss)) data" by (rule Suc.hyps) (use Suc in auto)
    have "nat ((i + 1) * mss) = nat mss + nat (i * mss)" using Suc.prems assms by (simp add: distrib_right nat_add_distrib)
    then have "drop (nat ((i + 1) * mss)) data = drop (nat mss) (drop (nat (i * mss)) data)" by simp
    then have "?c i @ drop (nat ((i + 1) * mss)) data = drop (nat (i * mss)) data" by (simp only: append_take_drop_id)
    moreover have "[i..?s - 1] = i # [i + 1..?s - 1]" using Suc.hyps(2) by (simp add: upto_rec1)
    ultimately show ?case using IH by simp
  qed
  from this [of 0] show ?thesis using sb_blocks_nonneg [OF _ assms, of "int (length data)"]
    by (simp add: packets_of_def Let_def packet_of_def o_def)
qed

lemma packets_fields:
  assumes "0 < mss" "i < length (packets_of mss data msgno order now ttl)"
  shows "snd (packets_of mss data msgno order now ttl ! i) =
    (pkt_msgno msgno (if order then 0x20000000 else 0) (int i) (int (length (packets_of mss data msgno order now ttl))), now, ttl)"
proof -
  let ?s = "sb_blocks (int (length data)) mss"
  have s: "0 \<le> ?s" using sb_blocks_nonneg [OF _ assms(1)] by simp
  have l: "length (packets_of mss data msgno order now ttl) = nat ?s" by (simp add: packets_of_def Let_def)
  have "[0..?s - 1] ! i = int i" using assms(2) l by simp
  then show ?thesis using assms(2) l s by (simp add: packets_of_def Let_def packet_of_def)
qed

end
