(* ===== verification/UdtUnitQueue.thy ===== *)
theory UdtUnitQueue
  imports UdtPacket
begin

section \<open>UDT: the queue of receiving units\<close>

text \<open>
  \<open>CUnitQueue\<close> of \<open>udt4/src/queue.cpp\<close>: a circular list of arrays of units, from which the
  receiver takes a free unit (flag 0) for each packet. The list of entries is in the order of the
  list, \<open>m_pQEntry\<close> first and \<open>m_pLastQueue\<close> last; the units of an entry are an array. A pointer to
  a unit is the number of the entry and the index; \<open>m_pAvailUnit\<close> always points into the
  current entry, and is the index. A unit's packet owns its \<open>m_iMSS\<close> bytes of the entry's buffer.
  Allocation does not fail.
\<close>

record cunit =
  cu_Packet :: cpacket
  cu_iFlag :: int

type_synonym uptr = "nat \<times> nat"

record unit_queue =
  uq_pQEntry :: "cunit list list"
  uq_pCurrQueue :: nat
  uq_pAvailUnit :: nat
  uq_iSize :: int
  uq_iCount :: int
  uq_iMSS :: int
  uq_iIPversion :: int

definition get_unit :: "uptr \<Rightarrow> unit_queue \<Rightarrow> cunit option" where
  "get_unit p Q = do { us \<leftarrow> rd (uq_pQEntry Q) (int (fst p)); rd us (int (snd p)) }"

definition upd_unit :: "uptr \<Rightarrow> (cunit \<Rightarrow> cunit) \<Rightarrow> unit_queue \<Rightarrow> unit_queue option" where
  "upd_unit p f Q =
     do { u \<leftarrow> get_unit p Q;
          Some (Q\<lparr>uq_pQEntry := (uq_pQEntry Q)[fst p := (uq_pQEntry Q ! fst p)[snd p := f u]]\<rparr>) }"

text \<open>\<open>um i\<close>: the uninitialised bytes of the \<open>i\<close>-th new unit.\<close>

definition new_units :: "(nat \<Rightarrow> u8 list) \<Rightarrow> int \<Rightarrow> cunit list" where
  "new_units um siz = map (\<lambda>i. \<lparr>cu_Packet = CPacket\<lparr>iov_base := Some (Bytes (um i))\<rparr>, cu_iFlag = 0\<rparr>) [0..<nat siz]"

definition CUnitQueue :: unit_queue where
  "CUnitQueue = \<lparr>uq_pQEntry = [], uq_pCurrQueue = 0, uq_pAvailUnit = 0, uq_iSize = 0, uq_iCount = 0, uq_iMSS = 0, uq_iIPversion = 0\<rparr>"

definition uq_init :: "(nat \<Rightarrow> u8 list) \<Rightarrow> int \<Rightarrow> int \<Rightarrow> int \<Rightarrow> unit_queue \<Rightarrow> int \<times> unit_queue" where
  "uq_init um siz mss version Q =
     (0, Q\<lparr>uq_pQEntry := [new_units um siz], uq_pCurrQueue := 0, uq_pAvailUnit := 0, uq_iSize := siz,
           uq_iMSS := mss, uq_iIPversion := version\<rparr>)"

definition used_units :: "unit_queue \<Rightarrow> int" where
  "used_units Q = int (length (filter (\<lambda>u. cu_iFlag u \<noteq> 0) (concat (uq_pQEntry Q))))"

text \<open>
  \<open>double(m_iCount) / m_iSize < 0.9\<close> on integers below \<open>2 ^ 31\<close>: the quotient is correctly rounded,
  and one that is not nine tenths differs from it by far more than the rounding.
\<close>

definition uq_increase :: "(nat \<Rightarrow> u8 list) \<Rightarrow> unit_queue \<Rightarrow> (int \<times> unit_queue) option" where
  "uq_increase um Q =
     (let Q = Q\<lparr>uq_iCount := used_units Q\<rparr> in
      if uq_iCount Q * 10 < uq_iSize Q * 9 then Some (-1, Q)
      else do {
        e \<leftarrow> rd (uq_pQEntry Q) 0;
        let siz = int (length e);
        Some (0, Q\<lparr>uq_pQEntry := uq_pQEntry Q @ [new_units um siz], uq_iSize := uq_iSize Q + siz\<rparr>) })"

text \<open>
  The \<open>for\<close> loop over the units of the current entry: it stops at the last unit (\<open>sentinel\<close>)
  without looking at it. \<open>n\<close> is the number of units from \<open>i\<close> to the sentinel.
\<close>

fun uq_scan :: "cunit list \<Rightarrow> nat \<Rightarrow> nat \<Rightarrow> bool \<times> nat" where
  "uq_scan us i 0 = (False, i)"
| "uq_scan us i (Suc n) = (if cu_iFlag (us ! i) = 0 then (True, i) else uq_scan us (Suc i) n)"

partial_function (option) uq_search :: "nat \<Rightarrow> unit_queue \<Rightarrow> (uptr option \<times> unit_queue) option" where
  "uq_search entrance Q =
     do { us \<leftarrow> rd (uq_pQEntry Q) (int (uq_pCurrQueue Q));
          if uq_pAvailUnit Q < length us then do {
            let (found, i) = uq_scan us (uq_pAvailUnit Q) (length us - 1 - uq_pAvailUnit Q);
            let Q = Q\<lparr>uq_pAvailUnit := i\<rparr>;
            if found then Some (Some (uq_pCurrQueue Q, i), Q)
            else if cu_iFlag (us ! 0) = 0 then Some (Some (uq_pCurrQueue Q, 0), Q\<lparr>uq_pAvailUnit := 0\<rparr>)
            else do {
              let Q = Q\<lparr>uq_pCurrQueue := (if Suc (uq_pCurrQueue Q) = length (uq_pQEntry Q) then 0 else Suc (uq_pCurrQueue Q)),
                        uq_pAvailUnit := 0\<rparr>;
              if uq_pCurrQueue Q \<noteq> entrance then uq_search entrance Q else Some (None, Q) } }
          else None }"

definition getNextAvailUnit :: "(nat \<Rightarrow> u8 list) \<Rightarrow> unit_queue \<Rightarrow> (uptr option \<times> unit_queue) option" where
  "getNextAvailUnit um Q =
     do { Q \<leftarrow> (if uq_iCount Q * 10 > uq_iSize Q * 9 then map_option snd (uq_increase um Q) else Some Q);
          if uq_iCount Q \<ge> uq_iSize Q then Some (None, Q)
          else do {
            (r, Q) \<leftarrow> uq_search (uq_pCurrQueue Q) Q;
            if r = None then map_option (\<lambda>(_, Q). (None, Q)) (uq_increase um Q) else Some (r, Q) } }"

subsection \<open>What the search returns\<close>

definition uq_ok :: "unit_queue \<Rightarrow> bool" where
  "uq_ok Q \<longleftrightarrow> uq_pCurrQueue Q < length (uq_pQEntry Q) \<and> (\<forall>us \<in> set (uq_pQEntry Q). us \<noteq> []) \<and>
     uq_pAvailUnit Q < length (uq_pQEntry Q ! uq_pCurrQueue Q)"

lemma uq_scan_ok:
  "uq_scan us i n = (found, j) \<Longrightarrow> i + n < length us \<Longrightarrow>
    i \<le> j \<and> j \<le> i + n \<and> (found \<longrightarrow> cu_iFlag (us ! j) = 0 \<and> j < i + n) \<and> (\<not> found \<longrightarrow> (\<forall>k \<in> {i..<i + n}. cu_iFlag (us ! k) \<noteq> 0))"
proof (induction n arbitrary: i)
  case (Suc n)
  show ?case
  proof (cases "cu_iFlag (us ! i) = 0")
    case True
    then show ?thesis using Suc.prems by auto
  next
    case False
    have "{i..<i + Suc n} = insert i {Suc i..<Suc i + n}" by auto
    then show ?thesis using Suc.IH [of "Suc i"] Suc.prems False by auto
  qed
qed auto

text \<open>A unit that the search may return: free, and not the last one of an array of more than one.\<close>

definition takeable :: "unit_queue \<Rightarrow> uptr \<Rightarrow> bool" where
  "takeable Q p \<longleftrightarrow> (\<exists>c. get_unit p Q = Some c \<and> cu_iFlag c = 0) \<and>
     (snd p = 0 \<or> Suc (snd p) < length (uq_pQEntry Q ! fst p))"

lemma uq_search_ok:
  assumes "uq_ok Q" "entrance < length (uq_pQEntry Q)"
  shows "\<exists>r Q'. uq_search entrance Q = Some (r, Q') \<and> uq_ok Q' \<and> uq_pQEntry Q' = uq_pQEntry Q \<and>
    uq_iSize Q' = uq_iSize Q \<and> uq_iCount Q' = uq_iCount Q \<and> (case r of None \<Rightarrow> True | Some p \<Rightarrow> takeable Q p)"
  using assms
proof (induction "if uq_pCurrQueue Q < entrance then entrance - uq_pCurrQueue Q
    else length (uq_pQEntry Q) - uq_pCurrQueue Q + entrance" arbitrary: Q rule: less_induct)
  case less
  let ?c = "uq_pCurrQueue Q" and ?n = "length (uq_pQEntry Q)"
  let ?us = "uq_pQEntry Q ! ?c" and ?i = "uq_pAvailUnit Q"
  have ok: "?c < ?n" "?us \<noteq> []" "?i < length ?us" using less.prems(1) by (auto simp: uq_ok_def)
  obtain found j where sc: "uq_scan ?us ?i (length ?us - 1 - ?i) = (found, j)" by (cases "uq_scan ?us ?i (length ?us - 1 - ?i)")
  have j: "j \<le> length ?us - 1" "found \<Longrightarrow> cu_iFlag (?us ! j) = 0 \<and> Suc j < length ?us"
    using uq_scan_ok [OF sc] ok by auto
  have get: "get_unit (?c, k) Q = Some (?us ! k)" if "k < length ?us" for k using ok that by (simp add: get_unit_def)
  define nxt where nxt: "nxt = (if Suc ?c = ?n then 0 else Suc ?c)"
  let ?Q = "Q\<lparr>uq_pCurrQueue := nxt, uq_pAvailUnit := 0\<rparr>"
  have nx: "nxt < ?n" using ok(1) by (auto simp: nxt)
  then have "uq_pQEntry Q ! nxt \<noteq> []" using less.prems(1) unfolding uq_ok_def by (metis nth_mem)
  with nx have ok': "uq_ok ?Q" using less.prems(1) by (simp add: uq_ok_def)
  consider "found" | "\<not> found" "cu_iFlag (?us ! 0) = 0" | "\<not> found" "cu_iFlag (?us ! 0) \<noteq> 0" "nxt = entrance"
    | "\<not> found" "cu_iFlag (?us ! 0) \<noteq> 0" "nxt \<noteq> entrance" by blast
  then show ?case
  proof cases
    case 1
    then have "uq_search entrance Q = Some (Some (?c, j), Q\<lparr>uq_pAvailUnit := j\<rparr>)"
      using ok sc by (subst uq_search.simps) simp
    then show ?thesis using 1 j get [of j] less.prems by (auto simp: uq_ok_def takeable_def)
  next
    case 2
    then have "uq_search entrance Q = Some (Some (?c, 0), Q\<lparr>uq_pAvailUnit := 0\<rparr>)"
      using ok sc by (subst uq_search.simps) simp
    then show ?thesis using 2 get [of 0] ok less.prems by (auto simp: uq_ok_def takeable_def)
  next
    case 3
    then have "uq_search entrance Q = Some (None, ?Q)"
      using ok sc by (subst uq_search.simps) (auto simp: Let_def nxt)
    then show ?thesis using ok' by simp
  next
    case 4
    have "uq_search entrance Q = uq_search entrance ?Q"
      using ok sc 4 by (subst uq_search.simps) (auto simp: Let_def nxt)
    moreover have d: "(if uq_pCurrQueue ?Q < entrance then entrance - uq_pCurrQueue ?Q
        else length (uq_pQEntry ?Q) - uq_pCurrQueue ?Q + entrance) <
        (if ?c < entrance then entrance - ?c else ?n - ?c + entrance)"
      using ok(1) 4(3) less.prems(2) by (auto simp: nxt split: if_splits)
    moreover obtain r Q' where r: "uq_search entrance ?Q = Some (r, Q')" "uq_ok Q'" "uq_pQEntry Q' = uq_pQEntry ?Q"
      "uq_iSize Q' = uq_iSize ?Q" "uq_iCount Q' = uq_iCount ?Q" "case r of None \<Rightarrow> True | Some p \<Rightarrow> takeable ?Q p"
      using less.hyps [OF d ok'] less.prems(2) by auto
    moreover have "takeable ?Q = takeable Q" by (intro ext) (simp add: takeable_def get_unit_def)
    ultimately have "uq_search entrance Q = Some (r, Q')" "case r of None \<Rightarrow> True | Some p \<Rightarrow> takeable Q p" by (simp_all only:)
    with r show ?thesis by simp
  qed
qed

lemma uq_increase_ok:
  assumes "uq_ok Q"
  shows "\<exists>r Q'. uq_increase um Q = Some (r, Q') \<and> uq_ok Q'"
proof -
  have e: "uq_pQEntry Q \<noteq> []" using assms by (auto simp: uq_ok_def)
  then have "uq_pQEntry Q ! 0 \<in> set (uq_pQEntry Q)" by (intro nth_mem) simp
  then have "uq_pQEntry Q ! 0 \<noteq> []" using assms by (auto simp: uq_ok_def)
  then show ?thesis using assms e by (auto simp: uq_increase_def uq_ok_def Let_def rd_def new_units_def nth_append)
qed

lemma getNextAvailUnit_ok:
  assumes "uq_ok Q"
  shows "\<exists>r Q'. getNextAvailUnit um Q = Some (r, Q') \<and> uq_ok Q' \<and> (case r of None \<Rightarrow> True | Some p \<Rightarrow> takeable Q' p)"
proof -
  obtain Q1 where Q1: "(if uq_iCount Q * 10 > uq_iSize Q * 9 then map_option snd (uq_increase um Q) else Some Q) = Some Q1" "uq_ok Q1"
    using uq_increase_ok [OF assms, of um] assms by (cases "uq_iCount Q * 10 > uq_iSize Q * 9") auto
  show ?thesis
  proof (cases "uq_iCount Q1 \<ge> uq_iSize Q1")
    case True
    then show ?thesis using Q1 by (simp add: getNextAvailUnit_def)
  next
    case False
    have "uq_pCurrQueue Q1 < length (uq_pQEntry Q1)" using Q1(2) by (simp add: uq_ok_def)
    from uq_search_ok [OF Q1(2) this] obtain r Q2 where s: "uq_search (uq_pCurrQueue Q1) Q1 = Some (r, Q2)" "uq_ok Q2"
      "uq_pQEntry Q2 = uq_pQEntry Q1" "case r of None \<Rightarrow> True | Some p \<Rightarrow> takeable Q1 p" by blast
    have t: "takeable Q2 p = takeable Q1 p" for p by (simp add: takeable_def get_unit_def s(3))
    obtain r3 Q3 where "uq_increase um Q2 = Some (r3, Q3)" "uq_ok Q3" using uq_increase_ok [OF s(2)] by blast
    then show ?thesis using Q1(1) False s t by (cases r) (auto simp: getNextAvailUnit_def)
  qed
qed

end
