(* ===== verification/UdtRcvBuffer.thy ===== *)
theory UdtRcvBuffer
  imports UdtUnitQueue
begin

section \<open>UDT: the receiver's buffer\<close>

text \<open>
  \<open>CRcvBuffer\<close> of \<open>udt4/src/buffer.cpp\<close>: a circular array of pointers to units. The units belong
  to the unit queue, whose flags and count the buffer updates, so each operation takes and
  returns the queue as well. \<open>None\<close> is undefined behaviour: an index out of bounds, a dereferenced
  \<open>NULL\<close>, a copy beyond a unit's data, a loop that does not end. What the code copies to the caller's
  memory is the bytes of the result.
\<close>

record rcv_buffer =
  rb_pUnit :: "uptr option list"
  rb_iSize :: int
  rb_iStartPos :: int
  rb_iLastAckPos :: int
  rb_iMaxPos :: int
  rb_iNotch :: int

definition CRcvBuffer :: "int \<Rightarrow> rcv_buffer" where
  "CRcvBuffer bufsize = \<lparr>rb_pUnit = replicate (nat bufsize) None, rb_iSize = bufsize, rb_iStartPos = 0,
     rb_iLastAckPos = 0, rb_iMaxPos = 0, rb_iNotch = 0\<rparr>"

text \<open>The destructor gives the units back.\<close>

fun rcv_destroy :: "uptr option list \<Rightarrow> unit_queue \<Rightarrow> unit_queue option" where
  "rcv_destroy [] Q = Some Q"
| "rcv_destroy (None # us) Q = rcv_destroy us Q"
| "rcv_destroy (Some u # us) Q =
     do { Q \<leftarrow> upd_unit u (cu_iFlag_update (\<lambda>_. 0)) Q; rcv_destroy us (Q\<lparr>uq_iCount := uq_iCount Q - 1\<rparr>) }"

text \<open>Access through \<open>m_pUnit[i]\<close>: the unit, \<open>NULL\<close> being \<open>None\<close> inside; and \<open>++ p\<close> around the end.\<close>

definition unit_at :: "int \<Rightarrow> rcv_buffer \<Rightarrow> unit_queue \<Rightarrow> cunit option option" where
  "unit_at i B Q = do { p \<leftarrow> rd (rb_pUnit B) i; case p of None \<Rightarrow> Some None | Some u \<Rightarrow> map_option Some (get_unit u Q) }"

definition flag_unit :: "int \<Rightarrow> int \<Rightarrow> rcv_buffer \<Rightarrow> unit_queue \<Rightarrow> unit_queue option" where
  "flag_unit i v B Q = do { p \<leftarrow> rd (rb_pUnit B) i; u \<leftarrow> p; upd_unit u (cu_iFlag_update (\<lambda>_. v)) Q }"

definition rb_next :: "rcv_buffer \<Rightarrow> int \<Rightarrow> int" where
  "rb_next B p = (if p + 1 = rb_iSize B then 0 else p + 1)"

text \<open>Taking a unit out of the buffer and giving it back to the queue.\<close>

definition rb_release :: "int \<Rightarrow> rcv_buffer \<Rightarrow> unit_queue \<Rightarrow> (rcv_buffer \<times> unit_queue) option" where
  "rb_release p B Q =
     do { Q \<leftarrow> flag_unit p 0 B Q;
          us \<leftarrow> wr (rb_pUnit B) p None;
          Some (B\<lparr>rb_pUnit := us\<rparr>, Q\<lparr>uq_iCount := uq_iCount Q - 1\<rparr>) }"

definition pc_bytes :: "cpacket \<Rightarrow> u8 list option" where
  "pc_bytes p = (case iov_base p of Some (Bytes bs) \<Rightarrow> Some bs | _ \<Rightarrow> None)"

subsection \<open>Storing\<close>

definition addData :: "uptr \<Rightarrow> int \<Rightarrow> rcv_buffer \<Rightarrow> unit_queue \<Rightarrow> (int \<times> rcv_buffer \<times> unit_queue) option" where
  "addData u off B Q =
     do { let pos = cmod (rb_iLastAckPos B + off) (rb_iSize B);
          let B = (if off > rb_iMaxPos B then B\<lparr>rb_iMaxPos := off\<rparr> else B);
          p \<leftarrow> rd (rb_pUnit B) pos;
          if p \<noteq> None then Some (-1, B, Q)
          else do {
            us \<leftarrow> wr (rb_pUnit B) pos (Some u);
            let B = B\<lparr>rb_pUnit := us\<rparr>;
            Q \<leftarrow> upd_unit u (cu_iFlag_update (\<lambda>_. 1)) Q;
            Some (0, B, Q\<lparr>uq_iCount := uq_iCount Q + 1\<rparr>) } }"

definition rb_ackData :: "int \<Rightarrow> rcv_buffer \<Rightarrow> rcv_buffer" where
  "rb_ackData len B =
     (let B = B\<lparr>rb_iLastAckPos := cmod (rb_iLastAckPos B + len) (rb_iSize B)\<rparr>;
          B = B\<lparr>rb_iMaxPos := rb_iMaxPos B - len\<rparr>
      in if rb_iMaxPos B < 0 then B\<lparr>rb_iMaxPos := 0\<rparr> else B)"

definition getRcvDataSize :: "rcv_buffer \<Rightarrow> int" where
  "getRcvDataSize B =
     (if rb_iLastAckPos B \<ge> rb_iStartPos B then rb_iLastAckPos B - rb_iStartPos B
      else rb_iSize B + rb_iLastAckPos B - rb_iStartPos B)"

definition getAvailBufSize :: "rcv_buffer \<Rightarrow> int" where
  "getAvailBufSize B = rb_iSize B - getRcvDataSize B - 1"

subsection \<open>Reading a stream\<close>

text \<open>
  One round of the loops of \<open>readBuffer\<close> and \<open>readBufferToFile\<close> at position \<open>p\<close> with \<open>rs\<close> bytes wanted:
  the bytes copied, and the step after it, which takes the unit out if it is used up.
\<close>

definition rb_bytes :: "int \<Rightarrow> int \<Rightarrow> rcv_buffer \<Rightarrow> unit_queue \<Rightarrow> (u8 list \<times> int) option" where
  "rb_bytes p rs B Q =
     do { u \<leftarrow> unit_at p B Q;
          u \<leftarrow> u;
          let left = getLength (cu_Packet u) - rb_iNotch B;
          let unitsize = (if left > rs then rs else left);
          bs \<leftarrow> pc_bytes (cu_Packet u);
          out \<leftarrow> slice bs (rb_iNotch B) unitsize;
          Some (out, left) }"

definition rb_consume :: "int \<Rightarrow> int \<Rightarrow> int \<Rightarrow> int \<Rightarrow> rcv_buffer \<Rightarrow> unit_queue \<Rightarrow> (int \<times> rcv_buffer \<times> unit_queue) option" where
  "rb_consume p rs unitsize left B Q =
     (if rs > unitsize \<or> rs = left then do {
        (B, Q) \<leftarrow> rb_release p B Q;
        Some (rb_next B p, B\<lparr>rb_iNotch := 0\<rparr>, Q) }
      else Some (p, B\<lparr>rb_iNotch := rb_iNotch B + rs\<rparr>, Q))"

partial_function (option) rb_read_loop ::
  "int \<Rightarrow> int \<Rightarrow> int \<Rightarrow> u8 list \<Rightarrow> rcv_buffer \<Rightarrow> unit_queue \<Rightarrow> (int \<times> int \<times> u8 list \<times> rcv_buffer \<times> unit_queue) option" where
  "rb_read_loop lastack p rs data B Q =
     (if p \<noteq> lastack \<and> rs > 0 then do {
        (bs, left) \<leftarrow> rb_bytes p rs B Q;
        (p', B, Q) \<leftarrow> rb_consume p rs (int (length bs)) left B Q;
        rb_read_loop lastack p' (rs - int (length bs)) (data @ bs) B Q }
      else Some (p, rs, data, B, Q))"

definition readBuffer :: "int \<Rightarrow> rcv_buffer \<Rightarrow> unit_queue \<Rightarrow> (int \<times> u8 list \<times> rcv_buffer \<times> unit_queue) option" where
  "readBuffer len B Q =
     do { (p, rs, data, B, Q) \<leftarrow> rb_read_loop (rb_iLastAckPos B) (rb_iStartPos B) len [] B Q;
          Some (len - rs, data, B\<lparr>rb_iStartPos := p\<rparr>, Q) }"

text \<open>\<open>wfail k\<close>: whether the file stream fails in the \<open>k\<close>-th write of the call.\<close>

partial_function (option) rb_file_loop ::
  "(nat \<Rightarrow> bool) \<Rightarrow> nat \<Rightarrow> int \<Rightarrow> int \<Rightarrow> int \<Rightarrow> u8 list \<Rightarrow> rcv_buffer \<Rightarrow> unit_queue \<Rightarrow> (int \<times> int \<times> u8 list \<times> rcv_buffer \<times> unit_queue) option" where
  "rb_file_loop wfail k lastack p rs data B Q =
     (if p \<noteq> lastack \<and> rs > 0 then do {
        (bs, left) \<leftarrow> rb_bytes p rs B Q;
        if wfail k then Some (p, rs, data, B, Q)
        else do {
          (p', B, Q) \<leftarrow> rb_consume p rs (int (length bs)) left B Q;
          rb_file_loop wfail (Suc k) lastack p' (rs - int (length bs)) (data @ bs) B Q } }
      else Some (p, rs, data, B, Q))"

definition readBufferToFile :: "(nat \<Rightarrow> bool) \<Rightarrow> int \<Rightarrow> rcv_buffer \<Rightarrow> unit_queue \<Rightarrow> (int \<times> u8 list \<times> rcv_buffer \<times> unit_queue) option" where
  "readBufferToFile wfail len B Q =
     do { (p, rs, data, B, Q) \<leftarrow> rb_file_loop wfail 0 (rb_iLastAckPos B) (rb_iStartPos B) len [] B Q;
          Some (len - rs, data, B\<lparr>rb_iStartPos := p\<rparr>, Q) }"

subsection \<open>Reading messages\<close>

text \<open>\<open>dropMsg\<close> compares with the whole header word of the packet, flags included.\<close>

partial_function (option) dropMsg_loop :: "int \<Rightarrow> int \<Rightarrow> int \<Rightarrow> rcv_buffer \<Rightarrow> unit_queue \<Rightarrow> unit_queue option" where
  "dropMsg_loop msgno i n B Q =
     (if i \<noteq> n then do {
        u \<leftarrow> unit_at i B Q;
        Q \<leftarrow> (case u of Some c \<Rightarrow> if msgno = hdr 1 (cu_Packet c) then flag_unit i 3 B Q else Some Q | None \<Rightarrow> Some Q);
        dropMsg_loop msgno (cmod (i + 1) (rb_iSize B)) n B Q }
      else Some Q)"

definition dropMsg :: "int \<Rightarrow> rcv_buffer \<Rightarrow> unit_queue \<Rightarrow> unit_queue option" where
  "dropMsg msgno B Q = dropMsg_loop msgno (rb_iStartPos B) (cmod (rb_iLastAckPos B + rb_iMaxPos B) (rb_iSize B)) B Q"

text \<open>The look ahead for the whole message, from \<open>i\<close> to the last acknowledged position: \<open>good\<close>.\<close>

partial_function (option) scan_ahead :: "int \<Rightarrow> rcv_buffer \<Rightarrow> unit_queue \<Rightarrow> bool option" where
  "scan_ahead i B Q =
     (if i \<noteq> rb_iLastAckPos B then do {
        u \<leftarrow> unit_at i B Q;
        case u of None \<Rightarrow> Some False
        | Some c \<Rightarrow>
            if cu_iFlag c \<noteq> 1 then Some False
            else if getMsgBoundary (cu_Packet c) = 1 \<or> getMsgBoundary (cu_Packet c) = 3 then Some True
            else scan_ahead (rb_next B i) B Q }
      else Some True)"

text \<open>Skipping the bad messages at the beginning.\<close>

partial_function (option) scan_skip :: "rcv_buffer \<Rightarrow> unit_queue \<Rightarrow> (rcv_buffer \<times> unit_queue) option" where
  "scan_skip B Q =
     (if rb_iStartPos B \<noteq> rb_iLastAckPos B then do {
        u \<leftarrow> unit_at (rb_iStartPos B) B Q;
        case u of None \<Rightarrow> scan_skip (B\<lparr>rb_iStartPos := rb_next B (rb_iStartPos B)\<rparr>) Q
        | Some c \<Rightarrow> do {
            good \<leftarrow> (if cu_iFlag c = 1 \<and> getMsgBoundary (cu_Packet c) > 1 then scan_ahead (rb_iStartPos B) B Q else Some False);
            if good then Some (B, Q)
            else do {
              (B, Q) \<leftarrow> rb_release (rb_iStartPos B) B Q;
              scan_skip (B\<lparr>rb_iStartPos := rb_next B (rb_iStartPos B)\<rparr>) Q } } }
      else Some (B, Q))"

text \<open>
  The search for the first message, \<open>n\<close> iterations: \<open>p\<close> is the head or \<open>-1\<close>, \<open>q\<close> the position. The
  result is \<open>found\<close>, \<open>p\<close>, \<open>q\<close> and \<open>passack\<close>.
\<close>

fun scan_find :: "nat \<Rightarrow> int \<Rightarrow> int \<Rightarrow> bool \<Rightarrow> rcv_buffer \<Rightarrow> unit_queue \<Rightarrow> (bool \<times> int \<times> int \<times> bool) option" where
  "scan_find 0 p q passack B Q = Some (False, p, q, passack)"
| "scan_find (Suc n) p q passack B Q =
     do { u \<leftarrow> unit_at q B Q;
          let (found, p) =
            (case u of None \<Rightarrow> (False, -1)
             | Some c \<Rightarrow>
                 if cu_iFlag c \<noteq> 1 then (False, -1)
                 else let b = getMsgBoundary (cu_Packet c) in
                   if b = 3 then (True, q)
                   else if b = 2 then (False, q)
                   else if b = 1 then (p \<noteq> -1, p)
                   else (False, p));
          if found \<and> (\<not> passack \<or> \<not> (case u of Some c \<Rightarrow> getMsgOrderFlag (cu_Packet c) | None \<Rightarrow> True))
          then Some (True, p, q, passack)
          else let q = rb_next B q in scan_find n p q (passack \<or> q = rb_iLastAckPos B) B Q }"

definition scanMsg :: "rcv_buffer \<Rightarrow> unit_queue \<Rightarrow> ((int \<times> int \<times> bool) option \<times> rcv_buffer \<times> unit_queue) option" where
  "scanMsg B Q =
     (if rb_iStartPos B = rb_iLastAckPos B \<and> rb_iMaxPos B \<le> 0 then Some (None, B, Q)
      else do {
        (B, Q) \<leftarrow> scan_skip B Q;
        (found, p, q, passack) \<leftarrow>
          scan_find (nat (rb_iMaxPos B + getRcvDataSize B + 1)) (-1) (rb_iStartPos B) (rb_iStartPos B = rb_iLastAckPos B) B Q;
        let found = (if \<not> found then p \<noteq> -1 \<and> cmod (q + 1) (rb_iSize B) = p else True);
        Some (if found then Some (p, q, passack) else None, B, Q) })"

partial_function (option) readMsg_loop ::
  "int \<Rightarrow> int \<Rightarrow> int \<Rightarrow> bool \<Rightarrow> u8 list \<Rightarrow> rcv_buffer \<Rightarrow> unit_queue \<Rightarrow> (int \<times> u8 list \<times> rcv_buffer \<times> unit_queue) option" where
  "readMsg_loop p stop rs passack data B Q =
     (if p \<noteq> stop then do {
        u \<leftarrow> unit_at p B Q;
        c \<leftarrow> u;
        let unitsize = getLength (cu_Packet c);
        let unitsize = (if rs \<ge> 0 \<and> unitsize > rs then rs else unitsize);
        bs \<leftarrow> (if unitsize > 0 then do { b \<leftarrow> pc_bytes (cu_Packet c); slice b 0 unitsize } else Some []);
        (B, Q) \<leftarrow> (if \<not> passack then rb_release p B Q else map_option (\<lambda>Q. (B, Q)) (flag_unit p 2 B Q));
        readMsg_loop (rb_next B p) stop (rs - int (length bs)) passack (data @ bs) B Q }
      else Some (rs, data, B, Q))"

definition readMsg :: "int \<Rightarrow> rcv_buffer \<Rightarrow> unit_queue \<Rightarrow> (int \<times> u8 list \<times> rcv_buffer \<times> unit_queue) option" where
  "readMsg len B Q =
     do { (r, B, Q) \<leftarrow> scanMsg B Q;
          case r of None \<Rightarrow> Some (0, [], B, Q)
          | Some (p, q, passack) \<Rightarrow> do {
              let stop = cmod (q + 1) (rb_iSize B);
              (rs, data, B, Q) \<leftarrow> readMsg_loop p stop len passack [] B Q;
              let B = (if \<not> passack then B\<lparr>rb_iStartPos := stop\<rparr> else B);
              Some (len - rs, data, B, Q) } }"

definition getRcvMsgNum :: "rcv_buffer \<Rightarrow> unit_queue \<Rightarrow> (int \<times> rcv_buffer \<times> unit_queue) option" where
  "getRcvMsgNum B Q = do { (r, B, Q) \<leftarrow> scanMsg B Q; Some (if r \<noteq> None then 1 else 0, B, Q) }"

end
