(* ===== verification/UdtRcvBufferSpec.thy ===== *)
theory UdtRcvBufferSpec
  imports UdtRcvBuffer
begin

section \<open>UDT: the receiver's buffer is a stream\<close>

text \<open>
  \<open>rb_view p B Q ds\<close>: from position \<open>p\<close> to the last acknowledged one the buffer holds packets with the
  data \<open>ds\<close>. What the application can read is \<open>concat ds\<close> without the first \<open>m_iNotch\<close> bytes.
\<close>

definition chunk :: "int \<Rightarrow> rcv_buffer \<Rightarrow> unit_queue \<Rightarrow> u8 list option" where
  "chunk p B Q = do { u \<leftarrow> unit_at p B Q; c \<leftarrow> u; bs \<leftarrow> pc_bytes (cu_Packet c); slice bs 0 (getLength (cu_Packet c)) }"

definition rb_ok :: "rcv_buffer \<Rightarrow> bool" where
  "rb_ok B \<longleftrightarrow> 0 < rb_iSize B \<and> length (rb_pUnit B) = nat (rb_iSize B) \<and> 0 \<le> rb_iMaxPos B \<and>
     0 \<le> rb_iStartPos B \<and> rb_iStartPos B < rb_iSize B \<and> 0 \<le> rb_iLastAckPos B \<and> rb_iLastAckPos B < rb_iSize B"

definition rb_view :: "int \<Rightarrow> rcv_buffer \<Rightarrow> unit_queue \<Rightarrow> u8 list list \<Rightarrow> bool" where
  "rb_view p B Q ds \<longleftrightarrow> 0 < rb_iSize B \<and> length (rb_pUnit B) = nat (rb_iSize B) \<and> 0 \<le> p \<and> p < rb_iSize B \<and>
     int (length ds) < rb_iSize B \<and> rb_iLastAckPos B = (p + int (length ds)) mod rb_iSize B \<and>
     (\<forall>k < length ds. chunk ((p + int k) mod rb_iSize B) B Q = Some (ds ! k)) \<and>
     0 \<le> rb_iNotch B \<and> rb_iNotch B \<le> (case ds of [] \<Rightarrow> 0 | d # _ \<Rightarrow> int (length d))"

definition unread :: "rcv_buffer \<Rightarrow> u8 list list \<Rightarrow> u8 list" where
  "unread B ds = drop (nat (rb_iNotch B)) (concat ds)"

lemma rb_next_mod: "0 \<le> p \<Longrightarrow> p < rb_iSize B \<Longrightarrow> rb_next B p = (p + 1) mod rb_iSize B"
  by (auto simp: rb_next_def)

lemma get_unit_upd:
  assumes "upd_unit p f Q = Some Q'"
  shows "get_unit q Q' = (if q = p then map_option f (get_unit q Q) else get_unit q Q)"
  using assms
  by (cases p; cases q) (auto simp: upd_unit_def get_unit_def rd_def nth_list_update bind_eq_Some_conv split: if_splits)

lemma upd_flag_packet:
  assumes "upd_unit u (cu_iFlag_update g) Q = Some Q'"
  shows "map_option cu_Packet (get_unit q Q') = map_option cu_Packet (get_unit q Q)"
  using get_unit_upd [OF assms] by (auto simp: option.map_comp o_def)

lemma chunk_cong:
  assumes "rd (rb_pUnit B') p = rd (rb_pUnit B) p"
    "\<And>q. map_option cu_Packet (get_unit q Q') = map_option cu_Packet (get_unit q Q)"
  shows "chunk p B' Q' = chunk p B Q"
proof (cases "rd (rb_pUnit B) p")
  case (Some r)
  show ?thesis
  proof (cases r)
    case (Some u)
    show ?thesis using \<open>rd (rb_pUnit B) p = Some r\<close> Some assms(1) assms(2) [of u]
      by (cases "get_unit u Q"; cases "get_unit u Q'") (auto simp: chunk_def unit_at_def)
  qed (use Some assms(1) in \<open>simp add: chunk_def unit_at_def\<close>)
qed (simp add: chunk_def unit_at_def assms(1))

lemma chunk_unit:
  assumes "chunk p B Q = Some d"
  obtains u c bs where "rd (rb_pUnit B) p = Some (Some u)" "get_unit u Q = Some c" "unit_at p B Q = Some (Some c)"
    "pc_bytes (cu_Packet c) = Some bs" "getLength (cu_Packet c) = int (length d)" "d = take (length d) bs" "length d \<le> length bs"
  using assms by (auto simp: chunk_def unit_at_def slice_def bind_eq_Some_conv split: option.splits if_splits)

lemma rb_release_ok:
  assumes "rd (rb_pUnit B) p = Some (Some u)" "get_unit u Q = Some c"
  shows "\<exists>Q'. rb_release p B Q = Some (B\<lparr>rb_pUnit := (rb_pUnit B)[nat p := None]\<rparr>, Q') \<and> uq_iCount Q' = uq_iCount Q - 1 \<and>
    get_unit u Q' = Some (c\<lparr>cu_iFlag := 0\<rparr>) \<and> (\<forall>q. map_option cu_Packet (get_unit q Q') = map_option cu_Packet (get_unit q Q))"
proof -
  obtain Q1 where Q1: "upd_unit u (cu_iFlag_update (\<lambda>_. 0)) Q = Some Q1" using assms(2) by (simp add: upd_unit_def)
  have "uq_iCount Q1 = uq_iCount Q" using Q1 assms(2) by (auto simp: upd_unit_def)
  moreover have "get_unit q (Q1\<lparr>uq_iCount := n\<rparr>) = get_unit q Q1" for q n by (simp add: get_unit_def)
  moreover have "rb_release p B Q = Some (B\<lparr>rb_pUnit := (rb_pUnit B)[nat p := None]\<rparr>, Q1\<lparr>uq_iCount := uq_iCount Q1 - 1\<rparr>)"
    using assms(1) Q1 by (simp add: rb_release_def flag_unit_def) (auto simp: rd_eq_Some wr_def)
  ultimately show ?thesis using assms(2) upd_flag_packet [OF Q1] get_unit_upd [OF Q1, of u]
    by (intro exI [of _ "Q1\<lparr>uq_iCount := uq_iCount Q1 - 1\<rparr>"]) simp
qed

lemma view_tl:
  assumes V: "rb_view p B Q (d # ds)" and B': "B' = B\<lparr>rb_pUnit := (rb_pUnit B)[nat p := None], rb_iNotch := 0\<rparr>"
    and Q': "\<And>q. map_option cu_Packet (get_unit q Q') = map_option cu_Packet (get_unit q Q)"
  shows "rb_view (rb_next B p) B' Q' ds"
proof -
  let ?N = "rb_iSize B"
  have N: "0 < ?N" "0 \<le> p" "p < ?N" "int (length ds) + 1 < ?N" "length (rb_pUnit B) = nat ?N"
    and last: "rb_iLastAckPos B = (p + int (length (d # ds))) mod ?N"
    and ch: "\<forall>k < length (d # ds). chunk ((p + int k) mod ?N) B Q = Some ((d # ds) ! k)"
    using V unfolding rb_view_def by auto
  have nx: "rb_next B p = (p + 1) mod ?N" using rb_next_mod N by blast
  have "chunk ((rb_next B p + int k) mod ?N) B' Q' = Some (ds ! k)" if k: "k < length ds" for k
  proof -
    let ?i = "(p + int (Suc k)) mod ?N"
    have i: "(rb_next B p + int k) mod ?N = ?i" by (simp add: nx mod_add_left_eq add.assoc)
    have ne: "?i \<noteq> p"
    proof
      assume "?i = p"
      then have "(p + int (Suc k)) mod ?N = (p + 0) mod ?N" using N by simp
      then have "int (Suc k) mod ?N = 0" unfolding mod_add_cancel by simp
      then show False using k N(4) by simp
    qed
    have "0 \<le> ?i" using N(1) by simp
    then have "nat ?i \<noteq> nat p" using ne N(2) by simp
    then have "rd (rb_pUnit B') ?i = rd (rb_pUnit B) ?i" by (simp add: B' rd_upd_other)
    from chunk_cong [OF this Q'] ch [rule_format, of "Suc k"] show ?thesis unfolding i using k by simp
  qed
  moreover have "(rb_next B p + int (length ds)) mod ?N = (p + int (length (d # ds))) mod ?N"
    by (simp add: nx mod_add_left_eq add.assoc)
  moreover have "0 \<le> rb_next B p" "rb_next B p < ?N" using N(1) by (simp_all add: nx)
  ultimately show ?thesis using N last unfolding rb_view_def by (simp add: B' split: list.splits)
qed


lemma rb_bytes_ok:
  assumes "chunk p B Q = Some d" "0 \<le> rb_iNotch B" "rb_iNotch B \<le> int (length d)" "0 < rs"
  shows "rb_bytes p rs B Q = Some (take (nat rs) (drop (nat (rb_iNotch B)) d), int (length d) - rb_iNotch B)"
proof -
  from chunk_unit [OF assms(1)] obtain u c bs where u: "unit_at p B Q = Some (Some c)" "pc_bytes (cu_Packet c) = Some bs"
    "getLength (cu_Packet c) = int (length d)" "d = take (length d) bs" "length d \<le> length bs" by blast
  have "drop (nat (rb_iNotch B)) d = take (length d - nat (rb_iNotch B)) (drop (nat (rb_iNotch B)) bs)"
    by (subst u(4)) (simp add: drop_take)
  moreover have "nat (min rs (int (length d) - rb_iNotch B)) = min (nat rs) (length d - nat (rb_iNotch B))"
    using assms(2-4) by (auto simp: min_def)
  ultimately have "take (nat (min rs (int (length d) - rb_iNotch B))) (drop (nat (rb_iNotch B)) bs) =
      take (nat rs) (drop (nat (rb_iNotch B)) d)" by simp
  then show ?thesis using u assms by (auto simp: rb_bytes_def slice_def min_def Let_def split: if_splits)
qed

text \<open>
  The units in a buffer are in use and in one place only: \<open>held\<close>. \<open>rb_taken k p\<close> says that the \<open>k\<close> slots from
  position \<open>p\<close> on were emptied and exactly the units in them are free again, and nothing else was changed.
\<close>

definition held :: "rcv_buffer \<Rightarrow> unit_queue \<Rightarrow> bool" where
  "held B Q \<longleftrightarrow> (\<forall>i u. rd (rb_pUnit B) i = Some (Some u) \<longrightarrow> (\<exists>c. get_unit u Q = Some c \<and> cu_iFlag c \<noteq> 0)) \<and>
     (\<forall>i j u. rd (rb_pUnit B) i = Some (Some u) \<and> rd (rb_pUnit B) j = Some (Some u) \<longrightarrow> i = j)"

definition rb_taken :: "nat \<Rightarrow> int \<Rightarrow> rcv_buffer \<Rightarrow> unit_queue \<Rightarrow> rcv_buffer \<Rightarrow> unit_queue \<Rightarrow> bool" where
  "rb_taken k p B Q B' Q' \<longleftrightarrow> rb_iSize B' = rb_iSize B \<and> rb_iLastAckPos B' = rb_iLastAckPos B \<and>
     (\<forall>q. get_unit q Q' = (if \<exists>j < k. rd (rb_pUnit B) ((p + int j) mod rb_iSize B) = Some (Some q)
        then map_option (cu_iFlag_update (\<lambda>_. 0)) (get_unit q Q) else get_unit q Q)) \<and>
     (\<forall>i. rd (rb_pUnit B') i = (if \<exists>j < k. i = (p + int j) mod rb_iSize B then Some None else rd (rb_pUnit B) i)) \<and>
     (held B Q \<longrightarrow> held B' Q')"

lemma heldD: "held B Q \<Longrightarrow> rd (rb_pUnit B) i = Some (Some u) \<Longrightarrow> \<exists>c. get_unit u Q = Some c \<and> cu_iFlag c \<noteq> 0"
  unfolding held_def by (drule conjunct1, drule spec, drule spec, erule mp)

lemma held_inj: "held B Q \<Longrightarrow> rd (rb_pUnit B) i = Some (Some u) \<Longrightarrow> rd (rb_pUnit B) j = Some (Some u) \<Longrightarrow> i = j"
  unfolding held_def by (drule conjunct2, drule spec, drule spec, drule spec, erule mp, rule conjI)

lemma held_upd [simp]: "held (B\<lparr>rb_iNotch := x\<rparr>) Q = held B Q" "held (B\<lparr>rb_iStartPos := x\<rparr>) Q = held B Q"
    "held (B\<lparr>rb_iMaxPos := x\<rparr>) Q = held B Q" "held (B\<lparr>rb_iLastAckPos := x\<rparr>) Q = held B Q"
  by (simp_all add: held_def)

lemma rb_taken_unit:
  "rb_taken k p B Q B' Q' \<Longrightarrow> get_unit q Q' = (if \<exists>j < k. rd (rb_pUnit B) ((p + int j) mod rb_iSize B) = Some (Some q)
     then map_option (cu_iFlag_update (\<lambda>_. 0)) (get_unit q Q) else get_unit q Q)"
  unfolding rb_taken_def by (drule conjunct2, drule conjunct2, drule conjunct1, erule spec)

lemma rb_taken_slot:
  "rb_taken k p B Q B' Q' \<Longrightarrow> rd (rb_pUnit B') i = (if \<exists>j < k. i = (p + int j) mod rb_iSize B then Some None else rd (rb_pUnit B) i)"
  unfolding rb_taken_def by (drule conjunct2, drule conjunct2, drule conjunct2, drule conjunct1, erule spec)

lemma rb_taken_0 [simp]: "rb_taken 0 p B Q (B\<lparr>rb_iNotch := n\<rparr>) Q" "rb_taken 0 p B Q B Q"
  by (simp_all add: rb_taken_def)

lemma rb_taken_release:
  assumes u: "rd (rb_pUnit B) p = Some (Some u)" and R: "rb_release p B Q = Some (B\<lparr>rb_pUnit := (rb_pUnit B)[nat p := None]\<rparr>, Q')"
    and p: "0 \<le> p" "p < rb_iSize B"
  shows "rb_taken 1 p B Q (B\<lparr>rb_pUnit := (rb_pUnit B)[nat p := None], rb_iNotch := n\<rparr>) Q'"
proof -
  let ?us = "(rb_pUnit B)[nat p := None]"
  have rd: "rd ?us i = (if i = p then Some None else rd (rb_pUnit B) i)" for i
    using u by (auto simp: rd_def nth_list_update split: if_splits)
  obtain Q1 where Q1: "upd_unit u (cu_iFlag_update (\<lambda>_. 0)) Q = Some Q1" "Q' = Q1\<lparr>uq_iCount := uq_iCount Q1 - 1\<rparr>"
    using R u by (auto simp: rb_release_def flag_unit_def bind_eq_Some_conv)
  have g: "get_unit q Q' = (if q = u then map_option (cu_iFlag_update (\<lambda>_. 0)) (get_unit q Q) else get_unit q Q)" for q
    using get_unit_upd [OF Q1(1), of q] Q1(2) by (simp add: get_unit_def)
  have "held (B\<lparr>rb_pUnit := ?us, rb_iNotch := n\<rparr>) Q'" if h: "held B Q"
    unfolding held_def
  proof (intro conjI allI impI)
    fix i q
    assume "rd (rb_pUnit (B\<lparr>rb_pUnit := ?us, rb_iNotch := n\<rparr>)) i = Some (Some q)"
    then have i: "i \<noteq> p" "rd (rb_pUnit B) i = Some (Some q)" using rd [of i] by (auto split: if_splits)
    then have "q \<noteq> u" using held_inj [OF h _ u, of i] by auto
    then have "get_unit q Q' = get_unit q Q" using g [of q] by simp
    moreover have "\<exists>c. get_unit q Q = Some c \<and> cu_iFlag c \<noteq> 0" using heldD [OF h i(2)] .
    ultimately show "\<exists>c. get_unit q Q' = Some c \<and> cu_iFlag c \<noteq> 0" by simp
  next
    fix i j q
    assume "rd (rb_pUnit (B\<lparr>rb_pUnit := ?us, rb_iNotch := n\<rparr>)) i = Some (Some q) \<and> rd (rb_pUnit (B\<lparr>rb_pUnit := ?us, rb_iNotch := n\<rparr>)) j = Some (Some q)"
    then have "rd (rb_pUnit B) i = Some (Some q)" "rd (rb_pUnit B) j = Some (Some q)" using rd [of i] rd [of j] by (auto split: if_splits)
    then show "i = j" using held_inj [OF h] by simp
  qed
  moreover have "rd ?us i = (if \<exists>j < (1 :: nat). i = (p + int j) mod rb_iSize B then Some None else rd (rb_pUnit B) i)" for i
    using p rd [of i] by simp
  moreover have "get_unit q Q' = (if \<exists>j < (1 :: nat). rd (rb_pUnit B) ((p + int j) mod rb_iSize B) = Some (Some q)
      then map_option (cu_iFlag_update (\<lambda>_. 0)) (get_unit q Q) else get_unit q Q)" for q
    using p u g [of q] by auto
  ultimately show ?thesis unfolding rb_taken_def by simp
qed

lemma rb_taken_trans:
  assumes "rb_taken 1 p B Q B1 Q1" "rb_taken k (rb_next B p) B1 Q1 B2 Q2" "0 \<le> p" "p < rb_iSize B"
  shows "rb_taken (Suc k) p B Q B2 Q2"
proof -
  let ?N = "rb_iSize B"
  have nx: "(rb_next B p + int j) mod ?N = (p + int (Suc j)) mod ?N" for j
    using rb_next_mod [OF assms(3,4)] by (simp add: mod_add_left_eq add.assoc)
  have ex: "(\<exists>j < Suc k. i = (p + int j) mod ?N) \<longleftrightarrow> i = p \<or> (\<exists>j < k. i = (rb_next B p + int j) mod ?N)" for i
    unfolding nx using assms(3,4) by (auto simp: less_Suc_eq_0_disj)
  have pm: "p mod ?N = p" using assms(3,4) by simp
  have n: "rb_iSize B1 = ?N" "\<And>i. rd (rb_pUnit B1) i = (if i = p then Some None else rd (rb_pUnit B) i)"
    using assms(1) pm by (simp_all add: rb_taken_def)
  have slot: "(\<exists>j < Suc k. rd (rb_pUnit B) ((p + int j) mod ?N) = Some (Some q)) \<longleftrightarrow>
      rd (rb_pUnit B) p = Some (Some q) \<or> (\<exists>j < k. rd (rb_pUnit B1) ((rb_next B p + int j) mod ?N) = Some (Some q))" for q
  proof -
    have "(\<exists>j < Suc k. rd (rb_pUnit B) ((p + int j) mod ?N) = Some (Some q)) \<longleftrightarrow>
        rd (rb_pUnit B) p = Some (Some q) \<or> (\<exists>j < k. rd (rb_pUnit B) ((p + int (Suc j)) mod ?N) = Some (Some q))"
      using pm by (auto simp: less_Suc_eq_0_disj)
    then show ?thesis unfolding nx n(2) by (metis option.distinct(1) option.inject)
  qed
  have units: "get_unit q Q2 = (if \<exists>j < Suc k. rd (rb_pUnit B) ((p + int j) mod ?N) = Some (Some q)
      then map_option (cu_iFlag_update (\<lambda>_. 0)) (get_unit q Q) else get_unit q Q)" for q
  proof -
    obtain R where R: "R = (\<exists>j < k. rd (rb_pUnit B1) ((rb_next B p + int j) mod ?N) = Some (Some q))" by blast
    have "get_unit q Q1 = (if rd (rb_pUnit B) p = Some (Some q) then map_option (cu_iFlag_update (\<lambda>_. 0)) (get_unit q Q) else get_unit q Q)"
      using rb_taken_unit [OF assms(1), of q] pm by simp
    moreover have "get_unit q Q2 = (if R
        then map_option (cu_iFlag_update (\<lambda>_. 0)) (get_unit q Q1) else get_unit q Q1)"
      using rb_taken_unit [OF assms(2), of q] unfolding n(1) R .
    ultimately show ?thesis unfolding slot R [symmetric] by (cases "get_unit q Q") simp_all
  qed
  have slots: "rd (rb_pUnit B2) i = (if \<exists>j < Suc k. i = (p + int j) mod ?N then Some None else rd (rb_pUnit B) i)" for i
  proof -
    obtain R where R: "R = (\<exists>j < k. i = (rb_next B p + int j) mod ?N)" by blast
    have "rd (rb_pUnit B2) i = (if R then Some None else rd (rb_pUnit B1) i)"
      using rb_taken_slot [OF assms(2), of i] unfolding n(1) R .
    then show ?thesis unfolding ex R [symmetric] n(2) by simp
  qed
  have "rb_iSize B2 = ?N" "rb_iLastAckPos B2 = rb_iLastAckPos B" "held B Q \<longrightarrow> held B2 Q2"
    using assms(1,2) unfolding rb_taken_def by simp_all
  then show ?thesis unfolding rb_taken_def by (intro conjI allI) (assumption | rule units | rule slots)+
qed

lemma addData_cases:
  assumes A: "addData u off B Q = Some (ret, B', Q')"
  defines "x \<equiv> cmod (rb_iLastAckPos B + off) (rb_iSize B)"
  shows "(rb_pUnit B' = rb_pUnit B \<and> Q' = Q) \<or>
      (\<exists>Q1. rd (rb_pUnit B) x = Some None \<and> rb_pUnit B' = (rb_pUnit B)[nat x := Some u] \<and> upd_unit u (cu_iFlag_update (\<lambda>_. 1)) Q = Some Q1 \<and>
        Q' = Q1\<lparr>uq_iCount := uq_iCount Q1 + 1\<rparr>)"
proof (cases "rd (rb_pUnit B) x")
  case (Some y)
  then show ?thesis using A unfolding x_def
    by (cases y; cases "off > rb_iMaxPos B") (auto simp: addData_def Let_def bind_eq_Some_conv wr_eq_Some)
qed (use A in \<open>simp add: addData_def Let_def x_def split: if_splits\<close>)

text \<open>Storing puts a free unit into an empty slot.\<close>

lemma addData_held:
  assumes A: "addData u off B Q = Some (ret, B', Q')" and h: "held B Q" and u: "get_unit u Q = Some cu" "cu_iFlag cu = 0"
  shows "held B' Q'" "rb_iSize B' = rb_iSize B"
proof -
  obtain x where x: "rb_pUnit B' = rb_pUnit B \<and> Q' = Q \<or>
      (\<exists>Q1. rd (rb_pUnit B) x = Some None \<and> rb_pUnit B' = (rb_pUnit B)[nat x := Some u] \<and> upd_unit u (cu_iFlag_update (\<lambda>_. 1)) Q = Some Q1 \<and>
        Q' = Q1\<lparr>uq_iCount := uq_iCount Q1 + 1\<rparr>)"
    using addData_cases [OF A] by blast
  show "rb_iSize B' = rb_iSize B" using A by (auto simp: addData_def Let_def bind_eq_Some_conv split: if_splits)
  show "held B' Q'"
    using x
  proof (elim disjE exE conjE)
    assume "rb_pUnit B' = rb_pUnit B" "Q' = Q"
    then show ?thesis using h by (simp add: held_def)
  next
    fix Q1
    assume e: "rd (rb_pUnit B) x = Some None" and us: "rb_pUnit B' = (rb_pUnit B)[nat x := Some u]"
      and up: "upd_unit u (cu_iFlag_update (\<lambda>_. 1)) Q = Some Q1" and Q': "Q' = Q1\<lparr>uq_iCount := uq_iCount Q1 + 1\<rparr>"
    have rd: "rd (rb_pUnit B') i = (if i = x then Some (Some u) else rd (rb_pUnit B) i)" for i
      using e by (auto simp: us rd_def nth_list_update split: if_splits)
    have g: "get_unit q Q' = (if q = u then Some (cu\<lparr>cu_iFlag := 1\<rparr>) else get_unit q Q)" for q
      using get_unit_upd [OF up, of q] u(1) Q' by (simp add: get_unit_def)
    have no: "rd (rb_pUnit B) i \<noteq> Some (Some u)" for i
      using heldD [OF h, of i u] u by auto
    show ?thesis
      unfolding held_def
    proof (intro conjI allI impI)
      fix i q
      assume i: "rd (rb_pUnit B') i = Some (Some q)"
      show "\<exists>c. get_unit q Q' = Some c \<and> cu_iFlag c \<noteq> 0"
      proof (cases "i = x")
        case False
        then have "rd (rb_pUnit B) i = Some (Some q)" using i rd [of i] by simp
        then show ?thesis using heldD [OF h] no g [of q] by (metis option.inject)
      qed (use i rd [of i] g [of q] in simp)
    next
      fix i j q
      assume "rd (rb_pUnit B') i = Some (Some q) \<and> rd (rb_pUnit B') j = Some (Some q)"
      then show "i = j" using held_inj [OF h, of i q j] no [of i] no [of j] rd [of i] rd [of j] by (auto split: if_splits)
    qed
  qed
qed

lemma read_loop_ok:
  assumes "rb_view p B Q ds" "0 \<le> rs" "lastack = rb_iLastAckPos B"
  shows "\<exists>p' B' Q' ds'. rb_read_loop lastack p rs data B Q =
      Some (p', rs - int (length (take (nat rs) (unread B ds))), data @ take (nat rs) (unread B ds), B', Q') \<and>
    rb_view p' B' Q' ds' \<and> unread B' ds' = drop (nat rs) (unread B ds) \<and> rb_iMaxPos B' = rb_iMaxPos B \<and>
    uq_iCount Q' = uq_iCount Q - int (length ds - length ds') \<and> length ds' \<le> length ds \<and> rb_taken (length ds - length ds') p B Q B' Q'"
  using assms
proof (induction ds arbitrary: p rs data B Q)
  case Nil
  have "p = rb_iLastAckPos B" using Nil.prems(1) by (simp add: rb_view_def)
  then show ?case using Nil.prems
    by (subst rb_read_loop.simps) (auto simp: unread_def intro!: exI [of _ B] exI [of _ Q] exI [of _ "[]"])
next
  case (Cons d ds)
  note V = Cons.prems(1)
  let ?N = "rb_iSize B" and ?n = "rb_iNotch B"
  have N: "0 < ?N" "0 \<le> p" "p < ?N" "int (length ds) + 1 < ?N" "0 \<le> ?n" "?n \<le> int (length d)"
    and last: "rb_iLastAckPos B = (p + int (length (d # ds))) mod ?N"
    and ch: "chunk ((p + int 0) mod ?N) B Q = Some ((d # ds) ! 0)"
    using V unfolding rb_view_def by auto
  have c: "chunk p B Q = Some d" using ch N by simp
  have ne: "p \<noteq> lastack"
  proof
    assume "p = lastack"
    then have "(p + int (length (d # ds))) mod ?N = (p + 0) mod ?N" using N last Cons.prems(3) by simp
    then have "int (length (d # ds)) mod ?N = 0" unfolding mod_add_cancel by simp
    then show False using N(4) by simp
  qed
  have un: "unread B (d # ds) = drop (nat ?n) d @ concat ds" using N(6) by (simp add: unread_def)
  show ?case
  proof (cases "rs = 0")
    case True
    then show ?thesis using V by (subst rb_read_loop.simps) (auto intro!: exI [of _ p] exI [of _ B] exI [of _ Q] exI [of _ "d # ds"])
  next
    case False
    then have rs: "0 < rs" using Cons.prems(2) by simp
    let ?left = "int (length d) - ?n"
    note bytes = rb_bytes_ok [OF c N(5,6) rs]
    show ?thesis
    proof (cases "rs < ?left")
      case True
      let ?B = "B\<lparr>rb_iNotch := ?n + rs\<rparr>"
      have l: "length (take (nat rs) (drop (nat ?n) d)) = nat rs" using True rs N(5) by simp
      have cons: "rb_consume p rs rs ?left B Q = Some (p, ?B, Q)" using True by (simp add: rb_consume_def)
      have "rb_view p ?B Q (d # ds)" using V True rs N(5) chunk_cong [of ?B _ B Q Q] by (simp add: rb_view_def)
      moreover have "unread ?B (d # ds) = drop (nat rs) (unread B (d # ds))" using N(5) rs
        by (simp add: unread_def nat_add_distrib add.commute flip: drop_append)
      moreover have "take (nat rs) (unread B (d # ds)) = take (nat rs) (drop (nat ?n) d)" using l by (simp add: un)
      moreover have "rb_read_loop lastack p rs data B Q = Some (p, 0, data @ take (nat rs) (drop (nat ?n) d), ?B, Q)"
        using ne rs bytes cons l by (subst rb_read_loop.simps) (simp, subst rb_read_loop.simps, simp)
      ultimately show ?thesis using l rs by (intro exI [of _ p] exI [of _ ?B] exI [of _ Q] exI [of _ "d # ds"]) simp
    next
      case False
      from chunk_unit [OF c] obtain u cu where u: "rd (rb_pUnit B) p = Some (Some u)" "get_unit u Q = Some cu" by blast
      from rb_release_ok [OF this] obtain Q1 where Q1: "rb_release p B Q = Some (B\<lparr>rb_pUnit := (rb_pUnit B)[nat p := None]\<rparr>, Q1)"
        "uq_iCount Q1 = uq_iCount Q - 1" "\<forall>q. map_option cu_Packet (get_unit q Q1) = map_option cu_Packet (get_unit q Q)" by blast
      let ?B = "B\<lparr>rb_pUnit := (rb_pUnit B)[nat p := None], rb_iNotch := 0\<rparr>"
      have l: "take (nat rs) (drop (nat ?n) d) = drop (nat ?n) d" "int (length (drop (nat ?n) d)) = ?left"
        using False N(5,6) by auto
      have cons: "rb_consume p rs ?left ?left B Q = Some (rb_next B p, ?B, Q1)"
        using False Q1(1) by (auto simp: rb_consume_def rb_next_def)
      have V1: "rb_view (rb_next B p) ?B Q1 ds" by (rule view_tl [OF V]) (use Q1 in auto)
      obtain p' B' Q' ds' where IH: "rb_read_loop lastack (rb_next B p) (rs - ?left) (data @ drop (nat ?n) d) ?B Q1 =
          Some (p', rs - ?left - int (length (take (nat (rs - ?left)) (unread ?B ds))),
            (data @ drop (nat ?n) d) @ take (nat (rs - ?left)) (unread ?B ds), B', Q')"
        "rb_view p' B' Q' ds'" "unread B' ds' = drop (nat (rs - ?left)) (unread ?B ds)" "rb_iMaxPos B' = rb_iMaxPos ?B"
        "uq_iCount Q' = uq_iCount Q1 - int (length ds - length ds')" "length ds' \<le> length ds" "rb_taken (length ds - length ds') (rb_next B p) ?B Q1 B' Q'"
        using Cons.IH [OF V1, of "rs - ?left" "data @ drop (nat ?n) d"] False Cons.prems(3) by auto
      have un1: "unread ?B ds = concat ds" by (simp add: unread_def)
      have step: "rb_read_loop lastack p rs data B Q = rb_read_loop lastack (rb_next B p) (rs - ?left) (data @ drop (nat ?n) d) ?B Q1"
        using ne rs bytes cons l by (subst rb_read_loop.simps) simp
      have split: "take (nat rs) (drop (nat ?n) d @ xs) = drop (nat ?n) d @ take (nat (rs - ?left)) xs"
        "drop (nat rs) (drop (nat ?n) d @ xs) = drop (nat (rs - ?left)) xs" for xs
        using False N(5,6) by (auto simp: nat_diff_distrib)
      have "rb_taken (Suc (length ds - length ds')) p B Q B' Q'"
        using rb_taken_trans [OF rb_taken_release [OF u(1) Q1(1) N(2,3)] IH(7) N(2,3)] .
      then have "rb_taken (length (d # ds) - length ds') p B Q B' Q'" using IH(6) by (simp add: Suc_diff_le)
      then show ?thesis unfolding step un split un1 using IH Q1(2) l(2)
        by (intro exI [of _ p'] exI [of _ B'] exI [of _ Q'] exI [of _ ds']) (simp add: un1)
    qed
  qed
qed


subsection \<open>The operations\<close>

lemma readBuffer_view:
  assumes "rb_view (rb_iStartPos B) B Q ds" "0 \<le> len"
  shows "\<exists>B' Q' ds'. readBuffer len B Q = Some (int (length (take (nat len) (unread B ds))), take (nat len) (unread B ds), B', Q') \<and>
    rb_view (rb_iStartPos B') B' Q' ds' \<and> unread B' ds' = drop (nat len) (unread B ds) \<and>
    uq_iCount Q' = uq_iCount Q - int (length ds - length ds') \<and> length ds' \<le> length ds \<and> rb_taken (length ds - length ds') (rb_iStartPos B) B Q B' Q'"
proof -
  obtain p' B' Q' ds' where L: "rb_read_loop (rb_iLastAckPos B) (rb_iStartPos B) len [] B Q =
      Some (p', len - int (length (take (nat len) (unread B ds))), [] @ take (nat len) (unread B ds), B', Q')"
    "rb_view p' B' Q' ds'" "unread B' ds' = drop (nat len) (unread B ds)"
    "uq_iCount Q' = uq_iCount Q - int (length ds - length ds')" "length ds' \<le> length ds" "rb_taken (length ds - length ds') (rb_iStartPos B) B Q B' Q'"
    using read_loop_ok [OF assms refl, of "[]"] by (elim exE conjE) (rule that)
  obtain B2 where B2: "B2 = B'\<lparr>rb_iStartPos := p'\<rparr>" by blast
  have f: "rb_view (rb_iStartPos B2) B2 Q' ds'"
    using L(2) chunk_cong [of B2 _ B' Q' Q'] by (simp add: rb_view_def B2)
  have g: "rb_taken (length ds - length ds') (rb_iStartPos B) B Q B2 Q'"
    using L(6) by (simp add: rb_taken_def B2)
  have h: "unread B2 ds' = drop (nat len) (unread B ds)" using L(3) by (simp add: unread_def B2)
  have i: "readBuffer len B Q = Some (int (length (take (nat len) (unread B ds))), take (nat len) (unread B ds), B2, Q')"
    using L(1) by (simp add: readBuffer_def B2)
  show ?thesis by (intro exI conjI) (rule i, rule f, rule h, rule L(4), rule L(5), rule g)
qed

lemma addData_slot:
  assumes ok: "0 < rb_iSize B" "length (rb_pUnit B) = nat (rb_iSize B)" "0 \<le> rb_iLastAckPos B" "0 \<le> off"
    and u: "get_unit u Q = Some c" "pc_bytes (cu_Packet c) = Some bs" "getLength (cu_Packet c) = int n" "n \<le> length bs"
  defines "pos \<equiv> (rb_iLastAckPos B + off) mod rb_iSize B"
  shows "rd (rb_pUnit B) pos = Some None \<Longrightarrow>
      \<exists>B' Q'. addData u off B Q = Some (0, B', Q') \<and> chunk pos B' Q' = Some (take n bs) \<and>
        (\<forall>q. q \<noteq> pos \<and> 0 \<le> q \<longrightarrow> chunk q B' Q' = chunk q B Q) \<and> rb_iMaxPos B' = max (rb_iMaxPos B) off \<and>
        rb_iStartPos B' = rb_iStartPos B \<and> rb_iLastAckPos B' = rb_iLastAckPos B \<and> rb_iSize B' = rb_iSize B \<and>
        rb_iNotch B' = rb_iNotch B \<and> length (rb_pUnit B') = length (rb_pUnit B) \<and> uq_iCount Q' = uq_iCount Q + 1 \<and>
        rb_pUnit B' = (rb_pUnit B)[nat pos := Some u] \<and> (\<forall>q. get_unit q Q' = (if q = u then Some (c\<lparr>cu_iFlag := 1\<rparr>) else get_unit q Q))"
    "rd (rb_pUnit B) pos = Some (Some w) \<Longrightarrow>
      addData u off B Q = Some (-1, B\<lparr>rb_iMaxPos := max (rb_iMaxPos B) off\<rparr>, Q)"
proof -
  have pos: "cmod (rb_iLastAckPos B + off) (rb_iSize B) = pos" "0 \<le> pos" "pos < rb_iSize B"
    using ok by (simp_all add: pos_def)
  have mx: "(if off > rb_iMaxPos B then B\<lparr>rb_iMaxPos := off\<rparr> else B) = B\<lparr>rb_iMaxPos := max (rb_iMaxPos B) off\<rparr>"
    by (simp add: max_def)
  show "addData u off B Q = Some (-1, B\<lparr>rb_iMaxPos := max (rb_iMaxPos B) off\<rparr>, Q)" if "rd (rb_pUnit B) pos = Some (Some w)"
    using that by (simp add: addData_def pos(1) mx Let_def)
  assume empty: "rd (rb_pUnit B) pos = Some None"
  obtain Q1 where Q1: "upd_unit u (cu_iFlag_update (\<lambda>_. 1)) Q = Some Q1" using u(1) by (simp add: upd_unit_def)
  let ?B = "B\<lparr>rb_iMaxPos := max (rb_iMaxPos B) off, rb_pUnit := (rb_pUnit B)[nat pos := Some u]\<rparr>"
  let ?Q = "Q1\<lparr>uq_iCount := uq_iCount Q1 + 1\<rparr>"
  have count: "uq_iCount Q1 = uq_iCount Q" using Q1 u(1) by (auto simp: upd_unit_def)
  have add: "addData u off B Q = Some (0, ?B, ?Q)"
    using empty Q1 pos ok(2) by (simp add: addData_def mx Let_def) (auto simp: wr_def)
  have g: "get_unit q ?Q = get_unit q Q1" for q by (simp add: get_unit_def)
  have pk: "map_option cu_Packet (get_unit q ?Q) = map_option cu_Packet (get_unit q Q)" for q
    unfolding g by (rule upd_flag_packet [OF Q1])
  have un: "get_unit q ?Q = (if q = u then Some (c\<lparr>cu_iFlag := 1\<rparr>) else get_unit q Q)" for q
    using get_unit_upd [OF Q1, of q] u(1) unfolding g by simp
  have here: "chunk pos ?B ?Q = Some (take n bs)"
  proof -
    have "rd (rb_pUnit ?B) pos = Some (Some u)" using pos ok(2) by (simp add: rd_def)
    moreover have "get_unit u ?Q = Some (c\<lparr>cu_iFlag := 1\<rparr>)" using get_unit_upd [OF Q1, of u] u(1) g by simp
    ultimately show ?thesis using u(2-4) by (simp add: chunk_def unit_at_def slice_def)
  qed
  have "chunk q ?B ?Q = chunk q B Q" if "q \<noteq> pos" "0 \<le> q" for q
    by (rule chunk_cong [OF _ pk]) (use that pos in \<open>simp add: rd_upd_other\<close>)
  then show "\<exists>B' Q'. addData u off B Q = Some (0, B', Q') \<and> chunk pos B' Q' = Some (take n bs) \<and>
        (\<forall>q. q \<noteq> pos \<and> 0 \<le> q \<longrightarrow> chunk q B' Q' = chunk q B Q) \<and> rb_iMaxPos B' = max (rb_iMaxPos B) off \<and>
        rb_iStartPos B' = rb_iStartPos B \<and> rb_iLastAckPos B' = rb_iLastAckPos B \<and> rb_iSize B' = rb_iSize B \<and>
        rb_iNotch B' = rb_iNotch B \<and> length (rb_pUnit B') = length (rb_pUnit B) \<and> uq_iCount Q' = uq_iCount Q + 1 \<and>
        rb_pUnit B' = (rb_pUnit B)[nat pos := Some u] \<and> (\<forall>q. get_unit q Q' = (if q = u then Some (c\<lparr>cu_iFlag := 1\<rparr>) else get_unit q Q))"
    using add here count un by (intro exI [of _ ?B] exI [of _ ?Q]) simp
qed

text \<open>A packet stored behind the acknowledged ones leaves what can be read unchanged.\<close>

lemma addData_view:
  assumes V: "rb_view p B Q ds" and off: "0 \<le> off" "int (length ds) + off < rb_iSize B"
    and u: "get_unit u Q = Some c" "pc_bytes (cu_Packet c) = Some bs" "getLength (cu_Packet c) = int n" "n \<le> length bs"
    and empty: "rd (rb_pUnit B) ((rb_iLastAckPos B + off) mod rb_iSize B) = Some None"
  shows "\<exists>B' Q'. addData u off B Q = Some (0, B', Q') \<and> rb_view p B' Q' ds \<and> unread B' ds = unread B ds \<and>
    chunk ((rb_iLastAckPos B' + off) mod rb_iSize B') B' Q' = Some (take n bs) \<and> uq_iCount Q' = uq_iCount Q + 1 \<and>
    (\<forall>q. get_unit q Q' = (if q = u then Some (c\<lparr>cu_iFlag := 1\<rparr>) else get_unit q Q))"
proof -
  let ?N = "rb_iSize B"
  have N: "0 < ?N" "length (rb_pUnit B) = nat ?N" "0 \<le> p" "p < ?N" "rb_iLastAckPos B = (p + int (length ds)) mod ?N"
    using V unfolding rb_view_def by blast+
  have la: "0 \<le> rb_iLastAckPos B" using N by simp
  obtain B' Q' where A: "addData u off B Q = Some (0, B', Q')" "chunk ((rb_iLastAckPos B + off) mod ?N) B' Q' = Some (take n bs)"
    "\<forall>q. q \<noteq> (rb_iLastAckPos B + off) mod ?N \<and> 0 \<le> q \<longrightarrow> chunk q B' Q' = chunk q B Q"
    "rb_iLastAckPos B' = rb_iLastAckPos B" "rb_iSize B' = ?N" "rb_iNotch B' = rb_iNotch B" "length (rb_pUnit B') = length (rb_pUnit B)" "uq_iCount Q' = uq_iCount Q + 1"
    "\<forall>q. get_unit q Q' = (if q = u then Some (c\<lparr>cu_iFlag := 1\<rparr>) else get_unit q Q)"
    using addData_slot(1) [OF N(1,2) la off(1) u empty] by (elim exE conjE) (rule that)
  have "chunk ((p + int k) mod ?N) B' Q' = chunk ((p + int k) mod ?N) B Q" if "k < length ds" for k
  proof -
    have "(rb_iLastAckPos B + off) mod ?N = (p + (int (length ds) + off)) mod ?N"
      by (simp add: N(5) mod_add_left_eq add.assoc)
    moreover have "(p + int k) mod ?N \<noteq> (p + (int (length ds) + off)) mod ?N"
      unfolding mod_add_cancel using that off by simp
    ultimately show ?thesis using A(3) N(1) by simp
  qed
  then have "rb_view p B' Q' ds" using V A(4-7) unfolding rb_view_def by simp
  then show ?thesis using A by (intro exI [of _ B'] exI [of _ Q']) (simp add: unread_def)
qed

lemma rb_ackData_view:
  assumes V: "rb_view p B Q ds" and len: "int (length ds + length es) < rb_iSize B"
    and new: "\<forall>k < length es. chunk ((rb_iLastAckPos B + int k) mod rb_iSize B) B Q = Some (es ! k)"
  shows "rb_view p (rb_ackData (int (length es)) B) Q (ds @ es)" "unread (rb_ackData (int (length es)) B) (ds @ es) = unread B ds @ concat es"
proof -
  let ?B = "rb_ackData (int (length es)) B" and ?N = "rb_iSize B"
  have N: "0 < ?N" "0 \<le> p" "p < ?N" and la: "rb_iLastAckPos B = (p + int (length ds)) mod ?N"
    and notch: "0 \<le> rb_iNotch B" "rb_iNotch B \<le> (case ds of [] \<Rightarrow> 0 | d # _ \<Rightarrow> int (length d))"
    using V by (auto simp: rb_view_def)
  have f: "rb_pUnit ?B = rb_pUnit B" "rb_iSize ?B = ?N" "rb_iNotch ?B = rb_iNotch B"
    "rb_iLastAckPos ?B = (p + int (length (ds @ es))) mod ?N"
    using N la by (auto simp: rb_ackData_def Let_def mod_add_left_eq add.assoc)
  have ch: "chunk q ?B Q = chunk q B Q" for q by (rule chunk_cong) (simp_all add: f)
  have "chunk ((p + int k) mod ?N) B Q = Some ((ds @ es) ! k)" if "k < length (ds @ es)" for k
  proof (cases "k < length ds")
    case True
    then show ?thesis using V by (simp add: rb_view_def nth_append)
  next
    case False
    then have "(rb_iLastAckPos B + int (k - length ds)) mod ?N = (p + int k) mod ?N"
      by (simp add: la mod_add_left_eq add.assoc of_nat_diff)
    then show ?thesis using new [rule_format, of "k - length ds"] False that by (simp add: nth_append)
  qed
  then show "rb_view p ?B Q (ds @ es)" using V len notch unfolding rb_view_def by (simp add: f ch split: list.splits)
  show "unread ?B (ds @ es) = unread B ds @ concat es" using notch by (cases ds) (auto simp: unread_def f)
qed

lemma new_rcv_buffer: "0 < n \<Longrightarrow> rb_view 0 (CRcvBuffer n) Q [] \<and> unread (CRcvBuffer n) [] = []"
  by (simp add: rb_view_def CRcvBuffer_def unread_def)

end
