(* ===== verification/UdtBufProps.thy ===== *)
theory UdtBufProps
  imports UdtSndBufferSpec UdtRcvBufferSpec
begin

section \<open>Properties of the transport's buffers\<close>

subsection \<open>The sender\<close>

text \<open>
  C33: The sender's buffer, a growing ring of blocks, is a queue of packets: \<open>addBuffer\<close> cuts the
  data into packets whose concatenation is the data and appends them, \<open>readData\<close> yields the oldest
  unread packet, \<open>ackData\<close> releases the oldest ones, any packet not acknowledged can be read again by its
  offset while it has not expired, and \<open>getCurrBufSize\<close> counts the packets. Nothing is accessed out of
  bounds and every loop ends.
\<close>

theorem snd_buffer_is_queue:
  assumes "sb_rep B ms1 ms2"
  shows "(\<exists>B' new. addBuffer un um now data (int (length data)) ttl order B = Some B' \<and> sb_rep B' ms1 (ms2 @ new) \<and>
      concat (map fst new) = data \<and> (\<forall>i < length new. snd (new ! i) = (pkt_msgno (sb_iNextMsgNo B)
        (if order then 0x20000000 else 0) (int i) (int (length new)), now, ttl)) \<and>
      sb_iNextMsgNo B' = next_msgno (sb_iNextMsgNo B)) \<and>
    (ms2 = [] \<longrightarrow> readData B = Some (None, B)) \<and>
    (ms2 = m # r \<longrightarrow> (\<exists>ptr B'. readData B = Some (Some (ptr, int (length (fst m)), fst (snd m)), B') \<and>
       bytes_at (sb_pBuffer B) ptr (length (fst m)) = fst m \<and> sb_rep B' (ms1 @ [m]) r)) \<and>
    (n \<le> length ms1 \<longrightarrow> (\<exists>B'. sb_ackData (int n) B = Some B' \<and> sb_rep B' (drop n ms1) ms2)) \<and>
    (k < length (ms1 @ ms2) \<and> (ms1 @ ms2) ! k = (bs, msgno, t, life) \<and> \<not> (life \<ge> 0 \<and> (now - t) div 1000 > word_of_int life) \<longrightarrow>
       (\<exists>ptr. readDataAt now (int k) B = Some (ReadAt ptr (int (length bs)) msgno, B) \<and> bytes_at (sb_pBuffer B) ptr (length bs) = bs)) \<and>
    getCurrBufSize B = int (length (ms1 @ ms2))"
proof -
  have mss: "0 < sb_iMSS B" using assms by (auto simp: sb_rep_def dest: sb_coreD(1))
  have add: "\<exists>B' new. addBuffer un um now data (int (length data)) ttl order B = Some B' \<and> sb_rep B' ms1 (ms2 @ new) \<and>
      concat (map fst new) = data \<and> (\<forall>i < length new. snd (new ! i) = (pkt_msgno (sb_iNextMsgNo B)
        (if order then 0x20000000 else 0) (int i) (int (length new)), now, ttl)) \<and>
      sb_iNextMsgNo B' = next_msgno (sb_iNextMsgNo B)"
    using addBuffer_rep [OF assms, of un um now data ttl order] concat_packets [OF mss] packets_fields [OF mss] by blast
  show ?thesis
    using add readData_rep(1) [OF assms] readData_rep(2) [OF assms, of m r] ackData_rep [OF assms, of n] readDataAt_rep [OF assms, of k bs msgno t life now]
      getCurrBufSize_rep [OF assms]
    by (intro conjI impI) (assumption | blast)+
qed

theorem snd_buffer_is_queue_witness:
  "\<exists>B new. addBuffer (\<lambda>_. undefined) (\<lambda>_ _. 0) 5 [1, 2, 3, 4, 5] 5 (-1) True (CSndBuffer (\<lambda>_. undefined) (\<lambda>_ _. 0) 1 2) = Some B \<and>
     sb_rep B [] new \<and> concat (map fst new) = [1, 2, 3, 4, 5]"
proof -
  have "sb_rep (CSndBuffer (\<lambda>_. undefined) (\<lambda>_ _. 0) 1 2) [] []" by (rule new_snd_buffer) simp_all
  note Q = snd_buffer_is_queue [OF this, of "\<lambda>_. undefined" "\<lambda>_ _. 0" 5 "[1, 2, 3, 4, 5]" "-1" True]
  have l: "int (length [1, 2, 3, 4, 5 :: u8]) = 5" by simp
  from Q [THEN conjunct1] show ?thesis unfolding l append_Nil by blast
qed

subsection \<open>The receiver\<close>

text \<open>
  C34: The receiver's buffer delivers a stream in order: a packet stored at any free offset behind
  the acknowledged ones does not change what can be read, and exactly its unit becomes taken (flag 1); acknowledging packets that are there appends
  their data; \<open>readBuffer\<close> returns a prefix of the stream of the length asked for (or all of it) and
  leaves the rest. It gives back exactly the units of the packets it has used up: their slots become empty, their flags 0, the count of
  used units falls by their number, and no other unit changes.
\<close>

theorem rcv_buffer_is_stream:
  assumes "rb_view (rb_iStartPos B) B Q ds"
  shows "(0 \<le> len \<longrightarrow> (\<exists>B' Q' ds'. readBuffer len B Q =
        Some (int (length (take (nat len) (unread B ds))), take (nat len) (unread B ds), B', Q') \<and>
      rb_view (rb_iStartPos B') B' Q' ds' \<and> unread B' ds' = drop (nat len) (unread B ds) \<and>
      uq_iCount Q' = uq_iCount Q - int (length ds - length ds') \<and>
      (\<forall>q. get_unit q Q' = (if \<exists>j < length ds - length ds'. rd (rb_pUnit B) ((rb_iStartPos B + int j) mod rb_iSize B) = Some (Some q)
         then map_option (cu_iFlag_update (\<lambda>_. 0)) (get_unit q Q) else get_unit q Q)) \<and>
      (\<forall>i. rd (rb_pUnit B') i = (if \<exists>j < length ds - length ds'. i = (rb_iStartPos B + int j) mod rb_iSize B then Some None
         else rd (rb_pUnit B) i)))) \<and>
    (0 \<le> off \<and> int (length ds) + off < rb_iSize B \<and> get_unit u Q = Some c \<and> pc_bytes (cu_Packet c) = Some bs \<and>
       getLength (cu_Packet c) = int n \<and> n \<le> length bs \<and>
       rd (rb_pUnit B) ((rb_iLastAckPos B + off) mod rb_iSize B) = Some None \<longrightarrow>
      (\<exists>B' Q'. addData u off B Q = Some (0, B', Q') \<and> rb_view (rb_iStartPos B) B' Q' ds \<and> unread B' ds = unread B ds \<and>
        chunk ((rb_iLastAckPos B' + off) mod rb_iSize B') B' Q' = Some (take n bs) \<and> uq_iCount Q' = uq_iCount Q + 1 \<and>
        (\<forall>q. get_unit q Q' = (if q = u then Some (c\<lparr>cu_iFlag := 1\<rparr>) else get_unit q Q)))) \<and>
    (int (length ds + length es) < rb_iSize B \<and>
       (\<forall>k < length es. chunk ((rb_iLastAckPos B + int k) mod rb_iSize B) B Q = Some (es ! k)) \<longrightarrow>
      rb_view (rb_iStartPos B) (rb_ackData (int (length es)) B) Q (ds @ es) \<and>
      unread (rb_ackData (int (length es)) B) (ds @ es) = unread B ds @ concat es)"
proof -
  have read: "\<exists>B' Q' ds'. readBuffer len B Q =
        Some (int (length (take (nat len) (unread B ds))), take (nat len) (unread B ds), B', Q') \<and>
      rb_view (rb_iStartPos B') B' Q' ds' \<and> unread B' ds' = drop (nat len) (unread B ds) \<and>
      uq_iCount Q' = uq_iCount Q - int (length ds - length ds') \<and>
      (\<forall>q. get_unit q Q' = (if \<exists>j < length ds - length ds'. rd (rb_pUnit B) ((rb_iStartPos B + int j) mod rb_iSize B) = Some (Some q)
         then map_option (cu_iFlag_update (\<lambda>_. 0)) (get_unit q Q) else get_unit q Q)) \<and>
      (\<forall>i. rd (rb_pUnit B') i = (if \<exists>j < length ds - length ds'. i = (rb_iStartPos B + int j) mod rb_iSize B then Some None
         else rd (rb_pUnit B) i))" if "0 \<le> len"
    using readBuffer_view [OF assms that] unfolding rb_taken_def by (elim exE conjE) (intro exI conjI, assumption+)
  show ?thesis
    by (intro conjI impI) (rule read, assumption, (elim conjE, rule addData_view [OF assms], assumption+),
        (elim conjE, rule rb_ackData_view(1) [OF assms], assumption+), (elim conjE, rule rb_ackData_view(2) [OF assms], assumption+))
qed

text \<open>A unit queue of two units, the first one with a packet of three bytes.\<close>

definition demo_units :: unit_queue where
  "demo_units = CUnitQueue\<lparr>uq_pQEntry := [[\<lparr>cu_Packet = setLength 3 (CPacket\<lparr>iov_base := Some (Bytes [7, 8, 9, 0])\<rparr>), cu_iFlag = 0\<rparr>,
     \<lparr>cu_Packet = CPacket, cu_iFlag = 0\<rparr>]], uq_iSize := 2\<rparr>"

theorem rcv_buffer_is_stream_witness:
  "\<exists>B1 Q1 B2 Q2. addData (0, 0) 0 (CRcvBuffer 4) demo_units = Some (0, B1, Q1) \<and>
     readBuffer 2 (rb_ackData 1 B1) Q1 = Some (2, [7, 8], B2, Q2)"
proof -
  let ?B = "CRcvBuffer 4" and ?Q = demo_units
  have V: "rb_view (rb_iStartPos ?B) ?B ?Q []" using new_rcv_buffer [of 4 ?Q] by (simp add: CRcvBuffer_def)
  have f: "rb_iSize ?B = 4" "rb_iLastAckPos ?B = 0" "rb_iStartPos ?B = 0" "rd (rb_pUnit ?B) 0 = Some None"
    by (simp_all add: CRcvBuffer_def rd_def)
  define c where "c = \<lparr>cu_Packet = setLength 3 (CPacket\<lparr>iov_base := Some (Bytes [7, 8, 9, 0])\<rparr>), cu_iFlag = 0\<rparr>"
  have u: "get_unit (0, 0) ?Q = Some c" "pc_bytes (cu_Packet c) = Some [7, 8, 9, 0]" "getLength (cu_Packet c) = int 3"
    by (simp_all add: get_unit_def demo_units_def rd_def c_def pc_bytes_def getLength_def setLength_def)
  note T = rcv_buffer_is_stream [OF V, of 0 0 "(0, 0)" c "[7, 8, 9, 0]" 3 "[]", THEN conjunct2, THEN conjunct1, unfolded f]
  from mp [OF T] obtain B1 Q1 where 1: "addData (0, 0) 0 ?B ?Q = Some (0, B1, Q1)" "rb_view 0 B1 Q1 []" "unread B1 [] = unread ?B []"
    "chunk ((rb_iLastAckPos B1 + 0) mod rb_iSize B1) B1 Q1 = Some (take 3 [7, 8, 9, 0])"
    using u f(4) by auto
  have f1: "rb_iSize B1 = 4" "rb_iStartPos B1 = 0"
    using 1(1) u by (auto simp: addData_def CRcvBuffer_def Let_def upd_unit_def rd_def wr_def)
  have 2: "rb_view 0 (rb_ackData 1 B1) Q1 [[7, 8, 9]]" "unread (rb_ackData 1 B1) [[7, 8, 9]] = [7, 8, 9]"
    using rcv_buffer_is_stream [of B1 Q1 "[]" 0 0 "(0, 0)" undefined "[]" 0 "[[7, 8, 9]]"] 1 f1 by (auto simp: unread_def)
  have s: "rb_iStartPos (rb_ackData 1 B1) = 0" using f1 by (simp add: rb_ackData_def Let_def)
  have "rb_view (rb_iStartPos (rb_ackData 1 B1)) (rb_ackData 1 B1) Q1 [[7, 8, 9]]" unfolding s by (rule 2)
  from rcv_buffer_is_stream [OF this, of 2, THEN conjunct1] obtain B2 Q2 where
    "readBuffer 2 (rb_ackData 1 B1) Q1 = Some (2, [7, 8], B2, Q2)" unfolding 2(2) by auto
  then show ?thesis using 1(1) by blast
qed

text \<open>
  C35: The unit queue stays well-formed (every array has units, the search position lies in the
  current one) under initialisation, growth and search; the search ends, and the unit it returns is
  free. It is never the last unit of its array, unless it is the only one.
\<close>

theorem unit_queue_wellformed:
  assumes "uq_ok Q" "0 < siz"
  shows "uq_ok (snd (uq_init um siz mss ver Q)) \<and>
    (\<exists>r Q'. uq_increase um Q = Some (r, Q') \<and> uq_ok Q') \<and>
    (\<exists>r Q'. getNextAvailUnit um Q = Some (r, Q') \<and> uq_ok Q' \<and>
      (case r of None \<Rightarrow> True
       | Some (e, i) \<Rightarrow> (\<exists>c. get_unit (e, i) Q' = Some c \<and> cu_iFlag c = 0) \<and>
           (i = 0 \<or> Suc i < length (uq_pQEntry Q' ! e))))"
proof -
  have "uq_ok (snd (uq_init um siz mss ver Q))" using assms(2) by (simp add: uq_ok_def uq_init_def new_units_def)
  moreover have "\<exists>r Q'. getNextAvailUnit um Q = Some (r, Q') \<and> uq_ok Q' \<and>
      (case r of None \<Rightarrow> True
       | Some (e, i) \<Rightarrow> (\<exists>c. get_unit (e, i) Q' = Some c \<and> cu_iFlag c = 0) \<and>
           (i = 0 \<or> Suc i < length (uq_pQEntry Q' ! e)))"
    using getNextAvailUnit_ok [OF assms(1), of um] by (fastforce simp: takeable_def split: option.splits)
  ultimately show ?thesis using uq_increase_ok [OF assms(1)] by blast
qed

theorem unit_queue_wellformed_witness:
  "\<exists>r Q'. getNextAvailUnit (\<lambda>_. []) demo_units = Some (r, Q') \<and> uq_ok Q'"
proof -
  have "uq_ok demo_units" by (simp add: uq_ok_def demo_units_def CUnitQueue_def)
  from unit_queue_wellformed [OF this zero_less_one, of "\<lambda>_. []" 0 0] show ?thesis by blast
qed

end
