(* ===== verification/UdtSndUList.thy ===== *)
theory UdtSndUList
  imports UdtMem
begin

section \<open>UDT: the sending schedule\<close>

text \<open>
  \<open>CSndUList\<close> of \<open>udt4/src/queue.cpp\<close>: a binary heap of the sockets that have something to send,
  ordered by the time of their next packet. A socket's node is at its address in \<open>su_nodes\<close>; the heap
  array holds addresses. The waking of the sending thread is recorded: \<open>su_interrupts\<close> counts the
  calls of \<open>m_pTimer->interrupt()\<close>, \<open>su_signals\<close> those of \<open>pthread_cond_signal\<close>. The mutex is left out.
\<close>

record csnode =
  n_llTimeStamp :: u64
  n_iHeapLoc :: int

record snd_ulist =
  su_pHeap :: "nat list"
  su_iArrayLength :: int
  su_iLastEntry :: int
  su_nodes :: "csnode list"
  su_interrupts :: nat
  su_signals :: nat

text \<open>The array is uninitialised: its contents are an argument.\<close>

definition CSndUList :: "nat list \<Rightarrow> csnode list \<Rightarrow> snd_ulist" where
  "CSndUList g nodes = \<lparr>su_pHeap = take 4096 g, su_iArrayLength = 4096, su_iLastEntry = -1, su_nodes = nodes,
     su_interrupts = 0, su_signals = 0\<rparr>"

definition node_at :: "int \<Rightarrow> snd_ulist \<Rightarrow> csnode option" where
  "node_at i S = do { a \<leftarrow> rd (su_pHeap S) i; rd (su_nodes S) (int a) }"

definition set_loc :: "nat \<Rightarrow> int \<Rightarrow> snd_ulist \<Rightarrow> snd_ulist option" where
  "set_loc a l S = do { n \<leftarrow> rd (su_nodes S) (int a); Some (S\<lparr>su_nodes := (su_nodes S)[a := n\<lparr>n_iHeapLoc := l\<rparr>]\<rparr>) }"

definition put_heap :: "int \<Rightarrow> nat \<Rightarrow> snd_ulist \<Rightarrow> snd_ulist option" where
  "put_heap i a S = map_option (\<lambda>h. S\<lparr>su_pHeap := h\<rparr>) (wr (su_pHeap S) i a)"

definition su_interrupt :: "snd_ulist \<Rightarrow> snd_ulist" where
  "su_interrupt S = S\<lparr>su_interrupts := su_interrupts S + 1\<rparr>"

subsection \<open>Insertion\<close>

text \<open>The loop of \<open>insert_\<close>, from position \<open>q\<close> up; the result is the final \<open>q\<close>.\<close>

function su_up :: "nat \<Rightarrow> snd_ulist \<Rightarrow> (nat \<times> snd_ulist) option" where
  "su_up q S =
     (if q = 0 then Some (q, S)
      else do {
        let p = (q - 1) div 2;
        np \<leftarrow> node_at (int p) S;
        nq \<leftarrow> node_at (int q) S;
        if n_llTimeStamp np > n_llTimeStamp nq then do {
          t \<leftarrow> rd (su_pHeap S) (int p);
          a \<leftarrow> rd (su_pHeap S) (int q);
          S \<leftarrow> put_heap (int p) a S;
          S \<leftarrow> put_heap (int q) t S;
          S \<leftarrow> set_loc t (int q) S;
          su_up p S }
        else Some (q, S) })"
  by pat_completeness auto
termination by (relation "measure fst") auto

declare su_up.simps [simp del]

definition heap_insert :: "u64 \<Rightarrow> nat \<Rightarrow> snd_ulist \<Rightarrow> snd_ulist option" where
  "heap_insert ts u S =
     do { n \<leftarrow> rd (su_nodes S) (int u);
          if n_iHeapLoc n \<ge> 0 then Some S
          else do {
            let S = S\<lparr>su_iLastEntry := su_iLastEntry S + 1\<rparr>;
            S \<leftarrow> put_heap (su_iLastEntry S) u S;
            let S = S\<lparr>su_nodes := (su_nodes S)[u := n\<lparr>n_llTimeStamp := ts\<rparr>]\<rparr>;
            (q, S) \<leftarrow> su_up (nat (su_iLastEntry S)) S;
            S \<leftarrow> set_loc u (int q) S;
            let S = (if q = 0 then su_interrupt S else S);
            Some (if su_iLastEntry S = 0 then S\<lparr>su_signals := su_signals S + 1\<rparr> else S) } }"

text \<open>\<open>g\<close>: what the new half of a grown array holds.\<close>

definition su_insert :: "nat list \<Rightarrow> u64 \<Rightarrow> nat \<Rightarrow> snd_ulist \<Rightarrow> snd_ulist option" where
  "su_insert g ts u S =
     heap_insert ts u
       (if su_iLastEntry S = su_iArrayLength S - 1
        then S\<lparr>su_pHeap := su_pHeap S @ take (nat (su_iArrayLength S)) g, su_iArrayLength := su_iArrayLength S * 2\<rparr>
        else S)"

subsection \<open>Removal\<close>

text \<open>The loop of \<open>remove_\<close>, from position \<open>q\<close> down.\<close>

partial_function (option) su_down :: "int \<Rightarrow> snd_ulist \<Rightarrow> snd_ulist option" where
  "su_down q S =
     (let p = q * 2 + 1 in
      if p \<le> su_iLastEntry S then do {
        p \<leftarrow> (if p + 1 \<le> su_iLastEntry S then do {
                a \<leftarrow> node_at p S;
                b \<leftarrow> node_at (p + 1) S;
                Some (if n_llTimeStamp a > n_llTimeStamp b then p + 1 else p) }
              else Some p);
        nq \<leftarrow> node_at q S;
        np \<leftarrow> node_at p S;
        if n_llTimeStamp nq > n_llTimeStamp np then do {
          t \<leftarrow> rd (su_pHeap S) p;
          a \<leftarrow> rd (su_pHeap S) q;
          S \<leftarrow> put_heap p a S;
          S \<leftarrow> set_loc a p S;
          S \<leftarrow> put_heap q t S;
          S \<leftarrow> set_loc t q S;
          su_down p S }
        else Some S }
      else Some S)"

declare su_down.simps [code]

definition heap_remove :: "nat \<Rightarrow> snd_ulist \<Rightarrow> snd_ulist option" where
  "heap_remove u S =
     do { n \<leftarrow> rd (su_nodes S) (int u);
          S \<leftarrow> (if n_iHeapLoc n \<ge> 0 then do {
                 let l = n_iHeapLoc n;
                 a \<leftarrow> rd (su_pHeap S) (su_iLastEntry S);
                 S \<leftarrow> put_heap l a S;
                 let S = S\<lparr>su_iLastEntry := su_iLastEntry S - 1\<rparr>;
                 S \<leftarrow> set_loc a l S;
                 S \<leftarrow> su_down l S;
                 set_loc u (-1) S }
               else Some S);
          Some (if su_iLastEntry S = 0 then su_interrupt S else S) }"

definition su_remove :: "nat \<Rightarrow> snd_ulist \<Rightarrow> snd_ulist option" where
  "su_remove u S = heap_remove u S"

text \<open>\<open>update\<close> inserts without growing the array.\<close>

definition su_update :: "nat \<Rightarrow> bool \<Rightarrow> snd_ulist \<Rightarrow> snd_ulist option" where
  "su_update u reschedule S =
     do { n \<leftarrow> rd (su_nodes S) (int u);
          if n_iHeapLoc n \<ge> 0 then
            if \<not> reschedule then Some S
            else if n_iHeapLoc n = 0 then
              Some (su_interrupt (S\<lparr>su_nodes := (su_nodes S)[u := n\<lparr>n_llTimeStamp := 1\<rparr>]\<rparr>))
            else do { S \<leftarrow> heap_remove u S; heap_insert 1 u S }
          else heap_insert 1 u S }"

definition getNextProcTime :: "snd_ulist \<Rightarrow> u64 option" where
  "getNextProcTime S = (if su_iLastEntry S = -1 then Some 0 else map_option n_llTimeStamp (node_at 0 S))"

text \<open>
  \<open>pop\<close>: \<open>now\<close> is the processor clock, \<open>live u\<close> is \<open>m_bConnected && !m_bBroken\<close> of the socket, \<open>pkt u ts\<close> the
  result of \<open>packData\<close>, with the time of the next packet in its second component. The result is
  the socket a packet was packed for.
\<close>

definition su_pop :: "u64 \<Rightarrow> (nat \<Rightarrow> bool) \<Rightarrow> (nat \<Rightarrow> u64 \<Rightarrow> int \<times> u64) \<Rightarrow> snd_ulist \<Rightarrow> (nat option \<times> snd_ulist) option" where
  "su_pop now live pkt S =
     (if su_iLastEntry S = -1 then Some (None, S)
      else do {
        top \<leftarrow> node_at 0 S;
        if now < n_llTimeStamp top then Some (None, S)
        else do {
          u \<leftarrow> rd (su_pHeap S) 0;
          S \<leftarrow> heap_remove u S;
          if \<not> live u then Some (None, S)
          else let (r, ts) = pkt u now in
            if r \<le> 0 then Some (None, S)
            else do {
              S \<leftarrow> (if ts > 0 then heap_insert ts u S else Some S);
              Some (Some u, S) } } })"

end
