(* ===== verification/UdtSndUListSpec.thy ===== *)
theory UdtSndUListSpec
  imports UdtSndUList
begin

section \<open>UDT: the sending schedule is a priority queue\<close>

text \<open>
  \<open>su_ok\<close>: the array and the positions in the nodes agree. \<open>su_heap\<close>: no node is earlier than its parent.
  \<open>scheduled\<close>: the sockets in the heap.
\<close>

definition su_key :: "snd_ulist \<Rightarrow> nat \<Rightarrow> u64" where
  "su_key S i = n_llTimeStamp (su_nodes S ! (su_pHeap S ! i))"

definition su_loc :: "snd_ulist \<Rightarrow> nat \<Rightarrow> int" where
  "su_loc S a = n_iHeapLoc (su_nodes S ! a)"

definition scheduled :: "snd_ulist \<Rightarrow> nat set" where
  "scheduled S = {a. a < length (su_nodes S) \<and> su_loc S a \<ge> 0}"

text \<open>
  The agreement for the first \<open>n\<close> positions and all nodes but \<open>u\<close>, which is at position \<open>q\<close> or, for
  \<open>q = n\<close>, not in the heap.
\<close>

definition agree :: "nat \<Rightarrow> nat \<Rightarrow> nat \<Rightarrow> snd_ulist \<Rightarrow> bool" where
  "agree u q n S \<longleftrightarrow> n \<le> length (su_pHeap S) \<and> u < length (su_nodes S) \<and> (q < n \<longrightarrow> su_pHeap S ! q = u) \<and>
     (\<forall>i < n. i \<noteq> q \<longrightarrow> su_pHeap S ! i < length (su_nodes S) \<and> su_pHeap S ! i \<noteq> u \<and> su_loc S (su_pHeap S ! i) = int i) \<and>
     (\<forall>a < length (su_nodes S). a \<noteq> u \<longrightarrow> su_loc S a \<ge> 0 \<longrightarrow>
        su_loc S a < int n \<and> nat (su_loc S a) \<noteq> q \<and> su_pHeap S ! nat (su_loc S a) = a)"

definition su_ok :: "snd_ulist \<Rightarrow> bool" where
  "su_ok S \<longleftrightarrow> -1 \<le> su_iLastEntry S \<and> su_iLastEntry S < su_iArrayLength S \<and> length (su_pHeap S) = nat (su_iArrayLength S) \<and>
     (\<forall>i < nat (su_iLastEntry S + 1). su_pHeap S ! i < length (su_nodes S) \<and> su_loc S (su_pHeap S ! i) = int i) \<and>
     (\<forall>a < length (su_nodes S). su_loc S a \<ge> 0 \<longrightarrow>
        su_loc S a \<le> su_iLastEntry S \<and> su_pHeap S ! nat (su_loc S a) = a)"

definition su_heap :: "nat \<Rightarrow> snd_ulist \<Rightarrow> bool" where
  "su_heap n S \<longleftrightarrow> (\<forall>i. 0 < i \<and> i < n \<longrightarrow> su_key S ((i - 1) div 2) \<le> su_key S i)"

text \<open>What the loops leave alone.\<close>

definition same_nodes :: "nat \<Rightarrow> snd_ulist \<Rightarrow> snd_ulist \<Rightarrow> bool" where
  "same_nodes u S S' \<longleftrightarrow> length (su_nodes S') = length (su_nodes S) \<and> length (su_pHeap S') = length (su_pHeap S) \<and>
     su_iLastEntry S' = su_iLastEntry S \<and> su_iArrayLength S' = su_iArrayLength S \<and>
     su_interrupts S' = su_interrupts S \<and> su_signals S' = su_signals S \<and>
     (\<forall>a < length (su_nodes S). n_llTimeStamp (su_nodes S' ! a) = n_llTimeStamp (su_nodes S ! a) \<and>
        (a \<noteq> u \<longrightarrow> (su_loc S' a \<ge> 0 \<longleftrightarrow> su_loc S a \<ge> 0)))"

lemma same_nodes_refl [simp]: "same_nodes u S S" by (simp add: same_nodes_def)

lemma same_nodes_trans: "same_nodes u S T \<Longrightarrow> same_nodes u T R \<Longrightarrow> same_nodes u S R"
  by (auto simp: same_nodes_def)

subsection \<open>One exchange\<close>

text \<open>The state after the nodes at \<open>p\<close> and \<open>q\<close> change places and \<open>f\<close> updates positions.\<close>

definition swapped :: "nat \<Rightarrow> nat \<Rightarrow> snd_ulist \<Rightarrow> nat list" where
  "swapped p q S = (su_pHeap S)[p := su_pHeap S ! q, q := su_pHeap S ! p]"

lemma swapped_nth:
  "p < length (su_pHeap S) \<Longrightarrow> q < length (su_pHeap S) \<Longrightarrow>
    swapped p q S ! i = (if i = q then su_pHeap S ! p else if i = p then su_pHeap S ! q else su_pHeap S ! i)"
  by (simp add: swapped_def nth_list_update)

lemma node_at_nat:
  assumes "i < length (su_pHeap S)" "su_pHeap S ! i < length (su_nodes S)"
  shows "node_at (int i) S = Some (su_nodes S ! (su_pHeap S ! i))"
  using assms by (simp add: node_at_def)

lemma set_loc_ok: "a < length (su_nodes S) \<Longrightarrow>
    set_loc a l S = Some (S\<lparr>su_nodes := (su_nodes S)[a := (su_nodes S ! a)\<lparr>n_iHeapLoc := l\<rparr>]\<rparr>)"
  by (simp add: set_loc_def)

lemma put_heap_ok: "i < length (su_pHeap S) \<Longrightarrow> put_heap (int i) a S = Some (S\<lparr>su_pHeap := (su_pHeap S)[i := a]\<rparr>)"
  by (simp add: put_heap_def)

subsection \<open>Sifting up\<close>

lemma agreeD:
  assumes "agree u q n S"
  shows "n \<le> length (su_pHeap S)" "u < length (su_nodes S)" "q < n \<Longrightarrow> su_pHeap S ! q = u"
    "i < n \<Longrightarrow> su_pHeap S ! i < length (su_nodes S)"
    "i < n \<Longrightarrow> i \<noteq> q \<Longrightarrow> su_pHeap S ! i \<noteq> u \<and> su_loc S (su_pHeap S ! i) = int i"
    "a < length (su_nodes S) \<Longrightarrow> a \<noteq> u \<Longrightarrow> su_loc S a \<ge> 0 \<Longrightarrow>
       su_loc S a < int n \<and> nat (su_loc S a) \<noteq> q \<and> su_pHeap S ! nat (su_loc S a) = a"
  using assms unfolding agree_def by (cases "i = q"; auto)+

lemma up_step:
  assumes A: "agree u q n S" and pq: "p < n" "q < n" "p \<noteq> q"
  defines "t \<equiv> su_pHeap S ! p"
  defines "S' \<equiv> S\<lparr>su_pHeap := swapped p q S, su_nodes := (su_nodes S)[t := (su_nodes S ! t)\<lparr>n_iHeapLoc := int q\<rparr>]\<rparr>"
  shows "agree u p n S'" "same_nodes u S S'"
    "\<And>i. i < n \<Longrightarrow> su_key S' i = (if i = q then su_key S p else if i = p then su_key S q else su_key S i)"
proof -
  note D = agreeD [OF A]
  have t: "t < length (su_nodes S)" "t \<noteq> u" "su_loc S t = int p" using D(4,5) [of p] pq by (auto simp: t_def)
  have len: "p < length (su_pHeap S)" "q < length (su_pHeap S)" using D(1) pq by auto
  have loc: "su_loc S' a = (if a = t then int q else su_loc S a)" if "a < length (su_nodes S)" for a
    using that t(1) by (simp add: su_loc_def S'_def nth_list_update)
  have h: "su_pHeap S' ! i = (if i = q then t else if i = p then u else su_pHeap S ! i)" for i
    using swapped_nth [OF len] D(3) pq(2) by (simp add: S'_def t_def)
  have other: "su_pHeap S ! i \<noteq> t" if "i < n" "i \<noteq> p" for i
    using D(5) [of i] t(2,3) that D(3) pq by (cases "i = q") auto
  have "su_pHeap S' ! i < length (su_nodes S') \<and> su_pHeap S' ! i \<noteq> u \<and> su_loc S' (su_pHeap S' ! i) = int i" if "i < n" "i \<noteq> p" for i
  proof (cases "i = q")
    case True
    then show ?thesis using h t loc by (simp add: S'_def)
  next
    case False
    then show ?thesis using h [of i] that D(4,5) [of i] other [of i] loc by (simp add: S'_def)
  qed
  moreover have "su_loc S' a < int n \<and> nat (su_loc S' a) \<noteq> p \<and> su_pHeap S' ! nat (su_loc S' a) = a"
    if a: "a < length (su_nodes S)" "a \<noteq> u" "su_loc S' a \<ge> 0" for a
  proof (cases "a = t")
    case True
    then show ?thesis using loc a h pq by auto
  next
    case False
    then have l: "su_loc S' a = su_loc S a" using loc a by simp
    then have d: "su_loc S a < int n \<and> nat (su_loc S a) \<noteq> q \<and> su_pHeap S ! nat (su_loc S a) = a" using D(6) a by auto
    moreover have "nat (su_loc S a) \<noteq> p" using d False by (auto simp: t_def)
    ultimately show ?thesis using l h by simp
  qed
  moreover have "length (su_nodes S') = length (su_nodes S)" "length (su_pHeap S') = length (su_pHeap S)"
    by (simp_all add: S'_def swapped_def)
  ultimately show "agree u p n S'" unfolding agree_def using D(1,2) h pq by auto
  have ts: "n_llTimeStamp (su_nodes S' ! a) = n_llTimeStamp (su_nodes S ! a)" for a
    using t(1) by (cases "a = t") (simp_all add: S'_def nth_list_update)
  then show "same_nodes u S S'" using loc t by (auto simp: same_nodes_def S'_def swapped_def)
  show "su_key S' i = (if i = q then su_key S p else if i = p then su_key S q else su_key S i)" if "i < n" for i
    unfolding su_key_def ts h using D(3) pq by (auto simp: t_def)
qed

text \<open>Heap order but for position \<open>q\<close>, whose children are not earlier than its parent.\<close>

definition up_heap :: "nat \<Rightarrow> nat \<Rightarrow> snd_ulist \<Rightarrow> bool" where
  "up_heap q n S \<longleftrightarrow> (\<forall>i. 0 < i \<and> i < n \<and> i \<noteq> q \<longrightarrow> su_key S ((i - 1) div 2) \<le> su_key S i) \<and>
     (\<forall>i. 0 < i \<and> i < n \<and> 0 < q \<and> (i - 1) div 2 = q \<longrightarrow> su_key S ((q - 1) div 2) \<le> su_key S i)"

lemma su_up_ok:
  assumes "agree u q n S" "q < n" "up_heap q n S"
  shows "\<exists>q' S'. su_up q S = Some (q', S') \<and> agree u q' n S' \<and> q' < n \<and> su_heap n S' \<and> same_nodes u S S'"
  using assms
proof (induction q arbitrary: S rule: less_induct)
  case (less q)
  note D = agreeD [OF less.prems(1)]
  show ?case
  proof (cases "q = 0")
    case True
    then have "su_heap n S" using less.prems(3) by (auto simp: su_heap_def up_heap_def)
    then show ?thesis using True less.prems by (intro exI [of _ q] exI [of _ S]) (simp add: su_up.simps)
  next
    case False
    define p where "p = (q - 1) div 2"
    have p': "(q - Suc 0) div 2 = p" by (simp add: p_def)
    have pq: "p < q" "p < n" using False less.prems(2) by (auto simp: p_def)
    have len: "p < length (su_pHeap S)" "q < length (su_pHeap S)" using D(1) pq less.prems(2) by auto
    have nd: "node_at (int p) S = Some (su_nodes S ! (su_pHeap S ! p))" "node_at (int q) S = Some (su_nodes S ! (su_pHeap S ! q))"
      using node_at_nat len D(4) pq less.prems(2) by auto
    show ?thesis
    proof (cases "su_key S p > su_key S q")
      case False
      then have h: "su_heap n S" using less.prems(3) p_def by (auto simp: su_heap_def up_heap_def)
      have "su_up q S = Some (q, S)" using False nd \<open>q \<noteq> 0\<close>
        by (subst su_up.simps) (simp add: su_key_def p' Let_def)
      then show ?thesis using h less.prems by auto
    next
      case True
      let ?t = "su_pHeap S ! p"
      let ?S = "S\<lparr>su_pHeap := swapped p q S, su_nodes := (su_nodes S)[?t := (su_nodes S ! ?t)\<lparr>n_iHeapLoc := int q\<rparr>]\<rparr>"
      note st = up_step [OF less.prems(1) pq(2) less.prems(2), OF less_imp_neq [OF pq(1)]]
      have "su_up q S = su_up p ?S"
        using True nd \<open>q \<noteq> 0\<close> len D(4) [OF pq(2)]
        by (subst su_up.simps) (simp add: su_key_def p' Let_def put_heap_def set_loc_def swapped_def)
      moreover have "up_heap p n ?S"
        unfolding up_heap_def
      proof (intro conjI allI impI)
        fix i assume i: "0 < i \<and> i < n \<and> i \<noteq> p"
        have par: "(i - 1) div 2 < n" using i by auto
        show "su_key ?S ((i - 1) div 2) \<le> su_key ?S i"
        proof (cases "i = q")
          case True
          then show ?thesis using \<open>su_key S p > su_key S q\<close> st(3) [of p] st(3) [of q] pq less.prems(2) by (simp add: p')
        next
          case False
          then have o: "su_key S ((i - 1) div 2) \<le> su_key S i" using less.prems(3) i by (simp add: up_heap_def)
          consider "(i - 1) div 2 = q" | "(i - 1) div 2 = p" | "(i - 1) div 2 \<noteq> q" "(i - 1) div 2 \<noteq> p" by blast
          then show ?thesis
          proof cases
            case 1
            then have "su_key S p \<le> su_key S i" using less.prems(3) i \<open>q \<noteq> 0\<close> by (auto simp: up_heap_def p_def)
            then show ?thesis using 1 st(3) [of q] st(3) [of i] False i less.prems(2) by simp
          next
            case 2
            then show ?thesis using o \<open>su_key S p > su_key S q\<close> st(3) [of p] st(3) [of i] False i pq by simp
          next
            case 3
            then show ?thesis using o st(3) [OF par] st(3) [of i] False i by simp
          qed
        qed
      next
        fix i assume i: "0 < i \<and> i < n \<and> 0 < p \<and> (i - 1) div 2 = p"
        have pp: "su_key S ((p - 1) div 2) \<le> su_key S p" using less.prems(3) i pq by (simp add: up_heap_def)
        have "(p - 1) div 2 < p" "p < i"
          using div_le_dividend [of "p - 1" 2] div_le_dividend [of "i - 1" 2] i by linarith+
        then have par: "(p - 1) div 2 < n" "(p - 1) div 2 \<noteq> p" "(p - 1) div 2 \<noteq> q" "i \<noteq> p" using i pq by linarith+
        have "su_key S p \<le> su_key S i" if "i \<noteq> q" using less.prems(3) i that by (auto simp: up_heap_def)
        then show "su_key ?S ((p - 1) div 2) \<le> su_key ?S i"
          using pp st(3) [OF par(1)] st(3) [of i] par i by (cases "i = q") auto
      qed
      ultimately show ?thesis using less.IH [OF pq(1) st(1) pq(2)] same_nodes_trans [OF st(2)] by metis
    qed
  qed
qed


subsection \<open>Sifting down\<close>

lemma down_step:
  assumes A: "agree u n n S" and pq: "p < n" "q < n" "p \<noteq> q"
  defines "t \<equiv> su_pHeap S ! p" and "b \<equiv> su_pHeap S ! q"
  defines "S' \<equiv> S\<lparr>su_pHeap := swapped p q S,
    su_nodes := (su_nodes S)[b := (su_nodes S ! b)\<lparr>n_iHeapLoc := int p\<rparr>, t := (su_nodes S ! t)\<lparr>n_iHeapLoc := int q\<rparr>]\<rparr>"
  shows "agree u n n S'" "same_nodes u S S'"
    "\<And>i. i < n \<Longrightarrow> su_key S' i = (if i = q then su_key S p else if i = p then su_key S q else su_key S i)"
    and "t \<noteq> b" "t < length (su_nodes S)" "b < length (su_nodes S)"
proof -
  note D = agreeD [OF A]
  have t: "t < length (su_nodes S)" "t \<noteq> u" "su_loc S t = int p" using D(4,5) [of p] pq by (auto simp: t_def)
  have b: "b < length (su_nodes S)" "b \<noteq> u" "su_loc S b = int q" using D(4,5) [of q] pq by (auto simp: b_def)
  then show "t \<noteq> b" "t < length (su_nodes S)" "b < length (su_nodes S)" using t pq by auto
  have tb: "t \<noteq> b" using t b pq by auto
  have len: "p < length (su_pHeap S)" "q < length (su_pHeap S)" using D(1) pq by auto
  have loc: "su_loc S' a = (if a = t then int q else if a = b then int p else su_loc S a)" if "a < length (su_nodes S)" for a
    using that t(1) b(1) by (simp add: su_loc_def S'_def nth_list_update)
  have h: "su_pHeap S' ! i = (if i = q then t else if i = p then b else su_pHeap S ! i)" for i
    using swapped_nth [OF len] by (simp add: S'_def t_def b_def)
  have other: "su_pHeap S ! i \<noteq> t \<and> su_pHeap S ! i \<noteq> b" if "i < n" "i \<noteq> p" "i \<noteq> q" for i
    using D(5) [of i] t(3) b(3) that by auto
  have "su_pHeap S' ! i < length (su_nodes S') \<and> su_pHeap S' ! i \<noteq> u \<and> su_loc S' (su_pHeap S' ! i) = int i" if "i < n" for i
  proof (cases "i = q \<or> i = p")
    case True
    then show ?thesis using h t b loc tb pq by (auto simp: S'_def)
  next
    case False
    then show ?thesis using h [of i] that D(4,5) [of i] other [of i] loc by (simp add: S'_def)
  qed
  moreover have "su_loc S' a < int n \<and> nat (su_loc S' a) \<noteq> n \<and> su_pHeap S' ! nat (su_loc S' a) = a"
    if a: "a < length (su_nodes S)" "a \<noteq> u" "su_loc S' a \<ge> 0" for a
  proof (cases "a = t \<or> a = b")
    case True
    then show ?thesis using loc a h pq tb by auto
  next
    case False
    then have l: "su_loc S' a = su_loc S a" using loc a by simp
    then have d: "su_loc S a < int n \<and> nat (su_loc S a) \<noteq> n \<and> su_pHeap S ! nat (su_loc S a) = a" using D(6) a by auto
    moreover have "nat (su_loc S a) \<noteq> p" "nat (su_loc S a) \<noteq> q" using d False by (auto simp: t_def b_def)
    ultimately show ?thesis using l h by simp
  qed
  moreover have "length (su_nodes S') = length (su_nodes S)" "length (su_pHeap S') = length (su_pHeap S)"
    by (simp_all add: S'_def swapped_def)
  ultimately show "agree u n n S'" unfolding agree_def using D(1,2) by auto
  have ts: "n_llTimeStamp (su_nodes S' ! a) = n_llTimeStamp (su_nodes S ! a)" for a
    using t(1) b(1) by (simp add: S'_def nth_list_update)
  then show "same_nodes u S S'" using loc t b by (auto simp: same_nodes_def S'_def swapped_def)
  show "su_key S' i = (if i = q then su_key S p else if i = p then su_key S q else su_key S i)" if "i < n" for i
    unfolding su_key_def ts h using pq by (auto simp: t_def b_def)
qed

text \<open>Heap order but for the children of position \<open>q\<close>, which are not earlier than its parent.\<close>

definition down_heap :: "nat \<Rightarrow> nat \<Rightarrow> snd_ulist \<Rightarrow> bool" where
  "down_heap q n S \<longleftrightarrow> (\<forall>i. 0 < i \<and> i < n \<and> (i - 1) div 2 \<noteq> q \<longrightarrow> su_key S ((i - 1) div 2) \<le> su_key S i) \<and>
     (\<forall>i. 0 < i \<and> i < n \<and> 0 < q \<and> (i - 1) div 2 = q \<longrightarrow> su_key S ((q - 1) div 2) \<le> su_key S i)"

lemma child_iff: "0 < (i :: nat) \<Longrightarrow> (i - 1) div 2 = q \<longleftrightarrow> i = 2 * q + 1 \<or> i = 2 * q + 2"
  by auto

lemma su_down_stop: "int n = su_iLastEntry S + 1 \<Longrightarrow> n \<le> 2 * q + 1 \<Longrightarrow> su_down (int q) S = Some S"
  by (subst su_down.simps) simp

text \<open>The child the loop looks at.\<close>

definition small_child :: "nat \<Rightarrow> nat \<Rightarrow> snd_ulist \<Rightarrow> nat" where
  "small_child q n S = (if 2 * q + 2 < n \<and> su_key S (2 * q + 1) > su_key S (2 * q + 2) then 2 * q + 2 else 2 * q + 1)"

lemma su_down_go:
  assumes A: "agree u n n S" and n: "int n = su_iLastEntry S + 1" "2 * q + 1 < n"
  defines "p \<equiv> small_child q n S"
  defines "t \<equiv> su_pHeap S ! p" and "b \<equiv> su_pHeap S ! q"
  shows "su_down (int q) S =
    (if su_key S q > su_key S p then su_down (int p) (S\<lparr>su_pHeap := swapped p q S,
       su_nodes := (su_nodes S)[b := (su_nodes S ! b)\<lparr>n_iHeapLoc := int p\<rparr>, t := (su_nodes S ! t)\<lparr>n_iHeapLoc := int q\<rparr>]\<rparr>)
     else Some S)"
proof -
  note D = agreeD [OF A]
  have p: "p < n" "p \<noteq> q" using n by (auto simp: p_def small_child_def)
  have nd: "node_at (int i) S = Some (su_nodes S ! (su_pHeap S ! i))" if "i < n" for i
    using node_at_nat [of i S] D(1,4) that by auto
  note nd1 = nd [OF n(2)]
  have choose: "(if int q * 2 + 1 + 1 \<le> su_iLastEntry S then do {
                a \<leftarrow> node_at (int q * 2 + 1) S;
                b \<leftarrow> node_at (int q * 2 + 1 + 1) S;
                Some (if n_llTimeStamp a > n_llTimeStamp b then int q * 2 + 1 + 1 else int q * 2 + 1) }
              else Some (int q * 2 + 1)) = Some (int p)"
  proof -
    have e: "int q * 2 + 1 = int (2 * q + 1)" "int q * 2 + 1 + 1 = int (2 * q + 2)" by simp_all
    have i: "int (2 * q + 2) \<le> su_iLastEntry S \<longleftrightarrow> 2 * q + 2 < n" using n(1) by linarith
    show ?thesis unfolding e(1)
      using nd1 nd [of "2 * q + 2"] i by (auto simp: p_def small_child_def su_key_def add.commute)
  qed
  have le: "int q * 2 + 1 \<le> su_iLastEntry S" using n by simp
  have len: "p < length (su_pHeap S)" "q < length (su_pHeap S)" using D(1) p n by auto
  have "su_pHeap S ! p \<noteq> su_pHeap S ! q" using down_step(4) [OF A p(1) _ p(2)] n(2) by simp
  then show ?thesis
    unfolding su_down.simps [of "int q"] Let_def choose
    using le nd [OF p(1)] nd [of q] n(2) len D(4) [OF p(1)] D(4) [of q] p(2)
    by (simp add: su_key_def put_heap_def set_loc_def swapped_def t_def b_def list_update_swap)
qed


lemma su_down_ok:
  assumes "agree u n n S" "int n = su_iLastEntry S + 1"
  shows "\<exists>S'. su_down (int q) S = Some S' \<and> agree u n n S' \<and> same_nodes u S S' \<and> (down_heap q n S \<longrightarrow> su_heap n S')"
  using assms
proof (induction "n - q" arbitrary: q S rule: less_induct)
  case less
  note A = less.prems(1) and n = less.prems(2)
  show ?case
  proof (cases "n \<le> 2 * q + 1")
    case True
    have "down_heap q n S \<longrightarrow> su_heap n S" using True by (auto simp: down_heap_def su_heap_def)
    then show ?thesis using A su_down_stop [OF n True] by auto
  next
    case False
    then have lt: "2 * q + 1 < n" by simp
    let ?p = "small_child q n S"
    have p: "?p < n" "q < n" "?p \<noteq> q" "q < ?p" using lt by (auto simp: small_child_def)
    have small: "su_key S ?p \<le> su_key S (2 * q + 1)" "2 * q + 2 < n \<Longrightarrow> su_key S ?p \<le> su_key S (2 * q + 2)"
      by (auto simp: small_child_def)
    note go = su_down_go [OF A n lt]
    show ?thesis
    proof (cases "su_key S q > su_key S ?p")
      case False
      have "su_heap n S" if "down_heap q n S"
        unfolding su_heap_def
      proof (intro allI impI)
        fix i assume i: "0 < i \<and> i < n"
        show "su_key S ((i - 1) div 2) \<le> su_key S i"
        proof (cases "(i - 1) div 2 = q")
          case True
          then have "i = 2 * q + 1 \<or> i = 2 * q + 2" using child_iff i by blast
          then show ?thesis using small False True i by auto
        qed (use that i in \<open>simp add: down_heap_def\<close>)
      qed
      then show ?thesis using go False A by auto
    next
      case True
      let ?t = "su_pHeap S ! ?p" and ?b = "su_pHeap S ! q"
      let ?S = "S\<lparr>su_pHeap := swapped ?p q S,
        su_nodes := (su_nodes S)[?b := (su_nodes S ! ?b)\<lparr>n_iHeapLoc := int ?p\<rparr>, ?t := (su_nodes S ! ?t)\<lparr>n_iHeapLoc := int q\<rparr>]\<rparr>"
      note st = down_step [OF A p(1,2,3)]
      have "down_heap ?p n ?S" if h: "down_heap q n S"
        unfolding down_heap_def
      proof (intro conjI allI impI)
        fix i assume i: "0 < i \<and> i < n \<and> (i - 1) div 2 \<noteq> ?p"
        have par: "(i - 1) div 2 < n" using i by auto
        show "su_key ?S ((i - 1) div 2) \<le> su_key ?S i"
        proof (cases "(i - 1) div 2 = q")
          case True
          then have "i = 2 * q + 1 \<or> i = 2 * q + 2" using child_iff i by blast
          then have "su_key S ?p \<le> su_key S i" "i \<noteq> q" using small i by auto
          then show ?thesis using True st(3) [OF p(2)] st(3) [of i] i \<open>su_key S q > su_key S ?p\<close> by auto
        next
          case False
          then have o: "su_key S ((i - 1) div 2) \<le> su_key S i" using h i by (simp add: down_heap_def)
          have "i \<noteq> ?p"
          proof
            assume "i = ?p"
            then show False using False child_iff [of i q] i by (auto simp: small_child_def split: if_splits)
          qed
          moreover have "su_key S ((i - 1) div 2) \<le> su_key S ?p" if "i = q"
          proof -
            have "0 < q" "(?p - 1) div 2 = q" using i that by (auto simp: small_child_def)
            then show ?thesis using h p(1,4) that unfolding down_heap_def by auto
          qed
          ultimately show ?thesis using o st(3) [OF par] st(3) [of i] False i by auto
        qed
      next
        fix i assume i: "0 < i \<and> i < n \<and> 0 < ?p \<and> (i - 1) div 2 = ?p"
        have "(?p - 1) div 2 = q" by (auto simp: small_child_def)
        moreover have "i \<noteq> q" "i \<noteq> ?p" using i p by auto
        moreover have "su_key S ?p \<le> su_key S i" using h i p unfolding down_heap_def by auto
        ultimately show "su_key ?S ((?p - 1) div 2) \<le> su_key ?S i" using st(3) [OF p(2)] st(3) [of i] i by simp
      qed
      moreover have "n - ?p < n - q" using p by simp
      ultimately show ?thesis
        using less.hyps [of ?p ?S] st(1) n go True same_nodes_trans [OF st(2)] by fastforce
    qed
  qed
qed

subsection \<open>The operations\<close>

lemma su_ok_agree:
  assumes "su_ok S" "u \<in> scheduled S" "n = nat (su_iLastEntry S + 1)"
  shows "agree u (nat (su_loc S u)) n S" "nat (su_loc S u) < n"
proof -
  have u: "u < length (su_nodes S)" "su_loc S u \<ge> 0" using assms(2) by (auto simp: scheduled_def)
  have l: "su_loc S u \<le> su_iLastEntry S" "su_pHeap S ! nat (su_loc S u) = u" using assms(1) u by (auto simp: su_ok_def)
  show "nat (su_loc S u) < n" using l u assms(3) by linarith
  have inj: "su_pHeap S ! i \<noteq> u" if "i < n" "i \<noteq> nat (su_loc S u)" for i
    using assms(1,3) that unfolding su_ok_def by (metis nat_int)
  have "n \<le> length (su_pHeap S)" using assms(1,3) by (auto simp: su_ok_def)
  moreover have "su_pHeap S ! i < length (su_nodes S) \<and> su_loc S (su_pHeap S ! i) = int i" if "i < n" for i
    using assms(1,3) that by (auto simp: su_ok_def)
  moreover have "su_loc S a < int n \<and> nat (su_loc S a) \<noteq> nat (su_loc S u) \<and> su_pHeap S ! nat (su_loc S a) = a"
    if "a < length (su_nodes S)" "a \<noteq> u" "su_loc S a \<ge> 0" for a
  proof -
    have "su_loc S a \<le> su_iLastEntry S" "su_pHeap S ! nat (su_loc S a) = a" using assms(1) that by (auto simp: su_ok_def)
    then show ?thesis using assms(3) that l(2) by (auto simp: nat_less_iff) 
  qed
  ultimately show "agree u (nat (su_loc S u)) n S" unfolding agree_def using u l(2) inj by auto
qed

lemma key_root:
  assumes "su_heap n S" "i < n"
  shows "su_key S 0 \<le> su_key S i"
  using assms(2)
proof (induction i rule: less_induct)
  case (less i)
  show ?case
  proof (cases "i = 0")
    case False
    then have "(i - 1) div 2 < i" by auto
    then have "su_key S 0 \<le> su_key S ((i - 1) div 2)" using less by auto
    also have "\<dots> \<le> su_key S i" using assms(1) less.prems False by (simp add: su_heap_def)
    finally show ?thesis .
  qed simp
qed


lemma same_nodes_key:
  assumes "same_nodes u S S'" "agree u q n S'" "i < n"
  shows "su_key S' i = n_llTimeStamp (su_nodes S ! (su_pHeap S' ! i))"
  using assms agreeD(4) [OF assms(2,3)] by (simp add: su_key_def same_nodes_def)

lemma agree_su_ok:
  assumes "agree u q n S" "q < n" "su_loc S u = int q" "int n = su_iLastEntry S + 1"
    "su_iLastEntry S < su_iArrayLength S" "length (su_pHeap S) = nat (su_iArrayLength S)"
  shows "su_ok S"
proof -
  note D = agreeD [OF assms(1)]
  have "su_pHeap S ! i < length (su_nodes S) \<and> su_loc S (su_pHeap S ! i) = int i" if "i < n" for i
    using D(3) D(4,5) [OF that] assms(2,3) by (cases "i = q") auto
  moreover have "su_loc S a \<le> su_iLastEntry S \<and> su_pHeap S ! nat (su_loc S a) = a" if "a < length (su_nodes S)" "su_loc S a \<ge> 0" for a
    using D(6) [of a] D(3) that assms(2-4) by (cases "a = u") auto
  ultimately show ?thesis unfolding su_ok_def using assms(4-6) by auto
qed

text \<open>Insertion: the node gets its time and its place, everything else stays; the array must have room.\<close>

lemma heap_insert_ok:
  assumes ok: "su_ok S" and h: "su_heap (nat (su_iLastEntry S + 1)) S" and u: "u < length (su_nodes S)" "su_loc S u < 0"
    and room: "su_iLastEntry S < su_iArrayLength S - 1"
  shows "\<exists>S'. heap_insert ts u S = Some S' \<and> su_ok S' \<and> su_heap (nat (su_iLastEntry S' + 1)) S' \<and>
    scheduled S' = insert u (scheduled S) \<and> length (su_nodes S') = length (su_nodes S) \<and> su_iArrayLength S' = su_iArrayLength S \<and>
    (\<forall>a < length (su_nodes S). n_llTimeStamp (su_nodes S' ! a) = (if a = u then ts else n_llTimeStamp (su_nodes S ! a))) \<and>
    su_interrupts S \<le> su_interrupts S' \<and> (su_loc S' u = 0 \<longrightarrow> su_interrupts S' = su_interrupts S + 1)"
proof -
  let ?n = "nat (su_iLastEntry S + 1)"
  have L: "-1 \<le> su_iLastEntry S" "length (su_pHeap S) = nat (su_iArrayLength S)" using ok by (auto simp: su_ok_def)
  have n: "int ?n = su_iLastEntry S + 1" "?n < length (su_pHeap S)" using L room by auto
  let ?S = "S\<lparr>su_iLastEntry := su_iLastEntry S + 1, su_pHeap := (su_pHeap S)[?n := u],
    su_nodes := (su_nodes S)[u := (su_nodes S ! u)\<lparr>n_llTimeStamp := ts\<rparr>]\<rparr>"
  have loc: "su_loc ?S a = su_loc S a" for a using u(1) by (cases "a = u") (simp_all add: su_loc_def nth_list_update)
  have ne: "su_pHeap S ! i \<noteq> u" if "i < ?n" for i
  proof
    assume "su_pHeap S ! i = u"
    then have "su_loc S u = int i" using ok that by (auto simp: su_ok_def)
    then show False using u by simp
  qed
  have A: "agree u ?n (Suc ?n) ?S"
    unfolding agree_def loc using ok n u ne by (auto simp: su_ok_def nth_list_update less_Suc_eq)
  have key: "su_key ?S i = su_key S i" if "i < ?n" for i
    using ne [OF that] that u(1) by (simp add: su_key_def nth_list_update)
  have UH: "up_heap ?n (Suc ?n) ?S"
    unfolding up_heap_def
  proof (intro conjI allI impI)
    fix i assume i: "0 < i \<and> i < Suc ?n \<and> i \<noteq> ?n"
    then have "i < ?n" "(i - 1) div 2 < ?n" by auto
    then show "su_key ?S ((i - 1) div 2) \<le> su_key ?S i" using key h i by (simp add: su_heap_def)
  next
    fix i assume "0 < i \<and> i < Suc ?n \<and> 0 < ?n \<and> (i - 1) div 2 = ?n"
    then have False by linarith
    then show "su_key ?S ((?n - 1) div 2) \<le> su_key ?S i" ..
  qed
  obtain q S1 where U: "su_up ?n ?S = Some (q, S1)" "agree u q (Suc ?n) S1" "q < Suc ?n" "su_heap (Suc ?n) S1" "same_nodes u ?S S1"
    using su_up_ok [OF A _ UH] by auto
  note D1 = agreeD [OF U(2)]
  let ?S2 = "S1\<lparr>su_nodes := (su_nodes S1)[u := (su_nodes S1 ! u)\<lparr>n_iHeapLoc := int q\<rparr>]\<rparr>"
  have SN: "su_iLastEntry S1 = su_iLastEntry S + 1" "su_iArrayLength S1 = su_iArrayLength S" "length (su_nodes S1) = length (su_nodes S)"
    "length (su_pHeap S1) = length (su_pHeap S)" "su_interrupts S1 = su_interrupts S"
    using U(5) by (simp_all add: same_nodes_def)
  have loc2: "su_loc ?S2 a = (if a = u then int q else su_loc S1 a)" for a
    using D1(2) by (cases "a = u") (simp_all add: su_loc_def nth_list_update)
  have ts2: "n_llTimeStamp (su_nodes ?S2 ! a) = n_llTimeStamp (su_nodes S1 ! a)" for a
    using D1(2) by (cases "a = u") (simp_all add: nth_list_update)
  have A2: "agree u q (Suc ?n) ?S2" using U(2) unfolding agree_def loc2 by auto
  let ?S3 = "if q = 0 then su_interrupt ?S2 else ?S2"
  let ?S4 = "if su_iLastEntry ?S3 = 0 then ?S3\<lparr>su_signals := su_signals ?S3 + 1\<rparr> else ?S3"
  obtain F where F: "F = ?S4" by blast
  have f: "su_nodes F = su_nodes ?S2" "su_pHeap F = su_pHeap ?S2" "su_iLastEntry F = su_iLastEntry ?S2"
    "su_iArrayLength F = su_iArrayLength ?S2" "su_interrupts F = (if q = 0 then su_interrupts S + 1 else su_interrupts S)"
    unfolding F using SN by (simp_all add: su_interrupt_def)
  have loc4: "su_loc F = su_loc ?S2" unfolding su_loc_def f by (rule refl)
  have key4: "su_key F = su_key S1" unfolding su_key_def f ts2 by simp
  have "heap_insert ts u S = Some F"
  proof -
    have "wr (su_pHeap S) (su_iLastEntry S + 1) u = Some ((su_pHeap S)[?n := u])" using n L(1) by (auto simp: wr_def)
    then show ?thesis unfolding F using u U(1) D1(2) by (simp add: heap_insert_def put_heap_def set_loc_def su_loc_def Let_def)
  qed
  moreover have "su_ok ?S2"
    by (rule agree_su_ok [OF A2 U(3)]) (use loc2 SN n L room in auto)
  then have "su_ok F" unfolding su_ok_def loc4 f .
  moreover have "su_heap (nat (su_iLastEntry F + 1)) F"
    using U(4) n(1) SN unfolding su_heap_def key4 f by (simp add: nat_add_distrib Suc_nat_eq_nat_zadd1)
  moreover have "scheduled F = insert u (scheduled S)"
    unfolding scheduled_def loc4 f loc2 using SN(3) U(5) u(1) loc by (auto simp: same_nodes_def)
  moreover have "\<forall>a < length (su_nodes S). n_llTimeStamp (su_nodes F ! a) = (if a = u then ts else n_llTimeStamp (su_nodes S ! a))"
    unfolding f ts2 using U(5) u(1) by (auto simp: same_nodes_def nth_list_update)
  moreover have "su_loc F u = int q" unfolding loc4 loc2 by simp
  ultimately show ?thesis using f SN by (intro exI [of _ F]) auto
qed


text \<open>
  Removal: the sockets that stay keep their times. The heap order stays if the removed node is the
  first one, or if the node that takes its place, the last one, is not earlier than its new parent.
\<close>

definition fills_in_order :: "nat \<Rightarrow> snd_ulist \<Rightarrow> bool" where
  "fills_in_order u S \<longleftrightarrow> su_loc S u \<le> 0 \<or>
     su_key S ((nat (su_loc S u) - 1) div 2) \<le> su_key S (nat (su_iLastEntry S))"

lemma heap_remove_ok:
  assumes ok: "su_ok S" and u: "u \<in> scheduled S"
  shows "\<exists>S'. heap_remove u S = Some S' \<and> su_ok S' \<and> scheduled S' = scheduled S - {u} \<and>
    length (su_nodes S') = length (su_nodes S) \<and> su_iArrayLength S' = su_iArrayLength S \<and> su_iLastEntry S' = su_iLastEntry S - 1 \<and>
    (\<forall>a < length (su_nodes S). n_llTimeStamp (su_nodes S' ! a) = n_llTimeStamp (su_nodes S ! a)) \<and> su_loc S' u = -1 \<and>
    (su_heap (nat (su_iLastEntry S + 1)) S \<and> fills_in_order u S \<longrightarrow> su_heap (nat (su_iLastEntry S' + 1)) S')"
proof -
  let ?n = "nat (su_iLastEntry S + 1)" and ?l = "nat (su_loc S u)"
  note A = su_ok_agree [OF ok u refl]
  note D = agreeD [OF A(1)]
  have ul: "u < length (su_nodes S)" "su_loc S u \<ge> 0" using u by (auto simp: scheduled_def)
  define m where "m = ?n - 1"
  have m: "?n = Suc m" "su_iLastEntry S = int m" "?l < Suc m" "Suc m \<le> length (su_pHeap S)"
    using A(2) D(1) ok by (auto simp: m_def su_ok_def)
  let ?b = "su_pHeap S ! m"
  have b: "?b < length (su_nodes S)" "su_loc S ?b = int m" using ok m by (auto simp: su_ok_def)
  let ?S = "S\<lparr>su_pHeap := (su_pHeap S)[?l := ?b], su_iLastEntry := su_iLastEntry S - 1,
    su_nodes := (su_nodes S)[?b := (su_nodes S ! ?b)\<lparr>n_iHeapLoc := int ?l\<rparr>]\<rparr>"
  have loc: "su_loc ?S a = (if a = ?b then int ?l else su_loc S a)" for a
    using b(1) by (cases "a = ?b") (simp_all add: su_loc_def nth_list_update)
  have ts: "n_llTimeStamp (su_nodes ?S ! a) = n_llTimeStamp (su_nodes S ! a)" for a
    using b(1) by (cases "a = ?b") (simp_all add: nth_list_update)
  have h: "su_pHeap ?S ! i = (if i = ?l then ?b else su_pHeap S ! i)" for i using m by (simp add: nth_list_update)
  have bu: "?b = u \<longleftrightarrow> ?l = m" using b ul D(3) A(2) by auto
  have AA: "agree u m m ?S"
    unfolding agree_def
  proof (intro conjI allI impI)
    fix i assume i: "i < m" "i \<noteq> m"
    have "su_pHeap S ! i < length (su_nodes S)" "su_loc S (su_pHeap S ! i) = int i" using ok i m by (auto simp: su_ok_def)
    moreover have "su_pHeap S ! i \<noteq> ?b" using calculation(2) b i by auto
    moreover have "su_pHeap S ! i \<noteq> u" if "i \<noteq> ?l" using D(5) [of i] i m that by auto
    ultimately show "su_pHeap ?S ! i < length (su_nodes ?S)" "su_pHeap ?S ! i \<noteq> u" "su_loc ?S (su_pHeap ?S ! i) = int i"
      using h [of i] loc b bu i by auto
  next
    fix a assume a: "a < length (su_nodes ?S)" "a \<noteq> u" "0 \<le> su_loc ?S a"
    have "su_loc ?S a < int m \<and> nat (su_loc ?S a) \<noteq> m \<and> su_pHeap ?S ! nat (su_loc ?S a) = a"
    proof (cases "a = ?b")
      case True
      then have "?l < m" using bu a(2) m(3) by auto
      moreover have "su_loc ?S a = int ?l" unfolding loc using True by (rule if_P)
      ultimately show ?thesis unfolding h using True by (simp only: nat_int of_nat_less_iff) simp
    next
      case False
      then have l: "su_loc ?S a = su_loc S a" using loc by simp
      then have x: "su_loc S a < int (Suc m)" "nat (su_loc S a) \<noteq> ?l" "su_pHeap S ! nat (su_loc S a) = a" "0 \<le> su_loc S a"
        using D(6) [of a] a m by auto
      then have "su_loc S a \<noteq> int m" using False by auto
      then show ?thesis unfolding l h using x by auto
    qed
    then show "su_loc ?S a < int m" "nat (su_loc ?S a) \<noteq> m" "su_pHeap ?S ! nat (su_loc ?S a) = a" by blast+
  qed (use m ul h in auto)
  obtain S1 where S1: "su_down (int ?l) ?S = Some S1" "agree u m m S1" "same_nodes u ?S S1" "down_heap ?l m ?S \<longrightarrow> su_heap m S1"
    using su_down_ok [OF AA, of ?l] m(2) by auto
  have SN: "su_iLastEntry S1 = su_iLastEntry S - 1" "su_iArrayLength S1 = su_iArrayLength S" "length (su_nodes S1) = length (su_nodes S)"
    "length (su_pHeap S1) = length (su_pHeap S)" using S1(3) by (simp_all add: same_nodes_def)
  let ?S2 = "S1\<lparr>su_nodes := (su_nodes S1)[u := (su_nodes S1 ! u)\<lparr>n_iHeapLoc := -1\<rparr>]\<rparr>"
  have u1: "u < length (su_nodes S1)" using ul SN by simp
  have loc2: "su_loc ?S2 a = (if a = u then -1 else su_loc S1 a)" for a
    using u1 by (cases "a = u") (simp_all add: su_loc_def nth_list_update)
  have ts2: "n_llTimeStamp (su_nodes ?S2 ! a) = n_llTimeStamp (su_nodes S1 ! a)" for a
    using u1 by (cases "a = u") (simp_all add: nth_list_update)
  let ?S3 = "if su_iLastEntry ?S2 = 0 then su_interrupt ?S2 else ?S2"
  obtain F where F: "F = ?S3" by blast
  have f: "su_nodes F = su_nodes ?S2" "su_pHeap F = su_pHeap ?S2" "su_iLastEntry F = su_iLastEntry ?S2"
    "su_iArrayLength F = su_iArrayLength ?S2" unfolding F by (simp_all add: su_interrupt_def)
  have loc3: "su_loc F = su_loc ?S2" unfolding su_loc_def f by (rule refl)
  have key3: "su_key F = su_key S1" unfolding su_key_def f ts2 by simp
  have "heap_remove u S = Some F"
  proof -
    have "int ?l = n_iHeapLoc (su_nodes S ! u)" using ul by (simp add: su_loc_def)
    then show ?thesis unfolding F using ul m b S1(1) u1
      by (simp add: heap_remove_def su_loc_def put_heap_def set_loc_def Let_def rd_def wr_def nat_less_iff)
  qed
  moreover have "su_ok ?S2" unfolding su_ok_def loc2
    using agreeD [OF S1(2)] ok SN m by (auto simp: su_ok_def)
  then have "su_ok F" unfolding su_ok_def loc3 f .
  moreover have "scheduled F = scheduled S - {u}"
  proof -
    have "0 \<le> su_loc ?S a \<longleftrightarrow> 0 \<le> su_loc S a" for a unfolding loc using b by auto
    then show ?thesis unfolding scheduled_def loc3 f loc2 using SN(3) S1(3) by (auto simp: same_nodes_def)
  qed
  moreover have "\<forall>a < length (su_nodes S). n_llTimeStamp (su_nodes F ! a) = n_llTimeStamp (su_nodes S ! a)"
    unfolding f ts2 using S1(3) ts by (auto simp: same_nodes_def)
  moreover have "su_heap (nat (su_iLastEntry F + 1)) F" if hp: "su_heap ?n S" "fills_in_order u S"
  proof -
    have key: "su_key ?S i = (if i = ?l then su_key S m else su_key S i)" for i
      unfolding su_key_def ts h by simp
    have o: "su_key S ((i - 1) div 2) \<le> su_key S i" if "0 < i" "i < Suc m" for i using hp(1) m that by (simp add: su_heap_def)
    have "down_heap ?l m ?S"
      unfolding down_heap_def key
    proof (intro conjI allI impI)
      fix i assume i: "0 < i \<and> i < m \<and> (i - 1) div 2 \<noteq> ?l"
      have "su_key S ((?l - 1) div 2) \<le> su_key S m" if "i = ?l" using hp(2) i that m(2) by (auto simp: fills_in_order_def)
      then show "(if (i - 1) div 2 = ?l then su_key S m else su_key S ((i - 1) div 2)) \<le> (if i = ?l then su_key S m else su_key S i)"
        using o [of i] i by auto
    next
      fix i assume i: "0 < i \<and> i < m \<and> 0 < ?l \<and> (i - 1) div 2 = ?l"
      have "(?l - 1) div 2 \<noteq> ?l" "i \<noteq> ?l" using i by auto
      moreover have "su_key S ((?l - 1) div 2) \<le> su_key S i" using o [of i] o [of ?l] i m by auto
      ultimately show "(if (?l - 1) div 2 = ?l then su_key S m else su_key S ((?l - 1) div 2)) \<le> (if i = ?l then su_key S m else su_key S i)"
        by simp
    qed
    then have "su_heap m S1" using S1(4) by blast
    then show ?thesis unfolding su_heap_def key3 f using SN m by simp
  qed
  moreover have "su_loc F u = -1" unfolding loc3 loc2 by simp
  ultimately show ?thesis using f SN by (intro exI [of _ F]) simp
qed

end
