(* ===== verification/UdtQueueProps.thy ===== *)
theory UdtQueueProps
  imports UdtSndUListSpec
begin

section \<open>Properties of the transport's queues\<close>

text \<open>
  The sending schedule seen as a map from sockets to times, and the contract of a priority queue, which
  the client, the loop that serves the earliest socket, relies on.
\<close>

definition sched :: "snd_ulist \<Rightarrow> nat \<rightharpoonup> u64" where
  "sched S = (\<lambda>a. if a \<in> scheduled S then Some (n_llTimeStamp (su_nodes S ! a)) else None)"

definition su_inv :: "snd_ulist \<Rightarrow> bool" where
  "su_inv S \<longleftrightarrow> su_ok S \<and> su_heap (nat (su_iLastEntry S + 1)) S"

lemma dom_sched: "dom (sched S) = scheduled S"
  by (auto simp: sched_def split: if_splits)

lemma finite_scheduled [simp]: "finite (scheduled S)"
  by (simp add: scheduled_def)

lemma scheduled_heap:
  assumes "su_ok S"
  shows "scheduled S = (\<lambda>i. su_pHeap S ! i) ` {..< nat (su_iLastEntry S + 1)}"
proof (rule set_eqI, rule iffI)
  fix a assume "a \<in> scheduled S"
  then have "su_loc S a \<ge> 0" "su_loc S a \<le> su_iLastEntry S" "su_pHeap S ! nat (su_loc S a) = a"
    using assms by (auto simp: scheduled_def su_ok_def)
  then show "a \<in> (\<lambda>i. su_pHeap S ! i) ` {..< nat (su_iLastEntry S + 1)}"
    by (intro image_eqI [of _ _ "nat (su_loc S a)"]) (auto simp: nat_less_iff)
qed (use assms in \<open>auto simp: scheduled_def su_ok_def\<close>)

text \<open>The root of the heap is the earliest socket.\<close>

lemma root_earliest:
  assumes "su_inv S" "su_iLastEntry S \<noteq> -1"
  shows "rd (su_pHeap S) 0 = Some (su_pHeap S ! 0)" "su_pHeap S ! 0 \<in> scheduled S" "su_loc S (su_pHeap S ! 0) = 0"
    "node_at 0 S = Some (su_nodes S ! (su_pHeap S ! 0))"
    "a \<in> scheduled S \<Longrightarrow> n_llTimeStamp (su_nodes S ! (su_pHeap S ! 0)) \<le> n_llTimeStamp (su_nodes S ! a)"
proof -
  have ok: "su_ok S" and h: "su_heap (nat (su_iLastEntry S + 1)) S" using assms(1) by (simp_all add: su_inv_def)
  have l: "0 < nat (su_iLastEntry S + 1)" "0 < length (su_pHeap S)" using ok assms(2) by (auto simp: su_ok_def)
  have r: "su_pHeap S ! 0 < length (su_nodes S)" "su_loc S (su_pHeap S ! 0) = 0" using ok l(1) by (auto simp: su_ok_def)
  show "su_loc S (su_pHeap S ! 0) = 0" by (rule r)
  show "rd (su_pHeap S) 0 = Some (su_pHeap S ! 0)" using l(2) by (simp add: rd_def)
  show "su_pHeap S ! 0 \<in> scheduled S" using r by (simp add: scheduled_def)
  show "node_at 0 S = Some (su_nodes S ! (su_pHeap S ! 0))" using node_at_nat [of 0 S] l(2) r by simp
  assume "a \<in> scheduled S"
  then obtain i where "i < nat (su_iLastEntry S + 1)" "a = su_pHeap S ! i" unfolding scheduled_heap [OF ok] by auto
  then show "n_llTimeStamp (su_nodes S ! (su_pHeap S ! 0)) \<le> n_llTimeStamp (su_nodes S ! a)"
    using key_root [OF h, of i] by (simp add: su_key_def)
qed

lemma scheduled_empty: "su_ok S \<Longrightarrow> scheduled S = {} \<longleftrightarrow> su_iLastEntry S = -1"
  using scheduled_heap [of S] by (auto simp: su_ok_def lessThan_empty_iff)

lemma getNextProcTime_min:
  assumes "su_inv S"
  shows "getNextProcTime S = Some (if sched S = Map.empty then 0 else Min (ran (sched S)))"
proof (cases "su_iLastEntry S = -1")
  case True
  then have "scheduled S = {}" using scheduled_empty assms by (simp add: su_inv_def)
  then have "sched S = Map.empty" using dom_sched [of S] by simp
  then show ?thesis using True by (simp add: getNextProcTime_def)
next
  case False
  note R = root_earliest [OF assms False]
  have ne: "sched S \<noteq> Map.empty" using R(2) by (auto simp: sched_def fun_eq_iff)
  have "ran (sched S) = (\<lambda>a. n_llTimeStamp (su_nodes S ! a)) ` scheduled S"
    by (auto simp: sched_def ran_def)
  then have "Min (ran (sched S)) = n_llTimeStamp (su_nodes S ! (su_pHeap S ! 0))"
    using R(2,5) by (intro Min_eqI) auto
  then show ?thesis using False ne R(4) by (simp add: getNextProcTime_def)
qed

lemma heap_insert_sched:
  assumes "su_inv S" "u < length (su_nodes S)" "sched S u = None" "su_iLastEntry S < su_iArrayLength S - 1"
  shows "\<exists>S'. heap_insert ts u S = Some S' \<and> su_inv S' \<and> sched S' = (sched S)(u \<mapsto> ts) \<and> length (su_nodes S') = length (su_nodes S) \<and>
    su_iArrayLength S' = su_iArrayLength S"
proof -
  have "su_loc S u < 0" using assms(2,3) by (auto simp: sched_def scheduled_def split: if_splits)
  from heap_insert_ok [OF _ _ assms(2) this assms(4), of ts] assms(1) obtain S' where
    S': "heap_insert ts u S = Some S'" "su_inv S'" "scheduled S' = insert u (scheduled S)" "length (su_nodes S') = length (su_nodes S)"
      "su_iArrayLength S' = su_iArrayLength S"
      "\<forall>a < length (su_nodes S). n_llTimeStamp (su_nodes S' ! a) = (if a = u then ts else n_llTimeStamp (su_nodes S ! a))"
    unfolding su_inv_def by blast
  have "sched S' a = ((sched S)(u \<mapsto> ts)) a" for a using S'(3,6) assms(2) by (auto simp: sched_def scheduled_def)
  then show ?thesis using S' by blast
qed

lemma heap_remove_sched:
  assumes "su_inv S" "u \<in> scheduled S"
  shows "\<exists>S'. heap_remove u S = Some S' \<and> su_ok S' \<and> sched S' = (sched S)(u := None) \<and> length (su_nodes S') = length (su_nodes S) \<and>
    su_iArrayLength S' = su_iArrayLength S \<and> su_iLastEntry S' < su_iArrayLength S' - 1 \<and> (fills_in_order u S \<longrightarrow> su_inv S')"
proof -
  have ok: "su_ok S" and h: "su_heap (nat (su_iLastEntry S + 1)) S" using assms(1) by (simp_all add: su_inv_def)
  from heap_remove_ok [OF ok assms(2)] obtain S' where
    S': "heap_remove u S = Some S'" "su_ok S'" "scheduled S' = scheduled S - {u}" "length (su_nodes S') = length (su_nodes S)"
      "su_iArrayLength S' = su_iArrayLength S" "su_iLastEntry S' = su_iLastEntry S - 1"
      "\<forall>a < length (su_nodes S). n_llTimeStamp (su_nodes S' ! a) = n_llTimeStamp (su_nodes S ! a)"
      "fills_in_order u S \<Longrightarrow> su_heap (nat (su_iLastEntry S' + 1)) S'" using h by blast
  have "sched S' a = ((sched S)(u := None)) a" for a using S'(3,7) by (auto simp: sched_def scheduled_def)
  moreover have "su_iLastEntry S' < su_iArrayLength S' - 1" using ok S'(5,6) by (simp add: su_ok_def)
  ultimately show ?thesis using S' unfolding su_inv_def by blast
qed

text \<open>Growing the array changes nothing that is scheduled.\<close>

definition su_grown :: "nat list \<Rightarrow> snd_ulist \<Rightarrow> snd_ulist" where
  "su_grown g S = (if su_iLastEntry S = su_iArrayLength S - 1
     then S\<lparr>su_pHeap := su_pHeap S @ take (nat (su_iArrayLength S)) g, su_iArrayLength := su_iArrayLength S * 2\<rparr> else S)"

lemma su_grown_ok:
  assumes "su_inv S" "int (length g) \<ge> su_iArrayLength S" "0 < su_iArrayLength S"
  shows "su_inv (su_grown g S)" "sched (su_grown g S) = sched S" "su_nodes (su_grown g S) = su_nodes S"
    "su_iLastEntry (su_grown g S) < su_iArrayLength (su_grown g S) - 1"
proof -
  let ?S = "su_grown g S"
  have f: "su_nodes ?S = su_nodes S" "su_iLastEntry ?S = su_iLastEntry S" by (simp_all add: su_grown_def)
  have loc: "su_loc ?S = su_loc S" unfolding su_loc_def f ..
  have len: "su_iLastEntry S + 1 \<le> int (length (su_pHeap S))" using assms(1) by (auto simp: su_inv_def su_ok_def)
  have h: "su_pHeap ?S ! i = su_pHeap S ! i" if "i < nat (su_iLastEntry S + 1)" for i
    using that len by (auto simp: su_grown_def nth_append)
  have key: "su_key ?S i = su_key S i" if "i < nat (su_iLastEntry S + 1)" for i unfolding su_key_def f h [OF that] ..
  show "su_nodes ?S = su_nodes S" by (rule f)
  show "sched ?S = sched S" unfolding sched_def scheduled_def loc f ..
  show room: "su_iLastEntry ?S < su_iArrayLength ?S - 1"
    using assms(1,3) by (auto simp: su_grown_def su_inv_def su_ok_def)
  have "length (su_pHeap ?S) = nat (su_iArrayLength ?S)" using assms by (auto simp: su_grown_def su_inv_def su_ok_def)
  then show "su_inv ?S" using assms(1) room h key unfolding su_inv_def su_ok_def su_heap_def loc f
    by (auto simp: nat_less_iff)
qed

lemma su_insert_grown: "su_insert g ts u S = heap_insert ts u (su_grown g S)"
  by (simp add: su_insert_def su_grown_def)

subsection \<open>The contract\<close>

text \<open>
  A schedule of sockets: what the sending thread relies on. \<open>serve n S\<close> removes the earliest socket \<open>n\<close>
  times; the times come out in order, and they are those of the schedule.
\<close>

fun serve :: "('s \<Rightarrow> (u64 \<times> nat \<times> 's) option) \<Rightarrow> nat \<Rightarrow> 's \<Rightarrow> (u64 \<times> nat) list" where
  "serve nxt 0 S = []"
| "serve nxt (Suc n) S = (case nxt S of None \<Rightarrow> [] | Some (t, u, S') \<Rightarrow> (t, u) # serve nxt n S')"

locale schedule =
  fixes inv :: "'s \<Rightarrow> bool" and view :: "'s \<Rightarrow> nat \<rightharpoonup> u64"
    and put :: "u64 \<Rightarrow> nat \<Rightarrow> 's \<Rightarrow> 's option" and nxt :: "'s \<Rightarrow> (u64 \<times> nat \<times> 's) option" and size :: "'s \<Rightarrow> nat"
  assumes fin: "inv S \<Longrightarrow> finite (dom (view S))"
    and put: "inv S \<Longrightarrow> view S u = None \<Longrightarrow> u < size S \<Longrightarrow>
      \<exists>S'. put t u S = Some S' \<and> inv S' \<and> view S' = (view S)(u \<mapsto> t) \<and> size S' = size S"
    and nxt_None: "inv S \<Longrightarrow> nxt S = None \<longleftrightarrow> view S = Map.empty"
    and nxt_Some: "inv S \<Longrightarrow> nxt S = Some (t, u, S') \<Longrightarrow>
      inv S' \<and> view S u = Some t \<and> view S' = (view S)(u := None) \<and> size S' = size S"
    and nxt_min: "inv S \<Longrightarrow> nxt S = Some (t, u, S') \<Longrightarrow> t' \<in> ran (view S) \<Longrightarrow> t \<le> t'"
begin

lemma serve_times: "inv S \<Longrightarrow> (t, u) \<in> set (serve nxt n S) \<Longrightarrow> view S u = Some t"
proof (induction n arbitrary: S)
  case (Suc n)
  then show ?case using nxt_Some [of S]
    by (auto split: option.splits if_splits) (metis fun_upd_apply option.distinct(1))+
qed simp

lemma serve_sorted: "inv S \<Longrightarrow> sorted (map fst (serve nxt n S))"
proof (induction n arbitrary: S)
  case (Suc n)
  show ?case
  proof (cases "nxt S")
    case (Some r)
    obtain t u S' where r: "nxt S = Some (t, u, S')" using Some by (cases r) auto
    note N = nxt_Some [OF Suc.prems r]
    have "t \<le> t'" if "(t', u') \<in> set (serve nxt n S')" for t' u'
      using serve_times [of S' t' u' n] N that nxt_min [OF Suc.prems r, of t']
      by (auto simp: ran_def split: if_splits)
    then show ?thesis using r Suc.IH [of S'] N by auto
  qed simp
qed simp

lemma serve_all: "inv S \<Longrightarrow> card (dom (view S)) \<le> n \<Longrightarrow>
    set (serve nxt n S) = {(t, u). view S u = Some t} \<and> distinct (map snd (serve nxt n S))"
proof (induction n arbitrary: S)
  case 0
  then have "view S = Map.empty" using fin [of S] by simp
  then show ?case by simp
next
  case (Suc n)
  show ?case
  proof (cases "nxt S")
    case None
    then show ?thesis using nxt_None [OF Suc.prems(1)] by simp
  next
    case (Some r)
    obtain t u S' where r: "nxt S = Some (t, u, S')" using Some by (cases r) auto
    note N = nxt_Some [OF Suc.prems(1) r]
    have "dom (view S') = dom (view S) - {u}" using N by auto
    then have "card (dom (view S')) \<le> n" using Suc.prems(2) N fin [OF Suc.prems(1)] by (simp add: domI)
    from Suc.IH [OF _ this] N have I: "set (serve nxt n S') = {(t, a). ((view S)(u := None)) a = Some t}" "distinct (map snd (serve nxt n S'))"
      by auto
    show ?thesis using r N I by (auto split: if_splits)
  qed
qed

end

text \<open>The earliest socket is removed: the first part of \<open>pop\<close>.\<close>

definition su_first :: "snd_ulist \<Rightarrow> (u64 \<times> nat \<times> snd_ulist) option" where
  "su_first S =
     (if su_iLastEntry S = -1 then None
      else do { top \<leftarrow> node_at 0 S; u \<leftarrow> rd (su_pHeap S) 0; S' \<leftarrow> heap_remove u S; Some (n_llTimeStamp top, u, S') })"

lemma su_first_sched:
  assumes "su_inv S" "su_iLastEntry S \<noteq> -1"
  shows "\<exists>S'. su_first S = Some (n_llTimeStamp (su_nodes S ! (su_pHeap S ! 0)), su_pHeap S ! 0, S') \<and>
    heap_remove (su_pHeap S ! 0) S = Some S' \<and> su_inv S' \<and>
    sched S' = (sched S)(su_pHeap S ! 0 := None) \<and> length (su_nodes S') = length (su_nodes S) \<and>
    su_iArrayLength S' = su_iArrayLength S \<and> su_iLastEntry S' < su_iArrayLength S' - 1"
proof -
  note R = root_earliest [OF assms]
  have "fills_in_order (su_pHeap S ! 0) S" using R(3) by (simp add: fills_in_order_def)
  then show ?thesis using heap_remove_sched [OF assms(1) R(2)] R(1,4) assms(2) by (fastforce simp: su_first_def)
qed

definition su_ready :: "snd_ulist \<Rightarrow> bool" where
  "su_ready S \<longleftrightarrow> su_inv S \<and> 0 < su_iArrayLength S"

definition su_put :: "u64 \<Rightarrow> nat \<Rightarrow> snd_ulist \<Rightarrow> snd_ulist option" where
  "su_put t u S = su_insert (replicate (nat (su_iArrayLength S)) 0) t u S"

lemma su_insert_sched:
  assumes "su_ready S" "sched S u = None" "u < length (su_nodes S)" "int (length g) \<ge> su_iArrayLength S"
  shows "\<exists>S'. su_insert g t u S = Some S' \<and> su_ready S' \<and> sched S' = (sched S)(u \<mapsto> t) \<and> length (su_nodes S') = length (su_nodes S)"
proof -
  have i: "su_inv S" "0 < su_iArrayLength S" using assms(1) by (simp_all add: su_ready_def)
  note G = su_grown_ok [OF i(1) assms(4) i(2)]
  have "0 < su_iArrayLength (su_grown g S)" using i(2) by (simp add: su_grown_def)
  then show ?thesis unfolding su_insert_grown su_ready_def
    using heap_insert_sched [OF G(1) _ _ G(4), of u t] G(2,3) assms(2,3) by auto
qed

interpretation snd_schedule: schedule su_ready sched su_put su_first "\<lambda>S. length (su_nodes S)"
proof unfold_locales
  fix S u t t' S'
  show "finite (dom (sched S))" unfolding dom_sched by simp
  show "\<exists>S'. su_put t u S = Some S' \<and> su_ready S' \<and> sched S' = (sched S)(u \<mapsto> t) \<and> length (su_nodes S') = length (su_nodes S)"
    if "su_ready S" "sched S u = None" "u < length (su_nodes S)"
    unfolding su_put_def by (rule su_insert_sched [OF that]) simp
  assume r: "su_ready S"
  then have i: "su_inv S" "su_ok S" by (simp_all add: su_ready_def su_inv_def)
  show "su_first S = None \<longleftrightarrow> sched S = Map.empty"
    using su_first_sched [OF i(1)] scheduled_empty [OF i(2)] dom_sched [of S] by (auto simp: su_first_def)
  assume f: "su_first S = Some (t, u, S')"
  then have ne: "su_iLastEntry S \<noteq> -1" by (auto simp: su_first_def)
  note R = root_earliest [OF i(1) ne]
  have tu: "t = n_llTimeStamp (su_nodes S ! u)" "u = su_pHeap S ! 0" "u \<in> scheduled S" using su_first_sched [OF i(1) ne] f R(2) by auto
  show "su_ready S' \<and> sched S u = Some t \<and> sched S' = (sched S)(u := None) \<and> length (su_nodes S') = length (su_nodes S)"
    using su_first_sched [OF i(1) ne] f r tu by (auto simp: su_ready_def sched_def)
  show "t \<le> t'" if "t' \<in> ran (sched S)"
    using that R(5) tu by (auto simp: ran_def sched_def split: if_splits)
qed

lemma su_pop_sched:
  assumes "su_ready S" "sched S \<noteq> Map.empty" "Min (ran (sched S)) \<le> now"
  shows "\<exists>u S'. sched S u = Some (Min (ran (sched S))) \<and> su_ready S' \<and> length (su_nodes S') = length (su_nodes S) \<and>
    su_pop now live pkt S = Some (if live u \<and> fst (pkt u now) > 0 then Some u else None, S') \<and>
    sched S' = (sched S)(u := if live u \<and> fst (pkt u now) > 0 \<and> snd (pkt u now) > 0 then Some (snd (pkt u now)) else None)"
proof -
  have i: "su_inv S" "su_ok S" "0 < su_iArrayLength S" using assms(1) by (simp_all add: su_ready_def su_inv_def)
  have ne: "su_iLastEntry S \<noteq> -1" using assms(2) scheduled_empty [OF i(2)] dom_sched [of S] by auto
  note R = root_earliest [OF i(1) ne]
  define u where "u = su_pHeap S ! 0"
  have m: "n_llTimeStamp (su_nodes S ! u) = Min (ran (sched S))"
    using getNextProcTime_min [OF i(1)] R(4) ne assms(2) by (simp add: getNextProcTime_def u_def)
  have su: "sched S u = Some (Min (ran (sched S)))" using R(2) m by (simp add: sched_def u_def)
  have ul: "u < length (su_nodes S)" using R(2) by (simp add: u_def scheduled_def)
  obtain S1 where S1: "heap_remove u S = Some S1" "su_inv S1" "sched S1 = (sched S)(u := None)" "length (su_nodes S1) = length (su_nodes S)"
    "su_iArrayLength S1 = su_iArrayLength S" "su_iLastEntry S1 < su_iArrayLength S1 - 1"
    using su_first_sched [OF i(1) ne] unfolding u_def by blast
  have pop: "su_pop now live pkt S = (if live u \<and> fst (pkt u now) > 0 then
      (if snd (pkt u now) > 0 then map_option (Pair (Some u)) (heap_insert (snd (pkt u now)) u S1) else Some (Some u, S1)) else Some (None, S1))"
    using R(1,4) ne S1(1) m assms(3) by (cases "pkt u now") (auto simp: su_pop_def u_def not_less Option.bind_map_option bind_eq_Some_conv split: Option.bind_splits)
  show ?thesis
  proof (cases "live u \<and> fst (pkt u now) > 0 \<and> snd (pkt u now) > 0")
    case True
    from heap_insert_sched [OF S1(2) _ _ S1(6), of u "snd (pkt u now)"] S1(3,4) ul obtain S2 where
      "heap_insert (snd (pkt u now)) u S1 = Some S2" "su_inv S2" "sched S2 = (sched S1)(u \<mapsto> snd (pkt u now))"
      "length (su_nodes S2) = length (su_nodes S)" "su_iArrayLength S2 = su_iArrayLength S1" by auto
    then show ?thesis using True pop su S1 i(3) by (intro exI [of _ u] exI [of _ S2]) (auto simp: su_ready_def)
  next
    case False
    then show ?thesis using pop su S1 i(3) by (intro exI [of _ u] exI [of _ S1]) (auto simp: su_ready_def)
  qed
qed

text \<open>
  C36: The sending schedule is a priority queue. \<open>insert\<close> of a socket that is not scheduled succeeds, also
  when the array must grow, and schedules it; \<open>getNextProcTime\<close> is the earliest time, 0 when nothing is
  scheduled; before that time \<open>pop\<close> does nothing; after it \<open>pop\<close> takes the earliest socket, returns it if it is
  live and gave a packet, and schedules it again exactly if it named a next time. Removing the
  earliest socket again and again serves all sockets, once each, in the order of their times.
\<close>

theorem sending_schedule:
  assumes "su_ready S"
  shows "(sched S u = None \<and> u < length (su_nodes S) \<and> su_iArrayLength S \<le> int (length g) \<longrightarrow>
      (\<exists>S'. su_insert g t u S = Some S' \<and> su_ready S' \<and> sched S' = (sched S)(u \<mapsto> t) \<and> length (su_nodes S') = length (su_nodes S))) \<and>
    getNextProcTime S = Some (if sched S = Map.empty then 0 else Min (ran (sched S))) \<and>
    (sched S = Map.empty \<or> now < Min (ran (sched S)) \<longrightarrow> su_pop now live pkt S = Some (None, S)) \<and>
    (sched S \<noteq> Map.empty \<and> Min (ran (sched S)) \<le> now \<longrightarrow>
      (\<exists>u S'. sched S u = Some (Min (ran (sched S))) \<and> su_ready S' \<and> length (su_nodes S') = length (su_nodes S) \<and>
        su_pop now live pkt S = Some (if live u \<and> fst (pkt u now) > 0 then Some u else None, S') \<and>
        sched S' = (sched S)(u := if live u \<and> fst (pkt u now) > 0 \<and> snd (pkt u now) > 0 then Some (snd (pkt u now)) else None))) \<and>
    (let r = serve su_first (card (scheduled S)) S in
      sorted (map fst r) \<and> distinct (map snd r) \<and> set r = {(t, a). sched S a = Some t})"
proof -
  have i: "su_inv S" "su_ok S" using assms by (simp_all add: su_ready_def su_inv_def)
  have idle: "su_pop now live pkt S = Some (None, S)" if "sched S = Map.empty \<or> now < Min (ran (sched S))"
  proof (cases "su_iLastEntry S = -1")
    case False
    then have ne: "sched S \<noteq> Map.empty" using scheduled_empty [OF i(2)] dom_sched [of S] by auto
    then show ?thesis using that getNextProcTime_min [OF i(1)] root_earliest(4) [OF i(1) False] False
      by (auto simp: su_pop_def getNextProcTime_def)
  qed (simp add: su_pop_def)
  have all: "let r = serve su_first (card (scheduled S)) S in
      sorted (map fst r) \<and> distinct (map snd r) \<and> set r = {(t, a). sched S a = Some t}"
    using snd_schedule.serve_all [OF assms, of "card (scheduled S)"] snd_schedule.serve_sorted [OF assms]
    by (simp add: Let_def dom_sched)
  show ?thesis
    using su_insert_sched [OF assms] getNextProcTime_min [OF i(1)] idle su_pop_sched [OF assms, of now live pkt] all
    by (intro conjI impI) (assumption | blast)+
qed

text \<open>Three sockets; the first is scheduled for time 7, the second for 5.\<close>

theorem sending_schedule_witness:
  "\<exists>g g' S1 S2 S3. su_insert g 7 0 (CSndUList g (replicate 3 \<lparr>n_llTimeStamp = 0, n_iHeapLoc = -1\<rparr>)) = Some S1 \<and>
     su_insert g' 5 1 S1 = Some S2 \<and> getNextProcTime S2 = Some 5 \<and>
     su_pop 6 (\<lambda>_. True) (\<lambda>_ _. (100, 9)) S2 = Some (Some 1, S3) \<and> sched S3 = [0 \<mapsto> 7, 1 \<mapsto> 9]"
proof -
  obtain g :: "nat list" where g: "length g = 4096" by (rule that [OF length_replicate])
  let ?S = "CSndUList g (replicate 3 \<lparr>n_llTimeStamp = 0, n_iHeapLoc = -1\<rparr>)"
  have n: "length (su_nodes ?S) = 3" "su_iArrayLength ?S = 4096" "length (su_pHeap ?S) = 4096" "su_iLastEntry ?S = -1"
    using g by (simp_all add: CSndUList_def)
  have loc: "su_loc ?S a < 0" if "a < 3" for a using that unfolding su_loc_def CSndUList_def by simp
  have e: "sched ?S = Map.empty" using loc n by (force simp: sched_def scheduled_def fun_eq_iff)
  have r: "su_ready ?S" using loc n(1) unfolding su_ready_def su_inv_def su_ok_def su_heap_def n by fastforce
  obtain S0 where S0: "S0 = ?S" by blast
  have f: "su_ready S0" "sched S0 = Map.empty" "length (su_nodes S0) = 3" "su_iArrayLength S0 \<le> int (length g)"
    unfolding S0 using r e n g by simp_all
  from sending_schedule [OF f(1), of 0 g 7, THEN conjunct1] f obtain S1 where
    1: "su_insert g 7 0 S0 = Some S1" "su_ready S1" "sched S1 = [0 \<mapsto> 7]" "length (su_nodes S1) = 3" by auto
  obtain h :: "nat list" where h: "length h = nat (su_iArrayLength S1)" by (rule that [OF length_replicate])
  then have h: "su_iArrayLength S1 \<le> int (length h)" by simp
  from sending_schedule [OF 1(2), of 1 h 5, THEN conjunct1] h 1(3,4) obtain S2 where
    2: "su_insert h 5 1 S1 = Some S2" "su_ready S2" "sched S2 = [0 \<mapsto> 7, 1 \<mapsto> 5]" by auto
  have ran: "ran (sched S2) = {5, 7}" unfolding 2(3) by (auto simp: ran_def split: if_splits)
  have ne: "sched S2 \<noteq> Map.empty" unfolding 2(3) by (rule map_upd_nonempty)
  have m: "Min (ran (sched S2)) = 5" unfolding ran by simp
  note P = sending_schedule [OF 2(2), of 0 "[]" 0 6 "\<lambda>_. True" "\<lambda>_ _. (100, 9)"]
  have p: "getNextProcTime S2 = Some 5" using P [THEN conjunct2, THEN conjunct1] ne m by simp
  have "\<exists>u S3. sched S2 u = Some 5 \<and> su_pop 6 (\<lambda>_. True) (\<lambda>_ _. (100, 9)) S2 = Some (Some u, S3) \<and> sched S3 = (sched S2)(u \<mapsto> 9)"
    using P [THEN conjunct2, THEN conjunct2, THEN conjunct2, THEN conjunct1, unfolded m] ne by auto
  then obtain u S3 where
    3: "sched S2 u = Some 5" "su_pop 6 (\<lambda>_. True) (\<lambda>_ _. (100, 9)) S2 = Some (Some u, S3)" "sched S3 = (sched S2)(u \<mapsto> 9)"
    by blast
  have u: "u = 1" using 3(1) unfolding 2(3) by (auto split: if_splits)
  have "sched S3 = [0 \<mapsto> 7, 1 \<mapsto> 9]" unfolding 3(3) u 2(3) by simp
  then show ?thesis using 1(1) 2(1) p 3(2) unfolding u S0 by blast
qed

subsection \<open>Where the schedule fails\<close>

text \<open>Seven scheduled sockets, and a full schedule of one.\<close>

definition demo_schedule :: snd_ulist where
  "demo_schedule = \<lparr>su_pHeap = [0, 1, 2, 3, 4, 5, 6, 0], su_iArrayLength = 8, su_iLastEntry = 6,
     su_nodes = [\<lparr>n_llTimeStamp = 1, n_iHeapLoc = 0\<rparr>, \<lparr>n_llTimeStamp = 10, n_iHeapLoc = 1\<rparr>, \<lparr>n_llTimeStamp = 2, n_iHeapLoc = 2\<rparr>,
       \<lparr>n_llTimeStamp = 11, n_iHeapLoc = 3\<rparr>, \<lparr>n_llTimeStamp = 12, n_iHeapLoc = 4\<rparr>, \<lparr>n_llTimeStamp = 20, n_iHeapLoc = 5\<rparr>,
       \<lparr>n_llTimeStamp = 4, n_iHeapLoc = 6\<rparr>],
     su_interrupts = 0, su_signals = 0\<rparr>"

definition full_schedule :: snd_ulist where
  "full_schedule = \<lparr>su_pHeap = [0], su_iArrayLength = 1, su_iLastEntry = 0,
     su_nodes = [\<lparr>n_llTimeStamp = 1, n_iHeapLoc = 0\<rparr>, \<lparr>n_llTimeStamp = 0, n_iHeapLoc = -1\<rparr>], su_interrupts = 0, su_signals = 0\<rparr>"

lemma all_less_Suc: "(\<forall>i < Suc n. P i) \<longleftrightarrow> (\<forall>i < n. P i) \<and> P n"
  using less_Suc_eq by auto

lemma demo_schedule_ready: "su_ready demo_schedule"
proof -
  have "su_heap 7 demo_schedule"
    unfolding su_heap_def
  proof (intro allI impI)
    fix i :: nat assume "0 < i \<and> i < 7"
    then have "i = 1 \<or> i = 2 \<or> i = 3 \<or> i = 4 \<or> i = 5 \<or> i = 6" by linarith
    then show "su_key demo_schedule ((i - 1) div 2) \<le> su_key demo_schedule i"
      by (elim disjE) (simp_all add: su_key_def demo_schedule_def)
  qed
  then show ?thesis
    by (simp add: su_ready_def su_inv_def su_ok_def su_loc_def demo_schedule_def eval_nat_numeral all_less_Suc)
qed

lemma full_schedule_ready: "su_ready full_schedule"
  by (simp add: su_ready_def su_inv_def su_ok_def su_heap_def su_loc_def full_schedule_def eval_nat_numeral all_less_Suc)

text \<open>
  C37: Two ways the schedule breaks its contract. \<open>remove_\<close> moves the last node to the place of the removed
  one and only sifts it down: removing the socket with time 11 of \<open>demo_schedule\<close> puts time 4 under time 10, and the
  sockets are then served out of order. And \<open>update\<close> inserts without growing the array as
  \<open>insert\<close> does: for a socket that is not scheduled it writes beyond the end of a full array.
\<close>

theorem schedule_failures:
  "su_ready demo_schedule \<and>
    (map_option (\<lambda>S. map fst (serve su_first 6 S)) (heap_remove 3 demo_schedule) = Some [1, 2, 10, 4, 12, 20]) \<and>
    (su_ready S \<and> su_iLastEntry S = su_iArrayLength S - 1 \<and> u < length (su_nodes S) \<and> sched S u = None \<longrightarrow> su_update u r S = None)"
proof -
  have "su_update u r S = None" if "su_ready S" "su_iLastEntry S = su_iArrayLength S - 1" "u < length (su_nodes S)" "sched S u = None"
  proof -
    have "n_iHeapLoc (su_nodes S ! u) < 0" using that by (auto simp: sched_def scheduled_def su_loc_def split: if_splits)
    moreover have "put_heap (su_iLastEntry S + 1) u T = None" if "su_pHeap T = su_pHeap S" for T
      using that \<open>su_ready S\<close> \<open>su_iLastEntry S = su_iArrayLength S - 1\<close> by (auto simp: put_heap_def wr_def su_ready_def su_inv_def su_ok_def)
    ultimately show ?thesis using that(3) by (simp add: su_update_def heap_insert_def Let_def)
  qed
  moreover have "map_option (\<lambda>S. map fst (serve su_first 6 S)) (heap_remove 3 demo_schedule) = Some [1, 2, 10, 4, 12, 20]"
    by code_simp
  ultimately show ?thesis using demo_schedule_ready by blast
qed

theorem schedule_failures_witness: "su_update 1 True full_schedule = None"
proof -
  have "sched full_schedule 1 = None" by (simp add: sched_def scheduled_def su_loc_def full_schedule_def)
  then show ?thesis using schedule_failures [of full_schedule 1 True] full_schedule_ready by (simp add: full_schedule_def)
qed

end
