(* ===== verification/UdtCC.thy ===== *)
theory UdtCC
  imports Complex_Main UdtPacket
begin

section \<open>UDT: congestion control\<close>

text \<open>
  \<open>CCC\<close> of \<open>udt4/src/ccc.cpp\<close> and \<open>ccc.h\<close>: the state of a congestion control algorithm as a record that a
  derived class extends, and its virtual methods as a record of functions, the class. \<open>double\<close> is
  modelled by \<open>real\<close>: rounding is left out. The performance monitor and \<open>sendCustomMsg\<close> are not part of it.
\<close>

record ccc =
  cc_iSYNInterval :: int
  cc_dPktSndPeriod :: real
  cc_dCWndSize :: real
  cc_iBandwidth :: int
  cc_dMaxCWndSize :: real
  cc_iMSS :: int
  cc_iSndCurrSeqNo :: int
  cc_iRcvRate :: int
  cc_iRTT :: int
  cc_pcParam :: "u8 list option"
  cc_iPSize :: int
  cc_iACKPeriod :: int
  cc_iACKInterval :: int
  cc_bUserDefinedRTO :: bool
  cc_iRTO :: int

definition m_iSYNInterval :: int where
  "m_iSYNInterval = 10000"

definition CCC :: ccc where
  "CCC = \<lparr>cc_iSYNInterval = m_iSYNInterval, cc_dPktSndPeriod = 1, cc_dCWndSize = 16, cc_iBandwidth = 0,
     cc_dMaxCWndSize = 0, cc_iMSS = 0, cc_iSndCurrSeqNo = 0, cc_iRcvRate = 0, cc_iRTT = 0, cc_pcParam = None, cc_iPSize = 0,
     cc_iACKPeriod = 0, cc_iACKInterval = 0, cc_bUserDefinedRTO = False, cc_iRTO = -1\<rparr>"

definition setACKTimer :: "int \<Rightarrow> 'x ccc_scheme \<Rightarrow> 'x ccc_scheme" where
  "setACKTimer msINT C =
     (let C = C\<lparr>cc_iACKPeriod := msINT\<rparr>
      in if cc_iACKPeriod C > cc_iSYNInterval C then C\<lparr>cc_iACKPeriod := cc_iSYNInterval C\<rparr> else C)"

definition setACKInterval :: "int \<Rightarrow> 'x ccc_scheme \<Rightarrow> 'x ccc_scheme" where
  "setACKInterval pktINT C = C\<lparr>cc_iACKInterval := pktINT\<rparr>"

definition setRTO :: "int \<Rightarrow> 'x ccc_scheme \<Rightarrow> 'x ccc_scheme" where
  "setRTO usRTO C = C\<lparr>cc_bUserDefinedRTO := True, cc_iRTO := usRTO\<rparr>"

definition setMSS :: "int \<Rightarrow> 'x ccc_scheme \<Rightarrow> 'x ccc_scheme" where
  "setMSS mss C = C\<lparr>cc_iMSS := mss\<rparr>"

definition setBandwidth :: "int \<Rightarrow> 'x ccc_scheme \<Rightarrow> 'x ccc_scheme" where
  "setBandwidth bw C = C\<lparr>cc_iBandwidth := bw\<rparr>"

definition setSndCurrSeqNo :: "int \<Rightarrow> 'x ccc_scheme \<Rightarrow> 'x ccc_scheme" where
  "setSndCurrSeqNo seqno C = C\<lparr>cc_iSndCurrSeqNo := seqno\<rparr>"

definition setRcvRate :: "int \<Rightarrow> 'x ccc_scheme \<Rightarrow> 'x ccc_scheme" where
  "setRcvRate rcvrate C = C\<lparr>cc_iRcvRate := rcvrate\<rparr>"

definition setMaxCWndSize :: "int \<Rightarrow> 'x ccc_scheme \<Rightarrow> 'x ccc_scheme" where
  "setMaxCWndSize cwnd C = C\<lparr>cc_dMaxCWndSize := of_int cwnd\<rparr>"

definition setRTT :: "int \<Rightarrow> 'x ccc_scheme \<Rightarrow> 'x ccc_scheme" where
  "setRTT rtt C = C\<lparr>cc_iRTT := rtt\<rparr>"

text \<open>A \<open>size\<close> beyond the memory of the parameter: \<open>None\<close>.\<close>

definition setUserParam :: "u8 list \<Rightarrow> int \<Rightarrow> 'x ccc_scheme \<Rightarrow> 'x ccc_scheme option" where
  "setUserParam param siz C = do { p \<leftarrow> slice param 0 siz; Some (C\<lparr>cc_pcParam := Some p, cc_iPSize := siz\<rparr>) }"

text \<open>
  The virtual methods. Each takes the reading of the clock that it may use, and \<open>onLoss\<close> the loss report
  and its length.
\<close>

record 'c cc_class =
  cv_init :: "u64 \<Rightarrow> 'c \<Rightarrow> 'c"
  cv_onACK :: "u64 \<Rightarrow> int \<Rightarrow> 'c \<Rightarrow> 'c"
  cv_onLoss :: "u64 \<Rightarrow> int list \<Rightarrow> int \<Rightarrow> 'c \<Rightarrow> 'c"
  cv_onTimeout :: "u64 \<Rightarrow> 'c \<Rightarrow> 'c"
  cv_onPktSent :: "u64 \<Rightarrow> cpacket \<Rightarrow> 'c \<Rightarrow> 'c"
  cv_onPktReceived :: "u64 \<Rightarrow> cpacket \<Rightarrow> 'c \<Rightarrow> 'c"
  cv_processCustomMsg :: "u64 \<Rightarrow> cpacket \<Rightarrow> 'c \<Rightarrow> 'c"

text \<open>\<open>(uint64_t)x\<close> and \<open>(int)x\<close> of a \<open>double\<close>.\<close>

definition u64_of_real :: "real \<Rightarrow> u64" where
  "u64_of_real x = word_of_int \<lfloor>x\<rfloor>"

definition int_of_real :: "real \<Rightarrow> int" where
  "int_of_real x = (if x \<ge> 0 then \<lfloor>x\<rfloor> else \<lceil>x\<rceil>)"

end
