(* ===== verification/UdtAddr.thy ===== *)
theory UdtAddr
  imports UdtPacket "HOL-Library.Monad_Syntax"
begin

section \<open>UDT: network addresses\<close>

text \<open>
  \<open>CIPAddress\<close> of \<open>udt4/src/common.cpp\<close>. An address has the structure that its family says; an operation told
  another family than the address has reads the wrong structure: \<open>None\<close>. The bytes of an IPv6 address are a
  list of 16, the IPv4 address is the word in memory.
\<close>

datatype sockaddr = sockaddr_in (sin_port: "16 word") u32 | sockaddr_in6 (sin6_port: "16 word") "u8 list"

definition AF_INET :: int where
  "AF_INET = 2"

fun ipcmp :: "sockaddr \<Rightarrow> sockaddr \<Rightarrow> int \<Rightarrow> bool option" where
  "ipcmp (sockaddr_in p1 a1) (sockaddr_in p2 a2) ver = (if ver = AF_INET then Some (p1 = p2 \<and> a1 = a2) else None)"
| "ipcmp (sockaddr_in6 p1 b1) (sockaddr_in6 p2 b2) ver = (if ver = AF_INET then None else Some (p1 = p2 \<and> b1 = b2))"
| "ipcmp _ _ _ = None"

text \<open>The words of an address, the first byte lowest, and back.\<close>

definition word_of_bytes :: "u8 list \<Rightarrow> nat \<Rightarrow> u32" where
  "word_of_bytes b i =
     push_bit 24 (ucast (b ! (4 * i + 3))) + push_bit 16 (ucast (b ! (4 * i + 2))) + push_bit 8 (ucast (b ! (4 * i + 1))) + ucast (b ! (4 * i))"

definition bytes_of_word :: "u32 \<Rightarrow> u8 list" where
  "bytes_of_word w =
     [ucast (w AND 0xFF), ucast (drop_bit 8 (w AND 0xFF00)), ucast (drop_bit 16 (w AND 0xFF0000)), ucast (drop_bit 24 (w AND 0xFF000000))]"

text \<open>\<open>ntop\<close> sets the first word for IPv4, and all four for IPv6.\<close>

fun ntop :: "sockaddr \<Rightarrow> u32 list \<Rightarrow> int \<Rightarrow> u32 list option" where
  "ntop (sockaddr_in p a) ip ver = (if ver = AF_INET then Some (ip[0 := a]) else None)"
| "ntop (sockaddr_in6 p b) ip ver = (if ver = AF_INET then None else Some (map (word_of_bytes b) [0..<4]))"

fun pton :: "sockaddr \<Rightarrow> u32 list \<Rightarrow> int \<Rightarrow> sockaddr option" where
  "pton (sockaddr_in p a) ip ver = (if ver = AF_INET then Some (sockaddr_in p (ip ! 0)) else None)"
| "pton (sockaddr_in6 p b) ip ver = (if ver = AF_INET then None else Some (sockaddr_in6 p (concat (map bytes_of_word (take 4 ip)))))"

subsection \<open>Round trip\<close>

lemma byte_masks:
  fixes w :: u32
  shows "ucast (w AND 0xFF) = (ucast w :: u8)" "ucast (drop_bit 8 (w AND 0xFF00)) = (ucast (drop_bit 8 w) :: u8)"
    "ucast (drop_bit 16 (w AND 0xFF0000)) = (ucast (drop_bit 16 w) :: u8)" "ucast (drop_bit 24 (w AND 0xFF000000)) = (ucast (drop_bit 24 w) :: u8)"
proof -
  have m: "(0xFF :: u32) = mask 8" "(0xFF00 :: u32) = push_bit 8 (mask 8)" "(0xFF0000 :: u32) = push_bit 16 (mask 8)"
    "(0xFF000000 :: u32) = push_bit 24 (mask 8)"
    by (simp_all add: mask_eq_exp_minus_1 push_bit_eq_mult)
  show "ucast (w AND 0xFF) = (ucast w :: u8)" "ucast (drop_bit 8 (w AND 0xFF00)) = (ucast (drop_bit 8 w) :: u8)"
    "ucast (drop_bit 16 (w AND 0xFF0000)) = (ucast (drop_bit 16 w) :: u8)" "ucast (drop_bit 24 (w AND 0xFF000000)) = (ucast (drop_bit 24 w) :: u8)"
    unfolding m by (rule bit_word_eqI; auto simp: bit_simps)+
qed

lemma word_or:
  "push_bit 24 (ucast (b3 :: u8)) + push_bit 16 (ucast (b2 :: u8)) + push_bit 8 (ucast (b1 :: u8)) + ucast (b0 :: u8) =
   (push_bit 24 (ucast b3) OR push_bit 16 (ucast b2) OR push_bit 8 (ucast b1) OR ucast b0 :: u32)"
  by (subst disjunctive_add_eq_or, rule bit_word_eqI, simp add: bit_simps, (auto dest: bit_imp_le_length)[1])+ (simp add: or.assoc)

lemma ucast_word_or:
  fixes b0 b1 b2 b3 :: u8
  defines "w \<equiv> (push_bit 24 (ucast b3) OR push_bit 16 (ucast b2) OR push_bit 8 (ucast b1) OR ucast b0 :: u32)"
  shows "ucast w = b0" "ucast (drop_bit 8 w) = b1" "ucast (drop_bit 16 w) = b2" "ucast (drop_bit 24 w) = b3"
  unfolding w_def by (rule bit_word_eqI; auto simp: bit_simps dest: bit_imp_le_length)+

lemma bytes_of_word_of_bytes:
  "bytes_of_word (push_bit 24 (ucast b3) + push_bit 16 (ucast b2) + push_bit 8 (ucast b1) + ucast b0) = [b0, b1, b2, b3]"
  unfolding bytes_of_word_def byte_masks word_or ucast_word_or ..

lemma length16:
  assumes "length b = 16"
  shows "\<exists>x0 x1 x2 x3 x4 x5 x6 x7 x8 x9 x10 x11 x12 x13 x14 x15. b = [x0, x1, x2, x3, x4, x5, x6, x7, x8, x9, x10, x11, x12, x13, x14, x15]"
  using assms by (auto simp: length_Suc_conv numeral_eq_Suc)

lemma pton_ntop:
  "ntop (sockaddr_in p a) ip AF_INET = Some ip' \<Longrightarrow> ip \<noteq> [] \<Longrightarrow> pton (sockaddr_in p c) ip' AF_INET = Some (sockaddr_in p a)"
  "ver \<noteq> AF_INET \<Longrightarrow> length b = 16 \<Longrightarrow> ntop (sockaddr_in6 p b) ip ver = Some ip' \<Longrightarrow> pton (sockaddr_in6 p d) ip' ver = Some (sockaddr_in6 p b)"
proof -
  show "ntop (sockaddr_in p a) ip AF_INET = Some ip' \<Longrightarrow> ip \<noteq> [] \<Longrightarrow> pton (sockaddr_in p c) ip' AF_INET = Some (sockaddr_in p a)"
    by (cases ip) auto
  assume "length b = 16" "ver \<noteq> AF_INET" "ntop (sockaddr_in6 p b) ip ver = Some ip'"
  then show "pton (sockaddr_in6 p d) ip' ver = Some (sockaddr_in6 p b)"
    using length16 [of b] by (auto simp: word_of_bytes_def bytes_of_word_of_bytes upt_rec)
qed

end
