(* ===== verification/UdtCore.thy ===== *)
theory UdtCore
  imports UdtCC UdtNak UdtWindow UdtSndBuffer UdtRcvBuffer UdtAddr
begin

section \<open>UDT: the state of a connected socket\<close>

text \<open>
  The part of \<open>CUDT\<close> (\<open>udt4/src/core.cpp\<close>, \<open>udt4/include/udt/core.h\<close>) that sets up connections and
  generates and processes packets. The state is one record for each section of the class. What a method does to other objects is the list
  \<open>u_events\<close>, in the order of the calls: packets given to the sending queue, wake-ups of the epoll sets and
  of waiting threads, updates of the sending schedule. A reading of a clock is a function of the number of
  readings before it (\<open>u_ticks\<close>). \<open>int\<close> counters and the round-trip estimates are unbounded. The
  mutexes are left out: \<open>m_AckLock\<close> makes the bodies it protects atomic, and each handler is one step.
\<close>

datatype uevent =
  SendTo cpacket
| EnableRead int "int set"
| EnableWrite int "int set"
| DisableRead int "int set"
| DisableWrite int "int set"
| SndListUpdate bool
| SignalRecv
| SignalSend
| ReleaseSynch
| TriggerEvent
| SendAddr sockaddr cpacket
| InitNodes
| SetListener
| RemoveListener
| RegisterConnector int sockaddr u64
| RemoveConnector int
| NewEntry
| ConnectComplete int
| SndListRemove
| RemoveUsock int int
| CacheUpdate "u32 list" int int int

text \<open>The clocks, the rounding of \<open>getBandwidth\<close>, and the CPU frequency.\<close>

record env =
  e_tsc :: "nat \<Rightarrow> u64"
  e_time :: "nat \<Rightarrow> u64"
  e_ceil_quot :: "int \<Rightarrow> int \<Rightarrow> int"

record udt_snd =
  s_pSndBuffer :: snd_buffer
  s_pSndLossList :: snd_loss
  s_ullInterval :: u64
  s_ullTimeDiff :: u64
  s_iFlowWindowSize :: int
  s_dCongestionWindow :: real
  s_iSndLastAck :: int
  s_iSndLastDataAck :: int
  s_iSndCurrSeqNo :: int
  s_iLastDecSeq :: int
  s_iSndLastAck2 :: int
  s_ullSndLastAck2Time :: u64
  s_iISN :: int

record udt_rcv =
  v_pRcvBuffer :: rcv_buffer
  v_pRcvLossList :: rcv_loss
  v_pACKWindow :: ack_window
  v_pRcvTimeWindow :: time_window
  v_iRcvLastAck :: int
  v_ullLastAckTime :: u64
  v_iRcvLastAckAck :: int
  v_iAckSeqNo :: int
  v_iRcvCurrSeqNo :: int
  v_ullLastWarningTime :: u64

record udt_trace =
  t_StartTime :: u64
  t_llSentTotal :: int
  t_llRecvTotal :: int
  t_iSndLossTotal :: int
  t_iRcvLossTotal :: int
  t_iRetransTotal :: int
  t_iSentACKTotal :: int
  t_iRecvACKTotal :: int
  t_iSentNAKTotal :: int
  t_iRecvNAKTotal :: int
  t_llSndDurationTotal :: u64
  t_LastSampleTime :: u64
  t_llTraceSent :: int
  t_llTraceRecv :: int
  t_iTraceSndLoss :: int
  t_iTraceRcvLoss :: int
  t_iTraceRetrans :: int
  t_iSentACK :: int
  t_iRecvACK :: int
  t_iSentNAK :: int
  t_iRecvNAK :: int
  t_llSndDuration :: u64
  t_llSndDurationCounter :: u64

record udt_timers =
  m_ullCPUFrequency :: u64
  m_ullNextACKTime :: u64
  m_ullNextNAKTime :: u64
  m_ullSYNInt :: u64
  m_ullACKInt :: u64
  m_ullNAKInt :: u64
  m_ullLastRspTime :: u64
  m_ullMinNakInt :: u64
  m_ullMinExpInt :: u64
  m_iPktCount :: int
  m_iLightACKCount :: int
  m_ullTargetTime :: u64

text \<open>
  Identification, sizes, options and status; then the sections above. \<open>u_bAllocated\<close> says that the buffers and
  lists of the sections exist: they are allocated together. The factory of a congestion control is the object it creates.
\<close>

record 'c cudt =
  u_SocketID :: int
  u_bStream :: bool
  u_PeerID :: int
  u_iPktSize :: int
  u_iPayloadSize :: int
  u_iMSS :: int
  u_bSynSending :: bool
  u_bSynRecving :: bool
  u_iFlightFlagSize :: int
  u_iSndBufSize :: int
  u_iRcvBufSize :: int
  u_Linger :: "int \<times> int"
  u_iUDPSndBufSize :: int
  u_iUDPRcvBufSize :: int
  u_iIPversion :: int
  u_bRendezvous :: bool
  u_iSndTimeOut :: int
  u_iRcvTimeOut :: int
  u_bReuseAddr :: bool
  u_llMaxBW :: int
  u_pCCFactory :: 'c
  u_pCC :: 'c
  u_bListening :: bool
  u_bConnecting :: bool
  u_bConnected :: bool
  u_bClosing :: bool
  u_bShutdown :: bool
  u_bBroken :: bool
  u_bPeerHealth :: bool
  u_bOpened :: bool
  u_iBrokenCounter :: int
  u_iEXPCount :: int
  u_iBandwidth :: int
  u_iRTT :: int
  u_iRTTVar :: int
  u_iDeliveryRate :: int
  u_ullLingerExpiration :: u64
  u_ConnReq :: chandshake
  u_ConnRes :: chandshake
  u_llLastReqTime :: u64
  u_iPeerISN :: int
  u_piSelfIP :: "u32 list"
  u_pPeerAddr :: "sockaddr option"
  u_sPollID :: "int set"
  u_bAllocated :: bool
  u_snd :: udt_snd
  u_rcv :: udt_rcv
  u_trace :: udt_trace
  u_timers :: udt_timers
  u_events :: "uevent list"
  u_ticks :: nat

type_synonym 'x sock = "'x ccc_scheme cudt"
type_synonym 'x cclass = "'x ccc_scheme cc_class"

text \<open>Updates of one section, and the calls that leave the object.\<close>

abbreviation (input) on_snd :: "(udt_snd \<Rightarrow> udt_snd) \<Rightarrow> 'c cudt \<Rightarrow> 'c cudt" where
  "on_snd f U \<equiv> U\<lparr>u_snd := f (u_snd U)\<rparr>"

abbreviation (input) on_rcv :: "(udt_rcv \<Rightarrow> udt_rcv) \<Rightarrow> 'c cudt \<Rightarrow> 'c cudt" where
  "on_rcv f U \<equiv> U\<lparr>u_rcv := f (u_rcv U)\<rparr>"

abbreviation (input) on_trace :: "(udt_trace \<Rightarrow> udt_trace) \<Rightarrow> 'c cudt \<Rightarrow> 'c cudt" where
  "on_trace f U \<equiv> U\<lparr>u_trace := f (u_trace U)\<rparr>"

abbreviation (input) on_timers :: "(udt_timers \<Rightarrow> udt_timers) \<Rightarrow> 'c cudt \<Rightarrow> 'c cudt" where
  "on_timers f U \<equiv> U\<lparr>u_timers := f (u_timers U)\<rparr>"

abbreviation (input) on_cc :: "('c \<Rightarrow> 'c) \<Rightarrow> 'c cudt \<Rightarrow> 'c cudt" where
  "on_cc f U \<equiv> U\<lparr>u_pCC := f (u_pCC U)\<rparr>"

definition emit :: "uevent \<Rightarrow> 'c cudt \<Rightarrow> 'c cudt" where
  "emit e U = U\<lparr>u_events := u_events U @ [e]\<rparr>"

definition rdtsc :: "env \<Rightarrow> 'c cudt \<Rightarrow> u64 \<times> 'c cudt" where
  "rdtsc E U = (e_tsc E (u_ticks U), U\<lparr>u_ticks := u_ticks U + 1\<rparr>)"

definition getTime :: "env \<Rightarrow> 'c cudt \<Rightarrow> u64 \<times> 'c cudt" where
  "getTime E U = (e_time E (u_ticks U), U\<lparr>u_ticks := u_ticks U + 1\<rparr>)"

text \<open>\<open>ctrlpkt.m_iID = m_PeerID; m_pSndQueue->sendto(m_pPeerAddr, ctrlpkt);\<close>\<close>

definition send_peer :: "cpacket \<Rightarrow> 'c cudt \<Rightarrow> 'c cudt" where
  "send_peer p U = emit (SendTo (set_hdr 3 (u_PeerID U) p)) U"

text \<open>The parameters that the congestion control sets.\<close>

definition update_CC :: "'x sock \<Rightarrow> 'x sock" where
  "update_CC U =
     (let U = on_snd (s_ullInterval_update (\<lambda>_. u64_of_real (cc_dPktSndPeriod (u_pCC U) * of_int (uint (m_ullCPUFrequency (u_timers U)))))) U
      in on_snd (s_dCongestionWindow_update (\<lambda>_. cc_dCWndSize (u_pCC U))) U)"

definition int_u64 :: "int \<Rightarrow> u64" where
  "int_u64 x = word_of_int x"

section \<open>UDT: sending control packets\<close>

text \<open>The number up to which everything has been received.\<close>

definition next_ack :: "'c cudt \<Rightarrow> int option" where
  "next_ack U =
     (if rcv_getLossLength (v_pRcvLossList (u_rcv U)) = 0 then Some (incseq (v_iRcvCurrSeqNo (u_rcv U)))
      else getFirstLostSeq (v_pRcvLossList (u_rcv U)))"

text \<open>The last part of case 2: the full acknowledgement. At most once in an interval it carries the estimates.\<close>

definition ack_body :: "env \<Rightarrow> u64 \<Rightarrow> 'c cudt \<Rightarrow> (cpacket \<times> 'c cudt) option" where
  "ack_body E currtime U =
     do { let U = on_rcv (\<lambda>v. v\<lparr>v_iAckSeqNo := incack (v_iAckSeqNo v)\<rparr>) U;
          let avail = getAvailBufSize (v_pRcvBuffer (u_rcv U));
          let avail = (if avail < 2 then 2 else avail);
          let data = [v_iRcvLastAck (u_rcv U), u_iRTT U, u_iRTTVar U, avail];
          if currtime - v_ullLastAckTime (u_rcv U) > m_ullSYNInt (u_timers U) then do {
            speed \<leftarrow> getPktRcvSpeed (v_pRcvTimeWindow (u_rcv U));
            bw \<leftarrow> getBandwidth (e_ceil_quot E) (v_pRcvTimeWindow (u_rcv U));
            p \<leftarrow> pack 2 (Some (v_iAckSeqNo (u_rcv U))) (Some (Words (data @ [speed, bw]))) 24 CPacket;
            let (t, U) = rdtsc E U;
            Some (p, on_rcv (v_ullLastAckTime_update (\<lambda>_. t)) U) }
          else do {
            p \<leftarrow> pack 2 (Some (v_iAckSeqNo (u_rcv U))) (Some (Words data)) 16 CPacket;
            Some (p, U) } }"

definition send_full_ack :: "env \<Rightarrow> u64 \<Rightarrow> 'c cudt \<Rightarrow> 'c cudt option" where
  "send_full_ack E currtime U =
     (if seqcmp (v_iRcvLastAck (u_rcv U)) (v_iRcvLastAckAck (u_rcv U)) > 0 then do {
        (p, U) \<leftarrow> ack_body E currtime U;
        let U = send_peer p U;
        let (t, U) = getTime E U;
        W \<leftarrow> aw_store t (v_iAckSeqNo (u_rcv U)) (v_iRcvLastAck (u_rcv U)) (v_pACKWindow (u_rcv U));
        let U = on_rcv (v_pACKWindow_update (\<lambda>_. W)) U;
        Some (on_trace (\<lambda>t. t\<lparr>t_iSentACK := t_iSentACK t + 1, t_iSentACKTotal := t_iSentACKTotal t + 1\<rparr>) U) }
      else Some U)"

text \<open>Case 2; a size of 4 asks for a light acknowledgement.\<close>

definition send_ack :: "env \<Rightarrow> int \<Rightarrow> 'c cudt \<Rightarrow> 'c cudt option" where
  "send_ack E siz U =
     do { ack \<leftarrow> next_ack U;
          if ack = v_iRcvLastAckAck (u_rcv U) then Some U
          else if siz = 4 then do {
            p \<leftarrow> pack 2 None (Some (Words [ack])) 4 CPacket;
            Some (send_peer p U) }
          else do {
            let (currtime, U) = rdtsc E U;
            if seqcmp ack (v_iRcvLastAck (u_rcv U)) > 0 then do {
              let acksize = seqoff (v_iRcvLastAck (u_rcv U)) ack;
              let U = on_rcv (v_iRcvLastAck_update (\<lambda>_. ack)) U;
              let U = on_rcv (v_pRcvBuffer_update (rb_ackData acksize)) U;
              let U = (if u_bSynRecving U then emit SignalRecv U else U);
              let U = emit (EnableRead (u_SocketID U) (u_sPollID U)) U;
              send_full_ack E currtime U }
            else if ack = v_iRcvLastAck (u_rcv U) then
              if currtime - v_ullLastAckTime (u_rcv U) < int_u64 (i32 (u_iRTT U + 4 * u_iRTTVar U)) * m_ullCPUFrequency (u_timers U)
              then Some U
              else send_full_ack E currtime U
            else Some U } }"

definition sent_nak :: "'c cudt \<Rightarrow> 'c cudt" where
  "sent_nak U = on_trace (\<lambda>t. t\<lparr>t_iSentNAK := t_iSentNAK t + 1, t_iSentNAKTotal := t_iSentNAKTotal t + 1\<rparr>) U"

definition payload_words :: "payload option \<Rightarrow> int list" where
  "payload_words r = (case r of Some (Words ws) \<Rightarrow> ws | _ \<Rightarrow> [])"

text \<open>Case 3: a report of the two values of \<open>rparam\<close>, or of the whole loss list.\<close>

definition send_nak :: "env \<Rightarrow> payload option \<Rightarrow> int \<Rightarrow> 'c cudt \<Rightarrow> 'c cudt option" where
  "send_nak E rparam siz U =
     do { U \<leftarrow>
            (if rparam \<noteq> None then do {
               p \<leftarrow> (if siz = 1 then pack 3 None (Some (Words (drop 1 (payload_words rparam)))) 4 CPacket
                     else pack 3 None rparam 8 CPacket);
               Some (sent_nak (send_peer p U)) }
             else if rcv_getLossLength (v_pRcvLossList (u_rcv U)) > 0 then do {
               data \<leftarrow> getLossArray (cdiv (u_iPayloadSize U) 4) (v_pRcvLossList (u_rcv U));
               if 0 < length data then do {
                 p \<leftarrow> pack 3 None (Some (Words data)) (int (length data) * 4) CPacket;
                 Some (sent_nak (send_peer p U)) }
               else Some U }
             else Some U);
          let U = on_timers (m_ullNAKInt_update (\<lambda>_. int_u64 (i32 (u_iRTT U + 4 * u_iRTTVar U)) * m_ullCPUFrequency (u_timers U))) U;
          speed \<leftarrow> getPktRcvSpeed (v_pRcvTimeWindow (u_rcv U));
          let U = (if speed > 0
                   then on_timers (\<lambda>t. t\<lparr>m_ullNAKInt := m_ullNAKInt t +
                     (int_u64 (rcv_getLossLength (v_pRcvLossList (u_rcv U))) * 1000000 div int_u64 speed) * m_ullCPUFrequency t\<rparr>) U
                   else U);
          Some (on_timers (\<lambda>t. if m_ullNAKInt t < m_ullMinNakInt t then t\<lparr>m_ullNAKInt := m_ullMinNakInt t\<rparr> else t) U) }"

definition sendCtrl :: "env \<Rightarrow> int \<Rightarrow> int option \<Rightarrow> payload option \<Rightarrow> int \<Rightarrow> 'c cudt \<Rightarrow> 'c cudt option" where
  "sendCtrl E pkttype lparam rparam siz U =
     (if pkttype = 2 then send_ack E siz U
      else if pkttype = 6 then do { p \<leftarrow> pack 6 lparam None 0 CPacket; Some (send_peer p U) }
      else if pkttype = 3 then send_nak E rparam siz U
      else if pkttype = 4 then do {
        p \<leftarrow> pack 4 None None 0 CPacket;
        let U = send_peer p U;
        let (t, U) = rdtsc E U;
        Some (on_rcv (v_ullLastWarningTime_update (\<lambda>_. t)) U) }
      else if pkttype = 1 then do { p \<leftarrow> pack 1 None None 0 CPacket; Some (send_peer p U) }
      else if pkttype = 0 then do { p \<leftarrow> pack 0 None rparam hs_contentSize CPacket; Some (send_peer p U) }
      else if pkttype = 5 then do { p \<leftarrow> pack 5 None None 0 CPacket; Some (send_peer p U) }
      else if pkttype = 7 then do { p \<leftarrow> pack 7 lparam rparam 8 CPacket; Some (send_peer p U) }
      else if pkttype = 8 then do { p \<leftarrow> pack 8 lparam None 0 CPacket; Some (send_peer p U) }
      else Some U)"

end
