(* ===== verification/UdtError.thy ===== *)
theory UdtError
  imports Main
begin

section \<open>UDT: errors\<close>

text \<open>
  \<open>CUDTException\<close> of \<open>udt4/src/common.cpp\<close>: the two numbers of an error, its code and its text. A method that throws
  returns a sum, \<open>Inl\<close> the exception. The \<open>errno\<close> that an exception records is an argument of the text.
\<close>

datatype uexn = CUDTException (x_major: int) (x_minor: int)

type_synonym 'a ures = "uexn + 'a"

definition getErrorCode :: "uexn \<Rightarrow> int" where
  "getErrorCode e = x_major e * 1000 + x_minor e"

definition sub_text :: "(int \<times> string) list \<Rightarrow> int \<Rightarrow> string" where
  "sub_text ms minor = (case map_of ms minor of Some s \<Rightarrow> s | None \<Rightarrow> [])"

text \<open>The text that the numbers stand for; \<open>old\<close> is the text left from an earlier call.\<close>

definition error_text :: "string \<Rightarrow> int \<Rightarrow> int \<Rightarrow> string" where
  "error_text old major minor =
     (if major = 0 then ''Success''
      else if major = 1 then ''Connection setup failure'' @ sub_text
        [(1, '': connection time out''), (2, '': connection rejected''), (3, '': unable to create/configure UDP socket''),
         (4, '': abort for security reasons'')] minor
      else if major = 2 then
        (if minor = 1 then ''Connection was broken'' else if minor = 2 then ''Connection does not exist'' else old)
      else if major = 3 then ''System resource failure'' @ sub_text
        [(1, '': unable to create new threads''), (2, '': unable to allocate buffers'')] minor
      else if major = 4 then ''File system failure'' @ sub_text
        [(1, '': cannot seek read position''), (2, '': failure in read''), (3, '': cannot seek write position''), (4, '': failure in write'')] minor
      else if major = 5 then ''Operation not supported'' @ sub_text
        [(1, '': Cannot do this operation on a BOUND socket''), (2, '': Cannot do this operation on a CONNECTED socket''),
         (3, '': Bad parameters''), (4, '': Invalid socket ID''), (5, '': Cannot do this operation on an UNBOUND socket''),
         (6, '': Socket is not in listening state''), (7, '': Listen/accept is not supported in rendezous connection setup''),
         (8, '': Cannot call connect on UNBOUND socket in rendezvous connection setup''),
         (9, '': This operation is not supported in SOCK_STREAM mode''), (10, '': This operation is not supported in SOCK_DGRAM mode''),
         (11, '': Another socket is already listening on the same port''),
         (12, '': Message is too large to send (it must be less than the UDT send buffer size)''), (13, '': Invalid epoll ID'')] minor
      else if major = 6 then ''Non-blocking call failure'' @ sub_text
        [(1, '': no buffer available for sending''), (2, '': no data available for reading'')] minor
      else if major = 7 then ''The peer side has signalled an error''
      else ''Unknown error'')"

text \<open>The text of the system is added, where there is one, and a full stop. \<open>strerror\<close> is the library's.\<close>

definition getErrorMessage :: "(int \<Rightarrow> string option) \<Rightarrow> string \<Rightarrow> int \<Rightarrow> uexn \<Rightarrow> string" where
  "getErrorMessage strerror old err e =
     error_text old (x_major e) (x_minor e) @
     (if x_major e \<noteq> 0 \<and> 0 < err then '': '' @ (case strerror err of Some s \<Rightarrow> s | None \<Rightarrow> []) else []) @ ''.''"

definition clear :: "uexn \<Rightarrow> uexn" where
  "clear e = CUDTException 0 0"

text \<open>The codes that the interface names.\<close>

definition error_codes :: "(string \<times> int) list" where
  "error_codes = [
   (''SUCCESS'', 0), (''ECONNSETUP'', 1000), (''ENOSERVER'', 1001), (''ECONNREJ'', 1002), (''ESOCKFAIL'', 1003), (''ESECFAIL'', 1004),
   (''ECONNFAIL'', 2000), (''ECONNLOST'', 2001), (''ENOCONN'', 2002), (''ERESOURCE'', 3000), (''ETHREAD'', 3001), (''ENOBUF'', 3002),
   (''EFILE'', 4000), (''EINVRDOFF'', 4001), (''ERDPERM'', 4002), (''EINVWROFF'', 4003), (''EWRPERM'', 4004), (''EINVOP'', 5000),
   (''EBOUNDSOCK'', 5001), (''ECONNSOCK'', 5002), (''EINVPARAM'', 5003), (''EINVSOCK'', 5004), (''EUNBOUNDSOCK'', 5005), (''ENOLISTEN'', 5006),
   (''ERDVNOSERV'', 5007), (''ERDVUNBOUND'', 5008), (''ESTREAMILL'', 5009), (''EDGRAMILL'', 5010), (''EDUPLISTEN'', 5011), (''ELARGEMSG'', 5012),
   (''EINVPOLLID'', 5013), (''EASYNCFAIL'', 6000), (''EASYNCSND'', 6001), (''EASYNCRCV'', 6002), (''EPEERERR'', 7000), (''EUNKNOWN'', -1)]"

definition EFILE :: int where
  "EFILE = 4000"

end
