(* ===== verification/UdtOptions.thy ===== *)
theory UdtOptions
  imports UdtCore UdtError
begin

section \<open>UDT: creating a socket, its options\<close>

text \<open>
  The constructors of \<open>CUDT\<close>, \<open>setOpt\<close> and \<open>getOpt\<close> (\<open>udt4/src/core.cpp\<close>). What a constructor does not set is
  left as it was in memory. An option value is tagged with the type that the pointer is read as.
\<close>

datatype UDTOpt =
  UDT_MSS | UDT_SNDSYN | UDT_RCVSYN | UDT_CC | UDT_FC | UDT_SNDBUF | UDT_RCVBUF | UDT_LINGER | UDP_SNDBUF | UDP_RCVBUF
| UDT_MAXMSG | UDT_MSGTTL | UDT_RENDEZVOUS | UDT_SNDTIMEO | UDT_RCVTIMEO | UDT_REUSEADDR | UDT_MAXBW | UDT_STATE | UDT_EVENT
| UDT_SNDDATA | UDT_RCVDATA

datatype 'c optval = OInt int | OBool bool | OLinger int int | OInt64 int | OCC 'c

subsection \<open>Creation\<close>

definition initial_status :: "'c cudt \<Rightarrow> 'c cudt" where
  "initial_status U = U\<lparr>u_bOpened := False, u_bListening := False, u_bConnecting := False, u_bConnected := False, u_bClosing := False,
     u_bShutdown := False, u_bBroken := False, u_bPeerHealth := True, u_ullLingerExpiration := 0\<rparr>"

definition CUDT :: "'c \<Rightarrow> 'c cudt \<Rightarrow> 'c cudt" where
  "CUDT cudtcc U =
     (let U = U\<lparr>u_bAllocated := False\<rparr>;
          U = U\<lparr>u_iMSS := 1500, u_bSynSending := True, u_bSynRecving := True, u_iFlightFlagSize := 25600, u_iSndBufSize := 8192,
            u_iRcvBufSize := 8192, u_Linger := (1, 180), u_iUDPSndBufSize := 65536\<rparr>;
          U = U\<lparr>u_iUDPRcvBufSize := u_iRcvBufSize U * u_iMSS U\<rparr>;
          U = U\<lparr>u_bStream := True, u_iIPversion := 2, u_bRendezvous := False, u_iSndTimeOut := -1, u_iRcvTimeOut := -1, u_bReuseAddr := True,
            u_llMaxBW := -1, u_pCCFactory := cudtcc\<rparr>
      in initial_status U)"

text \<open>A socket with the options of a listening one.\<close>

definition CUDT_copy :: "'c cudt \<Rightarrow> 'c cudt \<Rightarrow> 'c cudt" where
  "CUDT_copy A U =
     (let U = U\<lparr>u_bAllocated := False\<rparr>;
          U = U\<lparr>u_iMSS := u_iMSS A, u_bSynSending := u_bSynSending A, u_bSynRecving := u_bSynRecving A, u_iFlightFlagSize := u_iFlightFlagSize A,
            u_iSndBufSize := u_iSndBufSize A, u_iRcvBufSize := u_iRcvBufSize A, u_Linger := u_Linger A, u_iUDPSndBufSize := u_iUDPSndBufSize A,
            u_iUDPRcvBufSize := u_iUDPRcvBufSize A, u_bStream := u_bStream A, u_iIPversion := u_iIPversion A, u_bRendezvous := u_bRendezvous A,
            u_iSndTimeOut := u_iSndTimeOut A, u_iRcvTimeOut := u_iRcvTimeOut A, u_bReuseAddr := True, u_llMaxBW := u_llMaxBW A,
            u_pCCFactory := u_pCCFactory A\<rparr>
      in initial_status U)"

subsection \<open>Options\<close>

text \<open>One definition for each option; \<open>None\<close> is a value of another type.\<close>

definition set_mss :: "int \<Rightarrow> 'c cudt \<Rightarrow> 'c cudt ures" where
  "set_mss v U =
     (if u_bOpened U then Inl (CUDTException 5 1)
      else if v < 28 + hs_contentSize then Inl (CUDTException 5 3)
      else (let U = U\<lparr>u_iMSS := v\<rparr>;
                U = (if u_iMSS U > u_iUDPSndBufSize U then U\<lparr>u_iMSS := u_iUDPSndBufSize U\<rparr> else U)
            in Inr (if u_iMSS U > u_iUDPRcvBufSize U then U\<lparr>u_iMSS := u_iUDPRcvBufSize U\<rparr> else U)))"

definition set_fc :: "int \<Rightarrow> 'c cudt \<Rightarrow> 'c cudt ures" where
  "set_fc v U =
     (if u_bConnecting U \<or> u_bConnected U then Inl (CUDTException 5 2)
      else if v < 1 then Inl (CUDTException 5 3)
      else Inr (if v > 32 then U\<lparr>u_iFlightFlagSize := v\<rparr> else U\<lparr>u_iFlightFlagSize := 32\<rparr>))"

definition set_sndbuf :: "int \<Rightarrow> 'c cudt \<Rightarrow> 'c cudt ures" where
  "set_sndbuf v U =
     (if u_bOpened U then Inl (CUDTException 5 1)
      else if v \<le> 0 then Inl (CUDTException 5 3)
      else Inr (U\<lparr>u_iSndBufSize := cdiv v (u_iMSS U - 28)\<rparr>))"

definition set_rcvbuf :: "int \<Rightarrow> 'c cudt \<Rightarrow> 'c cudt ures" where
  "set_rcvbuf v U =
     (if u_bOpened U then Inl (CUDTException 5 1)
      else if v \<le> 0 then Inl (CUDTException 5 3)
      else (let U = (if v > i32 ((u_iMSS U - 28) * 32) then U\<lparr>u_iRcvBufSize := cdiv v (u_iMSS U - 28)\<rparr> else U\<lparr>u_iRcvBufSize := 32\<rparr>)
            in Inr (if u_iRcvBufSize U > u_iFlightFlagSize U then U\<lparr>u_iRcvBufSize := u_iFlightFlagSize U\<rparr> else U)))"

definition set_udp_sndbuf :: "int \<Rightarrow> 'c cudt \<Rightarrow> 'c cudt ures" where
  "set_udp_sndbuf v U =
     (if u_bOpened U then Inl (CUDTException 5 1)
      else (let U = U\<lparr>u_iUDPSndBufSize := v\<rparr> in Inr (if u_iUDPSndBufSize U < u_iMSS U then U\<lparr>u_iUDPSndBufSize := u_iMSS U\<rparr> else U)))"

definition set_udp_rcvbuf :: "int \<Rightarrow> 'c cudt \<Rightarrow> 'c cudt ures" where
  "set_udp_rcvbuf v U =
     (if u_bOpened U then Inl (CUDTException 5 1)
      else (let U = U\<lparr>u_iUDPRcvBufSize := v\<rparr> in Inr (if u_iUDPRcvBufSize U < u_iMSS U then U\<lparr>u_iUDPRcvBufSize := u_iMSS U\<rparr> else U)))"

text \<open>Options that may not be changed once a connection is set up, or once the socket is open.\<close>

definition unless_connected :: "'c cudt \<Rightarrow> 'c cudt \<Rightarrow> 'c cudt ures" where
  "unless_connected U U' = (if u_bConnecting U \<or> u_bConnected U then Inl (CUDTException 5 1) else Inr U')"

definition setOpt :: "UDTOpt \<Rightarrow> 'c optval \<Rightarrow> 'c cudt \<Rightarrow> 'c cudt ures option" where
  "setOpt name v U =
     (if u_bBroken U \<or> u_bClosing U then Some (Inl (CUDTException 2 1))
      else (case (name, v) of
        (UDT_MSS, OInt i) \<Rightarrow> Some (set_mss i U)
      | (UDT_SNDSYN, OBool b) \<Rightarrow> Some (Inr (U\<lparr>u_bSynSending := b\<rparr>))
      | (UDT_RCVSYN, OBool b) \<Rightarrow> Some (Inr (U\<lparr>u_bSynRecving := b\<rparr>))
      | (UDT_CC, OCC c) \<Rightarrow> Some (unless_connected U (U\<lparr>u_pCCFactory := c\<rparr>))
      | (UDT_FC, OInt i) \<Rightarrow> Some (set_fc i U)
      | (UDT_SNDBUF, OInt i) \<Rightarrow> Some (set_sndbuf i U)
      | (UDT_RCVBUF, OInt i) \<Rightarrow> Some (set_rcvbuf i U)
      | (UDT_LINGER, OLinger onoff l) \<Rightarrow> Some (Inr (U\<lparr>u_Linger := (onoff, l)\<rparr>))
      | (UDP_SNDBUF, OInt i) \<Rightarrow> Some (set_udp_sndbuf i U)
      | (UDP_RCVBUF, OInt i) \<Rightarrow> Some (set_udp_rcvbuf i U)
      | (UDT_RENDEZVOUS, OBool b) \<Rightarrow> Some (unless_connected U (U\<lparr>u_bRendezvous := b\<rparr>))
      | (UDT_SNDTIMEO, OInt i) \<Rightarrow> Some (Inr (U\<lparr>u_iSndTimeOut := i\<rparr>))
      | (UDT_RCVTIMEO, OInt i) \<Rightarrow> Some (Inr (U\<lparr>u_iRcvTimeOut := i\<rparr>))
      | (UDT_REUSEADDR, OBool b) \<Rightarrow> Some (if u_bOpened U then Inl (CUDTException 5 1) else Inr (U\<lparr>u_bReuseAddr := b\<rparr>))
      | (UDT_MAXBW, OInt64 i) \<Rightarrow> Some (unless_connected U (U\<lparr>u_llMaxBW := i\<rparr>))
      | _ \<Rightarrow> (if name \<in> {UDT_MAXMSG, UDT_MSGTTL, UDT_STATE, UDT_EVENT, UDT_SNDDATA, UDT_RCVDATA} then Some (Inl (CUDTException 5 0)) else None)))"

text \<open>
  Reading an option: the value and its size. \<open>status\<close> is what \<open>s_UDTUnited.getStatus\<close> returns, \<open>len\<close> the size
  of the memory for the value, which only one option looks at.
\<close>

definition event_bits :: "'c cudt \<Rightarrow> int" where
  "event_bits U =
     (if u_bBroken U then 8
      else (if u_bAllocated U \<and> getRcvDataSize (v_pRcvBuffer (u_rcv U)) > 0 then 1 else 0) +
           (if u_bAllocated U \<and> u_iSndBufSize U > getCurrBufSize (s_pSndBuffer (u_snd U)) then 4 else 0))"

fun getOpt :: "int \<Rightarrow> UDTOpt \<Rightarrow> int \<Rightarrow> 'c cudt \<Rightarrow> ('c optval \<times> int) ures" where
  "getOpt status UDT_MSS len U = Inr (OInt (u_iMSS U), 4)"
| "getOpt status UDT_SNDSYN len U = Inr (OBool (u_bSynSending U), 1)"
| "getOpt status UDT_RCVSYN len U = Inr (OBool (u_bSynRecving U), 1)"
| "getOpt status UDT_CC len U = (if \<not> u_bOpened U then Inl (CUDTException 5 5) else Inr (OCC (u_pCC U), 8))"
| "getOpt status UDT_FC len U = Inr (OInt (u_iFlightFlagSize U), 4)"
| "getOpt status UDT_SNDBUF len U = Inr (OInt (i32 (u_iSndBufSize U * (u_iMSS U - 28))), 4)"
| "getOpt status UDT_RCVBUF len U = Inr (OInt (i32 (u_iRcvBufSize U * (u_iMSS U - 28))), 4)"
| "getOpt status UDT_LINGER len U = (if len < 8 then Inl (CUDTException 5 3) else Inr (OLinger (fst (u_Linger U)) (snd (u_Linger U)), 8))"
| "getOpt status UDP_SNDBUF len U = Inr (OInt (u_iUDPSndBufSize U), 4)"
| "getOpt status UDP_RCVBUF len U = Inr (OInt (u_iUDPRcvBufSize U), 4)"
| "getOpt status UDT_RENDEZVOUS len U = Inr (OBool (u_bRendezvous U), 1)"
| "getOpt status UDT_SNDTIMEO len U = Inr (OInt (u_iSndTimeOut U), 4)"
| "getOpt status UDT_RCVTIMEO len U = Inr (OInt (u_iRcvTimeOut U), 4)"
| "getOpt status UDT_REUSEADDR len U = Inr (OBool (u_bReuseAddr U), 1)"
| "getOpt status UDT_MAXBW len U = Inr (OInt64 (u_llMaxBW U), 8)"
| "getOpt status UDT_STATE len U = Inr (OInt status, 4)"
| "getOpt status UDT_EVENT len U = Inr (OInt (event_bits U), 4)"
| "getOpt status UDT_SNDDATA len U = Inr (OInt (if u_bAllocated U then getCurrBufSize (s_pSndBuffer (u_snd U)) else 0), 4)"
| "getOpt status UDT_RCVDATA len U = Inr (OInt (if u_bAllocated U then getRcvDataSize (v_pRcvBuffer (u_rcv U)) else 0), 4)"
| "getOpt status UDT_MAXMSG len U = Inl (CUDTException 5 0)"
| "getOpt status UDT_MSGTTL len U = Inl (CUDTException 5 0)"

end
