(* ===== verification/UdtCoreCtrl.thy ===== *)
theory UdtCoreCtrl
  imports UdtCore
begin

section \<open>UDT: processing control packets\<close>

text \<open>
  \<open>CUDT::processCtrl\<close>, one definition for each type of packet. The data of a control packet is the list of
  the 32-bit values in the buffer; reading behind it is \<open>None\<close>. Where a value sent by the peer enters
  the arithmetic of a running estimate, an overflow of \<open>int\<close> is \<open>None\<close> as well.
\<close>

definition ctl_word :: "cpacket \<Rightarrow> nat \<Rightarrow> int option" where
  "ctl_word p i = rd (payload_words (iov_base p)) (int i)"

definition fits_int :: "int \<Rightarrow> bool" where
  "fits_int x \<longleftrightarrow> - (2 ^ 31) \<le> x \<and> x < 2 ^ 31"

definition ck :: "int \<Rightarrow> int option" where
  "ck x = (if fits_int x then Some x else None)"

text \<open>The moving averages of the round-trip time, of the delivery rate and of the bandwidth.\<close>

definition update_rtt :: "int \<Rightarrow> 'x sock \<Rightarrow> 'x sock option" where
  "update_rtt rtt U =
     do { d \<leftarrow> ck (rtt - u_iRTT U);
          a \<leftarrow> ck \<bar>d\<bar>;
          v3 \<leftarrow> ck (u_iRTTVar U * 3);
          v \<leftarrow> ck (v3 + a);
          r7 \<leftarrow> ck (u_iRTT U * 7);
          r \<leftarrow> ck (r7 + rtt);
          let U = U\<lparr>u_iRTTVar := drop_bit 2 v\<rparr>;
          let U = U\<lparr>u_iRTT := drop_bit 3 r\<rparr>;
          Some (on_cc (setRTT (u_iRTT U)) U) }"

definition average8 :: "int \<Rightarrow> int \<Rightarrow> int option" where
  "average8 old x = (if x > 0 then do { o7 \<leftarrow> ck (old * 7); s \<leftarrow> ck (o7 + x); Some (drop_bit 3 s) } else Some old)"

definition broken :: "int \<Rightarrow> 'c cudt \<Rightarrow> 'c cudt" where
  "broken n U = U\<lparr>u_bBroken := True, u_iBrokenCounter := n\<rparr>"

subsection \<open>Acknowledgements\<close>

text \<open>The acknowledgement of the acknowledgement, sent back at most once in an interval.\<close>

definition answer_ack :: "env \<Rightarrow> u64 \<Rightarrow> int \<Rightarrow> 'c cudt \<Rightarrow> 'c cudt option" where
  "answer_ack E currtime ackno U =
     (let (now, U) = getTime E U in
      if currtime - s_ullSndLastAck2Time (u_snd U) > int_u64 m_iSYNInterval \<or> ackno = s_iSndLastAck2 (u_snd U) then do {
        U \<leftarrow> sendCtrl E 6 (Some ackno) None 0 U;
        Some (on_snd (\<lambda>s. s\<lparr>s_iSndLastAck2 := ackno, s_ullSndLastAck2Time := now\<rparr>) U) }
      else Some U)"

text \<open>The wake-ups, and the estimates that a long acknowledgement carries.\<close>

definition wake_sender :: "'c cudt \<Rightarrow> 'c cudt" where
  "wake_sender U =
     (let U = (if u_bSynSending U then emit SignalSend U else U);
          U = emit (EnableWrite (u_SocketID U) (u_sPollID U)) U
      in emit (SndListUpdate False) U)"

definition update_rates :: "cpacket \<Rightarrow> 'x sock \<Rightarrow> 'x sock option" where
  "update_rates p U =
     (if getLength p > 16 then do {
        w \<leftarrow> ctl_word p 4;
        r \<leftarrow> average8 (u_iDeliveryRate U) w;
        let U = U\<lparr>u_iDeliveryRate := r\<rparr>;
        w \<leftarrow> ctl_word p 5;
        b \<leftarrow> average8 (u_iBandwidth U) w;
        let U = U\<lparr>u_iBandwidth := b\<rparr>;
        let U = on_cc (setRcvRate (u_iDeliveryRate U)) U;
        Some (on_cc (setBandwidth (u_iBandwidth U)) U) }
      else Some U)"

text \<open>What follows when the buffer has been acknowledged up to \<open>ack\<close>.\<close>

definition after_ack :: "env \<Rightarrow> 'x cclass \<Rightarrow> cpacket \<Rightarrow> int \<Rightarrow> 'x sock \<Rightarrow> 'x sock option" where
  "after_ack E V p ack U =
     do { let U = wake_sender U;
          rtt \<leftarrow> ctl_word p 1;
          U \<leftarrow> update_rtt rtt U;
          U \<leftarrow> update_rates p U;
          let (t, U) = getTime E U;
          let U = update_CC (on_cc (cv_onACK V t ack) U);
          Some (on_trace (\<lambda>t. t\<lparr>t_iRecvACK := t_iRecvACK t + 1, t_iRecvACKTotal := t_iRecvACKTotal t + 1\<rparr>) U) }"

text \<open>The block under \<open>m_AckLock\<close>.\<close>

definition ack_buffer :: "u64 \<Rightarrow> int \<Rightarrow> int \<Rightarrow> 'c cudt \<Rightarrow> 'c cudt option" where
  "ack_buffer currtime offset ack U =
     do { B \<leftarrow> sb_ackData offset (s_pSndBuffer (u_snd U));
          let U = on_snd (s_pSndBuffer_update (\<lambda>_. B)) U;
          let U = on_trace (\<lambda>t. t\<lparr>t_llSndDuration := t_llSndDuration t + (currtime - t_llSndDurationCounter t),
                 t_llSndDurationTotal := t_llSndDurationTotal t + (currtime - t_llSndDurationCounter t),
                 t_llSndDurationCounter := currtime\<rparr>) U;
          let U = on_snd (s_iSndLastDataAck_update (\<lambda>_. ack)) U;
          L \<leftarrow> snd_remove (decseq ack) (s_pSndLossList (u_snd U));
          Some (on_snd (s_pSndLossList_update (\<lambda>_. L)) U) }"

definition process_data_ack :: "env \<Rightarrow> 'x cclass \<Rightarrow> u64 \<Rightarrow> cpacket \<Rightarrow> 'x sock \<Rightarrow> 'x sock option" where
  "process_data_ack E V currtime p U =
     do { ack \<leftarrow> ctl_word p 0;
          if seqcmp ack (incseq (s_iSndCurrSeqNo (u_snd U))) > 0 then Some (broken 0 U)
          else do {
            U \<leftarrow> (if seqcmp ack (s_iSndLastAck (u_snd U)) \<ge> 0 then do {
                   w \<leftarrow> ctl_word p 3;
                   Some (on_snd (\<lambda>s. s\<lparr>s_iFlowWindowSize := w, s_iSndLastAck := ack\<rparr>) U) }
                 else Some U);
            let offset = seqoff (s_iSndLastDataAck (u_snd U)) ack;
            if offset \<le> 0 then Some U
            else do {
              U \<leftarrow> ack_buffer currtime offset ack U;
              after_ack E V p ack U } } }"

definition process_lite_ack :: "cpacket \<Rightarrow> 'c cudt \<Rightarrow> 'c cudt option" where
  "process_lite_ack p U =
     do { ack \<leftarrow> ctl_word p 0;
          Some (if seqcmp ack (s_iSndLastAck (u_snd U)) \<ge> 0
                then on_snd (\<lambda>s. s\<lparr>s_iFlowWindowSize := i32 (s_iFlowWindowSize s - seqoff (s_iSndLastAck s) ack), s_iSndLastAck := ack\<rparr>) U
                else U) }"

definition process_ack :: "env \<Rightarrow> 'x cclass \<Rightarrow> u64 \<Rightarrow> cpacket \<Rightarrow> 'x sock \<Rightarrow> 'x sock option" where
  "process_ack E V currtime p U =
     (if getLength p = 4 then process_lite_ack p U
      else do { U \<leftarrow> answer_ack E currtime (getAckSeqNo p) U; process_data_ack E V currtime p U })"

definition process_ack2 :: "env \<Rightarrow> cpacket \<Rightarrow> 'x sock \<Rightarrow> 'x sock option" where
  "process_ack2 E p U =
     do { let (now, U) = getTime E U;
          (r, W) \<leftarrow> aw_acknowledge now (getAckSeqNo p) (v_pACKWindow (u_rcv U));
          let U = on_rcv (v_pACKWindow_update (\<lambda>_. W)) U;
          case r of None \<Rightarrow> Some U
          | Some (rtt, ack) \<Rightarrow>
              if rtt \<le> 0 then Some U
              else do {
                U \<leftarrow> update_rtt rtt U;
                Some (if seqcmp ack (v_iRcvLastAckAck (u_rcv U)) > 0 then on_rcv (v_iRcvLastAckAck_update (\<lambda>_. ack)) U else U) } }"

subsection \<open>Loss reports\<close>

text \<open>The values of the report are those that the length of the packet counts.\<close>

definition process_nak :: "env \<Rightarrow> 'x cclass \<Rightarrow> cpacket \<Rightarrow> 'x sock \<Rightarrow> 'x sock option" where
  "process_nak E V p U =
     do { let losslist = payload_words (iov_base p);
          let n = cdiv (getLength p) 4;
          let (t, U) = getTime E U;
          let U = update_CC (on_cc (cv_onLoss V t losslist n) U);
          if int (length losslist) < n then None
          else do {
            (secure, num, L) \<leftarrow> nak_loop (s_iSndLastAck (u_snd U)) (s_iSndCurrSeqNo (u_snd U)) (take (nat n) losslist) 0 (s_pSndLossList (u_snd U));
            let U = on_snd (s_pSndLossList_update (\<lambda>_. L)) U;
            let U = on_trace (\<lambda>t. t\<lparr>t_iTraceSndLoss := t_iTraceSndLoss t + num, t_iSndLossTotal := t_iSndLossTotal t + num\<rparr>) U;
            if \<not> secure then Some (broken 0 U)
            else do {
              let U = emit (SndListUpdate True) U;
              Some (on_trace (\<lambda>t. t\<lparr>t_iRecvNAK := t_iRecvNAK t + 1, t_iRecvNAKTotal := t_iRecvNAKTotal t + 1\<rparr>) U) } } }"

subsection \<open>The other types\<close>

text \<open>The buffer for the answer to a handshake is uninitialised behind the handshake, which alone is sent.\<close>

definition process_handshake :: "env \<Rightarrow> cpacket \<Rightarrow> 'c cudt \<Rightarrow> 'c cudt option" where
  "process_handshake E p U =
     do { (_, req) \<leftarrow> hs_deserialize CHandShake (map word_of_int (payload_words (iov_base p))) (getLength p);
          let t = sint (hs_iReqType req);
          if t > 0 \<or> (u_bRendezvous U \<and> t \<noteq> -2) then do {
            let initdata = CHandShake\<lparr>hs_iISN := word_of_int (s_iISN (u_snd U)), hs_iMSS := word_of_int (u_iMSS U),
                  hs_iFlightFlagSize := word_of_int (u_iFlightFlagSize U),
                  hs_iReqType := (if \<not> u_bRendezvous U then -1 else -2), hs_iID := word_of_int (u_SocketID U)\<rparr>;
            (_, hs, hs_size) \<leftarrow> hs_serialize initdata (replicate (nat (cdiv (u_iPayloadSize U) 4)) 0) (u_iPayloadSize U);
            sendCtrl E 0 None (Some (Words (map sint hs))) hs_size U }
          else Some U }"

definition process_shutdown :: "'c cudt \<Rightarrow> 'c cudt" where
  "process_shutdown U =
     (let U = broken 60 (U\<lparr>u_bShutdown := True, u_bClosing := True\<rparr>);
          U = emit ReleaseSynch U
      in emit TriggerEvent U)"

definition process_drop :: "cpacket \<Rightarrow> unit_queue \<Rightarrow> 'c cudt \<Rightarrow> (unit_queue \<times> 'c cudt) option" where
  "process_drop p Q U =
     do { Q \<leftarrow> dropMsg (getMsgSeq p) (v_pRcvBuffer (u_rcv U)) Q;
          a \<leftarrow> ctl_word p 0;
          b \<leftarrow> ctl_word p 1;
          (_, L) \<leftarrow> rcv_remove_range a b (v_pRcvLossList (u_rcv U));
          let U = on_rcv (v_pRcvLossList_update (\<lambda>_. L)) U;
          Some (Q, if seqcmp a (incseq (v_iRcvCurrSeqNo (u_rcv U))) \<le> 0 \<and> seqcmp b (v_iRcvCurrSeqNo (u_rcv U)) > 0
                   then on_rcv (v_iRcvCurrSeqNo_update (\<lambda>_. b)) U else U) }"

definition process_warning :: "'c cudt \<Rightarrow> 'c cudt" where
  "process_warning U =
     on_snd (\<lambda>s. s\<lparr>s_ullInterval := u64_of_real (of_int \<lceil>of_int (uint (s_ullInterval s)) * (1.125 :: real)\<rceil>),
                   s_iLastDecSeq := s_iSndCurrSeqNo s\<rparr>) U"

definition heard :: "env \<Rightarrow> 'c cudt \<Rightarrow> u64 \<times> 'c cudt" where
  "heard E U =
     (let U = U\<lparr>u_iEXPCount := 1\<rparr>;
          (t, U) = rdtsc E U
      in (t, on_timers (m_ullLastRspTime_update (\<lambda>_. t)) U))"

definition processCtrl :: "env \<Rightarrow> 'x cclass \<Rightarrow> cpacket \<Rightarrow> unit_queue \<Rightarrow> 'x sock \<Rightarrow> (unit_queue \<times> 'x sock) option" where
  "processCtrl E V p Q U =
     (let (currtime, U) = heard E U;
          t = getType p;
          keep = map_option (Pair Q)
      in if t = 2 then keep (process_ack E V currtime p U)
         else if t = 6 then keep (process_ack2 E p U)
         else if t = 3 then keep (process_nak E V p U)
         else if t = 4 then Some (Q, process_warning U)
         else if t = 1 then Some (Q, U)
         else if t = 0 then keep (process_handshake E p U)
         else if t = 5 then Some (Q, process_shutdown U)
         else if t = 7 then process_drop p Q U
         else if t = 8 then Some (Q, U\<lparr>u_bPeerHealth := False\<rparr>)
         else if t = 32767 then
           (let (c, U) = getTime E U in Some (Q, update_CC (on_cc (cv_processCustomMsg V c p) U)))
         else Some (Q, U))"

end
