(* ===== verification/UdtCache.thy ===== *)
theory UdtCache
  imports UdtAddr
begin

section \<open>UDT: the cache of network information\<close>

text \<open>
  \<open>CInfoBlock\<close> (\<open>udt4/src/cache.cpp\<close>) and \<open>CCache\<close> (\<open>udt4/include/udt/cache.h\<close>). A node of the storage list is an
  address; the list holds the addresses in order, \<open>ca_items\<close> what the live ones point to. A bucket is a list of iterators,
  which are such addresses; following one to a node that has been removed is \<open>None\<close>. The item a node points to moves
  with it. The two \<open>double\<close> fields, which nothing reads, are left out.
\<close>

record info_block =
  ib_piIP :: "u32 list"
  ib_iIPversion :: int
  ib_ullTimeStamp :: u64
  ib_iRTT :: int
  ib_iBandwidth :: int
  ib_iLossRate :: int
  ib_iReorderDistance :: int

text \<open>The assignment copies three of the four words of the address.\<close>

definition ib_assign :: "info_block \<Rightarrow> info_block \<Rightarrow> info_block" where
  "ib_assign a obj = obj\<lparr>ib_piIP := take 3 (ib_piIP obj) @ drop 3 (ib_piIP a)\<rparr>"

definition ib_equal :: "info_block \<Rightarrow> info_block \<Rightarrow> bool" where
  "ib_equal a b =
     (if ib_iIPversion a \<noteq> ib_iIPversion b then False
      else if ib_iIPversion a = AF_INET then ib_piIP a ! 0 = ib_piIP b ! 0
      else list_all (\<lambda>i. ib_piIP a ! i = ib_piIP b ! i) [0..<4])"

text \<open>The last word of a clone is what was in the new memory.\<close>

definition ib_clone :: "u32 \<Rightarrow> info_block \<Rightarrow> info_block" where
  "ib_clone junk a = a\<lparr>ib_piIP := take 3 (ib_piIP a) @ [junk]\<rparr>"

definition getKey :: "info_block \<Rightarrow> int" where
  "getKey a = sint (if ib_iIPversion a = AF_INET then ib_piIP a ! 0 else ib_piIP a ! 0 + ib_piIP a ! 1 + ib_piIP a ! 2 + ib_piIP a ! 3)"

fun ib_convert :: "sockaddr \<Rightarrow> int \<Rightarrow> u32 list option" where
  "ib_convert (sockaddr_in p a) ver = (if ver = AF_INET then Some [a, 0, 0, 0] else None)"
| "ib_convert (sockaddr_in6 p b) ver = (if ver = AF_INET then None else Some (map (word_of_bytes b) [0..<4]))"

subsection \<open>The cache\<close>

record info_cache =
  ca_StorageList :: "nat list"
  ca_items :: "nat \<rightharpoonup> info_block"
  ca_vHashPtr :: "nat list list"
  ca_iMaxSize :: int
  ca_iHashSize :: int
  ca_iCurrSize :: int
  ca_next :: nat

definition CCache :: "int \<Rightarrow> info_cache" where
  "CCache siz = \<lparr>ca_StorageList = [], ca_items = Map.empty, ca_vHashPtr = replicate (nat (siz * 3)) [], ca_iMaxSize = siz,
     ca_iHashSize = siz * 3, ca_iCurrSize = 0, ca_next = 0\<rparr>"

text \<open>The place of a key in the table.\<close>

definition ca_slot :: "int \<Rightarrow> info_cache \<Rightarrow> int" where
  "ca_slot key C = (if key \<ge> ca_iMaxSize C then cmod key (ca_iHashSize C) else key)"

text \<open>The first iterator of a bucket whose item is equal.\<close>

fun ca_find :: "info_block \<Rightarrow> (nat \<rightharpoonup> info_block) \<Rightarrow> nat list \<Rightarrow> nat option option" where
  "ca_find d M [] = Some None"
| "ca_find d M (i # r) = do { x \<leftarrow> M i; if ib_equal d x then Some (Some i) else ca_find d M r }"

definition ca_lookup :: "info_block \<Rightarrow> info_cache \<Rightarrow> (int \<times> info_block) option" where
  "ca_lookup d C =
     (if getKey d < 0 then Some (-1, d)
      else do {
        b \<leftarrow> rd (ca_vHashPtr C) (ca_slot (getKey d) C);
        r \<leftarrow> ca_find d (ca_items C) b;
        case r of None \<Rightarrow> Some (-1, d)
        | Some i \<Rightarrow> do { x \<leftarrow> ca_items C i; Some (0, ib_assign d x) } })"

text \<open>An existing entry is changed, and moves to the front of the two lists.\<close>

definition ca_touch :: "int \<Rightarrow> nat \<Rightarrow> info_block \<Rightarrow> info_cache \<Rightarrow> info_cache option" where
  "ca_touch s i d C =
     do { x \<leftarrow> ca_items C i;
          b \<leftarrow> rd (ca_vHashPtr C) s;
          let n = ca_next C;
          T \<leftarrow> wr (ca_vHashPtr C) s (n # remove1 i b);
          Some (C\<lparr>ca_StorageList := n # remove1 i (ca_StorageList C), ca_items := (ca_items C)(i := None, n \<mapsto> ib_assign x d),
            ca_vHashPtr := T, ca_next := n + 1\<rparr>) }"

text \<open>
  The oldest entry is removed when the cache is full. \<open>item_list\<close> is a reference to the bucket \<open>s\<close> of the new entry:
  the assignment of the other bucket overwrites it.
\<close>

definition ca_evict :: "int \<Rightarrow> info_cache \<Rightarrow> info_cache option" where
  "ca_evict s C =
     do { let i = last (ca_StorageList C);
          x \<leftarrow> (if ca_StorageList C = [] then None else ca_items C i);
          b \<leftarrow> rd (ca_vHashPtr C) (cmod (getKey x) (ca_iHashSize C));
          r \<leftarrow> ca_find x (ca_items C) b;
          T \<leftarrow> wr (ca_vHashPtr C) s (case r of None \<Rightarrow> b | Some j \<Rightarrow> remove1 j b);
          Some (C\<lparr>ca_vHashPtr := T, ca_items := (ca_items C)(i := None), ca_StorageList := butlast (ca_StorageList C),
            ca_iCurrSize := ca_iCurrSize C - 1\<rparr>) }"

definition ca_update :: "u32 \<Rightarrow> info_block \<Rightarrow> info_cache \<Rightarrow> (int \<times> info_cache) option" where
  "ca_update junk d C =
     (if getKey d < 0 then Some (-1, C)
      else do {
        let s = ca_slot (getKey d) C;
        b \<leftarrow> rd (ca_vHashPtr C) s;
        r \<leftarrow> ca_find d (ca_items C) b;
        case r of Some i \<Rightarrow> do { C \<leftarrow> ca_touch s i d C; Some (0, C) }
        | None \<Rightarrow> do {
            let n = ca_next C;
            T \<leftarrow> wr (ca_vHashPtr C) s (n # b);
            let C = C\<lparr>ca_StorageList := n # ca_StorageList C, ca_items := (ca_items C)(n \<mapsto> ib_clone junk d), ca_vHashPtr := T,
              ca_next := n + 1, ca_iCurrSize := ca_iCurrSize C + 1\<rparr>;
            C \<leftarrow> (if ca_iCurrSize C \<ge> ca_iMaxSize C then ca_evict s C else Some C);
            Some (0, C) } })"

definition setSizeLimit :: "int \<Rightarrow> info_cache \<Rightarrow> info_cache" where
  "setSizeLimit siz C =
     (let C = C\<lparr>ca_iMaxSize := siz, ca_iHashSize := siz * 3\<rparr>;
          n = nat (ca_iHashSize C)
      in C\<lparr>ca_vHashPtr := take n (ca_vHashPtr C) @ replicate (n - length (ca_vHashPtr C)) []\<rparr>)"

definition ca_clear :: "info_cache \<Rightarrow> info_cache" where
  "ca_clear C =
     (let C = C\<lparr>ca_items := (\<lambda>i. if i \<in> set (ca_StorageList C) then None else ca_items C i)\<rparr>;
          C = C\<lparr>ca_StorageList := [], ca_vHashPtr := map (\<lambda>_. []) (ca_vHashPtr C)\<rparr>
      in C\<lparr>ca_iCurrSize := 0\<rparr>)"

end
