(* ===== verification/UdtConnect.thy ===== *)
theory UdtConnect
  imports UdtOptions UdtCoreCtrl UdtCache
begin

section \<open>UDT: opening and connecting a socket\<close>

text \<open>
  \<open>CUDT::open\<close>, \<open>listen\<close>, the three \<open>connect\<close> and \<open>close\<close> (\<open>udt4/src/core.cpp\<close>). Uninitialised memory is a record of
  functions; an allocation fails when its size is negative. The loop that waits for the answer is driven by a list of
  what its turns see: whether the socket is being closed, and the packet that was received.
\<close>

record fresh_memory =
  fm_blocks :: fresh_blocks
  fm_bytes :: fresh_bytes
  fm_ints :: "nat \<Rightarrow> nat \<Rightarrow> int"
  fm_times :: "nat \<Rightarrow> u64"

definition fresh_ints :: "fresh_memory \<Rightarrow> nat \<Rightarrow> int \<Rightarrow> int list" where
  "fresh_ints F k n = map (fm_ints F k) [0..<nat n]"

definition m_iPktHdrSize :: int where
  "m_iPktHdrSize = 16"

definition m_iVersion :: int where
  "m_iVersion = 4"

definition m_iSockType :: "'c cudt \<Rightarrow> int" where
  "m_iSockType U = (if u_bStream U then 1 else 2)"

text \<open>The packet sizes that follow from the segment size.\<close>

definition set_sizes :: "'c cudt \<Rightarrow> 'c cudt" where
  "set_sizes U = (let U = U\<lparr>u_iPktSize := u_iMSS U - 28\<rparr> in U\<lparr>u_iPayloadSize := u_iPktSize U - m_iPktHdrSize\<rparr>)"

subsection \<open>Open\<close>

definition reset_trace :: "udt_trace \<Rightarrow> udt_trace" where
  "reset_trace t = t\<lparr>t_llSentTotal := 0, t_llRecvTotal := 0, t_iSndLossTotal := 0, t_iRcvLossTotal := 0, t_iRetransTotal := 0,
     t_iSentACKTotal := 0, t_iRecvACKTotal := 0, t_iSentNAKTotal := 0, t_iRecvNAKTotal := 0\<rparr>"

definition clear_sample :: "udt_trace \<Rightarrow> udt_trace" where
  "clear_sample t = t\<lparr>t_llTraceSent := 0, t_llTraceRecv := 0, t_iTraceSndLoss := 0, t_iTraceRcvLoss := 0, t_iTraceRetrans := 0,
     t_iSentACK := 0, t_iRecvACK := 0, t_iSentNAK := 0, t_iRecvNAK := 0\<rparr>"

definition open_timers :: "u64 \<Rightarrow> u64 \<Rightarrow> udt_timers \<Rightarrow> udt_timers" where
  "open_timers freq currtime t =
     (let syn = int_u64 m_iSYNInterval * freq; least = 300000 * freq
      in t\<lparr>m_ullCPUFrequency := freq, m_ullSYNInt := syn, m_ullMinNakInt := least, m_ullMinExpInt := least, m_ullACKInt := syn, m_ullNAKInt := least,
           m_ullLastRspTime := currtime, m_ullNextACKTime := currtime + syn, m_ullNextNAKTime := currtime + least, m_iPktCount := 0,
           m_iLightACKCount := 1, m_ullTargetTime := 0\<rparr>)"

definition open_udt :: "env \<Rightarrow> u64 \<Rightarrow> 'c cudt \<Rightarrow> 'c cudt" where
  "open_udt E freq U =
     (let U = set_sizes U;
          U = U\<lparr>u_iEXPCount := 1, u_iBandwidth := 1, u_iDeliveryRate := 16\<rparr>;
          U = on_rcv (\<lambda>v. v\<lparr>v_iAckSeqNo := 0, v_ullLastAckTime := 0\<rparr>) U;
          (now, U) = getTime E U;
          U = on_trace (\<lambda>t. reset_trace (t\<lparr>t_StartTime := now\<rparr>)) U;
          (now, U) = getTime E U;
          U = on_trace (\<lambda>t. (clear_sample (t\<lparr>t_LastSampleTime := now\<rparr>))\<lparr>t_llSndDuration := 0, t_llSndDurationTotal := 0\<rparr>) U;
          U = emit InitNodes U;
          U = U\<lparr>u_iRTT := 10 * m_iSYNInterval\<rparr>;
          U = U\<lparr>u_iRTTVar := drop_bit 1 (u_iRTT U)\<rparr>;
          (currtime, U) = rdtsc E U;
          U = on_timers (open_timers freq currtime) U;
          U = on_snd (s_ullTimeDiff_update (\<lambda>_. 0)) U
      in U\<lparr>u_bOpened := True\<rparr>)"

subsection \<open>Listen\<close>

text \<open>\<open>other\<close>: another socket listens on the port.\<close>

definition listen_udt :: "bool \<Rightarrow> 'c cudt \<Rightarrow> 'c cudt ures" where
  "listen_udt other U =
     (if \<not> u_bOpened U then Inl (CUDTException 5 0)
      else if u_bConnecting U \<or> u_bConnected U then Inl (CUDTException 5 2)
      else if u_bListening U then Inr U
      else if other then Inl (CUDTException 5 11)
      else Inr ((emit SetListener U)\<lparr>u_bListening := True\<rparr>))"

subsection \<open>The first half of a connection\<close>

text \<open>\<open>(int32_t)(CSeqNo::m_iMaxSeqNo * (double(rand()) / RAND_MAX))\<close>, \<open>r\<close> being \<open>rand()\<close>.\<close>

definition random_isn :: "int \<Rightarrow> int" where
  "random_isn r = int_of_real (of_int m_iMaxSeqNo * (of_int r / 2147483647))"

definition snd_start :: "int \<Rightarrow> u64 \<Rightarrow> udt_snd \<Rightarrow> udt_snd" where
  "snd_start isn now s = s\<lparr>s_iLastDecSeq := isn - 1, s_iSndLastAck := isn, s_iSndLastDataAck := isn, s_iSndCurrSeqNo := isn - 1,
     s_iSndLastAck2 := isn, s_ullSndLastAck2Time := now\<rparr>"

definition flight_flag :: "'c cudt \<Rightarrow> int" where
  "flight_flag U = (if u_iRcvBufSize U < u_iFlightFlagSize U then u_iRcvBufSize U else u_iFlightFlagSize U)"

text \<open>The request that is sent, a handshake in a buffer of \<open>m_iPayloadSize\<close> bytes.\<close>

definition handshake_packet :: "int \<Rightarrow> chandshake \<Rightarrow> int \<Rightarrow> (int \<times> cpacket) option" where
  "handshake_packet pid hs siz =
     do { p \<leftarrow> pack 0 None (Some (Words [])) siz CPacket;
          (_, ws, n) \<leftarrow> hs_serialize hs (replicate (nat (cdiv siz 4)) 0) siz;
          Some (n, setLength n (set_hdr 3 pid (p\<lparr>iov_base := Some (Words (map sint ws))\<rparr>))) }"

definition conn_request :: "int \<Rightarrow> sockaddr \<Rightarrow> 'c cudt \<Rightarrow> chandshake option" where
  "conn_request isn addr U =
     do { let req = (u_ConnReq U)\<lparr>hs_iVersion := word_of_int m_iVersion, hs_iType := word_of_int (m_iSockType U),
            hs_iMSS := word_of_int (u_iMSS U), hs_iFlightFlagSize := word_of_int (flight_flag U),
            hs_iReqType := (if \<not> u_bRendezvous U then 1 else 0), hs_iID := word_of_int (u_SocketID U)\<rparr>;
          ip \<leftarrow> ntop addr (hs_piPeerIP req) (u_iIPversion U);
          Some (req\<lparr>hs_piPeerIP := ip, hs_iISN := word_of_int isn\<rparr>) }"

text \<open>Up to the return of an asynchronous connect; the result has the time after which the wait ends.\<close>

definition connect_start :: "env \<Rightarrow> int \<Rightarrow> sockaddr \<Rightarrow> 'c cudt \<Rightarrow> (u64 \<times> 'c cudt) ures option" where
  "connect_start E r addr U =
     (if \<not> u_bOpened U then Some (Inl (CUDTException 5 0))
      else if u_bListening U then Some (Inl (CUDTException 5 2))
      else if u_bConnecting U \<or> u_bConnected U then Some (Inl (CUDTException 5 2))
      else do {
        let U = U\<lparr>u_pPeerAddr := Some addr\<rparr>;
        let (now, U) = getTime E U;
        let ttl = (if u_bRendezvous U then 3000000 * 10 else 3000000) + now;
        let U = emit (RegisterConnector (u_SocketID U) addr ttl) U;
        let U = U\<lparr>u_ticks := u_ticks U + 1\<rparr>;
        let isn = random_isn r;
        req \<leftarrow> conn_request isn addr U;
        let U = U\<lparr>u_ConnReq := req\<rparr>;
        let (now, U) = getTime E U;
        let U = on_snd (\<lambda>s. snd_start isn now (s\<lparr>s_iISN := isn\<rparr>)) U;
        (_, p) \<leftarrow> handshake_packet 0 (u_ConnReq U) (u_iPayloadSize U);
        let U = emit (SendAddr addr p) U;
        let (now, U) = getTime E U;
        Some (Inr (ttl, U\<lparr>u_llLastReqTime := now, u_bConnecting := True\<rparr>)) })"

subsection \<open>The structures of a connection\<close>

text \<open>
  The buffers, lists and windows. A negative size makes the allocation fail, which is thrown; \<open>m_iFlowWindowSize * 2\<close>
  may overflow (\<open>None\<close>).
\<close>

definition allocate :: "env \<Rightarrow> fresh_memory \<Rightarrow> 'c cudt \<Rightarrow> 'c cudt ures option" where
  "allocate E F U =
     (let flow = s_iFlowWindowSize (u_snd U) in
      if \<not> fits_int (flow * 2) then None
      else if u_iPayloadSize U < 0 \<or> u_iRcvBufSize U < 0 \<or> flow * 2 < 0 \<or> u_iFlightFlagSize U < 0 then Some (Inl (CUDTException 3 2))
      else do {
        let U = on_snd (\<lambda>s. s\<lparr>s_pSndBuffer := CSndBuffer (fm_blocks F) (fm_bytes F) 32 (u_iPayloadSize U),
              s_pSndLossList := CSndLossList (flow * 2) (fresh_ints F 0 (flow * 2))\<rparr>) U;
        W \<leftarrow> CACKWindow 1024 (fresh_ints F 3 1024) (fresh_ints F 4 1024) (map (fm_times F) [0..<1024]);
        let (now, U) = getTime E U;
        let U = on_rcv (\<lambda>v. v\<lparr>v_pRcvBuffer := CRcvBuffer (u_iRcvBufSize U),
              v_pRcvLossList := CRcvLossList (u_iFlightFlagSize U) (fresh_ints F 1 (u_iFlightFlagSize U)) (fresh_ints F 2 (u_iFlightFlagSize U)),
              v_pACKWindow := W, v_pRcvTimeWindow := CPktTimeWindow now 16 64\<rparr>) U;
        Some (Inr (U\<lparr>u_ticks := u_ticks U + 1, u_bAllocated := True\<rparr>)) })"

text \<open>What is known of the way to the peer.\<close>

definition consult_cache :: "info_cache \<Rightarrow> sockaddr \<Rightarrow> 'c cudt \<Rightarrow> 'c cudt option" where
  "consult_cache K addr U =
     do { ip \<leftarrow> ib_convert addr (u_iIPversion U);
          let ib = \<lparr>ib_piIP = ip, ib_iIPversion = u_iIPversion U, ib_ullTimeStamp = 0, ib_iRTT = 0, ib_iBandwidth = 0, ib_iLossRate = 0,
            ib_iReorderDistance = 0\<rparr>;
          (r, ib) \<leftarrow> ca_lookup ib K;
          Some (if r \<ge> 0 then U\<lparr>u_iRTT := ib_iRTT ib, u_iBandwidth := ib_iBandwidth ib\<rparr> else U) }"

definition bytes_of_int64 :: "int \<Rightarrow> u8 list" where
  "bytes_of_int64 x = map (\<lambda>i. word_of_int (drop_bit (8 * i) x)) [0..<8]"

definition create_CC :: "env \<Rightarrow> 'x cclass \<Rightarrow> 'x sock \<Rightarrow> 'x sock option" where
  "create_CC E V U =
     do { let C = setMSS (u_iMSS U) (u_pCCFactory U);
          let C = setMaxCWndSize (s_iFlowWindowSize (u_snd U)) C;
          let C = setSndCurrSeqNo (s_iSndCurrSeqNo (u_snd U)) C;
          let C = setRcvRate (u_iDeliveryRate U) C;
          let C = setRTT (u_iRTT U) C;
          let C = setBandwidth (u_iBandwidth U) C;
          C \<leftarrow> (if u_llMaxBW U > 0 then setUserParam (bytes_of_int64 (u_llMaxBW U)) 8 C else Some C);
          let (now, U) = getTime E U;
          Some (update_CC (U\<lparr>u_pCC := cv_init V now C\<rparr>)) }"

definition rcv_start :: "int \<Rightarrow> 'c cudt \<Rightarrow> 'c cudt" where
  "rcv_start isn U = on_rcv (\<lambda>v. v\<lparr>v_iRcvLastAck := isn, v_iRcvLastAckAck := isn, v_iRcvCurrSeqNo := isn - 1\<rparr>) (U\<lparr>u_iPeerISN := isn\<rparr>)"

subsection \<open>The answer to a request\<close>

text \<open>From the label on. The method may not throw: a failure to allocate ends the program (\<open>None\<close>).\<close>

definition post_connect :: "env \<Rightarrow> 'x cclass \<Rightarrow> fresh_memory \<Rightarrow> info_cache \<Rightarrow> 'x sock \<Rightarrow> 'x sock option" where
  "post_connect E V F K U =
     do { let U = emit (RemoveConnector (u_SocketID U)) U;
          let res = u_ConnRes U;
          let U = U\<lparr>u_iMSS := sint (hs_iMSS res)\<rparr>;
          let U = on_snd (s_iFlowWindowSize_update (\<lambda>_. sint (hs_iFlightFlagSize res))) U;
          let U = rcv_start (sint (hs_iISN res)) (set_sizes U);
          let U = U\<lparr>u_PeerID := sint (hs_iID res), u_piSelfIP := hs_piPeerIP res\<rparr>;
          r \<leftarrow> allocate E F U;
          case r of Inl e \<Rightarrow> None
          | Inr U \<Rightarrow> do {
              addr \<leftarrow> u_pPeerAddr U;
              U \<leftarrow> consult_cache K addr U;
              U \<leftarrow> create_CC E V U;
              let U = U\<lparr>u_bConnecting := False, u_bConnected := True\<rparr>;
              let U = emit NewEntry U;
              let U = emit (EnableWrite (u_SocketID U) (u_sPollID U)) U;
              Some (emit (ConnectComplete (u_SocketID U)) U) } }"

definition connect_response :: "env \<Rightarrow> 'x cclass \<Rightarrow> fresh_memory \<Rightarrow> info_cache \<Rightarrow> cpacket \<Rightarrow> 'x sock \<Rightarrow> (int \<times> 'x sock) option" where
  "connect_response E V F K p U =
     (if \<not> u_bConnecting U then Some (-1, U)
      else if u_bRendezvous U \<and> (getFlag p = 0 \<or> getType p = 1) \<and> hs_iType (u_ConnRes U) \<noteq> 0 then
        map_option (Pair 0) (post_connect E V F K U)
      else if getFlag p \<noteq> 1 \<or> getType p \<noteq> 0 then Some (-1, U)
      else do {
        (_, res) \<leftarrow> hs_deserialize (u_ConnRes U) (map word_of_int (payload_words (iov_base p))) (getLength p);
        let U = U\<lparr>u_ConnRes := res\<rparr>;
        if u_bRendezvous U \<and> hs_iReqType res = 1 then Some (-1, U)
        else if u_bRendezvous U \<and> (hs_iReqType (u_ConnReq U) = 0 \<or> hs_iReqType res = 0) then
          Some (1, U\<lparr>u_ConnReq := (u_ConnReq U)\<lparr>hs_iReqType := -1\<rparr>, u_llLastReqTime := 0\<rparr>)
        else if \<not> u_bRendezvous U \<and> hs_iReqType res = 1 then
          Some (1, U\<lparr>u_ConnReq := (u_ConnReq U)\<lparr>hs_iReqType := -1, hs_iCookie := hs_iCookie res\<rparr>, u_llLastReqTime := 0\<rparr>)
        else map_option (Pair 0) (post_connect E V F K U) })"

text \<open>A turn of the waiting loop sends the request again, takes a packet, looks at the clock.\<close>

definition connect_again :: "env \<Rightarrow> sockaddr \<Rightarrow> 'c cudt \<Rightarrow> 'c cudt option" where
  "connect_again E addr U =
     do { let (now, U) = getTime E U;
          if now - u_llLastReqTime U > 250000 then do {
            (_, p) \<leftarrow> handshake_packet (if u_bRendezvous U then sint (hs_iID (u_ConnRes U)) else 0) (u_ConnReq U) (u_iPayloadSize U);
            let U = emit (SendAddr addr p) U;
            let (now, U) = getTime E U;
            Some (U\<lparr>u_llLastReqTime := now\<rparr>) }
          else Some U }"

text \<open>The flag of the result says that the time is over.\<close>

fun connect_loop :: "env \<Rightarrow> 'x cclass \<Rightarrow> fresh_memory \<Rightarrow> info_cache \<Rightarrow> sockaddr \<Rightarrow> u64 \<Rightarrow> (bool \<times> cpacket option) list \<Rightarrow> 'x sock \<Rightarrow> (bool \<times> 'x sock) option" where
  "connect_loop E V F K addr ttl [] U = None"
| "connect_loop E V F K addr ttl ((closing, got) # turns) U =
     do { let U = (if closing then U\<lparr>u_bClosing := True\<rparr> else U);
          if u_bClosing U then Some (False, U)
          else do {
            U \<leftarrow> connect_again E addr U;
            (r, U) \<leftarrow> (case got of None \<Rightarrow> Some (1, U) | Some p \<Rightarrow> do {
                (r, U) \<leftarrow> connect_response E V F K p U;
                Some (r, if r > 0 then U\<lparr>u_llLastReqTime := 0\<rparr> else U) });
            if r \<le> 0 then Some (False, U)
            else do {
              let (now, U) = getTime E U;
              if now > ttl then Some (True, U) else connect_loop E V F K addr ttl turns U } } }"

definition connect_finish :: "bool \<Rightarrow> 'c cudt \<Rightarrow> 'c cudt ures" where
  "connect_finish timeout U =
     (if timeout then Inl (CUDTException 1 1)
      else if u_bClosing U then Inl (CUDTException 1 0)
      else if hs_iReqType (u_ConnRes U) = 1002 then Inl (CUDTException 1 2)
      else if \<not> u_bRendezvous U \<and> s_iISN (u_snd U) \<noteq> sint (hs_iISN (u_ConnRes U)) then Inl (CUDTException 1 4)
      else Inr U)"

text \<open>\<open>connect(const sockaddr*)\<close>; an asynchronous socket returns after the request.\<close>

definition connect_udt :: "env \<Rightarrow> 'x cclass \<Rightarrow> fresh_memory \<Rightarrow> info_cache \<Rightarrow> int \<Rightarrow> sockaddr \<Rightarrow> (bool \<times> cpacket option) list \<Rightarrow> 'x sock \<Rightarrow> 'x sock ures option" where
  "connect_udt E V F K r addr turns U =
     do { s \<leftarrow> connect_start E r addr U;
          case s of Inl e \<Rightarrow> Some (Inl e)
          | Inr (ttl, U) \<Rightarrow>
              if \<not> u_bSynRecving U then Some (Inr U)
              else do { (timeout, U) \<leftarrow> connect_loop E V F K addr ttl turns U; Some (connect_finish timeout U) } }"

subsection \<open>The listening side\<close>

text \<open>\<open>connect(const sockaddr*, CHandShake*)\<close>: the handshake becomes the answer.\<close>

definition connect_peer :: "env \<Rightarrow> 'x cclass \<Rightarrow> fresh_memory \<Rightarrow> info_cache \<Rightarrow> sockaddr \<Rightarrow> chandshake \<Rightarrow> 'x sock \<Rightarrow> (chandshake \<times> 'x sock) ures option" where
  "connect_peer E V F K peer hs U =
     do { let (hs, U) = (if sint (hs_iMSS hs) > u_iMSS U then (hs\<lparr>hs_iMSS := word_of_int (u_iMSS U)\<rparr>, U) else (hs, U\<lparr>u_iMSS := sint (hs_iMSS hs)\<rparr>));
          let U = on_snd (s_iFlowWindowSize_update (\<lambda>_. sint (hs_iFlightFlagSize hs))) U;
          let hs = hs\<lparr>hs_iFlightFlagSize := word_of_int (flight_flag U)\<rparr>;
          let isn = sint (hs_iISN hs);
          let U = rcv_start isn U;
          let U = U\<lparr>u_PeerID := sint (hs_iID hs)\<rparr>;
          let hs = hs\<lparr>hs_iID := word_of_int (u_SocketID U)\<rparr>;
          let (now, U) = getTime E U;
          let U = on_snd (\<lambda>s. snd_start isn now (s\<lparr>s_iISN := isn\<rparr>)) U;
          let hs = hs\<lparr>hs_iReqType := -1\<rparr>;
          let U = U\<lparr>u_piSelfIP := hs_piPeerIP hs\<rparr>;
          ip \<leftarrow> ntop peer (hs_piPeerIP hs) (u_iIPversion U);
          let hs = hs\<lparr>hs_piPeerIP := ip\<rparr>;
          r \<leftarrow> allocate E F (set_sizes U);
          case r of Inl e \<Rightarrow> Some (Inl e)
          | Inr U \<Rightarrow> do {
              U \<leftarrow> consult_cache K peer U;
              U \<leftarrow> create_CC E V U;
              let U = U\<lparr>u_pPeerAddr := Some peer, u_bConnected := True\<rparr>;
              let U = emit NewEntry U;
              (_, p) \<leftarrow> handshake_packet (u_PeerID U) hs hs_contentSize;
              Some (Inr (hs, emit (SendAddr peer p) U)) } }"


text \<open>
  \<open>listen(sockaddr*, CPacket&)\<close>. The cookie is four bytes of a hash of the client's name, its port and the minute.
  \<open>md5\<close> is \<open>CMD5::compute\<close>, \<open>name\<close> what \<open>getnameinfo\<close> gives, \<open>newConnection\<close> the call of the
  management module with the handshake as it leaves it.
\<close>

fun digits :: "nat \<Rightarrow> string" where
  "digits n = (if n < 10 then [char_of (48 + n)] else digits (n div 10) @ [char_of (48 + n mod 10)])"

declare digits.simps [simp del]

definition show_int :: "int \<Rightarrow> string" where
  "show_int x = (if x < 0 then ''-'' @ digits (nat (- x)) else digits (nat x))"

definition cookie_text :: "string \<times> string \<Rightarrow> int \<Rightarrow> string" where
  "cookie_text name t = fst name @ '':'' @ snd name @ '':'' @ show_int t"

definition cookie_of :: "(string \<Rightarrow> u8 list) \<Rightarrow> string \<Rightarrow> u32" where
  "cookie_of md5 s = word_of_bytes (md5 s) 0"

definition cookie_time :: "u64 \<Rightarrow> u64 \<Rightarrow> int" where
  "cookie_time now start = uint ((now - start) div 60000000)"

text \<open>The second attempt appends to the text of the first.\<close>

definition check_cookie :: "(string \<Rightarrow> u8 list) \<Rightarrow> string \<times> string \<Rightarrow> int \<Rightarrow> u32 \<Rightarrow> bool" where
  "check_cookie md5 name t c \<longleftrightarrow>
     c = cookie_of md5 (cookie_text name t) \<or> c = cookie_of md5 (cookie_text name t @ cookie_text name (t - 1))"

text \<open>The handshake goes back in the packet it came in.\<close>

definition answer_handshake :: "sockaddr \<Rightarrow> chandshake \<Rightarrow> int \<Rightarrow> int \<Rightarrow> cpacket \<Rightarrow> 'c cudt \<Rightarrow> 'c cudt option" where
  "answer_handshake addr hs pid siz p U =
     do { (_, ws, _) \<leftarrow> hs_serialize hs (map word_of_int (payload_words (iov_base p))) siz;
          Some (emit (SendAddr addr (set_hdr 3 pid (p\<lparr>iov_base := Some (Words (map sint ws))\<rparr>))) U) }"

definition admit :: "(chandshake \<Rightarrow> int \<times> chandshake) \<Rightarrow> sockaddr \<Rightarrow> chandshake \<Rightarrow> cpacket \<Rightarrow> 'c cudt \<Rightarrow> (int \<times> 'c cudt) option" where
  "admit newConnection addr hs p U =
     (let id = sint (hs_iID hs) in
      if getFlag p = 1 \<and> getType p = 0 then
        if sint (hs_iVersion hs) \<noteq> m_iVersion \<or> sint (hs_iType hs) \<noteq> m_iSockType U then
          map_option (Pair 1002) (answer_handshake addr (hs\<lparr>hs_iReqType := 1002\<rparr>) id hs_contentSize p U)
        else
          (let (result, hs) = newConnection hs;
               hs = (if result = -1 then hs\<lparr>hs_iReqType := 1002\<rparr> else hs)
           in map_option (Pair (sint (hs_iReqType hs)))
                (if result \<noteq> 1 then answer_handshake addr hs id hs_contentSize p U
                 else Some (emit (EnableWrite (u_SocketID U) (u_sPollID U)) U)))
      else Some (sint (hs_iReqType hs), U))"

definition listen_packet :: "env \<Rightarrow> (string \<Rightarrow> u8 list) \<Rightarrow> string \<times> string \<Rightarrow> (chandshake \<Rightarrow> int \<times> chandshake) \<Rightarrow> sockaddr \<Rightarrow> cpacket \<Rightarrow> 'c cudt \<Rightarrow> (int \<times> 'c cudt) option" where
  "listen_packet E md5 name newConnection addr p U =
     (if u_bClosing U then Some (1002, U)
      else if getLength p \<noteq> hs_contentSize then Some (1004, U)
      else do {
        (_, hs) \<leftarrow> hs_deserialize CHandShake (map word_of_int (payload_words (iov_base p))) (getLength p);
        let (now, U) = getTime E U;
        let t = cookie_time now (t_StartTime (u_trace U));
        if hs_iReqType hs = 1 then
          map_option (Pair 0) (answer_handshake addr (hs\<lparr>hs_iCookie := cookie_of md5 (cookie_text name t)\<rparr>) (sint (hs_iID hs)) (getLength p) p U)
        else if \<not> check_cookie md5 name t (hs_iCookie hs) then Some (-1, U)
        else admit newConnection addr hs p U })"

subsection \<open>Close\<close>

text \<open>One turn of the loop that waits for the data to be sent; \<open>enter\<close> is the time of the call.\<close>

datatype linger = Leave | Return | Sleep

definition linger_turn :: "env \<Rightarrow> u64 \<Rightarrow> 'c cudt \<Rightarrow> linger \<times> 'c cudt" where
  "linger_turn E enter U =
     (let l = int_u64 (snd (u_Linger U)) * 1000000 in
      if \<not> (\<not> u_bBroken U \<and> u_bConnected U \<and> getCurrBufSize (s_pSndBuffer (u_snd U)) > 0) then (Leave, U)
      else
        (let (now, U) = getTime E U in
         if \<not> now - enter < l then (Leave, U)
         else if u_ullLingerExpiration U \<ge> enter then (Leave, U)
         else if \<not> u_bSynSending U then
           (Return, if u_ullLingerExpiration U = 0 then U\<lparr>u_ullLingerExpiration := enter + l\<rparr> else U)
         else (Sleep, U)))"

text \<open>After the loop. \<open>polls\<close> is the set of epoll identifiers in the order in which they are visited.\<close>

definition close_rest :: "env \<Rightarrow> ('c \<Rightarrow> 'c) \<Rightarrow> int list \<Rightarrow> 'c cudt \<Rightarrow> 'c cudt option" where
  "close_rest E cc_close polls U =
     do { let U = (if u_bConnected U then emit SndListRemove U else U);
          let U = fold (\<lambda>eid. emit (RemoveUsock eid (u_SocketID U))) polls U;
          if \<not> u_bOpened U then Some U
          else do {
            let U = emit ReleaseSynch (U\<lparr>u_bClosing := True\<rparr>);
            let U = (if u_bListening U then emit RemoveListener (U\<lparr>u_bListening := False\<rparr>) else emit (RemoveConnector (u_SocketID U)) U);
            U \<leftarrow> (if u_bConnected U then do {
                   U \<leftarrow> (if \<not> u_bShutdown U then sendCtrl E 5 None None 0 U else Some U);
                   let U = on_cc cc_close U;
                   addr \<leftarrow> u_pPeerAddr U;
                   ip \<leftarrow> ib_convert addr (u_iIPversion U);
                   let U = emit (CacheUpdate ip (u_iIPversion U) (u_iRTT U) (u_iBandwidth U)) U;
                   Some (U\<lparr>u_bConnected := False\<rparr>) }
                 else Some U);
            Some (U\<lparr>u_bOpened := False\<rparr>) } }"

text \<open>Up to the first sleep; the flag says that the caller sleeps and \<open>linger_turn\<close> comes again.\<close>

definition close_udt :: "env \<Rightarrow> ('c \<Rightarrow> 'c) \<Rightarrow> int list \<Rightarrow> 'c cudt \<Rightarrow> (bool \<times> 'c cudt) option" where
  "close_udt E cc_close polls U =
     (if \<not> u_bOpened U then Some (False, U)
      else if fst (u_Linger U) \<noteq> 0 then
        (let (enter, U) = getTime E U; (v, U) = linger_turn E enter U
         in case v of Return \<Rightarrow> Some (False, U) | Sleep \<Rightarrow> Some (True, U) | Leave \<Rightarrow> map_option (Pair False) (close_rest E cc_close polls U))
      else map_option (Pair False) (close_rest E cc_close polls U))"

end
