(* ===== verification/UdtCoreData.thy ===== *)
theory UdtCoreData
  imports UdtCoreCtrl
begin

section \<open>UDT: data packets and timers\<close>

text \<open>
  \<open>CUDT::packData\<close>, \<open>processData\<close>, \<open>checkTimers\<close>, \<open>addEPoll\<close> and \<open>removeEPoll\<close>. A packet gets a copy of the data it
  points to in the sender's buffer.
\<close>

subsection \<open>Packing the next packet\<close>

definition sb_bytes :: "nat \<times> int \<Rightarrow> int \<Rightarrow> snd_buffer \<Rightarrow> u8 list option" where
  "sb_bytes ptr len B = (case ptr of (k, off) \<Rightarrow> do { pb \<leftarrow> rd (sb_pBuffer B) (int k); slice (p_pcData pb) off len })"

text \<open>The sequence number, the message number, and the data.\<close>

definition set_data :: "u32 \<Rightarrow> u8 list \<Rightarrow> cpacket \<Rightarrow> cpacket" where
  "set_data msgno bs p = (set_hdr 1 (sint msgno) p)\<lparr>iov_base := Some (Bytes bs)\<rparr>"

text \<open>
  A packet to send again: \<open>seqno\<close> is the number taken from the loss list. The result is the payload, 0 when
  nothing is to be sent. When the message has expired the receiver is asked to drop it.
\<close>

definition drop_request :: "env \<Rightarrow> int \<Rightarrow> u32 \<Rightarrow> int \<Rightarrow> 'c cudt \<Rightarrow> 'c cudt option" where
  "drop_request E seqno msgno mlen U =
     do { let last = incseq_by seqno mlen;
          U \<leftarrow> sendCtrl E 7 (Some (sint msgno)) (Some (Words [seqno, last])) 8 U;
          L \<leftarrow> snd_remove last (s_pSndLossList (u_snd U));
          let U = on_snd (s_pSndLossList_update (\<lambda>_. L)) U;
          Some (if seqcmp (s_iSndCurrSeqNo (u_snd U)) (incseq last) < 0
                then on_snd (s_iSndCurrSeqNo_update (\<lambda>_. incseq last)) U else U) }"

definition pack_lost :: "env \<Rightarrow> int \<Rightarrow> cpacket \<Rightarrow> 'c cudt \<Rightarrow> (int \<times> cpacket \<times> 'c cudt) option" where
  "pack_lost E seqno p U =
     do { let offset = seqoff (s_iSndLastDataAck (u_snd U)) seqno;
          if offset < 0 then Some (0, p, U)
          else do {
            let (now, U) = getTime E U;
            (r, B) \<leftarrow> readDataAt now offset (s_pSndBuffer (u_snd U));
            let U = on_snd (s_pSndBuffer_update (\<lambda>_. B)) U;
            case r of
              Expired msgno mlen \<Rightarrow> do {
                U \<leftarrow> drop_request E seqno msgno mlen U;
                Some (0, set_hdr 1 (sint msgno) p, U) }
            | ReadAt ptr len msgno \<Rightarrow> do {
                bs \<leftarrow> sb_bytes ptr len B;
                let p = set_data msgno bs p;
                if len = 0 then Some (0, p, U)
                else Some (len, p, on_trace (\<lambda>t. t\<lparr>t_iTraceRetrans := t_iTraceRetrans t + 1, t_iRetransTotal := t_iRetransTotal t + 1\<rparr>) U) } } }"

text \<open>A new packet, if the windows allow it and there is one; the flag says that it opens a probing pair.\<close>

definition no_packet :: "'c cudt \<Rightarrow> 'c cudt" where
  "no_packet U = on_snd (s_ullTimeDiff_update (\<lambda>_. 0)) (on_timers (m_ullTargetTime_update (\<lambda>_. 0)) U)"

definition send_window :: "'c cudt \<Rightarrow> int" where
  "send_window U =
     (let c = int_of_real (s_dCongestionWindow (u_snd U))
      in if s_iFlowWindowSize (u_snd U) < c then s_iFlowWindowSize (u_snd U) else c)"

definition probe_first :: "int \<Rightarrow> bool" where
  "probe_first seqno \<longleftrightarrow> (word_of_int seqno :: u32) AND 0xF = 0"

definition probe_second :: "int \<Rightarrow> bool" where
  "probe_second seqno \<longleftrightarrow> (word_of_int seqno :: u32) AND 0xF = 1"

definition pack_new :: "cpacket \<Rightarrow> 'x sock \<Rightarrow> ((int \<times> bool) option \<times> cpacket \<times> 'x sock) option" where
  "pack_new p U =
     (if send_window U \<ge> seqlen (s_iSndLastAck (u_snd U)) (incseq (s_iSndCurrSeqNo (u_snd U))) then do {
        (r, B) \<leftarrow> readData (s_pSndBuffer (u_snd U));
        let U = on_snd (s_pSndBuffer_update (\<lambda>_. B)) U;
        case r of None \<Rightarrow> Some (None, p, no_packet U)
        | Some (ptr, len, msgno) \<Rightarrow> do {
            bs \<leftarrow> sb_bytes ptr len B;
            let p = set_data msgno bs p;
            if len = 0 then Some (None, p, no_packet U)
            else do {
              let U = on_snd (s_iSndCurrSeqNo_update incseq) U;
              let U = on_cc (setSndCurrSeqNo (s_iSndCurrSeqNo (u_snd U))) U;
              let p = set_hdr 0 (s_iSndCurrSeqNo (u_snd U)) p;
              Some (Some (len, probe_first (s_iSndCurrSeqNo (u_snd U))), p, U) } } }
      else Some (None, p, no_packet U))"

text \<open>The header fields, the counters and the time of the next packet.\<close>

definition finish_packet :: "env \<Rightarrow> 'x cclass \<Rightarrow> u64 \<Rightarrow> int \<Rightarrow> bool \<Rightarrow> cpacket \<Rightarrow> 'x sock \<Rightarrow> int \<times> cpacket \<times> u64 \<times> 'x sock" where
  "finish_packet E V entertime payload probe p U =
     (let (now, U) = getTime E U;
          p = set_hdr 2 (uint (now - t_StartTime (u_trace U))) p;
          p = set_hdr 3 (u_PeerID U) p;
          p = setLength payload p;
          (c, U) = getTime E U;
          U = on_cc (cv_onPktSent V c p) U;
          U = on_trace (\<lambda>t. t\<lparr>t_llTraceSent := t_llTraceSent t + 1, t_llSentTotal := t_llSentTotal t + 1\<rparr>) U;
          interval = s_ullInterval (u_snd U);
          diff = s_ullTimeDiff (u_snd U);
          (ts, U) =
            (if probe then (entertime, U)
             else if diff \<ge> interval then (entertime, on_snd (s_ullTimeDiff_update (\<lambda>_. diff - interval)) U)
             else (entertime + interval - diff, on_snd (s_ullTimeDiff_update (\<lambda>_. 0)) U))
      in (payload, p, ts, on_timers (m_ullTargetTime_update (\<lambda>_. ts)) U))"

text \<open>The time by which the packet is late adds up.\<close>

definition pack_enter :: "env \<Rightarrow> 'c cudt \<Rightarrow> 'c cudt" where
  "pack_enter E U =
     (let (entertime, U) = rdtsc E U;
          target = m_ullTargetTime (u_timers U)
      in if target \<noteq> 0 \<and> entertime > target then on_snd (\<lambda>s. s\<lparr>s_ullTimeDiff := s_ullTimeDiff s + (entertime - target)\<rparr>) U else U)"

definition packData :: "env \<Rightarrow> 'x cclass \<Rightarrow> cpacket \<Rightarrow> u64 \<Rightarrow> 'x sock \<Rightarrow> (int \<times> cpacket \<times> u64 \<times> 'x sock) option" where
  "packData E V p ts U =
     do { let entertime = fst (rdtsc E U);
          let U = pack_enter E U;
          (seqno, L) \<leftarrow> getLostSeq (s_pSndLossList (u_snd U));
          let U = on_snd (s_pSndLossList_update (\<lambda>_. L)) U;
          let p = set_hdr 0 seqno p;
          if seqno \<ge> 0 then do {
            (payload, p, U) \<leftarrow> pack_lost E seqno p U;
            Some (if payload = 0 then (0, p, ts, U) else finish_packet E V entertime payload False p U) }
          else do {
            (r, p, U) \<leftarrow> pack_new p U;
            Some (case r of None \<Rightarrow> (0, p, 0, U) | Some (payload, probe) \<Rightarrow> finish_packet E V entertime payload probe p U) } }"

subsection \<open>Receiving a packet\<close>

definition arrival_times :: "env \<Rightarrow> int \<Rightarrow> 'c cudt \<Rightarrow> 'c cudt" where
  "arrival_times E seqno U =
     (let (t, U) = getTime E U;
          U = on_rcv (v_pRcvTimeWindow_update (onPktArrival t)) U
      in if probe_first seqno then (let (t, U) = getTime E U in on_rcv (v_pRcvTimeWindow_update (probe1Arrival t)) U)
         else if probe_second seqno then (let (t, U) = getTime E U in on_rcv (v_pRcvTimeWindow_update (probe2Arrival t)) U)
         else U)"

text \<open>A gap before the packet: its numbers are lost, and are reported at once.\<close>

definition detect_loss :: "env \<Rightarrow> int \<Rightarrow> 'c cudt \<Rightarrow> 'c cudt option" where
  "detect_loss E seqno U =
     (let first = incseq (v_iRcvCurrSeqNo (u_rcv U)); last = decseq seqno in
      if seqcmp seqno first > 0 then do {
        L \<leftarrow> rcv_insert first last (v_pRcvLossList (u_rcv U));
        let U = on_rcv (v_pRcvLossList_update (\<lambda>_. L)) U;
        U \<leftarrow> sendCtrl E 3 None (Some (Words [nak_flag first, last])) (if first = last then 1 else 2) U;
        let loss = seqlen (v_iRcvCurrSeqNo (u_rcv U)) seqno - 2;
        Some (on_trace (\<lambda>t. t\<lparr>t_iTraceRcvLoss := t_iTraceRcvLoss t + loss, t_iRcvLossTotal := t_iRcvLossTotal t + loss\<rparr>) U) }
      else Some U)"

text \<open>The newest number, or a packet that was lost.\<close>

definition note_received :: "int \<Rightarrow> 'c cudt \<Rightarrow> 'c cudt option" where
  "note_received seqno U =
     (if seqcmp seqno (v_iRcvCurrSeqNo (u_rcv U)) > 0 then Some (on_rcv (v_iRcvCurrSeqNo_update (\<lambda>_. seqno)) U)
      else do {
        (_, L) \<leftarrow> rcv_remove seqno (v_pRcvLossList (u_rcv U));
        Some (on_rcv (v_pRcvLossList_update (\<lambda>_. L)) U) })"

text \<open>The head of the method, up to the look at the number, and its end, for a packet that has been stored.\<close>

definition data_enter :: "env \<Rightarrow> 'x cclass \<Rightarrow> cpacket \<Rightarrow> 'x sock \<Rightarrow> 'x sock" where
  "data_enter E V packet U =
     (let (currtime, U) = heard E U;
          (t, U) = getTime E U;
          U = on_cc (cv_onPktReceived V t packet) U;
          U = on_timers (\<lambda>t. t\<lparr>m_iPktCount := m_iPktCount t + 1\<rparr>) U;
          U = arrival_times E (hdr 0 packet) U
      in on_trace (\<lambda>t. t\<lparr>t_llTraceRecv := t_llTraceRecv t + 1, t_llRecvTotal := t_llRecvTotal t + 1\<rparr>) U)"

definition data_finish :: "env \<Rightarrow> int \<Rightarrow> int \<Rightarrow> 'c cudt \<Rightarrow> 'c cudt option" where
  "data_finish E seqno len U =
     do { U \<leftarrow> detect_loss E seqno U;
          let U = (if len \<noteq> u_iPayloadSize U
                   then (let (t, U) = rdtsc E U in on_timers (m_ullNextACKTime_update (\<lambda>_. t)) U) else U);
          note_received seqno U }"

definition processData :: "env \<Rightarrow> 'x cclass \<Rightarrow> uptr \<Rightarrow> unit_queue \<Rightarrow> 'x sock \<Rightarrow> (int \<times> unit_queue \<times> 'x sock) option" where
  "processData E V u Q U =
     do { c \<leftarrow> get_unit u Q;
          let packet = cu_Packet c;
          let U = data_enter E V packet U;
          let offset = seqoff (v_iRcvLastAck (u_rcv U)) (hdr 0 packet);
          if offset < 0 \<or> offset \<ge> getAvailBufSize (v_pRcvBuffer (u_rcv U)) then Some (-1, Q, U)
          else do {
            (r, B, Q) \<leftarrow> addData u offset (v_pRcvBuffer (u_rcv U)) Q;
            let U = on_rcv (v_pRcvBuffer_update (\<lambda>_. B)) U;
            if r < 0 then Some (-1, Q, U)
            else do {
              U \<leftarrow> data_finish E (hdr 0 packet) (getLength packet) U;
              Some (0, Q, U) } } }"

subsection \<open>Timers\<close>

definition m_iSelfClockInterval :: int where
  "m_iSelfClockInterval = 64"

definition ack_timer :: "env \<Rightarrow> u64 \<Rightarrow> 'x sock \<Rightarrow> (u64 \<times> 'x sock) option" where
  "ack_timer E currtime U =
     (if currtime > m_ullNextACKTime (u_timers U) \<or>
         (cc_iACKInterval (u_pCC U) > 0 \<and> cc_iACKInterval (u_pCC U) \<le> m_iPktCount (u_timers U)) then do {
        U \<leftarrow> sendCtrl E 2 None None 0 U;
        let (currtime, U) = rdtsc E U;
        let next = (if cc_iACKPeriod (u_pCC U) > 0 then currtime + int_u64 (cc_iACKPeriod (u_pCC U)) * m_ullCPUFrequency (u_timers U)
                    else currtime + m_ullACKInt (u_timers U));
        Some (currtime, on_timers (\<lambda>t. t\<lparr>m_ullNextACKTime := next, m_iPktCount := 0, m_iLightACKCount := 1\<rparr>) U) }
      else if m_iSelfClockInterval * m_iLightACKCount (u_timers U) \<le> m_iPktCount (u_timers U) then do {
        U \<leftarrow> sendCtrl E 2 None None 4 U;
        Some (currtime, on_timers (\<lambda>t. t\<lparr>m_iLightACKCount := m_iLightACKCount t + 1\<rparr>) U) }
      else Some (currtime, U))"

definition next_exp_time :: "'x sock \<Rightarrow> u64" where
  "next_exp_time U =
     (let f = m_ullCPUFrequency (u_timers U); rsp = m_ullLastRspTime (u_timers U) in
      if cc_bUserDefinedRTO (u_pCC U) then rsp + int_u64 (cc_iRTO (u_pCC U)) * f
      else
        (let exp_int = int_u64 (i32 (u_iEXPCount U * (u_iRTT U + 4 * u_iRTTVar U) + m_iSYNInterval)) * f;
             least = int_u64 (u_iEXPCount U) * m_ullMinExpInt (u_timers U)
         in rsp + (if exp_int < least then least else exp_int)))"

definition give_up :: "'c cudt \<Rightarrow> 'c cudt" where
  "give_up U =
     (let U = broken 30 (U\<lparr>u_bClosing := True\<rparr>);
          U = emit (SndListUpdate True) U;
          U = emit ReleaseSynch U;
          U = emit (EnableRead (u_SocketID U) (u_sPollID U)) U;
          U = emit (EnableWrite (u_SocketID U) (u_sPollID U)) U
      in emit TriggerEvent U)"

text \<open>All that was sent and not acknowledged counts as lost.\<close>

definition lose_all :: "'c cudt \<Rightarrow> 'c cudt option" where
  "lose_all U =
     (if incseq (s_iSndCurrSeqNo (u_snd U)) \<noteq> s_iSndLastAck (u_snd U) \<and> snd_getLossLength (s_pSndLossList (u_snd U)) = 0 then do {
        (num, L) \<leftarrow> snd_insert (s_iSndLastAck (u_snd U)) (s_iSndCurrSeqNo (u_snd U)) (s_pSndLossList (u_snd U));
        let U = on_snd (s_pSndLossList_update (\<lambda>_. L)) U;
        Some (on_trace (\<lambda>t. t\<lparr>t_iTraceSndLoss := t_iTraceSndLoss t + num, t_iSndLossTotal := t_iSndLossTotal t + num\<rparr>) U) }
      else Some U)"

definition expired :: "env \<Rightarrow> 'x cclass \<Rightarrow> u64 \<Rightarrow> 'x sock \<Rightarrow> 'x sock option" where
  "expired E V currtime U =
     do { U \<leftarrow> (if getCurrBufSize (s_pSndBuffer (u_snd U)) > 0 then do {
                 U \<leftarrow> lose_all U;
                 let (t, U) = getTime E U;
                 let U = update_CC (on_cc (cv_onTimeout V t) U);
                 Some (emit (SndListUpdate True) U) }
               else sendCtrl E 1 None None 0 U);
          Some (on_timers (m_ullLastRspTime_update (\<lambda>_. currtime)) (U\<lparr>u_iEXPCount := u_iEXPCount U + 1\<rparr>)) }"

definition checkTimers :: "env \<Rightarrow> 'x cclass \<Rightarrow> 'x sock \<Rightarrow> 'x sock option" where
  "checkTimers E V U =
     do { let U = update_CC U;
          let (currtime, U) = rdtsc E U;
          (currtime, U) \<leftarrow> ack_timer E currtime U;
          if currtime > next_exp_time U then
            if u_iEXPCount U > 16 \<and> currtime - m_ullLastRspTime (u_timers U) > 5000000 * m_ullCPUFrequency (u_timers U)
            then Some (give_up U)
            else expired E V currtime U
          else Some U }"

subsection \<open>Epoll\<close>

definition addEPoll :: "int \<Rightarrow> unit_queue \<Rightarrow> 'c cudt \<Rightarrow> (unit_queue \<times> 'c cudt) option" where
  "addEPoll eid Q U =
     do { let U = U\<lparr>u_sPollID := insert eid (u_sPollID U)\<rparr>;
          if \<not> u_bConnected U \<or> u_bBroken U \<or> u_bClosing U then Some (Q, U)
          else do {
            (Q, U) \<leftarrow>
              (if u_bStream U \<and> getRcvDataSize (v_pRcvBuffer (u_rcv U)) > 0
               then Some (Q, emit (EnableRead (u_SocketID U) (u_sPollID U)) U)
               else if \<not> u_bStream U then do {
                 (n, B, Q) \<leftarrow> getRcvMsgNum (v_pRcvBuffer (u_rcv U)) Q;
                 let U = on_rcv (v_pRcvBuffer_update (\<lambda>_. B)) U;
                 Some (Q, if n > 0 then emit (EnableRead (u_SocketID U) (u_sPollID U)) U else U) }
               else Some (Q, U));
            Some (Q, if u_iSndBufSize U > getCurrBufSize (s_pSndBuffer (u_snd U))
                     then emit (EnableWrite (u_SocketID U) (u_sPollID U)) U else U) } }"

definition removeEPoll :: "int \<Rightarrow> 'c cudt \<Rightarrow> 'c cudt" where
  "removeEPoll eid U =
     (let U = U\<lparr>u_sPollID := u_sPollID U - {eid}\<rparr>;
          U = emit (DisableRead (u_SocketID U) (u_sPollID U)) U
      in emit (DisableWrite (u_SocketID U) (u_sPollID U)) U)"

end
