(* ===== verification/UdtSender.thy ===== *)
theory UdtSender
  imports UdtCoreData UdtLossIface UdtSndBufferSpec
begin

section \<open>UDT: the sender\<close>

text \<open>
  The sending half of a connection over the unbounded line of packet numbers: \<open>a\<close> is the first number
  that is not acknowledged in the buffer, \<open>k\<close> the last acknowledgement received, which light acknowledgements
  move ahead of \<open>a\<close>; \<open>ms1\<close> are the packets sent from \<open>a\<close> on, \<open>ms2\<close> those not yet sent, \<open>S\<close> the numbers to send
  again. \<open>W\<close> bounds what is in flight.
\<close>

definition snd_base :: "int \<Rightarrow> int \<Rightarrow> int \<Rightarrow> int set \<Rightarrow> packet list \<Rightarrow> packet list \<Rightarrow> udt_snd \<Rightarrow> bool" where
  "snd_base W a k S ms1 ms2 s \<longleftrightarrow>
     sb_rep (s_pSndBuffer s) ms1 ms2 \<and> snd_lost (s_pSndLossList s) S \<and>
     s_iSndLastDataAck s = wrap a \<and> s_iSndLastAck s = wrap k \<and> s_iSndCurrSeqNo s = wrap (a + int (length ms1) - 1) \<and>
     a \<le> k \<and> k \<le> a + int (length ms1) \<and> S \<subseteq> {a..<a + int (length ms1)} \<and>
     int (length ms1) \<le> W \<and> W \<le> m_iSize (s_pSndLossList s) \<and> W + 2 < m_iSeqNoTH \<and>
     (\<forall>m \<in> set ms1 \<union> set ms2. fst m \<noteq> [])"

definition snd_inv :: "int \<Rightarrow> int \<Rightarrow> int \<Rightarrow> int set \<Rightarrow> packet list \<Rightarrow> packet list \<Rightarrow> udt_snd \<Rightarrow> bool" where
  "snd_inv W a k S ms1 ms2 s \<longleftrightarrow> snd_base W a k S ms1 ms2 s \<and> s_iFlowWindowSize s + (k - a) \<le> W"

lemmas snd_inv_defs = snd_inv_def snd_base_def

lemma snd_baseD:
  assumes "snd_base W a k S ms1 ms2 s"
  shows "sb_rep (s_pSndBuffer s) ms1 ms2" "snd_lost (s_pSndLossList s) S"
    "s_iSndLastDataAck s = wrap a" "s_iSndLastAck s = wrap k" "s_iSndCurrSeqNo s = wrap (a + int (length ms1) - 1)"
    "a \<le> k" "k \<le> a + int (length ms1)" "S \<subseteq> {a..<a + int (length ms1)}"
    "int (length ms1) \<le> W" "W \<le> m_iSize (s_pSndLossList s)" "W + 2 < m_iSeqNoTH"
    "\<forall>m \<in> set ms1 \<union> set ms2. fst m \<noteq> []"
  using assms unfolding snd_base_def by blast+

lemma snd_invD:
  assumes "snd_inv W a k S ms1 ms2 s"
  shows "sb_rep (s_pSndBuffer s) ms1 ms2" "snd_lost (s_pSndLossList s) S"
    "s_iSndLastDataAck s = wrap a" "s_iSndLastAck s = wrap k" "s_iSndCurrSeqNo s = wrap (a + int (length ms1) - 1)"
    "a \<le> k" "k \<le> a + int (length ms1)" "S \<subseteq> {a..<a + int (length ms1)}"
    "int (length ms1) \<le> W" "s_iFlowWindowSize s + (k - a) \<le> W" "W \<le> m_iSize (s_pSndLossList s)" "W + 2 < m_iSeqNoTH"
    "\<forall>m \<in> set ms1 \<union> set ms2. fst m \<noteq> []"
  using assms unfolding snd_inv_def snd_base_def by blast+

text \<open>The invariant reads only these fields.\<close>

definition same_snd :: "udt_snd \<Rightarrow> udt_snd \<Rightarrow> bool" where
  "same_snd s s' \<longleftrightarrow> s_pSndBuffer s' = s_pSndBuffer s \<and> s_pSndLossList s' = s_pSndLossList s \<and>
     s_iSndLastDataAck s' = s_iSndLastDataAck s \<and> s_iSndLastAck s' = s_iSndLastAck s \<and>
     s_iSndCurrSeqNo s' = s_iSndCurrSeqNo s \<and> s_iFlowWindowSize s' = s_iFlowWindowSize s"

lemma snd_inv_cong: "same_snd s s' \<Longrightarrow> snd_inv W a k S ms1 ms2 s' \<longleftrightarrow> snd_inv W a k S ms1 ms2 s"
  by (simp add: snd_inv_defs same_snd_def)

lemma same_snd_refl [simp]: "same_snd s s"
  by (simp add: same_snd_def)

lemma same_snd_trans: "same_snd s t \<Longrightarrow> same_snd t r \<Longrightarrow> same_snd s r"
  by (simp add: same_snd_def)

lemma sint_31: "0 \<le> x \<Longrightarrow> x < 0x80000000 \<Longrightarrow> sint (word_of_int x :: 32 word) = x"
  by (simp add: sint_sbintrunc' signed_take_bit_int_eq_self)

lemma sint_wrap [simp]: "sint (word_of_int (wrap x) :: 32 word) = wrap x"
  using wrap_nonneg(1) [of x] wrap_less [of x] by (simp add: sint_31)

lemma hdr_wrap: "i < length (m_nHeader p) \<Longrightarrow> hdr i (set_hdr i (wrap x) p) = wrap x"
  by (simp add: hdr_def set_hdr_def)

subsection \<open>Packing\<close>

text \<open>A data packet as it leaves the sender.\<close>

definition carries :: "int \<Rightarrow> packet \<Rightarrow> cpacket \<Rightarrow> bool" where
  "carries n m p \<longleftrightarrow> hdr 0 p = wrap n \<and> m_nHeader p ! 1 = fst (snd m) \<and> iov_base p = Some (Bytes (fst m)) \<and>
     getLength p = int (length (fst m))"

lemma finish_packet_ok:
  assumes "finish_packet E V t payload probe p U = (l, p', ts, U')" "length (m_nHeader p) = 4"
    "hdr 0 p = wrap n" "m_nHeader p ! 1 = fst (snd m)" "iov_base p = Some (Bytes (fst m))" "payload = int (length (fst m))"
  shows "l = payload" "carries n m p'" "m_nHeader p' ! 3 = word_of_int (u_PeerID U)" "same_snd (u_snd U) (u_snd U')"
    "u_rcv U' = u_rcv U" "u_events U' = u_events U"
  using assms by (auto simp: finish_packet_def getTime_def Let_def carries_def setLength_def getLength_def set_hdr_def hdr_def
      same_snd_def split: if_splits)

lemma sb_bytes_ok:
  assumes "ptr_ok mss (sb_pBuffer B) ptr" "0 < mss" "int n \<le> mss" "bytes_at (sb_pBuffer B) ptr n = bs"
  shows "sb_bytes ptr (int n) B = Some bs"
  using ptr_ok_slice [OF assms(1-3)] assms(4) by (cases ptr) (simp add: sb_bytes_def split: if_splits)

lemma sb_rep_mss: "sb_rep B ms1 ms2 \<Longrightarrow> 0 < sb_iMSS B \<and> (\<forall>m \<in> set ms1 \<union> set ms2. int (length (fst m)) \<le> sb_iMSS B)"
proof -
  assume "sb_rep B ms1 ms2"
  then obtain us1 us2 fs where "sb_core B (sb_pLastBlock B) us1 us2 fs ms1 ms2" by (auto simp: sb_rep_def)
  then show ?thesis using sb_coreD(1,10) by blast
qed

lemma packData_enter:
  "packData E V p ts U =
     do { let U' = pack_enter E U;
          (seqno, L) \<leftarrow> getLostSeq (s_pSndLossList (u_snd U'));
          let U' = on_snd (s_pSndLossList_update (\<lambda>_. L)) U';
          let p = set_hdr 0 seqno p;
          if seqno \<ge> 0 then do {
            (payload, p, U') \<leftarrow> pack_lost E seqno p U';
            Some (if payload = 0 then (0, p, ts, U') else finish_packet E V (e_tsc E (u_ticks U)) payload False p U') }
          else do {
            (r, p, U') \<leftarrow> pack_new p U';
            Some (case r of None \<Rightarrow> (0, p, 0, U') | Some (payload, probe) \<Rightarrow> finish_packet E V (e_tsc E (u_ticks U)) payload probe p U') } }"
  by (simp add: packData_def rdtsc_def Let_def)

lemma pack_enter_ok: "same_snd (u_snd U) (u_snd (pack_enter E U))" "u_PeerID (pack_enter E U) = u_PeerID U"
    "u_rcv (pack_enter E U) = u_rcv U" "u_events (pack_enter E U) = u_events U" "s_dCongestionWindow (u_snd (pack_enter E U)) = s_dCongestionWindow (u_snd U)"
  by (simp_all add: pack_enter_def rdtsc_def Let_def same_snd_def)

text \<open>A lost packet that has not expired is sent again as it was.\<close>

lemma pack_lost_ok:
  assumes I: "snd_inv W a k S ms1 ms2 (u_snd U)" and n: "a \<le> n" "n < a + int (length ms1)"
    and m: "ms1 ! nat (n - a) = m"
    and fresh: "\<not> expired_at (e_time E (u_ticks U)) m"
  shows "\<exists>U'. pack_lost E (wrap n) p U = Some (int (length (fst m)), set_data (fst (snd m)) (fst m) p, U') \<and> u_snd U' = u_snd U \<and>
    u_rcv U' = u_rcv U \<and> u_events U' = u_events U \<and> u_PeerID U' = u_PeerID U"
proof -
  note D = snd_invD [OF I]
  obtain bs msgno t ttl where mm: "m = (bs, msgno, t, ttl)" by (cases m)
  have "near a n" using n D(9,12) by (simp add: near_def)
  then have off: "seqoff (s_iSndLastDataAck (u_snd U)) (wrap n) = int (nat (n - a))" using seqoff_wrap [of a n] n D(3) by simp
  have l: "nat (n - a) < length ms1" using n by linarith
  have at: "(ms1 @ ms2) ! nat (n - a) = (bs, msgno, t, ttl)" "nat (n - a) < length (ms1 @ ms2)" using l m mm by (simp_all add: nth_append)
  let ?t = "e_time E (u_ticks U)"
  have f: "\<not> (ttl \<ge> 0 \<and> (?t - t) div 1000 > word_of_int ttl)" using fresh mm by (simp add: expired_at_def)
  from readDataAt_rep [OF D(1) at(2,1) f] obtain ptr where R: "readDataAt ?t (int (nat (n - a))) (s_pSndBuffer (u_snd U)) =
      Some (ReadAt ptr (int (length bs)) msgno, s_pSndBuffer (u_snd U))"
    "bytes_at (sb_pBuffer (s_pSndBuffer (u_snd U))) ptr (length bs) = bs"
    "ptr_ok (sb_iMSS (s_pSndBuffer (u_snd U))) (sb_pBuffer (s_pSndBuffer (u_snd U))) ptr" by blast
  have inm: "m \<in> set ms1" using nth_mem [OF l] m by simp
  have len: "int (length bs) \<le> sb_iMSS (s_pSndBuffer (u_snd U))" "0 < sb_iMSS (s_pSndBuffer (u_snd U))"
    using sb_rep_mss [OF D(1)] inm mm by (auto dest!: bspec [of _ _ m])
  note b = sb_bytes_ok [OF R(3) len(2,1) R(2)]
  have "fst m \<noteq> []" using D(13) inm by blast
  then have ne: "bs \<noteq> []" using mm by simp
  show ?thesis using R(1) b off ne mm
    by (simp add: pack_lost_def getTime_def Let_def)
qed

text \<open>A new packet gets the next number, if the windows are open and there is one.\<close>

lemma window_len:
  assumes "snd_inv W a k S ms1 ms2 (u_snd U)"
  shows "seqlen (s_iSndLastAck (u_snd U)) (incseq (s_iSndCurrSeqNo (u_snd U))) = a + int (length ms1) - k + 1"
  using snd_invD(4,5,6,7,9,12) [OF assms] seqlen_wrap [of k "a + int (length ms1)"] incseq_wrap' [of "a + int (length ms1) - 1"] by simp

lemma pack_new_closed:
  assumes I: "snd_inv W a k S ms1 ms2 (u_snd U)"
    and c: "ms2 = [] \<or> send_window U \<le> a + int (length ms1) - k"
  shows "\<exists>U'. pack_new p U = Some (None, p, U') \<and> same_snd (u_snd U) (u_snd U') \<and> u_rcv U' = u_rcv U \<and> u_events U' = u_events U"
proof (cases "send_window U \<le> a + int (length ms1) - k")
  case True
  then show ?thesis using window_len [OF I] by (simp add: pack_new_def no_packet_def same_snd_def)
next
  case False
  then have "readData (s_pSndBuffer (u_snd U)) = Some (None, s_pSndBuffer (u_snd U))"
    using readData_rep(1) [OF snd_invD(1) [OF I]] c by simp
  then show ?thesis using window_len [OF I] False by (simp add: pack_new_def no_packet_def same_snd_def Let_def)
qed

lemma pack_new_ok:
  assumes I: "snd_inv W a k S ms1 (m # r) (u_snd U)" and w: "send_window U > a + int (length ms1) - k" and h: "length (m_nHeader p) = 4"
  shows "\<exists>U' p' pr. pack_new p U = Some (Some (int (length (fst m)), pr), p', U') \<and> snd_inv W a k S (ms1 @ [m]) r (u_snd U') \<and>
    length (m_nHeader p') = 4 \<and> hdr 0 p' = wrap (a + int (length ms1)) \<and> m_nHeader p' ! 1 = fst (snd m) \<and> iov_base p' = Some (Bytes (fst m)) \<and>
    u_rcv U' = u_rcv U \<and> u_events U' = u_events U \<and> u_PeerID U' = u_PeerID U"
proof -
  note D = snd_invD [OF I]
  let ?B = "s_pSndBuffer (u_snd U)"
  from readData_rep(2) [OF D(1) refl] obtain ptr B' where R: "readData ?B = Some (Some (ptr, int (length (fst m)), fst (snd m)), B')"
    "sb_pBuffer B' = sb_pBuffer ?B" "bytes_at (sb_pBuffer ?B) ptr (length (fst m)) = fst m" "sb_rep B' (ms1 @ [m]) r"
    "ptr_ok (sb_iMSS ?B) (sb_pBuffer ?B) ptr" by blast
  have len: "int (length (fst m)) \<le> sb_iMSS ?B" "0 < sb_iMSS ?B" using sb_rep_mss [OF D(1)] by simp_all
  have b: "sb_bytes ptr (int (length (fst m))) B' = Some (fst m)"
    by (rule sb_bytes_ok) (use R(2,3,5) len in simp_all)
  have ne: "fst m \<noteq> []" using D(13) by simp
  have w': "\<not> send_window U < a + int (length ms1) - k + 1" using w by simp
  let ?n = "a + int (length ms1)"
  have c: "incseq (s_iSndCurrSeqNo (u_snd U)) = wrap ?n" using D(5) incseq_wrap' [of "?n - 1"] by simp
  have flow: "s_iFlowWindowSize (u_snd U) \<ge> send_window U" by (simp add: send_window_def Let_def)
  let ?s = "(u_snd U)\<lparr>s_pSndBuffer := B', s_iSndCurrSeqNo := wrap ?n\<rparr>"
  have "snd_inv W a k S (ms1 @ [m]) r ?s"
    unfolding snd_inv_defs using D R(4) flow w by auto
  moreover have "s_iSndCurrSeqNo_update incseq ((u_snd U)\<lparr>s_pSndBuffer := B'\<rparr>) = ?s" using c by (cases "u_snd U") simp
  ultimately have "snd_inv W a k S (ms1 @ [m]) r (s_iSndCurrSeqNo_update incseq ((u_snd U)\<lparr>s_pSndBuffer := B'\<rparr>))" by (simp only:)
  then show ?thesis using R(1) b ne w' window_len [OF I] c h
    by (simp add: pack_new_def Let_def set_data_def set_hdr_def hdr_def)
qed

text \<open>What \<open>packData\<close> sends.\<close>

text \<open>The time at which it looks whether the packet to send again has expired.\<close>

definition pack_time :: "env \<Rightarrow> 'c cudt \<Rightarrow> u64" where
  "pack_time E U = fst (getTime E (pack_enter E U))"

lemma packData_lost:
  assumes I: "snd_inv W a k S ms1 ms2 (u_snd U)" and S: "S \<noteq> {}" and h: "length (m_nHeader p) = 4"
    and f: "\<not> expired_at (pack_time E U) (ms1 ! nat (Min S - a))"
  shows "\<exists>p' ts' U'. packData E V p ts U = Some (int (length (fst (ms1 ! nat (Min S - a)))), p', ts', U') \<and>
    carries (Min S) (ms1 ! nat (Min S - a)) p' \<and> m_nHeader p' ! 3 = word_of_int (u_PeerID U) \<and>
    snd_inv W a k (S - {Min S}) ms1 ms2 (u_snd U') \<and> u_rcv U' = u_rcv U \<and> u_events U' = u_events U"
proof -
  note D = snd_invD [OF I]
  obtain E1 where E1: "E1 = pack_enter E U" by blast
  have same: "same_snd (u_snd U) (u_snd E1)" "u_PeerID E1 = u_PeerID U" "u_rcv E1 = u_rcv U" "u_events E1 = u_events U"
    unfolding E1 by (rule pack_enter_ok)+
  let ?n = "Min S" and ?m = "ms1 ! nat (Min S - a)"
  have fin: "finite S" using D(8) finite_subset by blast
  then have "?n \<in> S" using S by simp
  then have n: "?n \<in> S" "a \<le> ?n" "?n < a + int (length ms1)" using D(8) by (auto dest: subsetD)
  obtain L where L: "getLostSeq (s_pSndLossList (u_snd U)) = Some (wrap ?n, L)" "snd_lost L (S - {?n})"
    "m_iSize L = m_iSize (s_pSndLossList (u_snd U))" using snd_lost_next(2) [OF D(2) S] by blast
  obtain E2 where E2: "E2 = E1\<lparr>u_snd := (u_snd E1)\<lparr>s_pSndLossList := L\<rparr>\<rparr>" by blast
  have I2: "snd_inv W a k (S - {?n}) ms1 ms2 (u_snd E2)"
    using D L same(1) unfolding E2 snd_inv_defs same_snd_def by auto
  have l: "nat (?n - a) < length ms1" using n by linarith
  have fr: "\<not> expired_at (e_time E (u_ticks E2)) ?m" using f by (simp add: pack_time_def getTime_def E1 E2)
  from pack_lost_ok [OF I2 n(2,3) refl, of E "set_hdr 0 (wrap ?n) p"] fr obtain U3 where
    P: "pack_lost E (wrap ?n) (set_hdr 0 (wrap ?n) p) E2 = Some (int (length (fst ?m)), set_data (fst (snd ?m)) (fst ?m) (set_hdr 0 (wrap ?n) p), U3)"
      "u_snd U3 = u_snd E2" "u_rcv U3 = u_rcv E2" "u_events U3 = u_events E2" "u_PeerID U3 = u_PeerID E2"
    by blast
  have ne: "fst ?m \<noteq> []" using D(13) nth_mem [OF l] by blast
  let ?p = "set_data (fst (snd ?m)) (fst ?m) (set_hdr 0 (wrap ?n) p)"
  obtain l' p' ts' U' where F: "finish_packet E V (e_tsc E (u_ticks U)) (int (length (fst ?m))) False ?p U3 = (l', p', ts', U')"
    by (metis prod_cases4)
  have hp: "length (m_nHeader ?p) = 4" "hdr 0 ?p = wrap ?n" "m_nHeader ?p ! 1 = fst (snd ?m)" "iov_base ?p = Some (Bytes (fst ?m))"
    using h hdr_wrap [of 0 p ?n] by (simp_all add: set_data_def set_hdr_def hdr_def)
  note F' = finish_packet_ok [OF F hp refl]
  have LL: "s_pSndLossList (u_snd E1) = s_pSndLossList (u_snd U)" using same(1) by (simp add: same_snd_def)
  have "packData E V p ts U = Some (int (length (fst ?m)), p', ts', U')"
    unfolding packData_enter E1 [symmetric] Let_def LL L(1) using P(1) F ne wrap_nonneg(1) [of ?n] F'(1) by (simp add: E2 Let_def)
  moreover have "snd_inv W a k (S - {?n}) ms1 ms2 (u_snd U')"
    using I2 snd_inv_cong [OF F'(4)] P(2) by simp
  ultimately show ?thesis using F' P same E2 by auto
qed

lemma packData_no_loss:
  assumes I: "snd_inv W a k {} ms1 ms2 (u_snd U)"
  shows "packData E V p ts U = map_option
    (\<lambda>(r, p, U'). case r of None \<Rightarrow> (0, p, 0, U') | Some (payload, probe) \<Rightarrow> finish_packet E V (e_tsc E (u_ticks U)) payload probe p U')
    (pack_new (set_hdr 0 (-1) p) (pack_enter E U))"
    "snd_inv W a k {} ms1 ms2 (u_snd (pack_enter E U))" "send_window (pack_enter E U) = send_window U"
proof -
  have same: "same_snd (u_snd U) (u_snd (pack_enter E U))" by (rule pack_enter_ok)
  show "snd_inv W a k {} ms1 ms2 (u_snd (pack_enter E U))" using snd_inv_cong [OF same] I by simp
  show "send_window (pack_enter E U) = send_window U"
    using same pack_enter_ok(5) [of E U] by (simp add: send_window_def same_snd_def Let_def)
  have L: "getLostSeq (s_pSndLossList (u_snd (pack_enter E U))) = Some (-1, s_pSndLossList (u_snd (pack_enter E U)))"
    using snd_lost_next(1) [OF snd_invD(2) [OF I] refl] same by (simp add: same_snd_def)
  show "packData E V p ts U = map_option
    (\<lambda>(r, p, U'). case r of None \<Rightarrow> (0, p, 0, U') | Some (payload, probe) \<Rightarrow> finish_packet E V (e_tsc E (u_ticks U)) payload probe p U')
    (pack_new (set_hdr 0 (-1) p) (pack_enter E U))"
    unfolding packData_enter Let_def L by (cases "pack_new (set_hdr 0 (-1) p) (pack_enter E U)") (simp_all split: prod.splits)
qed

lemma packData_closed:
  assumes I: "snd_inv W a k {} ms1 ms2 (u_snd U)"
    and c: "ms2 = [] \<or> send_window U \<le> a + int (length ms1) - k"
  shows "\<exists>p' U'. packData E V p ts U = Some (0, p', 0, U') \<and> snd_inv W a k {} ms1 ms2 (u_snd U') \<and> u_rcv U' = u_rcv U \<and>
    u_events U' = u_events U"
proof -
  note N = packData_no_loss [OF I, where E = E]
  have c': "ms2 = [] \<or> send_window (pack_enter E U) \<le> a + int (length ms1) - k" using c N(3) by simp
  from pack_new_closed [OF N(2) c'] obtain U' where
    "pack_new (set_hdr 0 (-1) p) (pack_enter E U) = Some (None, set_hdr 0 (-1) p, U')" "same_snd (u_snd (pack_enter E U)) (u_snd U')"
    "u_rcv U' = u_rcv (pack_enter E U)" "u_events U' = u_events (pack_enter E U)" by blast
  then show ?thesis using N snd_inv_cong pack_enter_ok(3,4) by (fastforce simp: N(1))
qed

lemma packData_new:
  assumes I: "snd_inv W a k {} ms1 (m # r) (u_snd U)" and w: "send_window U > a + int (length ms1) - k" and h: "length (m_nHeader p) = 4"
  shows "\<exists>p' ts' U'. packData E V p ts U = Some (int (length (fst m)), p', ts', U') \<and>
    carries (a + int (length ms1)) m p' \<and> m_nHeader p' ! 3 = word_of_int (u_PeerID U) \<and>
    snd_inv W a k {} (ms1 @ [m]) r (u_snd U') \<and> u_rcv U' = u_rcv U \<and> u_events U' = u_events U"
proof -
  note N = packData_no_loss [OF I, where E = E]
  have hp: "length (m_nHeader (set_hdr 0 (-1) p)) = 4" using h by (simp add: set_hdr_def)
  have w': "send_window (pack_enter E U) > a + int (length ms1) - k" using w N(3) by simp
  from pack_new_ok [OF N(2) w' hp] obtain U2 p2 pr where P: "pack_new (set_hdr 0 (-1) p) (pack_enter E U) = Some (Some (int (length (fst m)), pr), p2, U2)"
    "snd_inv W a k {} (ms1 @ [m]) r (u_snd U2)" "length (m_nHeader p2) = 4" "hdr 0 p2 = wrap (a + int (length ms1))" "m_nHeader p2 ! 1 = fst (snd m)"
    "iov_base p2 = Some (Bytes (fst m))" "u_rcv U2 = u_rcv (pack_enter E U)" "u_events U2 = u_events (pack_enter E U)" "u_PeerID U2 = u_PeerID (pack_enter E U)"
    by blast
  obtain l' p' ts' U' where F: "finish_packet E V (e_tsc E (u_ticks U)) (int (length (fst m))) pr p2 U2 = (l', p', ts', U')"
    by (metis prod_cases4)
  note F' = finish_packet_ok [OF F P(3-6) refl]
  have "packData E V p ts U = Some (int (length (fst m)), p', ts', U')" unfolding N(1) P(1) using F F'(1) by simp
  moreover have "snd_inv W a k {} (ms1 @ [m]) r (u_snd U')" using snd_inv_cong [OF F'(4)] P(2) by simp
  ultimately show ?thesis using F' P(7-9) pack_enter_ok(2-4) by metis
qed

end
