(* ===== verification/UdtSenderAck.thy ===== *)
theory UdtSenderAck
  imports UdtSender
begin

section \<open>UDT: the sender hears from the receiver\<close>

subsection \<open>The running estimates\<close>

text \<open>As long as the samples are below \<open>2 ^ 28\<close> the estimates stay below it, and nothing overflows.\<close>

definition sample_ok :: "int \<Rightarrow> bool" where
  "sample_ok x \<longleftrightarrow> 0 \<le> x \<and> x < 2 ^ 28"

definition est_ok :: "'c cudt \<Rightarrow> bool" where
  "est_ok U \<longleftrightarrow> sample_ok (u_iRTT U) \<and> sample_ok (u_iRTTVar U) \<and> sample_ok (u_iDeliveryRate U) \<and> sample_ok (u_iBandwidth U)"

lemma ck_Some: "fits_int x \<Longrightarrow> ck x = Some x"
  by (simp add: ck_def)

lemma drop_bit_3: "drop_bit 3 (x :: int) = x div 8" and drop_bit_2: "drop_bit 2 (x :: int) = x div 4"
  by (simp_all add: drop_bit_eq_div)

lemma sample_div: "0 \<le> y \<Longrightarrow> y < 0x80000000 \<Longrightarrow> sample_ok (y div 8)" "0 \<le> y \<Longrightarrow> y < 0x40000000 \<Longrightarrow> sample_ok (y div 4)"
  unfolding sample_ok_def by (simp_all, linarith+)

lemma update_rtt_ok:
  assumes "sample_ok x" "sample_ok (u_iRTT U)" "sample_ok (u_iRTTVar U)"
  shows "\<exists>r v. update_rtt x U = Some (U\<lparr>u_iRTTVar := v, u_iRTT := r, u_pCC := setRTT r (u_pCC U)\<rparr>) \<and> sample_ok r \<and> sample_ok v"
proof -
  let ?r = "(u_iRTT U * 7 + x) div 8" and ?v = "(u_iRTTVar U * 3 + \<bar>x - u_iRTT U\<bar>) div 4"
  have b: "0 \<le> x" "x < 0x10000000" "0 \<le> u_iRTT U" "u_iRTT U < 0x10000000" "0 \<le> u_iRTTVar U" "u_iRTTVar U < 0x10000000"
    using assms by (simp_all add: sample_ok_def)
  have "0 \<le> u_iRTT U * 7 + x" "u_iRTT U * 7 + x < 0x80000000" using b by linarith+
  then have "sample_ok ?r" by (rule sample_div)
  moreover have "0 \<le> u_iRTTVar U * 3 + \<bar>x - u_iRTT U\<bar>" "u_iRTTVar U * 3 + \<bar>x - u_iRTT U\<bar> < 0x40000000" using b by linarith+
  then have "sample_ok ?v" by (rule sample_div)
  ultimately have "sample_ok ?r" "sample_ok ?v" by blast+
  moreover have "update_rtt x U = Some (U\<lparr>u_iRTTVar := ?v, u_iRTT := ?r, u_pCC := setRTT ?r (u_pCC U)\<rparr>)"
  proof -
    have "fits_int (x - u_iRTT U)" "fits_int (u_iRTTVar U * 3)" "fits_int (u_iRTT U * 7)" "fits_int \<bar>x - u_iRTT U\<bar>"
      "fits_int (u_iRTTVar U * 3 + \<bar>x - u_iRTT U\<bar>)" "fits_int (u_iRTT U * 7 + x)"
      using b unfolding fits_int_def by (simp; linarith)+
    then show ?thesis by (simp add: update_rtt_def ck_Some drop_bit_3 drop_bit_2 Let_def)
  qed
  ultimately show ?thesis by blast
qed

lemma average8_ok: "sample_ok old \<Longrightarrow> sample_ok x \<Longrightarrow> \<exists>r. average8 old x = Some r \<and> sample_ok r"
  by (auto simp: average8_def ck_def fits_int_def sample_ok_def drop_bit_3)

subsection \<open>Acknowledgements\<close>

text \<open>
  A full acknowledgement whose values the peer chose: the window is at most \<open>W\<close>, and in an \<open>ack_packet\<close> the samples of
  round-trip time and rates are in range.
\<close>

definition full_ack :: "int \<Rightarrow> int list \<Rightarrow> cpacket \<Rightarrow> bool" where
  "full_ack W ws p \<longleftrightarrow> iov_base p = Some (Words ws) \<and> getLength p \<noteq> 4 \<and> 4 \<le> length ws \<and> ws ! 3 \<le> W"

definition ack_packet :: "int \<Rightarrow> int list \<Rightarrow> cpacket \<Rightarrow> bool" where
  "ack_packet W ws p \<longleftrightarrow> full_ack W ws p \<and> sample_ok (ws ! 1) \<and>
     (getLength p > 16 \<longrightarrow> 6 \<le> length ws \<and> sample_ok (ws ! 4) \<and> sample_ok (ws ! 5))"

lemma ctl_word_nth: "iov_base p = Some (Words ws) \<Longrightarrow> i < length ws \<Longrightarrow> ctl_word p i = Some (ws ! i)"
  by (simp add: ctl_word_def payload_words_def)

lemma answer_ack_ok:
  "\<exists>U'. answer_ack E t n U = Some U' \<and> same_snd (u_snd U) (u_snd U') \<and> u_rcv U' = u_rcv U \<and> u_iRTT U' = u_iRTT U \<and> u_iRTTVar U' = u_iRTTVar U \<and>
     u_iDeliveryRate U' = u_iDeliveryRate U \<and> u_iBandwidth U' = u_iBandwidth U \<and> u_bBroken U' = u_bBroken U"
  by (simp add: answer_ack_def getTime_def Let_def sendCtrl_def pack_def send_peer_def emit_def same_snd_def)

lemma wake_sender_ok [simp]:
  "u_snd (wake_sender U) = u_snd U" "u_rcv (wake_sender U) = u_rcv U" "u_iRTT (wake_sender U) = u_iRTT U" "u_iRTTVar (wake_sender U) = u_iRTTVar U"
  "u_iDeliveryRate (wake_sender U) = u_iDeliveryRate U" "u_iBandwidth (wake_sender U) = u_iBandwidth U" "u_bBroken (wake_sender U) = u_bBroken U"
  by (simp_all add: wake_sender_def emit_def Let_def)

lemma update_rates_ok:
  assumes p: "ack_packet W ws p" and e: "est_ok U"
  shows "\<exists>U'. update_rates p U = Some U' \<and> u_snd U' = u_snd U \<and> est_ok U' \<and> u_rcv U' = u_rcv U \<and> u_bBroken U' = u_bBroken U"
proof (cases "getLength p > 16")
  case True
  then have ws: "ctl_word p 4 = Some (ws ! 4)" "ctl_word p 5 = Some (ws ! 5)" "sample_ok (ws ! 4)" "sample_ok (ws ! 5)"
    using p by (auto simp: ack_packet_def full_ack_def intro: ctl_word_nth)
  obtain r4 where "average8 (u_iDeliveryRate U) (ws ! 4) = Some r4" "sample_ok r4"
    using average8_ok [OF _ ws(3)] e by (auto simp: est_ok_def)
  moreover obtain r5 where "average8 (u_iBandwidth U) (ws ! 5) = Some r5" "sample_ok r5"
    using average8_ok [OF _ ws(4)] e by (auto simp: est_ok_def)
  ultimately show ?thesis using True ws e by (simp add: update_rates_def Let_def est_ok_def)
qed (use e in \<open>simp add: update_rates_def\<close>)

lemma after_ack_ok:
  assumes p: "ack_packet W ws p" and e: "est_ok U"
  shows "\<exists>U'. after_ack E V p ack U = Some U' \<and> same_snd (u_snd U) (u_snd U') \<and> est_ok U' \<and> u_rcv U' = u_rcv U \<and> u_bBroken U' = u_bBroken U"
proof -
  have w: "ctl_word p 1 = Some (ws ! 1)" "sample_ok (ws ! 1)" using p by (auto simp: ack_packet_def full_ack_def intro: ctl_word_nth)
  let ?U = "wake_sender U"
  obtain r v where R: "update_rtt (ws ! 1) ?U = Some (?U\<lparr>u_iRTTVar := v, u_iRTT := r, u_pCC := setRTT r (u_pCC ?U)\<rparr>)" "sample_ok r" "sample_ok v"
    using update_rtt_ok [OF w(2), of ?U] e by (auto simp: est_ok_def)
  let ?U2 = "?U\<lparr>u_iRTTVar := v, u_iRTT := r, u_pCC := setRTT r (u_pCC ?U)\<rparr>"
  have "est_ok ?U2" using R(2,3) e by (simp add: est_ok_def)
  from update_rates_ok [OF p this] obtain U3 where
    "update_rates p ?U2 = Some U3" "u_snd U3 = u_snd U" "est_ok U3" "u_rcv U3 = u_rcv U" "u_bBroken U3 = u_bBroken U" by auto
  then show ?thesis using w(1) R(1)
    by (simp add: after_ack_def getTime_def update_CC_def Let_def same_snd_def est_ok_def)
qed

lemma ack_buffer_ok:
  assumes I: "snd_base W a k S ms1 ms2 (u_snd U)" and x: "a < x" "x \<le> k"
  shows "\<exists>U'. ack_buffer t (x - a) (wrap x) U = Some U' \<and> snd_base W x k {n \<in> S. x \<le> n} (drop (nat (x - a)) ms1) ms2 (u_snd U') \<and>
    s_iFlowWindowSize (u_snd U') = s_iFlowWindowSize (u_snd U) \<and> u_rcv U' = u_rcv U \<and> est_ok U' = est_ok U \<and> u_bBroken U' = u_bBroken U"
proof -
  note D = snd_baseD [OF I]
  have l: "nat (x - a) \<le> length ms1" "int (nat (x - a)) = x - a" using x D(7) by linarith+
  from ackData_rep [OF D(1) l(1)] obtain B where B: "sb_ackData (x - a) (s_pSndBuffer (u_snd U)) = Some B"
    "sb_rep B (drop (nat (x - a)) ms1) ms2" using l(2) by auto
  have near: "near (Min S) (x - 1)" if "S \<noteq> {}"
  proof -
    have "finite S" using D(8) finite_subset by blast
    then have "Min S \<in> {a..<a + int (length ms1)}" using that D(8) Min_in by blast
    then show ?thesis using x D(7,9,11) by (auto simp: near_def)
  qed
  from snd_lost_remove [OF D(2) near] obtain L where L: "snd_remove (wrap (x - 1)) (s_pSndLossList (u_snd U)) = Some L"
    "snd_lost L {n \<in> S. x - 1 < n}" "m_iSize L = m_iSize (s_pSndLossList (u_snd U))" by blast
  have S: "{n \<in> S. x - 1 < n} = {n \<in> S. x \<le> n}" by auto
  let ?s = "(u_snd U)\<lparr>s_pSndBuffer := B, s_iSndLastDataAck := wrap x, s_pSndLossList := L\<rparr>"
  have len: "int (length (drop (nat (x - a)) ms1)) = a + int (length ms1) - x" using l by simp
  have sub: "set (drop (nat (x - a)) ms1) \<subseteq> set ms1" by (rule set_drop_subset)
  have "snd_base W x k {n \<in> S. x \<le> n} (drop (nat (x - a)) ms1) ms2 ?s"
    unfolding snd_base_def len using D B(2) L(2,3) x sub unfolding S by auto
  then show ?thesis using B(1) L(1) by (simp add: ack_buffer_def decseq_wrap' Let_def est_ok_def)
qed

text \<open>The state after the flow window and the last acknowledgement have been updated.\<close>

definition take_window :: "int \<Rightarrow> int \<Rightarrow> int \<Rightarrow> 'c cudt \<Rightarrow> 'c cudt" where
  "take_window k x w U = (if k \<le> x then U\<lparr>u_snd := (u_snd U)\<lparr>s_iFlowWindowSize := w, s_iSndLastAck := wrap x\<rparr>\<rparr> else U)"

lemma take_window_ok:
  assumes I: "snd_inv W a k S ms1 ms2 (u_snd U)" and x: "x \<le> a + int (length ms1)" "a \<le> x \<or> x < k" and w: "w \<le> W"
  shows "snd_base W a (max k x) S ms1 ms2 (u_snd (take_window k x w U))"
    "s_iFlowWindowSize (u_snd (take_window k x w U)) + (max k x - max a x) \<le> W"
    "u_rcv (take_window k x w U) = u_rcv U" "est_ok (take_window k x w U) = est_ok U" "u_bBroken (take_window k x w U) = u_bBroken U"
    "s_iSndLastDataAck (u_snd (take_window k x w U)) = wrap a"
  using snd_invD [OF I] x w unfolding take_window_def snd_base_def by (auto simp: est_ok_def)

lemma process_data_ack_steps:
  assumes I: "snd_inv W a k S ms1 ms2 (u_snd U)" and p: "full_ack W ws p"
    and x: "ws ! 0 = wrap x" "near x (a + int (length ms1))"
  shows "process_data_ack E V t p U =
    (if x > a + int (length ms1) then Some (broken 0 U)
     else let U1 = take_window k x (ws ! 3) U in
       if x \<le> a then Some U1 else do { U \<leftarrow> ack_buffer t (x - a) (wrap x) U1; after_ack E V p (wrap x) U })"
proof -
  note D = snd_invD [OF I]
  let ?c = "a + int (length ms1)"
  have "iov_base p = Some (Words ws)" "4 \<le> length ws" using p by (simp_all add: full_ack_def)
  then have w0: "ctl_word p 0 = Some (wrap x)" and w3: "ctl_word p 3 = Some (ws ! 3)"
    using x(1) ctl_word_nth [of p ws 0] ctl_word_nth [of p ws 3] by (cases ws; simp)+
  have c: "incseq (s_iSndCurrSeqNo (u_snd U)) = wrap ?c" using D(5) incseq_wrap' [of "?c - 1"] by simp
  show ?thesis
  proof (cases "x > ?c")
    case True
    then show ?thesis using w0 c seqcmp_wrap(2) [OF x(2)] by (simp add: process_data_ack_def)
  next
    case False
    have nk: "near x k" "near a x" using False x(2) D(6,7,9,12) by (auto simp: near_def)
    have u: "(if seqcmp (wrap x) (s_iSndLastAck (u_snd U)) \<ge> 0 then do {
                   w \<leftarrow> ctl_word p 3;
                   Some (on_snd (\<lambda>s. s\<lparr>s_iFlowWindowSize := w, s_iSndLastAck := wrap x\<rparr>) U) }
                 else Some U) = Some (take_window k x (ws ! 3) U)"
      using seqcmp_wrap(4) [OF nk(1)] D(4) w3 by (simp add: take_window_def)
    have "s_iSndLastDataAck (u_snd (take_window k x (ws ! 3) U)) = wrap a" using D(3) by (simp add: take_window_def)
    then have "seqoff (s_iSndLastDataAck (u_snd (take_window k x (ws ! 3) U))) (wrap x) = x - a"
      using seqoff_wrap [OF nk(2)] by simp
    then show ?thesis unfolding process_data_ack_def w0
      using u c seqcmp_wrap(2) [OF x(2)] False by (simp add: Let_def)
  qed
qed

text \<open>What follows an acknowledgement of data does not touch the sending half, whatever the samples are.\<close>

lemma after_ack_frame:
  assumes "after_ack E V p ack U = Some U'"
  shows "same_snd (u_snd U) (u_snd U')" "u_rcv U' = u_rcv U" "u_bBroken U' = u_bBroken U"
proof -
  obtain r U1 U2 where "update_rtt r (wake_sender U) = Some U1" "update_rates p U1 = Some U2"
    and U': "U' = (let (t, U) = getTime E U2; U = update_CC (on_cc (cv_onACK V t ack) U)
      in on_trace (\<lambda>t. t\<lparr>t_iRecvACK := t_iRecvACK t + 1, t_iRecvACKTotal := t_iRecvACKTotal t + 1\<rparr>) U)"
    using assms by (auto simp: after_ack_def bind_eq_Some_conv Let_def split_def)
  then have "u_snd U2 = u_snd U \<and> u_rcv U2 = u_rcv U \<and> u_bBroken U2 = u_bBroken U"
    by (auto simp: update_rtt_def update_rates_def bind_eq_Some_conv Let_def split: if_splits)
  then show "same_snd (u_snd U) (u_snd U')" "u_rcv U' = u_rcv U" "u_bBroken U' = u_bBroken U"
    by (simp_all add: U' getTime_def update_CC_def same_snd_def Let_def)
qed

text \<open>
  Any sequence number \<open>x\<close> in the acknowledgement, as a number of the line near the last one sent: beyond the next
  one to be sent it breaks the connection, otherwise the sender moves to it.
\<close>

lemma process_data_ack_ok:
  assumes I: "snd_inv W a k S ms1 ms2 (u_snd U)" and p: "full_ack W ws p"
    and x: "ws ! 0 = wrap x" "near x (a + int (length ms1))" and R: "process_data_ack E V t p U = Some U'"
  shows "u_rcv U' = u_rcv U \<and>
    (if x > a + int (length ms1) then u_bBroken U' \<and> u_snd U' = u_snd U
     else snd_inv W (max a x) (max k x) {n \<in> S. x \<le> n} (drop (nat (x - a)) ms1) ms2 (u_snd U') \<and> u_bBroken U' = u_bBroken U)"
proof -
  note D = snd_invD [OF I] and steps = R [unfolded process_data_ack_steps [OF I p x, of E V t]]
  consider (beyond) "x > a + int (length ms1)" | (old) "x < a" | (same) "x = a" | (new) "a < x" "x \<le> a + int (length ms1)" by linarith
  then show ?thesis
  proof cases
    case beyond
    then show ?thesis using steps by (auto simp: broken_def)
  next
    case old
    have "{n \<in> S. x \<le> n} = S" using old D(8) by auto
    then show ?thesis using steps old D(6,7) I by (auto simp: take_window_def Let_def)
  next
    case same
    have "{n \<in> S. x \<le> n} = S" using same D(8) by auto
    moreover have w: "ws ! 3 \<le> W" using p by (simp add: full_ack_def)
    moreover note T = take_window_ok [OF I _ _ w, of x]
    ultimately show ?thesis using steps same D(6,7) by (auto simp: snd_inv_def Let_def max_absorb1)
  next
    case new
    have w: "ws ! 3 \<le> W" using p by (simp add: full_ack_def)
    have ax: "a \<le> x \<or> x < k" using new by simp
    note T = take_window_ok [OF I new(2) ax w]
    obtain U1 where U1: "U1 = take_window k x (ws ! 3) U" by blast
    from ack_buffer_ok [OF T(1) new(1), of t] obtain U2 where
      U2: "ack_buffer t (x - a) (wrap x) U1 = Some U2" "snd_base W x (max k x) {n \<in> S. x \<le> n} (drop (nat (x - a)) ms1) ms2 (u_snd U2)"
      "s_iFlowWindowSize (u_snd U2) = s_iFlowWindowSize (u_snd U1)" "u_rcv U2 = u_rcv U1" "u_bBroken U2 = u_bBroken U1"
      unfolding U1 by auto
    have "after_ack E V p (wrap x) U2 = Some U'" using steps new U1 U2(1) by (simp add: Let_def)
    note U3 = after_ack_frame [OF this]
    have "snd_inv W x (max k x) {n \<in> S. x \<le> n} (drop (nat (x - a)) ms1) ms2 (u_snd U2)"
      using U2(2,3) T(2) new(1) U1 by (simp add: snd_inv_def max_absorb2)
    then have "snd_inv W x (max k x) {n \<in> S. x \<le> n} (drop (nat (x - a)) ms1) ms2 (u_snd U')"
      using snd_inv_cong [OF U3(1)] by simp
    then show ?thesis using new U1 U2 U3 T by (simp add: max_absorb2)
  qed
qed

lemma process_data_ack_some:
  assumes I: "snd_inv W a k S ms1 ms2 (u_snd U)" and e: "est_ok U" and p: "ack_packet W ws p"
    and x: "ws ! 0 = wrap x" "near x (a + int (length ms1))"
  shows "\<exists>U'. process_data_ack E V t p U = Some U' \<and> est_ok U'"
proof -
  have f: "full_ack W ws p" using p by (simp add: ack_packet_def)
  note steps = process_data_ack_steps [OF I f x, of E V t]
  consider (beyond) "x > a + int (length ms1)" | (old) "x \<le> a" "x \<le> a + int (length ms1)" | (new) "a < x" "x \<le> a + int (length ms1)" by linarith
  then show ?thesis
  proof cases
    case new
    have w: "ws ! 3 \<le> W" and ax: "a \<le> x \<or> x < k" using f new by (simp_all add: full_ack_def)
    note T = take_window_ok [OF I new(2) ax w]
    obtain U1 where U1: "U1 = take_window k x (ws ! 3) U" by blast
    from ack_buffer_ok [OF T(1) new(1), of t] obtain U2 where
      U2: "ack_buffer t (x - a) (wrap x) U1 = Some U2" "est_ok U2 = est_ok U1" unfolding U1 by auto
    have "est_ok U2" using U2(2) T(4) e U1 by simp
    from after_ack_ok [OF p this, of E V "wrap x"] show ?thesis using steps new U1 U2 by (auto simp: Let_def)
  qed (use steps e in \<open>auto simp: broken_def est_ok_def take_window_def Let_def\<close>)
qed

lemma process_ack_ok:
  assumes I: "snd_inv W a k S ms1 ms2 (u_snd U)" and p: "full_ack W ws p"
    and x: "ws ! 0 = wrap x" "near x (a + int (length ms1))"
  shows "process_ack E V t p U = Some U' \<Longrightarrow> u_rcv U' = u_rcv U \<and>
    (if x > a + int (length ms1) then u_bBroken U' \<and> snd_inv W a k S ms1 ms2 (u_snd U')
     else snd_inv W (max a x) (max k x) {n \<in> S. x \<le> n} (drop (nat (x - a)) ms1) ms2 (u_snd U') \<and> u_bBroken U' = u_bBroken U)"
    "est_ok U \<Longrightarrow> ack_packet W ws p \<Longrightarrow> \<exists>U'. process_ack E V t p U = Some U' \<and> est_ok U'"
proof -
  obtain U1 where U1: "answer_ack E t (getAckSeqNo p) U = Some U1" "same_snd (u_snd U) (u_snd U1)" "u_rcv U1 = u_rcv U" "u_iRTT U1 = u_iRTT U"
    "u_iRTTVar U1 = u_iRTTVar U" "u_iDeliveryRate U1 = u_iDeliveryRate U" "u_iBandwidth U1 = u_iBandwidth U" "u_bBroken U1 = u_bBroken U"
    using answer_ack_ok by blast
  have I1: "snd_inv W a k S ms1 ms2 (u_snd U1)" using snd_inv_cong [OF U1(2)] I by simp
  have "getLength p \<noteq> 4" using p by (simp add: full_ack_def)
  then have e: "process_ack E V t p U = process_data_ack E V t p U1" using U1(1) by (simp add: process_ack_def)
  show "u_rcv U' = u_rcv U \<and>
    (if x > a + int (length ms1) then u_bBroken U' \<and> snd_inv W a k S ms1 ms2 (u_snd U')
     else snd_inv W (max a x) (max k x) {n \<in> S. x \<le> n} (drop (nat (x - a)) ms1) ms2 (u_snd U') \<and> u_bBroken U' = u_bBroken U)"
    if "process_ack E V t p U = Some U'"
    using process_data_ack_ok [OF I1 p x that [unfolded e]] I1 U1(3,8) by (auto split: if_splits)
  show "\<exists>U'. process_ack E V t p U = Some U' \<and> est_ok U'" if "est_ok U" "ack_packet W ws p"
    using process_data_ack_some [OF I1 _ that(2) x, of E V t] that(1) U1 unfolding e by (simp add: est_ok_def)
qed

text \<open>
  A light acknowledgement (four bytes) frees nothing and is not compared with the last number sent: the last
  acknowledgement moves to it, and the window shrinks by as much.
\<close>

lemma process_lite_ack_ok:
  assumes I: "snd_inv W a k S ms1 ms2 (u_snd U)" and p: "iov_base p = Some (Words ws)" "ws \<noteq> []" "getLength p = 4"
    and x: "ws ! 0 = wrap x" "near x k"
  defines "s \<equiv> u_snd U"
  shows "process_ack E V t p U = Some (if k \<le> x then U\<lparr>u_snd := s\<lparr>s_iFlowWindowSize := i32 (s_iFlowWindowSize s - (x - k)), s_iSndLastAck := wrap x\<rparr>\<rparr> else U)"
    "x \<le> a + int (length ms1) \<Longrightarrow> 0 \<le> s_iFlowWindowSize s \<Longrightarrow>
      snd_inv W a (max k x) S ms1 ms2 (if k \<le> x then s\<lparr>s_iFlowWindowSize := i32 (s_iFlowWindowSize s - (x - k)), s_iSndLastAck := wrap x\<rparr> else s)"
proof -
  note D = snd_invD [OF I]
  have w: "ctl_word p 0 = Some (wrap x)" using ctl_word_nth [OF p(1), of 0] p(2) x(1) by simp
  have off: "seqoff (s_iSndLastAck (u_snd U)) (wrap x) = x - k" using seqoff_wrap [of k x] near_sym [OF x(2)] D(4) by simp
  show "process_ack E V t p U = Some (if k \<le> x then U\<lparr>u_snd := s\<lparr>s_iFlowWindowSize := i32 (s_iFlowWindowSize s - (x - k)), s_iSndLastAck := wrap x\<rparr>\<rparr> else U)"
    using w p(3) seqcmp_wrap(4) [OF x(2)] D(4) off by (simp add: process_ack_def process_lite_ack_def s_def)
  show "snd_inv W a (max k x) S ms1 ms2 (if k \<le> x then s\<lparr>s_iFlowWindowSize := i32 (s_iFlowWindowSize s - (x - k)), s_iSndLastAck := wrap x\<rparr> else s)"
    if "x \<le> a + int (length ms1)" "0 \<le> s_iFlowWindowSize s"
  proof (cases "k \<le> x")
    case True
    have "s_iFlowWindowSize s \<le> W" using D(6,10) s_def by simp
    then have "i32 (s_iFlowWindowSize s - (x - k)) = s_iFlowWindowSize s - (x - k)" using that(2) True x(2) D(12) by (simp add: near_def)
    then show ?thesis using D that(1) True by (simp add: snd_inv_defs s_def)
  qed (use I in \<open>simp add: s_def\<close>)
qed

subsection \<open>Loss reports and timeouts\<close>

text \<open>The report names intervals up to the last packet sent; what is not acknowledged of them is sent again.\<close>

lemma process_nak_ok:
  assumes I: "snd_inv W a k S ms1 ms2 (u_snd U)"
    and us: "\<forall>(x, y) \<in> set us. x \<le> y \<and> y < a + int (length ms1) \<and> near x k \<and> near x (a + int (length ms1) - 1)"
    and p: "iov_base p = Some (Words (concat (map report_one us) @ rest))" "getLength p = 4 * int (length (concat (map report_one us)))"
  shows "\<exists>U'. process_nak E V p U = Some U' \<and> snd_inv W a k (S \<union> {n \<in> numbers us. k \<le> n}) ms1 ms2 (u_snd U') \<and> u_rcv U' = u_rcv U \<and>
    u_bBroken U' = u_bBroken U \<and> (est_ok U \<longrightarrow> est_ok U')"
proof -
  note D = snd_invD [OF I]
  let ?c = "a + int (length ms1) - 1" and ?ws = "concat (map report_one us)"
  obtain d vs where R: "snd_rep d vs (s_pSndLossList (u_snd U))" and S: "numbers vs = S" using D(2) by (auto simp: snd_lost_def)
  have "\<forall>(x, y) \<in> set us. x \<le> y \<and> y \<le> ?c \<and> near x y \<and> near x k \<and> near y k \<and> near x ?c \<and> near y ?c"
    using us D(6,7,9,12) by (fastforce simp: near_def)
  moreover have "\<forall>n \<in> numbers vs. a \<le> n \<and> n \<le> ?c" using D(8) S by auto
  moreover have "?c - a < m_iSize (s_pSndLossList (u_snd U))" using D(9,11) by linarith
  ultimately obtain d' vs' L' where N: "nak_loop (wrap k) (wrap ?c) ?ws 0 (s_pSndLossList (u_snd U)) = Some (True, 0 + (total vs' - total vs), L')"
    "snd_rep d' vs' L'" "numbers vs' = numbers vs \<union> {n \<in> numbers us. k \<le> n}" "m_iSize L' = m_iSize (s_pSndLossList (u_snd U))"
    using nak_loop_ok [OF _ R _ D(6), of us ?c 0] by blast
  have sub: "{n \<in> numbers us. k \<le> n} \<subseteq> {a..<a + int (length ms1)}" using us D(6) by (force simp: numbers_def)
  have L': "snd_lost L' (S \<union> {n \<in> numbers us. k \<le> n})" using N(2,3) S by (auto simp: snd_lost_def)
  obtain U1 where U1: "U1 = (let (t, U) = getTime E U in update_CC (on_cc (cv_onLoss V t (?ws @ rest) (int (length ?ws))) U))" by blast
  have f: "same_snd (u_snd U) (u_snd U1)" "u_rcv U1 = u_rcv U" "u_bBroken U1 = u_bBroken U" "est_ok U1 = est_ok U"
    unfolding U1 by (simp_all add: getTime_def update_CC_def Let_def same_snd_def est_ok_def)
  have n: "cdiv (getLength p) 4 = int (length ?ws)" using p(2) by simp
  have w: "payload_words (iov_base p) = ?ws @ rest" using p(1) by (simp add: payload_words_def)
  have N1: "nak_loop (s_iSndLastAck (u_snd U1)) (s_iSndCurrSeqNo (u_snd U1)) (take (nat (int (length ?ws))) (?ws @ rest)) 0 (s_pSndLossList (u_snd U1)) =
    Some (True, 0 + (total vs' - total vs), L')"
    using N(1) f(1) D(4,5) by (simp add: same_snd_def)
  have "\<exists>U'. process_nak E V p U = Some U' \<and> u_snd U' = (u_snd U1)\<lparr>s_pSndLossList := L'\<rparr> \<and> u_rcv U' = u_rcv U1 \<and>
    u_bBroken U' = u_bBroken U1 \<and> est_ok U' = est_ok U1"
    unfolding process_nak_def Let_def n w
    using U1 N1 by (simp add: getTime_def emit_def Let_def est_ok_def)
  moreover have "snd_inv W a k (S \<union> {n \<in> numbers us. k \<le> n}) ms1 ms2 ((u_snd U1)\<lparr>s_pSndLossList := L'\<rparr>)"
    using D L' N(4) sub f(1) unfolding snd_inv_defs same_snd_def by auto
  ultimately show ?thesis using f by auto
qed

lemma lose_all_ok:
  assumes I: "snd_inv W a k S ms1 ms2 (u_snd U)"
  shows "\<exists>U'. lose_all U = Some U' \<and> snd_inv W a k (if S = {} then {k..<a + int (length ms1)} else S) ms1 ms2 (u_snd U') \<and> u_rcv U' = u_rcv U \<and>
    u_bBroken U' = u_bBroken U \<and> est_ok U' = est_ok U"
proof -
  note D = snd_invD [OF I]
  let ?c = "a + int (length ms1)"
  have fin: "finite S" using D(8) finite_subset by blast
  have len: "snd_getLossLength (s_pSndLossList (u_snd U)) = 0 \<longleftrightarrow> S = {}" using snd_lost_length [OF D(2)] fin by simp
  have "near ?c k" using D(6,7,9,12) by (simp add: near_def)
  then have eq: "incseq (s_iSndCurrSeqNo (u_snd U)) = s_iSndLastAck (u_snd U) \<longleftrightarrow> ?c = k"
    using D(4,5) incseq_wrap' [of "?c - 1"] wrap_eq_iff [of ?c k] by simp
  show ?thesis
  proof (cases "?c \<noteq> k \<and> S = {}")
    case False
    then have "(if S = {} then {k..<?c} else S) = S" by auto
    then show ?thesis using False I len eq by (auto simp: lose_all_def)
  next
    case True
    then have "k \<le> ?c - 1" using D(7) by linarith
    then have "in_window (m_iSize (s_pSndLossList (u_snd U))) S k (?c - 1)" using True D(6,9,11) by (simp add: in_window_def)
    from snd_lost_insert [OF D(2) this] obtain L where L: "snd_insert (wrap k) (wrap (?c - 1)) (s_pSndLossList (u_snd U)) =
      Some (int (card (S \<union> {k..?c - 1})) - int (card S), L)" "snd_lost L (S \<union> {k..?c - 1})" "m_iSize L = m_iSize (s_pSndLossList (u_snd U))" by blast
    have s: "S \<union> {k..?c - 1} = {k..<?c}" using True by auto
    have "snd_inv W a k {k..<?c} ms1 ms2 ((u_snd U)\<lparr>s_pSndLossList := L\<rparr>)"
      using D L(2,3) unfolding s snd_inv_defs by auto
    then show ?thesis using True L(1) len eq D(4,5) by (simp add: lose_all_def Let_def est_ok_def)
  qed
qed

end
