(* ===== verification/UdtReceiver.thy ===== *)
theory UdtReceiver
  imports UdtCoreData UdtLossIface UdtRcvBufferSpec UdtAckWindow UdtSenderAck
begin

section \<open>UDT: the receiver\<close>

text \<open>
  The receiving half of a connection over the line of packet numbers: all packets before \<open>r\<close> have been
  acknowledged, \<open>c\<close> is the largest number received, \<open>S\<close> are the numbers that are missing. \<open>dat n\<close> is the data of the
  packet with number \<open>n\<close>, \<open>ds\<close> the data of the acknowledged packets that the application has not read yet.
\<close>

definition place :: "rcv_buffer \<Rightarrow> int \<Rightarrow> int \<Rightarrow> int" where
  "place B r n = (rb_iLastAckPos B + (n - r)) mod rb_iSize B"

definition rcv_inv :: "(int \<Rightarrow> u8 list) \<Rightarrow> int \<Rightarrow> int \<Rightarrow> int set \<Rightarrow> u8 list list \<Rightarrow> unit_queue \<Rightarrow> udt_rcv \<Rightarrow> bool" where
  "rcv_inv dat r c S ds Q v \<longleftrightarrow> (let B = v_pRcvBuffer v; L = v_pRcvLossList v in
     rb_view (rb_iStartPos B) B Q ds \<and> rcv_lost L S \<and> v_iRcvLastAck v = wrap r \<and> v_iRcvCurrSeqNo v = wrap c \<and>
     r - 1 \<le> c \<and> S \<subseteq> {r..<c} \<and> int (length ds) + (c - r) + 1 < rb_iSize B \<and>
     rb_iSize B \<le> r_iSize L \<and> rb_iSize B + 2 < m_iSeqNoTH \<and>
     (\<forall>n \<in> {r..c} - S. chunk (place B r n) B Q = Some (dat n)) \<and>
     (\<forall>n. r \<le> n \<and> (n \<in> S \<or> c < n) \<and> int (length ds) + (n - r) < rb_iSize B \<longrightarrow> rd (rb_pUnit B) (place B r n) = Some None) \<and>
     aw_ok (v_pACKWindow v) \<and> m_iAWSize (v_pRcvTimeWindow v) = 16 \<and> m_iPWSize (v_pRcvTimeWindow v) = 64)"

lemma rcv_invD:
  assumes "rcv_inv dat r c S ds Q v"
  shows "rb_view (rb_iStartPos (v_pRcvBuffer v)) (v_pRcvBuffer v) Q ds" "rcv_lost (v_pRcvLossList v) S"
    "v_iRcvLastAck v = wrap r" "v_iRcvCurrSeqNo v = wrap c" "r - 1 \<le> c" "S \<subseteq> {r..<c}"
    "int (length ds) + (c - r) + 1 < rb_iSize (v_pRcvBuffer v)" "rb_iSize (v_pRcvBuffer v) \<le> r_iSize (v_pRcvLossList v)"
    "rb_iSize (v_pRcvBuffer v) + 2 < m_iSeqNoTH"
    "\<forall>n \<in> {r..c} - S. chunk (place (v_pRcvBuffer v) r n) (v_pRcvBuffer v) Q = Some (dat n)"
    "r \<le> n \<Longrightarrow> n \<in> S \<or> c < n \<Longrightarrow> int (length ds) + (n - r) < rb_iSize (v_pRcvBuffer v) \<Longrightarrow>
       rd (rb_pUnit (v_pRcvBuffer v)) (place (v_pRcvBuffer v) r n) = Some None"
    "aw_ok (v_pACKWindow v)" "m_iAWSize (v_pRcvTimeWindow v) = 16" "m_iPWSize (v_pRcvTimeWindow v) = 64"
  using assms unfolding rcv_inv_def Let_def by blast+

lemma rb_viewD:
  assumes "rb_view p B Q ds"
  shows "0 < rb_iSize B" "length (rb_pUnit B) = nat (rb_iSize B)" "0 \<le> p" "p < rb_iSize B" "int (length ds) < rb_iSize B"
    "rb_iLastAckPos B = (p + int (length ds)) mod rb_iSize B" "0 \<le> rb_iLastAckPos B" "rb_iLastAckPos B < rb_iSize B"
  using assms by (simp_all add: rb_view_def)

lemma avail_size:
  assumes "rb_view (rb_iStartPos B) B Q ds"
  shows "getAvailBufSize B = rb_iSize B - int (length ds) - 1"
proof -
  note D = rb_viewD [OF assms]
  have "getRcvDataSize B = int (length ds)"
  proof (cases "rb_iStartPos B + int (length ds) < rb_iSize B")
    case True
    then have "rb_iLastAckPos B = rb_iStartPos B + int (length ds)" using D by simp
    then show ?thesis by (simp add: getRcvDataSize_def)
  next
    case False
    then have "rb_iLastAckPos B = rb_iStartPos B + int (length ds) - rb_iSize B"
      using D mod_pos_pos_trivial [of "rb_iStartPos B + int (length ds) - rb_iSize B" "rb_iSize B"] by (simp add: mod_simps)
    then show ?thesis using D(5) by (simp add: getRcvDataSize_def)
  qed
  then show ?thesis by (simp add: getAvailBufSize_def)
qed

lemma place_eq_iff:
  assumes "\<bar>n - m\<bar> < rb_iSize B"
  shows "place B r n = place B r m \<longleftrightarrow> n = m"
proof -
  have "(n - r) mod rb_iSize B = (m - r) mod rb_iSize B \<longleftrightarrow> rb_iSize B dvd (n - m)"
    by (simp add: mod_eq_dvd_iff)
  also have "\<dots> \<longleftrightarrow> n = m" using assms dvd_imp_le_int [of "n - m" "rb_iSize B"] by auto
  finally show ?thesis by (simp add: place_def mod_add_cancel)
qed

lemma place_range: "0 < rb_iSize B \<Longrightarrow> 0 \<le> place B r n \<and> place B r n < rb_iSize B"
  by (simp add: place_def)

text \<open>The places of unread packets and of later ones are different.\<close>

lemma place_unread:
  assumes "rb_view (rb_iStartPos B) B Q ds" "k < length ds" "r \<le> n" "int (length ds) + (n - r) < rb_iSize B"
  shows "(rb_iStartPos B + int k) mod rb_iSize B \<noteq> place B r n"
proof -
  have "place B r n = (rb_iStartPos B + (int (length ds) + (n - r))) mod rb_iSize B"
    using rb_viewD(6) [OF assms(1)] by (simp add: place_def mod_add_left_eq add.assoc)
  moreover have "(int k) mod rb_iSize B \<noteq> (int (length ds) + (n - r)) mod rb_iSize B" using assms rb_viewD(5) [OF assms(1)] by simp
  ultimately show ?thesis by (simp add: mod_add_cancel)
qed

text \<open>Fields the invariant does not read.\<close>

definition same_rcv :: "udt_rcv \<Rightarrow> udt_rcv \<Rightarrow> bool" where
  "same_rcv v w \<longleftrightarrow> v_pRcvBuffer w = v_pRcvBuffer v \<and> v_pRcvLossList w = v_pRcvLossList v \<and> v_iRcvLastAck w = v_iRcvLastAck v \<and>
     v_iRcvCurrSeqNo w = v_iRcvCurrSeqNo v \<and> v_iRcvLastAckAck w = v_iRcvLastAckAck v \<and> aw_ok (v_pACKWindow w) = aw_ok (v_pACKWindow v) \<and>
     m_iAWSize (v_pRcvTimeWindow w) = m_iAWSize (v_pRcvTimeWindow v) \<and> m_iPWSize (v_pRcvTimeWindow w) = m_iPWSize (v_pRcvTimeWindow v)"

lemma rcv_inv_cong: "same_rcv v w \<Longrightarrow> rcv_inv dat r c S ds Q w \<longleftrightarrow> rcv_inv dat r c S ds Q v"
  by (simp add: rcv_inv_def same_rcv_def Let_def)

lemma same_rcv_refl [simp]: "same_rcv v v"
  by (simp add: same_rcv_def)

lemma same_rcv_trans: "same_rcv u v \<Longrightarrow> same_rcv v w \<Longrightarrow> same_rcv u w"
  by (simp add: same_rcv_def)

subsection \<open>A data packet arrives\<close>

text \<open>The unit \<open>u\<close> holds the packet with number \<open>n\<close>.\<close>

definition unit_packet :: "(int \<Rightarrow> u8 list) \<Rightarrow> int \<Rightarrow> uptr \<Rightarrow> unit_queue \<Rightarrow> cunit \<Rightarrow> bool" where
  "unit_packet dat n u Q c \<longleftrightarrow> get_unit u Q = Some c \<and> hdr 0 (cu_Packet c) = wrap n \<and>
     (\<exists>bs. pc_bytes (cu_Packet c) = Some bs \<and> length (dat n) \<le> length bs \<and> take (length (dat n)) bs = dat n \<and>
       getLength (cu_Packet c) = int (length (dat n)))"

lemma rcv_store:
  assumes I: "rcv_inv dat r c S ds Q v" and u: "unit_packet dat n u Q un"
    and n: "r \<le> n" "int (length ds) + (n - r) + 1 < rb_iSize (v_pRcvBuffer v)" "n \<in> S \<or> c < n"
    and c': "r - 1 \<le> c'" "S' \<subseteq> {r..<c'}" "int (length ds) + (c' - r) + 1 < rb_iSize (v_pRcvBuffer v)"
    and sets: "{r..c'} - S' \<subseteq> insert n ({r..c} - S)" "\<And>m. r \<le> m \<Longrightarrow> m \<in> S' \<or> c' < m \<Longrightarrow> (m \<in> S \<or> c < m) \<and> m \<noteq> n"
  shows "\<exists>B Q'. addData u (n - r) (v_pRcvBuffer v) Q = Some (0, B, Q') \<and>
    (\<forall>w :: udt_rcv. v_pRcvBuffer w = B \<and> rcv_lost (v_pRcvLossList w) S' \<and> r_iSize (v_pRcvLossList w) = r_iSize (v_pRcvLossList v) \<and>
       v_iRcvLastAck w = wrap r \<and> v_iRcvCurrSeqNo w = wrap c' \<and> aw_ok (v_pACKWindow w) \<and>
       m_iAWSize (v_pRcvTimeWindow w) = 16 \<and> m_iPWSize (v_pRcvTimeWindow w) = 64 \<longrightarrow> rcv_inv dat r c' S' ds Q' w)"
proof -
  note D = rcv_invD [OF I]
  let ?B = "v_pRcvBuffer v"
  note V = rb_viewD [OF D(1)]
  obtain bs where un: "get_unit u Q = Some un" "pc_bytes (cu_Packet un) = Some bs" "getLength (cu_Packet un) = int (length (dat n))"
    "length (dat n) \<le> length bs" "take (length (dat n)) bs = dat n" using u by (auto simp: unit_packet_def)
  have pl: "place ?B r n = (rb_iLastAckPos ?B + (n - r)) mod rb_iSize ?B" by (simp add: place_def)
  have off: "0 \<le> n - r" "int (length ds) + (n - r) < rb_iSize ?B" using n by simp_all
  have emp: "rd (rb_pUnit ?B) ((rb_iLastAckPos ?B + (n - r)) mod rb_iSize ?B) = Some None"
    using D(11) [OF n(1,3) off(2)] pl by simp
  from addData_slot(1) [OF V(1,2,7) off(1) un(1-4) emp] obtain B Q' where A: "addData u (n - r) ?B Q = Some (0, B, Q')"
    "chunk (place ?B r n) B Q' = Some (dat n)" "\<And>q. q \<noteq> place ?B r n \<Longrightarrow> 0 \<le> q \<Longrightarrow> chunk q B Q' = chunk q ?B Q"
    "rb_iLastAckPos B = rb_iLastAckPos ?B" "rb_iSize B = rb_iSize ?B" "rb_iStartPos B = rb_iStartPos ?B" "rb_iNotch B = rb_iNotch ?B"
    "rb_pUnit B = (rb_pUnit ?B)[nat (place ?B r n) := Some u]" "length (rb_pUnit B) = length (rb_pUnit ?B)"
    unfolding pl un(5) by blast
  have same: "place B r m = place ?B r m" for m using A(4,5) by (simp add: place_def)
  have neq: "place ?B r m \<noteq> place ?B r n" if "r \<le> m" "m \<noteq> n" "int (length ds) + (m - r) < rb_iSize ?B" for m
    using place_eq_iff [of m n ?B r] that off by auto
  have view: "rb_view (rb_iStartPos B) B Q' ds"
  proof -
    have "chunk ((rb_iStartPos ?B + int k) mod rb_iSize ?B) B Q' = chunk ((rb_iStartPos ?B + int k) mod rb_iSize ?B) ?B Q" if "k < length ds" for k
      using A(3) [OF place_unread [OF D(1) that n(1) off(2)]] V(1) by simp
    then show ?thesis using D(1) A(4-7,9) unfolding rb_view_def by simp
  qed
  have have_data: "chunk (place B r m) B Q' = Some (dat m)" if "m \<in> {r..c'} - S'" for m
  proof (cases "m = n")
    case False
    then have m: "m \<in> {r..c} - S" using sets(1) that by blast
    moreover have "int (length ds) + (m - r) < rb_iSize ?B" using that c'(3) by simp
    ultimately show ?thesis unfolding same using A(3) [OF neq] D(10) place_range [OF V(1)] False by simp
  qed (simp add: same A(2))
  have empty: "rd (rb_pUnit B) (place B r m) = Some None" if "r \<le> m" "m \<in> S' \<or> c' < m" "int (length ds) + (m - r) < rb_iSize ?B" for m
  proof -
    note m = sets(2) [OF that(1,2)]
    have "nat (place ?B r m) \<noteq> nat (place ?B r n)"
      using neq [OF that(1)] m that(3) place_range [OF V(1), of r m] place_range [OF V(1), of r n] by (simp add: eq_nat_nat_iff)
    then show ?thesis unfolding same A(8) using D(11) [OF that(1) _ that(3)] m by (simp add: rd_upd_other)
  qed
  show ?thesis
  proof (intro exI conjI allI impI)
    show "addData u (n - r) ?B Q = Some (0, B, Q')" by (rule A)
    fix w :: udt_rcv assume w: "v_pRcvBuffer w = B \<and> rcv_lost (v_pRcvLossList w) S' \<and> r_iSize (v_pRcvLossList w) = r_iSize (v_pRcvLossList v) \<and>
       v_iRcvLastAck w = wrap r \<and> v_iRcvCurrSeqNo w = wrap c' \<and> aw_ok (v_pACKWindow w) \<and>
       m_iAWSize (v_pRcvTimeWindow w) = 16 \<and> m_iPWSize (v_pRcvTimeWindow w) = 64"
    show "rcv_inv dat r c' S' ds Q' w"
      unfolding rcv_inv_def Let_def using w view have_data empty c' D(8,9) A(5) by auto
  qed
qed

text \<open>A packet that is already there changes nothing that is read.\<close>

lemma rcv_duplicate:
  assumes I: "rcv_inv dat r c S ds Q v" and n: "n \<in> {r..c} - S"
  shows "\<exists>B. addData u (n - r) (v_pRcvBuffer v) Q = Some (-1, B, Q) \<and>
    (\<forall>w. v_pRcvBuffer w = B \<and> same_rcv (v\<lparr>v_pRcvBuffer := B\<rparr>) w \<longrightarrow> rcv_inv dat r c S ds Q w)"
proof -
  note D = rcv_invD [OF I]
  let ?B = "v_pRcvBuffer v"
  note V = rb_viewD [OF D(1)]
  obtain w where w: "rd (rb_pUnit ?B) (place ?B r n) = Some (Some w)"
    using D(10) n by (meson chunk_unit)
  let ?B' = "?B\<lparr>rb_iMaxPos := max (rb_iMaxPos ?B) (n - r)\<rparr>"
  have add: "addData u (n - r) ?B Q = Some (-1, ?B', Q)"
    by (simp add: addData_def Let_def w [unfolded place_def] V(7) n max_def) (use n V w in \<open>auto simp: place_def\<close>)
  have ch: "chunk q ?B' Q = chunk q ?B Q" for q by (rule chunk_cong) simp_all
  have pl: "place ?B' r m = place ?B r m" for m by (simp add: place_def)
  have view: "rb_view p ?B' Q ds \<longleftrightarrow> rb_view p ?B Q ds" for p unfolding rb_view_def ch by simp
  have f: "rb_iSize ?B' = rb_iSize ?B" "rb_pUnit ?B' = rb_pUnit ?B" "rb_iStartPos ?B' = rb_iStartPos ?B" by simp_all
  have v': "v_pRcvBuffer (v\<lparr>v_pRcvBuffer := ?B'\<rparr>) = ?B'" by simp
  have "rcv_inv dat r c S ds Q (v\<lparr>v_pRcvBuffer := ?B'\<rparr>)"
    using I unfolding rcv_inv_def Let_def v' ch pl view f by simp
  moreover have "addData u (n - r) (v_pRcvBuffer v) Q = Some (-1, ?B', Q)" by (rule add)
  ultimately show ?thesis using rcv_inv_cong by blast
qed

end
