(* ===== verification/UdtReceiverData.thy ===== *)
theory UdtReceiverData
  imports UdtReceiver
begin

section \<open>UDT: the receiver takes packets and acknowledges them\<close>

subsection \<open>Loss reports\<close>

lemma speed_defined: "m_iAWSize W = 16 \<Longrightarrow> \<exists>x. getPktRcvSpeed W = Some x"
  by (simp add: getPktRcvSpeed_def median_of_def Let_def)

text \<open>The report of one interval is sent at once, in the form that the sender decodes.\<close>

definition nak_packet :: "ivs \<Rightarrow> cpacket \<Rightarrow> bool" where
  "nak_packet us p \<longleftrightarrow> getType p = 3 \<and> getFlag p = 1 \<and> iov_base p = Some (Words (concat (map report_one us))) \<and>
     getLength p = 4 * int (length (concat (map report_one us)))"

lemma nak_header:
  "pack 3 None d l CPacket = Some \<lparr>m_nHeader = [ctl_header 3, 0, 0, 0], iov_base = d, iov_len = l\<rparr>"
  by (simp add: pack_def CPacket_def ctl_header_def)

lemma nak_packet_header:
  assumes "d = Words (concat (map report_one us))" "l = 4 * int (length (concat (map report_one us)))"
  shows "nak_packet us (set_hdr 3 x \<lparr>m_nHeader = [ctl_header 3, 0, 0, 0], iov_base = Some d, iov_len = l\<rparr>)"
  using ctl_header_fields [of 3] assms by (simp add: nak_packet_def set_hdr_def getType_def getFlag_def getLength_def)

lemma send_nak_ok:
  assumes "m_iAWSize (v_pRcvTimeWindow (u_rcv U)) = 16" "near x y" "x \<le> y"
  shows "\<exists>U' p. sendCtrl E 3 None (Some (Words [nak_flag (wrap x), wrap y])) (if wrap x = wrap y then 1 else 2) U = Some U' \<and>
    u_rcv U' = u_rcv U \<and> u_snd U' = u_snd U \<and> u_events U' = u_events U @ [SendTo p] \<and> nak_packet [(x, y)] p \<and>
    u_bBroken U' = u_bBroken U \<and> u_iPayloadSize U' = u_iPayloadSize U"
proof -
  obtain sp where sp: "getPktRcvSpeed (v_pRcvTimeWindow (u_rcv U)) = Some sp" using speed_defined [OF assms(1)] by blast
  have eq: "wrap x = wrap y \<longleftrightarrow> x = y" using wrap_eq_iff [OF assms(2)] .
  have p: "nak_packet [(x, y)] (set_hdr 3 (u_PeerID U) \<lparr>m_nHeader = [ctl_header 3, 0, 0, 0],
      iov_base = Some (if x = y then Words [wrap y] else Words [nak_flag (wrap x), wrap y]), iov_len = if x = y then 4 else 8\<rparr>)"
    by (rule nak_packet_header) (simp_all add: report_one_def)
  show ?thesis using p sp
    by (cases "x = y") (simp_all add: sendCtrl_def send_nak_def eq payload_words_def nak_header sent_nak_def send_peer_def emit_def Let_def)
qed

lemma detect_loss_ok:
  assumes L: "rcv_lost (v_pRcvLossList (u_rcv U)) S" "v_iRcvCurrSeqNo (u_rcv U) = wrap c" "m_iAWSize (v_pRcvTimeWindow (u_rcv U)) = 16"
    and n: "near n (c + 1)" "\<forall>m \<in> S. m \<le> c" "\<forall>m \<in> insert c S. n - m < r_iSize (v_pRcvLossList (u_rcv U))"
  shows "\<exists>U' L' es. detect_loss E (wrap n) U = Some U' \<and> u_rcv U' = (u_rcv U)\<lparr>v_pRcvLossList := L'\<rparr> \<and>
    rcv_lost L' (S \<union> {c<..<n}) \<and> r_iSize L' = r_iSize (v_pRcvLossList (u_rcv U)) \<and> u_snd U' = u_snd U \<and>
    u_events U' = u_events U @ es \<and> (if c + 1 < n then \<exists>p. es = [SendTo p] \<and> nak_packet [(c + 1, n - 1)] p else es = []) \<and>
    u_bBroken U' = u_bBroken U \<and> u_iPayloadSize U' = u_iPayloadSize U"
proof -
  have f: "UdtSeqNo.incseq (v_iRcvCurrSeqNo (u_rcv U)) = wrap (c + 1)" "UdtSeqNo.decseq (wrap n) = wrap (n - 1)" using L(2) by (simp_all add: incseq_wrap' decseq_wrap')
  show ?thesis
  proof (cases "c + 1 < n")
    case False
    then have "{c<..<n} = {}" by auto
    then show ?thesis using False L(1) f(1) seqcmp_wrap(2) [OF n(1)]
      by (intro exI [of _ U] exI [of _ "v_pRcvLossList (u_rcv U)"] exI [of _ "[]"]) (simp add: detect_loss_def Let_def)
  next
    case True
    have "in_window (r_iSize (v_pRcvLossList (u_rcv U))) S (c + 1) (n - 1)"
      using True n(2,3) by (force simp: in_window_def)
    moreover have "\<forall>m \<in> S. m < c + 1" using n(2) by auto
    ultimately obtain L' where L': "rcv_insert (wrap (c + 1)) (wrap (n - 1)) (v_pRcvLossList (u_rcv U)) = Some L'"
      "rcv_lost L' (S \<union> {c + 1..n - 1})" "r_iSize L' = r_iSize (v_pRcvLossList (u_rcv U))"
      using rcv_lost_insert [OF L(1)] by blast
    let ?U = "U\<lparr>u_rcv := (u_rcv U)\<lparr>v_pRcvLossList := L'\<rparr>\<rparr>"
    have nn: "near (c + 1) (n - 1)" using n(1) True by (simp add: near_def)
    obtain U' p where P: "sendCtrl E 3 None (Some (Words [nak_flag (wrap (c + 1)), wrap (n - 1)])) (if wrap (c + 1) = wrap (n - 1) then 1 else 2) ?U = Some U'"
      "u_rcv U' = u_rcv ?U" "u_snd U' = u_snd U" "u_events U' = u_events U @ [SendTo p]" "nak_packet [(c + 1, n - 1)] p"
      "u_bBroken U' = u_bBroken U" "u_iPayloadSize U' = u_iPayloadSize U"
      using send_nak_ok [of ?U "c + 1" "n - 1" E] L(3) nn True by auto
    have s: "{c + 1..n - 1} = {c<..<n}" by auto
    show ?thesis
      unfolding detect_loss_def f Let_def using seqcmp_wrap(2) [OF n(1)] True L' P s
      by (intro exI [of _ "U'\<lparr>u_trace := _\<rparr>"] exI [of _ L'] exI [of _ "[SendTo p]"]) simp
  qed
qed

subsection \<open>Data packets\<close>

lemma arrival_times_ok [simp]:
  "same_rcv (u_rcv U) (u_rcv (arrival_times E n U))" "u_snd (arrival_times E n U) = u_snd U"
  "u_events (arrival_times E n U) = u_events U" "u_bBroken (arrival_times E n U) = u_bBroken U"
  by (simp_all add: arrival_times_def getTime_def onPktArrival_def probe1Arrival_def probe2Arrival_def Let_def same_rcv_def)

lemma data_enter_ok:
  "same_rcv (u_rcv U) (u_rcv (data_enter E V p U))" "u_snd (data_enter E V p U) = u_snd U"
  "u_events (data_enter E V p U) = u_events U" "u_bBroken (data_enter E V p U) = u_bBroken U"
proof -
  obtain U1 where U1: "U1 = (let (currtime, U) = heard E U; (t, U) = getTime E U; U = on_cc (cv_onPktReceived V t p) U
      in on_timers (\<lambda>t. t\<lparr>m_iPktCount := m_iPktCount t + 1\<rparr>) U)" by blast
  have f: "u_rcv U1 = u_rcv U" "u_snd U1 = u_snd U" "u_events U1 = u_events U" "u_bBroken U1 = u_bBroken U"
    unfolding U1 by (simp_all add: heard_def rdtsc_def getTime_def Let_def)
  have e: "data_enter E V p U = on_trace (\<lambda>t. t\<lparr>t_llTraceRecv := t_llTraceRecv t + 1, t_llRecvTotal := t_llRecvTotal t + 1\<rparr>) (arrival_times E (hdr 0 p) U1)"
    unfolding data_enter_def U1 by (simp add: Let_def split_def)
  show "same_rcv (u_rcv U) (u_rcv (data_enter E V p U))" "u_snd (data_enter E V p U) = u_snd U"
    "u_events (data_enter E V p U) = u_events U" "u_bBroken (data_enter E V p U) = u_bBroken U"
    unfolding e f [symmetric] by simp_all
qed

lemma data_finish_ok:
  assumes L: "rcv_lost (v_pRcvLossList (u_rcv U)) S" "v_iRcvCurrSeqNo (u_rcv U) = wrap c" "m_iAWSize (v_pRcvTimeWindow (u_rcv U)) = 16"
    and S: "S \<subseteq> {r..<c}" and n: "n \<in> S \<or> c < n" "r \<le> n" "r - 1 \<le> c"
    and size: "n - r + 1 < r_iSize (v_pRcvLossList (u_rcv U))" "c - r < r_iSize (v_pRcvLossList (u_rcv U))" "\<bar>n - c\<bar> + 1 < m_iSeqNoTH" "c - r < m_iSeqNoTH"
  shows "\<exists>U' L' es. data_finish E (wrap n) l U = Some U' \<and>
    u_rcv U' = (u_rcv U)\<lparr>v_pRcvLossList := L', v_iRcvCurrSeqNo := wrap (max c n)\<rparr> \<and>
    rcv_lost L' ((S - {n}) \<union> {c<..<n}) \<and> r_iSize L' = r_iSize (v_pRcvLossList (u_rcv U)) \<and> u_snd U' = u_snd U \<and>
    u_events U' = u_events U @ es \<and> (if c + 1 < n then \<exists>p. es = [SendTo p] \<and> nak_packet [(c + 1, n - 1)] p else es = []) \<and>
    u_bBroken U' = u_bBroken U"
proof -
  have near: "near n (c + 1)" "near n c" using size(3) by (simp_all add: near_def)
  have "\<forall>m \<in> insert c S. n - m < r_iSize (v_pRcvLossList (u_rcv U))"
    using n S size(1) by (auto dest!: subsetD)
  moreover have "\<forall>m \<in> S. m \<le> c" using S by auto
  ultimately obtain U1 L1 es where U1: "detect_loss E (wrap n) U = Some U1" "u_rcv U1 = (u_rcv U)\<lparr>v_pRcvLossList := L1\<rparr>"
    "rcv_lost L1 (S \<union> {c<..<n})" "r_iSize L1 = r_iSize (v_pRcvLossList (u_rcv U))" "u_snd U1 = u_snd U" "u_events U1 = u_events U @ es"
    "if c + 1 < n then \<exists>p. es = [SendTo p] \<and> nak_packet [(c + 1, n - 1)] p else es = []" "u_bBroken U1 = u_bBroken U"
    using detect_loss_ok [OF L near(1)] by blast
  obtain U2 where U2: "U2 = (if l \<noteq> u_iPayloadSize U1 then (let (t, U) = rdtsc E U1 in on_timers (m_ullNextACKTime_update (\<lambda>_. t)) U) else U1)" by blast
  have f: "u_rcv U2 = u_rcv U1" "u_snd U2 = u_snd U1" "u_events U2 = u_events U1" "u_bBroken U2 = u_bBroken U1"
    unfolding U2 by (simp_all add: rdtsc_def Let_def)
  have d: "data_finish E (wrap n) l U = note_received (wrap n) U2" unfolding data_finish_def U1(1) U2 by (simp add: Let_def)
  have cur: "v_iRcvCurrSeqNo (u_rcv U2) = wrap c" using f(1) U1(2) L(2) by simp
  show ?thesis
  proof (cases "c < n")
    case True
    then have s: "S \<union> {c<..<n} = (S - {n}) \<union> {c<..<n}" using S by auto
    show ?thesis unfolding d note_received_def cur using seqcmp_wrap(2) [OF near(2)] True U1 f s
      by (intro exI [of _ "U2\<lparr>u_rcv := _\<rparr>"] exI [of _ L1] exI [of _ es]) (simp add: max_def)
  next
    case False
    then have nS: "n \<in> S" using n(1) by blast
    have fin: "finite S" using S finite_subset by blast
    have e: "S \<union> {c<..<n} = S" using False by auto
    have mn: "Min S \<in> S" using nS fin by (intro Min_in) auto
    then have "r \<le> Min S" "Min S \<le> n" "n < c" using S nS Min_le [OF fin nS] by auto
    then have "near (Min S) n \<and> n - Min S < r_iSize L1" using size U1(4) by (simp add: near_def)
    from rcv_lost_remove [of L1 S n] this U1(3) e obtain L2 where L2: "rcv_remove (wrap n) L1 = Some (n \<in> S, L2)"
      "rcv_lost L2 (S - {n})" "r_iSize L2 = r_iSize L1" by auto
    have s: "(S - {n}) \<union> {c<..<n} = S - {n}" using False by auto
    have same: "(u_rcv U)\<lparr>v_pRcvLossList := L2, v_iRcvCurrSeqNo := wrap c\<rparr> = (u_rcv U)\<lparr>v_pRcvLossList := L2\<rparr>"
      using L(2) by (cases "u_rcv U") simp
    show ?thesis unfolding d note_received_def cur using seqcmp_wrap(2) [OF near(2)] False U1 f s L2
      by (intro exI [of _ "U2\<lparr>u_rcv := (u_rcv U2)\<lparr>v_pRcvLossList := L2\<rparr>\<rparr>"] exI [of _ L2] exI [of _ es]) (simp add: max_def same)
  qed
qed

text \<open>The numbers the receiver stores, and what is missing after the packet with number \<open>n\<close>.\<close>

definition stores :: "int \<Rightarrow> int \<Rightarrow> int set \<Rightarrow> int \<Rightarrow> int \<Rightarrow> bool" where
  "stores r c S avail n \<longleftrightarrow> r \<le> n \<and> n - r < avail \<and> (n \<in> S \<or> c < n)"

lemma processData_ok:
  assumes I: "rcv_inv dat r c S ds Q (u_rcv U)" and u: "unit_packet dat n u Q un" and near: "near r n"
  defines "st \<equiv> stores r c S (getAvailBufSize (v_pRcvBuffer (u_rcv U))) n"
  shows "\<exists>Q' U' es. processData E V u Q U = Some (if st then 0 else -1, Q', U') \<and>
    rcv_inv dat r (if st then max c n else c) (if st then (S - {n}) \<union> {c<..<n} else S) ds Q' (u_rcv U') \<and>
    v_iRcvLastAckAck (u_rcv U') = v_iRcvLastAckAck (u_rcv U) \<and> u_snd U' = u_snd U \<and> u_bBroken U' = u_bBroken U \<and> u_events U' = u_events U @ es \<and>
    (if st \<and> c + 1 < n then \<exists>p. es = [SendTo p] \<and> nak_packet [(c + 1, n - 1)] p else es = [])"
proof -
  obtain U1 where U1: "U1 = data_enter E V (cu_Packet un) U" by blast
  have f: "same_rcv (u_rcv U) (u_rcv U1)" "u_snd U1 = u_snd U" "u_events U1 = u_events U" "u_bBroken U1 = u_bBroken U"
    unfolding U1 by (rule data_enter_ok)+
  have I1: "rcv_inv dat r c S ds Q (u_rcv U1)" using rcv_inv_cong [OF f(1)] I by simp
  note D = rcv_invD [OF I1]
  let ?B = "v_pRcvBuffer (u_rcv U1)"
  have B: "v_pRcvBuffer (u_rcv U) = ?B" "v_iRcvLastAckAck (u_rcv U1) = v_iRcvLastAckAck (u_rcv U)" using f(1) by (simp_all add: same_rcv_def)
  have av: "getAvailBufSize ?B = rb_iSize ?B - int (length ds) - 1" by (rule avail_size [OF D(1)])
  have un: "get_unit u Q = Some un" "hdr 0 (cu_Packet un) = wrap n" using u by (auto simp: unit_packet_def)
  have off: "seqoff (v_iRcvLastAck (u_rcv U1)) (wrap n) = n - r" using seqoff_wrap [OF near] D(3) by simp
  have steps: "processData E V u Q U =
      (if n < r \<or> n - r \<ge> getAvailBufSize ?B then Some (-1, Q, U1)
       else do { (r, B, Q) \<leftarrow> addData u (n - r) ?B Q;
            let U = U1\<lparr>u_rcv := (u_rcv U1)\<lparr>v_pRcvBuffer := B\<rparr>\<rparr>;
            if r < 0 then Some (-1, Q, U)
            else do { U \<leftarrow> data_finish E (wrap n) (getLength (cu_Packet un)) U; Some (0, Q, U) } })"
    unfolding processData_def un(1) Option.bind.bind_lunit Let_def U1 [symmetric] un(2) off by simp
  show ?thesis
  proof (cases "n < r \<or> n - r \<ge> getAvailBufSize ?B")
    case True
    then have "\<not> st" by (auto simp: st_def stores_def B)
    then show ?thesis using True steps I1 f B by (intro exI [of _ Q] exI [of _ U1] exI [of _ "[]"]) simp
  next
    case False
    then have n: "r \<le> n" "int (length ds) + (n - r) + 1 < rb_iSize ?B" using av by simp_all
    show ?thesis
    proof (cases "n \<in> S \<or> c < n")
      case no: False
      then have "\<not> st" "n \<in> {r..c} - S" using n by (auto simp: st_def stores_def)
      from rcv_duplicate [OF I1 this(2), of u] obtain B where A: "addData u (n - r) ?B Q = Some (-1, B, Q)"
        "\<And>w. v_pRcvBuffer w = B \<Longrightarrow> same_rcv ((u_rcv U1)\<lparr>v_pRcvBuffer := B\<rparr>) w \<Longrightarrow> rcv_inv dat r c S ds Q w" by blast
      let ?U = "U1\<lparr>u_rcv := (u_rcv U1)\<lparr>v_pRcvBuffer := B\<rparr>\<rparr>"
      have "rcv_inv dat r c S ds Q (u_rcv ?U)" by (rule A(2)) simp_all
      moreover have "processData E V u Q U = Some (-1, Q, ?U)" unfolding steps A(1) using False by simp
      ultimately show ?thesis using \<open>\<not> st\<close> f B by (intro exI [of _ Q] exI [of _ ?U] exI [of _ "[]"]) simp
    next
      case yes: True
      then have st: "st" using n False by (simp add: st_def stores_def B)
      let ?S = "(S - {n}) \<union> {c<..<n}" and ?c = "max c n"
      have sets: "{r..?c} - ?S \<subseteq> insert n ({r..c} - S)" "r - 1 \<le> ?c" "?S \<subseteq> {r..<?c}" "int (length ds) + (?c - r) + 1 < rb_iSize ?B"
        using D(5,6,7) n yes by (auto simp: max_def)
      have sets2: "(m \<in> S \<or> c < m) \<and> m \<noteq> n" if "r \<le> m" "m \<in> ?S \<or> ?c < m" for m using that by auto
      from rcv_store [OF I1 u n yes sets(2-4) sets(1) sets2] obtain B Q' where A: "addData u (n - r) ?B Q = Some (0, B, Q')"
        "\<And>w :: udt_rcv. v_pRcvBuffer w = B \<and> rcv_lost (v_pRcvLossList w) ?S \<and> r_iSize (v_pRcvLossList w) = r_iSize (v_pRcvLossList (u_rcv U1)) \<and>
         v_iRcvLastAck w = wrap r \<and> v_iRcvCurrSeqNo w = wrap ?c \<and> aw_ok (v_pACKWindow w) \<and>
         m_iAWSize (v_pRcvTimeWindow w) = 16 \<and> m_iPWSize (v_pRcvTimeWindow w) = 64 \<Longrightarrow> rcv_inv dat r ?c ?S ds Q' w" by blast
      let ?U = "U1\<lparr>u_rcv := (u_rcv U1)\<lparr>v_pRcvBuffer := B\<rparr>\<rparr>"
      have "\<exists>U' L' es. data_finish E (wrap n) (getLength (cu_Packet un)) ?U = Some U' \<and>
        u_rcv U' = (u_rcv ?U)\<lparr>v_pRcvLossList := L', v_iRcvCurrSeqNo := wrap ?c\<rparr> \<and>
        rcv_lost L' ?S \<and> r_iSize L' = r_iSize (v_pRcvLossList (u_rcv ?U)) \<and> u_snd U' = u_snd ?U \<and>
        u_events U' = u_events ?U @ es \<and> (if c + 1 < n then \<exists>p. es = [SendTo p] \<and> nak_packet [(c + 1, n - 1)] p else es = []) \<and>
        u_bBroken U' = u_bBroken ?U"
        by (rule data_finish_ok [where r = r]) (use D n yes in auto)
      then obtain U' L' es where P: "data_finish E (wrap n) (getLength (cu_Packet un)) ?U = Some U'"
        "u_rcv U' = (u_rcv ?U)\<lparr>v_pRcvLossList := L', v_iRcvCurrSeqNo := wrap ?c\<rparr>"
        "rcv_lost L' ?S" "r_iSize L' = r_iSize (v_pRcvLossList (u_rcv ?U))" "u_snd U' = u_snd ?U" "u_events U' = u_events ?U @ es"
        "if c + 1 < n then \<exists>p. es = [SendTo p] \<and> nak_packet [(c + 1, n - 1)] p else es = []" "u_bBroken U' = u_bBroken ?U" by blast
      have "rcv_inv dat r ?c ?S ds Q' (u_rcv U')" by (rule A(2)) (use P D in simp)
      moreover have "processData E V u Q U = Some (0, Q', U')" unfolding steps A(1) using False P(1) by simp
      ultimately show ?thesis using st P f B by (intro exI [of _ Q'] exI [of _ U'] exI [of _ es]) simp
    qed
  qed
qed

end
