(* ===== verification/UdtReceiverAck.thy ===== *)
theory UdtReceiverAck
  imports UdtReceiverData
begin

section \<open>UDT: the receiver acknowledges\<close>

text \<open>The next number that is not there.\<close>

definition next_missing :: "int \<Rightarrow> int set \<Rightarrow> int" where
  "next_missing c S = (if S = {} then c + 1 else Min S)"

lemma next_missing_range:
  assumes "rcv_inv dat r c S ds Q v"
  shows "r \<le> next_missing c S" "next_missing c S \<le> c + 1" "S \<subseteq> {next_missing c S..<c}" "{r..<next_missing c S} \<subseteq> {r..c} - S"
proof -
  note D = rcv_invD [OF assms]
  have fin: "finite S" using D(6) finite_subset by blast
  have "r \<le> next_missing c S \<and> next_missing c S \<le> c + 1 \<and> S \<subseteq> {next_missing c S..<c} \<and> {r..<next_missing c S} \<subseteq> {r..c} - S"
  proof (cases "S = {}")
    case False
    then have m: "Min S \<in> S" "\<forall>x \<in> S. Min S \<le> x" using fin by simp_all
    then have "r \<le> Min S" "Min S < c" using D(6) by auto
    then show ?thesis using m False D(6) by (auto simp: next_missing_def)
  qed (use D(5) in \<open>auto simp: next_missing_def\<close>)
  then show "r \<le> next_missing c S" "next_missing c S \<le> c + 1" "S \<subseteq> {next_missing c S..<c}" "{r..<next_missing c S} \<subseteq> {r..c} - S"
    by blast+
qed

lemma next_ack_ok:
  assumes I: "rcv_inv dat r c S ds Q (u_rcv U)"
  shows "next_ack U = Some (wrap (next_missing c S))"
proof -
  note D = rcv_invD [OF I]
  obtain d us where R: "rcv_rep d us (v_pRcvLossList (u_rcv U))" "numbers us = S" using D(2) by (auto simp: rcv_lost_def)
  have fin: "finite S" using D(6) finite_subset by blast
  have "rcv_getLossLength (v_pRcvLossList (u_rcv U)) = 0 \<longleftrightarrow> S = {}"
    using rcv_lost_iv [OF R(1)] R(2) fin by (simp add: rcv_getLossLength_def)
  then show ?thesis using rcv_lost_first [OF D(2)] D(4) by (simp add: next_ack_def next_missing_def incseq_wrap')
qed

text \<open>The window moves to it: what is before becomes readable.\<close>

lemma rcv_move:
  assumes I: "rcv_inv dat r c S ds Q v" and x: "x = next_missing c S"
    and w: "v_pRcvBuffer w = rb_ackData (x - r) (v_pRcvBuffer v)" "v_iRcvLastAck w = wrap x" "v_pRcvLossList w = v_pRcvLossList v"
      "v_iRcvCurrSeqNo w = v_iRcvCurrSeqNo v" "aw_ok (v_pACKWindow w)" "m_iAWSize (v_pRcvTimeWindow w) = 16" "m_iPWSize (v_pRcvTimeWindow w) = 64"
  shows "rcv_inv dat x c S (ds @ map dat [r..x - 1]) Q w"
proof -
  note D = rcv_invD [OF I] and M = next_missing_range [OF I, folded x]
  let ?B = "v_pRcvBuffer v" and ?es = "map dat [r..x - 1]"
  note V = rb_viewD [OF D(1)]
  have l: "int (length ?es) = x - r" using M(1) by simp
  have ch: "\<forall>k < length ?es. chunk ((rb_iLastAckPos ?B + int k) mod rb_iSize ?B) ?B Q = Some (?es ! k)"
  proof (intro allI impI)
    fix k assume k: "k < length ?es"
    then have "r + int k \<in> {r..c} - S" using M(4) by (auto simp: subset_iff)
    then have "chunk (place ?B r (r + int k)) ?B Q = Some (dat (r + int k))" using D(10) by blast
    then show "chunk ((rb_iLastAckPos ?B + int k) mod rb_iSize ?B) ?B Q = Some (?es ! k)" using k by (simp add: place_def)
  qed
  have "int (length ds + length ?es) < rb_iSize ?B" using l M(2) D(7) by simp
  note view = rb_ackData_view(1) [OF D(1) this ch, unfolded l]
  obtain B' where B': "B' = rb_ackData (x - r) ?B" by blast
  have f: "rb_pUnit B' = rb_pUnit ?B" "rb_iSize B' = rb_iSize ?B" "rb_iStartPos B' = rb_iStartPos ?B"
    "rb_iLastAckPos B' = (rb_iLastAckPos ?B + (x - r)) mod rb_iSize ?B"
    using V M(1) by (simp_all add: B' rb_ackData_def Let_def)
  have pl: "place B' x n = place ?B r n" for n 
  proof -
    have "place B' x n = (rb_iLastAckPos ?B + (x - r) + (n - x)) mod rb_iSize ?B" unfolding place_def f by (rule mod_add_left_eq)
    then show ?thesis by (simp add: place_def)
  qed
  have c: "chunk q B' Q = chunk q ?B Q" for q by (rule chunk_cong) (simp_all add: f)
  have len: "int (length (ds @ ?es)) + (y - x) = int (length ds) + (y - r)" for y using l by simp
  have slots: "rd (rb_pUnit ?B) (place ?B r n) = Some None" if "x \<le> n" "n \<in> S \<or> c < n" "int (length ds) + (n - r) < rb_iSize ?B" for n
    using D(11) [OF _ that(2,3)] M(1) that(1) by simp
  have have_data: "\<forall>n \<in> {x..c} - S. chunk (place ?B r n) ?B Q = Some (dat n)" using D(10) M(1) by auto
  show ?thesis
    unfolding rcv_inv_def Let_def w(1) B' [symmetric] len f pl c w(2-7)
    using view [folded B'] D(2,4,7,8,9) M(2,3) w(5-7) have_data slots f(3) by (auto simp: f)
qed

text \<open>An acknowledgement of all before \<open>x\<close>; a long one advertises a window of at most \<open>W\<close>.\<close>

definition acknowledges :: "int \<Rightarrow> int \<Rightarrow> cpacket \<Rightarrow> bool" where
  "acknowledges W x p \<longleftrightarrow> getFlag p = 1 \<and> getType p = 2 \<and>
     (\<exists>ws. iov_base p = Some (Words (wrap x # ws)) \<and> (getLength p = 4 \<or> 2 < length ws \<and> 2 \<le> ws ! 2 \<and> ws ! 2 \<le> W \<and>
        (getLength p = 16 \<or> getLength p = 24 \<and> 4 < length ws)))"

lemma ack_header:
  "pack 2 None d l CPacket = Some \<lparr>m_nHeader = [ctl_header 2, 0, 0, 0], iov_base = d, iov_len = l\<rparr>"
  "pack 2 (Some y) d l CPacket = Some \<lparr>m_nHeader = [ctl_header 2, word_of_int y, 0, 0], iov_base = d, iov_len = l\<rparr>"
  by (simp_all add: pack_def CPacket_def ctl_header_def set_hdr_def)

lemma ack_packet_fields:
  "acknowledges W x (set_hdr 3 z \<lparr>m_nHeader = [ctl_header 2, y, 0, 0], iov_base = Some (Words [wrap x]), iov_len = 4\<rparr>)"
  "2 \<le> b \<Longrightarrow> b \<le> W \<Longrightarrow> acknowledges W x (set_hdr 3 z \<lparr>m_nHeader = [ctl_header 2, y, 0, 0], iov_base = Some (Words [wrap x, t, v, b]), iov_len = 16\<rparr>)"
  "2 \<le> b \<Longrightarrow> b \<le> W \<Longrightarrow> acknowledges W x (set_hdr 3 z \<lparr>m_nHeader = [ctl_header 2, y, 0, 0], iov_base = Some (Words [wrap x, t, v, b, e, g]), iov_len = 24\<rparr>)"
  using ctl_header_fields [of 2] by (simp_all add: acknowledges_def set_hdr_def getType_def getFlag_def getLength_def)


text \<open>What a call leaves alone.\<close>

definition same_conn :: "'x sock \<Rightarrow> 'x sock \<Rightarrow> bool" where
  "same_conn U U' \<longleftrightarrow> u_snd U' = u_snd U \<and> est_ok U' = est_ok U \<and> u_bBroken U' = u_bBroken U \<and> u_bClosing U' = u_bClosing U \<and>
     u_bConnected U' = u_bConnected U \<and> u_PeerID U' = u_PeerID U \<and> u_iPayloadSize U' = u_iPayloadSize U \<and> u_bStream U' = u_bStream U \<and>
     u_pCC U' = u_pCC U \<and> u_iSndBufSize U' = u_iSndBufSize U \<and> u_bSynSending U' = u_bSynSending U \<and> u_bSynRecving U' = u_bSynRecving U"

lemma same_conn_refl [simp]: "same_conn U U"
  by (simp add: same_conn_def)

lemma same_conn_trans: "same_conn U V \<Longrightarrow> same_conn V W \<Longrightarrow> same_conn U W"
  by (simp add: same_conn_def)

definition adv_window :: "rcv_buffer \<Rightarrow> int" where
  "adv_window B = (if getAvailBufSize B < 2 then 2 else getAvailBufSize B)"

lemma ack_body_ok:
  assumes A: "ack_body E t U = Some (p, U')" and x: "v_iRcvLastAck (u_rcv U) = wrap x" and W: "adv_window (v_pRcvBuffer (u_rcv U)) \<le> W"
  shows "same_rcv (u_rcv U) (u_rcv U') \<and> v_pACKWindow (u_rcv U') = v_pACKWindow (u_rcv U) \<and>
    same_conn U U' \<and> u_events U' = u_events U \<and> (\<forall>z. acknowledges W x (set_hdr 3 z p))"
proof -
  have W2: "2 \<le> adv_window (v_pRcvBuffer (u_rcv U))" by (simp add: adv_window_def)
  note F = ack_packet_fields(2,3) [OF W2 W]
  show ?thesis using F A x
    by (cases "getAvailBufSize (v_pRcvBuffer (u_rcv U)) < 2"; cases "t - v_ullLastAckTime (u_rcv U) > m_ullSYNInt (u_timers U)")
      (auto simp: ack_body_def ack_header rdtsc_def Let_def same_rcv_def same_conn_def est_ok_def adv_window_def bind_eq_Some_conv)
qed

lemma ack_body_some:
  assumes "getBandwidth (e_ceil_quot E) (v_pRcvTimeWindow (u_rcv U)) \<noteq> None" "m_iAWSize (v_pRcvTimeWindow (u_rcv U)) = 16"
  shows "\<exists>r. ack_body E t U = Some r"
  using assms speed_defined [OF assms(2)] by (auto simp: ack_body_def ack_header rdtsc_def Let_def)

lemma aw_store_some: "aw_ok W \<Longrightarrow> \<exists>W'. aw_store now seqno ack W = Some W' \<and> aw_ok W'"
  using aw_store_ok [of W now seqno ack] by blast

lemma send_full_ack_ok:
  assumes A: "send_full_ack E t U = Some U'"
    and x: "v_iRcvLastAck (u_rcv U) = wrap x" and W: "adv_window (v_pRcvBuffer (u_rcv U)) \<le> W" and aw: "aw_ok (v_pACKWindow (u_rcv U))"
  shows "same_rcv (u_rcv U) (u_rcv U') \<and> same_conn U U' \<and>
    (if seqcmp (wrap x) (v_iRcvLastAckAck (u_rcv U)) > 0 then \<exists>p. u_events U' = u_events U @ [SendTo p] \<and> acknowledges W x p else U' = U)"
proof (cases "seqcmp (wrap x) (v_iRcvLastAckAck (u_rcv U)) > 0")
  case False
  then show ?thesis using x A by (simp add: send_full_ack_def)
next
  case True
  obtain p V where P: "ack_body E t U = Some (p, V)" using A True x by (auto simp: send_full_ack_def bind_eq_Some_conv)
  note V = ack_body_ok [OF P x W]
  obtain W' where A': "aw_store (e_time E (u_ticks V)) (v_iAckSeqNo (u_rcv V)) (v_iRcvLastAck (u_rcv V)) (v_pACKWindow (u_rcv V)) = Some W'" "aw_ok W'"
    using aw_store_some [of "v_pACKWindow (u_rcv V)"] aw V by metis
  obtain U1 where U1: "U1 = snd (getTime E (send_peer p V))" by blast
  have f: "u_rcv U1 = u_rcv V" "same_conn V U1" "u_events U1 = u_events V @ [SendTo (set_hdr 3 (u_PeerID V) p)]"
    by (simp_all add: U1 send_peer_def emit_def getTime_def Let_def same_conn_def est_ok_def)
  have "U' = on_trace (\<lambda>t. t\<lparr>t_iSentACK := t_iSentACK t + 1, t_iSentACKTotal := t_iSentACKTotal t + 1\<rparr>) (on_rcv (v_pACKWindow_update (\<lambda>_. W')) U1)"
    using True P A A' x by (simp add: send_full_ack_def U1 getTime_def send_peer_def emit_def Let_def)
  then have g: "u_rcv U' = (u_rcv V)\<lparr>v_pACKWindow := W'\<rparr>" "same_conn U1 U'" "u_events U' = u_events U1"
    by (simp_all add: f(1) same_conn_def est_ok_def)
  have c: "same_conn U U'" using V f(2) g(2) by (meson same_conn_trans)
  have r: "same_rcv (u_rcv U) (u_rcv U')" using V aw A'(2) by (simp add: same_rcv_def g(1))
  show ?thesis using True V c r by (auto simp: g(3) f(3))
qed

lemma send_full_ack_some:
  fixes U :: "'x sock"
  assumes b: "getBandwidth (e_ceil_quot E) (v_pRcvTimeWindow (u_rcv U)) \<noteq> None" and s: "m_iAWSize (v_pRcvTimeWindow (u_rcv U)) = 16"
    and aw: "aw_ok (v_pACKWindow (u_rcv U))" and x: "v_iRcvLastAck (u_rcv U) = wrap x"
  shows "\<exists>U'. send_full_ack E t U = Some U'"
proof -
  obtain p V where P: "ack_body E t U = Some (p, V)" using ack_body_some [OF b s] by fast
  have "v_pACKWindow (u_rcv V) = v_pACKWindow (u_rcv U)" using ack_body_ok [OF P, of x "adv_window (v_pRcvBuffer (u_rcv U))"] x by simp
  then obtain W' where "aw_store (e_time E (u_ticks V)) (v_iAckSeqNo (u_rcv V)) (v_iRcvLastAck (u_rcv V)) (v_pACKWindow (u_rcv V)) = Some W'"
    using aw_store_some [OF aw] by metis
  then show ?thesis using P by (simp add: send_full_ack_def send_peer_def emit_def getTime_def Let_def)
qed

text \<open>Nothing is sent, or the first missing number, and the window moves to it; a light acknowledgement moves nothing.\<close>

lemma send_ack_ok:
  assumes I: "rcv_inv dat r c S ds Q (u_rcv U)" and S: "send_ack E siz U = Some U'"
    and x: "x = next_missing c S" and W: "2 \<le> W" "rb_iSize (v_pRcvBuffer (u_rcv U)) \<le> W"
  shows "\<exists>r' es. r' \<in> {r, x} \<and> rcv_inv dat r' c S (ds @ map dat [r..r' - 1]) Q (u_rcv U') \<and>
    same_conn U U' \<and> v_iRcvLastAckAck (u_rcv U') = v_iRcvLastAckAck (u_rcv U) \<and> u_events U' = u_events U @ es \<and>
    (\<forall>p. SendTo p \<in> set es \<longrightarrow> acknowledges W x p) \<and>
    (siz \<noteq> 4 \<and> r < x \<and> wrap x \<noteq> v_iRcvLastAckAck (u_rcv U) \<longrightarrow> r' = x \<and>
      (seqcmp (wrap x) (v_iRcvLastAckAck (u_rcv U)) > 0 \<longrightarrow> (\<exists>p. SendTo p \<in> set es)))"
proof -
  note D = rcv_invD [OF I] and M = next_missing_range [OF I, folded x] and na = next_ack_ok [OF I, folded x]
  let ?v = "u_rcv U" and ?B = "v_pRcvBuffer (u_rcv U)"
  have near: "near x r" using M(1,2) D(7,9) by (simp add: near_def)
  have av: "adv_window B' \<le> W" if "getAvailBufSize B' \<le> W" for B' using that W by (simp add: adv_window_def)
  have nil: "rcv_inv dat r c S (ds @ map dat [r..r - 1]) Q w = rcv_inv dat r c S ds Q w" for w by simp
  consider (skip) "wrap x = v_iRcvLastAckAck ?v" | (lite) "wrap x \<noteq> v_iRcvLastAckAck ?v" "siz = 4"
    | (move) "wrap x \<noteq> v_iRcvLastAckAck ?v" "siz \<noteq> 4" "r < x" | (again) "wrap x \<noteq> v_iRcvLastAckAck ?v" "siz \<noteq> 4" "x = r"
    using M(1) by fastforce
  then show ?thesis
  proof cases
    case skip
    then have "U' = U" using S by (simp add: send_ack_def na)
    then show ?thesis using I skip by (intro exI [of _ r] exI [of _ "[]"]) simp
  next
    case lite
    obtain q where U': "U' = send_peer q U" "q = \<lparr>m_nHeader = [ctl_header 2, 0, 0, 0], iov_base = Some (Words [wrap x]), iov_len = 4\<rparr>"
      using lite S by (simp add: send_ack_def na ack_header)
    have "acknowledges W x (set_hdr 3 (u_PeerID U) q)" using ack_packet_fields(1) [of W x] by (simp add: U')
    then show ?thesis using I lite
      by (intro exI [of _ r] exI [of _ "[SendTo (set_hdr 3 (u_PeerID U) q)]"])
        (simp add: U'(1) send_peer_def emit_def same_conn_def est_ok_def)
  next
    case again
    have eq: "v_iRcvLastAck ?v = wrap x" using again D(3) by simp
    let ?U = "snd (rdtsc E U)"
    have "getAvailBufSize ?B \<le> W" using avail_size [OF D(1)] W by simp
    note av [OF this]
    then have sf: "same_rcv (u_rcv ?U) (u_rcv U') \<and> same_conn ?U U' \<and>
        (if seqcmp (wrap x) (v_iRcvLastAckAck (u_rcv ?U)) > 0 then \<exists>p. u_events U' = u_events ?U @ [SendTo p] \<and> acknowledges W x p else U' = ?U)"
      if "send_full_ack E (fst (rdtsc E U)) ?U = Some U'"
      using send_full_ack_ok [OF that, of x W] D(12) eq by (auto simp: rdtsc_def)
    have c: "same_conn U ?U" "u_events ?U = u_events U" "u_rcv ?U = u_rcv U" by (simp_all add: rdtsc_def same_conn_def est_ok_def)
    have cmp: "seqcmp (wrap x) (v_iRcvLastAck ?v) = 0" using eq seqcmp_wrap [of x x] by (simp add: near_def)
    show ?thesis
    proof (cases "fst (rdtsc E U) - v_ullLastAckTime ?v < int_u64 (i32 (u_iRTT U + 4 * u_iRTTVar U)) * m_ullCPUFrequency (u_timers U)")
      case True
      then have "U' = ?U" using S again cmp eq by (simp add: send_ack_def na rdtsc_def Let_def)
      then show ?thesis using again I c by (intro exI [of _ r] exI [of _ "[]"]) simp
    next
      case False
      then have "send_full_ack E (fst (rdtsc E U)) ?U = Some U'" using S again cmp eq by (simp add: send_ack_def na rdtsc_def Let_def)
      note P = sf [OF this]
      have I': "rcv_inv dat r c S ds Q (u_rcv U')" using rcv_inv_cong [of "u_rcv ?U" "u_rcv U'"] P I c(3) by simp
      obtain es where es: "u_events U' = u_events U @ es" "\<forall>p. SendTo p \<in> set es \<longrightarrow> acknowledges W x p"
        using P c(2) by (auto split: if_splits)
      have "same_conn U U'" "v_iRcvLastAckAck (u_rcv U') = v_iRcvLastAckAck ?v"
        using same_conn_trans [OF c(1)] P c(3) by (auto simp: same_rcv_def)
      then show ?thesis using again I' es by (intro exI [of _ r] exI [of _ es]) simp
    qed
  next
    case move
    have cmp: "seqcmp (wrap x) (v_iRcvLastAck ?v) > 0" "seqoff (v_iRcvLastAck ?v) (wrap x) = x - r"
      using seqcmp_wrap(2) [OF near] seqoff_wrap [of r x] near move(3) D(3) by (simp_all add: near_def abs_minus_commute)
    obtain U1 where U1: "U1 = (let U = snd (rdtsc E U); U = on_rcv (v_iRcvLastAck_update (\<lambda>_. wrap x)) U; U = on_rcv (v_pRcvBuffer_update (rb_ackData (x - r))) U;
      U = (if u_bSynRecving U then emit SignalRecv U else U) in emit (EnableRead (u_SocketID U) (u_sPollID U)) U)" by blast
    have f: "u_rcv U1 = (u_rcv U)\<lparr>v_iRcvLastAck := wrap x, v_pRcvBuffer := rb_ackData (x - r) ?B\<rparr>" "same_conn U U1"
      "\<exists>es. u_events U1 = u_events U @ es \<and> (\<forall>p. SendTo p \<notin> set es)"
      unfolding U1 by (simp_all add: rdtsc_def emit_def Let_def same_conn_def est_ok_def)
    have I1: "rcv_inv dat x c S (ds @ map dat [r..x - 1]) Q (u_rcv U1)"
      by (rule rcv_move [OF I x]) (simp_all add: f D)
    note D1 = rcv_invD [OF I1]
    have "rb_iSize (v_pRcvBuffer (u_rcv U1)) = rb_iSize ?B" by (simp add: f(1) rb_ackData_def Let_def)
    then have "getAvailBufSize (v_pRcvBuffer (u_rcv U1)) \<le> W" using avail_size [OF D1(1)] W by simp
    note w = av [OF this]
    have step: "send_full_ack E (fst (rdtsc E U)) U1 = Some U'" using move cmp S unfolding U1
      by (cases "u_bSynRecving U") (simp_all add: send_ack_def na rdtsc_def Let_def)
    note P = send_full_ack_ok [OF step D1(3) w D1(12)]
    have I': "rcv_inv dat x c S (ds @ map dat [r..x - 1]) Q (u_rcv U')" using rcv_inv_cong [of "u_rcv U1" "u_rcv U'"] P I1 by simp
    obtain es where es: "u_events U' = u_events U @ es" "\<forall>p. SendTo p \<in> set es \<longrightarrow> acknowledges W x p"
      "seqcmp (wrap x) (v_iRcvLastAckAck (u_rcv U)) > 0 \<longrightarrow> (\<exists>p. SendTo p \<in> set es)"
      using P f(3) by (auto simp: f(1) split: if_splits)
    have "same_conn U U'" "v_iRcvLastAckAck (u_rcv U') = v_iRcvLastAckAck ?v"
      using same_conn_trans [OF f(2)] P by (auto simp: same_rcv_def f(1))
    then show ?thesis using I' es by (intro exI [of _ x] exI [of _ es]) simp
  qed
qed

text \<open>It returns, unless the bandwidth estimate divides by zero.\<close>

lemma send_ack_some:
  fixes U :: "'x sock"
  assumes I: "rcv_inv dat r c S ds Q (u_rcv U)" and b: "getBandwidth (e_ceil_quot E) (v_pRcvTimeWindow (u_rcv U)) \<noteq> None"
  shows "\<exists>U'. send_ack E siz U = Some U'"
proof -
  define x where "x = next_missing c S"
  note D = rcv_invD [OF I] and M = next_missing_range [OF I, folded x_def] and na = next_ack_ok [OF I, folded x_def]
  obtain t V where V: "rdtsc E U = (t, V)" by fastforce
  have v: "u_rcv V = u_rcv U" using V by (auto simp: rdtsc_def)
  have near: "near x r" using M(1,2) D(7,9) by (simp add: near_def)
  have full: "\<exists>U'. send_full_ack E t (if b' then emit e1 W else W) = Some U'" 
    if "u_rcv W = v_iRcvLastAck_update (\<lambda>_. wrap y) (v_pRcvBuffer_update g (u_rcv U))" for b' e1 y g and W :: "'x sock"
    by (rule send_full_ack_some [where x = y]) (use b D that in \<open>simp_all add: emit_def\<close>)
  consider (skip) "wrap x = v_iRcvLastAckAck (u_rcv U) \<or> siz = 4" | (move) "wrap x \<noteq> v_iRcvLastAckAck (u_rcv U)" "siz \<noteq> 4" "r < x"
    | (again) "wrap x \<noteq> v_iRcvLastAckAck (u_rcv U)" "siz \<noteq> 4" "x = r" using M(1) by fastforce
  then show ?thesis
  proof cases
    case skip
    then show ?thesis by (auto simp: send_ack_def na ack_header)
  next
    case again
    have "\<exists>U'. send_full_ack E t V = Some U'" by (rule send_full_ack_some [where x = r]) (use b D v in simp_all)
    then show ?thesis using again D(3) seqcmp_wrap [of x x] V v by (simp add: send_ack_def na near_def)
  next
    case move
    have cmp: "seqcmp (wrap x) (v_iRcvLastAck (u_rcv U)) > 0" using seqcmp_wrap(2) [OF near] move(3) D(3) by simp
    let ?g = "rb_ackData (seqoff (v_iRcvLastAck (u_rcv U)) (wrap x))"
    obtain W where W: "W = on_rcv (v_pRcvBuffer_update ?g) (on_rcv (v_iRcvLastAck_update (\<lambda>_. wrap x)) V)" by blast
    let ?W = "if u_bSynRecving V then emit SignalRecv W else W"
    have "\<exists>U'. send_full_ack E t (emit (EnableRead (u_SocketID ?W) (u_sPollID ?W)) ?W) = Some U'"
      using full [where b' = True and W = ?W and y = x and g = ?g] by (simp add: W v emit_def)
    then show ?thesis using move cmp V v by (auto simp: send_ack_def na Let_def W)
  qed
qed

end
