(* ===== verification/UdtSetup.thy ===== *)
theory UdtSetup
  imports UdtConnect UdtReceiverAck
begin

section \<open>UDT: connection setup\<close>

text \<open>
  What \<open>UdtConnect\<close> establishes: fresh structures satisfy the invariants of the sender and of the receiver, and the
  handshake packets carry the handshake from one side to the other.
\<close>

subsection \<open>Sizes\<close>

text \<open>The limits that the options keep, and windows that are small against the circle of sequence numbers.\<close>

definition sizes_ok :: "'c cudt \<Rightarrow> bool" where
  "sizes_ok U \<longleftrightarrow> 92 \<le> u_iMSS U \<and> u_iMSS U < 2 ^ 31 \<and> 0 < u_iRcvBufSize U \<and> u_iRcvBufSize U \<le> u_iFlightFlagSize U \<and> 2 * u_iFlightFlagSize U < m_iSeqNoTH"

lemma sizes_okD:
  assumes "sizes_ok U"
  shows "92 \<le> u_iMSS U" "u_iMSS U < 2 ^ 31" "0 < u_iRcvBufSize U" "u_iRcvBufSize U \<le> u_iFlightFlagSize U" "2 * u_iFlightFlagSize U < m_iSeqNoTH"
    "0 < u_iFlightFlagSize U" "flight_flag U = u_iRcvBufSize U"
  using assms by (auto simp: sizes_ok_def flight_flag_def)

lemma fresh_ints_length [simp]: "length (fresh_ints F k n) = nat n"
  by (simp add: fresh_ints_def)

subsection \<open>The structures of a connection\<close>

text \<open>The fields that name the state of the numbers, and the rest of the object, are not touched by the allocation.\<close>

lemma allocate_ok:
  assumes f: "0 < s_iFlowWindowSize (u_snd U)" "2 * s_iFlowWindowSize (u_snd U) < m_iSeqNoTH" and pay: "0 < u_iPayloadSize U"
    and r: "0 < u_iRcvBufSize U" "u_iRcvBufSize U \<le> u_iFlightFlagSize U" "u_iFlightFlagSize U < m_iSeqNoTH"
  shows "\<exists>B L A G M t. allocate E F U = Some (Inr (U\<lparr>u_snd := (u_snd U)\<lparr>s_pSndBuffer := B, s_pSndLossList := L\<rparr>,
      u_rcv := (u_rcv U)\<lparr>v_pRcvBuffer := CRcvBuffer (u_iRcvBufSize U), v_pRcvLossList := G, v_pACKWindow := A, v_pRcvTimeWindow := M\<rparr>,
      u_bAllocated := True, u_ticks := t\<rparr>)) \<and>
    sb_rep B [] [] \<and> snd_lost L {} \<and> m_iSize L = 2 * s_iFlowWindowSize (u_snd U) \<and> rcv_lost G {} \<and> r_iSize G = u_iFlightFlagSize U \<and>
    aw_ok A \<and> m_iAWSize M = 16 \<and> m_iPWSize M = 64"
proof -
  let ?f = "s_iFlowWindowSize (u_snd U)"
  obtain A where A: "CACKWindow 1024 (fresh_ints F 3 1024) (fresh_ints F 4 1024) (map (fm_times F) [0..<1024]) = Some A" "aw_ok A"
    using new_ack_window [of 1024 "fresh_ints F 3 1024" "fresh_ints F 4 1024" "map (fm_times F) [0..<1024]"] by auto
  have fits: "fits_int (?f * 2)" using f by (simp add: fits_int_def)
  have eq: "allocate E F U = Some (Inr (U\<lparr>u_snd := (u_snd U)\<lparr>s_pSndBuffer := CSndBuffer (fm_blocks F) (fm_bytes F) 32 (u_iPayloadSize U),
        s_pSndLossList := CSndLossList (?f * 2) (fresh_ints F 0 (?f * 2))\<rparr>,
      u_rcv := (u_rcv U)\<lparr>v_pRcvBuffer := CRcvBuffer (u_iRcvBufSize U),
        v_pRcvLossList := CRcvLossList (u_iFlightFlagSize U) (fresh_ints F 1 (u_iFlightFlagSize U)) (fresh_ints F 2 (u_iFlightFlagSize U)), v_pACKWindow := A,
        v_pRcvTimeWindow := CPktTimeWindow (e_time E (u_ticks U)) 16 64\<rparr>, u_bAllocated := True, u_ticks := u_ticks U + 2\<rparr>))"
    using f pay r fits by (simp add: allocate_def A(1) getTime_def Let_def)
  show ?thesis
    by (rule exI, rule exI, rule exI, rule exI, rule exI, rule exI, rule conjI [OF eq])
      (use f pay r A(2) new_snd_buffer [of 32 "u_iPayloadSize U"] snd_lost_new [of "?f * 2" "fresh_ints F 0 (?f * 2)"]
         rcv_lost_new [of "u_iFlightFlagSize U" "fresh_ints F 1 (u_iFlightFlagSize U)" "fresh_ints F 2 (u_iFlightFlagSize U)"]
       in \<open>simp add: CPktTimeWindow_def CSndLossList_def CRcvLossList_def\<close>)
qed

lemma consult_cache_frame: "consult_cache K addr U = Some U' \<Longrightarrow> \<exists>rtt bw. U' = U\<lparr>u_iRTT := rtt, u_iBandwidth := bw\<rparr>"
proof -
  assume "consult_cache K addr U = Some U'"
  then have "U' = U \<or> (\<exists>rtt bw. U' = U\<lparr>u_iRTT := rtt, u_iBandwidth := bw\<rparr>)"
    by (auto simp: consult_cache_def bind_eq_Some_conv split: if_splits)
  moreover have "U = U\<lparr>u_iRTT := u_iRTT U, u_iBandwidth := u_iBandwidth U\<rparr>" by simp
  ultimately show ?thesis by metis
qed

lemma create_CC_frame:
  "create_CC E V U = Some U' \<Longrightarrow> \<exists>C t i w. U' = U\<lparr>u_ticks := t, u_pCC := C, u_snd := (u_snd U)\<lparr>s_ullInterval := i, s_dCongestionWindow := w\<rparr>\<rparr>"
  by (auto simp: create_CC_def bind_eq_Some_conv update_CC_def getTime_def Let_def)

subsection \<open>An established connection\<close>

text \<open>Nothing sent from \<open>n\<close> on, nothing received from \<open>m\<close> on; the peer is \<open>pid\<close>, the flow window \<open>f\<close>.\<close>

definition established :: "int \<Rightarrow> int \<Rightarrow> int \<Rightarrow> int \<Rightarrow> 'c cudt \<Rightarrow> bool" where
  "established f n m pid U \<longleftrightarrow> snd_inv f n n {} [] [] (u_snd U) \<and> (\<forall>dat Q. rcv_inv dat m (m - 1) {} [] Q (u_rcv U)) \<and> u_bConnected U \<and>
     u_PeerID U = pid \<and> u_iPayloadSize U = u_iMSS U - 44 \<and> u_bAllocated U \<and> s_iFlowWindowSize (u_snd U) = f"

lemma snd_inv_new:
  assumes "sb_rep (s_pSndBuffer s) [] []" "snd_lost (s_pSndLossList s) {}" "m_iSize (s_pSndLossList s) = 2 * s_iFlowWindowSize s"
    "0 < s_iFlowWindowSize s" "2 * s_iFlowWindowSize s < m_iSeqNoTH" "1 \<le> n" "n \<le> m_iMaxSeqNo"
    "s_iSndLastAck s = n" "s_iSndLastDataAck s = n" "s_iSndCurrSeqNo s = n - 1"
  shows "snd_inv (s_iFlowWindowSize s) n n {} [] [] s"
  using assms wrap_small [of n] wrap_small [of "n - 1"] by (simp add: snd_inv_defs)

lemma rcv_inv_new:
  assumes "v_pRcvBuffer v = CRcvBuffer b" "rcv_lost (v_pRcvLossList v) {}" "0 < b" "b \<le> r_iSize (v_pRcvLossList v)" "b + 2 < m_iSeqNoTH"
    "aw_ok (v_pACKWindow v)" "m_iAWSize (v_pRcvTimeWindow v) = 16" "m_iPWSize (v_pRcvTimeWindow v) = 64" "1 \<le> n" "n \<le> m_iMaxSeqNo"
    "v_iRcvLastAck v = n" "v_iRcvCurrSeqNo v = n - 1"
  shows "rcv_inv dat n (n - 1) {} [] Q v"
  using assms wrap_small [of n] wrap_small [of "n - 1"] new_rcv_buffer [of b Q]
  by (auto simp: rcv_inv_def CRcvBuffer_def rd_def place_def nat_less_iff)

text \<open>What remains after the allocation changes none of this.\<close>

lemma establish:
  assumes al: "allocate E F U = Some (Inr U1)" and cc: "consult_cache K addr U1 = Some U2" "create_CC E V U2 = Some U3"
    and f: "0 < s_iFlowWindowSize (u_snd U)" "2 * s_iFlowWindowSize (u_snd U) < m_iSeqNoTH" and pay: "0 < u_iPayloadSize U" "u_iPayloadSize U = u_iMSS U - 44"
    and r: "0 < u_iRcvBufSize U" "u_iRcvBufSize U \<le> u_iFlightFlagSize U" "2 * u_iFlightFlagSize U < m_iSeqNoTH"
    and n: "1 \<le> n" "n \<le> m_iMaxSeqNo" "s_iSndLastAck (u_snd U) = n" "s_iSndLastDataAck (u_snd U) = n" "s_iSndCurrSeqNo (u_snd U) = n - 1"
    and m: "1 \<le> m" "m \<le> m_iMaxSeqNo" "v_iRcvLastAck (u_rcv U) = m" "v_iRcvCurrSeqNo (u_rcv U) = m - 1"
  shows "established (s_iFlowWindowSize (u_snd U)) n m (u_PeerID U) (U3\<lparr>u_bConnected := True\<rparr>)" "u_iMSS U3 = u_iMSS U" "u_SocketID U3 = u_SocketID U"
    "u_iIPversion U3 = u_iIPversion U" "u_events U3 = u_events U" "u_PeerID U3 = u_PeerID U" "u_pPeerAddr U1 = u_pPeerAddr U" "u_sPollID U3 = u_sPollID U"
    "s_iISN (u_snd U3) = s_iISN (u_snd U)"
proof -
  have r3: "u_iFlightFlagSize U < m_iSeqNoTH" using r by linarith
  obtain B L A G M t where A: "U1 = U\<lparr>u_snd := (u_snd U)\<lparr>s_pSndBuffer := B, s_pSndLossList := L\<rparr>,
      u_rcv := (u_rcv U)\<lparr>v_pRcvBuffer := CRcvBuffer (u_iRcvBufSize U), v_pRcvLossList := G, v_pACKWindow := A, v_pRcvTimeWindow := M\<rparr>,
      u_bAllocated := True, u_ticks := t\<rparr>"
    "sb_rep B [] []" "snd_lost L {}" "m_iSize L = 2 * s_iFlowWindowSize (u_snd U)" "rcv_lost G {}" "r_iSize G = u_iFlightFlagSize U"
    "aw_ok A" "m_iAWSize M = 16" "m_iPWSize M = 64"
    using allocate_ok [OF f pay(1) r(1,2) r3, of E F] al by auto
  obtain rtt bw where U2: "U2 = U1\<lparr>u_iRTT := rtt, u_iBandwidth := bw\<rparr>" using consult_cache_frame [OF cc(1)] by blast
  obtain C t' i w where U3: "U3 = U2\<lparr>u_ticks := t', u_pCC := C, u_snd := (u_snd U2)\<lparr>s_ullInterval := i, s_dCongestionWindow := w\<rparr>\<rparr>"
    using create_CC_frame [OF cc(2)] by blast
  have s: "snd_inv (s_iFlowWindowSize (u_snd U3)) n n {} [] [] (u_snd U3)"
    by (rule snd_inv_new) (use A f n in \<open>simp_all add: U3 U2\<close>)
  have v: "rcv_inv dat m (m - 1) {} [] Q (u_rcv U3)" for dat Q
    by (rule rcv_inv_new [where b = "u_iRcvBufSize U"]) (use A r m in \<open>simp_all add: U3 U2\<close>)
  show "established (s_iFlowWindowSize (u_snd U)) n m (u_PeerID U) (U3\<lparr>u_bConnected := True\<rparr>)"
    using s v pay(2) by (simp add: established_def U3 U2 A(1))
  show "u_iMSS U3 = u_iMSS U" "u_SocketID U3 = u_SocketID U" "u_iIPversion U3 = u_iIPversion U" "u_events U3 = u_events U" "u_PeerID U3 = u_PeerID U"
    "u_pPeerAddr U1 = u_pPeerAddr U" "u_sPollID U3 = u_sPollID U" "s_iISN (u_snd U3) = s_iISN (u_snd U)"
    by (simp_all add: U3 U2 A(1))
qed

subsection \<open>Handshake packets\<close>

definition handshake :: "chandshake \<Rightarrow> cpacket \<Rightarrow> bool" where
  "handshake h p \<longleftrightarrow> getFlag p = 1 \<and> getType p = 0 \<and> getLength p = 48 \<and> 12 \<le> length (payload_words (iov_base p)) \<and>
     length (hs_piPeerIP h) = 4 \<and> (\<forall>h0. hs_deserialize h0 (map word_of_int (payload_words (iov_base p))) 48 = Some (0, h))"

lemma word_sint [simp]: "map word_of_int (map sint ws) = (ws :: u32 list)"
  by (induction ws) simp_all

lemma payload_words_Words [simp]: "payload_words (Some (Words ws)) = ws"
  by (simp add: payload_words_def)

lemma ctl_fields_0: "getType (set_hdr 3 z \<lparr>m_nHeader = ctl_header 0 # hs, iov_base = d, iov_len = l\<rparr>) = 0"
    "getFlag (set_hdr 3 z \<lparr>m_nHeader = ctl_header 0 # hs, iov_base = d, iov_len = l\<rparr>) = 1"
  using ctl_header_fields [of 0] by (simp_all add: set_hdr_def getType_def getFlag_def)

lemma handshake_written:
  assumes "48 \<le> siz" "12 \<le> length buf" "length (hs_piPeerIP h) = 4"
  obtains ws where "hs_serialize h buf siz = Some (0, ws, 48)" "length ws = length buf" "\<And>h0. hs_deserialize h0 ws 48 = Some (0, h)"
proof -
  obtain ws where ws: "hs_serialize h buf siz = Some (0, ws, 48)" "length ws = length buf" "hs_deserialize CHandShake ws 48 = Some (0, h)"
    using handshake_codec [OF assms, of CHandShake] by blast
  have "hs_deserialize h0 ws 48 = hs_deserialize CHandShake ws 48" for h0
    using ws(2) assms(2) by (simp add: hs_deserialize_def hs_contentSize_def)
  then show ?thesis using that ws by simp
qed

lemma handshake_packet_ok:
  assumes "48 \<le> siz" "length (hs_piPeerIP h) = 4"
  shows "\<exists>p. handshake_packet pid h siz = Some (48, p) \<and> handshake h p"
proof -
  have "12 \<le> cdiv siz 4" using assms(1) by (simp add: cdiv_def)
  then have l: "12 \<le> length (replicate (nat (cdiv siz 4)) (0 :: u32))" by simp
  obtain ws where ws: "hs_serialize h (replicate (nat (cdiv siz 4)) 0) siz = Some (0, ws, 48)" "length ws = nat (cdiv siz 4)"
      "\<forall>h0. hs_deserialize h0 ws 48 = Some (0, h)"
    using handshake_written [OF assms(1) l assms(2)] by (metis length_replicate)
  have "pack 0 None (Some (Words [])) siz CPacket = Some \<lparr>m_nHeader = [ctl_header 0, 0, 0, 0], iov_base = Some (Words []), iov_len = siz\<rparr>"
    by (simp add: pack_def CPacket_def ctl_header_def set_hdr_def)
  then have "handshake_packet pid h siz = Some (48, setLength 48 (set_hdr 3 pid
      \<lparr>m_nHeader = [ctl_header 0, 0, 0, 0], iov_base = Some (Words (map sint ws)), iov_len = siz\<rparr>))"
    using ws(1) by (simp add: handshake_packet_def)
  moreover have "handshake h (setLength 48 (set_hdr 3 pid \<lparr>m_nHeader = [ctl_header 0, 0, 0, 0], iov_base = Some (Words (map sint ws)), iov_len = siz\<rparr>))"
    using ws l assms(2) ctl_fields_0 [of pid "[0, 0, 0]" _ 48] by (simp add: handshake_def setLength_def getLength_def set_hdr_def del: map_map)
  ultimately show ?thesis by blast
qed

lemma answer_handshake_ok:
  assumes "handshake h0 p" "length (hs_piPeerIP h) = 4"
  shows "\<exists>q. answer_handshake addr h pid 48 p U = Some (emit (SendAddr addr q) U) \<and> handshake h q"
proof -
  have l: "12 \<le> length (map word_of_int (payload_words (iov_base p)) :: u32 list)" using assms(1) by (simp add: handshake_def)
  obtain ws where ws: "hs_serialize h (map word_of_int (payload_words (iov_base p))) 48 = Some (0, ws, 48)" "length ws = length (payload_words (iov_base p))"
      "\<forall>h0. hs_deserialize h0 ws 48 = Some (0, h)"
    using handshake_written [OF _ l assms(2), of 48] by (metis length_map order_refl)
  have "handshake h (set_hdr 3 pid (p\<lparr>iov_base := Some (Words (map sint ws))\<rparr>))"
    using ws assms by (auto simp: handshake_def getType_def getFlag_def getLength_def set_hdr_def nth_list_update simp del: map_map)
  moreover have "answer_handshake addr h pid 48 p U = Some (emit (SendAddr addr (set_hdr 3 pid (p\<lparr>iov_base := Some (Words (map sint ws))\<rparr>))) U)"
    using ws(1) by (simp add: answer_handshake_def)
  ultimately show ?thesis by blast
qed

lemma handshake_decode: "handshake h p \<Longrightarrow> hs_deserialize h0 (map word_of_int (payload_words (iov_base p))) (getLength p) = Some (0, h)"
  by (simp add: handshake_def)

lemma ntop_length: "ntop addr ip ver = Some ip' \<Longrightarrow> length ip = 4 \<Longrightarrow> length ip' = 4"
  by (cases addr) (auto split: if_splits)

subsection \<open>The client's side\<close>

text \<open>The initial number: never the largest one less than the limit, and 0 only for the least random numbers.\<close>

lemma random_isn_range:
  assumes "0 \<le> r" "r \<le> 2147483647"
  shows "0 \<le> random_isn r \<and> random_isn r \<le> m_iMaxSeqNo"
proof -
  have "0 \<le> real_of_int m_iMaxSeqNo * (real_of_int r / 2147483647)" "real_of_int m_iMaxSeqNo * (real_of_int r / 2147483647) \<le> real_of_int m_iMaxSeqNo"
    using assms mult_left_mono [of "real_of_int r / 2147483647" 1 "real_of_int m_iMaxSeqNo"] by simp_all
  then show ?thesis unfolding random_isn_def int_of_real_def by (auto simp: floor_le_iff le_floor_iff)
qed

text \<open>The first request. \<open>connecting\<close> is what is kept until the answer comes.\<close>

definition connecting :: "int \<Rightarrow> sockaddr \<Rightarrow> chandshake \<Rightarrow> 'c cudt \<Rightarrow> bool" where
  "connecting n addr h U \<longleftrightarrow> u_bConnecting U \<and> \<not> u_bRendezvous U \<and> u_ConnReq U = h \<and> u_pPeerAddr U = Some addr \<and> length (hs_piPeerIP h) = 4 \<and>
     48 \<le> u_iPayloadSize U \<and> s_iISN (u_snd U) = n \<and> s_iSndLastAck (u_snd U) = n \<and> s_iSndLastDataAck (u_snd U) = n \<and> s_iSndCurrSeqNo (u_snd U) = n - 1"

lemma connect_start_ok:
  assumes A: "connect_start E r addr U = Some (Inr (ttl, U'))" and nr: "\<not> u_bRendezvous U" and ip: "length (hs_piPeerIP (u_ConnReq U)) = 4"
    and pay: "48 \<le> u_iPayloadSize U"
  defines "h \<equiv> u_ConnReq U'"
  shows "connecting (random_isn r) addr h U' \<and> hs_iReqType h = 1 \<and> hs_iISN h = word_of_int (random_isn r) \<and> hs_iID h = word_of_int (u_SocketID U) \<and>
    hs_iMSS h = word_of_int (u_iMSS U) \<and> hs_iFlightFlagSize h = word_of_int (flight_flag U) \<and> hs_iVersion h = 4 \<and> hs_iType h = word_of_int (m_iSockType U) \<and>
    (\<exists>p. u_events U' = u_events U @ [RegisterConnector (u_SocketID U) addr ttl, SendAddr addr p] \<and> handshake h p) \<and>
    u_iMSS U' = u_iMSS U \<and> u_iRcvBufSize U' = u_iRcvBufSize U \<and> u_iFlightFlagSize U' = u_iFlightFlagSize U \<and> u_SocketID U' = u_SocketID U \<and> u_llMaxBW U' = u_llMaxBW U \<and> u_iIPversion U' = u_iIPversion U"
proof -
  obtain req where req: "conn_request (random_isn r) addr (U\<lparr>u_pPeerAddr := Some addr,
      u_events := u_events U @ [RegisterConnector (u_SocketID U) addr ttl], u_ticks := u_ticks U + 2\<rparr>) = Some req"
    using A nr by (auto simp: connect_start_def getTime_def emit_def Let_def bind_eq_Some_conv split: if_splits)
  have f: "length (hs_piPeerIP req) = 4" "hs_iReqType req = 1" "hs_iISN req = word_of_int (random_isn r)" "hs_iID req = word_of_int (u_SocketID U)"
    "hs_iMSS req = word_of_int (u_iMSS U)" "hs_iFlightFlagSize req = word_of_int (flight_flag U)" "hs_iVersion req = 4" "hs_iType req = word_of_int (m_iSockType U)"
    using req nr ip ntop_length by (auto simp: conn_request_def Let_def bind_eq_Some_conv m_iVersion_def flight_flag_def m_iSockType_def)
  obtain p where p: "handshake_packet 0 req (u_iPayloadSize U) = Some (48, p)" "handshake req p" using handshake_packet_ok [OF pay f(1)] by blast
  show ?thesis using A req p f nr pay unfolding h_def
    by (auto simp: connect_start_def getTime_def emit_def Let_def bind_eq_Some_conv connecting_def snd_start_def split: if_splits)
qed

text \<open>A challenge puts the cookie into the request; the request is sent again.\<close>

lemma connect_challenged:
  assumes "connecting n addr h U" "handshake c p" "hs_iReqType c = 1"
  shows "\<exists>U'. connect_response E V F K p U = Some (1, U') \<and> connecting n addr (h\<lparr>hs_iReqType := -1, hs_iCookie := hs_iCookie c\<rparr>) U' \<and>
    u_events U' = u_events U \<and> u_iMSS U' = u_iMSS U \<and> u_iRcvBufSize U' = u_iRcvBufSize U \<and> u_iFlightFlagSize U' = u_iFlightFlagSize U \<and>
    u_SocketID U' = u_SocketID U \<and> u_llMaxBW U' = u_llMaxBW U \<and> u_iIPversion U' = u_iIPversion U \<and> u_llLastReqTime U' = 0"
  using assms by (simp add: connect_response_def connecting_def handshake_decode) (simp add: handshake_def)

lemma connect_again_ok:
  assumes "connecting n addr h U" "e_time E (u_ticks U) - u_llLastReqTime U > 250000"
  shows "\<exists>U' p. connect_again E addr U = Some U' \<and> handshake h p \<and> connecting n addr h U' \<and> u_events U' = u_events U @ [SendAddr addr p] \<and>
    u_iMSS U' = u_iMSS U \<and> u_iRcvBufSize U' = u_iRcvBufSize U \<and> u_iFlightFlagSize U' = u_iFlightFlagSize U \<and> u_SocketID U' = u_SocketID U \<and> u_llMaxBW U' = u_llMaxBW U \<and> u_iIPversion U' = u_iIPversion U"
proof -
  have pre: "48 \<le> u_iPayloadSize U" "length (hs_piPeerIP h) = 4" "u_ConnReq U = h" "\<not> u_bRendezvous U" using assms(1) by (simp_all add: connecting_def)
  obtain p where p: "handshake_packet 0 h (u_iPayloadSize U) = Some (48, p)" "handshake h p" using handshake_packet_ok [OF pre(1,2)] by blast
  show ?thesis using p pre assms by (simp add: connect_again_def getTime_def emit_def Let_def connecting_def)
qed

subsection \<open>The listener's side\<close>

lemma listen_challenges:
  fixes E :: env
  assumes "handshake h p" "\<not> u_bClosing L" "hs_iReqType h = 1"
  defines "t \<equiv> cookie_time (e_time E (u_ticks L)) (t_StartTime (u_trace L))"
  shows "\<exists>L' q. listen_packet E md5 name f addr p L = Some (0, L') \<and> handshake (h\<lparr>hs_iCookie := cookie_of md5 (cookie_text name t)\<rparr>) q \<and>
    L' = L\<lparr>u_ticks := u_ticks L + 1, u_events := u_events L @ [SendAddr addr q]\<rparr>"
proof -
  let ?h = "h\<lparr>hs_iCookie := cookie_of md5 (cookie_text name t)\<rparr>"
  have l: "length (hs_piPeerIP ?h) = 4" "getLength p = 48" using assms(1) by (simp_all add: handshake_def)
  obtain q where "answer_handshake addr ?h (sint (hs_iID h)) 48 p (L\<lparr>u_ticks := u_ticks L + 1\<rparr>) = Some (emit (SendAddr addr q) (L\<lparr>u_ticks := u_ticks L + 1\<rparr>))"
      "handshake ?h q"
    using answer_handshake_ok [OF assms(1) l(1)] by metis
  moreover have "hs_deserialize CHandShake (map word_of_int (payload_words (iov_base p))) 48 = Some (0, h)"
    using assms(1) by (simp add: handshake_def)
  ultimately show ?thesis using assms(2,3) l(2) by (simp add: listen_packet_def getTime_def emit_def hs_contentSize_def t_def Let_def) blast
qed

text \<open>A request with the cookie of this minute reaches the management module as it was sent.\<close>

lemma listen_admits:
  assumes "handshake h p" "\<not> u_bClosing L" "hs_iReqType h = -1" "hs_iVersion h = 4" "hs_iType h = word_of_int (m_iSockType L)"
    and c: "hs_iCookie h = cookie_of md5 (cookie_text name (cookie_time (e_time E (u_ticks L)) (t_StartTime (u_trace L))))"
    and f: "f h = (1, h')"
  shows "listen_packet E md5 name f addr p L = Some (sint (hs_iReqType h'), emit (EnableWrite (u_SocketID L) (u_sPollID L)) (L\<lparr>u_ticks := u_ticks L + 1\<rparr>))"
proof -
  have "sint (hs_iVersion h) = m_iVersion" "sint (hs_iType h) = m_iSockType (L\<lparr>u_ticks := u_ticks L + 1\<rparr>)" "hs_iReqType h \<noteq> 1"
    using assms(3-5) by (simp_all add: m_iVersion_def m_iSockType_def)
  then show ?thesis using assms handshake_decode [OF assms(1)]
    by (simp add: listen_packet_def admit_def check_cookie_def getTime_def hs_contentSize_def emit_def handshake_def m_iVersion_def m_iSockType_def)
qed

subsection \<open>The answer\<close>

text \<open>What the answer tells the client, from the handshake \<open>hs\<close> it answers and the socket \<open>U\<close> that was made for it.\<close>

definition answers :: "chandshake \<Rightarrow> 'c cudt \<Rightarrow> chandshake \<Rightarrow> bool" where
  "answers hs U hs' \<longleftrightarrow> hs_iISN hs' = hs_iISN hs \<and> hs_iReqType hs' = -1 \<and> hs_iID hs' = word_of_int (u_SocketID U) \<and>
     hs_iFlightFlagSize hs' = word_of_int (flight_flag U) \<and> sint (hs_iMSS hs') = min (sint (hs_iMSS hs)) (u_iMSS U) \<and>
     hs_iCookie hs' = hs_iCookie hs \<and> length (hs_piPeerIP hs') = 4"

lemma flight_flag_frame [simp]: "flight_flag (U\<lparr>u_iMSS := m, u_snd := s\<rparr>) = flight_flag U"
  by (simp add: flight_flag_def)

lemma sint_mss: "0 \<le> x \<Longrightarrow> x < 2 ^ 31 \<Longrightarrow> sint (word_of_int x :: 32 word) = x"
  by (rule sint_31) simp_all

lemma connect_peer_steps:
  fixes U :: "'x sock"
  assumes ip: "ntop peer (hs_piPeerIP hs) (u_iIPversion U) = Some ip" and sz: "sizes_ok U" and mss: "92 \<le> sint (hs_iMSS hs)"
    and fl: "0 < sint (hs_iFlightFlagSize hs)" "2 * sint (hs_iFlightFlagSize hs) < m_iSeqNoTH"
  defines "isn \<equiv> sint (hs_iISN hs)" and "m \<equiv> min (sint (hs_iMSS hs)) (u_iMSS U)"
  defines "hs' \<equiv> hs\<lparr>hs_iMSS := word_of_int m, hs_iFlightFlagSize := word_of_int (flight_flag U), hs_iID := word_of_int (u_SocketID U), hs_iReqType := -1, hs_piPeerIP := ip\<rparr>"
  obtains W U1 where "allocate E F W = Some (Inr U1)"
    "connect_peer E V F K peer hs U = do { U \<leftarrow> consult_cache K peer U1; U \<leftarrow> create_CC E V U;
      (_, p) \<leftarrow> handshake_packet (u_PeerID U) hs' 48;
      Some (Inr (hs', emit (SendAddr peer p) (emit NewEntry (U\<lparr>u_pPeerAddr := Some peer, u_bConnected := True\<rparr>)))) }"
    "W = U\<lparr>u_iMSS := m, u_iPeerISN := isn, u_rcv := (u_rcv U)\<lparr>v_iRcvLastAck := isn, v_iRcvLastAckAck := isn, v_iRcvCurrSeqNo := isn - 1\<rparr>,
      u_PeerID := sint (hs_iID hs), u_ticks := Suc (u_ticks U),
      u_snd := snd_start isn (e_time E (u_ticks U)) ((u_snd U)\<lparr>s_iFlowWindowSize := sint (hs_iFlightFlagSize hs), s_iISN := isn\<rparr>),
      u_piSelfIP := hs_piPeerIP hs, u_iPktSize := m - 28, u_iPayloadSize := m - 44\<rparr>"
proof -
  note Z = sizes_okD [OF sz]
  obtain t where t: "t = e_time E (u_ticks U)" by blast
  obtain W where W: "W = U\<lparr>u_iMSS := m, u_iPeerISN := isn, u_rcv := (u_rcv U)\<lparr>v_iRcvLastAck := isn, v_iRcvLastAckAck := isn, v_iRcvCurrSeqNo := isn - 1\<rparr>,
      u_PeerID := sint (hs_iID hs), u_ticks := Suc (u_ticks U),
      u_snd := snd_start isn t ((u_snd U)\<lparr>s_iFlowWindowSize := sint (hs_iFlightFlagSize hs), s_iISN := isn\<rparr>),
      u_piSelfIP := hs_piPeerIP hs, u_iPktSize := m - 28, u_iPayloadSize := m - 44\<rparr>" by blast
  have eq: "(if sint (hs_iMSS hs) > u_iMSS U then (hs\<lparr>hs_iMSS := word_of_int (u_iMSS U)\<rparr>, U) else (hs, U\<lparr>u_iMSS := sint (hs_iMSS hs)\<rparr>)) =
      (hs\<lparr>hs_iMSS := word_of_int m\<rparr>, U\<lparr>u_iMSS := m\<rparr>)"
    unfolding m_def by (cases hs; cases U) simp
  have w: "0 < s_iFlowWindowSize (u_snd W)" "2 * s_iFlowWindowSize (u_snd W) < m_iSeqNoTH" "0 < u_iPayloadSize W"
    "0 < u_iRcvBufSize W" "u_iRcvBufSize W \<le> u_iFlightFlagSize W" "u_iFlightFlagSize W < m_iSeqNoTH"
    using fl Z mss by (simp_all add: W snd_start_def m_def)
  obtain U1 where U1: "allocate E F W = Some (Inr U1)" using allocate_ok [OF w, of E F] by blast
  have sz': "set_sizes (U\<lparr>u_iMSS := m, u_iPeerISN := isn,
      u_rcv := (u_rcv U)\<lparr>v_iRcvLastAck := isn, v_iRcvLastAckAck := isn, v_iRcvCurrSeqNo := isn - 1\<rparr>, u_PeerID := sint (hs_iID hs),
      u_ticks := Suc (u_ticks U), u_snd := snd_start isn t ((u_snd U)\<lparr>s_iFlowWindowSize := sint (hs_iFlightFlagSize hs), s_iISN := isn\<rparr>),
      u_piSelfIP := hs_piPeerIP hs\<rparr>) = W"
    by (simp add: W set_sizes_def m_iPktHdrSize_def)
  have "connect_peer E V F K peer hs U = do { U \<leftarrow> consult_cache K peer U1; U \<leftarrow> create_CC E V U;
      (_, p) \<leftarrow> handshake_packet (u_PeerID U) hs' 48;
      Some (Inr (hs', emit (SendAddr peer p) (emit NewEntry (U\<lparr>u_pPeerAddr := Some peer, u_bConnected := True\<rparr>)))) }"
    using ip U1 sz' unfolding connect_peer_def eq t hs'_def
    by (simp add: getTime_def rcv_start_def Let_def emit_def hs_contentSize_def isn_def [symmetric])
  then show ?thesis using that U1 W t by blast
qed

lemma connect_peer_ok:
  fixes U :: "'x sock"
  assumes A: "connect_peer E V F K peer hs U = Some (Inr (hs', U'))" and sz: "sizes_ok U" and ip: "length (hs_piPeerIP hs) = 4"
    and n: "1 \<le> sint (hs_iISN hs)" and mss: "92 \<le> sint (hs_iMSS hs)"
    and fl: "0 < sint (hs_iFlightFlagSize hs)" "2 * sint (hs_iFlightFlagSize hs) < m_iSeqNoTH"
  shows "established (sint (hs_iFlightFlagSize hs)) (sint (hs_iISN hs)) (sint (hs_iISN hs)) (sint (hs_iID hs)) U' \<and> answers hs U hs' \<and>
    (\<exists>p. u_events U' = u_events U @ [NewEntry, SendAddr peer p] \<and> handshake hs' p) \<and> u_iMSS U' = sint (hs_iMSS hs') \<and> u_SocketID U' = u_SocketID U"
proof -
  let ?isn = "sint (hs_iISN hs)" and ?fl = "sint (hs_iFlightFlagSize hs)" and ?m = "min (sint (hs_iMSS hs)) (u_iMSS U)"
  note Z = sizes_okD [OF sz]
  obtain ip' where ip': "ntop peer (hs_piPeerIP hs) (u_iIPversion U) = Some ip'"
    using A unfolding connect_peer_def by (auto simp: getTime_def rcv_start_def Let_def bind_eq_Some_conv split: if_splits)
  let ?hs = "hs\<lparr>hs_iMSS := word_of_int ?m, hs_iFlightFlagSize := word_of_int (flight_flag U), hs_iID := word_of_int (u_SocketID U), hs_iReqType := -1, hs_piPeerIP := ip'\<rparr>"
  have isn: "?isn \<le> m_iMaxSeqNo" using sint_range_size [of "hs_iISN hs"] by (simp add: word_size)
  obtain W U1 where S0: "allocate E F W = Some (Inr U1)"
    "connect_peer E V F K peer hs U = do { U \<leftarrow> consult_cache K peer U1; U \<leftarrow> create_CC E V U;
      (_, p) \<leftarrow> handshake_packet (u_PeerID U) ?hs 48;
      Some (Inr (?hs, emit (SendAddr peer p) (emit NewEntry (U\<lparr>u_pPeerAddr := Some peer, u_bConnected := True\<rparr>)))) }"
    "W = U\<lparr>u_iMSS := ?m, u_iPeerISN := ?isn, u_rcv := (u_rcv U)\<lparr>v_iRcvLastAck := ?isn, v_iRcvLastAckAck := ?isn, v_iRcvCurrSeqNo := ?isn - 1\<rparr>,
      u_PeerID := sint (hs_iID hs), u_ticks := Suc (u_ticks U),
      u_snd := snd_start ?isn (e_time E (u_ticks U)) ((u_snd U)\<lparr>s_iFlowWindowSize := ?fl, s_iISN := ?isn\<rparr>),
      u_piSelfIP := hs_piPeerIP hs, u_iPktSize := ?m - 28, u_iPayloadSize := ?m - 44\<rparr>"
    by (rule connect_peer_steps [OF ip' sz mss fl])
  note W = S0(3)
  have w: "0 < s_iFlowWindowSize (u_snd W)" "2 * s_iFlowWindowSize (u_snd W) < m_iSeqNoTH" "0 < u_iPayloadSize W" "u_iPayloadSize W = u_iMSS W - 44"
    "0 < u_iRcvBufSize W" "u_iRcvBufSize W \<le> u_iFlightFlagSize W" "2 * u_iFlightFlagSize W < m_iSeqNoTH"
    "s_iSndLastAck (u_snd W) = ?isn" "s_iSndLastDataAck (u_snd W) = ?isn" "s_iSndCurrSeqNo (u_snd W) = ?isn - 1"
    "v_iRcvLastAck (u_rcv W) = ?isn" "v_iRcvCurrSeqNo (u_rcv W) = ?isn - 1"
    using fl Z mss by (simp_all add: W snd_start_def)
  obtain U2 U3 q where S: "consult_cache K peer U1 = Some U2" "create_CC E V U2 = Some U3" "hs' = ?hs" "handshake_packet (u_PeerID U3) ?hs 48 = Some q"
    "U' = emit (SendAddr peer (snd q)) (emit NewEntry (U3\<lparr>u_pPeerAddr := Some peer, u_bConnected := True\<rparr>))"
    using A unfolding S0(2) by (auto simp: bind_eq_Some_conv)
  note est = establish [OF S0(1) S(1,2) w(1-7) n isn w(8-10) n isn w(11,12)]
  have l: "length (hs_piPeerIP ?hs) = 4" using ntop_length [OF ip' ip] by simp
  have q: "handshake hs' (snd q)" using handshake_packet_ok [OF _ l, of 48 "u_PeerID U3"] S(3,4) by auto
  have m: "sint (word_of_int ?m :: u32) = ?m" by (rule sint_mss) (use Z mss in auto)
  have e: "established ?fl ?isn ?isn (sint (hs_iID hs)) U'" using est(1) by (simp add: established_def S(5) emit_def W snd_start_def)
  show ?thesis using e q l m est by (simp add: answers_def S(3,5) emit_def W)
qed

text \<open>It succeeds, unless the cache is damaged or the address has the wrong family.\<close>

lemma connect_peer_some:
  fixes U :: "'x sock"
  assumes ip: "ntop peer (hs_piPeerIP hs) (u_iIPversion U) = Some ip" "length ip = 4" and sz: "sizes_ok U" and mss: "92 \<le> sint (hs_iMSS hs)"
    and fl: "0 < sint (hs_iFlightFlagSize hs)" "2 * sint (hs_iFlightFlagSize hs) < m_iSeqNoTH"
    and K: "\<And>W :: 'x sock. u_iIPversion W = u_iIPversion U \<Longrightarrow> consult_cache K peer W = Some W" and bw: "u_llMaxBW U \<le> 0"
  shows "\<exists>hs' U'. connect_peer E V F K peer hs U = Some (Inr (hs', U'))"
proof (rule connect_peer_steps [OF ip(1) sz mss fl, of E F V K])
  let ?hs = "hs\<lparr>hs_iMSS := word_of_int (min (sint (hs_iMSS hs)) (u_iMSS U)), hs_iFlightFlagSize := word_of_int (flight_flag U),
    hs_iID := word_of_int (u_SocketID U), hs_iReqType := -1, hs_piPeerIP := ip\<rparr>"
  fix W U1
  assume al: "allocate E F W = Some (Inr U1)"
    and eq: "connect_peer E V F K peer hs U = do { U \<leftarrow> consult_cache K peer U1; U \<leftarrow> create_CC E V U;
      (_, p) \<leftarrow> handshake_packet (u_PeerID U) ?hs 48;
      Some (Inr (?hs, emit (SendAddr peer p) (emit NewEntry (U\<lparr>u_pPeerAddr := Some peer, u_bConnected := True\<rparr>)))) }"
    and W: "W = U\<lparr>u_iMSS := min (sint (hs_iMSS hs)) (u_iMSS U), u_iPeerISN := sint (hs_iISN hs),
      u_rcv := (u_rcv U)\<lparr>v_iRcvLastAck := sint (hs_iISN hs), v_iRcvLastAckAck := sint (hs_iISN hs), v_iRcvCurrSeqNo := sint (hs_iISN hs) - 1\<rparr>,
      u_PeerID := sint (hs_iID hs), u_ticks := Suc (u_ticks U),
      u_snd := snd_start (sint (hs_iISN hs)) (e_time E (u_ticks U)) ((u_snd U)\<lparr>s_iFlowWindowSize := sint (hs_iFlightFlagSize hs), s_iISN := sint (hs_iISN hs)\<rparr>),
      u_piSelfIP := hs_piPeerIP hs, u_iPktSize := min (sint (hs_iMSS hs)) (u_iMSS U) - 28, u_iPayloadSize := min (sint (hs_iMSS hs)) (u_iMSS U) - 44\<rparr>"
  have U1: "u_iIPversion U1 = u_iIPversion U" "u_llMaxBW U1 = u_llMaxBW U"
    using al by (auto simp: allocate_def getTime_def Let_def bind_eq_Some_conv W split: if_splits)
  obtain U3 where "create_CC E V U1 = Some U3" using U1(2) bw by (simp add: create_CC_def getTime_def Let_def)
  moreover obtain q where "handshake_packet (u_PeerID U3) ?hs 48 = Some q" using handshake_packet_ok [of 48 ?hs "u_PeerID U3"] ip(2) by auto
  ultimately show ?thesis using K [OF U1(1)] unfolding eq by (simp split: prod.splits)
qed

text \<open>The client takes every handshake but a challenge for the answer.\<close>

lemma connect_answer_steps:
  fixes U :: "'x sock"
  assumes c: "connecting n addr h U" "handshake a p" "hs_iReqType a \<noteq> 1" and sz: "sizes_ok U" and mss: "92 \<le> sint (hs_iMSS a)"
    and fl: "0 < sint (hs_iFlightFlagSize a)" "2 * sint (hs_iFlightFlagSize a) < m_iSeqNoTH"
  defines "m \<equiv> sint (hs_iMSS a)" and "isn \<equiv> sint (hs_iISN a)"
  obtains W U1 where "allocate E F W = Some (Inr U1)"
    "connect_response E V F K p U = do { U \<leftarrow> consult_cache K addr U1; U \<leftarrow> create_CC E V U;
        Some (0, emit (ConnectComplete (u_SocketID U)) (emit (EnableWrite (u_SocketID U) (u_sPollID U)) (emit NewEntry (U\<lparr>u_bConnecting := False, u_bConnected := True\<rparr>)))) }"
    "W = U\<lparr>u_ConnRes := a, u_events := u_events U @ [RemoveConnector (u_SocketID U)], u_iMSS := m,
      u_snd := (u_snd U)\<lparr>s_iFlowWindowSize := sint (hs_iFlightFlagSize a)\<rparr>, u_iPktSize := m - 28, u_iPayloadSize := m - 44, u_iPeerISN := isn,
      u_rcv := (u_rcv U)\<lparr>v_iRcvLastAck := isn, v_iRcvLastAckAck := isn, v_iRcvCurrSeqNo := isn - 1\<rparr>, u_PeerID := sint (hs_iID a),
      u_piSelfIP := hs_piPeerIP a\<rparr>"
    "u_ConnRes U1 = a"
proof -
  let ?fl = "sint (hs_iFlightFlagSize a)"
  note Z = sizes_okD [OF sz]
  have d: "hs_deserialize h0 (map word_of_int (payload_words (iov_base p))) (getLength p) = Some (0, a)" "getFlag p = 1" "getType p = 0" for h0
    using c(2) handshake_decode [OF c(2)] by (simp_all add: handshake_def)
  have u: "u_bConnecting U" "\<not> u_bRendezvous U" "u_pPeerAddr U = Some addr" using c(1) by (simp_all add: connecting_def)
  have P: "connect_response E V F K p U = map_option (Pair 0) (post_connect E V F K (U\<lparr>u_ConnRes := a\<rparr>))"
    using d u c(3) unfolding connect_response_def by simp
  obtain W where W: "W = U\<lparr>u_ConnRes := a, u_events := u_events U @ [RemoveConnector (u_SocketID U)], u_iMSS := m,
      u_snd := (u_snd U)\<lparr>s_iFlowWindowSize := ?fl\<rparr>, u_iPktSize := m - 28, u_iPayloadSize := m - 44, u_iPeerISN := isn,
      u_rcv := (u_rcv U)\<lparr>v_iRcvLastAck := isn, v_iRcvLastAckAck := isn, v_iRcvCurrSeqNo := isn - 1\<rparr>, u_PeerID := sint (hs_iID a),
      u_piSelfIP := hs_piPeerIP a\<rparr>" by blast
  have w: "0 < s_iFlowWindowSize (u_snd W)" "2 * s_iFlowWindowSize (u_snd W) < m_iSeqNoTH" "0 < u_iPayloadSize W"
    "0 < u_iRcvBufSize W" "u_iRcvBufSize W \<le> u_iFlightFlagSize W" "u_iFlightFlagSize W < m_iSeqNoTH"
    using fl Z mss by (simp_all add: W m_def)
  obtain U1 where U1: "allocate E F W = Some (Inr U1)" using allocate_ok [OF w, of E F] by blast
  have a1: "u_pPeerAddr U1 = Some addr" "u_ConnRes U1 = a"
    using allocate_ok [OF w, of E F] U1 u(3) by (auto simp: W)
  have "post_connect E V F K (U\<lparr>u_ConnRes := a\<rparr>) = do { U \<leftarrow> consult_cache K addr U1; U \<leftarrow> create_CC E V U;
      Some (emit (ConnectComplete (u_SocketID U)) (emit (EnableWrite (u_SocketID U) (u_sPollID U)) (emit NewEntry (U\<lparr>u_bConnecting := False, u_bConnected := True\<rparr>)))) }"
    using U1 a1 unfolding W m_def isn_def by (simp add: post_connect_def set_sizes_def rcv_start_def m_iPktHdrSize_def emit_def Let_def)
  then have "connect_response E V F K p U = do { U \<leftarrow> consult_cache K addr U1; U \<leftarrow> create_CC E V U;
        Some (0, emit (ConnectComplete (u_SocketID U)) (emit (EnableWrite (u_SocketID U) (u_sPollID U)) (emit NewEntry (U\<lparr>u_bConnecting := False, u_bConnected := True\<rparr>)))) }"
    unfolding P by (simp add: Option.map_conv_bind_option)
  then show ?thesis using that U1 W a1(2) by blast
qed

lemma connect_answered:
  fixes U :: "'x sock"
  assumes A: "connect_response E V F K p U = Some (r, U')" and c: "connecting n addr h U" "handshake a p" "hs_iReqType a \<noteq> 1"
    and sz: "sizes_ok U" and n: "1 \<le> n" "n \<le> m_iMaxSeqNo" and m: "1 \<le> sint (hs_iISN a)" and mss: "92 \<le> sint (hs_iMSS a)"
    and fl: "0 < sint (hs_iFlightFlagSize a)" "2 * sint (hs_iFlightFlagSize a) < m_iSeqNoTH"
  shows "r = 0 \<and> established (sint (hs_iFlightFlagSize a)) n (sint (hs_iISN a)) (sint (hs_iID a)) U' \<and> u_ConnRes U' = a \<and> \<not> u_bConnecting U' \<and>
    u_iMSS U' = sint (hs_iMSS a) \<and> u_SocketID U' = u_SocketID U \<and> s_iISN (u_snd U') = s_iISN (u_snd U) \<and>
    u_events U' = u_events U @ [RemoveConnector (u_SocketID U), NewEntry, EnableWrite (u_SocketID U) (u_sPollID U), ConnectComplete (u_SocketID U)]"
proof -
  let ?m = "sint (hs_iMSS a)" and ?fl = "sint (hs_iFlightFlagSize a)" and ?isn = "sint (hs_iISN a)"
  note Z = sizes_okD [OF sz]
  have u: "s_iSndLastAck (u_snd U) = n" "s_iSndLastDataAck (u_snd U) = n" "s_iSndCurrSeqNo (u_snd U) = n - 1"
    using c(1) by (simp_all add: connecting_def)
  have isn: "?isn \<le> m_iMaxSeqNo" using sint_range_size [of "hs_iISN a"] by (simp add: word_size)
  show ?thesis
  proof (rule connect_answer_steps [OF c sz mss fl, of E F V K])
    fix W U1
    assume al: "allocate E F W = Some (Inr U1)" and eq: "connect_response E V F K p U = do { U \<leftarrow> consult_cache K addr U1; U \<leftarrow> create_CC E V U;
        Some (0, emit (ConnectComplete (u_SocketID U)) (emit (EnableWrite (u_SocketID U) (u_sPollID U)) (emit NewEntry (U\<lparr>u_bConnecting := False, u_bConnected := True\<rparr>)))) }"
      and W: "W = U\<lparr>u_ConnRes := a, u_events := u_events U @ [RemoveConnector (u_SocketID U)], u_iMSS := ?m,
        u_snd := (u_snd U)\<lparr>s_iFlowWindowSize := ?fl\<rparr>, u_iPktSize := ?m - 28, u_iPayloadSize := ?m - 44, u_iPeerISN := ?isn,
        u_rcv := (u_rcv U)\<lparr>v_iRcvLastAck := ?isn, v_iRcvLastAckAck := ?isn, v_iRcvCurrSeqNo := ?isn - 1\<rparr>, u_PeerID := sint (hs_iID a),
        u_piSelfIP := hs_piPeerIP a\<rparr>" and res1: "u_ConnRes U1 = a"
    have w: "0 < s_iFlowWindowSize (u_snd W)" "2 * s_iFlowWindowSize (u_snd W) < m_iSeqNoTH" "0 < u_iPayloadSize W" "u_iPayloadSize W = u_iMSS W - 44"
      "0 < u_iRcvBufSize W" "u_iRcvBufSize W \<le> u_iFlightFlagSize W" "2 * u_iFlightFlagSize W < m_iSeqNoTH"
      "s_iSndLastAck (u_snd W) = n" "s_iSndLastDataAck (u_snd W) = n" "s_iSndCurrSeqNo (u_snd W) = n - 1"
      "v_iRcvLastAck (u_rcv W) = ?isn" "v_iRcvCurrSeqNo (u_rcv W) = ?isn - 1"
      using fl Z mss u by (simp_all add: W)
    obtain U2 U3 where S: "consult_cache K addr U1 = Some U2" "create_CC E V U2 = Some U3" "r = 0"
      "U' = emit (ConnectComplete (u_SocketID U3)) (emit (EnableWrite (u_SocketID U3) (u_sPollID U3)) (emit NewEntry (U3\<lparr>u_bConnecting := False, u_bConnected := True\<rparr>)))"
      using A unfolding eq by (auto simp: bind_eq_Some_conv)
    note est = establish [OF al S(1,2) w(1-7) n w(8-10) m isn w(11,12)]
    have res: "u_ConnRes U3 = a"
      using consult_cache_frame [OF S(1)] create_CC_frame [OF S(2)] res1 by auto
    have "established ?fl n ?isn (sint (hs_iID a)) U'" using est(1) by (simp add: established_def S(4) emit_def W)
    then show ?thesis using est res by (simp add: S(3,4) emit_def W)
  qed
qed

lemma connect_answer_some:
  fixes U :: "'x sock"
  assumes c: "connecting n addr h U" "handshake a p" "hs_iReqType a \<noteq> 1" and sz: "sizes_ok U" and mss: "92 \<le> sint (hs_iMSS a)"
    and fl: "0 < sint (hs_iFlightFlagSize a)" "2 * sint (hs_iFlightFlagSize a) < m_iSeqNoTH"
    and K: "\<And>W :: 'x sock. u_iIPversion W = u_iIPversion U \<Longrightarrow> consult_cache K addr W = Some W" and bw: "u_llMaxBW U \<le> 0"
  shows "\<exists>U'. connect_response E V F K p U = Some (0, U')"
proof (rule connect_answer_steps [OF c sz mss fl, of E F V K])
  fix W U1
  assume al: "allocate E F W = Some (Inr U1)" and eq: "connect_response E V F K p U = do { U \<leftarrow> consult_cache K addr U1; U \<leftarrow> create_CC E V U;
      Some (0, emit (ConnectComplete (u_SocketID U)) (emit (EnableWrite (u_SocketID U) (u_sPollID U)) (emit NewEntry (U\<lparr>u_bConnecting := False, u_bConnected := True\<rparr>)))) }"
    and W: "W = U\<lparr>u_ConnRes := a, u_events := u_events U @ [RemoveConnector (u_SocketID U)], u_iMSS := sint (hs_iMSS a),
      u_snd := (u_snd U)\<lparr>s_iFlowWindowSize := sint (hs_iFlightFlagSize a)\<rparr>, u_iPktSize := sint (hs_iMSS a) - 28, u_iPayloadSize := sint (hs_iMSS a) - 44,
      u_iPeerISN := sint (hs_iISN a),
      u_rcv := (u_rcv U)\<lparr>v_iRcvLastAck := sint (hs_iISN a), v_iRcvLastAckAck := sint (hs_iISN a), v_iRcvCurrSeqNo := sint (hs_iISN a) - 1\<rparr>,
      u_PeerID := sint (hs_iID a), u_piSelfIP := hs_piPeerIP a\<rparr>"
  have U1: "u_iIPversion U1 = u_iIPversion U" "u_llMaxBW U1 = u_llMaxBW U"
    using al by (auto simp: allocate_def getTime_def Let_def bind_eq_Some_conv W split: if_splits)
  obtain U3 where "create_CC E V U1 = Some U3" using U1(2) bw by (simp add: create_CC_def getTime_def Let_def)
  then show ?thesis using K [OF U1(1)] unfolding eq by simp
qed

end
