(* ===== verification/UdtDemo.thy ===== *)
theory UdtDemo
  imports UdtSetup
begin

section \<open>UDT: a small connection\<close>

text \<open>Concrete clocks, memory, sockets and addresses, on which the properties of the connections are instantiated.\<close>

definition demo_env :: env where
  "demo_env = \<lparr>e_tsc = \<lambda>n. word_of_int (int n * 300000), e_time = \<lambda>n. word_of_int (int n * 300000), e_ceil_quot = \<lambda>a b. - ((- a) div b)\<rparr>"

definition demo_memory :: fresh_memory where
  "demo_memory = \<lparr>fm_blocks = \<lambda>_. \<lparr>b_pcData = (0, 0), b_iLength = 0, b_iMsgNo = 0, b_OriginTime = 0, b_iTTL = 0, b_pNext = 0\<rparr>,
     fm_bytes = \<lambda>_ _. 0, fm_ints = \<lambda>_ _. 0, fm_times = \<lambda>_. 0\<rparr>"

definition demo_class :: "ccc cc_class" where
  "demo_class = \<lparr>cv_init = \<lambda>_ C. C, cv_onACK = \<lambda>_ _ C. C, cv_onLoss = \<lambda>_ _ _ C. C, cv_onTimeout = \<lambda>_ C. C, cv_onPktSent = \<lambda>_ _ C. C,
     cv_onPktReceived = \<lambda>_ _ C. C, cv_processCustomMsg = \<lambda>_ _ C. C\<rparr>"

definition demo_addr :: sockaddr where
  "demo_addr = sockaddr_in 9000 0xC0A80001"

definition demo_snd :: udt_snd where
  "demo_snd = \<lparr>s_pSndBuffer = CSndBuffer (fm_blocks demo_memory) (fm_bytes demo_memory) 32 1456, s_pSndLossList = CSndLossList 64 (fresh_ints demo_memory 0 64),
     s_ullInterval = 0, s_ullTimeDiff = 0, s_iFlowWindowSize = 32, s_dCongestionWindow = 16, s_iSndLastAck = 1, s_iSndLastDataAck = 1,
     s_iSndCurrSeqNo = 0, s_iLastDecSeq = 0, s_iSndLastAck2 = 1, s_ullSndLastAck2Time = 0, s_iISN = 1\<rparr>"

definition demo_rcv :: udt_rcv where
  "demo_rcv = \<lparr>v_pRcvBuffer = CRcvBuffer 32, v_pRcvLossList = CRcvLossList 32 (fresh_ints demo_memory 1 32) (fresh_ints demo_memory 2 32),
     v_pACKWindow = \<lparr>m_piACKSeqNo = replicate 8 (-1), m_piACK = replicate 8 0, m_pTimeStamp = replicate 8 0, aw_iSize = 8, aw_iHead = 0, aw_iTail = 0\<rparr>,
     v_pRcvTimeWindow = CPktTimeWindow 0 16 64, v_iRcvLastAck = 1, v_ullLastAckTime = 0, v_iRcvLastAckAck = 1, v_iAckSeqNo = 0,
     v_iRcvCurrSeqNo = 0, v_ullLastWarningTime = 0\<rparr>"

definition demo_trace :: udt_trace where
  "demo_trace = \<lparr>t_StartTime = 0, t_llSentTotal = 0, t_llRecvTotal = 0, t_iSndLossTotal = 0, t_iRcvLossTotal = 0, t_iRetransTotal = 0,
     t_iSentACKTotal = 0, t_iRecvACKTotal = 0, t_iSentNAKTotal = 0, t_iRecvNAKTotal = 0, t_llSndDurationTotal = 0, t_LastSampleTime = 0,
     t_llTraceSent = 0, t_llTraceRecv = 0, t_iTraceSndLoss = 0, t_iTraceRcvLoss = 0, t_iTraceRetrans = 0, t_iSentACK = 0, t_iRecvACK = 0,
     t_iSentNAK = 0, t_iRecvNAK = 0, t_llSndDuration = 0, t_llSndDurationCounter = 0\<rparr>"

definition demo_timers :: udt_timers where
  "demo_timers = \<lparr>m_ullCPUFrequency = 1, m_ullNextACKTime = 0, m_ullNextNAKTime = 0, m_ullSYNInt = 10000, m_ullACKInt = 10000, m_ullNAKInt = 300000,
     m_ullLastRspTime = 0, m_ullMinNakInt = 300000, m_ullMinExpInt = 300000, m_iPktCount = 0, m_iLightACKCount = 1, m_ullTargetTime = 0\<rparr>"

text \<open>An opened socket, and the same as it is when connected to socket 7.\<close>

definition demo_sock :: "int \<Rightarrow> ccc cudt" where
  "demo_sock i = \<lparr>u_SocketID = i, u_bStream = True, u_PeerID = 0, u_iPktSize = 1472, u_iPayloadSize = 1456, u_iMSS = 1500, u_bSynSending = True,
     u_bSynRecving = True, u_iFlightFlagSize = 32, u_iSndBufSize = 64, u_iRcvBufSize = 32, u_Linger = (1, 180), u_iUDPSndBufSize = 65536,
     u_iUDPRcvBufSize = 48000, u_iIPversion = AF_INET, u_bRendezvous = False, u_iSndTimeOut = -1, u_iRcvTimeOut = -1, u_bReuseAddr = True,
     u_llMaxBW = -1, u_pCCFactory = CCC, u_pCC = CCC, u_bListening = False, u_bConnecting = False, u_bConnected = False, u_bClosing = False,
     u_bShutdown = False, u_bBroken = False, u_bPeerHealth = True, u_bOpened = True, u_iBrokenCounter = 0, u_iEXPCount = 1, u_iBandwidth = 1,
     u_iRTT = 100000, u_iRTTVar = 50000, u_iDeliveryRate = 16, u_ullLingerExpiration = 0, u_ConnReq = CHandShake, u_ConnRes = CHandShake,
     u_llLastReqTime = 0, u_iPeerISN = 0, u_piSelfIP = [0, 0, 0, 0], u_pPeerAddr = None, u_sPollID = {}, u_bAllocated = False, u_snd = demo_snd,
     u_rcv = demo_rcv, u_trace = demo_trace, u_timers = demo_timers, u_events = [], u_ticks = 0\<rparr>"

definition demo_conn :: "ccc cudt" where
  "demo_conn = (demo_sock 3)\<lparr>u_PeerID := 7, u_bConnected := True, u_bAllocated := True, u_pPeerAddr := Some demo_addr\<rparr>"

lemma demo_sizes: "sizes_ok (demo_sock i)"
  by (simp add: sizes_ok_def demo_sock_def)

lemma demo_snd_inv: "snd_inv 32 1 1 {} [] [] (u_snd demo_conn)"
proof -
  have "snd_inv (s_iFlowWindowSize demo_snd) 1 1 {} [] [] demo_snd"
    by (rule snd_inv_new) (use new_snd_buffer [of 32 1456] snd_lost_new [of 64 "fresh_ints demo_memory 0 64"] in \<open>simp_all add: demo_snd_def CSndLossList_def\<close>)
  then show ?thesis by (simp add: demo_conn_def demo_sock_def) (simp add: demo_snd_def)
qed

lemma demo_rcv_inv: "rcv_inv dat 1 0 {} [] Q (u_rcv demo_conn)"
proof -
  have "rcv_inv dat 1 (1 - 1) {} [] Q demo_rcv"
    by (rule rcv_inv_new [where b = 32])
      (use rcv_lost_new [of 32 "fresh_ints demo_memory 1 32" "fresh_ints demo_memory 2 32"]
       in \<open>simp_all add: demo_rcv_def CRcvLossList_def CPktTimeWindow_def aw_ok_def\<close>)
  then show ?thesis by (simp add: demo_conn_def demo_sock_def)
qed

lemma demo_est: "est_ok demo_conn"
  by (simp add: est_ok_def sample_ok_def demo_conn_def demo_sock_def)

subsection \<open>A connection is made\<close>

definition demo_at :: "u64 \<Rightarrow> env" where
  "demo_at t = demo_env\<lparr>e_time := \<lambda>_. t\<rparr>"

text \<open>The key of the address is negative: the cache is not used.\<close>

lemma demo_cache:
  fixes U :: "'x sock"
  shows "u_iIPversion U = AF_INET \<Longrightarrow> consult_cache (CCache 4) demo_addr U = Some U"
  by (simp add: consult_cache_def demo_addr_def ca_lookup_def getKey_def)

lemma demo_start: "\<exists>ttl U. connect_start (demo_at 0) 1 demo_addr (demo_sock 3) = Some (Inr (ttl, U))"
proof -
  have r: "random_isn 1 = 1" by (simp add: random_isn_def int_of_real_def)
  obtain req where req: "conn_request 1 demo_addr ((demo_sock 3)\<lparr>u_pPeerAddr := Some demo_addr, u_events := [RegisterConnector 3 demo_addr 3000000], u_ticks := 2\<rparr>) = Some req"
      "length (hs_piPeerIP req) = 4"
    by (simp add: conn_request_def demo_sock_def demo_addr_def CHandShake_def)
  obtain p where "handshake_packet 0 req 1456 = Some (48, p)" using handshake_packet_ok [of 1456 req] req(2) by auto
  then show ?thesis using req r
    by (simp add: connect_start_def getTime_def emit_def Let_def demo_at_def demo_sock_def [of 3] numeral_2_eq_2)
qed

subsection \<open>Packets on their way\<close>

text \<open>A message of one byte is queued.\<close>

lemma demo_queue:
  assumes I: "snd_inv W a k S ms1 ms2 (u_snd U)" and B: "sb_iMSS (s_pSndBuffer (u_snd U)) = 1456"
  shows "\<exists>B' i. snd_inv W a k S ms1 (ms2 @ [([x], i, 0, -1)]) ((u_snd U)\<lparr>s_pSndBuffer := B'\<rparr>) \<and> sb_iMSS B' = 1456"
proof -
  note D = snd_invD [OF I]
  obtain B' where "sb_rep B' ms1 (ms2 @ packets_of 1456 [x] (sb_iNextMsgNo (s_pSndBuffer (u_snd U))) False 0 (-1))" "sb_iMSS B' = 1456"
    using addBuffer_rep [OF D(1), of "fm_blocks demo_memory" "fm_bytes demo_memory" 0 "[x]" "-1" False] B by auto
  moreover obtain i where "packets_of 1456 [x] (sb_iNextMsgNo (s_pSndBuffer (u_snd U))) False 0 (-1) = [([x], i, 0, -1)]"
    by (simp add: packets_of_def sb_blocks_def cdiv_def cmod_def packet_of_def Let_def)
  ultimately show ?thesis using D unfolding snd_inv_defs by auto
qed

text \<open>And sent: a socket with two packets of one byte in flight.\<close>

definition demo_open :: "udt_snd \<Rightarrow> ccc cudt" where
  "demo_open s = demo_conn\<lparr>u_snd := s\<lparr>s_iFlowWindowSize := 32, s_dCongestionWindow := 16\<rparr>\<rparr>"

lemma demo_open_inv: "snd_inv 32 1 1 S ms1 ms2 s \<Longrightarrow> snd_inv 32 1 1 S ms1 ms2 (u_snd (demo_open s))" "send_window (demo_open s) = 16"
    "est_ok (demo_open s)" "u_rcv (demo_open s) = demo_rcv"
  using demo_est by (simp_all add: demo_open_def snd_inv_defs send_window_def int_of_real_def est_ok_def)
    (simp_all add: demo_conn_def demo_sock_def)

definition demo_packet :: cpacket where
  "demo_packet = \<lparr>m_nHeader = [0, 0, 0, 0], iov_base = None, iov_len = 0\<rparr>"

lemma demo_queued: "\<exists>s i. snd_inv 32 1 1 {} [] [([42], i, 0, -1)] s \<and> sb_iMSS (s_pSndBuffer s) = 1456"
proof -
  have "sb_iMSS (s_pSndBuffer (u_snd demo_conn)) = 1456" by (simp add: demo_conn_def demo_sock_def demo_snd_def CSndBuffer_def)
  from demo_queue [OF demo_snd_inv this, of 42] show ?thesis by force
qed

lemma demo_sent: "\<exists>s i. snd_inv 32 1 1 {} [([42], i, 0, -1)] [] s"
proof -
  obtain s i where s: "snd_inv 32 1 1 {} [] [([42], i, 0, -1)] s" using demo_queued by blast
  have "send_window (demo_open s) > 1 + int (length []) - 1" by (simp add: demo_open_inv)
  from packData_new [OF demo_open_inv(1) [OF s] this, of demo_packet demo_env demo_class 0] show ?thesis
    by (auto simp: demo_packet_def)
qed

text \<open>A unit queue of two units; the first holds packet \<open>n\<close> with one byte.\<close>

definition demo_unit1 :: "int \<Rightarrow> cunit" where
  "demo_unit1 n = \<lparr>cu_Packet = \<lparr>m_nHeader = [word_of_int (wrap n), 0, 0, 0], iov_base = Some (Bytes [42, 0, 0]), iov_len = 1\<rparr>, cu_iFlag = 0\<rparr>"

definition demo_units2 :: "int \<Rightarrow> unit_queue" where
  "demo_units2 n = \<lparr>uq_pQEntry = [[demo_unit1 n, \<lparr>cu_Packet = demo_packet, cu_iFlag = 0\<rparr>]], uq_pCurrQueue = 0, uq_pAvailUnit = 0,
     uq_iSize = 2, uq_iCount = 0, uq_iMSS = 3, uq_iIPversion = AF_INET\<rparr>"

lemma demo_unit: "unit_packet (\<lambda>_. [42]) n (0, 0) (demo_units2 n) (demo_unit1 n)"
  by (simp add: unit_packet_def demo_units2_def demo_unit1_def get_unit_def rd_def hdr_def pc_bytes_def getLength_def)

lemma demo_avail: "getAvailBufSize (v_pRcvBuffer (u_rcv demo_conn)) = 31"
  by (simp add: demo_conn_def demo_sock_def demo_rcv_def CRcvBuffer_def getAvailBufSize_def getRcvDataSize_def)

lemma demo_bandwidth: "getBandwidth f (CPktTimeWindow 0 16 64) \<noteq> None"
proof -
  have "median_of 64 (replicate 64 1000) = Some 1000"
    by (simp add: median_of_def sorted_sort_id)
  moreover have "near_median 1000 (replicate 64 1000) = replicate 64 1000"
    by (simp add: near_median_def push_bit_eq_mult drop_bit_eq_div)
  ultimately show ?thesis by (simp add: getBandwidth_def CPktTimeWindow_def Let_def sum_list_replicate)
qed

end
