(* ===== verification/UdtSetupProps.thy ===== *)
theory UdtSetupProps
  imports UdtDemo
begin

section \<open>UDT: properties of the connection setup\<close>

text \<open>The packet a call sent last.\<close>

definition sent :: "'c cudt \<Rightarrow> cpacket option" where
  "sent U = (case rev (u_events U) of SendAddr a p # es \<Rightarrow> Some p | SendTo p # es \<Rightarrow> Some p | _ \<Rightarrow> None)"

definition id_ok :: "int \<Rightarrow> bool" where
  "id_ok i \<longleftrightarrow> 0 \<le> i \<and> i < 2 ^ 31"

text \<open>
  C5: the handshake. A client asks, is challenged with a cookie, asks again with it in the same minute, is admitted,
  and takes the answer. Then both ends are connected to each other with the same segment size and the same first number, on both
  sides nothing is sent and nothing received, the flow window of each is the size of the other's receiver buffer, the client's
  call succeeds, and the listener has checked the cookie before it made a socket.
\<close>

theorem connection_setup:
  fixes U0 U1 U2 U3 U4 :: "'x sock" and L1 L2 L3 L4 :: "'c cudt" and W0 W :: "'y sock"
  assumes start: "connect_start E1 rnd addr U0 = Some (Inr (ttl, U1))" "\<not> u_bRendezvous U0" "length (hs_piPeerIP (u_ConnReq U0)) = 4"
      "u_iPayloadSize U0 = u_iMSS U0 - 44" "sent U1 = Some p1"
    and asked: "listen_packet E2 md5 name f peer p1 L1 = Some (x1, L2)" "\<not> u_bClosing L1" "sent L2 = Some p2"
    and challenged: "connect_response E3 V F K p2 U1 = Some (x2, U2)"
      "e_time E3 (u_ticks U2) - u_llLastReqTime U2 > 250000" "connect_again E3 addr U2 = Some U3" "sent U3 = Some p3"
    and admitted: "listen_packet E4 md5 name f peer p3 L3 = Some (x3, L4)" "\<not> u_bClosing L3" "m_iSockType L3 = m_iSockType U0"
      "cookie_time (e_time E4 (u_ticks L3)) (t_StartTime (u_trace L3)) = cookie_time (e_time E2 (u_ticks L1)) (t_StartTime (u_trace L1))"
      "connect_peer E5 V' F' K' peer (u_ConnReq U3) W0 = Some (Inr (h, W))" "f (u_ConnReq U3) = (1, h)" "sent W = Some p4"
    and answered: "connect_response E6 V F K p4 U3 = Some (x4, U4)"
    and sizes: "sizes_ok U0" "sizes_ok W0" "id_ok (u_SocketID U0)" "id_ok (u_SocketID W0)" "0 \<le> rnd" "rnd \<le> 2147483647" "1 \<le> random_isn rnd"
  shows "established (u_iRcvBufSize W0) (random_isn rnd) (random_isn rnd) (u_SocketID W0) U4 \<and>
    established (u_iRcvBufSize U0) (random_isn rnd) (random_isn rnd) (u_SocketID U0) W \<and>
    u_iMSS U4 = min (u_iMSS U0) (u_iMSS W0) \<and> u_iMSS W = u_iMSS U4 \<and> u_SocketID U4 = u_SocketID U0 \<and> u_SocketID W = u_SocketID W0 \<and>
    x1 = 0 \<and> x2 = 1 \<and> x3 = -1 \<and> x4 = 0 \<and> connect_finish False U4 = (if u_bClosing U4 then Inl (CUDTException 1 0) else Inr U4) \<and>
    hs_iCookie (u_ConnReq U3) = cookie_of md5 (cookie_text name (cookie_time (e_time E4 (u_ticks L3)) (t_StartTime (u_trace L3))))"
proof -
  let ?n = "random_isn rnd"
  note Z = sizes_okD [OF sizes(1)] and ZW = sizes_okD [OF sizes(2)]
  have n: "1 \<le> ?n" "?n \<le> m_iMaxSeqNo" using random_isn_range [OF sizes(5,6)] sizes(7) by simp_all
  have pay: "48 \<le> u_iPayloadSize U0" using start(4) Z by simp
  obtain q1 where s: "connecting ?n addr (u_ConnReq U1) U1" "hs_iReqType (u_ConnReq U1) = 1" "hs_iISN (u_ConnReq U1) = word_of_int ?n"
      "hs_iID (u_ConnReq U1) = word_of_int (u_SocketID U0)" "hs_iMSS (u_ConnReq U1) = word_of_int (u_iMSS U0)"
      "hs_iFlightFlagSize (u_ConnReq U1) = word_of_int (flight_flag U0)" "hs_iVersion (u_ConnReq U1) = 4" "hs_iType (u_ConnReq U1) = word_of_int (m_iSockType U0)"
      "u_events U1 = u_events U0 @ [RegisterConnector (u_SocketID U0) addr ttl, SendAddr addr q1]" "handshake (u_ConnReq U1) q1"
      "u_iMSS U1 = u_iMSS U0" "u_iRcvBufSize U1 = u_iRcvBufSize U0" "u_iFlightFlagSize U1 = u_iFlightFlagSize U0" "u_SocketID U1 = u_SocketID U0"
    using connect_start_ok [OF start(1-3) pay] by blast
  have p1: "handshake (u_ConnReq U1) p1" using s(9,10) start(5) by (simp add: sent_def)
  let ?c = "cookie_of md5 (cookie_text name (cookie_time (e_time E2 (u_ticks L1)) (t_StartTime (u_trace L1))))"
  have l: "x1 = 0" "handshake ((u_ConnReq U1)\<lparr>hs_iCookie := ?c\<rparr>) p2"
    using listen_challenges [OF p1 asked(2) s(2), of E2 md5 name f peer] asked(1,3) by (auto simp: sent_def)
  let ?h = "(u_ConnReq U1)\<lparr>hs_iReqType := -1, hs_iCookie := ?c\<rparr>"
  have c: "x2 = 1" "connecting ?n addr ?h U2" "u_iMSS U2 = u_iMSS U0" "u_iRcvBufSize U2 = u_iRcvBufSize U0" "u_iFlightFlagSize U2 = u_iFlightFlagSize U0"
      "u_SocketID U2 = u_SocketID U0"
    using connect_challenged [OF s(1) l(2), of E3 V F K] s challenged(1) by auto
  obtain q3 where a: "connecting ?n addr ?h U3" "handshake ?h q3" "u_events U3 = u_events U2 @ [SendAddr addr q3]" "u_iMSS U3 = u_iMSS U0"
      "u_iRcvBufSize U3 = u_iRcvBufSize U0" "u_iFlightFlagSize U3 = u_iFlightFlagSize U0" "u_SocketID U3 = u_SocketID U0"
    using connect_again_ok [OF c(2) challenged(2)] challenged(3) c by auto
  have p3: "handshake ?h p3" using a(2,3) challenged(4) by (simp add: sent_def)
  have req: "u_ConnReq U3 = ?h" using a(1) by (simp add: connecting_def)
  have adm: "x3 = sint (hs_iReqType h)"
    using listen_admits [OF p3 admitted(2), of md5 name E4 f h peer] s admitted(1,3,4,6) req by simp
  have ip: "length (hs_piPeerIP ?h) = 4" using a(1) by (simp add: connecting_def)
  have isn: "sint (hs_iISN ?h) = ?n" using s(3) n by (simp add: sint_31)
  have mss: "sint (hs_iMSS ?h) = u_iMSS U0" using s(5) Z by (simp add: sint_31)
  have ff: "sint (hs_iFlightFlagSize ?h) = u_iRcvBufSize U0" using s(6) Z by (simp add: sint_31)
  have id: "sint (hs_iID ?h) = u_SocketID U0" using s(4) sizes(3) by (simp add: sint_31 id_ok_def)
  have "1 \<le> sint (hs_iISN ?h)" "92 \<le> sint (hs_iMSS ?h)" "0 < sint (hs_iFlightFlagSize ?h)" "2 * sint (hs_iFlightFlagSize ?h) < m_iSeqNoTH"
    unfolding isn mss ff using n Z by simp_all
  note P = connect_peer_ok [OF admitted(5) [unfolded req] sizes(2) ip this, unfolded isn mss ff id]
  then obtain q4 where p: "established (u_iRcvBufSize U0) ?n ?n (u_SocketID U0) W" "answers ?h W0 h" "u_events W = u_events W0 @ [NewEntry, SendAddr peer q4]"
      "handshake h q4" "u_iMSS W = sint (hs_iMSS h)" "u_SocketID W = u_SocketID W0" by blast
  have p4: "handshake h p4" using p(3,4) admitted(7) by (simp add: sent_def)
  have h: "hs_iReqType h = -1" "sint (hs_iISN h) = ?n" "sint (hs_iMSS h) = min (u_iMSS U0) (u_iMSS W0)" "sint (hs_iFlightFlagSize h) = u_iRcvBufSize W0"
      "sint (hs_iID h) = u_SocketID W0"
    using p(2) isn mss ZW sizes(4) by (simp_all add: answers_def sint_31 id_ok_def)
  have sz3: "sizes_ok U3" using sizes(1) a by (simp add: sizes_ok_def)
  have h1: "hs_iReqType h \<noteq> 1" "1 \<le> sint (hs_iISN h)" "92 \<le> sint (hs_iMSS h)" "0 < sint (hs_iFlightFlagSize h)" "2 * sint (hs_iFlightFlagSize h) < m_iSeqNoTH"
    using h n Z ZW by simp_all
  note R = connect_answered [OF answered a(1) p4 h1(1) sz3 n h1(2-5), unfolded h]
  have f4: "s_iISN (u_snd U4) = ?n" using R a(1) by (simp add: connecting_def)
  have fin: "connect_finish False U4 = (if u_bClosing U4 then Inl (CUDTException 1 0) else Inr U4)"
    using R h f4 by (simp add: connect_finish_def)
  show ?thesis using R p h l(1) c(1) adm fin a(7) s(7) req admitted(4) by simp
qed

lemma connection_setup_witness:
  "\<exists>(U :: ccc cudt) (W :: ccc cudt). established 32 1 1 5 U \<and> established 32 1 1 3 W \<and> u_iMSS U = 1500 \<and> u_iMSS W = 1500"
proof -
  let ?E = "demo_at 0" and ?md5 = "\<lambda>_. [1, 2, 3, 4]" and ?name = "(''10.0.0.1'', ''9000'')" and ?K = "CCache 4" and ?L = "demo_sock 9"
  note dz = demo_sizes
  obtain ttl U1 where S: "connect_start ?E 1 demo_addr (demo_sock 3) = Some (Inr (ttl, U1))" using demo_start by blast
  have pre: "\<not> u_bRendezvous (demo_sock 3)" "length (hs_piPeerIP (u_ConnReq (demo_sock 3))) = 4" "u_iPayloadSize (demo_sock 3) = u_iMSS (demo_sock 3) - 44"
    "48 \<le> u_iPayloadSize (demo_sock 3)"
    by (simp_all add: demo_sock_def CHandShake_def)
  have r: "random_isn 1 = 1" by (simp add: random_isn_def int_of_real_def)
  obtain p1 where s: "connecting 1 demo_addr (u_ConnReq U1) U1" "hs_iReqType (u_ConnReq U1) = 1" "hs_iISN (u_ConnReq U1) = 1"
      "hs_iMSS (u_ConnReq U1) = 1500" "hs_iFlightFlagSize (u_ConnReq U1) = 32" "hs_iVersion (u_ConnReq U1) = 4" "hs_iType (u_ConnReq U1) = 1"
      "hs_iID (u_ConnReq U1) = 3"
      "sent U1 = Some p1" "handshake (u_ConnReq U1) p1" "u_iMSS U1 = 1500" "u_iRcvBufSize U1 = 32" "u_iFlightFlagSize U1 = 32" "u_llMaxBW U1 = -1" "u_iIPversion U1 = AF_INET"
    using connect_start_ok [OF S pre(1,2,4)] by (auto simp: r sent_def) (auto simp: demo_sock_def flight_flag_def m_iSockType_def)
  obtain c where c: "c = cookie_of ?md5 (cookie_text ?name (cookie_time (e_time ?E (u_ticks ?L)) (t_StartTime (u_trace ?L))))" by blast
  let ?h = "(u_ConnReq U1)\<lparr>hs_iReqType := -1, hs_iCookie := c\<rparr>"
  let ?E3 = "demo_at 600000"
  have h3: "length (hs_piPeerIP ?h) = 4" using s(1) by (simp add: connecting_def)
  have hv: "sint (hs_iMSS ?h) = 1500" "sint (hs_iFlightFlagSize ?h) = 32" "sint (hs_iISN ?h) = 1" "sint (hs_iID ?h) = 3" using s by simp_all
  obtain h W where w: "connect_peer ?E demo_class demo_memory ?K demo_addr ?h (demo_sock 5) = Some (Inr (h, W))"
  proof -
    obtain ip where ip: "ntop demo_addr (hs_piPeerIP ?h) (u_iIPversion (demo_sock 5)) = Some ip" "length ip = 4"
      using h3 by (simp add: demo_addr_def demo_sock_def [of 5])
    show ?thesis using connect_peer_some [OF ip dz, of ?K ?E demo_class demo_memory] demo_cache hv that
      by (auto simp: demo_sock_def [of 5])
  qed
  have "1 \<le> sint (hs_iISN ?h)" "92 \<le> sint (hs_iMSS ?h)" "0 < sint (hs_iFlightFlagSize ?h)" "2 * sint (hs_iFlightFlagSize ?h) < m_iSeqNoTH"
    unfolding hv by simp_all
  note P = connect_peer_ok [OF w dz h3 this]
  then obtain p4 where p4: "sent W = Some p4" "handshake h p4" "answers ?h (demo_sock 5) h" by (auto simp: sent_def)
  have L: "\<not> u_bClosing ?L" by (simp add: demo_sock_def)
  obtain L2 p2 where l: "listen_packet ?E ?md5 ?name (\<lambda>_. (1, h)) demo_addr p1 ?L = Some (0, L2)" "sent L2 = Some p2"
      "handshake ((u_ConnReq U1)\<lparr>hs_iCookie := c\<rparr>) p2"
    using listen_challenges [OF s(10) L s(2), of ?E ?md5 ?name "\<lambda>_. (1, h)" demo_addr] unfolding c [symmetric] by (auto simp: sent_def)
  obtain U2 where u2: "connect_response ?E3 demo_class demo_memory ?K p2 U1 = Some (1, U2)" "connecting 1 demo_addr ?h U2" "u_llLastReqTime U2 = 0"
      "u_iMSS U2 = 1500" "u_iRcvBufSize U2 = 32" "u_iFlightFlagSize U2 = 32" "u_llMaxBW U2 = -1" "u_iIPversion U2 = AF_INET"
    using connect_challenged [OF s(1) l(3) _, of ?E3 demo_class demo_memory ?K] s by auto
  have time: "e_time ?E3 (u_ticks U2) - u_llLastReqTime U2 > 250000" by (simp add: u2(3) demo_at_def)
  obtain U3 p3 where u3: "connect_again ?E3 demo_addr U2 = Some U3" "handshake ?h p3" "connecting 1 demo_addr ?h U3" "sent U3 = Some p3"
      "u_iMSS U3 = 1500" "u_iRcvBufSize U3 = 32" "u_iFlightFlagSize U3 = 32" "u_llMaxBW U3 = -1" "u_iIPversion U3 = AF_INET"
    using connect_again_ok [OF u2(2) time] u2 by (auto simp: sent_def)
  have r3: "u_ConnReq U3 = ?h" using u3(3) by (simp add: connecting_def)
  have f4: "listen_packet ?E ?md5 ?name (\<lambda>_. (1, h)) demo_addr p3 ?L = Some (sint (hs_iReqType h), emit (EnableWrite (u_SocketID ?L) (u_sPollID ?L)) (?L\<lparr>u_ticks := u_ticks ?L + 1\<rparr>))"
    by (rule listen_admits [OF u3(2)]) (use s c in \<open>simp_all add: demo_sock_def [of 9] m_iSockType_def\<close>)
  obtain U4 where u4: "connect_response ?E demo_class demo_memory ?K p4 U3 = Some (0, U4)"
  proof -
    have a: "hs_iReqType h \<noteq> 1" "92 \<le> sint (hs_iMSS h)" "0 < sint (hs_iFlightFlagSize h)" "2 * sint (hs_iFlightFlagSize h) < m_iSeqNoTH"
      using p4(3) hv by (simp_all add: answers_def demo_sock_def [of 5] flight_flag_def)
    have sz: "sizes_ok U3" using u3 by (simp add: sizes_ok_def)
    show ?thesis using connect_answer_some [OF u3(3) p4(2) a(1) sz a(2-4), of ?K ?E demo_class demo_memory] demo_cache u3 that by auto
  qed
  have "established 32 1 1 5 U4 \<and> established 32 1 1 3 W \<and> u_iMSS U4 = 1500 \<and> u_iMSS W = 1500"
    using connection_setup [OF S pre(1-3) s(9) l(1) L l(2) u2(1) time u3(1,4) f4 L _ _ w [folded r3] _ p4(1) u4 dz dz]
    by (simp add: r demo_sock_def [of 3] demo_sock_def [of 5] demo_sock_def [of 9] id_ok_def m_iSockType_def)
  then show ?thesis by blast
qed

subsection \<open>What goes wrong\<close>

text \<open>
  C38: three defects of the handshake. A refusal (request type 1002) makes the client's socket connected although its
  call fails; with a segment size from 76 to 91, which the options admit, the request is shorter than a handshake
  and every listener ignores it; a cookie given in the previous minute is refused unless the hash happens to agree, because the second
  attempt appends the text of that minute to the text of this one.
\<close>

theorem setup_failures:
  fixes U U' :: "'x sock" and L :: "'c cudt" and V :: "'y sock"
  assumes c: "connecting n addr h U" "handshake a p" "hs_iReqType a = 1002"
      "connect_response E C F K p U = Some (r, U')"
    and sz: "sizes_ok U" "1 \<le> n" "n \<le> m_iMaxSeqNo" "1 \<le> sint (hs_iISN a)" "92 \<le> sint (hs_iMSS a)" "0 < sint (hs_iFlightFlagSize a)"
      "2 * sint (hs_iFlightFlagSize a) < m_iSeqNoTH"
    and small: "setOpt UDT_MSS (OInt m) V = Some (Inr V')" "m < 92" "handshake_packet 0 g (u_iPayloadSize (set_sizes V')) = Some (l, q)"
    and cookie: "cookie_of md5 (cookie_text name (t - 1)) \<noteq> cookie_of md5 (cookie_text name t)"
      "cookie_of md5 (cookie_text name (t - 1)) \<noteq> cookie_of md5 (cookie_text name t @ cookie_text name (t - 1))"
  shows "r = 0 \<and> u_bConnected U' \<and> \<not> u_bConnecting U' \<and> connect_finish False U' = Inl (CUDTException 1 (if u_bClosing U' then 0 else 2)) \<and>
    listen_packet E2 md5 name f snder q L = (if u_bClosing L then Some (1002, L) else Some (1004, L)) \<and>
    \<not> check_cookie md5 name t (cookie_of md5 (cookie_text name (t - 1)))"
proof -
  have nr: "hs_iReqType a \<noteq> 1" using c(3) by simp
  note R = connect_answered [OF c(4,1,2) nr sz]
  have fin: "connect_finish False U' = Inl (CUDTException 1 (if u_bClosing U' then 0 else 2))" using R c(3) by (simp add: connect_finish_def)
  have "u_iMSS V' \<le> m" using small(1) by (auto simp: setOpt_def set_mss_def Let_def split: if_splits)
  then have pay: "u_iPayloadSize (set_sizes V') < 48" using small(2) by (simp add: set_sizes_def m_iPktHdrSize_def)
  have len: "getLength q \<noteq> 48" if "handshake_packet 0 g s = Some (l, q)" "s < 48" for s
    using that by (auto simp: handshake_packet_def hs_serialize_def hs_contentSize_def setLength_def getLength_def bind_eq_Some_conv split: if_splits)
  have lis: "listen_packet E2 md5 name f snder q L = (if u_bClosing L then Some (1002, L) else Some (1004, L))"
    using len [OF small(3) pay] by (simp add: listen_packet_def hs_contentSize_def)
  have "\<not> check_cookie md5 name t (cookie_of md5 (cookie_text name (t - 1)))" using cookie by (simp add: check_cookie_def)
  then show ?thesis using R fin lis by (simp add: established_def)
qed

lemma setup_failures_witness:
  "\<exists>(U :: ccc cudt) q md5. u_bConnected U \<and> connect_finish False U = Inl (CUDTException 1 (if u_bClosing U then 0 else 2)) \<and>
     listen_packet (demo_at 0) md5 (''a'', ''9'') (\<lambda>h. (1, h)) demo_addr q (demo_sock 9) = Some (1004, demo_sock 9)"
proof -
  let ?a = "\<lparr>hs_iVersion = 4, hs_iType = 1, hs_iISN = 1, hs_iMSS = 1500, hs_iFlightFlagSize = 32, hs_iReqType = 1002, hs_iID = 5, hs_iCookie = 0, hs_piPeerIP = [0, 0, 0, 0]\<rparr>"
  let ?V = "(demo_sock 3)\<lparr>u_bOpened := False, u_iMSS := 80\<rparr>" and ?n = "(''a'', ''9'')" and ?md5 = "\<lambda>s. if s = cookie_text (''a'', ''9'') 4 then [1, 0, 0, 0] else [0, 0, 0, 0]"
  obtain ttl U1 where S: "connect_start (demo_at 0) 1 demo_addr (demo_sock 3) = Some (Inr (ttl, U1))" using demo_start by blast
  have r: "random_isn 1 = 1" by (simp add: random_isn_def int_of_real_def)
  have pre: "\<not> u_bRendezvous (demo_sock 3)" "length (hs_piPeerIP (u_ConnReq (demo_sock 3))) = 4" "48 \<le> u_iPayloadSize (demo_sock 3)"
    by (simp_all add: demo_sock_def CHandShake_def)
  have s: "connecting 1 demo_addr (u_ConnReq U1) U1" "u_iMSS U1 = 1500" "u_iRcvBufSize U1 = 32" "u_iFlightFlagSize U1 = 32" "u_llMaxBW U1 = -1" "u_iIPversion U1 = AF_INET"
    using connect_start_ok [OF S pre] by (auto simp: r) (auto simp: demo_sock_def)
  have z: "sizes_ok U1" using s by (simp add: sizes_ok_def)
  obtain p where p: "handshake ?a p" using handshake_packet_ok [of 48 ?a 0] by auto
  obtain U' where U': "connect_response (demo_at 0) demo_class demo_memory (CCache 4) p U1 = Some (0, U')"
    using connect_answer_some [OF s(1) p _ z, of "CCache 4" "demo_at 0" demo_class demo_memory] demo_cache s by auto
  have V: "setOpt UDT_MSS (OInt 80) ((demo_sock 3)\<lparr>u_bOpened := False\<rparr>) = Some (Inr ?V)" by (simp add: setOpt_def set_mss_def demo_sock_def hs_contentSize_def Let_def)
  obtain q where q: "handshake_packet 0 CHandShake (u_iPayloadSize (set_sizes ?V)) = Some (36, q)"
    by (auto simp: handshake_packet_def hs_serialize_def hs_contentSize_def set_sizes_def m_iPktHdrSize_def pack_def CPacket_def set_hdr_def)
  have d: "digits 4 = ''4''" "digits 5 = ''5''" by (simp_all add: digits.simps char_of_def bit_0)
  have c: "cookie_of ?md5 (cookie_text ?n (5 - 1)) \<noteq> cookie_of ?md5 (cookie_text ?n 5)"
    "cookie_of ?md5 (cookie_text ?n (5 - 1)) \<noteq> cookie_of ?md5 (cookie_text ?n 5 @ cookie_text ?n (5 - 1))"
    by (simp_all add: cookie_of_def cookie_text_def show_int_def d word_of_bytes_def)
  have l: "\<not> u_bClosing (demo_sock 9)" by (simp add: demo_sock_def)
  have "u_bConnected U' \<and> connect_finish False U' = Inl (CUDTException 1 (if u_bClosing U' then 0 else 2)) \<and>
      listen_packet (demo_at 0) ?md5 ?n (\<lambda>h. (1, h)) demo_addr q (demo_sock 9) = Some (1004, demo_sock 9)"
    using setup_failures [OF s(1) p _ U' z _ _ _ _ _ _ V _ q c, of "demo_at 0" "\<lambda>h. (1, h)" demo_addr "demo_sock 9"] l by simp
  then show ?thesis by blast
qed

end
