(* ===== verification/UdtSenderDrop.thy ===== *)
theory UdtSenderDrop
  imports UdtSender
begin

section \<open>UDT: a message that has expired is dropped\<close>

text \<open>
  When the packet to send again belongs to a message whose time is over, \<open>packData\<close> sends nothing but asks the receiver
  to drop the rest of the message. It counts one packet more than that, and both the range of the request
  and the last number sent end too late.
\<close>

definition same_msg :: "packet \<Rightarrow> packet \<Rightarrow> bool" where
  "same_msg m m' \<longleftrightarrow> fst (snd m') AND 0x1FFFFFFF = fst (snd m) AND 0x1FFFFFFF"

text \<open>The number of packets of the message of packet \<open>n\<close> that directly follow it.\<close>

definition msg_run :: "nat \<Rightarrow> packet list \<Rightarrow> nat" where
  "msg_run n ms = length (takeWhile (same_msg (ms ! n)) (drop (Suc n) ms))"

lemma sb_skip_ok:
  assumes "path (sb_heap B) p (us @ [x]) q" "\<forall>u \<in> set us. b_iMsgNo (sb_heap B ! u) AND 0x1FFFFFFF = msgno"
    "b_iMsgNo (sb_heap B ! x) AND 0x1FFFFFFF \<noteq> msgno" "move \<Longrightarrow> sb_pCurrBlock B = p"
  shows "sb_skip msgno p move k B = Some (k + int (length us), if move \<or> sb_pCurrBlock B \<in> set us then B\<lparr>sb_pCurrBlock := x\<rparr> else B)"
  using assms
proof (induction us arbitrary: p move k B)
  case Nil
  then have x: "p = x" "x < length (sb_heap B)" "msgno \<noteq> b_iMsgNo (sb_heap B ! x) AND 0x1FFFFFFF" by auto
  have "B\<lparr>sb_pCurrBlock := x\<rparr> = B" if "move" using Nil.prems(4) [OF that] x(1) by (cases B) simp
  then show ?case using x by (subst sb_skip.simps) (simp add: deref_def)
next
  case (Cons u us)
  then have u: "p = u" "u < length (sb_heap B)" "msgno = b_iMsgNo (sb_heap B ! u) AND 0x1FFFFFFF"
    and p: "path (sb_heap B) (b_pNext (sb_heap B ! u)) (us @ [x]) q" by auto
  let ?B = "B\<lparr>sb_pCurrBlock := b_pNext (sb_heap B ! u)\<rparr>"
  show ?case
  proof (cases "move \<or> u = sb_pCurrBlock B")
    case True
    have "sb_skip msgno (b_pNext (sb_heap B ! u)) True (k + 1) ?B = Some (k + 1 + int (length us), ?B\<lparr>sb_pCurrBlock := x\<rparr>)"
      using Cons.IH [of ?B] p Cons.prems(2,3) by simp
    then show ?thesis using True u by (subst sb_skip.simps) (auto simp: deref_def Let_def)
  next
    case False
    have "sb_skip msgno (b_pNext (sb_heap B ! u)) False (k + 1) B =
        Some (k + 1 + int (length us), if sb_pCurrBlock B \<in> set us then B\<lparr>sb_pCurrBlock := x\<rparr> else B)"
      using Cons.IH [of B _ False] p Cons.prems(2,3) by simp
    then show ?thesis using False u by (subst sb_skip.simps) (auto simp: deref_def Let_def)
  qed
qed

lemma path_split:
  assumes "path h p (xs @ x # ys) q"
  shows "path h p (xs @ [x]) (b_pNext (h ! x))" "path h p xs x" "path h (b_pNext (h ! x)) ys q" "x < length h"
  using assms by (auto intro: exI [of _ x])

lemma readDataAt_expired:
  assumes R: "sb_rep B ms1 ms2" and n: "n < length ms1" and e: "expired_at now (ms1 ! n)"
    and k: "k = Suc n + msg_run n (ms1 @ ms2)" and more: "k < length (ms1 @ ms2)"
  shows "\<exists>B'. readDataAt now (int n) B = Some (Expired (fst (snd (ms1 ! n)) AND 0x1FFFFFFF) (int k - int n), B') \<and>
    sb_rep B' (take (max (length ms1) k) (ms1 @ ms2)) (drop (max (length ms1) k) (ms1 @ ms2))"
proof -
  obtain us1 us2 fs where C: "sb_core B (sb_pLastBlock B) us1 us2 fs ms1 ms2" and fs: "fs \<noteq> []"
    and sizes: "sb_iCount B = int (length ms1 + length ms2)" "sb_iSize B = int (length us1 + length us2 + length fs)"
    using R by (auto simp: sb_rep_def)
  note D = sb_coreD [OF C]
  obtain us where us: "us = us1 @ us2" by blast
  obtain ms where ms: "ms = ms1 @ ms2" by blast
  let ?h = "sb_heap B"
  have len: "length us1 = length ms1" "length us2 = length ms2" using D(8,9) by (auto dest: list_all2_lengthD)
  have P: "list_all2 (\<lambda>p. block_has (sb_pBuffer B) (?h ! p)) us ms"
    unfolding us ms by (rule list_all2_appendI [OF D(8,9)])
  have has: "block_has (sb_pBuffer B) (?h ! (us ! i)) (ms ! i)" if "i < length ms" for i
    using list_all2_lookup [OF P that] .
  have msg: "b_iMsgNo (?h ! (us ! i)) = fst (snd (ms ! i))" if "i < length ms" for i
    using has [OF that] by (cases "ms ! i") (simp add: block_has_def)
  have pt: "path ?h (sb_pFirstBlock B) us (sb_pLastBlock B)" unfolding us using D(4,5) by (meson path_append)
  have ln: "n < length us" and lk: "k < length us" "n < k" using n more len k us by auto
  note more = more [folded ms] and k = k [folded ms]
  have lms: "length ms = length ms1 + length ms2" using ms by simp
  let ?m = "ms ! n" and ?run = "drop (Suc n) (take k us)"
  have m: "?m = ms1 ! n" using n ms by (simp add: nth_append)
  have pn: "path ?h (sb_pFirstBlock B) (take n us @ us ! n # drop (Suc n) us) (sb_pLastBlock B)"
    by (subst id_take_nth_drop [OF ln, symmetric]) (rule pt)
  have us2: "drop (Suc n) us = ?run @ us ! k # drop (Suc k) us"
  proof -
    have "drop (Suc n) us = drop (Suc n) (take k us @ us ! k # drop (Suc k) us)"
      by (subst id_take_nth_drop [OF lk(1), symmetric]) (rule refl)
    also have "\<dots> = ?run @ us ! k # drop (Suc k) us" using lk by (simp only: drop_append) simp
    finally show ?thesis .
  qed
  from follow_path [OF pn] obtain r where r: "follow (length (take n us)) (sb_pFirstBlock B) B = Some r"
    "path ?h r (us ! n # drop (Suc n) us) (sb_pLastBlock B)" by blast
  then have f: "follow n (sb_pFirstBlock B) B = Some (us ! n)" using ln by simp
  have blk: "deref (us ! n) B = Some (?h ! (us ! n))" "path ?h (b_pNext (?h ! (us ! n))) (?run @ us ! k # drop (Suc k) us) (sb_pLastBlock B)"
    using r(2) unfolding us2 by (auto simp: deref_def)
  let ?same = "same_msg ?m"
  have same: "?same (ms ! i)" if "Suc n \<le> i" "i < k" for i
  proof -
    have "i - Suc n < length (takeWhile ?same (drop (Suc n) ms))" using that k m by (simp add: msg_run_def)
    note this nth_mem [OF this] takeWhile_nth [OF this]
    then have "?same (drop (Suc n) ms ! (i - Suc n))" by (metis (no_types, lifting) set_takeWhileD)
    then show ?thesis using that more by simp
  qed
  have diff: "\<not> ?same (ms ! k)"
  proof -
    have "length (takeWhile ?same (drop (Suc n) ms)) < length (drop (Suc n) ms)" using more k m by (simp add: msg_run_def)
    from nth_length_takeWhile [OF this] show ?thesis using k more m by (simp add: msg_run_def)
  qed
  let ?no = "fst (snd ?m) AND 0x1FFFFFFF"
  have "\<forall>u \<in> set ?run. b_iMsgNo (?h ! u) AND 0x1FFFFFFF = ?no"
  proof
    fix u assume "u \<in> set ?run"
    then obtain j where "j < length ?run" "u = ?run ! j" by (auto simp: in_set_conv_nth)
    then have "u = us ! (Suc n + j)" "Suc n + j < k" using lk by auto
    then show "b_iMsgNo (?h ! u) AND 0x1FFFFFFF = ?no" using msg [of "Suc n + j"] same [of "Suc n + j"] more by (simp add: same_msg_def)
  qed
  moreover have "b_iMsgNo (?h ! (us ! k)) AND 0x1FFFFFFF \<noteq> ?no" using msg [OF more] diff by (simp add: same_msg_def)
  ultimately have skip: "sb_skip ?no (b_pNext (?h ! (us ! n))) False 1 B =
      Some (1 + int (length ?run), if sb_pCurrBlock B \<in> set ?run then B\<lparr>sb_pCurrBlock := us ! k\<rparr> else B)"
    using sb_skip_ok [OF path_split(1) [OF blk(2)], of ?no False 1] by simp
  have lr: "1 + int (length ?run) = int k - int n" using lk by simp
  have ex: "b_iTTL (?h ! (us ! n)) \<ge> 0 \<and> (now - b_OriginTime (?h ! (us ! n))) div 1000 > word_of_int (b_iTTL (?h ! (us ! n)))"
    "b_iMsgNo (?h ! (us ! n)) = fst (snd ?m)"
    using has [of n] n e m lms by (cases "ms1 ! n"; simp add: expired_at_def block_has_def)+
  have RD: "readDataAt now (int n) B = Some (Expired ?no (int k - int n), if sb_pCurrBlock B \<in> set ?run then B\<lparr>sb_pCurrBlock := us ! k\<rparr> else B)"
    using f blk(1) ex skip lr by (simp add: readDataAt_def)
  have cur: "sb_pCurrBlock B \<in> set ?run \<longleftrightarrow> length ms1 < k"
  proof (cases "us2 = []")
    case True
    then have "sb_pCurrBlock B = sb_pLastBlock B" using D(5) by simp
    moreover have "sb_pLastBlock B \<in> set fs" using path_hd [OF D(6) fs] by (metis list.set_intros(1))
    ultimately have "sb_pCurrBlock B \<notin> set us" using D(7) us by auto
    moreover have "\<not> length ms1 < k" using True lk(1) len us by simp
    ultimately show ?thesis by (meson in_set_dropD in_set_takeD)
  next
    case False
    have l1: "length us1 < length us" using False us by simp
    have c: "us ! length us1 = sb_pCurrBlock B" unfolding us using path_hd [OF D(5) False] by (metis nth_append_length)
    have dis: "distinct us" using D(7) unfolding us by auto
    show ?thesis
    proof
      assume "sb_pCurrBlock B \<in> set ?run"
      then obtain j where "j < length ?run" "us ! length us1 = ?run ! j" using c by (metis (no_types, lifting) in_set_conv_nth)
      then have "us ! length us1 = us ! (Suc n + j)" "Suc n + j < k" using lk by auto
      then show "length ms1 < k" using nth_eq_iff_index_eq [OF dis l1, of "Suc n + j"] lk(1) len by simp
    next
      assume "length ms1 < k"
      moreover obtain j where j: "length us1 = Suc n + j" using n len less_imp_Suc_add [of n "length us1"] by auto
      ultimately have "?run ! j = us ! length us1" "j < length ?run" using len n lk by simp_all
      then show "sb_pCurrBlock B \<in> set ?run" using c nth_mem by metis
    qed
  qed
  show ?thesis
  proof (cases "length ms1 < k")
    case False
    then have "max (length ms1) k = length ms1" by simp
    then show ?thesis unfolding ms [symmetric] using RD cur False R m ms by (intro exI [of _ B]) simp
  next
    case True
    let ?B' = "B\<lparr>sb_pCurrBlock := us ! k\<rparr>"
    have lk': "k \<le> length us" using lk by simp
    have pk0: "path ?h (sb_pFirstBlock B) (take k us @ us ! k # drop (Suc k) us) (sb_pLastBlock B)"
      by (subst id_take_nth_drop [OF lk(1), symmetric]) (rule pt)
    have pk1: "path ?h (us ! k) (drop k us) (sb_pLastBlock B)"
      by (subst Cons_nth_drop_Suc [OF lk(1), symmetric]) (use path_split(3,4) [OF pk0] in simp)
    note pk = path_split(2) [OF pk0] pk1
    have "sb_core ?B' (sb_pLastBlock B) (take k us) (drop k us) fs (take k ms) (drop k ms)"
    proof (rule sb_coreI)
      show "list_all2 (\<lambda>p. block_has (sb_pBuffer ?B') (sb_heap ?B' ! p)) (take k us) (take k ms)"
        "list_all2 (\<lambda>p. block_has (sb_pBuffer ?B') (sb_heap ?B' ! p)) (drop k us) (drop k ms)"
        using P by (simp_all add: list_all2_takeI list_all2_dropI del: take_append drop_append)
      have e: "take k us @ drop k us @ fs = us1 @ us2 @ fs" by (metis append.assoc append_take_drop_id us)
      show "distinct (take k us @ drop k us @ fs)" "inj_on (\<lambda>p. b_pcData (sb_heap ?B' ! p)) (set (take k us @ drop k us @ fs))"
        "\<forall>p \<in> set (take k us @ drop k us @ fs). ptr_ok (sb_iMSS ?B') (sb_pBuffer ?B') (b_pcData (sb_heap ?B' ! p))"
        unfolding e using D(7,11,12) by simp_all
      have "set (take k ms) \<union> set (drop k ms) = set ms1 \<union> set ms2" by (metis append_take_drop_id set_append ms)
      then show "\<forall>m \<in> set (take k ms) \<union> set (drop k ms). int (length (fst m)) \<le> sb_iMSS ?B'" using D(10) by simp
    qed (use D pk in simp_all)
    then have "sb_rep ?B' (take k ms) (drop k ms)"
      using sizes fs lk' len more us lms unfolding sb_rep_def
      by (intro exI [of _ "take k us"] exI [of _ "drop k us"] exI [of _ fs]) simp
    moreover have "max (length ms1) k = k" using True by simp
    ultimately show ?thesis unfolding ms [symmetric] using RD cur True m by (intro exI [of _ ?B']) simp
  qed
qed

text \<open>The request: drop the packets \<open>x\<close> to \<open>y\<close> of a message.\<close>

definition drop_packet :: "u32 \<Rightarrow> int \<Rightarrow> int \<Rightarrow> cpacket \<Rightarrow> bool" where
  "drop_packet msgno x y d \<longleftrightarrow> getFlag d = 1 \<and> getType d = 7 \<and> m_nHeader d ! 1 = msgno \<and>
     iov_base d = Some (Words [wrap x, wrap y]) \<and> getLength d = 8"

lemma send_drop_ok:
  "\<exists>d. sendCtrl E 7 (Some (sint msgno)) (Some (Words [wrap x, wrap y])) 8 U = Some (emit (SendTo d) U) \<and> drop_packet msgno x y d"
proof -
  let ?p = "\<lparr>m_nHeader = [ctl_header 7, msgno, 0, 0], iov_base = Some (Words [wrap x, wrap y]), iov_len = 8\<rparr>"
  have "pack 7 (Some (sint msgno)) (Some (Words [wrap x, wrap y])) 8 CPacket = Some ?p"
    by (simp add: pack_def CPacket_def ctl_header_def set_hdr_def)
  moreover have "drop_packet msgno x y (set_hdr 3 (u_PeerID U) ?p)"
    using ctl_header_fields [of 7] by (simp add: drop_packet_def set_hdr_def getType_def getFlag_def getLength_def)
  ultimately show ?thesis by (simp add: sendCtrl_def send_peer_def) blast
qed

lemma packData_expired:
  assumes I: "snd_inv W a k S ms1 ms2 (u_snd U)" and S: "S \<noteq> {}" and i: "i = nat (Min S - a)"
    and e: "expired_at (pack_time E U) (ms1 ! i)" and j: "j = Suc i + msg_run i (ms1 @ ms2)" "j < length (ms1 @ ms2)"
    and b: "int (length (ms1 @ ms2)) + 2 < m_iSeqNoTH"
  shows "\<exists>p' U' d. packData E V p ts U = Some (0, p', ts, U') \<and> u_rcv U' = u_rcv U \<and> u_events U' = u_events U @ [SendTo d] \<and>
    drop_packet (fst (snd (ms1 ! i)) AND 0x1FFFFFFF) (Min S) (a + int j) d \<and>
    s_iSndCurrSeqNo (u_snd U') = wrap (max (a + int (length ms1) - 1) (a + int j + 1)) \<and>
    sb_rep (s_pSndBuffer (u_snd U')) (take (max (length ms1) j) (ms1 @ ms2)) (drop (max (length ms1) j) (ms1 @ ms2)) \<and>
    snd_lost (s_pSndLossList (u_snd U')) {x \<in> S. a + int j < x} \<and>
    (j + 1 < length ms1 \<longrightarrow> snd_inv W a k {x \<in> S. a + int j < x} ms1 ms2 (u_snd U'))"
proof -
  note D = snd_invD [OF I]
  obtain E1 where E1: "E1 = pack_enter E U" by blast
  have same: "same_snd (u_snd U) (u_snd E1)" "u_rcv E1 = u_rcv U" "u_events E1 = u_events U"
    unfolding E1 by (rule pack_enter_ok)+
  let ?n = "Min S" and ?c = "a + int (length ms1) - 1"
  have fin: "finite S" using D(8) finite_subset by blast
  then have "?n \<in> S" using S by simp
  then have n: "?n \<in> S" "a \<le> ?n" "?n < a + int (length ms1)" using D(8) by (auto dest: subsetD)
  have ai: "?n = a + int i" "i < length ms1" using i n by linarith+
  obtain L where L: "getLostSeq (s_pSndLossList (u_snd U)) = Some (wrap ?n, L)" "snd_lost L (S - {?n})"
    "m_iSize L = m_iSize (s_pSndLossList (u_snd U))" using snd_lost_next(2) [OF D(2) S] by blast
  obtain E2 where E2: "E2 = E1\<lparr>u_snd := (u_snd E1)\<lparr>s_pSndLossList := L\<rparr>\<rparr>" by blast
  have s2: "s_iSndLastDataAck (u_snd E2) = wrap a" "s_pSndBuffer (u_snd E2) = s_pSndBuffer (u_snd U)" "s_iSndCurrSeqNo (u_snd E2) = wrap ?c"
    "s_pSndLossList (u_snd E2) = L" "s_iSndLastAck (u_snd E2) = wrap k" "s_iFlowWindowSize (u_snd E2) = s_iFlowWindowSize (u_snd U)"
    using same(1) D by (simp_all add: E2 same_snd_def)
  have "near a ?n" using n D(9,12) by (simp add: near_def)
  then have off: "seqoff (s_iSndLastDataAck (u_snd E2)) (wrap ?n) = int i" using seqoff_wrap [of a ?n] s2(1) ai by simp
  have now: "e_time E (u_ticks E2) = pack_time E U" by (simp add: pack_time_def getTime_def E1 E2)
  let ?no = "fst (snd (ms1 ! i)) AND 0x1FFFFFFF"
  from readDataAt_expired [OF D(1) ai(2) e j] obtain B where
    RD: "readDataAt (pack_time E U) (int i) (s_pSndBuffer (u_snd U)) = Some (Expired ?no (int j - int i), B)"
      "sb_rep B (take (max (length ms1) j) (ms1 @ ms2)) (drop (max (length ms1) j) (ms1 @ ms2))" by blast
  have ij: "i < j" using j(1) by simp
  have jj: "int j < int (length (ms1 @ ms2))" using j(2) by (simp only: of_nat_less_iff)
  have last: "incseq_by (wrap ?n) (int j - int i) = wrap (a + int j)"
  proof -
    have "incseq_by (wrap ?n) (int j - int i) = wrap (wrap ?n + (int j - int i))"
      by (rule incseq_by_wrap) (use ij jj b in simp_all)
    also have "\<dots> = wrap (a + int j)" by (simp add: wrap_add ai(1))
    finally show ?thesis .
  qed
  have nr: "near (Min (S - {?n})) (a + int j)" if "S - {?n} \<noteq> {}"
  proof -
    have "Min (S - {?n}) \<in> S - {?n}" using fin that by (intro Min_in) auto
    then have "Min (S - {?n}) \<in> {a..<a + int (length ms1)}" using D(8) by blast
    then show ?thesis using jj b ij by (auto simp: near_def)
  qed
  from snd_lost_remove [OF L(2) nr] obtain L' where L': "snd_remove (wrap (a + int j)) L = Some L'"
    "snd_lost L' {x \<in> S - {?n}. a + int j < x}" "m_iSize L' = m_iSize L" by blast
  have rest: "{x \<in> S - {?n}. a + int j < x} = {x \<in> S. a + int j < x}" using ai ij by auto
  obtain t U1 where U1: "getTime E E2 = (t, U1)" by fastforce
  then have t: "t = pack_time E U" and U1': "U1 = E2\<lparr>u_ticks := u_ticks E2 + 1\<rparr>" using now by (simp_all add: getTime_def)
  obtain U2 where U2: "U2 = U1\<lparr>u_snd := (u_snd U1)\<lparr>s_pSndBuffer := B\<rparr>\<rparr>" by blast
  obtain d where d: "sendCtrl E 7 (Some (sint ?no)) (Some (Words [wrap ?n, wrap (a + int j)])) 8 U2 = Some (emit (SendTo d) U2)"
    "drop_packet ?no ?n (a + int j) d" using send_drop_ok by blast
  let ?U3 = "emit (SendTo d) U2"
  obtain U4 where U4: "U4 = ?U3\<lparr>u_snd := (u_snd ?U3)\<lparr>s_pSndLossList := L'\<rparr>\<rparr>" by blast
  have s4: "s_iSndCurrSeqNo (u_snd U4) = wrap ?c" "s_pSndLossList (u_snd U2) = L" "s_pSndBuffer (u_snd U4) = B"
    "u_rcv U4 = u_rcv U" "u_events U4 = u_events U @ [SendTo d]" "s_pSndLossList (u_snd U4) = L'" "s_iSndLastDataAck (u_snd U4) = wrap a"
    "s_iSndLastAck (u_snd U4) = wrap k" "s_iFlowWindowSize (u_snd U4) = s_iFlowWindowSize (u_snd U)"
    using s2 same by (simp_all add: U4 U2 U1' emit_def E2)
  have inc: "incseq (wrap (a + int j)) = wrap (a + int j + 1)" by (rule incseq_wrap')
  have nc: "near ?c (a + int j + 1)" using jj b by (simp add: near_def)
  obtain U5 where U5: "U5 = (if seqcmp (s_iSndCurrSeqNo (u_snd U4)) (incseq (wrap (a + int j))) < 0
      then U4\<lparr>u_snd := (u_snd U4)\<lparr>s_iSndCurrSeqNo := incseq (wrap (a + int j))\<rparr>\<rparr> else U4)" by blast
  have DR: "drop_request E (wrap ?n) ?no (int j - int i) U2 = Some U5"
    using d(1) L'(1) s4(2) last by (simp add: drop_request_def U5 U4 emit_def Let_def)
  have PL: "pack_lost E (wrap ?n) (set_hdr 0 (wrap ?n) p) E2 = Some (0, set_hdr 1 (sint ?no) (set_hdr 0 (wrap ?n) p), U5)"
    using off U1 RD(1) DR t s2(2) U1' by (simp add: pack_lost_def U2)
  have LL: "s_pSndLossList (u_snd E1) = s_pSndLossList (u_snd U)" using same(1) by (simp add: same_snd_def)
  have P: "packData E V p ts U = Some (0, set_hdr 1 (sint ?no) (set_hdr 0 (wrap ?n) p), ts, U5)"
    unfolding packData_enter E1 [symmetric] Let_def LL L(1) using PL wrap_nonneg(1) [of ?n] by (simp add: E2 Let_def)
  have cmp: "seqcmp (wrap ?c) (wrap (a + int j + 1)) < 0 \<longleftrightarrow> ?c < a + int j + 1" using seqcmp_wrap [OF nc] by blast
  have cur: "s_iSndCurrSeqNo (u_snd U5) = wrap (max ?c (a + int j + 1))"
  proof (cases "?c < a + int j + 1")
    case True
    then have "U5 = U4\<lparr>u_snd := (u_snd U4)\<lparr>s_iSndCurrSeqNo := incseq (wrap (a + int j))\<rparr>\<rparr>"
      using cmp unfolding U5 inc s4(1) by (metis (full_types))
    moreover have "max ?c (a + int j + 1) = a + int j + 1" using True by simp
    ultimately show ?thesis by (simp add: inc)
  next
    case False
    then have "U5 = U4" using cmp unfolding U5 inc s4(1) by (metis (full_types))
    moreover have "max ?c (a + int j + 1) = ?c" using False by simp
    ultimately show ?thesis using s4(1) by simp
  qed
  have s5: "s_iSndCurrSeqNo (u_snd U5) = wrap (max ?c (a + int j + 1))" "s_pSndBuffer (u_snd U5) = B" "u_rcv U5 = u_rcv U"
    "u_events U5 = u_events U @ [SendTo d]" "s_pSndLossList (u_snd U5) = L'" "s_iSndLastDataAck (u_snd U5) = wrap a"
    "s_iSndLastAck (u_snd U5) = wrap k" "s_iFlowWindowSize (u_snd U5) = s_iFlowWindowSize (u_snd U)"
    using cur s4 unfolding U5 by auto
  have inv: "snd_inv W a k {x \<in> S. a + int j < x} ms1 ms2 (u_snd U5)" if "j + 1 < length ms1"
  proof -
    have m: "max (length ms1) j = length ms1" "max ?c (a + int j + 1) = ?c" using that by linarith+
    have "sb_rep B ms1 ms2" using RD(2) m(1) by simp
    then show ?thesis using D s5 L' L(3) rest m(2) unfolding snd_inv_defs by auto
  qed
  show ?thesis using P s5 d(2) RD(2) L'(2) rest inv by (intro exI conjI) (assumption | simp)+
qed

end
