(* ===== verification/UdtConnProps.thy ===== *)
theory UdtConnProps
  imports UdtDemo UdtSenderDrop
begin

section \<open>UDT: properties of the sender and of the receiver\<close>

text \<open>
  C6: what a sender sends. Over the unbounded line of packet numbers: if the least lost packet has not expired (its time to live is not
  over, or it has none), \<open>packData\<close> returns it as it was sent first. If it has, nothing is returned, but the receiver is asked to drop the packets from it
  to the end of its message, one too many: the range of the request, the losses that are forgotten and the last number sent
  all extend to packet number \<open>a + j\<close>, the first of the next message, or one further. The invariant of the sender survives this only if
  that packet and its successor had been sent already; else the numbers and the places in the buffer are out of step afterwards. (This
  is for a message that is followed by another one in the buffer.) Without losses
  nothing is sent while the window (the smaller of the flow and the congestion window, counted from the last
  acknowledgement) is closed or no packet waits; else the first waiting packet with the next number. But for expiry the invariant of the sender
  holds after each, and the receiving half is untouched.
\<close>

theorem sender_packets:
  fixes U :: "'x sock" and E :: env
  assumes I: "snd_inv W a k S ms1 ms2 (u_snd U)" and h: "length (m_nHeader p) = 4"
  defines "i \<equiv> nat (Min S - a)" and "late \<equiv> expired_at (pack_time E U) (ms1 ! nat (Min S - a))"
    and "shut \<equiv> ms2 = [] \<or> send_window U \<le> a + int (length ms1) - k"
  defines "j \<equiv> Suc i + msg_run i (ms1 @ ms2)"
  shows "(S \<noteq> {} \<and> \<not> late \<longrightarrow> (\<exists>p' ts' U'. packData E V p ts U = Some (int (length (fst (ms1 ! i))), p', ts', U') \<and>
      u_rcv U' = u_rcv U \<and> u_events U' = u_events U \<and> carries (Min S) (ms1 ! i) p' \<and> m_nHeader p' ! 3 = word_of_int (u_PeerID U) \<and>
      snd_inv W a k (S - {Min S}) ms1 ms2 (u_snd U'))) \<and>
    (S \<noteq> {} \<and> late \<and> j < length (ms1 @ ms2) \<and> int (length (ms1 @ ms2)) + 2 < m_iSeqNoTH \<longrightarrow>
      (\<exists>p' U' d. packData E V p ts U = Some (0, p', ts, U') \<and> u_rcv U' = u_rcv U \<and> u_events U' = u_events U @ [SendTo d] \<and>
        drop_packet (fst (snd (ms1 ! i)) AND 0x1FFFFFFF) (Min S) (a + int j) d \<and>
        s_iSndCurrSeqNo (u_snd U') = wrap (max (a + int (length ms1) - 1) (a + int j + 1)) \<and>
        sb_rep (s_pSndBuffer (u_snd U')) (take (max (length ms1) j) (ms1 @ ms2)) (drop (max (length ms1) j) (ms1 @ ms2)) \<and>
        snd_lost (s_pSndLossList (u_snd U')) {x \<in> S. a + int j < x} \<and>
        (j + 1 < length ms1 \<longrightarrow> snd_inv W a k {x \<in> S. a + int j < x} ms1 ms2 (u_snd U')))) \<and>
    (S = {} \<and> shut \<longrightarrow> (\<exists>p' U'. packData E V p ts U = Some (0, p', 0, U') \<and> u_rcv U' = u_rcv U \<and> u_events U' = u_events U \<and>
      snd_inv W a k {} ms1 ms2 (u_snd U'))) \<and>
    (S = {} \<and> \<not> shut \<longrightarrow> (\<exists>p' ts' U'. packData E V p ts U = Some (int (length (fst (hd ms2))), p', ts', U') \<and>
      u_rcv U' = u_rcv U \<and> u_events U' = u_events U \<and> carries (a + int (length ms1)) (hd ms2) p' \<and>
      m_nHeader p' ! 3 = word_of_int (u_PeerID U) \<and> snd_inv W a k {} (ms1 @ [hd ms2]) (tl ms2) (u_snd U')))"
proof (intro conjI impI; elim conjE)
  assume "S \<noteq> {}" "\<not> late"
  then show "\<exists>p' ts' U'. packData E V p ts U = Some (int (length (fst (ms1 ! i))), p', ts', U') \<and>
      u_rcv U' = u_rcv U \<and> u_events U' = u_events U \<and> carries (Min S) (ms1 ! i) p' \<and> m_nHeader p' ! 3 = word_of_int (u_PeerID U) \<and>
      snd_inv W a k (S - {Min S}) ms1 ms2 (u_snd U')"
    using packData_lost [OF I _ h, of E V ts] unfolding late_def i_def by blast
next
  assume "S \<noteq> {}" "late" "j < length (ms1 @ ms2)" "int (length (ms1 @ ms2)) + 2 < m_iSeqNoTH"
  then show "\<exists>p' U' d. packData E V p ts U = Some (0, p', ts, U') \<and> u_rcv U' = u_rcv U \<and> u_events U' = u_events U @ [SendTo d] \<and>
        drop_packet (fst (snd (ms1 ! i)) AND 0x1FFFFFFF) (Min S) (a + int j) d \<and>
        s_iSndCurrSeqNo (u_snd U') = wrap (max (a + int (length ms1) - 1) (a + int j + 1)) \<and>
        sb_rep (s_pSndBuffer (u_snd U')) (take (max (length ms1) j) (ms1 @ ms2)) (drop (max (length ms1) j) (ms1 @ ms2)) \<and>
        snd_lost (s_pSndLossList (u_snd U')) {x \<in> S. a + int j < x} \<and>
        (j + 1 < length ms1 \<longrightarrow> snd_inv W a k {x \<in> S. a + int j < x} ms1 ms2 (u_snd U'))"
    using packData_expired [OF I _ refl, of E j V p ts] unfolding late_def j_def i_def by blast
next
  assume s: "S = {}" and c: "shut"
  show "\<exists>p' U'. packData E V p ts U = Some (0, p', 0, U') \<and> u_rcv U' = u_rcv U \<and> u_events U' = u_events U \<and> snd_inv W a k {} ms1 ms2 (u_snd U')"
    using packData_closed [OF I [unfolded s] c [unfolded shut_def], of E V p ts] by blast
next
  assume s: "S = {}" and c: "\<not> shut"
  then obtain m r where m: "ms2 = m # r" unfolding shut_def by (cases ms2) auto
  have w: "send_window U > a + int (length ms1) - k" using c by (simp add: shut_def)
  from packData_new [OF I [unfolded s m] w h, of E V ts]
  show "\<exists>p' ts' U'. packData E V p ts U = Some (int (length (fst (hd ms2))), p', ts', U') \<and>
      u_rcv U' = u_rcv U \<and> u_events U' = u_events U \<and> carries (a + int (length ms1)) (hd ms2) p' \<and>
      m_nHeader p' ! 3 = word_of_int (u_PeerID U) \<and> snd_inv W a k {} (ms1 @ [hd ms2]) (tl ms2) (u_snd U')"
    unfolding m list.sel by blast
qed

lemma sender_packets_witness:
  "\<exists>U p' ts' U' i. packData demo_env demo_class demo_packet 0 U = Some (1, p', ts', U') \<and> carries 1 ([42], i, 0, -1) p'"
proof -
  obtain s i where s: "snd_inv 32 1 1 {} [] [([42], i, 0, -1)] s" using demo_queued by blast
  have h: "length (m_nHeader demo_packet) = 4" by (simp add: demo_packet_def)
  show ?thesis using sender_packets [OF demo_open_inv(1) [OF s] h, of demo_env demo_class 0] by (simp add: demo_open_inv) blast
qed

text \<open>
  C7: what a sender does with an acknowledgement of number \<open>x\<close>, one within half the circle of the last acknowledgement and of
  the next new number (so that they compare). A full one (of four values or more) names all packets before \<open>x\<close> as received and advertises a window, at most
  \<open>W\<close> here: a number that was never sent breaks the
  connection; else the packets before \<open>x\<close> leave the buffer and the loss list, what is older has no effect, and the window is
  counted from the largest acknowledgement. This holds whatever samples of round-trip time and rates it carries; they are not checked, and the averages may
  overflow (an undefined result). With samples and averages below \<open>2 ^ 28\<close> they do not, and stay so.
  A light one frees nothing and is not compared with what was sent: the last acknowledgement moves to \<open>x\<close> and the window shrinks by as
  much, which keeps the invariant if \<open>x\<close> has been sent and the window was not negative.
\<close>

theorem sender_acks:
  fixes U :: "'x sock"
  assumes I: "snd_inv W a k S ms1 ms2 (u_snd U)" and p: "iov_base p = Some (Words ws)" "ws \<noteq> []"
    and x: "ws ! 0 = wrap x" "near x k" "near x (a + int (length ms1))"
  defines "s \<equiv> u_snd U"
  defines "light \<equiv> s\<lparr>s_iFlowWindowSize := i32 (s_iFlowWindowSize s - (x - k)), s_iSndLastAck := wrap x\<rparr>"
  shows "(full_ack W ws p \<longrightarrow>
      (\<forall>U'. process_ack E V t p U = Some U' \<longrightarrow> u_rcv U' = u_rcv U \<and>
        (if x > a + int (length ms1) then u_bBroken U' \<and> snd_inv W a k S ms1 ms2 (u_snd U')
         else snd_inv W (max a x) (max k x) {n \<in> S. x \<le> n} (drop (nat (x - a)) ms1) ms2 (u_snd U') \<and> u_bBroken U' = u_bBroken U)) \<and>
      (est_ok U \<and> ack_packet W ws p \<longrightarrow> (\<exists>U'. process_ack E V t p U = Some U' \<and> est_ok U'))) \<and>
    (getLength p = 4 \<longrightarrow> process_ack E V t p U = Some (if k \<le> x then U\<lparr>u_snd := light\<rparr> else U) \<and>
      (k \<le> x \<and> x \<le> a + int (length ms1) \<and> 0 \<le> s_iFlowWindowSize s \<longrightarrow> snd_inv W a x S ms1 ms2 light))"
proof (intro conjI impI allI)
  fix U' assume f: "full_ack W ws p" and "process_ack E V t p U = Some U'"
  from process_ack_ok(1) [OF I f x(1,3) this(2)]
  show "u_rcv U' = u_rcv U" "if x > a + int (length ms1) then u_bBroken U' \<and> snd_inv W a k S ms1 ms2 (u_snd U')
         else snd_inv W (max a x) (max k x) {n \<in> S. x \<le> n} (drop (nat (x - a)) ms1) ms2 (u_snd U') \<and> u_bBroken U' = u_bBroken U"
    by simp_all
next
  assume "full_ack W ws p" "est_ok U \<and> ack_packet W ws p"
  then show "\<exists>U'. process_ack E V t p U = Some U' \<and> est_ok U'" using process_ack_ok(2) [OF I _ x(1,3)] by blast
next
  assume l: "getLength p = 4"
  note L = process_lite_ack_ok [OF I p l x(1,2)]
  show "process_ack E V t p U = Some (if k \<le> x then U\<lparr>u_snd := light\<rparr> else U)" using L(1) by (simp add: light_def s_def)
  show "snd_inv W a x S ms1 ms2 light" if "k \<le> x \<and> x \<le> a + int (length ms1) \<and> 0 \<le> s_iFlowWindowSize s"
    using L(2) that by (simp add: light_def s_def max_absorb2)
qed

lemma sender_acks_witness:
  "\<exists>s U'. process_ack demo_env demo_class 0 \<lparr>m_nHeader = [ctl_header 2, 1, 0, 0], iov_base = Some (Words [2, 100, 50, 20]), iov_len = 16\<rparr> (demo_open s) =
    Some U' \<and> snd_inv 32 2 2 {} [] [] (u_snd U')"
proof -
  obtain s i where s: "snd_inv 32 1 1 {} [([42], i, 0, -1)] [] s" using demo_sent by blast
  let ?p = "\<lparr>m_nHeader = [ctl_header 2, 1, 0, 0], iov_base = Some (Words [2, 100, 50, 20]), iov_len = 16\<rparr>"
  have p: "iov_base ?p = Some (Words [2, 100, 50, 20])" "full_ack 32 [2, 100, 50, 20] ?p" "ack_packet 32 [2, 100, 50, 20] ?p"
    by (simp_all add: full_ack_def ack_packet_def sample_ok_def getLength_def)
  have x: "[2, 100, 50, 20] ! 0 = wrap 2" "near 2 1" "near 2 (1 + int (length [([42], i, 0, -1)]))" by (simp_all add: wrap_small near_def)
  show ?thesis using sender_acks [OF demo_open_inv(1) [OF s] p(1) _ x, of demo_env demo_class 0] p(2,3) demo_open_inv(3) [of s] by force
qed

text \<open>
  C8: what a sender does with a loss report and with a timeout. A report of intervals up to the last packet sent puts
  exactly the unacknowledged packets of these intervals into the loss list; a timeout, if the loss list is empty, all unacknowledged packets.
\<close>

theorem sender_losses:
  fixes U :: "'x sock"
  assumes I: "snd_inv W a k S ms1 ms2 (u_snd U)"
    and us: "\<forall>(x, y) \<in> set us. x \<le> y \<and> y < a + int (length ms1) \<and> near x k \<and> near x (a + int (length ms1) - 1)"
    and p: "iov_base p = Some (Words (concat (map report_one us) @ rest))" "getLength p = 4 * int (length (concat (map report_one us)))"
  shows "(\<exists>U'. process_nak E V p U = Some U' \<and> snd_inv W a k (S \<union> {n \<in> numbers us. k \<le> n}) ms1 ms2 (u_snd U') \<and> u_rcv U' = u_rcv U \<and>
      u_bBroken U' = u_bBroken U) \<and>
    (\<exists>U'. lose_all U = Some U' \<and> snd_inv W a k (if S = {} then {k..<a + int (length ms1)} else S) ms1 ms2 (u_snd U') \<and> u_rcv U' = u_rcv U)"
  using process_nak_ok [OF assms, of E V] lose_all_ok [OF I] by blast

lemma sender_losses_witness:
  "\<exists>s U'. process_nak demo_env demo_class \<lparr>m_nHeader = [ctl_header 3, 0, 0, 0], iov_base = Some (Words [1]), iov_len = 4\<rparr> (demo_open s) = Some U' \<and>
     (\<exists>ms. snd_inv 32 1 1 {1} ms [] (u_snd U'))"
proof -
  obtain s i where s: "snd_inv 32 1 1 {} [([42], i, 0, -1)] [] s" using demo_sent by blast
  have n: "{n \<in> numbers [(1, 1)]. 1 \<le> n} = {1 :: int}" by (auto simp: numbers_def)
  let ?p = "\<lparr>m_nHeader = [ctl_header 3, 0, 0, 0], iov_base = Some (Words [1]), iov_len = 4\<rparr>"
  have us: "\<forall>(x, y) \<in> set [(1, 1)]. x \<le> y \<and> y < 1 + int (length [([42], i, 0, -1)]) \<and> near x 1 \<and> near x (1 + int (length [([42], i, 0, -1)]) - 1)"
    by (simp add: near_def)
  have r: "concat (map report_one [(1, 1)]) = [1]" by (simp add: report_one_def wrap_small)
  have p: "iov_base ?p = Some (Words (concat (map report_one [(1, 1)]) @ []))" "getLength ?p = 4 * int (length (concat (map report_one [(1, 1)])))"
    unfolding r by (simp_all add: getLength_def)
  show ?thesis using sender_losses [OF demo_open_inv(1) [OF s] us p, of demo_env demo_class] unfolding n by auto
qed

subsection \<open>The receiver\<close>

text \<open>
  C9: what a receiver does with a data packet of number \<open>n\<close>. It is stored if it is new and its place is within the free part of
  the buffer, else the buffer stays as it was; storing it makes the numbers between the largest one received and \<open>n\<close> missing, and exactly then a
  loss report of this interval is sent. Nothing that was received is lost or changed.
\<close>

theorem receiver_data:
  fixes U :: "'x sock"
  assumes I: "rcv_inv dat r c S ds Q (u_rcv U)" and u: "unit_packet dat n u Q un" and near: "near r n"
  defines "st \<equiv> stores r c S (getAvailBufSize (v_pRcvBuffer (u_rcv U))) n"
  shows "\<exists>Q' U' es. processData E V u Q U = Some (if st then 0 else -1, Q', U') \<and>
    rcv_inv dat r (if st then max c n else c) (if st then (S - {n}) \<union> {c<..<n} else S) ds Q' (u_rcv U') \<and>
    u_snd U' = u_snd U \<and> u_bBroken U' = u_bBroken U \<and> u_events U' = u_events U @ es \<and>
    (if st \<and> c + 1 < n then \<exists>p. es = [SendTo p] \<and> nak_packet [(c + 1, n - 1)] p else es = [])"
  using processData_ok [OF I u near, of E V] unfolding st_def by meson

lemma receiver_data_witness:
  "\<exists>Q' U' p. processData demo_env demo_class (0, 0) (demo_units2 2) demo_conn = Some (0, Q', U') \<and> u_events U' = [SendTo p] \<and> nak_packet [(1, 1)] p \<and>
     rcv_inv (\<lambda>_. [42]) 1 2 {1} [] Q' (u_rcv U')"
proof -
  have st: "stores 1 0 {} (getAvailBufSize (v_pRcvBuffer (u_rcv demo_conn))) 2" unfolding demo_avail by (simp add: stores_def)
  have n: "near 1 2" by (simp add: near_def)
  have e: "u_events demo_conn = []" by (simp add: demo_conn_def demo_sock_def)
  have s: "{0<..<2} = {1 :: int}" by auto
  show ?thesis using receiver_data [OF demo_rcv_inv demo_unit n, of demo_env demo_class] by (auto simp: demo_avail stores_def s e)
qed

text \<open>
  C10: what a receiver acknowledges. The acknowledgement timer returns unless the bandwidth estimate divides by zero, and then
  every acknowledgement that is sent names \<open>x\<close>, the first number that is missing, and advertises between 2 packets and the size of the buffer; a
  full one makes the packets before \<open>x\<close> readable in order; a light one changes nothing. One is sent whenever there is something
  new that the peer has not confirmed.
\<close>

theorem receiver_acks:
  fixes U :: "'x sock"
  assumes I: "rcv_inv dat r c S ds Q (u_rcv U)" and W: "2 \<le> rb_iSize (v_pRcvBuffer (u_rcv U))"
    and b: "getBandwidth (e_ceil_quot E) (v_pRcvTimeWindow (u_rcv U)) \<noteq> None"
  defines "x \<equiv> next_missing c S" and "N \<equiv> rb_iSize (v_pRcvBuffer (u_rcv U))"
  shows "\<exists>U' (r' :: int) es. send_ack E siz U = Some U' \<and> r' \<in> {r, x} \<and> rcv_inv dat r' c S (ds @ map dat [r..r' - 1]) Q (u_rcv U') \<and>
    u_snd U' = u_snd U \<and> u_events U' = u_events U @ es \<and> (\<forall>p. SendTo p \<in> set es \<longrightarrow> acknowledges N x p) \<and>
    (siz \<noteq> 4 \<and> r < x \<and> wrap x \<noteq> v_iRcvLastAckAck (u_rcv U) \<longrightarrow> r' = x \<and>
      (seqcmp (wrap x) (v_iRcvLastAckAck (u_rcv U)) > 0 \<longrightarrow> (\<exists>p. SendTo p \<in> set es)))"
proof -
  obtain U' where U': "send_ack E siz U = Some U'" using send_ack_some [OF I b] by blast
  have "2 \<le> N" "rb_iSize (v_pRcvBuffer (u_rcv U)) \<le> N" using W by (simp_all add: N_def)
  from send_ack_ok [OF I U' x_def [THEN meta_eq_to_obj_eq] this] show ?thesis using U' unfolding same_conn_def by blast
qed

lemma receiver_acks_witness:
  "\<exists>(U :: ccc cudt) U' Q p N. rcv_inv (\<lambda>_. [42]) 1 1 {} [] Q (u_rcv U) \<and> send_ack demo_env 0 U = Some U' \<and>
     rcv_inv (\<lambda>_. [42]) 2 1 {} [[42]] Q (u_rcv U') \<and> SendTo p \<in> set (u_events U') \<and> acknowledges N 2 p"
proof -
  have st: "stores 1 0 {} (getAvailBufSize (v_pRcvBuffer (u_rcv demo_conn))) 1" by (simp add: demo_avail stores_def)
  obtain Q and V :: "ccc cudt" where V: "rcv_inv (\<lambda>_. [42]) 1 1 {} [] Q (u_rcv V)" "v_iRcvLastAckAck (u_rcv V) = 1"
  proof -
    have n: "near 1 1" and s: "{0<..<1} = ({} :: int set)" by (auto simp: near_def)
    have a: "v_iRcvLastAckAck (u_rcv demo_conn) = 1" by (simp add: demo_conn_def demo_sock_def demo_rcv_def)
    show ?thesis using processData_ok [OF demo_rcv_inv demo_unit n, of demo_env demo_class] st a s that by auto
  qed
  let ?U = "V\<lparr>u_rcv := (u_rcv V)\<lparr>v_pRcvTimeWindow := CPktTimeWindow 0 16 64, v_pRcvBuffer := v_pRcvBuffer (u_rcv V)\<rparr>\<rparr>"
  have I: "rcv_inv (\<lambda>_. [42]) 1 1 {} [] Q (u_rcv ?U)"
    using V rcv_invD(13,14) [OF V(1)] rcv_inv_cong [of "u_rcv V" "u_rcv ?U"] by (simp add: same_rcv_def CPktTimeWindow_def)
  have W: "2 \<le> rb_iSize (v_pRcvBuffer (u_rcv ?U))" using rcv_invD(7) [OF I] by simp
  have b: "getBandwidth (e_ceil_quot demo_env) (v_pRcvTimeWindow (u_rcv ?U)) \<noteq> None" using demo_bandwidth by simp
  have x: "next_missing 1 {} = 2" by (simp add: next_missing_def)
  have c: "wrap 2 \<noteq> 1" "seqcmp (wrap 2) 1 > 0" using seqcmp_wrap [of 2 1] by (simp_all add: near_def wrap_small)
  obtain U' es where R: "send_ack demo_env 0 ?U = Some U'" "rcv_inv (\<lambda>_. [42]) 2 1 {} [[42]] Q (u_rcv U')"
      "u_events U' = u_events ?U @ es" "\<forall>p. SendTo p \<in> set es \<longrightarrow> acknowledges (rb_iSize (v_pRcvBuffer (u_rcv ?U))) 2 p" "\<exists>p. SendTo p \<in> set es"
    using receiver_acks [OF I W b, of 0] V(2) c unfolding x by fastforce
  obtain p where "SendTo p \<in> set es" using R(5) by blast
  then have "SendTo p \<in> set (u_events U') \<and> acknowledges (rb_iSize (v_pRcvBuffer (u_rcv ?U))) 2 p" using R(3,4) by simp
  then show ?thesis using I R(1,2) by blast
qed

end
