(* ===== verification/UdtCCDefault.thy ===== *)
theory UdtCCDefault
  imports UdtCC UdtConnect
begin

section \<open>UDT: the default congestion control\<close>

text \<open>
  \<open>CUDTCC\<close> of \<open>udt4/src/ccc.cpp\<close>: it adds fields to the base class and implements five of its methods. \<open>rnd seed\<close>
  is the first \<open>rand()\<close> after \<open>srand(seed)\<close>. Arithmetic on \<open>double\<close> is that of the reals.
\<close>

record udtcc = ccc +
  cu_iRCInterval :: int
  cu_LastRCTime :: u64
  cu_bSlowStart :: bool
  cu_iLastAck :: int
  cu_bLoss :: bool
  cu_iLastDecSeq :: int
  cu_dLastDecPeriod :: real
  cu_iNAKCount :: int
  cu_iDecRandom :: int
  cu_iAvgNAKNum :: int
  cu_iDecCount :: int

definition CUDTCC :: udtcc where
  "CUDTCC = ccc.extend CCC (udtcc.fields 0 0 False 0 False 0 0 0 0 0 0)"

definition cudtcc_init :: "u64 \<Rightarrow> udtcc \<Rightarrow> udtcc" where
  "cudtcc_init now C =
     (let C = C\<lparr>cu_iRCInterval := cc_iSYNInterval C, cu_LastRCTime := now\<rparr>;
          C = setACKTimer (cu_iRCInterval C) C;
          C = C\<lparr>cu_bSlowStart := True, cu_iLastAck := cc_iSndCurrSeqNo C, cu_bLoss := False\<rparr>;
          C = C\<lparr>cu_iLastDecSeq := UdtSeqNo.decseq (cu_iLastAck C), cu_dLastDecPeriod := 1, cu_iAvgNAKNum := 0, cu_iNAKCount := 0, cu_iDecRandom := 1\<rparr>
      in C\<lparr>cc_dCWndSize := 16, cc_dPktSndPeriod := 1\<rparr>)"

text \<open>The end of the slow start.\<close>

definition start_period :: "udtcc \<Rightarrow> udtcc" where
  "start_period C = C\<lparr>cc_dPktSndPeriod :=
     (if cc_iRcvRate C > 0 then 1000000 / of_int (cc_iRcvRate C) else cc_dCWndSize C / of_int (i32 (cc_iRTT C + cu_iRCInterval C)))\<rparr>"

definition slow_start :: "int \<Rightarrow> udtcc \<Rightarrow> udtcc" where
  "slow_start ack C =
     (let C = C\<lparr>cc_dCWndSize := cc_dCWndSize C + of_int (seqlen (cu_iLastAck C) ack)\<rparr>;
          C = C\<lparr>cu_iLastAck := ack\<rparr>
      in if cc_dCWndSize C > cc_dMaxCWndSize C then start_period (C\<lparr>cu_bSlowStart := False\<rparr>) else C)"

text \<open>The increase: the spare bandwidth \<open>B\<close>, and what it adds to the rate.\<close>

definition spare_bandwidth :: "udtcc \<Rightarrow> int" where
  "spare_bandwidth C =
     (let B = int_of_real (of_int (cc_iBandwidth C) - 1000000 / cc_dPktSndPeriod C)
      in if cc_dPktSndPeriod C > cu_dLastDecPeriod C \<and> cdiv (cc_iBandwidth C) 9 < B then cdiv (cc_iBandwidth C) 9 else B)"

definition rate_increase :: "int \<Rightarrow> int \<Rightarrow> real" where
  "rate_increase B mss =
     (if B \<le> 0 then 1 / of_int mss
      else (let inc = 10 powr of_int \<lceil>log 10 (of_int B * of_int mss * 8)\<rceil> * 0.0000015 / of_int mss
            in if inc < 1 / of_int mss then 1 / of_int mss else inc))"

definition int64_of_bytes :: "u8 list \<Rightarrow> int" where
  "int64_of_bytes bs = sint (word_of_int (horner_sum uint 256 (take 8 bs)) :: u64)"

definition rate_limit :: "udtcc \<Rightarrow> udtcc" where
  "rate_limit C =
     (case cc_pcParam C of None \<Rightarrow> C
      | Some p \<Rightarrow>
          if cc_iPSize C = 8 then
            (let maxSR = int64_of_bytes p in
             if maxSR \<le> 0 then C
             else (let minSP = 1000000 / (of_int maxSR / of_int (cc_iMSS C))
                   in if cc_dPktSndPeriod C < minSP then C\<lparr>cc_dPktSndPeriod := minSP\<rparr> else C))
          else C)"

definition increase_rate :: "udtcc \<Rightarrow> udtcc" where
  "increase_rate C =
     (let inc = rate_increase (spare_bandwidth C) (cc_iMSS C); rc = of_int (cu_iRCInterval C)
      in C\<lparr>cc_dPktSndPeriod := (cc_dPktSndPeriod C * rc) / (cc_dPktSndPeriod C * inc + rc)\<rparr>)"

definition cudtcc_onACK :: "u64 \<Rightarrow> int \<Rightarrow> udtcc \<Rightarrow> udtcc" where
  "cudtcc_onACK currtime ack C =
     (if currtime - cu_LastRCTime C < word_of_int (cu_iRCInterval C) then C
      else
        (let C = C\<lparr>cu_LastRCTime := currtime\<rparr>;
             C = (if cu_bSlowStart C then slow_start ack C
                  else C\<lparr>cc_dCWndSize := of_int (cc_iRcvRate C) / 1000000 * of_int (i32 (cc_iRTT C + cu_iRCInterval C)) + 16\<rparr>)
         in if cu_bSlowStart C then rate_limit C
            else if cu_bLoss C then rate_limit (C\<lparr>cu_bLoss := False\<rparr>)
            else rate_limit (increase_rate C)))"

text \<open>The first value of a report; that of an empty one is left over from an earlier packet, and taken as 0.\<close>

definition first_lost :: "int list \<Rightarrow> int" where
  "first_lost losslist = take_bit 31 (case losslist of [] \<Rightarrow> 0 | x # _ \<Rightarrow> x)"

definition new_period :: "(int \<Rightarrow> int) \<Rightarrow> udtcc \<Rightarrow> udtcc" where
  "new_period rnd C =
     (let C = C\<lparr>cu_dLastDecPeriod := cc_dPktSndPeriod C\<rparr>;
          C = C\<lparr>cc_dPktSndPeriod := of_int \<lceil>cc_dPktSndPeriod C * 1.125\<rceil>\<rparr>;
          C = C\<lparr>cu_iAvgNAKNum := \<lceil>of_int (cu_iAvgNAKNum C) * (0.875 :: real) + of_int (cu_iNAKCount C) * 0.125\<rceil>\<rparr>;
          C = C\<lparr>cu_iNAKCount := 1, cu_iDecCount := 1, cu_iLastDecSeq := cc_iSndCurrSeqNo C\<rparr>;
          r = \<lceil>of_int (cu_iAvgNAKNum C) * (of_int (rnd (cu_iLastDecSeq C)) / (2147483647 :: real))\<rceil>
      in C\<lparr>cu_iDecRandom := (if r < 1 then 1 else r)\<rparr>)"

text \<open>Within a period of congestion the rate is decreased five times at most.\<close>

definition same_period :: "udtcc \<Rightarrow> udtcc" where
  "same_period C =
     (let few = cu_iDecCount C < 5; C = C\<lparr>cu_iDecCount := cu_iDecCount C + 1\<rparr>
      in if \<not> few then C
         else (let C = C\<lparr>cu_iNAKCount := cu_iNAKCount C + 1\<rparr>
               in if cmod (cu_iNAKCount C) (cu_iDecRandom C) = 0
                  then C\<lparr>cc_dPktSndPeriod := of_int \<lceil>cc_dPktSndPeriod C * 1.125\<rceil>, cu_iLastDecSeq := cc_iSndCurrSeqNo C\<rparr>
                  else C))"

definition cudtcc_onLoss :: "(int \<Rightarrow> int) \<Rightarrow> u64 \<Rightarrow> int list \<Rightarrow> int \<Rightarrow> udtcc \<Rightarrow> udtcc" where
  "cudtcc_onLoss rnd now losslist n C =
     (let C = (if cu_bSlowStart C then start_period (C\<lparr>cu_bSlowStart := False\<rparr>) else C);
          C = C\<lparr>cu_bLoss := True\<rparr>
      in if seqcmp (first_lost losslist) (cu_iLastDecSeq C) > 0 then new_period rnd C else same_period C)"

definition cudtcc_onTimeout :: "u64 \<Rightarrow> udtcc \<Rightarrow> udtcc" where
  "cudtcc_onTimeout now C = (if cu_bSlowStart C then start_period (C\<lparr>cu_bSlowStart := False\<rparr>) else C)"

definition CUDTCC_class :: "(int \<Rightarrow> int) \<Rightarrow> udtcc cc_class" where
  "CUDTCC_class rnd = \<lparr>cv_init = cudtcc_init, cv_onACK = cudtcc_onACK, cv_onLoss = cudtcc_onLoss rnd, cv_onTimeout = cudtcc_onTimeout,
     cv_onPktSent = (\<lambda>_ _ C. C), cv_onPktReceived = (\<lambda>_ _ C. C), cv_processCustomMsg = (\<lambda>_ _ C. C)\<rparr>"

subsection \<open>The period stays positive\<close>

text \<open>The fields that the formulas divide by, and the window, are positive.\<close>

definition cc_ok :: "udtcc \<Rightarrow> bool" where
  "cc_ok C \<longleftrightarrow> cc_dPktSndPeriod C > 0 \<and> cc_dCWndSize C \<ge> 16 \<and> cc_iMSS C > 0 \<and> cu_iRCInterval C > 0 \<and> cc_iRTT C \<ge> 0 \<and>
     cc_iRTT C + cu_iRCInterval C < 2147483648 \<and> cc_iRcvRate C \<ge> 0 \<and> cu_iDecRandom C \<ge> 1"

lemma cc_ok_start: "cc_ok C \<Longrightarrow> cc_ok (start_period C)"
  by (auto simp: cc_ok_def start_period_def intro: divide_pos_pos)

lemma cc_ok_limit: "cc_ok C \<Longrightarrow> cc_ok (rate_limit C)"
  by (auto simp: cc_ok_def rate_limit_def Let_def split: option.splits)

lemma rate_increase_pos: "mss > 0 \<Longrightarrow> rate_increase B mss > 0"
  using divide_pos_pos [of 1 "real_of_int mss"] by (force simp: rate_increase_def Let_def)

lemma cc_ok_increase:
  assumes "cc_ok C"
  shows "cc_ok (increase_rate C) \<and> cc_dPktSndPeriod (increase_rate C) < cc_dPktSndPeriod C"
proof -
  let ?p = "cc_dPktSndPeriod C" and ?rc = "real_of_int (cu_iRCInterval C)" and ?i = "rate_increase (spare_bandwidth C) (cc_iMSS C)"
  have p: "0 < ?p" "0 < ?rc" "0 < ?i" using assms rate_increase_pos by (simp_all add: cc_ok_def)
  then have pos: "0 < ?p * ?i" "0 < ?p * ?i + ?rc" by (simp_all add: add_pos_pos)
  have "?p * ?rc < ?p * (?p * ?i + ?rc)" using p pos by (intro mult_strict_left_mono) linarith+
  then have "?p * ?rc / (?p * ?i + ?rc) < ?p" using pos(2) by (simp add: divide_less_eq)
  moreover have "0 < ?p * ?rc / (?p * ?i + ?rc)" using p pos by simp
  ultimately show ?thesis using assms by (simp add: increase_rate_def cc_ok_def Let_def)
qed

lemma seqlen_nonneg:
  assumes "0 \<le> x" "x \<le> m_iMaxSeqNo" "0 \<le> y" "y \<le> m_iMaxSeqNo"
  shows "0 \<le> seqlen x y"
  using assms by (simp add: seqlen_def)

lemma cc_ok_slow:
  assumes "cc_ok C" "0 \<le> seqlen (cu_iLastAck C) ack"
  shows "cc_ok (slow_start ack C)"
proof -
  let ?C = "C\<lparr>cc_dCWndSize := cc_dCWndSize C + of_int (seqlen (cu_iLastAck C) ack), cu_iLastAck := ack\<rparr>"
  have "cc_ok ?C" using assms by (simp add: cc_ok_def)
  moreover from this have "cc_ok (?C\<lparr>cu_bSlowStart := False\<rparr>)" by (simp add: cc_ok_def)
  ultimately show ?thesis using cc_ok_start by (simp add: slow_start_def Let_def)
qed

lemma cc_ok_onACK:
  assumes "cc_ok C" "0 \<le> seqlen (cu_iLastAck C) ack"
  shows "cc_ok (cudtcc_onACK now ack C)"
proof -
  obtain D where D: "D = (let C = C\<lparr>cu_LastRCTime := now\<rparr> in if cu_bSlowStart C then slow_start ack C
                  else C\<lparr>cc_dCWndSize := of_int (cc_iRcvRate C) / 1000000 * of_int (i32 (cc_iRTT C + cu_iRCInterval C)) + 16\<rparr>)" by blast
  have t: "cc_ok (C\<lparr>cu_LastRCTime := now\<rparr>)" using assms(1) by (simp add: cc_ok_def)
  have "cc_ok D" using assms cc_ok_slow [OF t] by (auto simp: D Let_def cc_ok_def)
  then have "cc_ok (rate_limit D)" "cc_ok (rate_limit (D\<lparr>cu_bLoss := False\<rparr>))" "cc_ok (rate_limit (increase_rate D))"
    using cc_ok_limit cc_ok_increase by (auto simp: cc_ok_def intro!: cc_ok_limit)
  then show ?thesis using assms(1) by (simp add: cudtcc_onACK_def D Let_def)
qed

lemma cc_ok_onLoss:
  assumes "cc_ok C"
  shows "cc_ok (cudtcc_onLoss rnd now losslist n C)"
proof -
  have f: "cc_ok (C\<lparr>cu_bSlowStart := False\<rparr>)" using assms by (simp add: cc_ok_def)
  obtain D where D: "D = (let C = (if cu_bSlowStart C then start_period (C\<lparr>cu_bSlowStart := False\<rparr>) else C) in C\<lparr>cu_bLoss := True\<rparr>)" by blast
  have "cc_ok D" using assms cc_ok_start [OF f] by (simp add: D cc_ok_def Let_def)
  then have "cc_ok (new_period rnd D)" "cc_ok (same_period D)" by (simp_all add: new_period_def same_period_def cc_ok_def Let_def)
  moreover have "cudtcc_onLoss rnd now losslist n C = (if seqcmp (first_lost losslist) (cu_iLastDecSeq D) > 0 then new_period rnd D else same_period D)"
    by (simp add: cudtcc_onLoss_def D Let_def)
  ultimately show ?thesis by simp
qed

lemma cc_ok_onTimeout: "cc_ok C \<Longrightarrow> cc_ok (cudtcc_onTimeout now C)"
  using cc_ok_start [of "C\<lparr>cu_bSlowStart := False\<rparr>"] by (simp add: cudtcc_onTimeout_def cc_ok_def)

lemma cc_ok_init: "cc_iMSS C > 0 \<Longrightarrow> cc_iSYNInterval C > 0 \<Longrightarrow> cc_iRTT C \<ge> 0 \<Longrightarrow> cc_iRTT C + cc_iSYNInterval C < 2147483648 \<Longrightarrow> cc_iRcvRate C \<ge> 0 \<Longrightarrow>
    cc_ok (cudtcc_init now C)"
  by (simp add: cudtcc_init_def setACKTimer_def cc_ok_def Let_def)

end
