(* ===== verification/UdtSocketProps.thy ===== *)
theory UdtSocketProps
  imports UdtCCDefault UdtDemo
begin

section \<open>UDT: properties of the congestion control and of the options\<close>

text \<open>
  What a connection tells its congestion control. Measurements are in range when they are not negative and the
  round-trip time can be added to the control interval: what the connection passes on comes from the peer and is not checked.
\<close>

datatype cc_event = Acked u64 int | Lost u64 "int list" int | TimedOut u64 | Measured int int int | Sent int

fun cc_event_ok :: "int \<Rightarrow> cc_event \<Rightarrow> bool" where
  "cc_event_ok syn (Acked now ack) \<longleftrightarrow> 0 \<le> ack \<and> ack \<le> m_iMaxSeqNo"
| "cc_event_ok syn (Measured rtt rate bw) \<longleftrightarrow> 0 \<le> rtt \<and> rtt + syn < 2 ^ 31 \<and> 0 \<le> rate"
| "cc_event_ok syn e \<longleftrightarrow> True"

fun cc_tell :: "(int \<Rightarrow> int) \<Rightarrow> cc_event \<Rightarrow> udtcc \<Rightarrow> udtcc" where
  "cc_tell rnd (Acked now ack) C = cv_onACK (CUDTCC_class rnd) now ack C"
| "cc_tell rnd (Lost now xs n) C = cv_onLoss (CUDTCC_class rnd) now xs n C"
| "cc_tell rnd (TimedOut now) C = cv_onTimeout (CUDTCC_class rnd) now C"
| "cc_tell rnd (Measured rtt rate bw) C = setBandwidth bw (setRcvRate rate (setRTT rtt C))"
| "cc_tell rnd (Sent n) C = setSndCurrSeqNo n C"

definition cc_inv :: "udtcc \<Rightarrow> bool" where
  "cc_inv C \<longleftrightarrow> cc_ok C \<and> 0 \<le> cu_iLastAck C \<and> cu_iLastAck C \<le> m_iMaxSeqNo"

lemma rate_limit_ack [simp]: "cu_iLastAck (rate_limit C) = cu_iLastAck C"
  by (simp add: rate_limit_def Let_def split: option.splits)

lemma start_period_ack [simp]: "cu_iLastAck (start_period C) = cu_iLastAck C"
  by (simp add: start_period_def)

lemma rate_limit_interval [simp]: "cu_iRCInterval (rate_limit C) = cu_iRCInterval C"
  by (simp add: rate_limit_def Let_def split: option.splits)

lemma start_period_interval [simp]: "cu_iRCInterval (start_period C) = cu_iRCInterval C"
  by (simp add: start_period_def)

lemma cc_inv_tell:
  assumes "cc_inv C" "cc_event_ok (cu_iRCInterval C) e"
  shows "cc_inv (cc_tell rnd e C) \<and> cu_iRCInterval (cc_tell rnd e C) = cu_iRCInterval C"
proof (cases e)
  case (Acked now ack)
  have "0 \<le> seqlen (cu_iLastAck C) ack" using assms Acked by (intro seqlen_nonneg) (simp_all add: cc_inv_def)
  then have "cc_ok (cudtcc_onACK now ack C)" using cc_ok_onACK assms(1) by (simp add: cc_inv_def)
  moreover have "cu_iLastAck (cudtcc_onACK now ack C) \<in> {cu_iLastAck C, ack}"
    by (simp add: cudtcc_onACK_def slow_start_def increase_rate_def Let_def)
  moreover have "cu_iRCInterval (cudtcc_onACK now ack C) = cu_iRCInterval C"
    by (simp add: cudtcc_onACK_def slow_start_def increase_rate_def Let_def)
  ultimately show ?thesis using assms Acked by (auto simp: cc_inv_def CUDTCC_class_def)
next
  case (Lost now xs n)
  then show ?thesis using assms(1) cc_ok_onLoss [of C rnd now xs n]
    by (simp add: cc_inv_def CUDTCC_class_def cudtcc_onLoss_def new_period_def same_period_def Let_def)
next
  case (TimedOut now)
  then show ?thesis using assms(1) cc_ok_onTimeout [of C now] by (simp add: cc_inv_def CUDTCC_class_def cudtcc_onTimeout_def)
next
  case (Measured rtt rate bw)
  then show ?thesis using assms by (simp add: cc_inv_def cc_ok_def setBandwidth_def setRcvRate_def setRTT_def)
next
  case (Sent n)
  then show ?thesis using assms by (simp add: cc_inv_def cc_ok_def setSndCurrSeqNo_def)
qed

lemma cc_inv_run: "cc_inv C \<Longrightarrow> \<forall>e \<in> set es. cc_event_ok (cu_iRCInterval C) e \<Longrightarrow>
    cc_inv (fold (cc_tell rnd) es C) \<and> cu_iRCInterval (fold (cc_tell rnd) es C) = cu_iRCInterval C"
proof (induction es arbitrary: C)
  case (Cons e es)
  then show ?case using cc_inv_tell [of C e rnd] by simp
qed simp

text \<open>
  C39: the default congestion control. As long as the round-trip times and rates it is told are in range (not negative, and the
  round-trip time plus the control interval an \<open>int\<close>), whatever acknowledgements, losses and timeouts it is told of after it was initialised, in
  whatever order, the sending period stays positive, the window is never below 16 packets, and nothing is divided by zero. Out
  of slow start, an acknowledgement after the control interval without a loss shortens the period (if no rate limit is set), and the first loss
  of a new congestion period lengthens it. The range matters: a round-trip time below the negated control interval, with no rate
  known yet, makes the period negative at the next timeout in slow start.
\<close>

theorem congestion_control:
  fixes rnd :: "int \<Rightarrow> int" and start :: u64
  assumes "cc_iMSS C > 0" "cc_iSYNInterval C > 0" "cc_iRTT C \<ge> 0" "cc_iRTT C + cc_iSYNInterval C < 2 ^ 31" "cc_iRcvRate C \<ge> 0" "0 \<le> cc_iSndCurrSeqNo C" "cc_iSndCurrSeqNo C \<le> m_iMaxSeqNo"
    and es: "\<forall>e \<in> set es. cc_event_ok (cc_iSYNInterval C) e"
  defines "D \<equiv> fold (cc_tell rnd) es (cv_init (CUDTCC_class rnd) start C)"
  shows "cc_dPktSndPeriod D > 0 \<and> cc_dCWndSize D \<ge> 16 \<and> cc_iMSS D > 0 \<and> cu_iRCInterval D > 0 \<and> cu_iDecRandom D \<ge> 1 \<and>
    (\<not> cu_bSlowStart D \<and> \<not> cu_bLoss D \<and> cc_pcParam D = None \<and> \<not> now - cu_LastRCTime D < word_of_int (cu_iRCInterval D) \<longrightarrow>
       cc_dPktSndPeriod (cc_tell rnd (Acked now ack) D) < cc_dPktSndPeriod D) \<and>
    (\<not> cu_bSlowStart D \<and> seqcmp (first_lost xs) (cu_iLastDecSeq D) > 0 \<longrightarrow>
       cc_dPktSndPeriod (cc_tell rnd (Lost now xs n) D) > cc_dPktSndPeriod D) \<and>
    (cu_bSlowStart D \<and> - (2 ^ 31) \<le> rtt + cu_iRCInterval D \<and> rtt + cu_iRCInterval D < 0 \<longrightarrow>
       cc_dPktSndPeriod (cc_tell rnd (TimedOut now) (cc_tell rnd (Measured rtt 0 bw) D)) < 0)"
proof -
  have "cc_inv (cudtcc_init start C)"
    using cc_ok_init [OF assms(1-3) _ assms(5)] assms(4,6,7) by (simp add: cc_inv_def) (simp add: cudtcc_init_def setACKTimer_def Let_def)
  moreover have "cu_iRCInterval (cudtcc_init start C) = cc_iSYNInterval C" by (simp add: cudtcc_init_def setACKTimer_def Let_def)
  ultimately have I: "cc_inv D" using cc_inv_run [of "cudtcc_init start C" es rnd] es unfolding D_def by (simp add: CUDTCC_class_def)
  have negative: "cc_dPktSndPeriod (cc_tell rnd (TimedOut now) (cc_tell rnd (Measured rtt 0 bw) D)) < 0"
    if "cu_bSlowStart D" "- (2 ^ 31) \<le> rtt + cu_iRCInterval D" "rtt + cu_iRCInterval D < 0"
    using that I by (simp add: CUDTCC_class_def cudtcc_onTimeout_def start_period_def setBandwidth_def setRcvRate_def setRTT_def cc_inv_def cc_ok_def
        divide_less_0_iff)
  have up: "cc_dPktSndPeriod (cc_tell rnd (Acked now ack) D) < cc_dPktSndPeriod D"
    if "\<not> cu_bSlowStart D" "\<not> cu_bLoss D" "cc_pcParam D = None" "\<not> now - cu_LastRCTime D < word_of_int (cu_iRCInterval D)"
  proof -
    let ?E = "D\<lparr>cu_LastRCTime := now, cc_dCWndSize := of_int (cc_iRcvRate D) / 1000000 * of_int (i32 (cc_iRTT D + cu_iRCInterval D)) + 16\<rparr>"
    have "cc_ok ?E" using I by (simp add: cc_inv_def cc_ok_def)
    then have "cc_dPktSndPeriod (increase_rate ?E) < cc_dPktSndPeriod D" using cc_ok_increase [of ?E] by simp
    moreover have "cc_tell rnd (Acked now ack) D = rate_limit (increase_rate ?E)" using that by (simp add: CUDTCC_class_def cudtcc_onACK_def Let_def)
    moreover have "rate_limit (increase_rate ?E) = increase_rate ?E" using that(3) by (simp add: rate_limit_def increase_rate_def Let_def)
    ultimately show ?thesis by simp
  qed
  have down: "cc_dPktSndPeriod (cc_tell rnd (Lost now xs n) D) > cc_dPktSndPeriod D"
    if "\<not> cu_bSlowStart D" "seqcmp (first_lost xs) (cu_iLastDecSeq D) > 0"
  proof -
    have "cc_dPktSndPeriod D > 0" using I by (simp add: cc_inv_def cc_ok_def)
    then have "cc_dPktSndPeriod D < cc_dPktSndPeriod D * 1.125" by simp
    also have "\<dots> \<le> of_int \<lceil>cc_dPktSndPeriod D * 1.125\<rceil>" by (rule le_of_int_ceiling)
    finally show ?thesis using that by (simp add: CUDTCC_class_def cudtcc_onLoss_def new_period_def Let_def)
  qed
  show ?thesis using I up down negative by (simp add: cc_inv_def cc_ok_def)
qed

lemma congestion_control_witness:
  "cc_dPktSndPeriod (fold (cc_tell (\<lambda>_. 0)) [Acked 20000 7, Lost 30000 [3] 1, TimedOut 40000] (cv_init (CUDTCC_class (\<lambda>_. 0)) 0 (CUDTCC\<lparr>cc_iMSS := 1500\<rparr>))) > 0"
  using congestion_control [of "CUDTCC\<lparr>cc_iMSS := 1500\<rparr>" "[Acked 20000 7, Lost 30000 [3] 1, TimedOut 40000]"]
  by (simp add: CUDTCC_def CCC_def ccc.defs udtcc.defs m_iSYNInterval_def)

subsection \<open>Options\<close>

text \<open>
  What every sequence of options keeps for a socket as it is created: the segment fits the UDP buffers, the flight window is at least
  32 packets. The receiver buffer is at least 32 packets if 32 packets of the largest segment size that was set, without headers,
  are an \<open>int\<close>: \<open>small_mss\<close> is that bound.
\<close>

definition opts_ok :: "'c cudt \<Rightarrow> bool" where
  "opts_ok U \<longleftrightarrow> 76 \<le> u_iMSS U \<and> u_iMSS U \<le> u_iUDPSndBufSize U \<and> u_iMSS U \<le> u_iUDPRcvBufSize U \<and> 32 \<le> u_iFlightFlagSize U"

fun small_mss :: "UDTOpt \<times> 'c optval \<Rightarrow> bool" where
  "small_mss (UDT_MSS, OInt v) \<longleftrightarrow> (v - 28) * 32 < 2 ^ 31"
| "small_mss u \<longleftrightarrow> True"

lemma cdiv_large: "0 < d \<Longrightarrow> d * 32 < v \<Longrightarrow> 32 \<le> cdiv v d"
proof -
  assume d: "0 < d" "d * 32 < v"
  then have "0 < v" by (smt (verit) mult_pos_pos)
  moreover have "32 \<le> v div d" using d zdiv_mono1 [of "d * 32" v d] by simp
  ultimately show ?thesis using d by (simp add: cdiv_def)
qed

lemmas set_option_defs = setOpt_def set_mss_def set_fc_def set_sndbuf_def set_rcvbuf_def set_udp_sndbuf_def set_udp_rcvbuf_def unless_connected_def
  opts_ok_def Let_def

lemma setOpt_keeps:
  assumes "opts_ok U" "setOpt name v U = Some (Inr U')"
  shows "opts_ok U'"
  using assms by (auto simp: set_option_defs hs_contentSize_def split: if_splits UDTOpt.splits optval.splits)

lemma setOpt_mss:
  assumes "small_mss (name, v)" "(u_iMSS U - 28) * 32 < 2 ^ 31" "setOpt name v U = Some (Inr U')"
  shows "(u_iMSS U' - 28) * 32 < 2 ^ 31"
  using assms by (auto simp: set_option_defs split: if_splits UDTOpt.splits optval.splits)

lemma setOpt_rcvbuf_32:
  assumes "opts_ok U" "32 \<le> u_iRcvBufSize U" "(u_iMSS U - 28) * 32 < 2 ^ 31" "setOpt name v U = Some (Inr U')"
  shows "32 \<le> u_iRcvBufSize U'"
proof -
  have "i32 ((u_iMSS U - 28) * 32) = (u_iMSS U - 28) * 32" using assms(1,3) by (simp add: opts_ok_def)
  then have "32 \<le> cdiv x (u_iMSS U - 28)" if "i32 ((u_iMSS U - 28) * 32) < x" for x
    using that cdiv_large [of "u_iMSS U - 28" x] assms(1) by (simp add: opts_ok_def)
  then show ?thesis using assms(1,2,4)
    by (auto simp: set_option_defs simp del: cdiv_pos left_diff_distrib_numeral split: if_splits UDTOpt.splits optval.splits)
qed

lemma setOpt_rcvbuf:
  assumes "u_iRcvBufSize U \<le> u_iFlightFlagSize U" "setOpt name v U = Some (Inr U')" "name \<noteq> UDT_FC" "opts_ok U"
  shows "u_iRcvBufSize U' \<le> u_iFlightFlagSize U'"
  using assms by (auto simp: set_option_defs split: if_splits UDTOpt.splits optval.splits)

text \<open>A call that fails changes nothing.\<close>

fun set_opts :: "(UDTOpt \<times> 'c optval) list \<Rightarrow> 'c cudt \<Rightarrow> 'c cudt" where
  "set_opts [] U = U"
| "set_opts ((name, v) # r) U = set_opts r (case setOpt name v U of Some (Inr U') \<Rightarrow> U' | _ \<Rightarrow> U)"

text \<open>So what each successful call keeps, a sequence of calls keeps.\<close>

lemma set_opts_induct:
  assumes "P U" "\<And>name v U U'. (name, v) \<in> set os \<Longrightarrow> P U \<Longrightarrow> setOpt name v U = Some (Inr U') \<Longrightarrow> P U'"
  shows "P (set_opts os U)"
  using assms
proof (induction os arbitrary: U)
  case (Cons o1 os)
  obtain name v where o: "o1 = (name, v)" by fastforce
  have "P (case setOpt name v U of Some (Inr U') \<Rightarrow> U' | _ \<Rightarrow> U)"
    using Cons.prems(1) Cons.prems(2) [of name v U] o by (auto split: option.splits sum.splits)
  moreover have "P U'" if "(name, v) \<in> set os" "P U" "setOpt name v U = Some (Inr U')" for name v U U'
    using Cons.prems(2) [of name v U U'] that by simp
  ultimately show ?case using Cons.IH by (simp add: o)
qed simp

lemma set_opts_keeps: "opts_ok U \<Longrightarrow> opts_ok (set_opts os U)"
  by (rule set_opts_induct) (auto intro: setOpt_keeps)

lemma set_opts_rcvbuf:
  assumes "opts_ok U" "u_iRcvBufSize U \<le> u_iFlightFlagSize U" "\<forall>u \<in> set os. fst u \<noteq> UDT_FC"
  shows "u_iRcvBufSize (set_opts os U) \<le> u_iFlightFlagSize (set_opts os U)"
  by (rule set_opts_induct [where P = "\<lambda>U. opts_ok U \<and> u_iRcvBufSize U \<le> u_iFlightFlagSize U", THEN conjunct2])
    (use assms setOpt_keeps setOpt_rcvbuf in force)+

lemma set_opts_rcvbuf_32:
  assumes "opts_ok U" "32 \<le> u_iRcvBufSize U" "(u_iMSS U - 28) * 32 < 2 ^ 31" "\<forall>u \<in> set os. small_mss u"
  shows "32 \<le> u_iRcvBufSize (set_opts os U)"
  by (rule set_opts_induct [where P = "\<lambda>U. (opts_ok U \<and> (u_iMSS U - 28) * 32 < 2 ^ 31) \<and> 32 \<le> u_iRcvBufSize U", THEN conjunct2])
    (use assms setOpt_keeps setOpt_mss setOpt_rcvbuf_32 in blast)+

text \<open>
  C40: the options of a socket. Whatever options are set on a new socket, with whatever values and in whatever order, the segment size
  stays between 76 and the sizes of the two UDP buffers and the flight window holds at least 32 packets; as long as
  the flight window is not set, the receiver buffer does not exceed it. The receiver buffer holds at least 32 packets if no segment size is set
  for which 32 segments without their headers exceed an \<open>int\<close>. Both conditions are needed: after \<open>UDT_FC\<close> the default receiver buffer is larger than
  the flight window, and with a segment size of 67108892 the check of \<open>UDT_RCVBUF\<close> overflows and a buffer of no packets is accepted.
  The segment size read back is the one that was set, cut to the UDP buffers.
\<close>

theorem socket_options:
  fixes U :: "'c cudt" and os :: "(UDTOpt \<times> 'c optval) list" and cc :: 'c
  defines "D \<equiv> set_opts os (CUDT cc U)"
    and "big \<equiv> [(UDP_SNDBUF, OInt 67108892), (UDP_RCVBUF, OInt 67108892), (UDT_MSS, OInt 67108892), (UDT_RCVBUF, OInt 1000)]"
  shows "76 \<le> u_iMSS D \<and> u_iMSS D \<le> u_iUDPSndBufSize D \<and> u_iMSS D \<le> u_iUDPRcvBufSize D \<and> 32 \<le> u_iFlightFlagSize D \<and>
    ((\<forall>u \<in> set os. small_mss u) \<longrightarrow> 32 \<le> u_iRcvBufSize D) \<and>
    ((\<forall>u \<in> set os. fst u \<noteq> UDT_FC) \<longrightarrow> u_iRcvBufSize D \<le> u_iFlightFlagSize D) \<and>
    u_iRcvBufSize (set_opts [(UDT_FC, OInt 32)] (CUDT cc U)) > u_iFlightFlagSize (set_opts [(UDT_FC, OInt 32)] (CUDT cc U)) \<and>
    u_iRcvBufSize (set_opts big (CUDT cc U)) = 0 \<and>
    (setOpt UDT_MSS (OInt m) D = Some (Inr D') \<longrightarrow>
       getOpt status UDT_MSS len D' = Inr (OInt (min (min m (u_iUDPSndBufSize D)) (u_iUDPRcvBufSize D)), 4))"
proof -
  have new: "opts_ok (CUDT cc U)" "u_iRcvBufSize (CUDT cc U) \<le> u_iFlightFlagSize (CUDT cc U)" "32 \<le> u_iRcvBufSize (CUDT cc U)"
    "(u_iMSS (CUDT cc U) - 28) * 32 < 2 ^ 31"
    by (simp_all add: opts_ok_def CUDT_def initial_status_def Let_def)
  have fc: "u_iRcvBufSize (set_opts [(UDT_FC, OInt 32)] (CUDT cc U)) > u_iFlightFlagSize (set_opts [(UDT_FC, OInt 32)] (CUDT cc U))"
    by (simp add: CUDT_def initial_status_def setOpt_def set_fc_def Let_def)
  have wraps: "i32 2147483648 = - 2147483648" by (simp add: i32_def)
  have over: "u_iRcvBufSize (set_opts big (CUDT cc U)) = 0"
    by (simp add: big_def CUDT_def initial_status_def setOpt_def set_udp_sndbuf_def set_udp_rcvbuf_def set_mss_def set_rcvbuf_def
        hs_contentSize_def wraps Let_def)
  have mss: "getOpt status UDT_MSS len D' = Inr (OInt (min (min m (u_iUDPSndBufSize D)) (u_iUDPRcvBufSize D)), 4)"
    if "setOpt UDT_MSS (OInt m) D = Some (Inr D')"
    using that by (auto simp: setOpt_def set_mss_def Let_def split: if_splits)
  show ?thesis
    using set_opts_keeps [OF new(1), of os] set_opts_rcvbuf [OF new(1,2), of os] set_opts_rcvbuf_32 [OF new(1,3,4), of os] fc over mss
    unfolding D_def [symmetric] opts_ok_def by blast
qed

lemma socket_options_witness:
  "u_iRcvBufSize (set_opts [(UDT_MSS, OInt 1500), (UDT_RCVBUF, OInt 300000000)] (CUDT CCC (demo_sock 3))) \<in>
     {32..u_iFlightFlagSize (set_opts [(UDT_MSS, OInt 1500), (UDT_RCVBUF, OInt 300000000)] (CUDT CCC (demo_sock 3)))}"
  using socket_options [of "[(UDT_MSS, OInt 1500), (UDT_RCVBUF, OInt 300000000)]" CCC "demo_sock 3"] by simp

end
