(* ===== verification/UdtIO.thy ===== *)
theory UdtIO
  imports UdtConnect UdtCoreData
begin

section \<open>UDT: sending and receiving\<close>

text \<open>
  \<open>CUDT::send\<close>, \<open>recv\<close>, \<open>sendmsg\<close>, \<open>recvmsg\<close>, \<open>sendfile\<close>, \<open>recvfile\<close> and \<open>sample\<close>
  (\<open>udt4/src/core.cpp\<close>). A call that waits has two parts, before and after; in between the other threads
  change the socket, which is a function \<open>others\<close>, or a list of them where the wait is in a loop. An exception does not undo
  what the call did to the socket. The POSIX branches are modelled.
\<close>

datatype 'r io = Done "'r ures" | Wait | Go

definition conn_error :: "'c cudt \<Rightarrow> uexn option" where
  "conn_error U =
     (if u_bBroken U \<or> u_bClosing U then Some (CUDTException 2 1)
      else if \<not> u_bConnected U then Some (CUDTException 2 2)
      else None)"

text \<open>The reading side goes on with a broken connection while there is data.\<close>

definition read_error :: "'c cudt \<Rightarrow> uexn option" where
  "read_error U =
     (if \<not> u_bConnected U then Some (CUDTException 2 2)
      else if (u_bBroken U \<or> u_bClosing U) \<and> getRcvDataSize (v_pRcvBuffer (u_rcv U)) = 0 then Some (CUDTException 2 1)
      else None)"

definition snd_full :: "'c cudt \<Rightarrow> bool" where
  "snd_full U \<longleftrightarrow> u_iSndBufSize U \<le> getCurrBufSize (s_pSndBuffer (u_snd U))"

text \<open>The timer starts again with the first data; the time of sending is counted from there.\<close>

definition delay_exp :: "env \<Rightarrow> 'c cudt \<Rightarrow> 'c cudt" where
  "delay_exp E U =
     (if getCurrBufSize (s_pSndBuffer (u_snd U)) = 0
      then (let (t, U) = rdtsc E U in on_timers (m_ullLastRspTime_update (\<lambda>_. t)) U) else U)"

definition start_duration :: "env \<Rightarrow> 'c cudt \<Rightarrow> 'c cudt" where
  "start_duration E U =
     (if getCurrBufSize (s_pSndBuffer (u_snd U)) = 0
      then (let (t, U) = getTime E U in on_trace (t_llSndDurationCounter_update (\<lambda>_. t)) U) else U)"

text \<open>Data goes into the sender's buffer.\<close>

definition submit :: "env \<Rightarrow> fresh_memory \<Rightarrow> u8 list \<Rightarrow> int \<Rightarrow> int \<Rightarrow> bool \<Rightarrow> 'c cudt \<Rightarrow> 'c cudt option" where
  "submit E F data siz ttl inorder U =
     do { let U = start_duration E U;
          let (now, U) = getTime E U;
          B \<leftarrow> addBuffer (fm_blocks F) (fm_bytes F) now data siz ttl inorder (s_pSndBuffer (u_snd U));
          let U = on_snd (s_pSndBuffer_update (\<lambda>_. B)) U;
          let U = emit (SndListUpdate False) U;
          Some (if snd_full U then emit (DisableWrite (u_SocketID U) (u_sPollID U)) U else U) }"

subsection \<open>Streams\<close>

definition send_begin :: "env \<Rightarrow> int \<Rightarrow> 'c cudt \<Rightarrow> int io \<times> 'c cudt" where
  "send_begin E len U =
     (if \<not> u_bStream U then (Done (Inl (CUDTException 5 10)), U)
      else case conn_error U of Some e \<Rightarrow> (Done (Inl e), U)
      | None \<Rightarrow>
          if len \<le> 0 then (Done (Inr 0), U)
          else (let U = delay_exp E U
                in if \<not> snd_full U then (Go, U)
                   else if \<not> u_bSynSending U then (Done (Inl (CUDTException 6 1)), U)
                   else (Wait, U)))"

text \<open>The condition of the waiting loop.\<close>

definition send_waits :: "'c cudt \<Rightarrow> bool" where
  "send_waits U \<longleftrightarrow> \<not> u_bBroken U \<and> u_bConnected U \<and> \<not> u_bClosing U \<and> snd_full U \<and> u_bPeerHealth U"

definition send_woken :: "'c cudt \<Rightarrow> int io \<times> 'c cudt" where
  "send_woken U =
     (case conn_error U of Some e \<Rightarrow> (Done (Inl e), U)
      | None \<Rightarrow> if \<not> u_bPeerHealth U then (Done (Inl (CUDTException 7 0)), U\<lparr>u_bPeerHealth := True\<rparr>) else (Go, U))"

definition send_end :: "env \<Rightarrow> fresh_memory \<Rightarrow> u8 list \<Rightarrow> int \<Rightarrow> 'c cudt \<Rightarrow> (int ures \<times> 'c cudt) option" where
  "send_end E F data len U =
     (if snd_full U then Some (if u_iSndTimeOut U \<ge> 0 then Inl (CUDTException 6 1) else Inr 0, U)
      else do {
        let siz = i32 ((u_iSndBufSize U - getCurrBufSize (s_pSndBuffer (u_snd U))) * u_iPayloadSize U);
        let siz = (if siz > len then len else siz);
        U \<leftarrow> submit E F data siz (-1) False U;
        Some (Inr siz, U) })"

definition send :: "env \<Rightarrow> fresh_memory \<Rightarrow> ('c cudt \<Rightarrow> 'c cudt) \<Rightarrow> u8 list \<Rightarrow> int \<Rightarrow> 'c cudt \<Rightarrow> (int ures \<times> 'c cudt) option" where
  "send E F others data len U =
     (let (r, U) = send_begin E len U;
          (r, U) = (if r = Wait then send_woken (others U) else (r, U))
      in case r of Done x \<Rightarrow> Some (x, U) | _ \<Rightarrow> send_end E F data len U)"

definition recv_begin :: "int \<Rightarrow> 'c cudt \<Rightarrow> (int \<times> u8 list) io" where
  "recv_begin len U =
     (if \<not> u_bStream U then Done (Inl (CUDTException 5 10))
      else case read_error U of Some e \<Rightarrow> Done (Inl e)
      | None \<Rightarrow>
          if len \<le> 0 then Done (Inr (0, []))
          else if getRcvDataSize (v_pRcvBuffer (u_rcv U)) = 0 then
            if \<not> u_bSynRecving U then Done (Inl (CUDTException 6 2)) else Wait
          else Go)"

definition recv_waits :: "'c cudt \<Rightarrow> bool" where
  "recv_waits U \<longleftrightarrow> \<not> u_bBroken U \<and> u_bConnected U \<and> \<not> u_bClosing U \<and> getRcvDataSize (v_pRcvBuffer (u_rcv U)) = 0"

text \<open>Nothing more to read.\<close>

definition read_over :: "bool \<Rightarrow> 'c cudt \<Rightarrow> 'c cudt" where
  "read_over none U = (if none then emit (DisableRead (u_SocketID U) (u_sPollID U)) U else U)"

definition recv_end :: "int \<Rightarrow> unit_queue \<Rightarrow> 'c cudt \<Rightarrow> ((int \<times> u8 list) ures \<times> unit_queue \<times> 'c cudt) option" where
  "recv_end len Q U =
     (case read_error U of Some e \<Rightarrow> Some (Inl e, Q, U)
      | None \<Rightarrow> do {
          (res, data, B, Q) \<leftarrow> readBuffer len (v_pRcvBuffer (u_rcv U)) Q;
          let U = on_rcv (v_pRcvBuffer_update (\<lambda>_. B)) U;
          let U = read_over (getRcvDataSize (v_pRcvBuffer (u_rcv U)) \<le> 0) U;
          Some (if res \<le> 0 \<and> u_iRcvTimeOut U \<ge> 0 then Inl (CUDTException 6 2) else Inr (res, data), Q, U) })"

definition recv :: "(unit_queue \<times> 'c cudt \<Rightarrow> unit_queue \<times> 'c cudt) \<Rightarrow> int \<Rightarrow> unit_queue \<Rightarrow> 'c cudt \<Rightarrow> ((int \<times> u8 list) ures \<times> unit_queue \<times> 'c cudt) option" where
  "recv others len Q U =
     (case recv_begin len U of Done x \<Rightarrow> Some (x, Q, U)
      | Wait \<Rightarrow> (let (Q, U) = others (Q, U) in recv_end len Q U)
      | Go \<Rightarrow> recv_end len Q U)"

subsection \<open>Messages\<close>

text \<open>No room for a message of \<open>len\<close> bytes.\<close>

definition msg_full :: "int \<Rightarrow> 'c cudt \<Rightarrow> bool" where
  "msg_full len U \<longleftrightarrow> i32 ((u_iSndBufSize U - getCurrBufSize (s_pSndBuffer (u_snd U))) * u_iPayloadSize U) < len"

definition sendmsg_begin :: "env \<Rightarrow> int \<Rightarrow> 'c cudt \<Rightarrow> int io \<times> 'c cudt" where
  "sendmsg_begin E len U =
     (if u_bStream U then (Done (Inl (CUDTException 5 9)), U)
      else case conn_error U of Some e \<Rightarrow> (Done (Inl e), U)
      | None \<Rightarrow>
          if len \<le> 0 then (Done (Inr 0), U)
          else if len > i32 (u_iSndBufSize U * u_iPayloadSize U) then (Done (Inl (CUDTException 5 12)), U)
          else (let U = delay_exp E U
                in if \<not> msg_full len U then (Go, U)
                   else if \<not> u_bSynSending U then (Done (Inl (CUDTException 6 1)), U)
                   else (Wait, U)))"

definition sendmsg_waits :: "int \<Rightarrow> 'c cudt \<Rightarrow> bool" where
  "sendmsg_waits len U \<longleftrightarrow> \<not> u_bBroken U \<and> u_bConnected U \<and> \<not> u_bClosing U \<and> msg_full len U"

definition sendmsg_end :: "env \<Rightarrow> fresh_memory \<Rightarrow> u8 list \<Rightarrow> int \<Rightarrow> int \<Rightarrow> bool \<Rightarrow> 'c cudt \<Rightarrow> (int ures \<times> 'c cudt) option" where
  "sendmsg_end E F data len msttl inorder U =
     (if msg_full len U then Some (if u_iSndTimeOut U \<ge> 0 then Inl (CUDTException 6 1) else Inr 0, U)
      else do { U \<leftarrow> submit E F data len msttl inorder U; Some (Inr len, U) })"

definition sendmsg :: "env \<Rightarrow> fresh_memory \<Rightarrow> ('c cudt \<Rightarrow> 'c cudt) \<Rightarrow> u8 list \<Rightarrow> int \<Rightarrow> int \<Rightarrow> bool \<Rightarrow> 'c cudt \<Rightarrow> (int ures \<times> 'c cudt) option" where
  "sendmsg E F others data len msttl inorder U =
     (case sendmsg_begin E len U of
        (Done x, U) \<Rightarrow> Some (x, U)
      | (Go, U) \<Rightarrow> sendmsg_end E F data len msttl inorder U
      | (Wait, U) \<Rightarrow>
          (let U = others U
           in case conn_error U of Some e \<Rightarrow> Some (Inl e, U) | None \<Rightarrow> sendmsg_end E F data len msttl inorder U))"

definition read_msg :: "int \<Rightarrow> unit_queue \<Rightarrow> 'c cudt \<Rightarrow> (int \<times> u8 list \<times> unit_queue \<times> 'c cudt) option" where
  "read_msg len Q U =
     do { (res, data, B, Q) \<leftarrow> readMsg len (v_pRcvBuffer (u_rcv U)) Q;
          Some (res, data, Q, on_rcv (v_pRcvBuffer_update (\<lambda>_. B)) U) }"

definition read_over_msg :: "unit_queue \<Rightarrow> 'c cudt \<Rightarrow> (unit_queue \<times> 'c cudt) option" where
  "read_over_msg Q U =
     do { (n, B, Q) \<leftarrow> getRcvMsgNum (v_pRcvBuffer (u_rcv U)) Q;
          Some (Q, read_over (n \<le> 0) (on_rcv (v_pRcvBuffer_update (\<lambda>_. B)) U)) }"

text \<open>
  The waiting loop: a turn is what happens during a wait and whether the wait timed out; without a limit the message is
  looked for before the wait, with a limit only after it.
\<close>

fun recvmsg_loop :: "int \<Rightarrow> ((unit_queue \<times> 'c cudt \<Rightarrow> unit_queue \<times> 'c cudt) \<times> bool) list \<Rightarrow> unit_queue \<Rightarrow> 'c cudt \<Rightarrow>
    ((int \<times> u8 list) ures \<times> unit_queue \<times> 'c cudt) option" where
  "recvmsg_loop len turns Q U =
     (if u_iRcvTimeOut U < 0 then
        case conn_error U of Some e \<Rightarrow> Some (Inl e, Q, U)
        | None \<Rightarrow> do {
            (res, data, Q, U) \<leftarrow> read_msg len Q U;
            if res \<noteq> 0 then Some (Inr (res, data), Q, U)
            else (case turns of [] \<Rightarrow> None | (others, _) # r \<Rightarrow> let (Q, U) = others (Q, U) in recvmsg_loop len r Q U) }
      else
        (case turns of [] \<Rightarrow> None
         | (others, timeout) # r \<Rightarrow>
             let (Q, U) = others (Q, U)
             in do {
               (res, data, Q, U) \<leftarrow> read_msg len Q U;
               case conn_error U of Some e \<Rightarrow> Some (Inl e, Q, U)
               | None \<Rightarrow> if res = 0 \<and> \<not> timeout then recvmsg_loop len r Q U else Some (Inr (res, data), Q, U) }))"

declare recvmsg_loop.simps [simp del]

definition recvmsg :: "((unit_queue \<times> 'c cudt \<Rightarrow> unit_queue \<times> 'c cudt) \<times> bool) list \<Rightarrow> int \<Rightarrow> unit_queue \<Rightarrow> 'c cudt \<Rightarrow>
    ((int \<times> u8 list) ures \<times> unit_queue \<times> 'c cudt) option" where
  "recvmsg turns len Q U =
     (if u_bStream U then Some (Inl (CUDTException 5 9), Q, U)
      else if \<not> u_bConnected U then Some (Inl (CUDTException 2 2), Q, U)
      else if len \<le> 0 then Some (Inr (0, []), Q, U)
      else if u_bBroken U \<or> u_bClosing U then do {
        (res, data, Q, U) \<leftarrow> read_msg len Q U;
        (Q, U) \<leftarrow> read_over_msg Q U;
        Some (if res = 0 then Inl (CUDTException 2 1) else Inr (res, data), Q, U) }
      else if \<not> u_bSynRecving U then do {
        (res, data, Q, U) \<leftarrow> read_msg len Q U;
        Some (if res = 0 then Inl (CUDTException 6 2) else Inr (res, data), Q, U) }
      else do {
        (r, Q, U) \<leftarrow> recvmsg_loop len turns Q U;
        case r of Inl e \<Rightarrow> Some (Inl e, Q, U)
        | Inr (res, data) \<Rightarrow> do {
            (Q, U) \<leftarrow> read_over_msg Q U;
            Some (if res \<le> 0 \<and> u_iRcvTimeOut U \<ge> 0 then Inl (CUDTException 6 2) else Inr (res, data), Q, U) } })"

subsection \<open>Files\<close>

text \<open>
  The file has the bytes \<open>content\<close>; a read over the end of the file sets its fail and its end bit together, so that
  the test of the end bit alone never holds. The streams do not throw. The loop takes a function for each turn: what happens while it
  waits.
\<close>

definition seekg :: "u8 list \<Rightarrow> int \<Rightarrow> fstream \<Rightarrow> fstream" where
  "seekg content offset f = (if f_fail f then f else if offset < 0 then f\<lparr>f_fail := True\<rparr> else f\<lparr>f_rest := drop (nat offset) content\<rparr>)"

fun sendfile_loop :: "env \<Rightarrow> fresh_memory \<Rightarrow> int \<Rightarrow> ('c cudt \<Rightarrow> 'c cudt) list \<Rightarrow> int \<Rightarrow> fstream \<Rightarrow> int \<Rightarrow> 'c cudt \<Rightarrow>
    (int ures \<times> fstream \<times> int \<times> 'c cudt) option" where
  "sendfile_loop E F blk turns tosend ifs offset U =
     (if tosend > 0 then
        if f_fail ifs then Some (Inl (CUDTException 4 4), ifs, offset, U)
        else (case turns of [] \<Rightarrow> None
          | others # r \<Rightarrow>
              let unitsize = (if tosend \<ge> blk then blk else tosend); U = others U
              in case send_woken U of
                (Done (Inl e), U) \<Rightarrow> Some (Inl e, ifs, offset, U)
              | (_, U) \<Rightarrow> do {
                  let U = start_duration E U;
                  (sent, ifs, B) \<leftarrow> addBufferFromFile (fm_blocks F) (fm_bytes F) ifs unitsize (s_pSndBuffer (u_snd U));
                  let U = on_snd (s_pSndBuffer_update (\<lambda>_. B)) U;
                  let (tosend, offset) = (if sent > 0 then (tosend - sent, offset + sent) else (tosend, offset));
                  sendfile_loop E F blk r tosend ifs offset (emit (SndListUpdate False) U) })
      else Some (Inr tosend, ifs, offset, U))"

declare sendfile_loop.simps [simp del]

definition sendfile :: "env \<Rightarrow> fresh_memory \<Rightarrow> ('c cudt \<Rightarrow> 'c cudt) list \<Rightarrow> u8 list \<Rightarrow> fstream \<Rightarrow> int \<Rightarrow> int \<Rightarrow> int \<Rightarrow> 'c cudt \<Rightarrow>
    (int ures \<times> fstream \<times> int \<times> 'c cudt) option" where
  "sendfile E F turns content ifs offset siz blk U =
     (if \<not> u_bStream U then Some (Inl (CUDTException 5 10), ifs, offset, U)
      else case conn_error U of Some e \<Rightarrow> Some (Inl e, ifs, offset, U)
      | None \<Rightarrow>
          if siz \<le> 0 then Some (Inr 0, ifs, offset, U)
          else do {
            (r, ifs, offset, U) \<leftarrow> sendfile_loop E F blk turns siz (seekg content offset ifs) offset (delay_exp E U);
            case r of Inl e \<Rightarrow> Some (Inl e, ifs, offset, U)
            | Inr tosend \<Rightarrow>
                Some (Inr (siz - tosend), ifs, offset, if snd_full U then emit (DisableWrite (u_SocketID U) (u_sPollID U)) U else U) })"

text \<open>A turn of \<open>recvfile\<close>: whether the file has failed, what happens while it waits, and the writes that fail.\<close>

type_synonym 'c file_turn = "bool \<times> (unit_queue \<times> 'c cudt \<Rightarrow> unit_queue \<times> 'c cudt) \<times> (nat \<Rightarrow> bool)"

fun recvfile_loop :: "env \<Rightarrow> int \<Rightarrow> 'c file_turn list \<Rightarrow> int \<Rightarrow> u8 list \<Rightarrow> int \<Rightarrow> unit_queue \<Rightarrow> 'c cudt \<Rightarrow>
    (int ures \<times> u8 list \<times> int \<times> unit_queue \<times> 'c cudt) option" where
  "recvfile_loop E blk turns torecv out offset Q U =
     (if torecv > 0 then
        (case turns of [] \<Rightarrow> None
         | (failed, others, wfail) # r \<Rightarrow>
             if failed then do { U \<leftarrow> sendCtrl E 8 (Some EFILE) None 0 U; Some (Inl (CUDTException 4 4), out, offset, Q, U) }
             else (let (Q, U) = others (Q, U)
               in case read_error U of Some e \<Rightarrow> Some (Inl e, out, offset, Q, U)
               | None \<Rightarrow> do {
                   (n, bs, B, Q) \<leftarrow> readBufferToFile wfail (if torecv \<ge> blk then blk else torecv) (v_pRcvBuffer (u_rcv U)) Q;
                   let U = on_rcv (v_pRcvBuffer_update (\<lambda>_. B)) U;
                   let (torecv, offset) = (if n > 0 then (torecv - n, offset + n) else (torecv, offset));
                   recvfile_loop E blk r torecv (out @ bs) offset Q U }))
      else Some (Inr torecv, out, offset, Q, U))"

declare recvfile_loop.simps [simp del]

definition recvfile :: "env \<Rightarrow> 'c file_turn list \<Rightarrow> int \<Rightarrow> int \<Rightarrow> int \<Rightarrow> unit_queue \<Rightarrow> 'c cudt \<Rightarrow>
    (int ures \<times> u8 list \<times> int \<times> unit_queue \<times> 'c cudt) option" where
  "recvfile E turns offset siz blk Q U =
     (if \<not> u_bStream U then Some (Inl (CUDTException 5 10), [], offset, Q, U)
      else case read_error U of Some e \<Rightarrow> Some (Inl e, [], offset, Q, U)
      | None \<Rightarrow>
          if siz \<le> 0 then Some (Inr 0, [], offset, Q, U)
          else do {
            (r, out, offset, Q, U) \<leftarrow> recvfile_loop E blk turns siz [] offset Q U;
            case r of Inl e \<Rightarrow> Some (Inl e, out, offset, Q, U)
            | Inr torecv \<Rightarrow> Some (Inr (siz - torecv), out, offset, Q, read_over (getRcvDataSize (v_pRcvBuffer (u_rcv U)) \<le> 0) U) })"


subsection \<open>Statistics\<close>

text \<open>The rates of an empty interval are infinite or undefined: \<open>None\<close>. \<open>free\<close>: the connection lock could be taken.\<close>

record cperf_mon =
  pm_msTimeStamp :: u64
  pm_pktSentTotal :: int
  pm_pktRecvTotal :: int
  pm_pktSndLossTotal :: int
  pm_pktRcvLossTotal :: int
  pm_pktRetransTotal :: int
  pm_pktSentACKTotal :: int
  pm_pktRecvACKTotal :: int
  pm_pktSentNAKTotal :: int
  pm_pktRecvNAKTotal :: int
  pm_usSndDurationTotal :: u64
  pm_pktSent :: int
  pm_pktRecv :: int
  pm_pktSndLoss :: int
  pm_pktRcvLoss :: int
  pm_pktRetrans :: int
  pm_pktSentACK :: int
  pm_pktRecvACK :: int
  pm_pktSentNAK :: int
  pm_pktRecvNAK :: int
  pm_mbpsSendRate :: "real option"
  pm_mbpsRecvRate :: "real option"
  pm_usSndDuration :: u64
  pm_usPktSndPeriod :: real
  pm_pktFlowWindow :: int
  pm_pktCongestionWindow :: int
  pm_pktFlightSize :: int
  pm_msRTT :: real
  pm_mbpsBandwidth :: real
  pm_byteAvailSndBuf :: int
  pm_byteAvailRcvBuf :: int

definition rate_of :: "int \<Rightarrow> int \<Rightarrow> u64 \<Rightarrow> real option" where
  "rate_of n payload interval = (if interval = 0 then None else Some (of_int n * of_int payload * 8 / of_int (uint interval)))"

definition perf_of :: "u64 \<Rightarrow> bool \<Rightarrow> 'c cudt \<Rightarrow> cperf_mon" where
  "perf_of now free U =
     (let t = u_trace U; interval = now - t_LastSampleTime t in
      \<lparr>pm_msTimeStamp = (now - t_StartTime t) div 1000,
       pm_pktSentTotal = t_llSentTotal t, pm_pktRecvTotal = t_llRecvTotal t, pm_pktSndLossTotal = t_iSndLossTotal t,
       pm_pktRcvLossTotal = t_iRcvLossTotal t, pm_pktRetransTotal = t_iRetransTotal t, pm_pktSentACKTotal = t_iSentACKTotal t,
       pm_pktRecvACKTotal = t_iRecvACKTotal t, pm_pktSentNAKTotal = t_iSentNAKTotal t, pm_pktRecvNAKTotal = t_iRecvNAKTotal t,
       pm_usSndDurationTotal = t_llSndDurationTotal t,
       pm_pktSent = t_llTraceSent t, pm_pktRecv = t_llTraceRecv t, pm_pktSndLoss = t_iTraceSndLoss t, pm_pktRcvLoss = t_iTraceRcvLoss t,
       pm_pktRetrans = t_iTraceRetrans t, pm_pktSentACK = t_iSentACK t, pm_pktRecvACK = t_iRecvACK t, pm_pktSentNAK = t_iSentNAK t,
       pm_pktRecvNAK = t_iRecvNAK t,
       pm_mbpsSendRate = rate_of (t_llTraceSent t) (u_iPayloadSize U) interval, pm_mbpsRecvRate = rate_of (t_llTraceRecv t) (u_iPayloadSize U) interval,
       pm_usSndDuration = t_llSndDuration t,
       pm_usPktSndPeriod = of_int (uint (s_ullInterval (u_snd U))) / of_int (uint (m_ullCPUFrequency (u_timers U))),
       pm_pktFlowWindow = s_iFlowWindowSize (u_snd U), pm_pktCongestionWindow = int_of_real (s_dCongestionWindow (u_snd U)),
       pm_pktFlightSize = seqlen (s_iSndLastAck (u_snd U)) (incseq (s_iSndCurrSeqNo (u_snd U))) - 1,
       pm_msRTT = of_int (u_iRTT U) / 1000, pm_mbpsBandwidth = of_int (i32 (u_iBandwidth U * u_iPayloadSize U)) * 8 / 1000000,
       pm_byteAvailSndBuf = (if free \<and> u_bAllocated U then i32 ((u_iSndBufSize U - getCurrBufSize (s_pSndBuffer (u_snd U))) * u_iMSS U) else 0),
       pm_byteAvailRcvBuf = (if free \<and> u_bAllocated U then i32 (getAvailBufSize (v_pRcvBuffer (u_rcv U)) * u_iMSS U) else 0)\<rparr>)"

definition sample :: "env \<Rightarrow> bool \<Rightarrow> bool \<Rightarrow> 'c cudt \<Rightarrow> (cperf_mon \<times> 'c cudt) ures" where
  "sample E free clr U =
     (if \<not> u_bConnected U then Inl (CUDTException 2 2)
      else if u_bBroken U \<or> u_bClosing U then Inl (CUDTException 2 1)
      else
        (let (now, U) = getTime E U
         in Inr (perf_of now free U,
              if clr then on_trace (\<lambda>t. (clear_sample t)\<lparr>t_llSndDuration := 0, t_LastSampleTime := now\<rparr>) U else U)))"

end
