(* ===== verification/UdtRcvRead.thy ===== *)
theory UdtRcvRead
  imports UdtReceiverAck UdtIO
begin

section \<open>UDT: the application reads\<close>

text \<open>Reading keeps the invariant of the receiver, and the units of its buffer stay its own.\<close>

lemma rb_takenD:
  assumes "rb_taken k p B Q B' Q'"
  shows "rb_iSize B' = rb_iSize B" "rb_iLastAckPos B' = rb_iLastAckPos B" "\<And>q. map_option cu_Packet (get_unit q Q') = map_option cu_Packet (get_unit q Q)"
    "rd (rb_pUnit B') i = (if \<exists>j < k. i = (p + int j) mod rb_iSize B then Some None else rd (rb_pUnit B) i)" "held B Q \<Longrightarrow> held B' Q'"
  using assms unfolding rb_taken_def by (blast, blast, auto simp: option.map_comp o_def)

lemma rcv_read:
  assumes I: "rcv_inv dat r c S ds Q v" and len: "0 \<le> len" and h: "held (v_pRcvBuffer v) Q"
  defines "B \<equiv> v_pRcvBuffer v"
  obtains B' Q' ds' where "readBuffer len B Q = Some (int (length (take (nat len) (unread B ds))), take (nat len) (unread B ds), B', Q')"
    "unread B' ds' = drop (nat len) (unread B ds)" "rcv_inv dat r c S ds' Q' (v\<lparr>v_pRcvBuffer := B'\<rparr>)" "held B' Q'" "rb_iSize B' = rb_iSize B"
    "length ds' \<le> length ds"
proof -
  note D = rcv_invD [OF I, folded B_def]
  note V = rb_viewD [OF D(1)]
  let ?N = "rb_iSize B" and ?p = "rb_iStartPos B"
  obtain B' Q' ds' where R: "readBuffer len B Q = Some (int (length (take (nat len) (unread B ds))), take (nat len) (unread B ds), B', Q')"
    "rb_view (rb_iStartPos B') B' Q' ds'" "unread B' ds' = drop (nat len) (unread B ds)" "length ds' \<le> length ds"
    "rb_taken (length ds - length ds') ?p B Q B' Q'"
    using readBuffer_view [OF D(1) len] by (elim exE conjE) (rule that)
  note T = rb_takenD [OF R(5)]
  let ?k = "length ds - length ds'"
  have pl: "place B' r n = place B r n" for n using T(1,2) by (simp add: place_def)
  have data: "chunk (place B' r n) B' Q' = Some (dat n)" if "n \<in> {r..c} - S" for n
  proof -
    have n: "r \<le> n" "int (length ds) + (n - r) < ?N" using that D(7) by auto
    have "\<not> (\<exists>j < ?k. place B r n = (?p + int j) mod ?N)"
      using place_unread [OF D(1) _ n] by (metis diff_le_self less_le_trans)
    then have "rd (rb_pUnit B') (place B r n) = rd (rb_pUnit B) (place B r n)" unfolding T(4) by (rule if_not_P)
    from chunk_cong [OF this T(3)] show ?thesis using D(10) that pl by simp
  qed
  have gap: "rd (rb_pUnit B') (place B' r n) = Some None" if n: "r \<le> n" "n \<in> S \<or> c < n" "int (length ds') + (n - r) < ?N" for n
  proof (cases "int (length ds) + (n - r) < ?N")
    case True
    then show ?thesis unfolding pl T(4) using D(11) [OF n(1,2)] by simp
  next
    case False
    let ?j = "nat (int (length ds) + (n - r) - ?N)"
    have j: "?j < ?k" "int ?j = int (length ds) + (n - r) - ?N" using False n R(4) by linarith+
    have "place B r n = (?p + (int (length ds) + (n - r))) mod ?N"
      using V(6) by (simp add: place_def mod_add_left_eq add.assoc)
    also have "\<dots> = (?p + (int (length ds) + (n - r)) + (- 1) * ?N) mod ?N" by (rule mod_mult_self1 [symmetric])
    also have "\<dots> = (?p + int ?j) mod ?N" unfolding j(2) by (simp add: algebra_simps)
    finally show ?thesis unfolding pl T(4) using j(1) by auto
  qed
  have "int (length ds') + (c - r) + 1 < ?N" using D(7) R(4) by linarith
  then have "rcv_inv dat r c S ds' Q' (v\<lparr>v_pRcvBuffer := B'\<rparr>)"
    unfolding rcv_inv_def Let_def using R(2) D data gap T(1) by simp
  then show ?thesis using that R T(1) T(5) h unfolding B_def by blast
qed

end
