(* ===== verification/Spec2Isabelle.thy ===== *)
theory Spec2Isabelle
  imports IdProps RtProps MsgProps OpMgrProps UdtProps UdtBufProps UdtQueueProps UdtSetupProps UdtConnProps UdtSocketProps UdtRcvRead
begin

text \<open>
  A verification of the Kademlia node in \<open>src/\<close> and of the UDT transport it ships with in \<open>udt4/\<close>.

  \<^bold>\<open>The program.\<close> A node (\<open>src/KadOpMgr.h\<close>) keeps a routing table of contacts (\<open>KadRtNode.h\<close>,
  \<open>KadContact.h\<close>) ordered by the XOR distance of 160-bit identifiers (\<open>KadNodeId.h\<close>, \<open>KadNodeId.cpp\<close>). It answers
  PING and FIND requests and looks up keys by asking, three at a time, the nearest contacts it knows for
  nearer ones; messages (\<open>KadMsg.h\<close>) are MessagePack values in datagrams. Responses are matched to requests by a
  random number, and a timer fails requests that get none. UDT (\<open>udt4/src\<close>) is a reliable transport over
  datagrams: the sender numbers packets on a circle of \<open>2 ^ 31\<close> (\<open>common.h\<close>), keeps them in a ring of blocks until
  they are acknowledged (\<open>buffer.cpp\<close>) and keeps a list of the lost ones (\<open>list.cpp\<close>); the receiver takes units from
  a queue (\<open>queue.cpp\<close>), stores them by their offset, lists what is missing and reports it. A connection (\<open>core.cpp\<close>)
  puts these together: it is set up by a handshake, sends by a schedule (\<open>queue.cpp\<close>) whose pace a congestion
  control (\<open>ccc.cpp\<close>) sets, remembers what it measured of its peers (\<open>cache.cpp\<close>), and offers the application
  calls that send and receive.

  \<^bold>\<open>The theories, in the order of their imports.\<close>
  \<^item> \<open>KadPrelude\<close>, \<open>KadConfig\<close>: machine integers, byte lists, the constants of \<open>KadConfig.h.in\<close>.
  \<^item> \<open>KadNodeId\<close>, \<open>KadIdMetric\<close>, \<open>KadIdArith\<close>, \<open>KadIdText\<close>, \<open>IdProps\<close>: \<open>TKadId\<close> as a list of bytes: the metric, arithmetic
    modulo a power of two, the text format, the hashes.
  \<^item> \<open>KadContact\<close>, \<open>KadRtNode\<close>, \<open>RtNodeSpec\<close>, \<open>RtNodeQuery\<close>, \<open>RtTable\<close>, \<open>RtProps\<close>: \<open>TKadRtNode\<close> as a binary tree whose leaves hold
    addresses of contacts in a store (\<open>cstore\<close>), since the same contact is shared by lists; well-formedness and
    what each operation does to the set of contacts.
  \<^item> \<open>XPlat\<close>, \<open>KadMsg\<close>, \<open>MsgProps\<close>: socket addresses, packing and unpacking of the messages.
  \<^item> \<open>KadOpState\<close>, \<open>KadLookup\<close>, \<open>LookupList\<close>, \<open>KadOpMgr\<close>, \<open>OpMgrInv\<close>, \<open>OpMgrStats\<close>, \<open>OpMgrDemo\<close>, \<open>OpMgrProps\<close>: the state \<open>op_mgr\<close>, the iterative
    lookup \<open>KadIterativeFindOp\<close>, the handlers \<open>RecieveCbk\<close>, \<open>HandleResponse\<close>, \<open>HandleTimeout\<close>, the operations \<open>Find\<close>, \<open>Ping\<close>,
    \<open>Join\<close>, \<open>Leave\<close>, \<open>RefreshAllBuckets\<close>, the step relation of the handlers and its invariant.
  \<^item> \<open>UdtSeqNo\<close>, \<open>UdtMem\<close>: sequence numbers; C arrays and division in the \<open>option\<close> monad, where \<open>None\<close> is
    undefined behaviour or a loop that does not end.
  \<^item> \<open>UdtIntervals\<close>, \<open>UdtSndLossList\<close>, \<open>UdtSndLossSpec\<close>, \<open>UdtSndLossRemove\<close>, \<open>UdtSndLossInsert\<close>, \<open>UdtRcvLossList\<close>, \<open>UdtRcvLossSpec\<close>,
    \<open>UdtRcvLossRemove\<close>, \<open>UdtNak\<close>, \<open>UdtLossIface\<close>: the loss lists, arrays of linked intervals placed by their offset from
    the head; that they implement sets of numbers; the loss report from one to the other; the
    interface \<open>loss_list\<close> that both implement.
  \<^item> \<open>UdtPacket\<close>, \<open>UdtWindow\<close>, \<open>UdtAckWindow\<close>, \<open>UdtProps\<close>: packets and handshakes, the windows of acknowledgements and
    of arrival times, the properties of these parts.
  \<^item> \<open>UdtSndBuffer\<close>, \<open>UdtSndBufferSpec\<close>, \<open>UdtUnitQueue\<close>, \<open>UdtRcvBuffer\<close>, \<open>UdtRcvBufferSpec\<close>, \<open>UdtBufProps\<close>: the buffers and the unit
    queue, and that the first is a queue of packets and the second a stream.
  \<^item> \<open>UdtSndUList\<close>, \<open>UdtSndUListSpec\<close>, \<open>UdtQueueProps\<close>: the heap of the sockets that have something to send, and that it hands
    them out in the order of their times.
  \<^item> \<open>UdtError\<close>, \<open>UdtAddr\<close>, \<open>UdtCache\<close>: exceptions as values, addresses, the cache of network information.
  \<^item> \<open>UdtCC\<close>, \<open>UdtCCDefault\<close>: the congestion control as a record of methods over an extensible state, and the default one.
  \<^item> \<open>UdtCore\<close>, \<open>UdtCoreCtrl\<close>, \<open>UdtCoreData\<close>: the record \<open>cudt\<close> of a connection, \<open>sendCtrl\<close>, \<open>processCtrl\<close> with a definition per
    packet type, \<open>packData\<close>, \<open>processData\<close> and \<open>checkTimers\<close>. Calls of other objects (queues, epoll, signals) are events.
  \<^item> \<open>UdtOptions\<close>, \<open>UdtConnect\<close>, \<open>UdtIO\<close>: socket options, opening, connecting, accepting and closing, the calls of the application.
  \<^item> \<open>UdtSender\<close>, \<open>UdtSenderAck\<close>, \<open>UdtSenderDrop\<close>, \<open>UdtReceiver\<close>, \<open>UdtReceiverData\<close>, \<open>UdtReceiverAck\<close>, \<open>UdtRcvRead\<close>: the invariants of the two halves of a connection,
    with absolute packet numbers, and that every operation of a half keeps them.
  \<^item> \<open>UdtSetup\<close>, \<open>UdtDemo\<close>, \<open>UdtSetupProps\<close>, \<open>UdtConnProps\<close>, \<open>UdtSocketProps\<close>: that a handshake establishes both invariants; concrete
    connections for the witnesses; the properties of connections.

  \<^bold>\<open>How state and effects are modelled.\<close> The classes are records with the names of the members, prefixed
  where two classes share one; a method takes and returns the record. Pointers are addresses into an
  explicit store. The operation manager returns errors as \<open>Inl\<close>, the UDT classes are in the \<open>option\<close> monad.
  The clock, random numbers, memory that \<open>new\<close> leaves uninitialised and the network are arguments. A handler of
  the operation manager is one step, as far as it holds \<open>mLock\<close>: \<open>RecieveCbk\<close> releases it between recording the
  sender and dispatching the message, so besides the whole handler (\<open>Receive\<close>) the step relation has its two
  parts, \<open>Enter\<close> (\<open>RecieveHead\<close>) and \<open>Switch\<close> (\<open>Dispatch\<close>, of any message), between which every other handler can run; what
  \<open>Dispatch\<close> does without the lock before it takes it again (counting traffic, sending an answer) is not divided further. The
  pauses of \<open>RefreshAllBuckets\<close> between its lookups are not represented. Loops are structural where the bound is known before the loop,
  \<open>function\<close> with a measure, or \<open>partial_function (option)\<close> with a proof that they return. In \<open>core.cpp\<close> the
  members of type \<open>double\<close> are reals and 64-bit counters of time and traffic are unbounded integers; a quotient that the code rounds is a
  parameter (\<open>e_ceil_quot\<close>); sums and products of \<open>int\<close> that can leave their range wrap around (\<open>i32\<close>), and in the running averages
  of an acknowledgement they are undefined (\<open>ck\<close>, \<open>None\<close>); a wait is a function, or a list of what each turn sees.

  \<^bold>\<open>Bounds.\<close> The UDT lists are proved for sizes below \<open>2 ^ 30 - 1\<close> (\<open>m_iSeqNoTH\<close>), the range in which \<open>seqcmp\<close> is
  meaningful, and for numbers that fit the window of the list. The number of lookups of \<open>RefreshAllBuckets\<close>
  and the depth of the routing table are those of 160-bit identifiers.

  \<^bold>\<open>Not modelled.\<close> Threads, sockets and files (\<open>KadOverIP.h\<close>, \<open>channel.cpp\<close>, the programs), signatures
  (\<open>KadRSA.h\<close>: calls into Crypto++), the test framework under \<open>cxxtest/\<close>. Of UDT: the table of sockets and its threads
  (\<open>api.cpp\<close>), the worker threads, hash table and rendezvous list of \<open>queue.cpp\<close>, \<open>epoll.cpp\<close>, the digest of \<open>md5.cpp\<close>
  (a parameter of the connection setup) and the timers and guards of \<open>common.cpp\<close> (system calls). Allocation does not fail.
\<close>

end
